(* ===== verification/Prelude.thy ===== *)
theory Prelude
  imports Main "HOL-Library.Word"
begin

text \<open>
  Shared material of the development: the types that name the machine data of the
  Rust sources (bytes, byte vectors, \<open>Result\<close>), the little- and big-endian layout of
  fixed width integers, the UTF-8 check of the standard library, and the generic
  lemmas on lists and words used by the component theories.  The collections
  \<open>wire_simps\<close> (byte layout), \<open>rd_simps\<close> (reader steps) and \<open>flag_simps\<close> (bit masks of
  one byte) are filled by the components and used by their proofs.
\<close>

named_theorems wire_simps
named_theorems rd_simps
named_theorems flag_simps

unbundle bit_operations_syntax

section \<open>Types\<close>

text \<open>
  A byte is a \<open>u8\<close>; a byte vector or slice a list.  \<open>i16\<close> and \<open>u16\<close> (and the other
  widths) share one word type, read with \<open>sint\<close> or \<open>unat\<close>; \<open>f32\<close> and \<open>f64\<close> values are
  their IEEE-754 bit patterns, which is what the sources move around.  A Rust
  \<open>String\<close> is the list of its UTF-8 bytes.
\<close>

type_synonym byte = "8 word"
type_synonym bytes = "8 word list"
type_synonym u16 = "16 word"
type_synonym u32 = "32 word"
type_synonym u64 = "64 word"
type_synonym f32bits = "32 word"
type_synonym f64bits = "64 word"
type_synonym rstring = "8 word list"

abbreviation Err :: "'e \<Rightarrow> 'e + 'a" where "Err \<equiv> Inl"
abbreviation Ok :: "'a \<Rightarrow> 'e + 'a" where "Ok \<equiv> Inr"

text \<open>An ASCII literal of the sources as the bytes of its UTF-8 encoding.\<close>

definition ascii :: "string \<Rightarrow> rstring" where
  "ascii s = map of_char s"

section \<open>Fixed width integers as bytes\<close>

primrec nat_le :: "nat \<Rightarrow> nat \<Rightarrow> bytes" where
  "nat_le 0 x = []"
| "nat_le (Suc n) x = of_nat (x mod 256) # nat_le n (x div 256)"

primrec le_nat :: "bytes \<Rightarrow> nat" where
  "le_nat [] = 0"
| "le_nat (b # bs) = unat b + 256 * le_nat bs"

definition le_bytes :: "nat \<Rightarrow> 'a::len word \<Rightarrow> bytes" where
  "le_bytes n w = nat_le n (unat w)"

definition be_bytes :: "nat \<Rightarrow> 'a::len word \<Rightarrow> bytes" where
  "be_bytes n w = rev (le_bytes n w)"

definition from_le_bytes :: "bytes \<Rightarrow> 'a::len word" where
  "from_le_bytes bs = of_nat (le_nat bs)"

definition from_be_bytes :: "bytes \<Rightarrow> 'a::len word" where
  "from_be_bytes bs = from_le_bytes (rev bs)"

lemma unat_less_power: "unat (w :: 'a::len word) < 2 ^ LENGTH('a)"
  by (rule unsigned_less)

lemma length_nat_le [simp, wire_simps]: "length (nat_le n x) = n"
  by (induction n arbitrary: x) auto

lemma nat_le_numeral [simp]:
  "nat_le (numeral k) x = of_nat (x mod 256) # nat_le (pred_numeral k) (x div 256)"
  by (simp only: numeral_eq_Suc[of k] nat_le.simps)

lemma length_le_bytes [simp, wire_simps]: "length (le_bytes n w) = n"
  by (simp add: le_bytes_def)

lemma length_be_bytes [simp, wire_simps]: "length (be_bytes n w) = n"
  by (simp add: be_bytes_def)

lemma le_nat_nat_le: "le_nat (nat_le n x) = x mod 256 ^ n"
proof (induction n arbitrary: x)
  case (Suc n)
  have "unat (of_nat (x mod 256) :: byte) = x mod 256"
    by (simp add: unat_of_nat)
  then have "le_nat (nat_le (Suc n) x) = x mod 256 + 256 * (x div 256 mod 256 ^ n)"
    by (simp add: Suc)
  also have "\<dots> = x mod (256 * 256 ^ n)"
    by (simp only: mod_mult2_eq)
  finally show ?case by simp
qed simp

lemma le_nat_less: "le_nat bs < 256 ^ length bs"
proof (induction bs)
  case (Cons b bs)
  have "unat b < 256"
    using unat_less_power[of b] by simp
  then show ?case
    using Cons by simp
qed simp

lemma nat_le_le_nat: "nat_le (length bs) (le_nat bs) = bs"
proof (induction bs)
  case (Cons b bs)
  have b: "unat b < 256"
    using unat_less_power[of b] by simp
  then have "(unat b + 256 * le_nat bs) div 256 = le_nat bs"
    by simp
  with b Cons show ?case
    by simp
qed simp

lemma from_le_le_bytes [simp, wire_simps]:
  fixes w :: "'a::len word"
  assumes "LENGTH('a) \<le> 8 * n"
  shows "from_le_bytes (le_bytes n w) = w"
proof -
  have "(2::nat) ^ LENGTH('a) \<le> 2 ^ (8 * n)"
    using assms by (intro power_increasing) auto
  then have "(2::nat) ^ LENGTH('a) \<le> 256 ^ n"
    by (simp add: power_mult)
  with unat_less_power[of w] have "unat w < 256 ^ n"
    by (rule less_le_trans)
  then show ?thesis
    by (simp add: from_le_bytes_def le_bytes_def le_nat_nat_le)
qed

lemma from_be_be_bytes [simp, wire_simps]:
  fixes w :: "'a::len word"
  assumes "LENGTH('a) \<le> 8 * n"
  shows "from_be_bytes (be_bytes n w) = w"
  using assms by (simp add: from_be_bytes_def be_bytes_def)

lemma le_bytes_from_le:
  assumes "8 * length bs \<le> LENGTH('a::len)"
  shows "le_bytes (length bs) (from_le_bytes bs :: 'a word) = bs"
proof -
  have "(2::nat) ^ (8 * length bs) \<le> 2 ^ LENGTH('a)"
    using assms by (intro power_increasing) auto
  then have "le_nat bs < 2 ^ LENGTH('a)"
    using le_nat_less[of bs] by (simp add: power_mult)
  then show ?thesis
    by (simp add: le_bytes_def from_le_bytes_def unat_of_nat nat_le_le_nat)
qed

lemma be_bytes_from_be:
  assumes "8 * length bs \<le> LENGTH('a::len)"
  shows "be_bytes (length bs) (from_be_bytes bs :: 'a word) = bs"
  using le_bytes_from_le[of "rev bs", where 'a='a] assms
  by (simp add: be_bytes_def from_be_bytes_def)

lemma le_bytes_inject:
  fixes v w :: "'a::len word"
  assumes "LENGTH('a) \<le> 8 * n"
  shows "le_bytes n v = le_bytes n w \<longleftrightarrow> v = w"
  using from_le_le_bytes[OF assms] by metis

section \<open>Sign extension\<close>

lemma not_sless_0: "\<not> (w <s (0 :: 'a::len word)) \<longleftrightarrow> 0 \<le>s w"
  by (simp add: word_sless_alt word_sle_eq not_less)

lemma signed_u64:
  assumes "0 \<le>s (w :: 32 word)"
  shows "unat (signed w :: 64 word) = unat w"
proof -
  have s: "0 \<le> sint w"
    using assms by (simp add: word_sle_eq)
  have b: "sint w < 2 ^ 31"
    using sint_less[of w] by simp
  have "uint (signed w :: 64 word) = sint w mod 2 ^ 64"
    unfolding scast_eq uint_word_of_int by simp
  also have "\<dots> = sint w"
    using s b by simp
  finally have 1: "uint (signed w :: 64 word) = sint w" .
  have "uint w = take_bit 32 (sint w)"
    using uint_sint[of w] by (simp only: len_num1 len_bit0) simp
  also have "\<dots> = sint w"
    using s b by (intro take_bit_int_eq_self) auto
  finally show ?thesis
    by (simp only: unat_eq_nat_uint 1)
qed

lemma sint_of_nat_32: "n < 2 ^ 31 \<Longrightarrow> sint (of_nat n :: 32 word) = int n"
  by (simp add: signed_of_nat signed_take_bit_int_eq_self)

section \<open>One byte, bit by bit\<close>

lemma byte_eqI:
  fixes a b :: byte
  assumes "bit a 0 = bit b 0" "bit a 1 = bit b 1" "bit a 2 = bit b 2" "bit a 3 = bit b 3"
    and "bit a 4 = bit b 4" "bit a 5 = bit b 5" "bit a 6 = bit b 6" "bit a 7 = bit b 7"
  shows "a = b"
proof (rule bit_word_eqI)
  fix n assume "n < LENGTH(8)"
  then have "n = 0 \<or> n = 1 \<or> n = 2 \<or> n = 3 \<or> n = 4 \<or> n = 5 \<or> n = 6 \<or> n = 7"
    by auto
  then show "bit a n = bit b n"
    using assms by auto
qed

section \<open>Numbers as text\<close>

fun show_nat :: "nat \<Rightarrow> rstring" where
  "show_nat n = (if n < 10 then [48 + of_nat n] else show_nat (n div 10) @ [48 + of_nat (n mod 10)])"

declare show_nat.simps [simp del]

definition show_int :: "int \<Rightarrow> rstring" where
  "show_int k = (if k < 0 then 45 # show_nat (nat (- k)) else show_nat (nat k))"

definition hex_digit :: "nat \<Rightarrow> byte" where
  "hex_digit n = (if n < 10 then 48 + of_nat n else 55 + of_nat n)"

text \<open>The format \<open>0x\<open>{:02X}\<close>\<close>.\<close>

definition show_hex2 :: "byte \<Rightarrow> rstring" where
  "show_hex2 b = [48, 120, hex_digit (unat b div 16), hex_digit (unat b mod 16)]"

section \<open>UTF-8\<close>

definition utf8_cont :: "byte \<Rightarrow> bool" where
  "utf8_cont b \<longleftrightarrow> 0x80 \<le> b \<and> b \<le> 0xBF"

text \<open>
  The check of \<open>std::str::from_utf8\<close> (RFC 3629: no overlong forms, no surrogates,
  nothing above U+10FFFF).
\<close>

fun utf8_valid :: "bytes \<Rightarrow> bool" where
  "utf8_valid [] = True"
| "utf8_valid (b # bs) =
    (if b < 0x80 then utf8_valid bs
     else if 0xC2 \<le> b \<and> b \<le> 0xDF then
       (case bs of c # r \<Rightarrow> utf8_cont c \<and> utf8_valid r | [] \<Rightarrow> False)
     else if 0xE0 \<le> b \<and> b \<le> 0xEF then
       (case bs of
          c # d # r \<Rightarrow> utf8_cont c \<and> utf8_cont d \<and> (b = 0xE0 \<longrightarrow> 0xA0 \<le> c) \<and>
            (b = 0xED \<longrightarrow> c \<le> 0x9F) \<and> utf8_valid r
        | _ \<Rightarrow> False)
     else if 0xF0 \<le> b \<and> b \<le> 0xF4 then
       (case bs of
          c # d # e # r \<Rightarrow> utf8_cont c \<and> utf8_cont d \<and> utf8_cont e \<and>
            (b = 0xF0 \<longrightarrow> 0x90 \<le> c) \<and> (b = 0xF4 \<longrightarrow> c \<le> 0x8F) \<and> utf8_valid r
        | _ \<Rightarrow> False)
     else False)"

lemma utf8_valid_ascii_bytes: "\<forall>b \<in> set bs. b < 0x80 \<Longrightarrow> utf8_valid bs"
  by (induction bs rule: utf8_valid.induct) auto

section \<open>Lists\<close>

lemma take_append_eq: "n \<le> length xs \<Longrightarrow> take n (xs @ ys) = take n xs"
  by simp

lemma drop_append_eq: "n \<le> length xs \<Longrightarrow> drop n (xs @ ys) = drop n xs @ ys"
  by simp

lemma take_length_append [simp]: "n = length xs \<Longrightarrow> take n (xs @ ys) = xs"
  by simp

lemma drop_length_append [simp]: "n = length xs \<Longrightarrow> drop n (xs @ ys) = ys"
  by simp

lemma length_4_cases:
  assumes "length xs = 4"
  obtains a b c d where "xs = [a, b, c, d]"
  using assms by (auto simp: length_Suc_conv numeral_eq_Suc)

lemma length_8_cases:
  assumes "length xs = 8"
  obtains a b c d e f g h where "xs = [a, b, c, d, e, f, g, h]"
  using assms by (auto simp: length_Suc_conv numeral_eq_Suc)

end
