(* ===== verification/Header.thy ===== *)
theory Header
  imports Prelude
begin

text \<open>
  The eight byte PVAccess message header (\<open>aura-net/src/codec/header.rs\<close>): the
  segmentation and byte order bits of the flags byte, the reads and writes of fixed
  width integers in either byte order, and the header itself with its constructors,
  predicates, codec and validation.
\<close>

unbundle bit_operations_syntax

section \<open>Constants\<close>

definition PVA_MAGIC :: byte where "PVA_MAGIC = 0xCA"
definition PVA_VERSION :: byte where "PVA_VERSION = 2"
definition PVA_VERSION_MIN :: byte where "PVA_VERSION_MIN = 1"
definition HEADER_SIZE :: nat where "HEADER_SIZE = 8"
definition MAX_PAYLOAD_SIZE :: u32 where "MAX_PAYLOAD_SIZE = 16 * 1024 * 1024"

definition CONTROL :: byte where "CONTROL = 0x01"
definition SEG_MASK :: byte where "SEG_MASK = 0x30"
definition SEG_NONE :: byte where "SEG_NONE = 0x00"
definition SEG_FIRST :: byte where "SEG_FIRST = 0x10"
definition SEG_LAST :: byte where "SEG_LAST = 0x20"
definition SEG_MIDDLE :: byte where "SEG_MIDDLE = 0x30"
definition FROM_SERVER :: byte where "FROM_SERVER = 0x40"
definition BIG_ENDIAN :: byte where "BIG_ENDIAN = 0x80"

lemmas flag_consts = CONTROL_def SEG_MASK_def SEG_NONE_def SEG_FIRST_def SEG_LAST_def
  SEG_MIDDLE_def FROM_SERVER_def BIG_ENDIAN_def

section \<open>Segmentation\<close>

datatype Segmentation = SegNone | SegFirst | SegLast | SegMiddle

definition seg_from_flags :: "byte \<Rightarrow> Segmentation" where
  "seg_from_flags f =
    (let m = f AND SEG_MASK in
     if m = SEG_NONE then SegNone
     else if m = SEG_FIRST then SegFirst
     else if m = SEG_LAST then SegLast
     else if m = SEG_MIDDLE then SegMiddle
     else SegNone)"

fun seg_to_bits :: "Segmentation \<Rightarrow> byte" where
  "seg_to_bits SegNone = SEG_NONE"
| "seg_to_bits SegFirst = SEG_FIRST"
| "seg_to_bits SegLast = SEG_LAST"
| "seg_to_bits SegMiddle = SEG_MIDDLE"

definition seg_is_segmented :: "Segmentation \<Rightarrow> bool" where
  "seg_is_segmented s = (s \<noteq> SegNone)"

fun seg_display :: "Segmentation \<Rightarrow> rstring" where
  "seg_display SegNone = ascii ''complete''"
| "seg_display SegFirst = ascii ''first''"
| "seg_display SegLast = ascii ''last''"
| "seg_display SegMiddle = ascii ''middle''"

section \<open>Byte order\<close>

datatype ByteOrder = LittleEndian | BigEndian

definition order_from_flags :: "byte \<Rightarrow> ByteOrder" where
  "order_from_flags f = (if f AND BIG_ENDIAN \<noteq> 0 then BigEndian else LittleEndian)"

fun order_to_bits :: "ByteOrder \<Rightarrow> byte" where
  "order_to_bits LittleEndian = 0"
| "order_to_bits BigEndian = BIG_ENDIAN"

text \<open>
  The source has one \<open>read_*\<close> per machine type, each choosing between \<open>from_le_bytes\<close>
  and \<open>from_be_bytes\<close>; here they are one function, used at the word length of the
  type.  Floats are read as their bit patterns.
\<close>

fun order_read :: "ByteOrder \<Rightarrow> bytes \<Rightarrow> 'a::len word" where
  "order_read LittleEndian bs = from_le_bytes bs"
| "order_read BigEndian bs = from_be_bytes bs"

fun order_write :: "ByteOrder \<Rightarrow> nat \<Rightarrow> 'a::len word \<Rightarrow> bytes" where
  "order_write LittleEndian n w = le_bytes n w"
| "order_write BigEndian n w = be_bytes n w"

fun order_display :: "ByteOrder \<Rightarrow> rstring" where
  "order_display LittleEndian = ascii ''LE''"
| "order_display BigEndian = ascii ''BE''"

lemma length_order_write [simp, wire_simps]: "length (order_write ord n w) = n"
  by (cases ord) auto

lemma order_read_write [simp, wire_simps]:
  fixes w :: "'a::len word"
  assumes "LENGTH('a) \<le> 8 * n"
  shows "order_read ord (order_write ord n w) = w"
  using assms by (cases ord) auto

lemma order_write_read:
  assumes "8 * length bs \<le> LENGTH('a::len)"
  shows "order_write ord (length bs) (order_read ord bs :: 'a word) = bs"
  using assms by (cases ord) (auto simp: le_bytes_from_le be_bytes_from_be)

section \<open>The header\<close>

record pva_header =
  hdr_version :: byte
  hdr_flags :: byte
  hdr_command :: byte
  hdr_payload_size :: "32 word"

definition header_app :: "byte \<Rightarrow> 32 word \<Rightarrow> pva_header" where
  "header_app cmd sz = \<lparr> hdr_version = PVA_VERSION, hdr_flags = 0,
     hdr_command = cmd, hdr_payload_size = sz \<rparr>"

definition header_server :: "byte \<Rightarrow> 32 word \<Rightarrow> pva_header" where
  "header_server cmd sz = \<lparr> hdr_version = PVA_VERSION, hdr_flags = FROM_SERVER,
     hdr_command = cmd, hdr_payload_size = sz \<rparr>"

definition header_ctrl :: "byte \<Rightarrow> 32 word \<Rightarrow> pva_header" where
  "header_ctrl cmd v = \<lparr> hdr_version = PVA_VERSION, hdr_flags = CONTROL,
     hdr_command = cmd, hdr_payload_size = v \<rparr>"

definition with_byte_order :: "ByteOrder \<Rightarrow> pva_header \<Rightarrow> pva_header" where
  "with_byte_order ord h = h \<lparr> hdr_flags := (hdr_flags h AND NOT BIG_ENDIAN) OR order_to_bits ord \<rparr>"

definition with_segmentation :: "Segmentation \<Rightarrow> pva_header \<Rightarrow> pva_header" where
  "with_segmentation seg h = h \<lparr> hdr_flags := (hdr_flags h AND NOT SEG_MASK) OR seg_to_bits seg \<rparr>"

definition is_control :: "pva_header \<Rightarrow> bool" where
  "is_control h = (hdr_flags h AND CONTROL \<noteq> 0)"

definition is_application :: "pva_header \<Rightarrow> bool" where
  "is_application h = (\<not> is_control h)"

definition is_from_server :: "pva_header \<Rightarrow> bool" where
  "is_from_server h = (hdr_flags h AND FROM_SERVER \<noteq> 0)"

definition is_from_client :: "pva_header \<Rightarrow> bool" where
  "is_from_client h = (\<not> is_from_server h)"

definition hdr_byte_order :: "pva_header \<Rightarrow> ByteOrder" where
  "hdr_byte_order h = order_from_flags (hdr_flags h)"

definition hdr_segmentation :: "pva_header \<Rightarrow> Segmentation" where
  "hdr_segmentation h = seg_from_flags (hdr_flags h)"

definition hdr_is_segmented :: "pva_header \<Rightarrow> bool" where
  "hdr_is_segmented h = seg_is_segmented (hdr_segmentation h)"

text \<open>\<open>decode\<close> takes the eight byte array \<open>buf\<close>; other lengths cannot occur in the source.\<close>

definition header_decode :: "bytes \<Rightarrow> pva_header option" where
  "header_decode buf =
    (if buf ! 0 \<noteq> PVA_MAGIC then None
     else
       (let f = buf ! 2; ord = order_from_flags f in
        Some \<lparr> hdr_version = buf ! 1, hdr_flags = f, hdr_command = buf ! 3,
               hdr_payload_size = order_read ord [buf ! 4, buf ! 5, buf ! 6, buf ! 7] \<rparr>))"

definition header_encode :: "pva_header \<Rightarrow> bytes" where
  "header_encode h =
    [PVA_MAGIC, hdr_version h, hdr_flags h, hdr_command h]
      @ order_write (hdr_byte_order h) 4 (hdr_payload_size h)"

text \<open>\<open>encode_into\<close>: the source panics on a slice shorter than the header.\<close>

definition header_encode_into :: "pva_header \<Rightarrow> bytes \<Rightarrow> bytes option" where
  "header_encode_into h buf =
    (if length buf < HEADER_SIZE then None else Some (header_encode h @ drop HEADER_SIZE buf))"

datatype HeaderError =
    HeBadMagic byte
  | HeUnsupportedVersion byte
  | HeNegativePayload "32 word"
  | HePayloadTooLarge u32

definition header_validate :: "pva_header \<Rightarrow> HeaderError + unit" where
  "header_validate h =
    (if hdr_version h < PVA_VERSION_MIN then Err (HeUnsupportedVersion (hdr_version h))
     else if hdr_payload_size h <s 0 \<and> is_application h
       then Err (HeNegativePayload (hdr_payload_size h))
     else if is_application h \<and> hdr_payload_size h > MAX_PAYLOAD_SIZE
       then Err (HePayloadTooLarge (hdr_payload_size h))
     else Ok ())"

section \<open>Flag bits\<close>

lemma byte_and_eq_0: "(f AND m = (0::byte)) = (\<forall>i<8. \<not> (bit f i \<and> bit m i))"
proof
  assume "f AND m = 0"
  then have "bit (f AND m) i = False" for i
    by simp
  then show "\<forall>i<8. \<not> (bit f i \<and> bit m i)"
    by (simp add: bit_and_iff)
next
  assume a: "\<forall>i<8. \<not> (bit f i \<and> bit m i)"
  show "f AND m = 0"
    by (rule byte_eqI) (use a in \<open>simp_all add: bit_and_iff\<close>)
qed

lemma seg_to_from [simp]: "seg_from_flags ((f AND NOT SEG_MASK) OR seg_to_bits s) = s"
proof -
  have "((f AND NOT SEG_MASK) OR seg_to_bits s) AND SEG_MASK = seg_to_bits s"
    by (rule byte_eqI; cases s) (simp_all add: bit_and_iff bit_or_iff bit_not_iff flag_consts)
  then show ?thesis
    by (cases s) (simp_all add: seg_from_flags_def flag_consts)
qed

lemma order_to_from [simp]:
  "order_from_flags ((f AND NOT BIG_ENDIAN) OR order_to_bits ord) = ord"
proof -
  have "((f AND NOT BIG_ENDIAN) OR order_to_bits ord) AND BIG_ENDIAN = order_to_bits ord"
    by (rule byte_eqI; cases ord) (simp_all add: bit_and_iff bit_or_iff bit_not_iff flag_consts)
  then show ?thesis
    by (cases ord) (simp_all add: order_from_flags_def flag_consts)
qed

lemma seg_bits_complete: "f AND SEG_MASK \<in> {SEG_NONE, SEG_FIRST, SEG_LAST, SEG_MIDDLE}"
proof -
  have "f AND SEG_MASK = seg_to_bits
      (if bit f 4 then if bit f 5 then SegMiddle else SegFirst
       else if bit f 5 then SegLast else SegNone)"
    by (rule byte_eqI) (simp_all add: bit_and_iff flag_consts)
  then show ?thesis
    by (auto split: if_splits)
qed

lemma seg_masked: "f AND SEG_MASK = seg_to_bits (seg_from_flags f)"
  using seg_bits_complete[of f] by (auto simp: seg_from_flags_def Let_def flag_consts)

lemma order_from_flags_bit: "order_from_flags f = (if bit f 7 then BigEndian else LittleEndian)"
  by (auto simp: order_from_flags_def byte_and_eq_0 BIG_ENDIAN_def numeral_eq_Suc less_Suc_eq)

section \<open>Setters touch their own bits only\<close>

lemma segmentation_with_segmentation [simp]:
  "hdr_segmentation (with_segmentation s h) = s"
  by (simp add: hdr_segmentation_def with_segmentation_def)

lemma byte_order_with_segmentation [simp]:
  "hdr_byte_order (with_segmentation s h) = hdr_byte_order h"
  by (cases s)
    (simp_all add: hdr_byte_order_def with_segmentation_def order_from_flags_bit bit_and_iff
      bit_or_iff bit_not_iff flag_consts)

lemma is_control_bit: "is_control h = bit (hdr_flags h) 0"
  by (auto simp: is_control_def byte_and_eq_0 CONTROL_def numeral_eq_Suc less_Suc_eq)

lemma is_from_server_bit: "is_from_server h = bit (hdr_flags h) 6"
  by (auto simp: is_from_server_def byte_and_eq_0 FROM_SERVER_def numeral_eq_Suc less_Suc_eq)

lemma is_control_with_segmentation [simp]:
  "is_control (with_segmentation s h) = is_control h"
  by (cases s) (simp_all add: is_control_bit with_segmentation_def bit_and_iff bit_or_iff
      bit_not_iff flag_consts)

lemma is_from_server_with_segmentation [simp]:
  "is_from_server (with_segmentation s h) = is_from_server h"
  by (cases s) (simp_all add: is_from_server_bit with_segmentation_def bit_and_iff bit_or_iff
      bit_not_iff flag_consts)

lemma with_segmentation_fields [simp]:
  "hdr_payload_size (with_segmentation s h) = hdr_payload_size h"
  "hdr_command (with_segmentation s h) = hdr_command h"
  "hdr_version (with_segmentation s h) = hdr_version h"
  by (simp_all add: with_segmentation_def)

lemma with_byte_order_fields [simp]:
  "hdr_payload_size (with_byte_order ord h) = hdr_payload_size h"
  "hdr_command (with_byte_order ord h) = hdr_command h"
  by (simp_all add: with_byte_order_def)

lemma byte_order_with_byte_order [simp]:
  "hdr_byte_order (with_byte_order ord h) = ord"
  by (simp add: hdr_byte_order_def with_byte_order_def)

lemma is_control_with_byte_order [simp]:
  "is_control (with_byte_order ord h) = is_control h"
  by (cases ord) (simp_all add: is_control_bit with_byte_order_def bit_and_iff bit_or_iff
      bit_not_iff flag_consts)

lemma segmentation_with_byte_order [simp]:
  "hdr_segmentation (with_byte_order ord h) = hdr_segmentation h"
proof -
  have "(hdr_flags h AND NOT BIG_ENDIAN OR order_to_bits ord) AND SEG_MASK
      = hdr_flags h AND SEG_MASK"
    by (rule byte_eqI; cases ord) (simp_all add: bit_and_iff bit_or_iff bit_not_iff flag_consts)
  then show ?thesis
    by (simp add: hdr_segmentation_def with_byte_order_def seg_from_flags_def)
qed

section \<open>Codec and validation\<close>

lemma length_header_encode [simp, wire_simps]: "length (header_encode h) = HEADER_SIZE"
  by (simp add: header_encode_def HEADER_SIZE_def)

lemma header_encode_nth_0 [simp]: "header_encode h ! 0 = PVA_MAGIC"
  by (simp add: header_encode_def)

lemma header_decode_encode [simp]: "header_decode (header_encode h) = Some h"
proof -
  let ?ord = "hdr_byte_order h"
  obtain a b c d where w: "order_write ?ord 4 (hdr_payload_size h) = [a, b, c, d]"
    by (rule length_4_cases[OF length_order_write])
  have "order_read ?ord [a, b, c, d] = hdr_payload_size h"
    by (simp flip: w)
  then show ?thesis
    using w by (simp add: header_decode_def header_encode_def hdr_byte_order_def Let_def)
qed

lemma header_encode_decode:
  assumes "length buf = HEADER_SIZE" and "header_decode buf = Some h"
  shows "header_encode h = buf"
proof -
  from assms(1) obtain a b c d e f g i where buf: "buf = [a, b, c, d, e, f, g, i]"
    by (auto simp: HEADER_SIZE_def elim: length_8_cases)
  have "order_write ord 4 (order_read ord [e, f, g, i] :: 32 word) = [e, f, g, i]" for ord
    using order_write_read[of "[e, f, g, i]" ord, where 'a=32]
    by (simp add: numeral_eq_Suc)
  then show ?thesis
    using assms(2) by (auto simp: buf header_decode_def header_encode_def hdr_byte_order_def
        Let_def split: if_splits)
qed

lemma header_decode_None: "header_decode buf = None \<longleftrightarrow> buf ! 0 \<noteq> PVA_MAGIC"
  by (simp add: header_decode_def Let_def)

lemma header_validate_Ok:
  "header_validate h = Ok () \<longleftrightarrow>
    PVA_VERSION_MIN \<le> hdr_version h \<and>
    (is_control h \<or> (0 \<le>s hdr_payload_size h \<and> hdr_payload_size h \<le> MAX_PAYLOAD_SIZE))"
  by (auto simp: header_validate_def is_application_def not_less word_sless_alt word_sle_eq
      split: if_splits)

section \<open>Properties\<close>

text \<open>A header survives its eight byte encoding in either byte order, and an eight byte
  buffer that decodes is the encoding of the decoded header, so no two buffers give the
  same header.\<close>

theorem header_wire_bijection:
  "header_decode (header_encode h) = Some h \<and>
   (length buf = HEADER_SIZE \<and> header_decode buf = Some h' \<longrightarrow> header_encode h' = buf)"
  by (auto dest: header_encode_decode)

theorem header_wire_bijection_witness:
  "header_encode (the (header_decode [0xCA, 2, 0x80, 1, 0, 0, 1, 2])) = [0xCA, 2, 0x80, 1, 0, 0, 1, 2]"
proof -
  have "header_decode [0xCA, 2, 0x80, 1, 0, 0, 1, 2] =
      Some \<lparr> hdr_version = 2, hdr_flags = 0x80, hdr_command = 1, hdr_payload_size = 258 \<rparr>"
    by (simp add: header_decode_def PVA_MAGIC_def order_from_flags_bit from_be_bytes_def
        from_le_bytes_def)
  then show ?thesis
    using header_wire_bijection[of undefined "[0xCA, 2, 0x80, 1, 0, 0, 1, 2]"
        "\<lparr> hdr_version = 2, hdr_flags = 0x80, hdr_command = 1, hdr_payload_size = 258 \<rparr>"]
    by (simp add: HEADER_SIZE_def)
qed

text \<open>The two setters of a header change their own bits of the flags byte and nothing
  else: direction, message category and the other setter's bits stay as they were.\<close>

lemma header_setters_independent:
  "hdr_segmentation (with_segmentation s h) = s \<and>
   hdr_byte_order (with_segmentation s h) = hdr_byte_order h \<and>
   is_control (with_segmentation s h) = is_control h \<and>
   is_from_server (with_segmentation s h) = is_from_server h \<and>
   hdr_byte_order (with_byte_order ord h) = ord \<and>
   hdr_segmentation (with_byte_order ord h) = hdr_segmentation h \<and>
   is_control (with_byte_order ord h) = is_control h \<and>
   hdr_payload_size (with_segmentation s (with_byte_order ord h)) = hdr_payload_size h"
  by simp

end
