(* ===== verification/PvData.thy ===== *)
theory PvData
  imports Header
begin

text \<open>
  The pvData reader and writer of \<open>aura-net/src/codec/pvdata.rs\<close>.  A read is a function
  of the reader state that returns a result \<^emph>\<open>and\<close> the state it leaves, because a
  failed read may have advanced the cursor.  A write appends to the writer's buffer.
  \<open>parses ord m bs v\<close> says that the read \<open>m\<close> takes exactly the bytes \<open>bs\<close> and answers
  \<open>v\<close>; the locale \<open>wire_codec\<close> states the round trip contract of an encoder and a
  decoder once, with its consequences for sequences and for prefix freedom.
\<close>

definition SIZE_NULL :: byte where "SIZE_NULL = 255"
definition SIZE_EXTENDED :: byte where "SIZE_EXTENDED = 254"

text \<open>
  \<open>InvalidUtf8\<close> carries the rejected bytes; the source carries the text the standard
  library makes of them.
\<close>

datatype DecodeError =
    DeUnexpectedEnd nat nat
  | DeUnexpectedNull
  | DeInvalidSize int
  | DeInvalidUtf8 bytes
  | DeUnknownTypeCode byte
  | DeProtocol rstring

section \<open>Reader\<close>

record pva_reader =
  rd_buf :: bytes
  rd_pos :: nat
  rd_order :: ByteOrder

type_synonym 'a rd = "pva_reader \<Rightarrow> (DecodeError + 'a) \<times> pva_reader"

text \<open>Sequencing of reads: the \<open>?\<close> of the source.\<close>

definition rd_return :: "'a \<Rightarrow> 'a rd" where
  "rd_return x = (\<lambda>r. (Ok x, r))"

definition rd_fail :: "DecodeError \<Rightarrow> 'a rd" where
  "rd_fail e = (\<lambda>r. (Err e, r))"

definition rd_bind :: "'a rd \<Rightarrow> ('a \<Rightarrow> 'b rd) \<Rightarrow> 'b rd" where
  "rd_bind m f = (\<lambda>r. case m r of (Err e, r') \<Rightarrow> (Err e, r') | (Ok x, r') \<Rightarrow> f x r')"

lemma rd_bind_return [simp]: "rd_bind (rd_return x) f = f x"
  by (simp add: rd_bind_def rd_return_def)

lemma rd_bind_fail [simp]: "rd_bind (rd_fail e) f = rd_fail e"
  by (simp add: rd_bind_def rd_fail_def)

lemma rd_bind_assoc: "rd_bind (rd_bind m f) g = rd_bind m (\<lambda>x. rd_bind (f x) g)"
  by (auto simp: rd_bind_def fun_eq_iff split: prod.splits sum.splits)

text \<open>\<open>for _ in 0..n \<open>{ arr.push(m?) }\<close>\<close>.\<close>

fun rd_repeat :: "nat \<Rightarrow> 'a rd \<Rightarrow> 'a list rd" where
  "rd_repeat 0 m = rd_return []"
| "rd_repeat (Suc n) m = rd_bind m (\<lambda>x. rd_bind (rd_repeat n m) (\<lambda>xs. rd_return (x # xs)))"

definition reader_new :: "bytes \<Rightarrow> ByteOrder \<Rightarrow> pva_reader" where
  "reader_new buf ord = \<lparr> rd_buf = buf, rd_pos = 0, rd_order = ord \<rparr>"

definition rd_remaining :: "pva_reader \<Rightarrow> nat" where
  "rd_remaining r = length (rd_buf r) - rd_pos r"

definition rd_position :: "pva_reader \<Rightarrow> nat" where
  "rd_position r = rd_pos r"

definition rd_is_empty :: "pva_reader \<Rightarrow> bool" where
  "rd_is_empty r = (rd_pos r \<ge> length (rd_buf r))"

definition rd_peek :: "pva_reader \<Rightarrow> DecodeError + byte" where
  "rd_peek r = (if rd_pos r < length (rd_buf r) then Ok (rd_buf r ! rd_pos r)
     else Err (DeUnexpectedEnd 1 0))"

definition advance :: "nat \<Rightarrow> pva_reader \<Rightarrow> pva_reader" where
  "advance n r = r \<lparr> rd_pos := rd_pos r + n \<rparr>"

definition rd_ensure :: "nat \<Rightarrow> unit rd" where
  "rd_ensure n = (\<lambda>r.
     if rd_pos r + n > length (rd_buf r)
     then (Err (DeUnexpectedEnd n (length (rd_buf r) - rd_pos r)), r)
     else (Ok (), r))"

definition rd_skip :: "nat \<Rightarrow> unit rd" where
  "rd_skip n = rd_bind (rd_ensure n) (\<lambda>_ r. (Ok (), advance n r))"

definition read_bytes :: "nat \<Rightarrow> bytes rd" where
  "read_bytes n = rd_bind (rd_ensure n)
     (\<lambda>_ r. (Ok (take n (drop (rd_pos r) (rd_buf r))), advance n r))"

definition read_u8 :: "byte rd" where
  "read_u8 = rd_bind (rd_ensure 1) (\<lambda>_ r. (Ok (rd_buf r ! rd_pos r), advance 1 r))"

definition read_i8 :: "byte rd" where
  "read_i8 = read_u8"

definition read_bool :: "bool rd" where
  "read_bool = rd_bind read_u8 (\<lambda>b. rd_return (b \<noteq> 0))"

definition read_fixed :: "nat \<Rightarrow> bytes rd" where
  "read_fixed n = rd_bind (rd_ensure n)
     (\<lambda>_ r. (Ok (take n (drop (rd_pos r) (rd_buf r))), advance n r))"

text \<open>The fixed width reads; signed and unsigned types of a width share one word type.\<close>

definition read_word :: "nat \<Rightarrow> 'a::len word rd" where
  "read_word n = rd_bind (read_fixed n) (\<lambda>bs r. (Ok (order_read (rd_order r) bs), r))"

definition read_i16 :: "16 word rd" where "read_i16 = read_word 2"
definition read_u16 :: "16 word rd" where "read_u16 = read_word 2"
definition read_i32 :: "32 word rd" where "read_i32 = read_word 4"
definition read_u32 :: "32 word rd" where "read_u32 = read_word 4"
definition read_i64 :: "64 word rd" where "read_i64 = read_word 8"
definition read_u64 :: "64 word rd" where "read_u64 = read_word 8"
definition read_f32 :: "f32bits rd" where "read_f32 = read_word 4"
definition read_f64 :: "f64bits rd" where "read_f64 = read_word 8"

definition read_size :: "nat option rd" where
  "read_size = rd_bind read_u8 (\<lambda>tag.
     if tag = SIZE_NULL then rd_return None
     else if tag = SIZE_EXTENDED then
       rd_bind read_i32 (\<lambda>n.
         if n <s 0 then rd_fail (DeInvalidSize (sint n)) else rd_return (Some (unat n)))
     else rd_return (Some (unat tag)))"

definition read_size_non_null :: "nat rd" where
  "read_size_non_null = rd_bind read_size (\<lambda>s.
     case s of None \<Rightarrow> rd_fail DeUnexpectedNull | Some n \<Rightarrow> rd_return n)"

definition from_utf8 :: "bytes \<Rightarrow> rstring rd" where
  "from_utf8 bs = (if utf8_valid bs then rd_return bs else rd_fail (DeInvalidUtf8 bs))"

definition read_string :: "rstring rd" where
  "read_string = rd_bind read_size_non_null (\<lambda>len.
     if len = 0 then rd_return [] else rd_bind (read_bytes len) from_utf8)"

definition read_string_opt :: "rstring option rd" where
  "read_string_opt = rd_bind read_size (\<lambda>s.
     case s of
       None \<Rightarrow> rd_return None
     | Some len \<Rightarrow>
         if len = 0 then rd_return (Some [])
         else rd_bind (read_bytes len) (\<lambda>bs. rd_bind (from_utf8 bs) (\<lambda>t. rd_return (Some t))))"

definition read_f64_array :: "f64bits list rd" where
  "read_f64_array = rd_bind read_size_non_null (\<lambda>len. rd_repeat len read_f64)"

definition read_i32_array :: "32 word list rd" where
  "read_i32_array = rd_bind read_size_non_null (\<lambda>len. rd_repeat len read_i32)"

definition read_byte_array :: "bytes rd" where
  "read_byte_array = rd_bind read_size_non_null (\<lambda>len. read_bytes len)"

definition read_string_array :: "rstring list rd" where
  "read_string_array = rd_bind read_size_non_null (\<lambda>len. rd_repeat len read_string)"

section \<open>Writer\<close>

record pva_writer =
  wr_buf :: bytes
  wr_order :: ByteOrder

type_synonym wr = "pva_writer \<Rightarrow> pva_writer"

definition writer_new :: "ByteOrder \<Rightarrow> pva_writer" where
  "writer_new ord = \<lparr> wr_buf = [], wr_order = ord \<rparr>"

definition wr_len :: "pva_writer \<Rightarrow> nat" where
  "wr_len w = length (wr_buf w)"

definition wr_is_empty :: "pva_writer \<Rightarrow> bool" where
  "wr_is_empty w = (wr_buf w = [])"

definition wr_clear :: wr where
  "wr_clear w = w \<lparr> wr_buf := [] \<rparr>"

text \<open>\<open>push\<close> and \<open>extend_from_slice\<close> on the buffer.\<close>

definition emit :: "bytes \<Rightarrow> wr" where
  "emit bs w = w \<lparr> wr_buf := wr_buf w @ bs \<rparr>"

definition write_u8 :: "byte \<Rightarrow> wr" where
  "write_u8 v w = emit [v] w"

definition write_i8 :: "byte \<Rightarrow> wr" where
  "write_i8 v w = emit [v] w"

definition write_bool :: "bool \<Rightarrow> wr" where
  "write_bool v w = emit [if v then 1 else 0] w"

definition write_word :: "nat \<Rightarrow> 'a::len word \<Rightarrow> wr" where
  "write_word n v w = emit (order_write (wr_order w) n v) w"

definition write_i16 :: "16 word \<Rightarrow> wr" where "write_i16 v w = write_word 2 v w"
definition write_u16 :: "16 word \<Rightarrow> wr" where "write_u16 v w = write_word 2 v w"
definition write_i32 :: "32 word \<Rightarrow> wr" where "write_i32 v w = write_word 4 v w"
definition write_u32 :: "32 word \<Rightarrow> wr" where "write_u32 v w = write_word 4 v w"
definition write_i64 :: "64 word \<Rightarrow> wr" where "write_i64 v w = write_word 8 v w"
definition write_u64 :: "64 word \<Rightarrow> wr" where "write_u64 v w = write_word 8 v w"
definition write_f32 :: "f32bits \<Rightarrow> wr" where "write_f32 v w = write_word 4 v w"
definition write_f64 :: "f64bits \<Rightarrow> wr" where "write_f64 v w = write_word 8 v w"

definition write_size :: "nat \<Rightarrow> wr" where
  "write_size n w =
    (if n < unat SIZE_EXTENDED then write_u8 (of_nat n) w
     else write_i32 (of_nat n) (write_u8 SIZE_EXTENDED w))"

definition write_size_null :: wr where
  "write_size_null w = write_u8 SIZE_NULL w"

definition write_string :: "rstring \<Rightarrow> wr" where
  "write_string s w = emit s (write_size (length s) w)"

definition write_string_opt :: "rstring option \<Rightarrow> wr" where
  "write_string_opt s w = (case s of Some t \<Rightarrow> write_string t w | None \<Rightarrow> write_size_null w)"

definition write_f64_array :: "f64bits list \<Rightarrow> wr" where
  "write_f64_array xs w = fold write_f64 xs (write_size (length xs) w)"

definition write_i32_array :: "32 word list \<Rightarrow> wr" where
  "write_i32_array xs w = fold write_i32 xs (write_size (length xs) w)"

definition write_byte_array :: "bytes \<Rightarrow> wr" where
  "write_byte_array xs w = emit xs (write_size (length xs) w)"

definition write_string_array :: "rstring list \<Rightarrow> wr" where
  "write_string_array xs w = fold write_string xs (write_size (length xs) w)"

definition write_raw :: "bytes \<Rightarrow> wr" where
  "write_raw bs w = emit bs w"

section \<open>What a write emits\<close>

text \<open>\<open>written ord f\<close> are the bytes the write \<open>f\<close> appends under byte order \<open>ord\<close>.\<close>

definition written :: "ByteOrder \<Rightarrow> wr \<Rightarrow> bytes" where
  "written ord f = wr_buf (f (writer_new ord))"

definition appends :: "wr \<Rightarrow> bool" where
  "appends f \<longleftrightarrow> (\<forall>w. f w = emit (written (wr_order w) f) w)"

lemma emit_simps [simp]:
  "emit [] w = w" "emit b (emit a w) = emit (a @ b) w"
  "wr_order (emit a w) = wr_order w" "wr_buf (emit a w) = wr_buf w @ a"
  by (simp_all add: emit_def)

lemma writer_new_simps [simp]: "wr_buf (writer_new ord) = []" "wr_order (writer_new ord) = ord"
  by (simp_all add: writer_new_def)

lemma appendsI: "(\<And>w. f w = emit (g (wr_order w)) w) \<Longrightarrow> appends f \<and> (\<forall>ord. written ord f = g ord)"
  by (simp add: appends_def written_def)

lemma appends_comp:
  assumes "appends f" "appends g"
  shows "appends (\<lambda>w. g (f w))" "written ord (\<lambda>w. g (f w)) = written ord f @ written ord g"
proof -
  have "g (f w) = emit (written (wr_order w) f @ written (wr_order w) g) w" for w
    using assms by (simp add: appends_def)
  note eq = appendsI[OF this]
  show "appends (\<lambda>w. g (f w))" "written ord (\<lambda>w. g (f w)) = written ord f @ written ord g"
    using eq by auto
qed

lemma appends_id [simp]: "appends (\<lambda>w. w)" "written ord (\<lambda>w. w) = []"
  by (simp_all add: appends_def written_def)

lemma appends_fold:
  assumes "\<And>x. appends (f x)"
  shows "appends (fold f xs) \<and> written ord (fold f xs) = concat (map (\<lambda>x. written ord (f x)) xs)"
proof (induction xs)
  case Nil
  then show ?case
    by (simp add: appends_def written_def)
next
  case (Cons x xs)
  then show ?case
    using appends_comp[OF assms[of x], of "fold f xs"] by (simp add: comp_def)
qed

named_theorems wr_simps

lemma written_prims [wr_simps]:
  "written ord (emit bs) = bs"
  "written ord (write_u8 b) = [b]"
  "written ord (write_i8 b) = [b]"
  "written ord (write_bool v) = [if v then 1 else 0]"
  "written ord (write_word n x) = order_write ord n x"
  "written ord (write_i16 h) = order_write ord 2 h"
  "written ord (write_u16 h) = order_write ord 2 h"
  "written ord (write_i32 i) = order_write ord 4 i"
  "written ord (write_u32 i) = order_write ord 4 i"
  "written ord (write_f32 i) = order_write ord 4 i"
  "written ord (write_i64 l) = order_write ord 8 l"
  "written ord (write_u64 l) = order_write ord 8 l"
  "written ord (write_f64 l) = order_write ord 8 l"
  "written ord (write_raw bs) = bs"
  "written ord write_size_null = [SIZE_NULL]"
  by (simp_all add: written_def write_u8_def write_i8_def write_bool_def write_word_def
      write_i16_def write_u16_def write_i32_def write_u32_def write_f32_def write_i64_def
      write_u64_def write_f64_def write_raw_def write_size_null_def)

lemma appends_prims [simp, intro]:
  "appends (emit bs)" "appends (write_u8 b)" "appends (write_i8 b)" "appends (write_bool v)"
  "appends (write_word n x)" "appends (write_i16 h)" "appends (write_u16 h)"
  "appends (write_i32 i)" "appends (write_u32 i)" "appends (write_f32 i)"
  "appends (write_i64 l)" "appends (write_u64 l)" "appends (write_f64 l)"
  "appends (write_raw bs)" "appends write_size_null"
  by (simp_all add: appends_def wr_simps)
    (simp_all add: write_u8_def write_i8_def write_bool_def write_word_def
      write_i16_def write_u16_def write_i32_def write_u32_def write_f32_def write_i64_def
      write_u64_def write_f64_def write_raw_def write_size_null_def)

text \<open>The bytes of a size, as the wire format has them.\<close>

definition size_bytes :: "ByteOrder \<Rightarrow> nat \<Rightarrow> bytes" where
  "size_bytes ord n = (if n < 254 then [of_nat n]
     else SIZE_EXTENDED # order_write ord 4 (of_nat n :: 32 word))"

lemma write_size_eq: "write_size n w = emit (size_bytes (wr_order w) n) w"
  by (simp add: write_size_def size_bytes_def SIZE_EXTENDED_def write_u8_def write_i32_def
      write_word_def)

lemma write_string_eq: "write_string s w = emit (size_bytes (wr_order w) (length s) @ s) w"
  by (simp add: write_string_def write_size_eq)

lemma write_byte_array_eq:
  "write_byte_array s w = emit (size_bytes (wr_order w) (length s) @ s) w"
  by (simp add: write_byte_array_def write_size_eq)

lemma appends_sized [simp, intro]:
  "appends (write_size n)" "appends (write_string s)" "appends (write_byte_array bs)"
  by (simp_all add: appends_def written_def write_size_eq write_string_eq write_byte_array_eq)

lemma written_sized [wr_simps]:
  "written ord (write_size n) = size_bytes ord n"
  "written ord (write_string s) = size_bytes ord (length s) @ s"
  "written ord (write_byte_array bs) = size_bytes ord (length bs) @ bs"
  by (simp_all add: written_def write_size_eq write_string_eq write_byte_array_eq)

lemma appends_string_opt [simp, intro]: "appends (write_string_opt s)"
  by (cases s) (simp_all add: write_string_opt_def[abs_def])

lemma written_string_opt [wr_simps]:
  "written ord (write_string_opt None) = [SIZE_NULL]"
  "written ord (write_string_opt (Some s)) = size_bytes ord (length s) @ s"
  by (simp_all add: write_string_opt_def[abs_def] wr_simps)

lemma array_writers:
  "write_f64_array xs = (\<lambda>w. fold write_f64 xs (write_size (length xs) w))"
  "write_i32_array is = (\<lambda>w. fold write_i32 is (write_size (length is) w))"
  "write_string_array ss = (\<lambda>w. fold write_string ss (write_size (length ss) w))"
  by (simp_all add: fun_eq_iff write_f64_array_def write_i32_array_def write_string_array_def)

lemma appends_sized_list:
  assumes "\<And>x. appends (f x)"
  shows "appends (\<lambda>w. fold f xs (write_size n w))"
    "written ord (\<lambda>w. fold f xs (write_size n w)) =
      size_bytes ord n @ concat (map (\<lambda>x. written ord (f x)) xs)"
  using appends_comp[of "write_size n" "fold f xs"] appends_fold[of f, OF assms]
  by (auto simp: wr_simps)

lemma appends_arrays [simp, intro]:
  "appends (write_f64_array xs)" "appends (write_i32_array is)" "appends (write_string_array ss)"
  by (simp_all add: array_writers appends_sized_list)

lemma written_arrays [wr_simps]:
  "written ord (write_f64_array xs) = size_bytes ord (length xs) @ concat (map (order_write ord 8) xs)"
  "written ord (write_i32_array is) = size_bytes ord (length is) @ concat (map (order_write ord 4) is)"
  "written ord (write_string_array ss) = size_bytes ord (length ss) @
     concat (map (\<lambda>s. size_bytes ord (length s) @ s) ss)"
  by (simp_all add: array_writers appends_sized_list wr_simps)

section \<open>Reading back\<close>

abbreviation rest :: "pva_reader \<Rightarrow> bytes" where
  "rest r \<equiv> drop (rd_pos r) (rd_buf r)"

definition parses :: "ByteOrder \<Rightarrow> 'a rd \<Rightarrow> bytes \<Rightarrow> 'a \<Rightarrow> bool" where
  "parses ord m bs v \<longleftrightarrow> (\<forall>r tail. rd_order r = ord \<longrightarrow> rest r = bs @ tail \<longrightarrow>
     m r = (Ok v, advance (length bs) r))"

lemma advance_simps [simp]:
  "advance 0 r = r" "advance m (advance n r) = advance (n + m) r"
  "rd_order (advance n r) = rd_order r" "rd_pos (advance n r) = rd_pos r + n"
  "rd_buf (advance n r) = rd_buf r"
  by (simp_all add: advance_def add.assoc)

lemma parsesI:
  "(\<And>r tail. rd_order r = ord \<Longrightarrow> rest r = bs @ tail \<Longrightarrow> m r = (Ok v, advance (length bs) r)) \<Longrightarrow>
    parses ord m bs v"
  by (simp add: parses_def)

lemma parsesD:
  "parses ord m bs v \<Longrightarrow> rd_order r = ord \<Longrightarrow> rest r = bs @ tail \<Longrightarrow>
    m r = (Ok v, advance (length bs) r)"
  by (auto simp: parses_def)

lemma parses_return: "parses ord (rd_return v) [] v"
  by (simp add: parses_def rd_return_def)

lemma parses_bind:
  assumes "parses ord m as x" and "parses ord (f x) bs v"
  shows "parses ord (rd_bind m f) (as @ bs) v"
proof (rule parsesI)
  fix r tail assume o: "rd_order r = ord" and b: "rest r = (as @ bs) @ tail"
  have "m r = (Ok x, advance (length as) r)"
    using assms(1) o b by (auto intro: parsesD)
  moreover have "rest (advance (length as) r) = bs @ tail"
    using b by (simp add: add.commute flip: drop_drop)
  then have "f x (advance (length as) r) = (Ok v, advance (length bs) (advance (length as) r))"
    using o by (intro parsesD[OF assms(2)]) auto
  ultimately show "rd_bind m f r = (Ok v, advance (length (as @ bs)) r)"
    by (simp add: rd_bind_def)
qed

lemma parses_bindI:
  "parses ord m as x \<Longrightarrow> parses ord (f x) bs v \<Longrightarrow> cs = as @ bs \<Longrightarrow> parses ord (rd_bind m f) cs v"
  by (simp add: parses_bind)

lemma parses_map:
  "parses ord m bs x \<Longrightarrow> f x = v \<Longrightarrow> parses ord (rd_bind m (\<lambda>y. rd_return (f y))) bs v"
  by (rule parses_bindI[where bs = "[]"]) (auto simp: parses_return)

lemma rest_length: "rest r = bs @ tail \<Longrightarrow> bs \<noteq> [] \<Longrightarrow> rd_pos r + length bs \<le> length (rd_buf r)"
  by (metis append_is_Nil_conv drop_eq_Nil leI length_append length_drop le_add1 le_diff_conv2
      add.commute nat_less_le)

lemma ensure_ok:
  "rest r = bs @ tail \<Longrightarrow> bs \<noteq> [] \<Longrightarrow> rd_ensure (length bs) r = (Ok (), r)"
  using rest_length[of r bs tail] by (simp add: rd_ensure_def)

lemma parses_read_bytes:
  assumes "length bs = n" "bs \<noteq> []"
  shows "parses ord (read_bytes n) bs bs"
  using assms by (intro parsesI)
    (auto simp: read_bytes_def rd_bind_def ensure_ok)

lemma parses_read_fixed:
  assumes "length bs = n" "bs \<noteq> []"
  shows "parses ord (read_fixed n) bs bs"
  using assms by (intro parsesI)
    (auto simp: read_fixed_def rd_bind_def ensure_ok)

lemma parses_u8 [rd_simps]: "parses ord read_u8 [b] b"
proof (rule parsesI)
  fix r tail assume "rest r = [b] @ tail"
  then have "rd_ensure 1 r = (Ok (), r)" "rd_buf r ! rd_pos r = b"
    using ensure_ok[of r "[b]" tail]
    by (auto simp: nth_via_drop)
  then show "read_u8 r = (Ok b, advance (length [b]) r)"
    by (simp add: read_u8_def rd_bind_def)
qed

lemma parses_i8 [rd_simps]: "parses ord read_i8 [b] b"
  by (simp add: read_i8_def parses_u8)

lemma parses_bool [rd_simps]: "parses ord read_bool [if v then 1 else 0] v"
  unfolding read_bool_def by (rule parses_map[OF parses_u8]) simp

lemma parses_word [rd_simps]:
  assumes "LENGTH('a::len) \<le> 8 * n" "0 < n"
  shows "parses ord (read_word n) (order_write ord n w) (w :: 'a word)"
proof (rule parsesI)
  fix r tail assume a: "rd_order r = ord" "rest r = order_write ord n w @ tail"
  have "order_write ord n w \<noteq> []"
    using assms(2) length_order_write[of ord n w] by (metis less_nat_zero_code list.size(3))
  then have "read_fixed n r = (Ok (order_write ord n w), advance n r)"
    using parsesD[OF parses_read_fixed[OF length_order_write] a] by simp
  then show "read_word n r = (Ok w, advance (length (order_write ord n w)) r)"
    using assms a by (simp add: read_word_def rd_bind_def)
qed

lemma parses_fixed_width [rd_simps]:
  "parses ord read_i16 (order_write ord 2 h) h" "parses ord read_u16 (order_write ord 2 h) h"
  "parses ord read_i32 (order_write ord 4 i) i" "parses ord read_u32 (order_write ord 4 i) i"
  "parses ord read_f32 (order_write ord 4 i) i"
  "parses ord read_i64 (order_write ord 8 l) l" "parses ord read_u64 (order_write ord 8 l) l"
  "parses ord read_f64 (order_write ord 8 l) l"
  by (simp_all add: read_i16_def read_u16_def read_i32_def read_u32_def read_f32_def
      read_i64_def read_u64_def read_f64_def parses_word)

text \<open>Sizes below \<open>2 ^ 31\<close> survive; larger ones do not fit the \<open>i32\<close> of the wire.\<close>

lemma parses_size [rd_simps]:
  assumes "n < 2 ^ 31"
  shows "parses ord read_size (size_bytes ord n) (Some n)"
proof (cases "n < 254")
  case True
  then have "(of_nat n :: byte) \<noteq> SIZE_NULL" "(of_nat n :: byte) \<noteq> SIZE_EXTENDED"
      "unat (of_nat n :: byte) = n"
    by (auto simp: SIZE_NULL_def SIZE_EXTENDED_def unat_of_nat word_unat_eq_iff)
  then show ?thesis
    using True unfolding read_size_def
    by (intro parses_bindI[OF parses_u8, where bs = "[]"])
      (simp_all add: size_bytes_def parses_return)
next
  case False
  have "\<not> (of_nat n :: 32 word) <s 0" "unat (of_nat n :: 32 word) = n"
    using assms by (simp_all add: not_sless_0 word_sle_eq sint_of_nat_32 unat_of_nat)
  then have "parses ord (rd_bind read_i32 (\<lambda>m. if m <s 0 then rd_fail (DeInvalidSize (sint m))
      else rd_return (Some (unat m)))) (order_write ord 4 (of_nat n :: 32 word)) (Some n)"
    by (intro parses_bindI[OF parses_fixed_width(3), where bs = "[]"])
      (simp_all add: parses_return)
  then show ?thesis
    using False unfolding read_size_def
    by (intro parses_bindI[OF parses_u8[of ord SIZE_EXTENDED]])
      (simp_all add: size_bytes_def SIZE_NULL_def SIZE_EXTENDED_def)
qed

lemma parses_size_non_null [rd_simps]:
  "n < 2 ^ 31 \<Longrightarrow> parses ord read_size_non_null (size_bytes ord n) n"
  unfolding read_size_non_null_def
  by (rule parses_bindI[OF parses_size, where bs = "[]"]) (simp_all add: parses_return)

section \<open>Reads move forward inside the buffer\<close>

named_theorems forward_intros

definition forward :: "'a rd \<Rightarrow> bool" where
  "forward m \<longleftrightarrow> (\<forall>r. rd_buf (snd (m r)) = rd_buf r \<and> rd_order (snd (m r)) = rd_order r \<and>
     rd_pos r \<le> rd_pos (snd (m r)) \<and>
     (rd_pos r \<le> length (rd_buf r) \<longrightarrow> rd_pos (snd (m r)) \<le> length (rd_buf r)))"

lemma forward_return [forward_intros]: "forward (rd_return x)"
  by (simp add: forward_def rd_return_def)

lemma forward_fail [forward_intros]: "forward (rd_fail e)"
  by (simp add: forward_def rd_fail_def)

lemma forward_bind [forward_intros]:
  assumes "forward m" "\<And>x. forward (f x)"
  shows "forward (rd_bind m f)"
  unfolding forward_def
proof (intro allI)
  fix r
  note m = assms(1)[unfolded forward_def, rule_format, of r]
  show "rd_buf (snd (rd_bind m f r)) = rd_buf r \<and> rd_order (snd (rd_bind m f r)) = rd_order r \<and>
     rd_pos r \<le> rd_pos (snd (rd_bind m f r)) \<and>
     (rd_pos r \<le> length (rd_buf r) \<longrightarrow> rd_pos (snd (rd_bind m f r)) \<le> length (rd_buf r))"
  proof (cases "m r")
    case (Pair q r')
    show ?thesis
    proof (cases q)
      case (Inl e)
      then show ?thesis
        using m Pair by (simp add: rd_bind_def)
    next
      case (Inr x)
      then show ?thesis
        using m Pair assms(2)[of x, unfolded forward_def, rule_format, of r']
        by (auto simp: rd_bind_def)
    qed
  qed
qed

lemma forward_take: "forward (rd_bind (rd_ensure n) (\<lambda>_ r. (Ok (g r), advance n r)))"
  by (auto simp: forward_def rd_bind_def rd_ensure_def)

lemma forward_order: "forward (\<lambda>r. (Ok (g r), r))"
  by (simp add: forward_def)

lemma forward_if [forward_intros]:
  "(c \<Longrightarrow> forward a) \<Longrightarrow> (\<not> c \<Longrightarrow> forward b) \<Longrightarrow> forward (if c then a else b)"
  by simp

lemma forward_option [forward_intros]:
  "forward a \<Longrightarrow> (\<And>x. forward (f x)) \<Longrightarrow> forward (case s of None \<Rightarrow> a | Some x \<Rightarrow> f x)"
  by (cases s) simp_all

lemma forward_repeat [forward_intros]: "forward m \<Longrightarrow> forward (rd_repeat n m)"
  by (induction n) (auto intro!: forward_intros)

lemma forward_prims [forward_intros]:
  "forward (rd_skip n)" "forward (read_bytes n)" "forward read_u8" "forward read_i8"
  "forward read_bool" "forward (read_fixed n)"
  by (auto simp: rd_skip_def read_bytes_def read_u8_def read_fixed_def read_i8_def read_bool_def
      intro!: forward_take forward_bind[OF forward_take] forward_return)

lemma forward_word [forward_intros]: "forward (read_word n)"
  unfolding read_word_def by (intro forward_bind forward_prims forward_order)

lemma forward_words [forward_intros]:
  "forward read_i16" "forward read_u16" "forward read_i32" "forward read_u32"
  "forward read_i64" "forward read_u64" "forward read_f32" "forward read_f64"
  by (simp_all add: read_i16_def read_u16_def read_i32_def read_u32_def read_i64_def
      read_u64_def read_f32_def read_f64_def forward_word)

lemma forward_size [forward_intros]: "forward read_size" "forward read_size_non_null"
  by (auto simp: read_size_def read_size_non_null_def intro!: forward_intros)

lemma forward_from_utf8 [forward_intros]: "forward (from_utf8 bs)"
  by (auto simp: from_utf8_def intro!: forward_intros)

lemma forward_strings [forward_intros]:
  "forward read_string" "forward read_string_opt" "forward read_f64_array" "forward read_i32_array"
  "forward read_byte_array" "forward read_string_array"
  by (auto simp: read_string_def read_string_opt_def read_f64_array_def read_i32_array_def
      read_byte_array_def read_string_array_def intro!: forward_intros)

lemma forward_remaining:
  assumes "forward m"
  shows "rd_remaining (snd (m r)) \<le> rd_remaining r"
  using assms[unfolded forward_def, rule_format, of r] by (auto simp: rd_remaining_def)

section \<open>Sequences and strings\<close>

lemma parses_repeat_Cons:
  assumes "parses ord m as x" "parses ord (rd_repeat n m) bs xs"
  shows "parses ord (rd_repeat (Suc n) m) (as @ bs) (x # xs)"
  unfolding rd_repeat.simps by (rule parses_bind[OF assms(1) parses_map[OF assms(2) refl]])

lemma parses_repeat:
  assumes "\<And>x. x \<in> set xs \<Longrightarrow> parses ord m (e x) x"
  shows "parses ord (rd_repeat (length xs) m) (concat (map e xs)) xs"
  using assms
  by (induction xs) (simp_all add: parses_return parses_repeat_Cons del: rd_repeat.simps(2))

definition string_ok :: "rstring \<Rightarrow> bool" where
  "string_ok s \<longleftrightarrow> length s < 2 ^ 31 \<and> utf8_valid s"

lemma string_ok_Nil [simp]: "string_ok []"
  by (simp add: string_ok_def)

lemma parses_string [rd_simps]:
  assumes "string_ok s"
  shows "parses ord read_string (size_bytes ord (length s) @ s) s"
proof (cases "s = []")
  case True
  then show ?thesis
    unfolding read_string_def
    by (intro parses_bindI[OF parses_size_non_null, where bs = "[]"]) (simp_all add: parses_return)
next
  case False
  have "parses ord (rd_bind (read_bytes (length s)) from_utf8) s s"
    by (rule parses_bindI[OF parses_read_bytes, where bs = "[]"])
      (use assms False in \<open>simp_all add: from_utf8_def string_ok_def parses_return\<close>)
  then show ?thesis
    unfolding read_string_def
    by (intro parses_bindI[OF parses_size_non_null])
      (use assms False in \<open>simp_all add: string_ok_def\<close>)
qed

lemma parses_string_opt [rd_simps]:
  assumes "\<forall>t. s = Some t \<longrightarrow> string_ok t"
  shows "parses ord read_string_opt (written ord (write_string_opt s)) s"
proof (cases s)
  case None
  have "parses ord read_size [SIZE_NULL] None"
    unfolding read_size_def
    by (rule parses_bindI[OF parses_u8, where bs = "[]"]) (simp_all add: parses_return)
  then show ?thesis
    using None unfolding read_string_opt_def
    by (intro parses_bindI[where x = None and bs = "[]"]) (simp_all add: wr_simps parses_return)
next
  case (Some t)
  then have t: "length t < 2 ^ 31" "utf8_valid t"
    using assms by (simp_all add: string_ok_def)
  have "parses ord (rd_bind (read_bytes (length t)) (\<lambda>bs. rd_bind (from_utf8 bs)
      (\<lambda>u. rd_return (Some u)))) t (Some t)" if "t \<noteq> []"
    by (rule parses_bindI[OF parses_read_bytes, where bs = "[]"])
      (use that t in \<open>simp_all add: from_utf8_def parses_map parses_return\<close>)
  then have "parses ord (if length t = 0 then rd_return (Some []) else
      rd_bind (read_bytes (length t)) (\<lambda>bs. rd_bind (from_utf8 bs) (\<lambda>u. rd_return (Some u))))
      t (Some t)"
    by (cases "t = []") (simp_all add: parses_return)
  then show ?thesis
    using Some t unfolding read_string_opt_def
    by (intro parses_bindI[OF parses_size]) (simp_all add: wr_simps)
qed

lemma parses_byte_array [rd_simps]:
  assumes "length bs < 2 ^ 31"
  shows "parses ord read_byte_array (size_bytes ord (length bs) @ bs) bs"
proof (cases "bs = []")
  case True
  have "read_bytes 0 r = (Ok [], r)" if "rd_pos r \<le> length (rd_buf r)" for r
    using that by (simp add: read_bytes_def rd_bind_def rd_ensure_def)
  moreover have "parses ord read_size_non_null [0] 0"
    using parses_size_non_null[of 0 ord] by (simp add: size_bytes_def)
  ultimately show ?thesis
    using True
    by (auto simp: parses_def read_byte_array_def rd_bind_def size_bytes_def
        dest!: rest_length[of _ "[0]", simplified])
next
  case False
  then show ?thesis
    using assms unfolding read_byte_array_def
    by (intro parses_bindI[OF parses_size_non_null parses_read_bytes]) auto
qed

section \<open>The contract of an encoder and a decoder\<close>

locale wire_codec =
  fixes enc :: "'a \<Rightarrow> wr" and dec :: "'a rd" and valid :: "'a \<Rightarrow> bool"
  assumes enc_appends: "appends (enc v)"
    and round_trip: "valid v \<Longrightarrow> parses ord dec (written ord (enc v)) v"
begin

lemma decode_new:
  assumes "valid v"
  shows "dec (reader_new (written ord (enc v) @ tail) ord) =
    (Ok v, advance (length (written ord (enc v))) (reader_new (written ord (enc v) @ tail) ord))"
  by (rule parsesD[OF round_trip[OF assms]]) (simp_all add: reader_new_def)

lemma prefix_free:
  assumes "valid v" "valid w" "written ord (enc v) @ a = written ord (enc w) @ b"
  shows "v = w \<and> a = b"
proof -
  let ?n = "\<lambda>u. length (written ord (enc u))"
  have "(Ok v :: DecodeError + 'a, advance (?n v) (reader_new (written ord (enc v) @ a) ord)) =
      (Ok w, advance (?n w) (reader_new (written ord (enc v) @ a) ord))"
    using decode_new[OF assms(1), of ord a] decode_new[OF assms(2), of ord b] assms(3) by simp
  then have "v = w"
    by simp
  then show ?thesis
    using assms(3) by simp
qed

lemma sequence:
  assumes "\<forall>v \<in> set vs. valid v" "length vs < 2 ^ 31"
  shows "parses ord (rd_bind read_size_non_null (\<lambda>n. rd_repeat n dec))
    (written ord (\<lambda>w. fold enc vs (write_size (length vs) w))) vs"
  using assms appends_sized_list(2)[of enc, OF enc_appends]
  by (auto intro!: parses_bind parses_size_non_null parses_repeat round_trip)

end

interpretation i32: wire_codec write_i32 read_i32 "\<lambda>_. True"
  by unfold_locales (simp_all add: wr_simps rd_simps)

interpretation f64: wire_codec write_f64 read_f64 "\<lambda>_. True"
  by unfold_locales (simp_all add: wr_simps rd_simps)

interpretation str: wire_codec write_string read_string string_ok
  by unfold_locales (simp_all add: wr_simps rd_simps)

interpretation size: wire_codec write_size read_size_non_null "\<lambda>n. n < 2 ^ 31"
  by unfold_locales (simp_all add: wr_simps rd_simps)

lemma parses_arrays [rd_simps]:
  "length xs < 2 ^ 31 \<Longrightarrow> parses ord read_f64_array (written ord (write_f64_array xs)) xs"
  "length is < 2 ^ 31 \<Longrightarrow> parses ord read_i32_array (written ord (write_i32_array is)) is"
  "length ss < 2 ^ 31 \<Longrightarrow> \<forall>s \<in> set ss. string_ok s \<Longrightarrow>
     parses ord read_string_array (written ord (write_string_array ss)) ss"
  using f64.sequence i32.sequence str.sequence
  by (simp_all add: read_f64_array_def read_i32_array_def read_string_array_def array_writers)

section \<open>Statements in sequence\<close>

text \<open>The body of an \<open>encode\<close> is a sequence of writes, a loop over a vector a sequence of
  one write per element.\<close>

definition wr_seq :: "wr list \<Rightarrow> wr" where
  "wr_seq fs w = fold (\<lambda>f. f) fs w"

definition wr_for :: "('a \<Rightarrow> wr) \<Rightarrow> 'a list \<Rightarrow> wr" where
  "wr_for f xs w = fold f xs w"

lemma wr_seq_simps: "wr_seq [] = (\<lambda>w. w)" "wr_seq (f # fs) = (\<lambda>w. wr_seq fs (f w))"
  by (simp_all add: fun_eq_iff wr_seq_def)

lemma appends_seq [simp, intro]: "list_all appends fs \<Longrightarrow> appends (wr_seq fs)"
  by (induction fs) (simp_all add: wr_seq_simps appends_comp)

lemma written_seq:
  "written ord (wr_seq []) = []"
  "appends f \<Longrightarrow> list_all appends fs \<Longrightarrow> written ord (wr_seq (f # fs)) = written ord f @ written ord (wr_seq fs)"
  by (simp_all add: wr_seq_simps appends_comp)

lemma wr_for_fold: "wr_for f xs = fold f xs"
  by (simp add: fun_eq_iff wr_for_def)

lemma appends_for [simp, intro]: "(\<And>x. appends (f x)) \<Longrightarrow> appends (wr_for f xs)"
  by (simp add: wr_for_fold appends_fold)

lemma written_for:
  "written ord (wr_for f []) = []"
  "written ord (wr_for f [x]) = written ord (f x)"
  by (simp_all add: wr_for_def written_def)

lemma parses_for:
  assumes "\<And>x. appends (f x)" "\<And>x. x \<in> set xs \<Longrightarrow> parses ord m (written ord (f x)) x"
    and "n = length xs"
  shows "parses ord (rd_repeat n m) (written ord (wr_for f xs)) xs"
  using assms appends_fold[of f xs ord] by (simp add: wr_for_fold parses_repeat)

text \<open>The reads of single values, in the form the message proofs chain.\<close>

named_theorems rd_intros

lemma parses_written [rd_intros]:
  "parses ord read_u8 (written ord (write_u8 b)) b"
  "parses ord read_i16 (written ord (write_i16 h)) h"
  "parses ord read_u16 (written ord (write_u16 h)) h"
  "parses ord read_i32 (written ord (write_i32 i)) i"
  "parses ord read_u32 (written ord (write_u32 i)) i"
  "parses ord read_i64 (written ord (write_i64 l)) l"
  "parses ord read_f64 (written ord (write_f64 l)) l"
  "n < 2 ^ 31 \<Longrightarrow> parses ord read_size_non_null (written ord (write_size n)) n"
  "string_ok s \<Longrightarrow> parses ord read_string (written ord (write_string s)) s"
  by (simp_all add: wr_simps rd_simps)

lemma parses_raw [rd_intros]:
  "bs \<noteq> [] \<Longrightarrow> n = length bs \<Longrightarrow> parses ord (read_bytes n) (written ord (write_raw bs)) bs"
  by (simp add: wr_simps parses_read_bytes)

lemma parses_final [rd_intros]: "v = w \<Longrightarrow> parses ord (rd_return v) [] w"
  by (simp add: parses_return)

text \<open>One statement of an encoder against one read of its decoder.\<close>

lemma parses_wr:
  assumes "parses ord m (written ord g) x" "parses ord (f x) (written ord (wr_seq gs)) v"
    and "appends g" "list_all appends gs"
  shows "parses ord (rd_bind m f) (written ord (wr_seq (g # gs))) v"
  using assms by (simp add: written_seq parses_bind)

lemma parses_wr_end: "v = w \<Longrightarrow> parses ord (rd_return v) (written ord (wr_seq [])) w"
  by (simp add: written_seq parses_return)

lemma parses_wr_last:
  assumes "parses ord m (written ord g) v" "appends g"
  shows "parses ord m (written ord (wr_seq [g])) v"
  using assms by (simp add: written_seq)

lemma parses_for_size:
  assumes "\<And>x. x \<in> set xs \<Longrightarrow> parses ord m (written ord (f x)) x" "\<And>x. appends (f x)"
  shows "parses ord (rd_repeat (length xs) m) (written ord (wr_for f xs)) xs"
  using assms by (intro parses_for) auto

lemmas parses_steps = parses_wr parses_wr_end parses_for_size

end
