(* ===== verification/Scalars.thy ===== *)
theory Scalars
  imports Prelude Complex_Main
begin

text \<open>
  The twelve scalar types and values (\<open>aura-core/src/pva/scalars.rs\<close>), with the numeric
  casts the accessors use: \<open>as\<close> between integers (truncation, sign extension), integer to
  \<open>f64\<close> (round to nearest even), \<open>f32\<close> to \<open>f64\<close>, and float to \<open>i64\<close> (saturating,
  NaN to zero).  Floats are IEEE-754 bit patterns; \<open>f64_value\<close> and \<open>f32_value\<close> read them
  as rationals.
\<close>

section \<open>Types\<close>

datatype ScalarType =
    StBoolean | StByte | StShort | StInt | StLong | StUByte | StUShort | StUInt | StULong
  | StFloat | StDouble | StString

definition scalar_all :: "ScalarType list" where
  "scalar_all = [StBoolean, StByte, StUByte, StShort, StUShort, StInt, StUInt, StLong, StULong,
     StFloat, StDouble, StString]"

definition scalar_from_wire :: "byte \<Rightarrow> ScalarType option" where
  "scalar_from_wire v =
    (if v = 0 then Some StBoolean else if v = 1 then Some StByte
     else if v = 2 then Some StShort else if v = 3 then Some StInt
     else if v = 4 then Some StLong else if v = 5 then Some StUByte
     else if v = 6 then Some StUShort else if v = 7 then Some StUInt
     else if v = 8 then Some StULong else if v = 9 then Some StFloat
     else if v = 10 then Some StDouble else if v = 11 then Some StString
     else None)"

fun scalar_to_tag :: "ScalarType \<Rightarrow> byte" where
  "scalar_to_tag StBoolean = 0" | "scalar_to_tag StByte = 1" | "scalar_to_tag StShort = 2"
| "scalar_to_tag StInt = 3" | "scalar_to_tag StLong = 4" | "scalar_to_tag StUByte = 5"
| "scalar_to_tag StUShort = 6" | "scalar_to_tag StUInt = 7" | "scalar_to_tag StULong = 8"
| "scalar_to_tag StFloat = 9" | "scalar_to_tag StDouble = 10" | "scalar_to_tag StString = 11"

fun scalar_wire_size :: "ScalarType \<Rightarrow> nat" where
  "scalar_wire_size StBoolean = 1" | "scalar_wire_size StByte = 1" | "scalar_wire_size StUByte = 1"
| "scalar_wire_size StShort = 2" | "scalar_wire_size StUShort = 2"
| "scalar_wire_size StInt = 4" | "scalar_wire_size StUInt = 4" | "scalar_wire_size StFloat = 4"
| "scalar_wire_size StLong = 8" | "scalar_wire_size StULong = 8" | "scalar_wire_size StDouble = 8"
| "scalar_wire_size StString = 0"

definition scalar_is_f64_exact :: "ScalarType \<Rightarrow> bool" where
  "scalar_is_f64_exact t = (t \<in> {StBoolean, StByte, StUByte, StShort, StUShort, StInt, StUInt,
     StFloat, StDouble})"

definition scalar_is_integer :: "ScalarType \<Rightarrow> bool" where
  "scalar_is_integer t = (t \<in> {StByte, StShort, StInt, StLong, StUByte, StUShort, StUInt, StULong})"

definition scalar_is_floating :: "ScalarType \<Rightarrow> bool" where
  "scalar_is_floating t = (t \<in> {StFloat, StDouble})"

definition scalar_is_numeric :: "ScalarType \<Rightarrow> bool" where
  "scalar_is_numeric t = (scalar_is_integer t \<or> scalar_is_floating t)"

definition scalar_is_unsigned :: "ScalarType \<Rightarrow> bool" where
  "scalar_is_unsigned t = (t \<in> {StUByte, StUShort, StUInt, StULong})"

fun scalar_name :: "ScalarType \<Rightarrow> rstring" where
  "scalar_name StBoolean = ascii ''boolean''" | "scalar_name StByte = ascii ''byte''"
| "scalar_name StShort = ascii ''short''" | "scalar_name StInt = ascii ''int''"
| "scalar_name StLong = ascii ''long''" | "scalar_name StUByte = ascii ''ubyte''"
| "scalar_name StUShort = ascii ''ushort''" | "scalar_name StUInt = ascii ''uint''"
| "scalar_name StULong = ascii ''ulong''" | "scalar_name StFloat = ascii ''float''"
| "scalar_name StDouble = ascii ''double''" | "scalar_name StString = ascii ''string''"

section \<open>Floats as bit patterns\<close>

fun flog2 :: "nat \<Rightarrow> nat" where
  "flog2 n = (if n < 2 then 0 else Suc (flog2 (n div 2)))"

declare flog2.simps [simp del]

text \<open>The double with value \<open>m * 2 ^ p\<close> for \<open>0 < m < 2 ^ 53\<close>, exponent in the normal range.\<close>

definition f64_dyadic :: "nat \<Rightarrow> int \<Rightarrow> nat" where
  "f64_dyadic m p = nat (int (flog2 m) + p + 1022) * 2 ^ 52 + m * 2 ^ (52 - flog2 m)"

text \<open>Magnitude bits of an integer rounded to nearest, ties to even.\<close>

definition f64_of_nat :: "nat \<Rightarrow> nat" where
  "f64_of_nat n =
    (if n = 0 then 0
     else if flog2 n \<le> 52 then f64_dyadic n 0
     else
       (let s = flog2 n - 52; q = n div 2 ^ s; r = n mod 2 ^ s; half = 2 ^ (s - 1);
            q' = (if r > half \<or> (r = half \<and> odd q) then q + 1 else q)
        in (flog2 n + 1022) * 2 ^ 52 + q'))"

definition f64_of_int :: "int \<Rightarrow> f64bits" where
  "f64_of_int k = of_nat ((if k < 0 then 2 ^ 63 else 0) + f64_of_nat (nat \<bar>k\<bar>))"

definition f64_sign :: "f64bits \<Rightarrow> bool" where "f64_sign b = (unat b div 2 ^ 63 = 1)"
definition f64_exp :: "f64bits \<Rightarrow> nat" where "f64_exp b = unat b div 2 ^ 52 mod 2 ^ 11"
definition f64_frac :: "f64bits \<Rightarrow> nat" where "f64_frac b = unat b mod 2 ^ 52"

definition f32_sign :: "f32bits \<Rightarrow> bool" where "f32_sign b = (unat b div 2 ^ 31 = 1)"
definition f32_exp :: "f32bits \<Rightarrow> nat" where "f32_exp b = unat b div 2 ^ 23 mod 2 ^ 8"
definition f32_frac :: "f32bits \<Rightarrow> nat" where "f32_frac b = unat b mod 2 ^ 23"

text \<open>\<open>f32 as f64\<close>; a NaN keeps its payload in the upper fraction bits.\<close>

definition f64_of_f32 :: "f32bits \<Rightarrow> f64bits" where
  "f64_of_f32 b =
    of_nat ((if f32_sign b then 2 ^ 63 else 0) +
      (if f32_exp b = 255 then 2047 * 2 ^ 52 + f32_frac b * 2 ^ 29
       else if f32_exp b = 0 then
         (if f32_frac b = 0 then 0 else f64_dyadic (f32_frac b) (- 149))
       else f64_dyadic (2 ^ 23 + f32_frac b) (int (f32_exp b) - 150)))"

text \<open>Significand and exponent of a finite double.\<close>

definition f64_mant :: "f64bits \<Rightarrow> nat" where
  "f64_mant b = (if f64_exp b = 0 then f64_frac b else 2 ^ 52 + f64_frac b)"

definition f64_pow :: "f64bits \<Rightarrow> int" where
  "f64_pow b = (if f64_exp b = 0 then - 1074 else int (f64_exp b) - 1075)"

definition saturate_i64 :: "int \<Rightarrow> 64 word" where
  "saturate_i64 k = of_int (max (- (2 ^ 63)) (min (2 ^ 63 - 1) k))"

definition i64_of_f64 :: "f64bits \<Rightarrow> 64 word" where
  "i64_of_f64 b =
    (if f64_exp b = 2047 then
       (if f64_frac b \<noteq> 0 then 0
        else saturate_i64 (if f64_sign b then - (2 ^ 63) else 2 ^ 63))
     else
       (let m = (if f64_pow b \<ge> 0 then f64_mant b * 2 ^ nat (f64_pow b)
                 else f64_mant b div 2 ^ nat (- f64_pow b))
        in saturate_i64 (if f64_sign b then - int m else int m)))"

section \<open>Values\<close>

datatype ScalarValue =
    SvBoolean bool | SvByte "8 word" | SvUByte "8 word" | SvShort "16 word" | SvUShort "16 word"
  | SvInt "32 word" | SvUInt "32 word" | SvLong "64 word" | SvULong "64 word"
  | SvFloat f32bits | SvDouble f64bits | SvString rstring

fun sv_as_f64 :: "ScalarValue \<Rightarrow> f64bits option" where
  "sv_as_f64 (SvBoolean v) = Some (if v then f64_of_int 1 else 0)"
| "sv_as_f64 (SvByte v) = Some (f64_of_int (sint v))"
| "sv_as_f64 (SvUByte v) = Some (f64_of_int (uint v))"
| "sv_as_f64 (SvShort v) = Some (f64_of_int (sint v))"
| "sv_as_f64 (SvUShort v) = Some (f64_of_int (uint v))"
| "sv_as_f64 (SvInt v) = Some (f64_of_int (sint v))"
| "sv_as_f64 (SvUInt v) = Some (f64_of_int (uint v))"
| "sv_as_f64 (SvLong v) = Some (f64_of_int (sint v))"
| "sv_as_f64 (SvULong v) = Some (f64_of_int (uint v))"
| "sv_as_f64 (SvFloat v) = Some (f64_of_f32 v)"
| "sv_as_f64 (SvDouble v) = Some v"
| "sv_as_f64 (SvString s) = None"

fun sv_as_i64 :: "ScalarValue \<Rightarrow> 64 word option" where
  "sv_as_i64 (SvBoolean v) = Some (if v then 1 else 0)"
| "sv_as_i64 (SvByte v) = Some (scast v)"
| "sv_as_i64 (SvUByte v) = Some (ucast v)"
| "sv_as_i64 (SvShort v) = Some (scast v)"
| "sv_as_i64 (SvUShort v) = Some (ucast v)"
| "sv_as_i64 (SvInt v) = Some (scast v)"
| "sv_as_i64 (SvUInt v) = Some (ucast v)"
| "sv_as_i64 (SvLong v) = Some v"
| "sv_as_i64 (SvULong v) = Some v"
| "sv_as_i64 (SvFloat v) = Some (i64_of_f64 (f64_of_f32 v))"
| "sv_as_i64 (SvDouble v) = Some (i64_of_f64 v)"
| "sv_as_i64 (SvString s) = None"

definition sv_as_i32 :: "ScalarValue \<Rightarrow> 32 word option" where
  "sv_as_i32 v = map_option ucast (sv_as_i64 v)"

definition sv_is_numeric :: "ScalarValue \<Rightarrow> bool" where
  "sv_is_numeric v = (case v of SvString _ \<Rightarrow> False | _ \<Rightarrow> True)"

fun sv_as_str :: "ScalarValue \<Rightarrow> rstring option" where
  "sv_as_str (SvString s) = Some s"
| "sv_as_str _ = None"

fun sv_type_tag :: "ScalarValue \<Rightarrow> ScalarType" where
  "sv_type_tag (SvBoolean _) = StBoolean" | "sv_type_tag (SvByte _) = StByte"
| "sv_type_tag (SvUByte _) = StUByte" | "sv_type_tag (SvShort _) = StShort"
| "sv_type_tag (SvUShort _) = StUShort" | "sv_type_tag (SvInt _) = StInt"
| "sv_type_tag (SvUInt _) = StUInt" | "sv_type_tag (SvLong _) = StLong"
| "sv_type_tag (SvULong _) = StULong" | "sv_type_tag (SvFloat _) = StFloat"
| "sv_type_tag (SvDouble _) = StDouble" | "sv_type_tag (SvString _) = StString"

section \<open>Conversions that lose nothing\<close>

definition f64_value :: "f64bits \<Rightarrow> rat option" where
  "f64_value b =
    (if f64_exp b = 2047 then None
     else Some ((if f64_sign b then - 1 else 1) * of_nat (f64_mant b) * 2 powi f64_pow b))"

definition f32_value :: "f32bits \<Rightarrow> rat option" where
  "f32_value b =
    (if f32_exp b = 255 then None
     else Some ((if f32_sign b then - 1 else 1) *
       (if f32_exp b = 0 then of_nat (f32_frac b) * 2 powi (- 149)
        else of_nat (2 ^ 23 + f32_frac b) * 2 powi (int (f32_exp b) - 150))))"

text \<open>The number a scalar stands for; \<open>None\<close> for strings, infinities and NaN.\<close>

fun sv_value :: "ScalarValue \<Rightarrow> rat option" where
  "sv_value (SvBoolean v) = Some (if v then 1 else 0)"
| "sv_value (SvByte v) = Some (of_int (sint v))"
| "sv_value (SvUByte v) = Some (of_int (uint v))"
| "sv_value (SvShort v) = Some (of_int (sint v))"
| "sv_value (SvUShort v) = Some (of_int (uint v))"
| "sv_value (SvInt v) = Some (of_int (sint v))"
| "sv_value (SvUInt v) = Some (of_int (uint v))"
| "sv_value (SvLong v) = Some (of_int (sint v))"
| "sv_value (SvULong v) = Some (of_int (uint v))"
| "sv_value (SvFloat v) = f32_value v"
| "sv_value (SvDouble v) = f64_value v"
| "sv_value (SvString s) = None"

lemma flog2_bounds: "0 < n \<Longrightarrow> 2 ^ flog2 n \<le> n \<and> n < 2 ^ (flog2 n + 1)"
proof (induction n rule: flog2.induct)
  case (1 n)
  show ?case
  proof (cases "n < 2")
    case True
    then have "n = 1"
      using 1(2) by simp
    then show ?thesis
      by (simp add: flog2.simps)
  next
    case False
    then have "2 ^ flog2 (n div 2) \<le> n div 2 \<and> n div 2 < 2 ^ (flog2 (n div 2) + 1)"
      using 1(1) by simp
    then show ?thesis
      using False by (simp add: flog2.simps[of n]) linarith
  qed
qed

lemma flog2_less: "0 < n \<Longrightarrow> n < 2 ^ k \<Longrightarrow> flog2 n < k"
  using flog2_bounds[of n] by (meson le_less_trans nat_power_less_imp_less pos2)

lemma unat_of_nat_64: "n < 2 ^ 64 \<Longrightarrow> unat (of_nat n :: 64 word) = n"
  by (simp add: unat_of_nat)

lemma f64_fields:
  fixes s :: bool and E F :: nat
  assumes "E < 2048" "F < 2 ^ 52"
  defines "b \<equiv> of_nat ((if s then 2 ^ 63 else 0) + (E * 2 ^ 52 + F)) :: f64bits"
  shows "f64_exp b = E" "f64_frac b = F" "f64_sign b = s"
proof -
  have lt: "E * 2 ^ 52 + F < 2 ^ 63"
  proof -
    have "E * 2 ^ 52 \<le> 2047 * 2 ^ 52"
      using assms(1) by simp
    then show ?thesis
      using assms(2) by simp
  qed
  then have "(if s then 2 ^ 63 else 0) + (E * 2 ^ 52 + F) < 2 ^ 64"
    by auto
  then have u: "unat b = (if s then 2 ^ 63 else 0) + (E * 2 ^ 52 + F)"
    unfolding b_def by (rule unat_of_nat_64)
  have "(E * 2 ^ 52 + F) div 2 ^ 52 = E" "(E * 2 ^ 52 + F) mod 2 ^ 52 = F"
    using assms(2) by simp_all
  moreover have "(2 ^ 63 + (E * 2 ^ 52 + F)) div 2 ^ 52 = 2 ^ 11 + E"
  proof -
    have "2 ^ 63 + (E * 2 ^ 52 + F) = F + 2 ^ 52 * (2 ^ 11 + E)"
      by simp
    then show ?thesis
      using assms(2) by (metis add.commute div_mult_self2 div_less add_0 power_not_zero zero_neq_numeral)
  qed
  moreover have "(2 ^ 63 + (E * 2 ^ 52 + F)) mod 2 ^ 52 = F"
  proof -
    have "2 ^ 63 + (E * 2 ^ 52 + F) = F + 2 ^ 52 * (2 ^ 11 + E)"
      by simp
    then show ?thesis
      using assms(2) by (metis mod_mult_self2 mod_less)
  qed
  moreover have "(2 ^ 63 + (E * 2 ^ 52 + F)) div 2 ^ 63 = 1" "(E * 2 ^ 52 + F) div 2 ^ 63 = 0"
    using lt by simp_all
  ultimately show "f64_exp b = E" "f64_frac b = F" "f64_sign b = s"
    using assms(1) by (auto simp: f64_exp_def f64_frac_def f64_sign_def u)
qed

lemma f64_value_dyadic:
  assumes m: "0 < m" "m < 2 ^ 53" and e: "1 \<le> int (flog2 m) + p + 1023" "int (flog2 m) + p + 1023 \<le> 2046"
  shows "f64_value (of_nat ((if s then 2 ^ 63 else 0) + f64_dyadic m p)) =
    Some ((if s then - 1 else 1) * of_nat m * 2 powi p)"
proof -
  define e where "e = flog2 m"
  define E where "E = nat (int e + p + 1023)"
  define M where "M = m * 2 ^ (52 - e)"
  have e52: "e \<le> 52"
    using flog2_less[OF m] by (simp add: e_def)
  have b: "2 ^ e \<le> m" "m < 2 ^ (e + 1)"
    using flog2_bounds[OF m(1)] by (simp_all add: e_def)
  have "2 ^ e * 2 ^ (52 - e) \<le> M" "M < 2 ^ (e + 1) * 2 ^ (52 - e)"
    using b by (simp_all add: M_def)
  moreover have "(2::nat) ^ e * 2 ^ (52 - e) = 2 ^ 52" "(2::nat) ^ (e + 1) * 2 ^ (52 - e) = 2 ^ 53"
    using e52 by (simp_all only: power_add[symmetric]) simp_all
  ultimately have M: "2 ^ 52 \<le> M" "M < 2 ^ 53"
    by simp_all
  have E: "E < 2048" "1 \<le> E" "E \<noteq> 2047" "int E = int e + p + 1023"
    using e by (auto simp: E_def e_def)
  have "nat (int e + p + 1022) = E - 1"
    using E(4) by linarith
  then have "f64_dyadic m p = (E - 1) * 2 ^ 52 + M"
    by (simp add: f64_dyadic_def e_def M_def)
  also have "\<dots> = E * 2 ^ 52 + (M - 2 ^ 52)"
    using M(1) E(2) by (cases E) auto
  finally have d: "f64_dyadic m p = E * 2 ^ 52 + (M - 2 ^ 52)" .
  let ?b = "of_nat ((if s then 2 ^ 63 else 0) + f64_dyadic m p) :: f64bits"
  have F: "f64_exp ?b = E" "f64_frac ?b = M - 2 ^ 52" "f64_sign ?b = s"
    unfolding d by (rule f64_fields; use E M in simp)+
  have "f64_mant ?b = M" "f64_pow ?b = int e + p - 52"
    using F E M by (auto simp: f64_mant_def f64_pow_def)
  moreover have "of_nat M * 2 powi (int e + p - 52) = (of_nat m * 2 powi p :: rat)"
  proof -
    have "(2::rat) powi (int e + p - 52) = 2 powi p * 2 powi (- int (52 - e))"
      using e52 by (subst power_int_add[symmetric]) (auto intro: arg_cong[where f = "\<lambda>k. 2 powi k"])
    moreover have "(2::rat) ^ (52 - e) * 2 powi (- int (52 - e)) = 1"
      by (simp add: power_int_minus)
    ultimately show ?thesis
      by (simp add: M_def)
  qed
  ultimately show ?thesis
    using F E by (simp add: f64_value_def)
qed

lemma f64_value_0: "f64_value 0 = Some 0"
  by (simp add: f64_value_def f64_exp_def f64_frac_def f64_mant_def)

lemma f64_value_of_int:
  assumes "\<bar>k\<bar> < 2 ^ 53"
  shows "f64_value (f64_of_int k) = Some (of_int k)"
proof (cases "k = 0")
  case True
  then show ?thesis
    by (simp add: f64_of_int_def f64_of_nat_def f64_value_0)
next
  case False
  define m where "m = nat \<bar>k\<bar>"
  have m: "0 < m" "m < 2 ^ 53"
    using False assms by (simp_all add: m_def nat_less_iff)
  have "flog2 m \<le> 52"
    using flog2_less[OF m] by simp
  moreover have "of_int k = ((if k < 0 then - 1 else 1) * of_nat m :: rat)"
    by (simp add: m_def)
  ultimately show ?thesis
    using f64_value_dyadic[OF m, of 0 "k < 0"] m
    by (simp add: f64_of_int_def f64_of_nat_def m_def)
qed

lemma flog2_eq:
  assumes "2 ^ k \<le> n" "n < 2 ^ (k + 1)"
  shows "flog2 n = k"
proof -
  have n: "0 < n"
    using assms(1) by (metis gr0I not_less zero_less_numeral zero_less_power)
  have "flog2 n < k + 1"
    using flog2_less[OF n assms(2)] .
  moreover have "k < flog2 n + 1"
    using assms(1) flog2_bounds[OF n] by (meson le_less_trans nat_power_less_imp_less pos2)
  ultimately show ?thesis
    by simp
qed

lemma f32_frac_less: "f32_frac b < 2 ^ 23"
  by (simp add: f32_frac_def)

lemma f32_exp_less: "f32_exp b < 256"
  by (simp add: f32_exp_def)

lemma f64_value_of_f32: "f64_value (f64_of_f32 b) = f32_value b"
proof -
  note fr = f32_frac_less[of b] and ex = f32_exp_less[of b]
  consider (special) "f32_exp b = 255" | (zero) "f32_exp b = 0" "f32_frac b = 0"
    | (subnormal) "f32_exp b = 0" "0 < f32_frac b" | (normal) "0 < f32_exp b" "f32_exp b < 255"
    using ex by force
  then show ?thesis
  proof cases
    case special
    have "f32_frac b * 2 ^ 29 < 2 ^ 52"
      using fr by simp
    then have "f64_exp (f64_of_f32 b) = 2047"
      using special f64_fields(1)[of 2047 "f32_frac b * 2 ^ 29" "f32_sign b"]
      by (simp only: f64_of_f32_def if_True) simp
    then show ?thesis
      using special by (simp add: f64_value_def f32_value_def)
  next
    case zero
    have "f64_exp (f64_of_f32 b) = 0 \<and> f64_frac (f64_of_f32 b) = 0"
      using zero f64_fields(1,2)[of 0 0 "f32_sign b"] by (simp add: f64_of_f32_def)
    then show ?thesis
      using zero by (simp add: f64_value_def f32_value_def f64_mant_def)
  next
    case subnormal
    have "flog2 (f32_frac b) < 23"
      by (rule flog2_less[OF subnormal(2) fr])
    moreover have "f32_frac b < 2 ^ 53"
      using fr by simp
    ultimately show ?thesis
      using subnormal f64_value_dyadic[of "f32_frac b" "- 149" "f32_sign b"]
      by (simp add: f64_of_f32_def f32_value_def)
  next
    case normal
    have "flog2 (2 ^ 23 + f32_frac b) = 23"
      using fr by (intro flog2_eq) simp_all
    moreover have "2 ^ 23 + f32_frac b < 2 ^ 53"
      using fr by simp
    ultimately show ?thesis
      using normal f64_value_dyadic[of "2 ^ 23 + f32_frac b" "int (f32_exp b) - 150" "f32_sign b"]
      by (simp add: f64_of_f32_def f32_value_def)
  qed
qed

lemma sint_small:
  "\<bar>sint (a :: 8 word)\<bar> < 2 ^ 53" "\<bar>sint (b :: 16 word)\<bar> < 2 ^ 53" "\<bar>sint (c :: 32 word)\<bar> < 2 ^ 53"
  using sint_less[of a] sint_greater_eq[of a] sint_less[of b] sint_greater_eq[of b]
    sint_less[of c] sint_greater_eq[of c] by simp_all

lemma uint_small:
  "\<bar>uint (a :: 8 word)\<bar> < 2 ^ 53" "\<bar>uint (b :: 16 word)\<bar> < 2 ^ 53" "\<bar>uint (c :: 32 word)\<bar> < 2 ^ 53"
  using uint_lt2p[of a] uint_lt2p[of b] uint_lt2p[of c] by simp_all

lemma scalar_wire_round_trip [simp]: "scalar_from_wire (scalar_to_tag t) = Some t"
  by (cases t) (simp_all add: scalar_from_wire_def)

section \<open>Properties\<close>

text \<open>Every type the sources call exact really converts to \<open>f64\<close> without loss: booleans,
  the integers up to 32 bits and both float types keep their number (and non numbers stay
  non numbers).\<close>

theorem f64_exact_types_convert_exactly:
  assumes "scalar_is_f64_exact (sv_type_tag v)"
  shows "\<exists>d. sv_as_f64 v = Some d \<and> f64_value d = sv_value v"
  using assms f64_value_of_int[of 1]
  by (cases v) (simp_all add: scalar_is_f64_exact_def f64_value_0 f64_value_of_f32
      f64_value_of_int[OF sint_small(1)] f64_value_of_int[OF sint_small(2)]
      f64_value_of_int[OF sint_small(3)] f64_value_of_int[OF uint_small(1)]
      f64_value_of_int[OF uint_small(2)] f64_value_of_int[OF uint_small(3)])

theorem f64_exact_types_convert_exactly_witness:
  "\<exists>d. sv_as_f64 (SvInt (- 7)) = Some d \<and> f64_value d = Some (- 7)"
  using f64_exact_types_convert_exactly[of "SvInt (- 7)"] by (simp add: scalar_is_f64_exact_def)

text \<open>The 64 bit integers are rightly excluded: \<open>2 ^ 53 + 1\<close> becomes the double of
  \<open>2 ^ 53\<close>, so two different archived values become one.\<close>

lemma long_to_f64_collapses:
  "sv_as_f64 (SvLong 9007199254740993) = sv_as_f64 (SvLong 9007199254740992) \<and>
   sv_value (SvLong 9007199254740993) \<noteq> sv_value (SvLong 9007199254740992)"
proof -
  have "flog2 9007199254740992 = 53" "flog2 9007199254740993 = 53"
    by (rule flog2_eq; simp)+
  then have "f64_of_nat 9007199254740993 = f64_of_nat 9007199254740992"
    by (simp add: f64_of_nat_def Let_def)
  then show ?thesis
    by (simp add: f64_of_int_def)
qed

end
