(* ===== verification/FieldDesc.thy ===== *)
theory FieldDesc
  imports PvData Scalars "HOL-Library.AList"
begin

text \<open>
  Introspection data (\<open>aura-net/src/codec/field_desc.rs\<close>): the description tree of a
  structure, its wire encoding, and the registry of descriptions by id.  The mutually
  recursive decoders are written over the recursive call they make and tied together by
  \<open>decode_full\<close>, whose fuel is the number of bytes left plus one; \<open>decode_full_fuel\<close> shows
  that any larger fuel gives the same answer, so the bound never shows.
\<close>

unbundle bit_operations_syntax

definition NULL_TYPE_CODE :: byte where "NULL_TYPE_CODE = 0xFF"
definition ONLY_ID_TYPE_CODE :: byte where "ONLY_ID_TYPE_CODE = 0xFE"
definition FULL_WITH_ID_CODE :: byte where "FULL_WITH_ID_CODE = 0xFD"

section \<open>Field categories\<close>

datatype FieldCategory =
    FcScalar | FcScalarArray | FcStructure | FcStructureArray | FcUnion | FcUnionArray
  | FcBoundedString

definition category_from_type_code :: "byte \<Rightarrow> FieldCategory option" where
  "category_from_type_code code =
    (let k = drop_bit 3 code AND 0x07 in
     if k = 0 then Some FcScalar else if k = 1 then Some FcScalarArray
     else if k = 2 then Some FcStructure else if k = 3 then Some FcStructureArray
     else if k = 4 then Some FcUnion else if k = 5 then Some FcUnionArray
     else if k = 6 then Some FcBoundedString else None)"

fun category_to_bits :: "FieldCategory \<Rightarrow> byte" where
  "category_to_bits FcScalar = 0" | "category_to_bits FcScalarArray = 1"
| "category_to_bits FcStructure = 2" | "category_to_bits FcStructureArray = 3"
| "category_to_bits FcUnion = 4" | "category_to_bits FcUnionArray = 5"
| "category_to_bits FcBoundedString = 6"

section \<open>Descriptions\<close>

datatype FieldType =
    FtScalar ScalarType | FtScalarArray ScalarType | FtBoundedString nat | FtStructure
  | FtStructureArray | FtUnion | FtUnionArray | FtVariantUnion | FtVariantUnionArray

text \<open>A \<open>NamedField\<close> is the pair of its name and its description.\<close>

datatype FieldDesc =
  FieldDesc (fd_type: FieldType) (fd_type_id: rstring) (fd_fields: "(rstring \<times> FieldDesc) list")

type_synonym NamedField = "rstring \<times> FieldDesc"

fun scalar_to_wire :: "ScalarType \<Rightarrow> byte" where
  "scalar_to_wire StBoolean = 0x00" | "scalar_to_wire StByte = 0x20"
| "scalar_to_wire StShort = 0x21" | "scalar_to_wire StInt = 0x22"
| "scalar_to_wire StLong = 0x23" | "scalar_to_wire StUByte = 0x24"
| "scalar_to_wire StUShort = 0x25" | "scalar_to_wire StUInt = 0x26"
| "scalar_to_wire StULong = 0x27" | "scalar_to_wire StFloat = 0x42"
| "scalar_to_wire StDouble = 0x43" | "scalar_to_wire StString = 0x60"

definition fd_scalar :: "ScalarType \<Rightarrow> FieldDesc" where
  "fd_scalar s = FieldDesc (FtScalar s) [] []"
definition fd_scalar_array :: "ScalarType \<Rightarrow> FieldDesc" where
  "fd_scalar_array s = FieldDesc (FtScalarArray s) [] []"
definition fd_structure :: "rstring \<Rightarrow> NamedField list \<Rightarrow> FieldDesc" where
  "fd_structure tid fs = FieldDesc FtStructure tid fs"
definition fd_structure_array :: "rstring \<Rightarrow> NamedField list \<Rightarrow> FieldDesc" where
  "fd_structure_array tid fs = FieldDesc FtStructureArray tid fs"
definition fd_union_type :: "rstring \<Rightarrow> NamedField list \<Rightarrow> FieldDesc" where
  "fd_union_type tid fs = FieldDesc FtUnion tid fs"
definition fd_variant_union :: FieldDesc where
  "fd_variant_union = FieldDesc FtVariantUnion [] []"
definition fd_bounded_string :: "nat \<Rightarrow> FieldDesc" where
  "fd_bounded_string n = FieldDesc (FtBoundedString n) [] []"

definition fd_is_structure :: "FieldDesc \<Rightarrow> bool" where
  "fd_is_structure d = (fd_type d = FtStructure)"
definition fd_is_scalar :: "FieldDesc \<Rightarrow> bool" where
  "fd_is_scalar d = (case fd_type d of FtScalar _ \<Rightarrow> True | _ \<Rightarrow> False)"
definition fd_is_array :: "FieldDesc \<Rightarrow> bool" where
  "fd_is_array d = (case fd_type d of FtScalarArray _ \<Rightarrow> True | FtStructureArray \<Rightarrow> True
     | FtUnionArray \<Rightarrow> True | FtVariantUnionArray \<Rightarrow> True | _ \<Rightarrow> False)"

definition fd_is_normative_type :: "FieldDesc \<Rightarrow> bool" where
  "fd_is_normative_type d = (take 9 (fd_type_id d) = ascii ''epics:nt/'')"

definition fd_nt_type_name :: "FieldDesc \<Rightarrow> rstring option" where
  "fd_nt_type_name d =
    (if fd_is_normative_type d then Some (takeWhile (\<lambda>c. c \<noteq> 58) (drop 9 (fd_type_id d))) else None)"

definition fd_find_field :: "rstring \<Rightarrow> FieldDesc \<Rightarrow> FieldDesc option" where
  "fd_find_field name d = map_option snd (find (\<lambda>f. fst f = name) (fd_fields d))"

fun flat_field_count :: "FieldDesc \<Rightarrow> nat" and flat_counts :: "NamedField list \<Rightarrow> nat" where
  "flat_field_count (FieldDesc ft tid fs) = 1 + flat_counts fs"
| "flat_counts [] = 0"
| "flat_counts (f # fs) = flat_field_count (snd f) + flat_counts fs"

section \<open>Registry\<close>

record introspection_registry =
  reg_by_id :: "(16 word \<times> FieldDesc) list"
  reg_max_entries :: nat

definition reg_new :: "nat \<Rightarrow> introspection_registry" where
  "reg_new n = \<lparr> reg_by_id = [], reg_max_entries = n \<rparr>"

definition reg_get :: "16 word \<Rightarrow> introspection_registry \<Rightarrow> FieldDesc option" where
  "reg_get i reg = map_of (reg_by_id reg) i"

definition reg_len :: "introspection_registry \<Rightarrow> nat" where
  "reg_len reg = length (reg_by_id reg)"

definition reg_is_empty :: "introspection_registry \<Rightarrow> bool" where
  "reg_is_empty reg = (reg_by_id reg = [])"

definition reg_is_full :: "introspection_registry \<Rightarrow> bool" where
  "reg_is_full reg = (reg_len reg \<ge> reg_max_entries reg)"

definition reg_register ::
  "16 word \<Rightarrow> FieldDesc \<Rightarrow> introspection_registry \<Rightarrow> bool \<times> introspection_registry" where
  "reg_register i d reg =
    (if reg_len reg \<ge> reg_max_entries reg then (False, reg)
     else (True, reg \<lparr> reg_by_id := AList.update i d (reg_by_id reg) \<rparr>))"

definition reg_clear :: "introspection_registry \<Rightarrow> introspection_registry" where
  "reg_clear reg = reg \<lparr> reg_by_id := [] \<rparr>"

section \<open>Decoding\<close>

definition scalar_of_base :: "byte \<Rightarrow> ScalarType option" where
  "scalar_of_base base =
    (if base = 0x00 then Some StBoolean else if base = 0x20 then Some StByte
     else if base = 0x21 then Some StShort else if base = 0x22 then Some StInt
     else if base = 0x23 then Some StLong else if base = 0x24 then Some StUByte
     else if base = 0x25 then Some StUShort else if base = 0x26 then Some StUInt
     else if base = 0x27 then Some StULong else if base = 0x42 then Some StFloat
     else if base = 0x43 then Some StDouble else if base = 0x60 then Some StString
     else None)"

text \<open>\<open>nested\<close> is the recursive call \<open>decode_full\<close>.\<close>

definition decode_named_fields :: "FieldDesc rd \<Rightarrow> NamedField list rd" where
  "decode_named_fields nested = rd_bind read_size_non_null (\<lambda>count.
     rd_repeat count (rd_bind read_string (\<lambda>name. rd_bind nested (\<lambda>d. rd_return (name, d)))))"

definition decode_complex_type :: "FieldDesc rd \<Rightarrow> byte \<Rightarrow> FieldDesc rd" where
  "decode_complex_type nested code =
    (if code = 0x80 \<or> code = 0x88 then
       rd_bind read_string (\<lambda>tid. rd_bind (decode_named_fields nested) (\<lambda>fs.
         rd_return (FieldDesc (if code = 0x80 then FtStructure else FtStructureArray) tid fs)))
     else if code = 0x82 \<or> code = 0x8A then
       rd_bind read_string (\<lambda>tid. rd_bind (decode_named_fields nested) (\<lambda>fs.
         rd_return (FieldDesc (if code = 0x82 then FtUnion else FtUnionArray) tid fs)))
     else if code = 0x86 then
       rd_bind read_size_non_null (\<lambda>bound. rd_return (FieldDesc (FtBoundedString bound) [] []))
     else if code = 0x81 then rd_return (FieldDesc FtVariantUnion [] [])
     else if code = 0x83 \<or> code = 0x89 then rd_return (FieldDesc FtVariantUnionArray [] [])
     else rd_fail (DeUnknownTypeCode code))"

definition decode_type_code :: "FieldDesc rd \<Rightarrow> byte \<Rightarrow> FieldDesc rd" where
  "decode_type_code nested code =
    (if code AND 0x80 \<noteq> 0 then decode_complex_type nested code
     else
       (let is_array = (code AND 0x08 \<noteq> 0); base = code AND NOT 0x08 in
        case scalar_of_base base of
          None \<Rightarrow> rd_fail (DeUnknownTypeCode code)
        | Some s \<Rightarrow> rd_return (if is_array then fd_scalar_array s else fd_scalar s)))"

definition decode_full_body :: "FieldDesc rd \<Rightarrow> FieldDesc rd" where
  "decode_full_body nested = rd_bind read_u8 (\<lambda>tag.
     if tag = NULL_TYPE_CODE then
       rd_fail (DeProtocol (ascii ''unexpected NULL_TYPE_CODE in nested field''))
     else if tag = ONLY_ID_TYPE_CODE then
       rd_bind read_i16 (\<lambda>i. rd_fail (DeProtocol (ascii ''ONLY_ID_TYPE_CODE '' @ show_int (sint i) @
         ascii '' in nested field (registry not available)'')))
     else if tag = FULL_WITH_ID_CODE then
       rd_bind read_i16 (\<lambda>_. rd_bind read_u8 (\<lambda>code. decode_type_code nested code))
     else decode_type_code nested tag)"

fun decode_full_n :: "nat \<Rightarrow> FieldDesc rd" where
  "decode_full_n 0 = rd_fail (DeProtocol (ascii ''out of fuel''))"
| "decode_full_n (Suc n) = decode_full_body (decode_full_n n)"

definition decode_full :: "FieldDesc rd" where
  "decode_full = (\<lambda>r. decode_full_n (Suc (rd_remaining r)) r)"

text \<open>\<open>FieldDesc::decode\<close> also takes the registry, which it may extend.\<close>

definition fd_decode :: "introspection_registry \<Rightarrow> pva_reader \<Rightarrow>
    (DecodeError + FieldDesc option) \<times> introspection_registry \<times> pva_reader" where
  "fd_decode reg r =
    (case read_u8 r of
       (Err e, r1) \<Rightarrow> (Err e, reg, r1)
     | (Ok tag, r1) \<Rightarrow>
        if tag = NULL_TYPE_CODE then (Ok None, reg, r1)
        else if tag = ONLY_ID_TYPE_CODE then
          (case read_i16 r1 of
             (Err e, r2) \<Rightarrow> (Err e, reg, r2)
           | (Ok i, r2) \<Rightarrow>
              (case reg_get i reg of
                 None \<Rightarrow> (Err (DeProtocol (ascii ''unknown introspection ID: '' @ show_int (sint i))), reg, r2)
               | Some d \<Rightarrow> (Ok (Some d), reg, r2)))
        else if tag = FULL_WITH_ID_CODE then
          (case read_i16 r1 of
             (Err e, r2) \<Rightarrow> (Err e, reg, r2)
           | (Ok i, r2) \<Rightarrow>
              (case decode_full r2 of
                 (Err e, r3) \<Rightarrow> (Err e, reg, r3)
               | (Ok d, r3) \<Rightarrow> (Ok (Some d), snd (reg_register i d reg), r3)))
        else
          (case decode_type_code decode_full tag r1 of
             (Err e, r2) \<Rightarrow> (Err e, reg, r2)
           | (Ok d, r2) \<Rightarrow> (Ok (Some d), reg, r2)))"

section \<open>Encoding\<close>

fun fd_encode :: "FieldDesc \<Rightarrow> wr" and fields_encode :: "NamedField list \<Rightarrow> wr" where
  "fd_encode (FieldDesc ft tid fs) w =
    (case ft of
       FtScalar s \<Rightarrow> write_u8 (scalar_to_wire s) w
     | FtScalarArray s \<Rightarrow> write_u8 (scalar_to_wire s OR 0x08) w
     | FtBoundedString bound \<Rightarrow> write_size bound (write_u8 0x86 w)
     | FtVariantUnion \<Rightarrow> write_u8 0x81 w
     | FtVariantUnionArray \<Rightarrow> write_u8 0x83 w
     | _ \<Rightarrow>
        (let code = (case ft of FtStructure \<Rightarrow> 0x80 | FtStructureArray \<Rightarrow> 0x88
             | FtUnion \<Rightarrow> 0x82 | _ \<Rightarrow> 0x8A)
         in fields_encode fs (write_size (length fs) (write_string tid (write_u8 code w)))))"
| "fields_encode [] w = w"
| "fields_encode (f # fs) w = fields_encode fs (fd_encode (snd f) (write_string (fst f) w))"

section \<open>The decoders move forward, and fuel does not matter\<close>

lemma forward_named_fields [forward_intros]: "forward nested \<Longrightarrow> forward (decode_named_fields nested)"
  by (auto simp: decode_named_fields_def intro!: forward_intros)

lemma forward_complex_type [forward_intros]: "forward nested \<Longrightarrow> forward (decode_complex_type nested code)"
  by (auto simp: decode_complex_type_def intro!: forward_intros)

lemma forward_type_code [forward_intros]: "forward nested \<Longrightarrow> forward (decode_type_code nested code)"
  by (auto simp: decode_type_code_def Let_def intro!: forward_intros)

lemma forward_full_body [forward_intros]: "forward nested \<Longrightarrow> forward (decode_full_body nested)"
  by (auto simp: decode_full_body_def intro!: forward_intros)

lemma forward_full_n [forward_intros]: "forward (decode_full_n n)"
  by (induction n) (auto intro!: forward_intros)

lemma forward_full [forward_intros]: "forward decode_full"
  using forward_full_n unfolding forward_def decode_full_def by blast

text \<open>Two reads agree on readers with at most \<open>k\<close> bytes left.\<close>

definition agree :: "nat \<Rightarrow> 'a rd \<Rightarrow> 'a rd \<Rightarrow> bool" where
  "agree k m m' \<longleftrightarrow> (\<forall>r. rd_remaining r \<le> k \<longrightarrow> m r = m' r)"

lemma agree_refl: "agree k m m"
  by (simp add: agree_def)

lemma agree_bind:
  assumes "agree k m m'" "forward m" "\<And>x. agree k (f x) (f' x)"
  shows "agree k (rd_bind m f) (rd_bind m' f')"
  unfolding agree_def
proof (intro allI impI)
  fix r assume r: "rd_remaining r \<le> k"
  obtain q r' where m: "m r = (q, r')"
    by (cases "m r")
  have "rd_remaining r' \<le> k"
    using forward_remaining[OF assms(2), of r] m r by simp
  then show "rd_bind m f r = rd_bind m' f' r"
    using assms(1,3) r m by (auto simp: agree_def rd_bind_def split: sum.split)
qed

lemma agree_repeat: "agree k m m' \<Longrightarrow> forward m \<Longrightarrow> agree k (rd_repeat n m) (rd_repeat n m')"
  by (induction n) (auto intro!: agree_bind agree_refl forward_intros)

lemma agree_named_fields:
  assumes "agree k a b" "forward a"
  shows "agree k (decode_named_fields a) (decode_named_fields b)"
  unfolding decode_named_fields_def
  by (intro agree_bind agree_repeat agree_refl assms forward_intros)

lemma agree_type_code:
  assumes "agree k a b" "forward a"
  shows "agree k (decode_type_code a code) (decode_type_code b code)"
  using agree_named_fields[OF assms] forward_named_fields[OF assms(2)]
  by (auto simp: decode_type_code_def decode_complex_type_def Let_def
      intro!: agree_bind agree_refl forward_intros)

lemma read_u8_consumes:
  assumes "read_u8 r = (Ok b, r')"
  shows "rd_remaining r = Suc (rd_remaining r')"
  using assms by (auto simp: read_u8_def rd_bind_def rd_ensure_def rd_remaining_def split: if_splits)

lemma agree_body:
  assumes "\<And>j. j < k \<Longrightarrow> agree j a b" "forward a"
  shows "agree k (decode_full_body a) (decode_full_body b)"
  unfolding agree_def
proof (intro allI impI)
  fix r assume r: "rd_remaining r \<le> k"
  show "decode_full_body a r = decode_full_body b r"
  proof (cases "read_u8 r")
    case (Pair q r1)
    show ?thesis
    proof (cases q)
      case (Inl e)
      then show ?thesis
        using Pair by (simp add: decode_full_body_def rd_bind_def)
    next
      case (Inr tag)
      then have "rd_remaining r1 < k"
        using read_u8_consumes[of r tag r1] Pair r by simp
      then have ag: "agree (rd_remaining r1) a b"
        using assms(1) by simp
      have "agree (rd_remaining r1)
          (rd_bind read_i16 (\<lambda>_. rd_bind read_u8 (\<lambda>code. decode_type_code a code)))
          (rd_bind read_i16 (\<lambda>_. rd_bind read_u8 (\<lambda>code. decode_type_code b code)))"
        by (intro agree_bind agree_refl agree_type_code ag assms(2) forward_intros)
      then show ?thesis
        using Pair Inr agree_type_code[OF ag assms(2), of tag]
        by (simp add: decode_full_body_def rd_bind_def[of read_u8] agree_def)
    qed
  qed
qed

lemma decode_full_n_agree:
  "k < n \<Longrightarrow> k < m \<Longrightarrow> agree k (decode_full_n n) (decode_full_n m)"
proof (induction k arbitrary: n m rule: less_induct)
  case (less k)
  then obtain n' m' where "n = Suc n'" "m = Suc m'" "k \<le> n'" "k \<le> m'"
    by (metis Suc_le_D Suc_leI Suc_le_mono)
  then show ?case
    using less.IH by (auto intro!: agree_body forward_intros)
qed

lemma decode_full_fuel: "rd_remaining r < n \<Longrightarrow> decode_full r = decode_full_n n r"
  using decode_full_n_agree[of "rd_remaining r" "Suc (rd_remaining r)" n]
  by (simp add: decode_full_def agree_def)

section \<open>Round trip\<close>

fun desc_ok :: "FieldDesc \<Rightarrow> bool" and fields_ok :: "NamedField list \<Rightarrow> bool" where
  "desc_ok (FieldDesc ft tid fs) =
    (case ft of
       FtScalar s \<Rightarrow> tid = [] \<and> fs = []
     | FtScalarArray s \<Rightarrow> tid = [] \<and> fs = []
     | FtBoundedString bound \<Rightarrow> bound < 2 ^ 31 \<and> tid = [] \<and> fs = []
     | FtVariantUnion \<Rightarrow> tid = [] \<and> fs = []
     | FtVariantUnionArray \<Rightarrow> tid = [] \<and> fs = []
     | _ \<Rightarrow> string_ok tid \<and> length fs < 2 ^ 31 \<and> fields_ok fs)"
| "fields_ok [] = True"
| "fields_ok (f # fs) = (string_ok (fst f) \<and> desc_ok (snd f) \<and> fields_ok fs)"

declare fd_encode.simps [simp del] fields_encode.simps [simp del]

lemma fields_encode_eq:
  "fields_encode [] = (\<lambda>w. w)"
  "fields_encode (f # fs) = (\<lambda>w. fields_encode fs (fd_encode (snd f) (write_string (fst f) w)))"
  by (simp_all add: fun_eq_iff fields_encode.simps)

definition type_code :: "FieldType \<Rightarrow> byte" where
  "type_code ft = (case ft of FtScalar s \<Rightarrow> scalar_to_wire s | FtScalarArray s \<Rightarrow> scalar_to_wire s OR 0x08
     | FtBoundedString _ \<Rightarrow> 0x86 | FtVariantUnion \<Rightarrow> 0x81 | FtVariantUnionArray \<Rightarrow> 0x83
     | FtStructure \<Rightarrow> 0x80 | FtStructureArray \<Rightarrow> 0x88 | FtUnion \<Rightarrow> 0x82 | FtUnionArray \<Rightarrow> 0x8A)"

definition is_composite :: "FieldType \<Rightarrow> bool" where
  "is_composite ft = (ft \<in> {FtStructure, FtStructureArray, FtUnion, FtUnionArray})"

lemma appends_encode: "appends (fd_encode d)" "appends (fields_encode fs)"
  and written_encode:
    "written ord (fd_encode d) = type_code (fd_type d) #
      (case fd_type d of FtBoundedString n \<Rightarrow> size_bytes ord n
       | _ \<Rightarrow> if is_composite (fd_type d)
          then size_bytes ord (length (fd_type_id d)) @ fd_type_id d @ size_bytes ord (length (fd_fields d)) @
            written ord (fields_encode (fd_fields d))
          else [])"
    "written ord (fields_encode (f # fs)) = size_bytes ord (length (fst f)) @ fst f @
      written ord (fd_encode (snd f)) @ written ord (fields_encode fs)"
    "written ord (fields_encode []) = []"
proof -
  let ?comp = "\<lambda>code tid fs w. fields_encode fs (write_size (length fs) (write_string tid (write_u8 code w)))"
  have comp: "appends (?comp code tid fs)"
    "written ord (?comp code tid fs) = code # size_bytes ord (length tid) @ tid @
      size_bytes ord (length fs) @ written ord (fields_encode fs)"
    if "appends (fields_encode fs)" for code tid fs ord
  proof -
    have a1: "appends (\<lambda>w. write_string tid (write_u8 code w))"
      "written ord (\<lambda>w. write_string tid (write_u8 code w)) = code # size_bytes ord (length tid) @ tid"
      using appends_comp[OF appends_prims(2)[of code] appends_sized(2)[of tid]]
      by (simp_all add: wr_simps)
    have a2: "appends (\<lambda>w. write_size n (write_string tid (write_u8 code w)))"
      "written ord (\<lambda>w. write_size n (write_string tid (write_u8 code w))) =
        code # size_bytes ord (length tid) @ tid @ size_bytes ord n" for n
      using appends_comp[OF a1(1) appends_sized(1)[of n]] a1(2) by (simp_all add: wr_simps)
    show "appends (?comp code tid fs)"
      "written ord (?comp code tid fs) = code # size_bytes ord (length tid) @ tid @
        size_bytes ord (length fs) @ written ord (fields_encode fs)"
      using appends_comp[OF a2(1) that] a2(2) by simp_all
  qed
  have fcons: "appends (fields_encode (f # fs))"
    "written ord (fields_encode (f # fs)) = size_bytes ord (length (fst f)) @ fst f @
      written ord (fd_encode (snd f)) @ written ord (fields_encode fs)"
    if "appends (fd_encode (snd f))" "appends (fields_encode fs)" for f fs ord
    using appends_comp[OF appends_comp(1)[OF appends_sized(2)[of "fst f"] that(1)] that(2)]
      appends_comp(2)[OF appends_sized(2)[of "fst f"] that(1)]
    by (simp_all add: fields_encode_eq wr_simps)
  have bound: "appends (\<lambda>w. write_size n (write_u8 0x86 w))"
    "written ord (\<lambda>w. write_size n (write_u8 0x86 w)) = 0x86 # size_bytes ord n" for n ord
    using appends_comp[OF appends_prims(2)[of "0x86"] appends_sized(1)[of n]] by (simp_all add: wr_simps)
  have enc: "fd_encode (FieldDesc ft tid fs) = (if is_composite ft then ?comp (type_code ft) tid fs
      else case ft of FtBoundedString n \<Rightarrow> (\<lambda>w. write_size n (write_u8 0x86 w)) | _ \<Rightarrow> write_u8 (type_code ft))"
    for ft tid fs
    by (cases ft) (simp_all add: fun_eq_iff is_composite_def type_code_def Let_def fd_encode.simps)
  have one: "appends (fd_encode (FieldDesc ft tid fs))" if "appends (fields_encode fs)" for ft tid fs
    using that by (cases ft) (simp_all add: enc comp bound)
  have ap: "appends (fd_encode d) \<and> True" "appends (fields_encode fs)" for d fs
    by (induction d and fs rule: flat_field_count_flat_counts.induct)
      (simp_all add: one fcons fields_encode_eq(1))
  then show "appends (fd_encode d)" "appends (fields_encode fs)"
    by auto
  show "written ord (fields_encode (f # fs)) = size_bytes ord (length (fst f)) @ fst f @
      written ord (fd_encode (snd f)) @ written ord (fields_encode fs)"
    "written ord (fields_encode []) = []"
    using ap fcons by (simp_all add: fields_encode_eq(1))
  show "written ord (fd_encode d) = type_code (fd_type d) #
      (case fd_type d of FtBoundedString n \<Rightarrow> size_bytes ord n
       | _ \<Rightarrow> if is_composite (fd_type d)
          then size_bytes ord (length (fd_type_id d)) @ fd_type_id d @ size_bytes ord (length (fd_fields d)) @
            written ord (fields_encode (fd_fields d))
          else [])"
    using ap(2) comp(2) bound(2)
    by (cases d; cases "fd_type d") (simp_all add: enc is_composite_def type_code_def wr_simps)
qed

lemma type_code_tags: "type_code ft \<notin> {NULL_TYPE_CODE, ONLY_ID_TYPE_CODE, FULL_WITH_ID_CODE}"
proof -
  have "scalar_to_wire s \<notin> {0xFF, 0xFE, 0xFD}" "scalar_to_wire s OR 8 \<notin> {0xFF, 0xFE, 0xFD}" for s
    by (cases s; simp)+
  then show ?thesis
    by (cases ft) (simp_all add: type_code_def NULL_TYPE_CODE_def ONLY_ID_TYPE_CODE_def
        FULL_WITH_ID_CODE_def)
qed

lemma decode_scalar_code:
  "decode_type_code nested (scalar_to_wire s) = rd_return (fd_scalar s)"
  "decode_type_code nested (scalar_to_wire s OR 8) = rd_return (fd_scalar_array s)"
  by (cases s; simp add: decode_type_code_def scalar_of_base_def Let_def)+

lemma decode_composite_code:
  assumes "is_composite ft"
  shows "decode_type_code nested (type_code ft) = rd_bind read_string (\<lambda>tid.
    rd_bind (decode_named_fields nested) (\<lambda>fs. rd_return (FieldDesc ft tid fs)))"
  using assms by (auto simp: is_composite_def decode_type_code_def decode_complex_type_def type_code_def)

lemma parses_type_code:
  assumes ok: "desc_ok (FieldDesc ft tid fs)"
    and rec: "fields_ok fs \<Longrightarrow> parses ord (rd_repeat (length fs)
      (rd_bind read_string (\<lambda>name. rd_bind nested (\<lambda>d. rd_return (name, d)))))
      (written ord (fields_encode fs)) fs"
  shows "parses ord (decode_type_code nested (type_code ft))
    (tl (written ord (fd_encode (FieldDesc ft tid fs)))) (FieldDesc ft tid fs)"
proof (cases "is_composite ft")
  case True
  then have s: "string_ok tid" "length fs < 2 ^ 31" "fields_ok fs"
    using ok by (auto simp: is_composite_def)
  have f: "parses ord (decode_named_fields nested)
      (size_bytes ord (length fs) @ written ord (fields_encode fs)) fs"
    unfolding decode_named_fields_def
    by (rule parses_bind[OF parses_size_non_null[OF s(2)]]) (rule rec[OF s(3)])
  have "parses ord (decode_type_code nested (type_code ft))
      ((size_bytes ord (length tid) @ tid) @ (size_bytes ord (length fs) @ written ord (fields_encode fs)))
      (FieldDesc ft tid fs)"
    unfolding decode_composite_code[OF True]
    by (rule parses_bind[OF parses_string[OF s(1)]]) (rule parses_map[OF f refl])
  moreover have "tl (written ord (fd_encode (FieldDesc ft tid fs))) =
      size_bytes ord (length tid) @ tid @ size_bytes ord (length fs) @ written ord (fields_encode fs)"
    using True by (auto simp: written_encode is_composite_def)
  ultimately show ?thesis
    by simp
next
  case False
  show ?thesis
  proof (cases "\<exists>n. ft = FtBoundedString n")
    case True
    then obtain n where n: "ft = FtBoundedString n"
      by auto
    have "decode_type_code nested 0x86 =
        rd_bind read_size_non_null (\<lambda>bound. rd_return (FieldDesc (FtBoundedString bound) [] []))"
      by (simp add: decode_type_code_def decode_complex_type_def)
    then show ?thesis
      using ok n by (simp add: written_encode type_code_def parses_map[OF parses_size_non_null])
  next
    case bounded: False
    then have "written ord (fd_encode (FieldDesc ft tid fs)) = [type_code ft]"
      using False by (cases ft) (simp_all add: written_encode is_composite_def)
    moreover have "decode_type_code nested (type_code ft) = rd_return (FieldDesc ft [] [])"
      using False bounded
      by (cases ft) (simp_all add: type_code_def decode_scalar_code fd_scalar_def fd_scalar_array_def
          is_composite_def decode_type_code_def[of _ "0x81"] decode_type_code_def[of _ "0x83"]
          decode_complex_type_def)
    moreover have "tid = [] \<and> fs = []"
      using False bounded ok by (cases ft) (simp_all add: is_composite_def)
    ultimately show ?thesis
      by (simp add: parses_return)
  qed
qed

lemma encode_head: "written ord (fd_encode d) = type_code (fd_type d) # tl (written ord (fd_encode d))"
  by (simp add: written_encode)

lemma flat_field_count_pos [simp]: "0 < flat_field_count d"
  by (cases d) simp

lemma parses_desc_n:
  "desc_ok d \<Longrightarrow> flat_field_count d \<le> n \<Longrightarrow>
    parses ord (decode_full_n n) (written ord (fd_encode d)) d"
  "fields_ok fs \<Longrightarrow> flat_counts fs \<le> n \<Longrightarrow> parses ord (rd_repeat (length fs)
    (rd_bind read_string (\<lambda>name. rd_bind (decode_full_n n) (\<lambda>d. rd_return (name, d)))))
    (written ord (fields_encode fs)) fs"
proof (induction d and fs arbitrary: n and n rule: flat_field_count_flat_counts.induct)
  case (1 ft tid fs)
  then obtain m where n: "n = Suc m" "flat_counts fs \<le> m"
    by (cases n) auto
  have "parses ord (decode_type_code (decode_full_n m) (type_code ft))
      (tl (written ord (fd_encode (FieldDesc ft tid fs)))) (FieldDesc ft tid fs)"
    using "1.prems"(1) by (rule parses_type_code) (rule "1.IH"[OF _ n(2)])
  then have "parses ord (decode_full_n n)
      ([type_code ft] @ tl (written ord (fd_encode (FieldDesc ft tid fs)))) (FieldDesc ft tid fs)"
    using type_code_tags[of ft] unfolding n(1) decode_full_n.simps decode_full_body_def
    by (intro parses_bind[OF parses_u8]) simp
  then show ?case
    using encode_head[of ord "FieldDesc ft tid fs"] by simp
next
  case 2
  then show ?case
    by (simp add: written_encode parses_return)
next
  case (3 f fs)
  have d: "parses ord (decode_full_n n) (written ord (fd_encode (snd f))) (snd f)"
    using "3.prems" by (intro "3.IH"(1)) auto
  have "parses ord (rd_bind read_string (\<lambda>name. rd_bind (decode_full_n n) (\<lambda>d. rd_return (name, d))))
      ((size_bytes ord (length (fst f)) @ fst f) @ written ord (fd_encode (snd f))) f"
    using "3.prems" by (intro parses_bind[OF parses_string] parses_map[OF d]) auto
  moreover have "parses ord (rd_repeat (length fs)
      (rd_bind read_string (\<lambda>name. rd_bind (decode_full_n n) (\<lambda>d. rd_return (name, d)))))
      (written ord (fields_encode fs)) fs"
    using "3.prems" by (intro "3.IH"(2)) auto
  ultimately have "parses ord (rd_repeat (length (f # fs))
      (rd_bind read_string (\<lambda>name. rd_bind (decode_full_n n) (\<lambda>d. rd_return (name, d)))))
      (((size_bytes ord (length (fst f)) @ fst f) @ written ord (fd_encode (snd f))) @
        written ord (fields_encode fs)) (f # fs)"
    unfolding list.size(4) add_Suc_right add_0_right by (rule parses_repeat_Cons)
  then show ?case
    by (simp add: written_encode)
qed

lemma parses_desc [rd_simps]:
  assumes "desc_ok d"
  shows "parses ord decode_full (written ord (fd_encode d)) d"
proof (rule parsesI)
  fix r tail assume a: "rd_order r = ord" "rest r = written ord (fd_encode d) @ tail"
  let ?n = "Suc (rd_remaining r + flat_field_count d)"
  have "decode_full r = decode_full_n ?n r"
    by (rule decode_full_fuel) simp
  then show "decode_full r = (Ok d, advance (length (written ord (fd_encode d))) r)"
    using parsesD[OF parses_desc_n(1)[OF assms, of ?n] a] by simp
qed

interpretation desc: wire_codec fd_encode decode_full desc_ok
  by unfold_locales (simp_all add: appends_encode parses_desc)

section \<open>Descriptions and the registry\<close>

lemma rest_advance: "rest (advance n r) = drop n (rest r)"
  by (simp add: add.commute)

lemma fd_decode_plain:
  assumes "desc_ok d" "rd_order r = ord" "rest r = written ord (fd_encode d) @ tail"
  shows "fd_decode reg r = (Ok (Some d), reg, advance (length (written ord (fd_encode d))) r)"
proof -
  obtain ft tid fs where d: "d = FieldDesc ft tid fs"
    by (cases d)
  let ?b = "tl (written ord (fd_encode d))"
  have full: "written ord (fd_encode d) = [type_code ft] @ ?b"
    using encode_head[of ord d] by (simp add: d)
  have u8: "read_u8 r = (Ok (type_code ft), advance 1 r)"
    using parsesD[OF parses_u8, of r ord "type_code ft" "?b @ tail"] assms(2,3) full by simp
  have "parses ord (decode_type_code decode_full (type_code ft)) ?b d"
    unfolding d
  proof (rule parses_type_code)
    show "desc_ok (FieldDesc ft tid fs)"
      using assms(1) d by simp
    assume ok: "fields_ok fs"
    have "parses ord (rd_repeat (length fs)
        (rd_bind read_string (\<lambda>name. rd_bind decode_full (\<lambda>d. rd_return (name, d)))))
        (written ord (fields_encode fs)) fs"
      using ok
    proof (induction fs)
      case (Cons f fs)
      have "parses ord (rd_bind read_string (\<lambda>name. rd_bind decode_full (\<lambda>d. rd_return (name, d))))
          ((size_bytes ord (length (fst f)) @ fst f) @ written ord (fd_encode (snd f))) f"
        using Cons.prems by (intro parses_bind[OF parses_string] parses_map[OF parses_desc]) auto
      from parses_repeat_Cons[OF this Cons.IH] show ?case
        using Cons.prems by (simp add: written_encode)
    qed (simp add: written_encode parses_return)
    then show "parses ord (rd_repeat (length fs)
        (rd_bind read_string (\<lambda>name. rd_bind decode_full (\<lambda>d. rd_return (name, d)))))
        (written ord (fields_encode fs)) fs" .
  qed
  moreover have "rest (advance 1 r) = ?b @ tail"
    unfolding rest_advance assms(3) by (subst full) simp
  ultimately have "decode_type_code decode_full (type_code ft) (advance 1 r) =
      (Ok d, advance (length ?b) (advance 1 r))"
    using assms(2) by (intro parsesD) simp_all
  moreover have "advance (length (written ord (fd_encode d))) r = advance (length ?b) (advance 1 r)"
    by (subst full) simp
  ultimately show ?thesis
    using type_code_tags[of ft] by (simp add: fd_decode_def u8)
qed

definition full_with_id :: "ByteOrder \<Rightarrow> 16 word \<Rightarrow> FieldDesc \<Rightarrow> bytes" where
  "full_with_id ord i d = FULL_WITH_ID_CODE # order_write ord 2 i @ written ord (fd_encode d)"

definition only_id :: "ByteOrder \<Rightarrow> 16 word \<Rightarrow> bytes" where
  "only_id ord i = ONLY_ID_TYPE_CODE # order_write ord 2 i"

lemma fd_decode_full_with_id:
  assumes "desc_ok d" "rd_order r = ord" "rest r = full_with_id ord i d @ tail"
  shows "fd_decode reg r =
    (Ok (Some d), snd (reg_register i d reg), advance (length (full_with_id ord i d)) r)"
proof -
  have u8: "read_u8 r = (Ok FULL_WITH_ID_CODE, advance 1 r)"
    using parsesD[OF parses_u8, of r ord FULL_WITH_ID_CODE] assms by (simp add: full_with_id_def)
  have "rest (advance 1 r) = order_write ord 2 i @ written ord (fd_encode d) @ tail"
    unfolding rest_advance assms(3) by (simp add: full_with_id_def)
  then have i16: "read_i16 (advance 1 r) = (Ok i, advance 3 r)"
    using parsesD[OF parses_fixed_width(1), of "advance 1 r" ord i] assms(2) by simp
  have "rest (advance 3 r) = written ord (fd_encode d) @ tail"
    unfolding rest_advance assms(3) by (simp add: full_with_id_def)
  then have "decode_full (advance 3 r) = (Ok d, advance (length (written ord (fd_encode d))) (advance 3 r))"
    using assms(2) by (intro parsesD[OF parses_desc[OF assms(1)]]) simp_all
  then show ?thesis
    using i16 by (simp add: fd_decode_def u8 full_with_id_def NULL_TYPE_CODE_def ONLY_ID_TYPE_CODE_def
        FULL_WITH_ID_CODE_def)
qed

lemma fd_decode_only_id:
  assumes "rd_order r = ord" "rest r = only_id ord i @ tail"
  shows "fd_decode reg r = (case reg_get i reg of
      None \<Rightarrow> Err (DeProtocol (ascii ''unknown introspection ID: '' @ show_int (sint i)))
    | Some d \<Rightarrow> Ok (Some d), reg, advance 3 r)"
proof -
  have u8: "read_u8 r = (Ok ONLY_ID_TYPE_CODE, advance 1 r)"
    using parsesD[OF parses_u8, of r ord ONLY_ID_TYPE_CODE] assms by (simp add: only_id_def)
  have "rest (advance 1 r) = order_write ord 2 i @ tail"
    unfolding rest_advance assms(2) by (simp add: only_id_def)
  then have "read_i16 (advance 1 r) = (Ok i, advance 3 r)"
    using parsesD[OF parses_fixed_width(1), of "advance 1 r" ord i] assms(1) by simp
  then show ?thesis
    using u8 by (simp add: fd_decode_def NULL_TYPE_CODE_def ONLY_ID_TYPE_CODE_def split: option.split)
qed

lemma reg_get_register:
  "reg_get j (snd (reg_register i d reg)) =
    (if i = j \<and> \<not> reg_is_full reg then Some d else reg_get j reg)"
  by (simp add: reg_get_def reg_register_def reg_is_full_def update_conv')

text \<open>The registry never holds more entries than its limit, one per id.\<close>

definition reg_ok :: "introspection_registry \<Rightarrow> bool" where
  "reg_ok reg \<longleftrightarrow> distinct (map fst (reg_by_id reg)) \<and> reg_len reg \<le> reg_max_entries reg"

lemma length_update_le: "length (AList.update k v xs) \<le> Suc (length xs)"
  by (induction xs) auto

lemma reg_ok_register: "reg_ok reg \<Longrightarrow> reg_ok (snd (reg_register i d reg))"
  using length_update_le[of i d "reg_by_id reg"]
  by (simp add: reg_ok_def reg_register_def reg_len_def distinct_update)

section \<open>Properties\<close>

text \<open>C33. A description survives its wire encoding at any nesting depth: \<open>FieldDesc::decode\<close>
  on the encoded bytes returns it, consumes exactly these bytes and leaves the registry
  alone.\<close>

theorem introspection_round_trip:
  assumes "desc_ok d"
  shows "fd_decode reg (reader_new (written ord (fd_encode d) @ tail) ord) =
    (Ok (Some d), reg, advance (length (written ord (fd_encode d)))
      (reader_new (written ord (fd_encode d) @ tail) ord))"
  by (rule fd_decode_plain[OF assms]) (simp_all add: reader_new_def)

theorem introspection_round_trip_witness:
  "fst (fd_decode (reg_new 4) (reader_new (written BigEndian (fd_encode
      (fd_structure (ascii ''t'') [(ascii ''value'', fd_scalar StDouble)])) @ [1, 2]) BigEndian)) =
    Ok (Some (fd_structure (ascii ''t'') [(ascii ''value'', fd_scalar StDouble)]))"
proof -
  have "desc_ok (fd_structure (ascii ''t'') [(ascii ''value'', fd_scalar StDouble)])"
    by (simp add: fd_structure_def fd_scalar_def string_ok_def ascii_def)
  from introspection_round_trip[OF this] show ?thesis
    by simp
qed

text \<open>A description sent once with an id is found by its id alone later, as long as the
  registry had room; when it was full the description is still decoded but every later
  reference to the id is refused, so a server that relies on the cache is not understood.\<close>

theorem introspection_cache:
  fixes ord :: ByteOrder and tail :: bytes
  assumes "desc_ok d" and "reg_get i reg = None"
  defines "reg' \<equiv> fst (snd (fd_decode reg (reader_new (full_with_id ord i d) ord)))"
  shows "fst (fd_decode reg (reader_new (full_with_id ord i d) ord)) = Ok (Some d) \<and>
    fst (fd_decode reg' (reader_new (only_id ord i @ tail) ord)) =
      (if reg_is_full reg
       then Err (DeProtocol (ascii ''unknown introspection ID: '' @ show_int (sint i)))
       else Ok (Some d))"
proof -
  have 1: "fd_decode reg (reader_new (full_with_id ord i d) ord) = (Ok (Some d),
      snd (reg_register i d reg), advance (length (full_with_id ord i d)) (reader_new (full_with_id ord i d) ord))"
    by (rule fd_decode_full_with_id[OF assms(1), of _ _ _ "[]"]) (simp_all add: reader_new_def)
  have 2: "fd_decode reg' (reader_new (only_id ord i @ tail) ord) = (case reg_get i reg' of
      None \<Rightarrow> Err (DeProtocol (ascii ''unknown introspection ID: '' @ show_int (sint i)))
    | Some d \<Rightarrow> Ok (Some d), reg', advance 3 (reader_new (only_id ord i @ tail) ord))"
    by (rule fd_decode_only_id) (simp_all add: reader_new_def)
  have "reg' = snd (reg_register i d reg)"
    by (simp add: reg'_def 1)
  then have "reg_get i reg' = (if reg_is_full reg then None else Some d)"
    using assms(2) by (simp add: reg_get_register)
  then show ?thesis
    by (simp add: 1 2)
qed

theorem introspection_cache_witness:
  "fst (fd_decode (fst (snd (fd_decode (reg_new 0)
      (reader_new (full_with_id LittleEndian 7 (fd_scalar StInt)) LittleEndian))))
    (reader_new (only_id LittleEndian 7 @ []) LittleEndian)) =
   Err (DeProtocol (ascii ''unknown introspection ID: '' @ show_int 7))"
  using introspection_cache[of "fd_scalar StInt" 7 "reg_new 0" LittleEndian "[]"]
  by (simp add: fd_scalar_def reg_get_def reg_new_def reg_is_full_def reg_len_def)

end
