(* ===== verification/PvaVal.thy ===== *)
theory PvaVal
  imports FieldDesc
begin

text \<open>
  Runtime values (\<open>aura-net/src/types/pva_value.rs\<close>): the decoder of a value described by
  a \<open>FieldDesc\<close>, and the accessors.  A structure is the list of its named members in
  order.  \<open>put_value\<close> is the reference encoding the decoder is proved against; the
  sources only decode.
\<close>

definition decode_scalar :: "ScalarType \<Rightarrow> ScalarValue rd" where
  "decode_scalar st =
    (case st of
       StBoolean \<Rightarrow> rd_bind read_bool (\<lambda>v. rd_return (SvBoolean v))
     | StByte \<Rightarrow> rd_bind read_i8 (\<lambda>v. rd_return (SvByte v))
     | StUByte \<Rightarrow> rd_bind read_u8 (\<lambda>v. rd_return (SvUByte v))
     | StShort \<Rightarrow> rd_bind read_i16 (\<lambda>v. rd_return (SvShort v))
     | StUShort \<Rightarrow> rd_bind read_u16 (\<lambda>v. rd_return (SvUShort v))
     | StInt \<Rightarrow> rd_bind read_i32 (\<lambda>v. rd_return (SvInt v))
     | StUInt \<Rightarrow> rd_bind read_u32 (\<lambda>v. rd_return (SvUInt v))
     | StLong \<Rightarrow> rd_bind read_i64 (\<lambda>v. rd_return (SvLong v))
     | StULong \<Rightarrow> rd_bind read_u64 (\<lambda>v. rd_return (SvULong v))
     | StFloat \<Rightarrow> rd_bind read_f32 (\<lambda>v. rd_return (SvFloat v))
     | StDouble \<Rightarrow> rd_bind read_f64 (\<lambda>v. rd_return (SvDouble v))
     | StString \<Rightarrow> rd_bind read_string (\<lambda>v. rd_return (SvString v)))"

datatype PvaValue =
    PvScalar ScalarValue
  | PvScalarArray "ScalarValue list"
  | PvStructure "(rstring \<times> PvaValue) list"
  | PvUnion rstring PvaValue
  | PvNull

definition decode_scalar_array :: "ScalarType \<Rightarrow> PvaValue rd" where
  "decode_scalar_array st = rd_bind read_size_non_null (\<lambda>len.
     if len = 0 then rd_return (PvScalarArray [])
     else if st = StUByte then
       rd_bind (read_bytes len) (\<lambda>bs. rd_return (PvScalarArray (map SvUByte bs)))
     else rd_bind (rd_repeat len (decode_scalar st)) (\<lambda>xs. rd_return (PvScalarArray xs)))"

text \<open>The members of a structure are decoded one after the other; \<open>decode_member\<close> is the
  element a union selects.\<close>

fun decode_from :: "FieldDesc \<Rightarrow> PvaValue rd"
  and decode_members :: "NamedField list \<Rightarrow> (rstring \<times> PvaValue) list rd"
  and decode_member :: "NamedField list \<Rightarrow> nat \<Rightarrow> PvaValue rd" where
  "decode_from (FieldDesc ft tid fs) =
    (case ft of
       FtScalar st \<Rightarrow> rd_bind (decode_scalar st) (\<lambda>v. rd_return (PvScalar v))
     | FtScalarArray st \<Rightarrow> decode_scalar_array st
     | FtStructure \<Rightarrow> rd_bind (decode_members fs) (\<lambda>vs. rd_return (PvStructure vs))
     | FtStructureArray \<Rightarrow> rd_bind (decode_members fs) (\<lambda>vs. rd_return (PvStructure vs))
     | FtBoundedString bound \<Rightarrow> rd_bind read_string (\<lambda>s.
         if length s > bound
         then rd_fail (DeProtocol (ascii ''bounded string exceeds max '' @ show_nat bound @
                ascii '': got '' @ show_nat (length s)))
         else rd_return (PvScalar (SvString s)))
     | FtUnion \<Rightarrow> rd_bind read_i32 (\<lambda>selector.
         if selector <s 0 then rd_return PvNull
         else if unat selector \<ge> length fs
         then rd_fail (DeProtocol (ascii ''union selector '' @ show_nat (unat selector) @
                ascii '' out of range (max '' @ show_nat (length fs) @ ascii '')''))
         else decode_member fs (unat selector))
     | FtVariantUnion \<Rightarrow> rd_bind read_i32 (\<lambda>selector.
         if selector <s 0 then rd_return PvNull
         else rd_bind read_u8 (\<lambda>tag.
           case scalar_from_wire (tag AND 7) of
             Some st \<Rightarrow> rd_bind (decode_scalar st) (\<lambda>v. rd_return (PvScalar v))
           | None \<Rightarrow> rd_return PvNull))
     | FtUnionArray \<Rightarrow> rd_return PvNull
     | FtVariantUnionArray \<Rightarrow> rd_return PvNull)"
| "decode_members [] = rd_return []"
| "decode_members (f # fs) = rd_bind (decode_from (snd f)) (\<lambda>v.
     rd_bind (decode_members fs) (\<lambda>vs. rd_return ((fst f, v) # vs)))"
| "decode_member [] i = rd_return PvNull"
| "decode_member (f # fs) i =
    (if i = 0 then rd_bind (decode_from (snd f)) (\<lambda>v. rd_return (PvUnion (fst f) v))
     else decode_member fs (i - 1))"

section \<open>Accessors\<close>

fun pv_as_scalar :: "PvaValue \<Rightarrow> ScalarValue option" where
  "pv_as_scalar (PvScalar s) = Some s"
| "pv_as_scalar _ = None"

definition pv_as_f64 :: "PvaValue \<Rightarrow> f64bits option" where
  "pv_as_f64 v = Option.bind (pv_as_scalar v) sv_as_f64"

definition pv_as_i64 :: "PvaValue \<Rightarrow> 64 word option" where
  "pv_as_i64 v = Option.bind (pv_as_scalar v) sv_as_i64"

definition pv_as_i32 :: "PvaValue \<Rightarrow> 32 word option" where
  "pv_as_i32 v = Option.bind (pv_as_scalar v) sv_as_i32"

fun pv_as_string :: "PvaValue \<Rightarrow> rstring option" where
  "pv_as_string (PvScalar (SvString s)) = Some s"
| "pv_as_string _ = None"

fun pv_as_scalar_array :: "PvaValue \<Rightarrow> ScalarValue list option" where
  "pv_as_scalar_array (PvScalarArray xs) = Some xs"
| "pv_as_scalar_array _ = None"

fun pv_field :: "rstring \<Rightarrow> PvaValue \<Rightarrow> PvaValue option" where
  "pv_field name (PvStructure fs) = map_option snd (List.find (\<lambda>f. fst f = name) fs)"
| "pv_field name _ = None"

fun pv_field_by_index :: "nat \<Rightarrow> PvaValue \<Rightarrow> PvaValue option" where
  "pv_field_by_index i (PvStructure fs) = (if i < length fs then Some (snd (fs ! i)) else None)"
| "pv_field_by_index i _ = None"

definition pv_field_f64 :: "rstring \<Rightarrow> PvaValue \<Rightarrow> f64bits option" where
  "pv_field_f64 name v = Option.bind (pv_field name v) pv_as_f64"

definition pv_field_i32 :: "rstring \<Rightarrow> PvaValue \<Rightarrow> 32 word option" where
  "pv_field_i32 name v = Option.bind (pv_field name v) pv_as_i32"

definition pv_field_i64 :: "rstring \<Rightarrow> PvaValue \<Rightarrow> 64 word option" where
  "pv_field_i64 name v = Option.bind (pv_field name v) pv_as_i64"

definition pv_field_string :: "rstring \<Rightarrow> PvaValue \<Rightarrow> rstring option" where
  "pv_field_string name v = Option.bind (pv_field name v) pv_as_string"

fun pv_is_null :: "PvaValue \<Rightarrow> bool" where
  "pv_is_null PvNull = True"
| "pv_is_null _ = False"

fun pv_is_structure :: "PvaValue \<Rightarrow> bool" where
  "pv_is_structure (PvStructure _) = True"
| "pv_is_structure _ = False"

fun pv_is_scalar :: "PvaValue \<Rightarrow> bool" where
  "pv_is_scalar (PvScalar _) = True"
| "pv_is_scalar _ = False"

fun pv_is_array :: "PvaValue \<Rightarrow> bool" where
  "pv_is_array (PvScalarArray _) = True"
| "pv_is_array _ = False"

fun pv_len :: "PvaValue \<Rightarrow> nat" where
  "pv_len (PvStructure fs) = length fs"
| "pv_len (PvScalarArray xs) = length xs"
| "pv_len _ = 0"

definition pv_is_empty :: "PvaValue \<Rightarrow> bool" where
  "pv_is_empty v = (pv_len v = 0 \<and> \<not> pv_is_scalar v \<and> \<not> pv_is_null v)"

section \<open>The reference encoding\<close>

fun put_scalar :: "ScalarValue \<Rightarrow> wr" where
  "put_scalar (SvBoolean v) = write_bool v"
| "put_scalar (SvByte v) = write_i8 v"
| "put_scalar (SvUByte v) = write_u8 v"
| "put_scalar (SvShort v) = write_i16 v"
| "put_scalar (SvUShort v) = write_u16 v"
| "put_scalar (SvInt v) = write_i32 v"
| "put_scalar (SvUInt v) = write_u32 v"
| "put_scalar (SvLong v) = write_i64 v"
| "put_scalar (SvULong v) = write_u64 v"
| "put_scalar (SvFloat v) = write_f32 v"
| "put_scalar (SvDouble v) = write_f64 v"
| "put_scalar (SvString s) = write_string s"

definition scalar_ok :: "ScalarValue \<Rightarrow> bool" where
  "scalar_ok v \<longleftrightarrow> (\<forall>s. v = SvString s \<longrightarrow> string_ok s)"

definition put_array :: "ScalarValue list \<Rightarrow> wr" where
  "put_array xs = wr_seq [write_size (length xs), wr_for put_scalar xs]"

definition array_ok :: "ScalarType \<Rightarrow> ScalarValue list \<Rightarrow> bool" where
  "array_ok st xs \<longleftrightarrow> length xs < 2 ^ 31 \<and> (\<forall>x \<in> set xs. sv_type_tag x = st \<and> scalar_ok x)"

fun put_value :: "PvaValue \<Rightarrow> wr" and put_values :: "(rstring \<times> PvaValue) list \<Rightarrow> wr" where
  "put_value (PvScalar v) = put_scalar v"
| "put_value (PvScalarArray xs) = put_array xs"
| "put_value (PvStructure fs) = put_values fs"
| "put_value (PvUnion _ v) = put_value v"
| "put_value PvNull = wr_seq []"
| "put_values [] = wr_seq []"
| "put_values (f # fs) = wr_seq [put_value (snd f), put_values fs]"

text \<open>Values of a description made of scalars, scalar arrays, bounded strings and
  structures of these; the first element of a member is its name in the description.\<close>

fun typed :: "FieldDesc \<Rightarrow> PvaValue \<Rightarrow> bool"
  and typed_members :: "NamedField list \<Rightarrow> (rstring \<times> PvaValue) list \<Rightarrow> bool" where
  "typed (FieldDesc ft tid fs) v =
    (case (ft, v) of
       (FtScalar st, PvScalar s) \<Rightarrow> sv_type_tag s = st \<and> scalar_ok s
     | (FtScalarArray st, PvScalarArray xs) \<Rightarrow> array_ok st xs
     | (FtBoundedString bound, PvScalar (SvString s)) \<Rightarrow> string_ok s \<and> length s \<le> bound
     | (FtStructure, PvStructure vs) \<Rightarrow> typed_members fs vs
     | _ \<Rightarrow> False)"
| "typed_members [] vs = (vs = [])"
| "typed_members (f # fs) vs =
    (case vs of [] \<Rightarrow> False | w # ws \<Rightarrow> fst w = fst f \<and> typed (snd f) (snd w) \<and> typed_members fs ws)"

lemma appends_put_scalar [simp, intro]: "appends (put_scalar v)"
  by (cases v) auto

lemma appends_put_array [simp, intro]: "appends (put_array xs)"
  by (auto simp: put_array_def)

lemma appends_put_value [simp, intro]:
  "appends (put_value v)" "appends (put_values vs)"
  by (induction v and vs rule: put_value_put_values.induct) auto

lemma parses_scalar:
  assumes "scalar_ok v"
  shows "parses ord (decode_scalar (sv_type_tag v)) (written ord (put_scalar v)) v"
proof (cases v)
  case (SvString s)
  then show ?thesis
    using assms by (auto simp: decode_scalar_def scalar_ok_def wr_simps
        intro!: parses_map[OF parses_string])
next
  case (SvBoolean b)
  then show ?thesis
    using parses_map[OF parses_bool[of ord b], of SvBoolean] by (simp add: decode_scalar_def wr_simps)
qed (auto simp: decode_scalar_def wr_simps
    intro!: parses_map[OF parses_fixed_width(1)] parses_map[OF parses_fixed_width(2)]
      parses_map[OF parses_fixed_width(3)] parses_map[OF parses_fixed_width(4)]
      parses_map[OF parses_fixed_width(5)] parses_map[OF parses_fixed_width(6)]
      parses_map[OF parses_fixed_width(7)] parses_map[OF parses_fixed_width(8)]
      parses_map[OF parses_u8] parses_map[OF parses_i8])

lemma written_for_concat:
  assumes "\<And>x. appends (f x)"
  shows "written ord (wr_for f xs) = concat (map (\<lambda>x. written ord (f x)) xs)"
  using assms by (simp add: wr_for_fold appends_fold)

lemma parses_scalar_array:
  assumes "array_ok st xs"
  shows "parses ord (decode_scalar_array st) (written ord (put_array xs)) (PvScalarArray xs)"
proof -
  have n: "length xs < 2 ^ 31"
    using assms by (simp add: array_ok_def)
  have size: "parses ord read_size_non_null (written ord (write_size (length xs))) (length xs)"
    using n by (intro rd_intros)
  show ?thesis
  proof (cases "xs = []")
    case True
    then show ?thesis
      using size unfolding decode_scalar_array_def put_array_def
      by (auto simp: written_seq written_for wr_simps parses_return intro!: parses_bindI)
  next
    case ne: False
    let ?k = "if st = StUByte then
       rd_bind (read_bytes (length xs)) (\<lambda>bs. rd_return (PvScalarArray (map SvUByte bs)))
     else rd_bind (rd_repeat (length xs) (decode_scalar st)) (\<lambda>xs. rd_return (PvScalarArray xs))"
    have "parses ord ?k (written ord (wr_for put_scalar xs)) (PvScalarArray xs)"
    proof (cases "st = StUByte")
      case True
      then have t: "\<forall>x \<in> set xs. \<exists>b. x = SvUByte b"
        using assms by (auto simp: array_ok_def elim: sv_type_tag.elims)
      define bs where "bs = map (\<lambda>x. case x of SvUByte b \<Rightarrow> b | _ \<Rightarrow> 0) xs"
      have xs: "xs = map SvUByte bs"
        using t unfolding bs_def map_map by (intro map_idI[symmetric]) auto
      have "concat (map (\<lambda>b. [b]) bs) = bs"
        by (induction bs) simp_all
      then have "written ord (wr_for put_scalar xs) = bs"
        unfolding xs by (simp add: written_for_concat wr_simps comp_def)
      then show ?thesis
        using ne True by (auto simp: xs intro!: parses_map[OF parses_read_bytes])
    next
      case False
      then show ?thesis
        using assms
        by (auto simp: array_ok_def intro!: parses_map[OF parses_for_size]
            dest: parses_scalar)
    qed
    then show ?thesis
      using size ne unfolding decode_scalar_array_def put_array_def
      by (auto intro!: parses_wr parses_wr_last)
  qed
qed

lemma parses_value:
  "typed d v \<Longrightarrow> parses ord (decode_from d) (written ord (put_value v)) v"
  "typed_members fs vs \<Longrightarrow> parses ord (decode_members fs) (written ord (put_values vs)) vs"
proof (induction d v and fs vs rule: typed_typed_members.induct)
  case (1 ft tid fs v)
  show ?case
  proof (cases ft)
    case (FtBoundedString b)
    then obtain s where "v = PvScalar (SvString s)" "string_ok s" "length s \<le> b"
      using 1 by (auto split: PvaValue.splits ScalarValue.splits)
    then show ?thesis
      using FtBoundedString
      by (auto simp: wr_simps intro!: parses_bindI[OF parses_string, where bs = "[]"] parses_return)
  next
    case FtStructure
    then show ?thesis
      using 1 by (auto split: PvaValue.splits intro!: parses_map)
  qed (use 1 in \<open>auto split: PvaValue.splits intro!: parses_map parses_scalar parses_scalar_array\<close>)
next
  case (3 f fs vs)
  then obtain w ws where v: "vs = w # ws" "fst w = fst f" "typed (snd f) (snd w)" "typed_members fs ws"
    by (cases vs) auto
  have p: "parses ord (decode_from (snd f)) (written ord (put_value (snd w))) (snd w)"
      "parses ord (decode_members fs) (written ord (put_values ws)) ws"
    using 3 v by auto
  show ?case
    using v(2) unfolding v(1) decode_members.simps put_values.simps
    by (intro parses_wr[OF p(1)] parses_wr_last parses_map[OF p(2)]) (auto simp: prod_eq_iff)
qed (simp add: written_seq parses_return)

section \<open>Reads stay inside the payload\<close>

lemma forward_scalar [forward_intros]: "forward (decode_scalar st)"
  by (cases st) (auto simp: decode_scalar_def intro!: forward_intros)

lemma forward_scalar_array [forward_intros]: "forward (decode_scalar_array st)"
  by (auto simp: decode_scalar_array_def intro!: forward_intros)

lemma forward_value:
  "forward (decode_from d)" "forward (decode_members fs)" "forward (decode_member fs i)"
  by (induction d and fs and fs i rule: decode_from_decode_members_decode_member.induct)
    (auto split: FieldType.split intro!: forward_intros)

text \<open>The scalar types the variant union decoder takes the type byte for: the low three
  bits alone decide, so a double (\<open>0x43\<close>) is read as the type with tag 3.\<close>

lemma variant_union_type:
  "scalar_from_wire (scalar_to_wire StDouble AND 7) = scalar_from_wire 3"
  "scalar_from_wire 3 \<noteq> Some StDouble"
  by (simp_all add: scalar_from_wire_def)

section \<open>Properties\<close>

text \<open>C36. A value of any description built from scalars, scalar arrays, bounded strings and
  (nested) structures is decoded from its wire form to itself, with the member names of the
  description, and the decoder takes exactly its bytes.\<close>

theorem value_round_trip:
  "typed d v \<Longrightarrow> parses ord (decode_from d) (written ord (put_value v)) v"
  by (rule parses_value)

theorem value_round_trip_witness:
  "parses BigEndian (decode_from (fd_structure [] [([118], fd_scalar StDouble), ([97], fd_scalar_array StUByte)]))
     (written BigEndian (put_value (PvStructure [([118], PvScalar (SvDouble 5)), ([97], PvScalarArray [SvUByte 1])])))
     (PvStructure [([118], PvScalar (SvDouble 5)), ([97], PvScalarArray [SvUByte 1])])"
  by (rule value_round_trip)
    (simp add: fd_structure_def fd_scalar_def fd_scalar_array_def scalar_ok_def array_ok_def)

text \<open>C37. Whatever the payload and the description, decoding a value keeps the cursor inside
  the payload, never moves it back and leaves buffer and byte order alone, also when it
  fails.\<close>

theorem value_reads_inside:
  "rd_pos r \<le> length (rd_buf r) \<Longrightarrow>
   rd_buf (snd (decode_from d r)) = rd_buf r \<and> rd_order (snd (decode_from d r)) = rd_order r \<and>
   rd_pos r \<le> rd_pos (snd (decode_from d r)) \<and> rd_pos (snd (decode_from d r)) \<le> length (rd_buf r)"
  using forward_value(1)[of d, unfolded forward_def, rule_format, of r] by simp

theorem value_reads_inside_witness:
  "rd_pos (snd (decode_from (fd_scalar StDouble) (reader_new [1, 2, 3] LittleEndian))) \<le> 3"
  using value_reads_inside[of "reader_new [1, 2, 3] LittleEndian" "fd_scalar StDouble"]
  by (simp add: reader_new_def)

end
