(* ===== verification/BitSet.thy ===== *)
theory BitSet
  imports PvData
begin

text \<open>
  The change set of a monitor update (\<open>aura-net/src/codec/bitset.rs\<close>): two inline words,
  an overflow vector and a bit count.  The abstraction \<open>bits\<close> is the set of indices of
  set bits; every operation is related to the operation on sets it implements, and the
  wire form, which drops trailing zero bytes, to the set as well.
\<close>

unbundle bit_operations_syntax

definition INLINE_WORDS :: nat where "INLINE_WORDS = 2"
definition INLINE_BITS :: nat where "INLINE_BITS = INLINE_WORDS * 64"

record pva_bitset =
  bs_inline :: "u64 list"
  bs_overflow :: "u64 list"
  bs_bit_count :: nat

text \<open>\<open>u64::count_ones\<close>, \<open>trailing_zeros\<close>, \<open>leading_zeros\<close>.\<close>

definition count_ones :: "u64 \<Rightarrow> nat" where
  "count_ones w = length (filter (bit w) [0..<64])"

definition trailing_zeros :: "u64 \<Rightarrow> nat" where
  "trailing_zeros w = length (takeWhile (\<lambda>i. \<not> bit w i) [0..<64])"

definition leading_zeros :: "u64 \<Rightarrow> nat" where
  "leading_zeros w = length (takeWhile (\<lambda>i. \<not> bit w i) (rev [0..<64]))"

text \<open>\<open>Vec::resize\<close> with zero.\<close>

definition resize :: "nat \<Rightarrow> u64 list \<Rightarrow> u64 list" where
  "resize n ws = take n ws @ replicate (n - length ws) 0"

section \<open>Operations\<close>

definition bs_new :: pva_bitset where
  "bs_new = \<lparr> bs_inline = replicate INLINE_WORDS 0, bs_overflow = [], bs_bit_count = 0 \<rparr>"

definition bs_with_capacity :: "nat \<Rightarrow> pva_bitset" where
  "bs_with_capacity n =
    (let bs = bs_new \<lparr> bs_bit_count := n \<rparr> in
     if n > INLINE_BITS
     then bs \<lparr> bs_overflow := replicate ((n - INLINE_BITS + 63) div 64) 0 \<rparr>
     else bs)"

definition bs_word_mask :: "nat \<Rightarrow> nat \<times> u64" where
  "bs_word_mask index = (index div 64, push_bit (index mod 64) 1)"

definition bs_is_set :: "nat \<Rightarrow> pva_bitset \<Rightarrow> bool" where
  "bs_is_set index bs =
    (case bs_word_mask index of (word, msk) \<Rightarrow>
      if index < INLINE_BITS then bs_inline bs ! word AND msk \<noteq> 0
      else
        (let ow = word - INLINE_WORDS in
         ow < length (bs_overflow bs) \<and> bs_overflow bs ! ow AND msk \<noteq> 0))"

text \<open>
  \<open>set\<close> and \<open>toggle\<close> have one shape: apply a word operation, growing the overflow
  vector when needed, then raise the bit count.
\<close>

definition bs_update :: "(u64 \<Rightarrow> u64 \<Rightarrow> u64) \<Rightarrow> nat \<Rightarrow> pva_bitset \<Rightarrow> pva_bitset" where
  "bs_update f index bs =
    (case bs_word_mask index of (word, msk) \<Rightarrow>
      let bs1 =
        (if index < INLINE_BITS
         then bs \<lparr> bs_inline := (bs_inline bs)[word := f (bs_inline bs ! word) msk] \<rparr>
         else
           (let ow = word - INLINE_WORDS;
                o1 = (if ow \<ge> length (bs_overflow bs) then resize (ow + 1) (bs_overflow bs)
                      else bs_overflow bs)
            in bs \<lparr> bs_overflow := o1[ow := f (o1 ! ow) msk] \<rparr>))
      in if index \<ge> bs_bit_count bs1 then bs1 \<lparr> bs_bit_count := index + 1 \<rparr> else bs1)"

definition bs_set :: "nat \<Rightarrow> pva_bitset \<Rightarrow> pva_bitset" where
  "bs_set = bs_update (\<lambda>w m. w OR m)"

definition bs_toggle :: "nat \<Rightarrow> pva_bitset \<Rightarrow> pva_bitset" where
  "bs_toggle = bs_update (\<lambda>w m. w XOR m)"

definition bs_clear_bit :: "nat \<Rightarrow> pva_bitset \<Rightarrow> pva_bitset" where
  "bs_clear_bit index bs =
    (case bs_word_mask index of (word, msk) \<Rightarrow>
      if index < INLINE_BITS
      then bs \<lparr> bs_inline := (bs_inline bs)[word := bs_inline bs ! word AND NOT msk] \<rparr>
      else
        (let ow = word - INLINE_WORDS in
         if ow < length (bs_overflow bs)
         then bs \<lparr> bs_overflow := (bs_overflow bs)[ow := bs_overflow bs ! ow AND NOT msk] \<rparr>
         else bs))"

definition bs_clear_all :: "pva_bitset \<Rightarrow> pva_bitset" where
  "bs_clear_all bs = bs \<lparr> bs_inline := replicate INLINE_WORDS 0,
     bs_overflow := map (\<lambda>_. 0) (bs_overflow bs) \<rparr>"

definition bs_from_bits :: "nat list \<Rightarrow> pva_bitset" where
  "bs_from_bits xs =
    (if xs = [] then bs_new else fold bs_set xs (bs_with_capacity (Max (set xs) + 1)))"

text \<open>Store into word \<open>i\<close> if it exists, as \<open>all_set\<close> and \<open>decode\<close> do.\<close>

definition bs_put_word :: "nat \<Rightarrow> u64 \<Rightarrow> pva_bitset \<Rightarrow> pva_bitset" where
  "bs_put_word i w bs =
    (if i < INLINE_WORDS then bs \<lparr> bs_inline := (bs_inline bs)[i := w] \<rparr>
     else
       (let ow = i - INLINE_WORDS in
        if ow < length (bs_overflow bs) then bs \<lparr> bs_overflow := (bs_overflow bs)[ow := w] \<rparr>
        else bs))"

definition bs_all_set :: "nat \<Rightarrow> pva_bitset" where
  "bs_all_set n =
    (let bs = bs_with_capacity n in
     if n = 0 then bs
     else
       (let full = n div 64; remainder = n mod 64;
            bs1 = fold (\<lambda>i. bs_put_word i (- 1)) [0..<min full INLINE_WORDS] bs;
            bs2 = fold (\<lambda>i. bs_put_word i (- 1)) [INLINE_WORDS..<full] bs1
        in if remainder > 0 then bs_put_word full (push_bit remainder 1 - 1) bs2 else bs2))"

definition bs_count_set :: "pva_bitset \<Rightarrow> nat" where
  "bs_count_set bs = sum_list (map count_ones (bs_inline bs)) +
     sum_list (map count_ones (bs_overflow bs))"

definition bs_is_empty :: "pva_bitset \<Rightarrow> bool" where
  "bs_is_empty bs = (list_all (\<lambda>w. w = 0) (bs_inline bs) \<and> list_all (\<lambda>w. w = 0) (bs_overflow bs))"

definition bs_get_word :: "nat \<Rightarrow> pva_bitset \<Rightarrow> u64" where
  "bs_get_word i bs =
    (if i < INLINE_WORDS then bs_inline bs ! i
     else
       (let ow = i - INLINE_WORDS in
        if ow < length (bs_overflow bs) then bs_overflow bs ! ow else 0))"

definition bs_or_assign :: "pva_bitset \<Rightarrow> pva_bitset \<Rightarrow> pva_bitset" where
  "bs_or_assign a b =
    (let max_ow = max (length (bs_overflow a)) (length (bs_overflow b));
         o1 = resize max_ow (bs_overflow a)
     in a \<lparr> bs_inline := map (\<lambda>i. bs_inline a ! i OR bs_inline b ! i) [0..<INLINE_WORDS],
            bs_overflow := map (\<lambda>i. if i < length (bs_overflow b)
              then o1 ! i OR bs_overflow b ! i else o1 ! i) [0..<max_ow],
            bs_bit_count := max (bs_bit_count a) (bs_bit_count b) \<rparr>)"

definition bs_or :: "pva_bitset \<Rightarrow> pva_bitset \<Rightarrow> pva_bitset" where
  "bs_or a b = bs_or_assign a b"

definition bs_and :: "pva_bitset \<Rightarrow> pva_bitset \<Rightarrow> pva_bitset" where
  "bs_and a b =
    (let r = bs_with_capacity (min (bs_bit_count a) (bs_bit_count b));
         min_ow = min (length (bs_overflow a)) (length (bs_overflow b))
     in r \<lparr> bs_inline := map (\<lambda>i. bs_inline a ! i AND bs_inline b ! i) [0..<INLINE_WORDS],
            bs_overflow := map (\<lambda>i. bs_overflow a ! i AND bs_overflow b ! i) [0..<min_ow] \<rparr>)"

section \<open>Iteration and wire form\<close>

text \<open>\<open>BitWordIter\<close>: the lowest set bit, then the word with that bit cleared.\<close>

definition drop_lowest :: "u64 \<Rightarrow> u64" where
  "drop_lowest w = w AND (w - 1)"

lemma trailing_zeros_bits:
  assumes "w \<noteq> 0"
  shows "trailing_zeros w < 64" "bit w (trailing_zeros w)" "i < trailing_zeros w \<Longrightarrow> \<not> bit w i"
proof -
  let ?p = "\<lambda>i. \<not> bit w i"
  have "\<exists>i<64. bit w i"
  proof (rule ccontr)
    assume "\<not> (\<exists>i<64. bit w i)"
    then have "w = 0"
      by (intro bit_word_eqI) auto
    with assms show False
      by simp
  qed
  then have "\<not> (\<forall>i \<in> set [0..<64]. ?p i)"
    by auto
  then have l: "length (takeWhile ?p [0..<64]) < length [0..<64::nat]"
    by (metis length_takeWhile_le nat_less_le takeWhile_eq_all_conv takeWhile_eq_take take_all_iff)
  then have "\<not> ?p ([0..<64] ! length (takeWhile ?p [0..<64]))"
    by (rule nth_length_takeWhile)
  then show "trailing_zeros w < 64" "bit w (trailing_zeros w)"
    using l by (simp_all add: trailing_zeros_def)
  show "\<not> bit w i" if "i < trailing_zeros w"
  proof -
    have "takeWhile ?p [0..<64] ! i \<in> set (takeWhile ?p [0..<64])"
      using that by (simp add: trailing_zeros_def)
    moreover have "takeWhile ?p [0..<64] ! i = i"
      using that l by (simp add: trailing_zeros_def takeWhile_nth)
    ultimately show ?thesis
      by (metis set_takeWhileD)
  qed
qed

lemma bit_pred_odd:
  fixes v :: u64
  assumes "bit v 0"
  shows "bit (v - 1) i = (bit v i \<and> i \<noteq> 0)"
proof -
  have "v = (v AND NOT 1) OR 1"
  proof (rule bit_word_eqI)
    fix n assume "n < LENGTH(64)"
    then show "bit v n = bit ((v AND NOT 1) OR 1) n"
      using assms by (cases "n = 0") (simp_all add: bit_and_iff bit_or_iff bit_not_iff bit_1_iff)
  qed
  also have "\<dots> = (v AND NOT 1) + 1"
    by (rule disjunctive_add[symmetric]) (auto simp: bit_and_iff bit_not_iff bit_1_iff)
  finally have "v - 1 = v AND NOT 1"
    by (metis add_diff_cancel_right')
  then show ?thesis
    by (auto simp: bit_and_iff bit_not_iff bit_1_iff dest: bit_imp_le_length)
qed

lemma bit_drop_lowest:
  assumes "w \<noteq> 0"
  shows "bit (drop_lowest w) i = (bit w i \<and> i \<noteq> trailing_zeros w)"
proof -
  let ?k = "trailing_zeros w"
  define v where "v = drop_bit ?k w"
  have w: "w = push_bit ?k v"
  proof (rule bit_word_eqI)
    fix n assume "n < LENGTH(64)"
    then show "bit w n = bit (push_bit ?k v) n"
      using trailing_zeros_bits(3)[OF assms, of n]
      by (cases "n < ?k") (simp_all add: v_def bit_push_bit_iff bit_drop_bit_eq)
  qed
  have odd: "bit v 0"
    using trailing_zeros_bits(2)[OF assms] by (simp add: v_def bit_drop_bit_eq)
  have low: "push_bit ?k (v - 1) OR mask ?k = push_bit ?k (v - 1) + mask ?k"
    by (rule disjunctive_add[symmetric]) (auto simp: bit_push_bit_iff bit_mask_iff)
  have "w - 1 = push_bit ?k (v - 1) + mask ?k"
    by (subst w) (simp add: push_bit_eq_mult mask_eq_exp_minus_1 algebra_simps)
  then have "w - 1 = push_bit ?k (v - 1) OR mask ?k"
    by (simp add: low)
  moreover have "bit (v - 1) j = (bit v j \<and> j \<noteq> 0)" for j
    by (rule bit_pred_odd[OF odd])
  moreover have "bit w i \<Longrightarrow> i < 64"
    using bit_imp_le_length[of w i] by simp
  ultimately show ?thesis
    using trailing_zeros_bits(1,3)[OF assms]
    by (auto simp: drop_lowest_def bit_and_iff bit_or_iff bit_push_bit_iff bit_mask_iff v_def
        bit_drop_bit_eq not_less)
qed

lemma drop_lowest_less:
  assumes "w \<noteq> 0"
  shows "unat (drop_lowest w) < unat w"
proof -
  have "drop_lowest w \<noteq> w"
    using bit_drop_lowest[OF assms, of "trailing_zeros w"] trailing_zeros_bits[OF assms] by auto
  moreover have "drop_lowest w \<le> w"
    by (simp add: drop_lowest_def word_and_le2)
  ultimately show ?thesis
    by (metis order_le_imp_less_or_eq word_less_nat_alt)
qed

function bit_word_iter :: "u64 \<Rightarrow> nat \<Rightarrow> nat list" where
  "bit_word_iter w base =
    (if w = 0 then [] else (base + trailing_zeros w) # bit_word_iter (drop_lowest w) base)"
  by pat_completeness auto
termination
  by (relation "measure (\<lambda>(w, base). unat w)") (auto simp: drop_lowest_less)

declare bit_word_iter.simps [simp del]

definition bs_iter_set :: "pva_bitset \<Rightarrow> nat list" where
  "bs_iter_set bs =
    concat (map (\<lambda>(wi, w). bit_word_iter w (wi * 64)) (enumerate 0 (bs_inline bs))) @
    concat (map (\<lambda>(wi, w). bit_word_iter w (INLINE_BITS + wi * 64)) (enumerate 0 (bs_overflow bs)))"

definition bs_to_vec :: "pva_bitset \<Rightarrow> nat list" where
  "bs_to_vec bs = bs_iter_set bs"

text \<open>The loop of \<open>decode\<close> over the raw bytes: the set so far, the word index, the byte
  index in the word and the word being built.\<close>

fun bs_decode_byte :: "byte \<Rightarrow> pva_bitset \<times> nat \<times> nat \<times> u64 \<Rightarrow> pva_bitset \<times> nat \<times> nat \<times> u64" where
  "bs_decode_byte b (bs, word_idx, byte_in_word, cur) =
    (let cur' = cur OR push_bit (byte_in_word * 8) (ucast b) in
     if byte_in_word + 1 = 8 then (bs_put_word word_idx cur' bs, word_idx + 1, 0, 0)
     else (bs, word_idx, byte_in_word + 1, cur'))"

definition bs_decode_raw :: "bytes \<Rightarrow> pva_bitset" where
  "bs_decode_raw raw =
    (case fold bs_decode_byte raw (bs_with_capacity (length raw * 8), 0, 0, 0) of
       (bs, word_idx, byte_in_word, cur) \<Rightarrow>
         if byte_in_word > 0 then bs_put_word word_idx cur bs else bs)"

definition bs_decode :: "pva_bitset rd" where
  "bs_decode = rd_bind read_size_non_null (\<lambda>byte_count.
     if byte_count = 0 then rd_return bs_new
     else rd_bind (read_bytes byte_count) (\<lambda>raw. rd_return (bs_decode_raw raw)))"

definition bs_last_word :: "pva_bitset \<Rightarrow> nat" where
  "bs_last_word bs =
    (case filter (\<lambda>i. bs_get_word i bs \<noteq> 0) (rev [0..<INLINE_WORDS + length (bs_overflow bs)]) of
       [] \<Rightarrow> 0 | i # _ \<Rightarrow> i + 1)"

definition word_bytes :: "nat \<Rightarrow> u64 \<Rightarrow> bytes" where
  "word_bytes n w = map (\<lambda>bi. ucast (drop_bit (bi * 8) w AND 0xFF)) [0..<n]"

definition bs_bytes_in_last :: "pva_bitset \<Rightarrow> nat" where
  "bs_bytes_in_last bs =
    (let last_w = bs_get_word (bs_last_word bs - 1) bs in
     if last_w = 0 then 0 else 8 - leading_zeros last_w div 8)"

definition bs_raw :: "pva_bitset \<Rightarrow> bytes" where
  "bs_raw bs = concat (map (\<lambda>wi. word_bytes
     (if wi = bs_last_word bs - 1 then bs_bytes_in_last bs else 8) (bs_get_word wi bs))
     [0..<bs_last_word bs])"

definition bs_encode :: "pva_bitset \<Rightarrow> wr" where
  "bs_encode bs w =
    (if bs_last_word bs = 0 then write_size 0 w
     else
       (let total = (bs_last_word bs - 1) * 8 + bs_bytes_in_last bs in
        fold write_u8 (bs_raw bs) (write_size total w)))"

section \<open>The set a bit set stands for\<close>

definition words :: "pva_bitset \<Rightarrow> u64 list" where
  "words bs = bs_inline bs @ bs_overflow bs"

definition wbit :: "u64 list \<Rightarrow> nat \<Rightarrow> bool" where
  "wbit ws i = (i div 64 < length ws \<and> bit (ws ! (i div 64)) (i mod 64))"

definition bits :: "pva_bitset \<Rightarrow> nat set" where
  "bits bs = {i. wbit (words bs) i}"

definition bs_ok :: "pva_bitset \<Rightarrow> bool" where
  "bs_ok bs \<longleftrightarrow> length (bs_inline bs) = INLINE_WORDS"

lemma INLINE_simps [simp]: "INLINE_WORDS = 2" "INLINE_BITS = 128"
  by (simp_all add: INLINE_WORDS_def INLINE_BITS_def)

lemma less_128_div: "(i::nat) < 128 \<longleftrightarrow> i div 64 < 2"
  by auto

lemma bit_pow2: "bit ((2::u64) ^ k) n \<longleftrightarrow> k < 64 \<and> n = k"
  by (auto simp: bit_exp_iff)

lemma word_and_mask: "(w AND 2 ^ k \<noteq> (0::u64)) \<longleftrightarrow> bit w k"
proof
  assume b: "bit w k"
  then have "k < 64"
    using bit_imp_le_length[of w k] by simp
  with b have "bit (w AND 2 ^ k) k"
    by (simp add: bit_and_iff bit_pow2)
  then show "w AND 2 ^ k \<noteq> 0"
    by auto
next
  assume "w AND 2 ^ k \<noteq> 0"
  then obtain n where "bit (w AND 2 ^ k) n"
    by (metis bit_0_eq bit_eqI bot_apply bot_bool_def)
  then show "bit w k"
    by (auto simp: bit_and_iff bit_pow2)
qed

lemma bit_mask_ops:
  fixes w :: u64
  assumes "k < 64"
  shows "bit (w OR 2 ^ k) j = (bit w j \<or> j = k)"
    and "bit (w AND NOT (2 ^ k)) j = (bit w j \<and> j \<noteq> k)"
    and "bit (w XOR 2 ^ k) j = (bit w j \<noteq> (j = k))"
  using assms bit_imp_le_length[of w j]
  by (auto simp: bit_or_iff bit_and_iff bit_not_iff bit_xor_iff bit_pow2)

lemma is_set_bits:
  assumes "bs_ok bs"
  shows "bs_is_set i bs \<longleftrightarrow> i \<in> bits bs"
proof (cases "i < 128")
  case True
  then show ?thesis
    using assms by (simp add: bs_is_set_def bs_word_mask_def bits_def wbit_def words_def bs_ok_def
        word_and_mask nth_append less_128_div)
next
  case False
  then have "2 \<le> i div 64"
    by (simp add: less_128_div)
  then show ?thesis
    using assms False by (auto simp: bs_is_set_def bs_word_mask_def bits_def wbit_def words_def
        bs_ok_def word_and_mask nth_append Let_def)
qed

lemma wbit_resize: "length ws \<le> n \<Longrightarrow> wbit (as @ resize n ws) = wbit (as @ ws)"
  by (auto simp: wbit_def resize_def nth_append fun_eq_iff)

lemma wbit_update:
  assumes "i div 64 < length ws"
  shows "wbit (ws[i div 64 := w]) j =
    (if j div 64 = i div 64 then bit w (j mod 64) else wbit ws j)"
  using assms by (auto simp: wbit_def nth_list_update)

lemma div_mod_eq_64: "(j::nat) div 64 = i div 64 \<and> j mod 64 = i mod 64 \<longleftrightarrow> j = i"
  by (metis div_mult_mod_eq)

lemma wbit_modify:
  assumes "i div 64 < length ws"
    and "\<And>j. bit (w :: u64) j = (if j = i mod 64 then v else bit (ws ! (i div 64)) j)"
  shows "wbit (ws[i div 64 := w]) j = (if j = i then v else wbit ws j)"
  using assms wbit_update[OF assms(1), of w j] div_mod_eq_64[of j i]
  by (auto simp: wbit_def)

lemma words_put_word:
  assumes "bs_ok bs"
  shows "words (bs_put_word i w bs) = (words bs)[i := w]" "bs_ok (bs_put_word i w bs)"
  using assms
  by (auto simp: bs_put_word_def words_def bs_ok_def list_update_append Let_def list_update_beyond)

lemma words_update:
  assumes ok: "bs_ok bs"
  shows "\<exists>n. words (bs_update f i bs) =
      (let ws = bs_inline bs @ resize n (bs_overflow bs) in
       ws[i div 64 := f (ws ! (i div 64)) (2 ^ (i mod 64))]) \<and>
      i div 64 < 2 + n \<and> length (bs_overflow bs) \<le> n \<and> bs_ok (bs_update f i bs)"
proof (cases "i < 128")
  case True
  have "resize (length (bs_overflow bs)) (bs_overflow bs) = bs_overflow bs"
    by (simp add: resize_def)
  then show ?thesis
    using ok True
    by (intro exI[of _ "length (bs_overflow bs)"])
      (auto simp: bs_update_def bs_word_mask_def words_def bs_ok_def Let_def
        list_update_append nth_append less_128_div)
next
  case False
  obtain k where k: "i div 64 = Suc (Suc k)"
    using False by (cases "i div 64"; cases "i div 64 - 1") (auto simp: less_128_div)
  let ?n = "max (Suc k) (length (bs_overflow bs))"
  have r: "resize ?n (bs_overflow bs) =
      (if k \<ge> length (bs_overflow bs) then resize (Suc k) (bs_overflow bs) else bs_overflow bs)"
    by (auto simp: resize_def max_def)
  show ?thesis
    using ok False
    by (intro exI[of _ ?n], unfold r)
      (auto simp: bs_update_def bs_word_mask_def words_def bs_ok_def Let_def
        list_update_append nth_append k)
qed

lemma bits_update:
  assumes ok: "bs_ok bs"
    and f: "\<And>w j. bit (f w (2 ^ (i mod 64))) j = (if j = i mod 64 then h (bit w j) else bit w j)"
  shows "bits (bs_update f i bs) = {j. if j = i then h (i \<in> bits bs) else j \<in> bits bs}"
    and "bs_ok (bs_update f i bs)"
proof -
  obtain n where n: "words (bs_update f i bs) =
      (let ws = bs_inline bs @ resize n (bs_overflow bs) in
       ws[i div 64 := f (ws ! (i div 64)) (2 ^ (i mod 64))])"
      "i div 64 < 2 + n" "length (bs_overflow bs) \<le> n" and ok': "bs_ok (bs_update f i bs)"
    using words_update[OF ok, of f i] by auto
  let ?ws = "bs_inline bs @ resize n (bs_overflow bs)"
  have len: "i div 64 < length ?ws"
    using n(2,3) ok by (simp add: bs_ok_def resize_def)
  have "wbit (words (bs_update f i bs)) j = (if j = i then h (wbit ?ws i) else wbit ?ws j)" for j
    unfolding n(1) Let_def
    by (rule wbit_modify[OF len]) (use f len in \<open>auto simp: wbit_def\<close>)
  moreover have "wbit ?ws = wbit (words bs)"
    using wbit_resize[OF n(3)] by (simp add: words_def)
  ultimately show "bits (bs_update f i bs) = {j. if j = i then h (i \<in> bits bs) else j \<in> bits bs}"
    by (simp add: bits_def)
  show "bs_ok (bs_update f i bs)"
    by (rule ok')
qed

lemma bits_set:
  assumes "bs_ok bs"
  shows "bits (bs_set i bs) = insert i (bits bs)" "bs_ok (bs_set i bs)"
  using bits_update[OF assms, of "\<lambda>w m. w OR m" i "\<lambda>_. True"] bit_mask_ops(1)[of "i mod 64"]
  by (auto simp: bs_set_def)

lemma bits_toggle:
  assumes "bs_ok bs"
  shows "bits (bs_toggle i bs) = (if i \<in> bits bs then bits bs - {i} else insert i (bits bs))"
    "bs_ok (bs_toggle i bs)"
  using bits_update[OF assms, of "\<lambda>w m. w XOR m" i Not] bit_mask_ops(3)[of "i mod 64"]
  by (auto simp: bs_toggle_def)

lemma bits_clear_bit:
  assumes ok: "bs_ok bs"
  shows "bits (bs_clear_bit i bs) = bits bs - {i}" "bs_ok (bs_clear_bit i bs)"
proof -
  have w: "words (bs_clear_bit i bs) =
      (words bs)[i div 64 := words bs ! (i div 64) AND NOT (2 ^ (i mod 64))]"
  proof (cases "i < 128")
    case True
    then show ?thesis
      using ok by (auto simp: bs_clear_bit_def bs_word_mask_def words_def bs_ok_def Let_def
          list_update_append nth_append less_128_div)
  next
    case False
    then have "\<not> i div 64 < 2"
      by (simp add: less_128_div)
    then show ?thesis
      using ok False by (auto simp: bs_clear_bit_def bs_word_mask_def words_def bs_ok_def Let_def
          list_update_append nth_append list_update_beyond)
  qed
  have "wbit (words (bs_clear_bit i bs)) j = (if j = i then False else wbit (words bs) j)" for j
  proof (cases "i div 64 < length (words bs)")
    case True
    show ?thesis
      unfolding w by (rule wbit_modify[OF True]) (auto simp: bit_mask_ops)
  next
    case False
    then show ?thesis
      unfolding w by (auto simp: list_update_beyond wbit_def)
  qed
  then show "bits (bs_clear_bit i bs) = bits bs - {i}"
    by (auto simp: bits_def)
  show "bs_ok (bs_clear_bit i bs)"
    using ok by (auto simp: bs_clear_bit_def bs_word_mask_def bs_ok_def Let_def)
qed

lemma wbit_zeros: "(\<forall>w \<in> set ws. w = 0) \<Longrightarrow> wbit ws i = False"
proof -
  assume "\<forall>w \<in> set ws. w = 0"
  then have "i div 64 < length ws \<Longrightarrow> ws ! (i div 64) = 0"
    using nth_mem by blast
  then show ?thesis
    by (auto simp: wbit_def)
qed

lemma bits_new [simp]: "bits bs_new = {}" "bs_ok bs_new"
  by (simp_all add: bits_def bs_new_def words_def bs_ok_def wbit_zeros)

lemma bits_with_capacity [simp]: "bits (bs_with_capacity n) = {}" "bs_ok (bs_with_capacity n)"
  by (simp_all add: bits_def bs_with_capacity_def bs_new_def words_def bs_ok_def wbit_zeros Let_def)

lemma bits_clear_all [simp]: "bits (bs_clear_all bs) = {}" "bs_ok (bs_clear_all bs)"
  by (simp_all add: bits_def bs_clear_all_def words_def bs_ok_def wbit_zeros)

lemma bits_fold_set:
  assumes "bs_ok bs"
  shows "bits (fold bs_set xs bs) = set xs \<union> bits bs \<and> bs_ok (fold bs_set xs bs)"
  using assms by (induction xs arbitrary: bs) (auto simp: bits_set)

lemma bits_from_bits: "bits (bs_from_bits xs) = set xs" "bs_ok (bs_from_bits xs)"
  using bits_fold_set[of "bs_with_capacity (Max (set xs) + 1)" xs]
  by (auto simp: bs_from_bits_def)

lemma wbit_append:
  "wbit (as @ bs) i = (if i < 64 * length as then wbit as i else wbit bs (i - 64 * length as))"
proof (cases "i < 64 * length as")
  case True
  then have "i div 64 < length as"
    by (simp add: less_mult_imp_div_less mult.commute)
  then show ?thesis
    using True by (simp add: wbit_def nth_append)
next
  case False
  then obtain d where "i = 64 * length as + d"
    by (metis le_Suc_ex not_less)
  then show ?thesis
    by (simp add: wbit_def nth_append)
qed

lemma words_or:
  assumes "bs_ok a" "bs_ok b"
  shows "wbit (words (bs_or_assign a b)) i = (wbit (words a) i \<or> wbit (words b) i)"
proof -
  let ?n = "max (length (bs_overflow a)) (length (bs_overflow b))"
  have w: "words (bs_or_assign a b) ! k = (if k < length (words a) then words a ! k else 0) OR
      (if k < length (words b) then words b ! k else 0)" if "k < 2 + ?n" for k
  proof (cases "k < 2")
    case True
    then show ?thesis
      using assms by (simp add: words_def bs_or_assign_def Let_def bs_ok_def nth_append)
  next
    case False
    then obtain m where "k = 2 + m"
      by (metis le_Suc_ex not_less)
    then show ?thesis
      using assms that
      by (auto simp: words_def bs_or_assign_def Let_def bs_ok_def nth_append resize_def)
  qed
  have "length (words (bs_or_assign a b)) = 2 + ?n"
    by (simp add: words_def bs_or_assign_def Let_def)
  moreover have "length (words a) \<le> 2 + ?n" "length (words b) \<le> 2 + ?n"
    using assms by (auto simp: words_def bs_ok_def)
  ultimately show ?thesis
    using w[of "i div 64"] by (auto simp: wbit_def bit_or_iff split: if_splits)
qed

lemma bits_or:
  assumes "bs_ok a" "bs_ok b"
  shows "bits (bs_or a b) = bits a \<union> bits b" "bs_ok (bs_or a b)"
  using words_or[OF assms]
  by (auto simp: bits_def bs_or_def) (simp add: bs_or_assign_def bs_ok_def Let_def)

lemma bits_and:
  assumes "bs_ok a" "bs_ok b"
  shows "bits (bs_and a b) = bits a \<inter> bits b" "bs_ok (bs_and a b)"
proof -
  let ?n = "min (length (bs_overflow a)) (length (bs_overflow b))"
  have w: "words (bs_and a b) ! k = words a ! k AND words b ! k" if "k < 2 + ?n" for k
  proof (cases "k < 2")
    case True
    then show ?thesis
      using assms by (simp add: words_def bs_and_def Let_def bs_ok_def nth_append)
  next
    case False
    then obtain m where "k = 2 + m"
      by (metis le_Suc_ex not_less)
    then show ?thesis
      using assms that by (simp add: words_def bs_and_def Let_def bs_ok_def nth_append)
  qed
  have "length (words (bs_and a b)) = 2 + ?n"
    by (simp add: words_def bs_and_def Let_def)
  moreover have "length (words a) = 2 + length (bs_overflow a)"
      "length (words b) = 2 + length (bs_overflow b)"
    using assms by (simp_all add: words_def bs_ok_def)
  ultimately have "wbit (words (bs_and a b)) i = (wbit (words a) i \<and> wbit (words b) i)" for i
    using w[of "i div 64"] by (auto simp: wbit_def bit_and_iff)
  then show "bits (bs_and a b) = bits a \<inter> bits b"
    by (auto simp: bits_def)
  show "bs_ok (bs_and a b)"
    by (simp add: bs_and_def bs_ok_def Let_def)
qed

lemma bits_empty: "bs_is_empty bs \<longleftrightarrow> bits bs = {}"
proof
  assume "bs_is_empty bs"
  then show "bits bs = {}"
    by (auto simp: bs_is_empty_def bits_def words_def list_all_iff intro!: wbit_zeros[simplified])
next
  assume e: "bits bs = {}"
  have "w = 0" if mem: "w \<in> set (words bs)" for w
  proof (rule bit_word_eqI)
    fix j assume "j < LENGTH(64)"
    then have j: "j < 64" by simp
    obtain k where k: "k < length (words bs)" "words bs ! k = w"
      using mem by (meson in_set_conv_nth)
    have "\<not> wbit (words bs) (64 * k + j)"
      using e by (auto simp: bits_def)
    then show "bit w j = bit 0 j"
      using k j by (simp add: wbit_def)
  qed
  then show "bs_is_empty bs"
    by (auto simp: bs_is_empty_def list_all_iff words_def)
qed

section \<open>Enumeration\<close>

lemma bit_word_iter_0 [simp]: "bit_word_iter 0 base = []"
  by (simp add: bit_word_iter.simps)

lemma set_bit_word_iter: "set (bit_word_iter w base) = {base + j | j. bit w j}"
proof (induction w base rule: bit_word_iter.induct)
  case (1 w base)
  show ?case
  proof (cases "w = 0")
    case False
    then show ?thesis
      using 1 trailing_zeros_bits[OF False]
      by (subst bit_word_iter.simps) (auto simp: bit_drop_lowest)
  qed simp
qed

lemma sorted_bit_word_iter: "sorted_wrt (<) (bit_word_iter w base)"
proof (induction w base rule: bit_word_iter.induct)
  case (1 w base)
  show ?case
  proof (cases "w = 0")
    case False
    have "trailing_zeros w < j" if "bit w j" "j \<noteq> trailing_zeros w" for j
      using trailing_zeros_bits(3)[OF False, of j] that by (meson nat_neq_iff)
    then show ?thesis
      using 1 False
      by (subst bit_word_iter.simps) (auto simp: set_bit_word_iter bit_drop_lowest)
  qed simp
qed

text \<open>Both halves of \<open>iter_set\<close> are one walk over all words.\<close>

definition walk :: "nat \<Rightarrow> u64 list \<Rightarrow> nat list" where
  "walk k ws = concat (map (\<lambda>(wi, w). bit_word_iter w (64 * wi)) (enumerate k ws))"

lemma walk_simps: "walk k [] = []" "walk k (w # ws) = bit_word_iter w (64 * k) @ walk (Suc k) ws"
  by (simp_all add: walk_def)

lemma walk_append: "walk k (as @ bs) = walk k as @ walk (k + length as) bs"
  by (induction as arbitrary: k) (simp_all add: walk_simps)

lemma iter_set_walk:
  assumes "bs_ok bs"
  shows "bs_iter_set bs = walk 0 (words bs)"
proof -
  have "concat (map (\<lambda>(wi, w). bit_word_iter w (INLINE_BITS + wi * 64)) (enumerate k ws)) =
      walk (k + 2) ws" for k ws
    by (induction ws arbitrary: k) (simp_all add: walk_simps algebra_simps)
  then show ?thesis
    using assms
    by (simp add: bs_iter_set_def words_def walk_append bs_ok_def) (simp add: walk_def mult.commute)
qed

lemma walk_ok:
  "set (walk k ws) = {64 * k + i | i. wbit ws i} \<and> sorted_wrt (<) (walk k ws)"
proof (induction ws arbitrary: k)
  case Nil
  then show ?case
    by (simp add: walk_simps wbit_def)
next
  case (Cons w ws)
  have split: "wbit (w # ws) i = (if i < 64 then bit w i else wbit ws (i - 64))" for i
    using wbit_append[of "[w]" ws i] by (auto simp: wbit_def)
  have lt: "j < 64" if "bit w j" for j
    using bit_imp_le_length[OF that] by simp
  have "{64 * k + i | i. wbit (w # ws) i} = {64 * k + j | j. bit w j} \<union> {64 * Suc k + i | i. wbit ws i}"
    (is "?L = ?A \<union> ?B")
  proof (intro equalityI subsetI)
    fix x assume "x \<in> ?L"
    then obtain i where i: "x = 64 * k + i" "wbit (w # ws) i"
      by auto
    show "x \<in> ?A \<union> ?B"
    proof (cases "i < 64")
      case False
      then have "x = 64 * Suc k + (i - 64)" "wbit ws (i - 64)"
        using i split[of i] by auto
      then show ?thesis by blast
    qed (use i split[of i] in auto)
  next
    fix x assume "x \<in> ?A \<union> ?B"
    then show "x \<in> ?L"
    proof
      assume "x \<in> ?B"
      then obtain i where "x = 64 * k + (i + 64)" "wbit ws i"
        by auto
      then show ?thesis
        using split[of "i + 64"] by auto
    qed (use lt split in auto)
  qed
  moreover have "a < b" if "a \<in> ?A" "b \<in> ?B" for a b
    using that lt by fastforce
  ultimately show ?case
    using Cons.IH[of "Suc k"]
    by (simp add: walk_simps set_bit_word_iter sorted_wrt_append sorted_bit_word_iter)
qed

lemma to_vec_sorted:
  assumes "bs_ok bs"
  shows "bs_to_vec bs = sorted_list_of_set (bits bs)"
proof -
  have w: "set (walk 0 (words bs)) = bits bs" "sorted_wrt (<) (walk 0 (words bs))"
    using walk_ok[of 0 "words bs"] by (auto simp: bits_def)
  then have "sorted (walk 0 (words bs))" "distinct (walk 0 (words bs))"
    by (simp_all add: strict_sorted_iff)
  then have "sorted_list_of_set (set (walk 0 (words bs))) = walk 0 (words bs)"
    by (rule sorted_list_of_set.idem_if_sorted_distinct)
  then show ?thesis
    using assms w(1) by (simp add: bs_to_vec_def iter_set_walk)
qed

lemma finite_bits: "finite (bits bs)"
proof -
  have "set (walk 0 (words bs)) = bits bs"
    using walk_ok[of 0 "words bs"] by (auto simp: bits_def)
  then show ?thesis
    by (metis List.finite_set)
qed

section \<open>Counting and full words\<close>

lemma count_ones_card: "count_ones w = card {j. bit w j}"
proof -
  have "{j. bit w j} = set (filter (bit w) [0..<64])"
    using bit_imp_le_length[of w] by auto
  then show ?thesis
    by (simp add: count_ones_def distinct_card del: set_filter)
qed

lemma length_bit_word_iter: "length (bit_word_iter w base) = count_ones w"
proof -
  have "distinct (bit_word_iter w base)"
    using sorted_bit_word_iter[of w base] by (simp add: strict_sorted_iff)
  then have "length (bit_word_iter w base) = card {base + j | j. bit w j}"
    using set_bit_word_iter[of w base] distinct_card by metis
  also have "{base + j | j. bit w j} = (\<lambda>j. base + j) ` {j. bit w j}"
    by auto
  also have "card \<dots> = card {j. bit w j}"
    by (rule card_image) (simp add: inj_on_def)
  finally show ?thesis
    by (simp add: count_ones_card)
qed

lemma length_walk: "length (walk k ws) = sum_list (map count_ones ws)"
  by (induction ws arbitrary: k) (simp_all add: walk_simps length_bit_word_iter)

lemma count_set_card:
  assumes "bs_ok bs"
  shows "bs_count_set bs = card (bits bs)"
proof -
  have "set (walk 0 (words bs)) = bits bs" "distinct (walk 0 (words bs))"
    using walk_ok[of 0 "words bs"] by (auto simp: bits_def strict_sorted_iff)
  then have "card (bits bs) = length (walk 0 (words bs))"
    using distinct_card by metis
  then show ?thesis
    by (simp add: length_walk bs_count_set_def words_def)
qed

lemma put_word_fold:
  assumes "bs_ok bs" "distinct is"
  shows "bs_ok (fold (\<lambda>i. bs_put_word i w) is bs) \<and>
    length (words (fold (\<lambda>i. bs_put_word i w) is bs)) = length (words bs) \<and>
    (\<forall>k < length (words bs). words (fold (\<lambda>i. bs_put_word i w) is bs) ! k =
      (if k \<in> set is then w else words bs ! k))"
  using assms
proof (induction "is" arbitrary: bs)
  case (Cons i "is")
  have "bs_ok (bs_put_word i w bs)" "words (bs_put_word i w bs) = (words bs)[i := w]"
    using Cons.prems(1) by (simp_all add: words_put_word)
  then show ?case
    using Cons.IH[of "bs_put_word i w bs"] Cons.prems by (auto simp: nth_list_update)
qed simp

lemma length_words_capacity:
  "length (words (bs_with_capacity n)) = max 2 ((n + 63) div 64)"
proof (cases "n > 128")
  case True
  then obtain d where "n = 128 + d" "0 < d"
    by (metis less_imp_add_positive)
  then show ?thesis
    by (simp add: words_def bs_with_capacity_def bs_new_def Let_def add.assoc)
next
  case False
  then have "(n + 63) div 64 \<le> 2"
    by simp
  then show ?thesis
    using False by (simp add: words_def bs_with_capacity_def bs_new_def Let_def)
qed

lemma words_capacity_zero: "k < length (words (bs_with_capacity n)) \<Longrightarrow> words (bs_with_capacity n) ! k = 0"
  by (auto simp: words_def bs_with_capacity_def bs_new_def Let_def nth_append)

lemma bit_low_mask: "r < 64 \<Longrightarrow> bit (push_bit r 1 - 1 :: u64) j = (j < r)"
  by (auto simp: bit_mask_iff simp flip: mask_eq_exp_minus_1)

lemma div_round_up:
  fixes n :: nat
  shows "n div 64 \<le> (n + 63) div 64" "n mod 64 > 0 \<Longrightarrow> n div 64 < (n + 63) div 64"
proof -
  show "n div 64 \<le> (n + 63) div 64"
    by (simp add: div_le_mono)
  assume "n mod 64 > 0"
  then have "64 div 64 \<le> (n mod 64 + 63) div 64"
    by (intro div_le_mono) simp
  moreover have "(n + 63) div 64 = (n mod 64 + 63 + 64 * (n div 64)) div 64"
    by (simp add: add.assoc)
  then have "(n + 63) div 64 = (n mod 64 + 63) div 64 + n div 64"
    by (simp only: div_mult_self2)
  ultimately show "n div 64 < (n + 63) div 64"
    by simp
qed

lemma less_div_mod_64:
  "(i::nat) < n \<longleftrightarrow> i div 64 < n div 64 \<or> i div 64 = n div 64 \<and> i mod 64 < n mod 64"
proof -
  define a b c d where "a = i div 64" "b = i mod 64" "c = n div 64" "d = n mod 64"
  then have "i = 64 * a + b" "n = 64 * c + d" "b < 64" "d < 64"
    by simp_all
  moreover have "64 * a + b < 64 * c + d \<longleftrightarrow> a < c \<or> a = c \<and> b < d" if "b < 64" "d < 64"
    using that by (cases a c rule: linorder_cases) auto
  ultimately show ?thesis
    by (simp add: a_b_c_d_def)
qed

lemma bits_all_set: "bits (bs_all_set n) = {..<n} \<and> bs_ok (bs_all_set n)"
proof (cases "n = 0")
  case True
  then show ?thesis
    by (simp add: bs_all_set_def)
next
  case False
  let ?bs = "bs_with_capacity n" and ?full = "n div 64" and ?r = "n mod 64"
  let ?b1 = "fold (\<lambda>i. bs_put_word i (- 1)) [0..<min ?full INLINE_WORDS] ?bs"
  let ?b2 = "fold (\<lambda>i. bs_put_word i (- 1)) [INLINE_WORDS..<?full] ?b1"
  have len: "length (words ?bs) = max 2 ((n + 63) div 64)"
    by (rule length_words_capacity)
  have b1: "bs_ok ?b1" "length (words ?b1) = length (words ?bs)"
    "\<forall>k < length (words ?bs). words ?b1 ! k = (if k < min ?full 2 then - 1 else 0)"
    using put_word_fold[of ?bs "[0..<min ?full INLINE_WORDS]" "- 1"] words_capacity_zero[of _ n]
    by auto
  have b2: "bs_ok ?b2" "length (words ?b2) = length (words ?bs)"
    "\<forall>k < length (words ?bs). words ?b2 ! k = (if k < ?full then - 1 else 0)"
    using put_word_fold[of ?b1 "[INLINE_WORDS..<?full]" "- 1"] b1 by auto
  let ?b3 = "if ?r > 0 then bs_put_word ?full (push_bit ?r 1 - 1) ?b2 else ?b2"
  have full: "?full \<le> length (words ?bs)" "?r > 0 \<Longrightarrow> ?full < length (words ?bs)"
    using div_round_up[of n] unfolding len by auto
  have b3: "bs_ok ?b3" "length (words ?b3) = length (words ?bs)"
    using b2 by (auto simp: words_put_word)
  have b3w: "words ?b3 ! k = (if k < ?full then - 1 else if k = ?full then push_bit ?r 1 - 1 else 0)"
    if k: "k < length (words ?bs)" for k
    using b2 full k by (cases "?r > 0") (auto simp: words_put_word nth_list_update)
  have "wbit (words ?b3) i = (i < n)" for i
  proof (cases "i div 64 < length (words ?bs)")
    case True
    then show ?thesis
      using b3w[OF True] b3 bit_low_mask[of ?r "i mod 64"] less_div_mod_64[of i n]
      by (auto simp: wbit_def)
  next
    case False
    then have "?full \<le> i div 64" "?r > 0 \<Longrightarrow> ?full < i div 64"
      using full by simp_all
    then have "\<not> i < n"
      using less_div_mod_64[of i n] by auto
    then show ?thesis
      using False b3 by (simp add: wbit_def)
  qed
  moreover have "bs_all_set n = ?b3"
    using False by (simp add: bs_all_set_def Let_def)
  ultimately show ?thesis
    using b3 by (simp add: bits_def lessThan_def)
qed

section \<open>Wire form\<close>

definition bbit :: "bytes \<Rightarrow> nat \<Rightarrow> bool" where
  "bbit raw i = (i div 8 < length raw \<and> bit (raw ! (i div 8)) (i mod 8))"

lemma bbit_append:
  "bbit (as @ bs) i = (if i < 8 * length as then bbit as i else bbit bs (i - 8 * length as))"
proof (cases "i < 8 * length as")
  case True
  then have "i div 8 < length as"
    by (simp add: less_mult_imp_div_less mult.commute)
  then show ?thesis
    using True by (simp add: bbit_def nth_append)
next
  case False
  then obtain d where "i = 8 * length as + d"
    by (metis le_Suc_ex not_less)
  then show ?thesis
    by (simp add: bbit_def nth_append)
qed

lemma bbit_single: "bbit [b] i = (i < 8 \<and> bit b i)"
  by (auto simp: bbit_def dest: bit_imp_le_length)

lemma bbit_word_bytes:
  assumes "n \<le> 8"
  shows "bbit (word_bytes n w) i = (i < 8 * n \<and> bit w i)"
proof (cases "i < 8 * n")
  case True
  have ff: "(0xFF :: u64) = mask 8"
    by (simp add: mask_eq_exp_minus_1)
  have "i div 8 < n" "8 * (i div 8) + i mod 8 = i" "i mod 8 < 64"
    using True mod_less_divisor[of 8 i] by auto
  then show ?thesis
    using True by (simp add: bbit_def word_bytes_def bit_ucast_iff bit_and_iff bit_drop_bit_eq ff
        mult.commute bit_mask_iff less_mult_imp_div_less)
next
  case False
  then have "\<not> i div 8 < n"
    by auto
  then show ?thesis
    using False by (simp add: bbit_def word_bytes_def)
qed

lemma length_word_bytes [simp]: "length (word_bytes n w) = n"
  by (simp add: word_bytes_def)

lemma get_word_words:
  assumes "bs_ok bs"
  shows "bs_get_word i bs = (if i < length (words bs) then words bs ! i else 0)"
  using assms by (auto simp: bs_get_word_def words_def bs_ok_def nth_append Let_def)

lemma last_word_bound:
  assumes "bs_ok bs"
  shows "bs_last_word bs \<le> length (words bs)"
    and "bs_last_word bs \<le> k \<Longrightarrow> bs_get_word k bs = 0"
    and "0 < bs_last_word bs \<Longrightarrow> bs_get_word (bs_last_word bs - 1) bs \<noteq> 0"
proof -
  define n where "n = length (words bs)"
  let ?P = "\<lambda>i. bs_get_word i bs \<noteq> 0"
  have "INLINE_WORDS + length (bs_overflow bs) = n"
    using assms by (simp add: n_def words_def bs_ok_def)
  then have last: "bs_last_word bs = (case filter ?P (rev [0..<n]) of [] \<Rightarrow> 0 | i # _ \<Rightarrow> i + 1)"
    by (simp only: bs_last_word_def)
  have out: "bs_get_word k bs = 0" if "n \<le> k" for k
    using that n_def get_word_words[OF assms, of k] by simp
  have "bs_last_word bs \<le> length (words bs) \<and>
    (bs_last_word bs \<le> k \<longrightarrow> bs_get_word k bs = 0) \<and>
    (0 < bs_last_word bs \<longrightarrow> bs_get_word (bs_last_word bs - 1) bs \<noteq> 0)" for k
  proof (cases "filter ?P (rev [0..<n])")
    case Nil
    then have "\<forall>i < n. bs_get_word i bs = 0"
      by (auto simp: filter_empty_conv)
    then show ?thesis
      using Nil out by (auto simp: last not_less[symmetric])
  next
    case (Cons i js)
    then obtain us vs where s: "rev [0..<n] = us @ i # vs" "\<forall>u \<in> set us. \<not> ?P u" "?P i"
      by (auto simp: filter_eq_Cons_iff)
    have "[0..<n] = rev vs @ i # rev us"
      using arg_cong[OF s(1), of rev] by simp
    moreover have "sorted [0..<n]"
      by simp
    ultimately have le: "\<forall>x \<in> set vs. x \<le> i" and set: "{0..<n} = set vs \<union> {i} \<union> set us"
      by (auto simp: sorted_append simp flip: set_upt)
    have i: "i < n"
      using set by auto
    have "bs_get_word k bs = 0" if k: "i < k" for k
    proof (cases "k < n")
      case True
      then have "k \<in> set vs \<union> {i} \<union> set us"
        using set by (metis atLeastLessThan_iff zero_le)
      then have "k \<in> set us"
        using le k by auto
      then show ?thesis
        using s(2) by blast
    qed (use out in simp)
    then show ?thesis
      using Cons i s(3) by (auto simp: last n_def)
  qed
  then show "bs_last_word bs \<le> length (words bs)"
    "bs_last_word bs \<le> k \<Longrightarrow> bs_get_word k bs = 0"
    "0 < bs_last_word bs \<Longrightarrow> bs_get_word (bs_last_word bs - 1) bs \<noteq> 0"
    by auto
qed

lemma leading_zeros_bits:
  assumes "w \<noteq> 0"
  shows "leading_zeros w < 64" "64 - leading_zeros w \<le> i \<Longrightarrow> \<not> bit w i"
    and "bit w (63 - leading_zeros w)"
proof -
  let ?p = "\<lambda>i. \<not> bit w i" and ?l = "rev [0..<64::nat]"
  have "bit w (trailing_zeros w)" "trailing_zeros w < 64"
    using trailing_zeros_bits[OF assms] by auto
  then have "\<not> (\<forall>i \<in> set ?l. ?p i)"
    by auto
  then have l: "length (takeWhile ?p ?l) < length ?l"
    by (metis length_takeWhile_le nat_less_le takeWhile_eq_all_conv takeWhile_eq_take take_all_iff)
  then show lt: "leading_zeros w < 64"
    by (simp add: leading_zeros_def)
  have nth: "?l ! j = 63 - j" if "j < 64" for j
    using that by (simp add: rev_nth)
  have "\<not> ?p (?l ! length (takeWhile ?p ?l))"
    using l by (rule nth_length_takeWhile)
  then show "bit w (63 - leading_zeros w)"
    using lt nth by (simp add: leading_zeros_def)
  assume i: "64 - leading_zeros w \<le> i"
  show "\<not> bit w i"
  proof (cases "i < 64")
    case True
    then have "63 - i < leading_zeros w"
      using i by auto
    then have "takeWhile ?p ?l ! (63 - i) \<in> set (takeWhile ?p ?l)"
      by (simp add: leading_zeros_def)
    moreover have "takeWhile ?p ?l ! (63 - i) = i"
      using \<open>63 - i < leading_zeros w\<close> True nth[of "63 - i"]
      by (simp add: leading_zeros_def takeWhile_nth)
    ultimately show ?thesis
      by (metis set_takeWhileD)
  next
    case False
    then show ?thesis
      using bit_imp_le_length[of w i] by auto
  qed
qed

lemma bytes_in_last_ok:
  assumes "bs_ok bs" "0 < bs_last_word bs"
  defines "w \<equiv> bs_get_word (bs_last_word bs - 1) bs" and "n \<equiv> bs_bytes_in_last bs"
  shows "n \<le> 8" "0 < n" "8 * n \<le> i \<Longrightarrow> \<not> bit w i" "\<exists>j < 8. bit w (8 * (n - 1) + j)"
proof -
  have w: "w \<noteq> 0"
    using last_word_bound(3)[OF assms(1,2)] by (simp add: w_def)
  then have n: "n = 8 - leading_zeros w div 8"
    by (simp add: n_def w_def bs_bytes_in_last_def Let_def)
  note lz = leading_zeros_bits[OF w]
  define q r where "q = leading_zeros w div 8" and "r = leading_zeros w mod 8"
  have qr: "leading_zeros w = 8 * q + r" "r < 8" "q < 8" "n = 8 - q"
    using lz(1) by (simp_all add: q_def r_def n)
  show "n \<le> 8" "0 < n"
    using qr by auto
  show "8 * n \<le> i \<Longrightarrow> \<not> bit w i"
    using qr by (intro lz(2)) auto
  have "63 - leading_zeros w = 8 * (n - 1) + (7 - r)"
    using qr by auto
  then show "\<exists>j < 8. bit w (8 * (n - 1) + j)"
    using lz(3) qr(2) by (intro exI[of _ "7 - r"]) auto
qed

text \<open>The first \<open>k\<close> words of the raw bytes, all complete.\<close>

lemma bbit_full_words:
  "length (concat (map (\<lambda>wi. word_bytes 8 (g wi)) [0..<k])) = 8 * k \<and>
   bbit (concat (map (\<lambda>wi. word_bytes 8 (g wi)) [0..<k])) i =
     (i div 64 < k \<and> bit (g (i div 64)) (i mod 64))"
proof (induction k arbitrary: i)
  case 0
  then show ?case
    by (simp add: bbit_def)
next
  case (Suc k)
  let ?l = "concat (map (\<lambda>wi. word_bytes 8 (g wi)) [0..<k])"
  have len: "length ?l = 8 * k" and IH: "bbit ?l i = (i div 64 < k \<and> bit (g (i div 64)) (i mod 64))"
    using Suc[of i] by auto
  have "bbit (?l @ word_bytes 8 (g k)) i = (i div 64 < Suc k \<and> bit (g (i div 64)) (i mod 64))"
  proof (cases "i < 64 * k")
    case True
    then have "i div 64 < k"
      by (simp add: less_mult_imp_div_less mult.commute)
    then show ?thesis
      using True IH len by (simp add: bbit_append)
  next
    case False
    then obtain d where d: "i = 64 * k + d"
      by (metis le_Suc_ex not_less)
    then show ?thesis
      using len bit_imp_le_length[of "g k" d]
      by (cases "d < 64") (auto simp: bbit_append bbit_word_bytes)
  qed
  then show ?case
    using len by simp
qed

lemma raw_split:
  assumes "bs_ok bs" "0 < bs_last_word bs"
  shows "bs_raw bs = concat (map (\<lambda>wi. word_bytes 8 (bs_get_word wi bs)) [0..<bs_last_word bs - 1]) @
    word_bytes (bs_bytes_in_last bs) (bs_get_word (bs_last_word bs - 1) bs)"
proof -
  obtain k where k: "bs_last_word bs = Suc k"
    using assms(2) gr0_conv_Suc by auto
  have "map (\<lambda>wi. word_bytes (if wi = k then n else 8) (bs_get_word wi bs)) [0..<k] =
      map (\<lambda>wi. word_bytes 8 (bs_get_word wi bs)) [0..<k]" for n
    by simp
  from arg_cong[OF this, of concat] show ?thesis
    by (simp add: bs_raw_def k del: map_eq_conv)
qed

lemma raw_Nil: "bs_last_word bs = 0 \<Longrightarrow> bs_raw bs = []"
  by (simp add: bs_raw_def)

lemma bbit_raw:
  assumes "bs_ok bs"
  shows "bbit (bs_raw bs) i = (i \<in> bits bs)"
proof (cases "bs_last_word bs = 0")
  case True
  then have "bs_get_word k bs = 0" for k
    using last_word_bound(2)[OF assms] by simp
  then have "\<not> wbit (words bs) i"
    using get_word_words[OF assms, of "i div 64"] by (auto simp: wbit_def)
  then show ?thesis
    using True by (simp add: raw_Nil bbit_def bits_def)
next
  case False
  then have pos: "0 < bs_last_word bs" by simp
  let ?k = "bs_last_word bs - 1" and ?n = "bs_bytes_in_last bs" and ?g = "\<lambda>i. bs_get_word i bs"
  note n = bytes_in_last_ok[OF assms pos]
  note full = bbit_full_words[of "\<lambda>i. bs_get_word i bs" ?k]
  have eq: "wbit (words bs) i = bit (?g (i div 64)) (i mod 64)"
    using get_word_words[OF assms, of "i div 64"] by (auto simp: wbit_def)
  show ?thesis
  proof (cases "i < 64 * ?k")
    case True
    then have "i div 64 < ?k"
      by (simp add: less_mult_imp_div_less mult.commute)
    then show ?thesis
      using True full eq by (simp add: raw_split[OF assms pos] bbit_append bits_def)
  next
    case not: False
    then obtain d where d: "i = 64 * ?k + d"
      by (metis le_Suc_ex not_less)
    show ?thesis
    proof (cases "d < 64")
      case True
      moreover have "bit (bs_get_word ?k bs) d \<Longrightarrow> d < 8 * ?n"
        using n(3)[of d] by (meson not_less)
      ultimately show ?thesis
        using full eq d n(1)
        by (auto simp: raw_split[OF assms pos] bbit_append bits_def bbit_word_bytes not_less)
    next
      case False
      then have "bs_last_word bs \<le> i div 64" "\<not> d < 8 * ?n"
        using d pos n(1) by auto
      then show ?thesis
        using full eq d last_word_bound(2)[OF assms, of "i div 64"] n(1)
        by (simp add: raw_split[OF assms pos] bbit_append bits_def bbit_word_bytes)
    qed
  qed
qed

lemma length_raw:
  assumes "bs_ok bs" "0 < bs_last_word bs"
  shows "length (bs_raw bs) = (bs_last_word bs - 1) * 8 + bs_bytes_in_last bs"
  using bbit_full_words[of "\<lambda>i. bs_get_word i bs" "bs_last_word bs - 1"]
  by (simp add: raw_split[OF assms])

text \<open>No trailing zero byte is sent.\<close>

lemma raw_last:
  assumes "bs_ok bs" "bs_raw bs \<noteq> []"
  shows "last (bs_raw bs) \<noteq> 0"
proof -
  have pos: "0 < bs_last_word bs"
    using assms(2) raw_Nil by (cases "bs_last_word bs") auto
  let ?n = "bs_bytes_in_last bs" and ?w = "bs_get_word (bs_last_word bs - 1) bs"
  note n = bytes_in_last_ok[OF assms(1) pos]
  obtain j where j: "j < 8" "bit ?w (8 * (?n - 1) + j)"
    using n(4) by auto
  have "bbit (word_bytes ?n ?w) (8 * (?n - 1) + j)"
    using j n(1,2) by (simp add: bbit_word_bytes)
  then have "bit (word_bytes ?n ?w ! (?n - 1)) j"
    using j(1) by (simp add: bbit_def)
  moreover have "last (bs_raw bs) = word_bytes ?n ?w ! (?n - 1)"
    using n(2) by (simp add: raw_split[OF assms(1) pos] last_append last_conv_nth)
      (metis length_word_bytes list.size(3) less_numeral_extra(3))
  ultimately show ?thesis
    by auto
qed

section \<open>Decoding\<close>

definition decode_inv :: "nat \<Rightarrow> bytes \<Rightarrow> pva_bitset \<times> nat \<times> nat \<times> u64 \<Rightarrow> bool" where
  "decode_inv cap p s = (case s of (bs, wi, bi, cur) \<Rightarrow>
     bs_ok bs \<and> length (words bs) = length (words (bs_with_capacity (cap * 8))) \<and>
     length p = 8 * wi + bi \<and> bi < 8 \<and>
     (\<forall>i. wbit (words bs) i \<longleftrightarrow> i < 64 * wi \<and> bbit p i) \<and>
     (\<forall>j. bit cur j \<longleftrightarrow> bbit p (64 * wi + j)))"

lemma bbit_bound: "bbit p i \<Longrightarrow> i < 8 * length p"
  by (auto simp: bbit_def)

lemma put_word_bits:
  assumes "bs_ok bs" "wi < length (words bs)" "\<forall>i. wbit (words bs) i \<longleftrightarrow> i < 64 * wi \<and> P i"
    and "\<forall>j. bit cur j \<longleftrightarrow> j < 64 \<and> P (64 * wi + j)"
  shows "wbit (words (bs_put_word wi cur bs)) i \<longleftrightarrow> i < 64 * Suc wi \<and> P i"
proof -
  have w: "words (bs_put_word wi cur bs) = (words bs)[wi := cur]"
    using assms(1) by (rule words_put_word)
  have upd: "wbit ((words bs)[wi := cur]) i = (if i div 64 = wi then bit cur (i mod 64) else wbit (words bs) i)"
    using assms(2) by (auto simp: wbit_def nth_list_update)
  show ?thesis
  proof (cases "i div 64 = wi")
    case True
    then have "64 * wi + i mod 64 = i" "i < 64 * Suc wi"
      by auto
    then show ?thesis
      using True assms(4) by (simp add: w upd)
  next
    case False
    have "i < 64 * Suc wi \<longleftrightarrow> i < 64 * wi" if "i div 64 \<noteq> wi"
    proof -
      have "i < 64 * Suc wi \<longleftrightarrow> i div 64 < Suc wi" "i < 64 * wi \<longleftrightarrow> i div 64 < wi"
        by (simp_all add: div_less_iff_less_mult mult.commute)
      with that show ?thesis by auto
    qed
    then show ?thesis
      using False assms(3) by (simp add: w upd)
  qed
qed

lemma decode_byte_inv:
  assumes inv: "decode_inv cap p s" and room: "length p < cap"
  shows "decode_inv cap (p @ [b]) (bs_decode_byte b s)"
proof -
  obtain bs wi bi cur where s: "s = (bs, wi, bi, cur)"
    by (cases s) auto
  note i = inv[unfolded decode_inv_def s prod.case]
  let ?cur = "cur OR push_bit (bi * 8) (ucast b)"
  have lp: "8 * length p = 64 * wi + 8 * bi" and bi: "bi < 8"
    using i by auto
  have cur: "bit ?cur j \<longleftrightarrow> bbit (p @ [b]) (64 * wi + j)" for j
  proof (cases "j < 8 * bi")
    case True
    then have "bit ?cur j \<longleftrightarrow> bbit p (64 * wi + j)"
      using i by (simp add: bit_or_iff bit_push_bit_iff)
    then show ?thesis
      using True lp by (simp add: bbit_append)
  next
    case False
    then obtain d where d: "j = 8 * bi + d"
      by (metis le_Suc_ex not_less)
    have "\<not> bbit p (64 * wi + j)"
      using bbit_bound[of p "64 * wi + j"] lp d by auto
    then have "\<not> bit cur j"
      using i by blast
    moreover have "bit b d \<Longrightarrow> d < 8"
      using bit_imp_le_length[of b d] by simp
    ultimately show ?thesis
      using d lp bi
      by (auto simp: bbit_append bbit_single bit_or_iff bit_push_bit_iff bit_ucast_iff mult.commute)
  qed
  have words: "wbit (words bs) k \<longleftrightarrow> k < 64 * wi \<and> bbit (p @ [b]) k" for k
    using i lp by (auto simp: bbit_append)
  show ?thesis
  proof (cases "bi = 7")
    case False
    then show ?thesis
      using i cur words bi by (simp add: decode_inv_def s Let_def)
  next
    case True
    have "length (words bs) = max 2 ((cap * 8 + 63) div 64)"
      using i by (simp add: length_words_capacity)
    moreover have "64 * wi + 64 \<le> cap * 8"
      using room lp True by simp
    then have "Suc wi \<le> (cap * 8 + 63) div 64"
      using div_le_mono[of "64 * Suc wi" "cap * 8 + 63" 64] by simp
    ultimately have wi: "wi < length (words bs)"
      by simp
    have "\<forall>j. bit ?cur j \<longleftrightarrow> j < 64 \<and> bbit (p @ [b]) (64 * wi + j)"
      using cur bit_imp_le_length[of ?cur] by fastforce
    with i words wi have put: "wbit (words (bs_put_word wi ?cur bs)) k \<longleftrightarrow>
        k < 64 * Suc wi \<and> bbit (p @ [b]) k" for k
      by (intro put_word_bits) auto
    have none: "\<not> bbit (p @ [b]) (64 * Suc wi + j)" for j
      using bbit_bound[of "p @ [b]" "64 * Suc wi + j"] lp True by auto
    show ?thesis
      using i wi True put none
      by (simp add: decode_inv_def s Let_def words_put_word)
  qed
qed

lemma decode_fold_inv:
  "length p \<le> cap \<Longrightarrow>
    decode_inv cap p (fold bs_decode_byte p (bs_with_capacity (cap * 8), 0, 0, 0))"
proof (induction p rule: rev_induct)
  case Nil
  have "\<not> wbit (words (bs_with_capacity (cap * 8))) i" for i
    using bits_with_capacity(1)[of "cap * 8"] by (auto simp: bits_def)
  then show ?case
    by (simp add: decode_inv_def bbit_def)
next
  case (snoc b p)
  then show ?case
    by (simp add: decode_byte_inv)
qed

lemma bits_decode_raw: "bits (bs_decode_raw raw) = {i. bbit raw i}" "bs_ok (bs_decode_raw raw)"
proof -
  obtain bs wi bi cur where f: "fold bs_decode_byte raw (bs_with_capacity (length raw * 8), 0, 0, 0)
      = (bs, wi, bi, cur)"
    by (metis prod_cases4)
  have i: "bs_ok bs" "length (words bs) = max 2 ((length raw * 8 + 63) div 64)"
    "length raw = 8 * wi + bi" "bi < 8" "\<forall>i. wbit (words bs) i \<longleftrightarrow> i < 64 * wi \<and> bbit raw i"
    "\<forall>j. bit cur j \<longleftrightarrow> bbit raw (64 * wi + j)"
    using decode_fold_inv[of raw "length raw"] by (simp_all add: f decode_inv_def length_words_capacity)
  have r: "bs_decode_raw raw = (if bi > 0 then bs_put_word wi cur bs else bs)"
    by (simp add: bs_decode_raw_def f)
  have "bits (bs_decode_raw raw) = {i. bbit raw i} \<and> bs_ok (bs_decode_raw raw)"
  proof (cases "bi = 0")
    case True
    then have "bbit raw k \<Longrightarrow> k < 64 * wi" for k
      using bbit_bound[of raw k] i(3) by simp
    then show ?thesis
      using True i by (auto simp: r bits_def)
  next
    case False
    then have "Suc wi \<le> (length raw * 8 + 63) div 64"
      using i(3) div_le_mono[of "64 * Suc wi" "length raw * 8 + 63" 64] by simp
    then have wi: "wi < length (words bs)"
      using i(2) by simp
    have "\<forall>j. bit cur j \<longleftrightarrow> j < 64 \<and> bbit raw (64 * wi + j)"
      using i(6) bit_imp_le_length[of cur] by fastforce
    with i wi have "wbit (words (bs_put_word wi cur bs)) k \<longleftrightarrow> k < 64 * Suc wi \<and> bbit raw k" for k
      by (intro put_word_bits) auto
    moreover have "bbit raw k \<Longrightarrow> k < 64 * Suc wi" for k
      using bbit_bound[of raw k] i(3,4) by simp
    ultimately show ?thesis
      using False i(1) by (auto simp: r bits_def words_put_word)
  qed
  then show "bits (bs_decode_raw raw) = {i. bbit raw i}" "bs_ok (bs_decode_raw raw)"
    by auto
qed

section \<open>Round trip\<close>

lemma fold_write_u8: "fold write_u8 bs w = emit bs w"
  by (induction bs arbitrary: w) (simp_all add: write_u8_def)

lemma bs_encode_eq:
  assumes "bs_ok bs"
  shows "bs_encode bs w = emit (size_bytes (wr_order w) (length (bs_raw bs)) @ bs_raw bs) w"
  using length_raw[OF assms] raw_Nil[of bs]
  by (auto simp: bs_encode_def fold_write_u8 write_size_eq Let_def)

definition bs_received :: "pva_bitset \<Rightarrow> pva_bitset" where
  "bs_received bs = (if bs_raw bs = [] then bs_new else bs_decode_raw (bs_raw bs))"

lemma bits_received: "bs_ok bs \<Longrightarrow> bits (bs_received bs) = bits bs \<and> bs_ok (bs_received bs)"
  using bbit_raw[of bs] by (auto simp: bs_received_def bits_decode_raw bbit_def)

lemma parses_bitset [rd_simps]:
  assumes "bs_ok bs" "length (bs_raw bs) < 2 ^ 31"
  shows "parses ord bs_decode (written ord (bs_encode bs)) (bs_received bs)"
proof -
  have "written ord (bs_encode bs) = size_bytes ord (length (bs_raw bs)) @ bs_raw bs"
    by (simp add: written_def bs_encode_eq[OF assms(1)])
  moreover have "parses ord (if length (bs_raw bs) = 0 then rd_return bs_new
      else rd_bind (read_bytes (length (bs_raw bs))) (\<lambda>raw. rd_return (bs_decode_raw raw)))
      (bs_raw bs) (bs_received bs)"
    by (cases "bs_raw bs = []")
      (simp_all add: bs_received_def parses_return parses_map[OF parses_read_bytes])
  ultimately show ?thesis
    using assms(2) unfolding bs_decode_def
    by (auto intro: parses_bind[OF parses_size_non_null])
qed

section \<open>The interface the delta decoder uses\<close>

text \<open>
  A client that only asks for membership and builds sets by insertion, removal and union
  sees a finite set of indices.
\<close>

locale index_set =
  fixes elems :: "'s \<Rightarrow> nat set" and ok :: "'s \<Rightarrow> bool"
    and empty :: 's and member :: "nat \<Rightarrow> 's \<Rightarrow> bool" and insert_bit :: "nat \<Rightarrow> 's \<Rightarrow> 's"
    and remove_bit :: "nat \<Rightarrow> 's \<Rightarrow> 's" and union :: "'s \<Rightarrow> 's \<Rightarrow> 's"
  assumes empty: "ok empty" "elems empty = {}"
    and member: "ok s \<Longrightarrow> member i s \<longleftrightarrow> i \<in> elems s"
    and insert_bit: "ok s \<Longrightarrow> elems (insert_bit i s) = insert i (elems s)" "ok s \<Longrightarrow> ok (insert_bit i s)"
    and remove_bit: "ok s \<Longrightarrow> elems (remove_bit i s) = elems s - {i}" "ok s \<Longrightarrow> ok (remove_bit i s)"
    and union: "ok s \<Longrightarrow> ok t \<Longrightarrow> elems (union s t) = elems s \<union> elems t" "ok s \<Longrightarrow> ok t \<Longrightarrow> ok (union s t)"
begin

lemma ok_fold: "ok s \<Longrightarrow> ok (fold insert_bit is s)"
  by (induction "is" arbitrary: s) (simp_all add: insert_bit)

lemma elems_fold: "ok s \<Longrightarrow> elems (fold insert_bit is s) = set is \<union> elems s"
  by (induction "is" arbitrary: s) (auto simp: insert_bit)

lemma member_insert: "ok s \<Longrightarrow> member j (insert_bit i s) \<longleftrightarrow> j = i \<or> member j s"
  by (simp add: member insert_bit)

lemma member_remove: "ok s \<Longrightarrow> member j (remove_bit i s) \<longleftrightarrow> j \<noteq> i \<and> member j s"
  by (auto simp: member remove_bit)

lemma member_union: "ok s \<Longrightarrow> ok t \<Longrightarrow> member j (union s t) \<longleftrightarrow> member j s \<or> member j t"
  by (simp add: member union)

lemma member_list: "member j (fold insert_bit is empty) \<longleftrightarrow> j \<in> set is"
  using elems_fold[OF empty(1), of "is"] empty(2) ok_fold[OF empty(1), of "is"] by (simp add: member)

end

interpretation change_set: index_set bits bs_ok bs_new bs_is_set bs_set bs_clear_bit bs_or
  by unfold_locales (simp_all add: is_set_bits bits_set bits_clear_bit bits_or)

section \<open>Properties\<close>

text \<open>C14. The word level bit set implements finite sets of indices, for indices of any
  size: membership, insertion, removal, toggling, union and intersection are those of sets,
  the constructors give the sets they name, counting is cardinality, and enumeration lists
  the set in ascending order.\<close>

theorem bitset_refines_sets:
  assumes "bs_ok a" "bs_ok b"
  shows "(bs_is_set i a \<longleftrightarrow> i \<in> bits a) \<and>
    bits (bs_set i a) = insert i (bits a) \<and> bits (bs_clear_bit i a) = bits a - {i} \<and>
    bits (bs_toggle i a) = (if i \<in> bits a then bits a - {i} else insert i (bits a)) \<and>
    bits (bs_or a b) = bits a \<union> bits b \<and> bits (bs_and a b) = bits a \<inter> bits b \<and>
    bits (bs_all_set n) = {..<n} \<and> bits (bs_from_bits is) = set is \<and> bits (bs_clear_all a) = {} \<and>
    bs_count_set a = card (bits a) \<and> (bs_is_empty a \<longleftrightarrow> bits a = {}) \<and>
    bs_to_vec a = sorted_list_of_set (bits a)"
  using assms
  by (simp add: is_set_bits bits_set bits_clear_bit bits_toggle bits_or bits_and bits_all_set
      bits_from_bits count_set_card bits_empty to_vec_sorted)

theorem bitset_refines_sets_witness:
  "bs_is_set 200 (bs_set 200 (bs_set 3 bs_new)) \<and>
   \<not> bs_is_set 3 (bs_clear_bit 3 (bs_set 200 (bs_set 3 bs_new)))"
proof -
  have ok: "bs_ok (bs_set 200 (bs_set 3 bs_new))" "bs_ok (bs_clear_bit 3 (bs_set 200 (bs_set 3 bs_new)))"
    by (simp_all add: bits_set bits_clear_bit)
  show ?thesis
    using bitset_refines_sets[OF ok(1) ok(1), of 200] bitset_refines_sets[OF ok(2) ok(2), of 3]
    by (simp add: bits_set bits_clear_bit)
qed

text \<open>A bit set sent and received keeps its bits, with nothing of the following bytes
  consumed; the raw bytes never end in a zero byte.\<close>

theorem bitset_round_trip:
  assumes "bs_ok bs" "length (bs_raw bs) < 2 ^ 31"
  shows "\<exists>bs'. bs_decode (reader_new (written ord (bs_encode bs) @ tail) ord) =
      (Ok bs', advance (length (written ord (bs_encode bs)))
        (reader_new (written ord (bs_encode bs) @ tail) ord)) \<and>
    bits bs' = bits bs \<and> bs_ok bs' \<and> (bs_raw bs \<noteq> [] \<longrightarrow> last (bs_raw bs) \<noteq> 0)"
proof (intro exI conjI)
  show "bs_decode (reader_new (written ord (bs_encode bs) @ tail) ord) =
      (Ok (bs_received bs), advance (length (written ord (bs_encode bs)))
        (reader_new (written ord (bs_encode bs) @ tail) ord))"
    by (rule parsesD[OF parses_bitset[OF assms]]) (simp_all add: reader_new_def)
  show "bits (bs_received bs) = bits bs" "bs_ok (bs_received bs)"
    using bits_received[OF assms(1)] by auto
  show "bs_raw bs \<noteq> [] \<longrightarrow> last (bs_raw bs) \<noteq> 0"
    using raw_last[OF assms(1)] by blast
qed

theorem bitset_round_trip_witness:
  "\<exists>bs'. fst (bs_decode (reader_new (written LittleEndian (bs_encode (bs_set 8 bs_new))) LittleEndian)) = Ok bs' \<and>
    bits bs' = {8}"
proof -
  have ok: "bs_ok (bs_set 8 bs_new)" and b: "bits (bs_set 8 bs_new) = {8}"
    by (simp_all add: bits_set)
  have "length (bs_raw (bs_set 8 bs_new)) \<le> 16"
  proof -
    have "bs_last_word (bs_set 8 bs_new) \<le> 2"
      using last_word_bound(1)[OF ok]
      by (simp add: words_def bs_set_def bs_update_def bs_word_mask_def bs_new_def Let_def)
    then show ?thesis
      using bytes_in_last_ok(1)[OF ok] length_raw[OF ok] raw_Nil[of "bs_set 8 bs_new"]
      by (cases "bs_last_word (bs_set 8 bs_new) = 0") auto
  qed
  then show ?thesis
    using bitset_round_trip[OF ok, of LittleEndian "[]"] b by auto
qed

end
