(* ===== verification/Commands.thy ===== *)
theory Commands
  imports Prelude
begin

text \<open>
  Command codes and their names (\<open>aura-net/src/codec/commands.rs\<close>).
\<close>

definition CMD_BEACON :: byte where "CMD_BEACON = 0x00"
definition CMD_CONNECTION_VALIDATION :: byte where "CMD_CONNECTION_VALIDATION = 0x01"
definition CMD_ECHO :: byte where "CMD_ECHO = 0x02"
definition CMD_SEARCH :: byte where "CMD_SEARCH = 0x03"
definition CMD_SEARCH_RESPONSE :: byte where "CMD_SEARCH_RESPONSE = 0x04"
definition CMD_AUTHNZ :: byte where "CMD_AUTHNZ = 0x05"
definition CMD_ACL_CHANGE :: byte where "CMD_ACL_CHANGE = 0x06"
definition CMD_CREATE_CHANNEL :: byte where "CMD_CREATE_CHANNEL = 0x07"
definition CMD_DESTROY_CHANNEL :: byte where "CMD_DESTROY_CHANNEL = 0x08"
definition CMD_CONNECTION_VALIDATED :: byte where "CMD_CONNECTION_VALIDATED = 0x09"
definition CMD_GET :: byte where "CMD_GET = 0x0A"
definition CMD_PUT :: byte where "CMD_PUT = 0x0B"
definition CMD_PUT_GET :: byte where "CMD_PUT_GET = 0x0C"
definition CMD_MONITOR :: byte where "CMD_MONITOR = 0x0D"
definition CMD_ARRAY :: byte where "CMD_ARRAY = 0x0E"
definition CMD_DESTROY_REQUEST :: byte where "CMD_DESTROY_REQUEST = 0x0F"
definition CMD_PROCESS :: byte where "CMD_PROCESS = 0x10"
definition CMD_GET_FIELD :: byte where "CMD_GET_FIELD = 0x11"
definition CMD_MESSAGE :: byte where "CMD_MESSAGE = 0x12"
definition CMD_MULTIPLE_DATA :: byte where "CMD_MULTIPLE_DATA = 0x13"
definition CMD_RPC :: byte where "CMD_RPC = 0x14"
definition CMD_CANCEL_REQUEST :: byte where "CMD_CANCEL_REQUEST = 0x15"
definition CMD_ORIGIN_TAG :: byte where "CMD_ORIGIN_TAG = 0x16"

definition CTRL_MARK_TOTAL_SENT :: byte where "CTRL_MARK_TOTAL_SENT = 0x00"
definition CTRL_ACK_RECEIVED :: byte where "CTRL_ACK_RECEIVED = 0x01"
definition CTRL_SET_BYTE_ORDER :: byte where "CTRL_SET_BYTE_ORDER = 0x02"
definition CTRL_ECHO_REQUEST :: byte where "CTRL_ECHO_REQUEST = 0x03"
definition CTRL_ECHO_RESPONSE :: byte where "CTRL_ECHO_RESPONSE = 0x04"

definition MONITOR_INIT :: byte where "MONITOR_INIT = 0x08"
definition MONITOR_START :: byte where "MONITOR_START = 0x04"
definition MONITOR_STOP :: byte where "MONITOR_STOP = 0x02"
definition MONITOR_DESTROY :: byte where "MONITOR_DESTROY = 0x10"
definition MONITOR_PIPELINE :: byte where "MONITOR_PIPELINE = 0x80"

lemmas command_consts = CMD_BEACON_def CMD_CONNECTION_VALIDATION_def CMD_ECHO_def CMD_SEARCH_def
  CMD_SEARCH_RESPONSE_def CMD_AUTHNZ_def CMD_ACL_CHANGE_def CMD_CREATE_CHANNEL_def
  CMD_DESTROY_CHANNEL_def CMD_CONNECTION_VALIDATED_def CMD_GET_def CMD_PUT_def CMD_PUT_GET_def
  CMD_MONITOR_def CMD_ARRAY_def CMD_DESTROY_REQUEST_def CMD_PROCESS_def CMD_GET_FIELD_def
  CMD_MESSAGE_def CMD_MULTIPLE_DATA_def CMD_RPC_def CMD_CANCEL_REQUEST_def CMD_ORIGIN_TAG_def

lemmas ctrl_consts = CTRL_MARK_TOTAL_SENT_def CTRL_ACK_RECEIVED_def CTRL_SET_BYTE_ORDER_def
  CTRL_ECHO_REQUEST_def CTRL_ECHO_RESPONSE_def

lemmas monitor_consts = MONITOR_INIT_def MONITOR_START_def MONITOR_STOP_def MONITOR_DESTROY_def
  MONITOR_PIPELINE_def

definition ALL_APP_COMMANDS :: "byte list" where
  "ALL_APP_COMMANDS =
    [CMD_BEACON, CMD_CONNECTION_VALIDATION, CMD_ECHO, CMD_SEARCH, CMD_SEARCH_RESPONSE, CMD_AUTHNZ,
     CMD_ACL_CHANGE, CMD_CREATE_CHANNEL, CMD_DESTROY_CHANNEL, CMD_CONNECTION_VALIDATED, CMD_GET,
     CMD_PUT, CMD_PUT_GET, CMD_MONITOR, CMD_ARRAY, CMD_DESTROY_REQUEST, CMD_PROCESS, CMD_GET_FIELD,
     CMD_MESSAGE, CMD_MULTIPLE_DATA, CMD_RPC, CMD_CANCEL_REQUEST, CMD_ORIGIN_TAG]"

definition ALL_CTRL_COMMANDS :: "byte list" where
  "ALL_CTRL_COMMANDS = [CTRL_MARK_TOTAL_SENT, CTRL_ACK_RECEIVED, CTRL_SET_BYTE_ORDER,
     CTRL_ECHO_REQUEST, CTRL_ECHO_RESPONSE]"

definition ALL_MONITOR_SUBS :: "byte list" where
  "ALL_MONITOR_SUBS = [MONITOR_INIT, MONITOR_START, MONITOR_STOP, MONITOR_DESTROY, MONITOR_PIPELINE]"

definition app_command_names :: "(byte \<times> string) list" where
  "app_command_names =
    [(CMD_BEACON, ''BEACON''), (CMD_CONNECTION_VALIDATION, ''CONNECTION_VALIDATION''),
     (CMD_ECHO, ''ECHO''), (CMD_SEARCH, ''SEARCH''), (CMD_SEARCH_RESPONSE, ''SEARCH_RESPONSE''),
     (CMD_AUTHNZ, ''AUTHNZ''), (CMD_ACL_CHANGE, ''ACL_CHANGE''),
     (CMD_CREATE_CHANNEL, ''CREATE_CHANNEL''), (CMD_DESTROY_CHANNEL, ''DESTROY_CHANNEL''),
     (CMD_CONNECTION_VALIDATED, ''CONNECTION_VALIDATED''), (CMD_GET, ''GET''), (CMD_PUT, ''PUT''),
     (CMD_PUT_GET, ''PUT_GET''), (CMD_MONITOR, ''MONITOR''), (CMD_ARRAY, ''ARRAY''),
     (CMD_DESTROY_REQUEST, ''DESTROY_REQUEST''), (CMD_PROCESS, ''PROCESS''),
     (CMD_GET_FIELD, ''GET_FIELD''), (CMD_MESSAGE, ''MESSAGE''),
     (CMD_MULTIPLE_DATA, ''MULTIPLE_DATA''), (CMD_RPC, ''RPC''),
     (CMD_CANCEL_REQUEST, ''CANCEL_REQUEST''), (CMD_ORIGIN_TAG, ''ORIGIN_TAG'')]"

definition app_command_name :: "byte \<Rightarrow> string" where
  "app_command_name cmd = (case map_of app_command_names cmd of Some n \<Rightarrow> n | None \<Rightarrow> ''UNKNOWN'')"

definition ctrl_command_name :: "byte \<Rightarrow> string" where
  "ctrl_command_name cmd =
    (if cmd = CTRL_MARK_TOTAL_SENT then ''MARK_TOTAL_SENT''
     else if cmd = CTRL_ACK_RECEIVED then ''ACK_RECEIVED''
     else if cmd = CTRL_SET_BYTE_ORDER then ''SET_BYTE_ORDER''
     else if cmd = CTRL_ECHO_REQUEST then ''ECHO_REQUEST''
     else if cmd = CTRL_ECHO_RESPONSE then ''ECHO_RESPONSE''
     else ''UNKNOWN_CTRL'')"

definition is_known_app_command :: "byte \<Rightarrow> bool" where
  "is_known_app_command cmd = (cmd \<le> CMD_ORIGIN_TAG)"

definition is_known_ctrl_command :: "byte \<Rightarrow> bool" where
  "is_known_ctrl_command cmd = (cmd \<le> CTRL_ECHO_RESPONSE)"

definition monitor_sub_name :: "byte \<Rightarrow> string" where
  "monitor_sub_name sub =
    (if sub = MONITOR_INIT then ''INIT'' else if sub = MONITOR_START then ''START''
     else if sub = MONITOR_STOP then ''STOP'' else if sub = MONITOR_DESTROY then ''DESTROY''
     else if sub = MONITOR_PIPELINE then ''PIPELINE'' else ''UNKNOWN_SUB'')"

definition is_known_monitor_sub :: "byte \<Rightarrow> bool" where
  "is_known_monitor_sub sub = (sub \<in> set ALL_MONITOR_SUBS)"

lemma le_numeral_cases: "n \<le> (22 :: nat) \<Longrightarrow> n \<in> {0,1,2,3,4,5,6,7,8,9,10,11,12,13,14,15,16,17,18,19,20,21,22}"
  by (simp, presburger)

text \<open>The range tests and the tables of all commands describe the same sets, and every known
  command has a name of its own.\<close>

lemma known_app_commands: "is_known_app_command cmd \<longleftrightarrow> cmd \<in> set ALL_APP_COMMANDS"
proof
  assume "is_known_app_command cmd"
  then have "unat cmd \<le> 22"
    by (simp add: is_known_app_command_def CMD_ORIGIN_TAG_def word_le_nat_alt)
  from le_numeral_cases[OF this] show "cmd \<in> set ALL_APP_COMMANDS"
    by (simp add: ALL_APP_COMMANDS_def command_consts word_unat_eq_iff)
next
  assume "cmd \<in> set ALL_APP_COMMANDS"
  then show "is_known_app_command cmd"
    by (auto simp: ALL_APP_COMMANDS_def command_consts is_known_app_command_def)
qed

lemma known_ctrl_commands: "is_known_ctrl_command cmd \<longleftrightarrow> cmd \<in> set ALL_CTRL_COMMANDS"
proof
  assume "is_known_ctrl_command cmd"
  then have "unat cmd \<le> 4"
    by (simp add: is_known_ctrl_command_def CTRL_ECHO_RESPONSE_def word_le_nat_alt)
  then have "unat cmd \<in> {0, 1, 2, 3, 4}"
    by (simp, presburger)
  then show "cmd \<in> set ALL_CTRL_COMMANDS"
    by (simp add: ALL_CTRL_COMMANDS_def ctrl_consts word_unat_eq_iff)
next
  assume "cmd \<in> set ALL_CTRL_COMMANDS"
  then show "is_known_ctrl_command cmd"
    by (auto simp: ALL_CTRL_COMMANDS_def ctrl_consts is_known_ctrl_command_def)
qed

end
