(* ===== verification/Messages.thy ===== *)
theory Messages
  imports PvData Commands
begin

text \<open>
  The messages of the TCP dialogue: status (\<open>messages/status.rs\<close>), connection validation
  (\<open>messages/connection.rs\<close>), channel creation and destruction (\<open>messages/channel.rs\<close>)
  and monitor requests (\<open>messages/monitor.rs\<close>).  Each message is a record, its \<open>encode\<close>
  the sequence of writes of the source, its \<open>decode\<close> the sequence of reads; each pair is
  an instance of the contract \<open>wire_codec\<close> for the values named by its \<open>_ok\<close>
  predicate, or its round trip is stated with what the decoder leaves unread.
\<close>

section \<open>Status\<close>

datatype StatusType = StatusOk | StatusWarning | StatusError | StatusFatal

definition status_from_code :: "byte \<Rightarrow> StatusType option" where
  "status_from_code code =
    (if code AND 7 = 0 then Some StatusOk else if code AND 7 = 1 then Some StatusWarning
     else if code AND 7 = 2 then Some StatusError else if code AND 7 = 3 then Some StatusFatal
     else None)"

fun status_to_code :: "StatusType \<Rightarrow> byte" where
  "status_to_code StatusOk = 0"
| "status_to_code StatusWarning = 1"
| "status_to_code StatusError = 2"
| "status_to_code StatusFatal = 3"

fun status_type_is_error :: "StatusType \<Rightarrow> bool" where
  "status_type_is_error StatusError = True"
| "status_type_is_error StatusFatal = True"
| "status_type_is_error _ = False"

fun status_type_is_success :: "StatusType \<Rightarrow> bool" where
  "status_type_is_success StatusOk = True"
| "status_type_is_success StatusWarning = True"
| "status_type_is_success _ = False"

fun status_type_display :: "StatusType \<Rightarrow> string" where
  "status_type_display StatusOk = ''OK''"
| "status_type_display StatusWarning = ''WARNING''"
| "status_type_display StatusError = ''ERROR''"
| "status_type_display StatusFatal = ''FATAL''"

definition STATUS_OK_CODE :: byte where "STATUS_OK_CODE = 0xFF"
definition HAS_CALL_TREE_BIT :: byte where "HAS_CALL_TREE_BIT = 0x08"

record pva_status =
  st_type :: StatusType
  st_message :: rstring
  st_call_tree :: "rstring option"

definition status_ok :: pva_status where
  "status_ok = \<lparr> st_type = StatusOk, st_message = [], st_call_tree = None \<rparr>"

definition status_warning :: "rstring \<Rightarrow> pva_status" where
  "status_warning msg = \<lparr> st_type = StatusWarning, st_message = msg, st_call_tree = None \<rparr>"

definition status_error :: "rstring \<Rightarrow> pva_status" where
  "status_error msg = \<lparr> st_type = StatusError, st_message = msg, st_call_tree = None \<rparr>"

definition status_fatal :: "rstring \<Rightarrow> pva_status" where
  "status_fatal msg = \<lparr> st_type = StatusFatal, st_message = msg, st_call_tree = None \<rparr>"

definition with_call_tree :: "rstring \<Rightarrow> pva_status \<Rightarrow> pva_status" where
  "with_call_tree tree s = s \<lparr> st_call_tree := Some tree \<rparr>"

definition status_is_success :: "pva_status \<Rightarrow> bool" where
  "status_is_success s = status_type_is_success (st_type s)"

definition status_is_error :: "pva_status \<Rightarrow> bool" where
  "status_is_error s = status_type_is_error (st_type s)"

definition status_is_ok :: "pva_status \<Rightarrow> bool" where
  "status_is_ok s = (st_type s = StatusOk \<and> st_message s = [])"

definition status_decode :: "pva_status rd" where
  "status_decode = rd_bind read_u8 (\<lambda>code.
     if code = STATUS_OK_CODE then rd_return status_ok
     else case status_from_code code of
       None \<Rightarrow> rd_fail (DeProtocol (ascii ''unknown status type: '' @ show_hex2 code))
     | Some ty \<Rightarrow>
         rd_bind read_string (\<lambda>message.
         rd_bind (if code AND HAS_CALL_TREE_BIT \<noteq> 0
                  then rd_bind read_string (\<lambda>t. rd_return (Some t)) else rd_return None) (\<lambda>tree.
         rd_return \<lparr> st_type = ty, st_message = message, st_call_tree = tree \<rparr>)))"

definition status_code :: "pva_status \<Rightarrow> byte" where
  "status_code s = (case st_call_tree s of
     Some _ \<Rightarrow> status_to_code (st_type s) OR HAS_CALL_TREE_BIT
   | None \<Rightarrow> status_to_code (st_type s))"

definition status_encode :: "pva_status \<Rightarrow> wr" where
  "status_encode s =
    (if status_is_ok s then write_u8 STATUS_OK_CODE
     else wr_seq
       [write_u8 (status_code s),
        write_string (st_message s),
        wr_for write_string (case st_call_tree s of Some tree \<Rightarrow> [tree] | None \<Rightarrow> [])])"

definition status_wire_size :: "pva_status \<Rightarrow> nat" where
  "status_wire_size s =
    (if status_is_ok s then 1
     else 1 + 1 + length (st_message s) +
       (case st_call_tree s of Some t \<Rightarrow> 1 + length t | None \<Rightarrow> 0))"

text \<open>An OK status without a message loses its call tree on the wire.\<close>

definition status_valid :: "pva_status \<Rightarrow> bool" where
  "status_valid s \<longleftrightarrow> string_ok (st_message s) \<and> (\<forall>t \<in> set_option (st_call_tree s). string_ok t) \<and>
     (status_is_ok s \<longrightarrow> st_call_tree s = None)"

lemma appends_status [simp, intro]: "appends (status_encode s)"
  by (auto simp: status_encode_def)

lemma status_code_props:
  "status_code s \<noteq> STATUS_OK_CODE" "status_from_code (status_code s) = Some (st_type s)"
  "status_code s AND HAS_CALL_TREE_BIT \<noteq> 0 \<longleftrightarrow> st_call_tree s \<noteq> None"
  by (cases "st_type s"; cases "st_call_tree s";
      simp add: status_code_def STATUS_OK_CODE_def HAS_CALL_TREE_BIT_def status_from_code_def)+

lemma parses_status:
  assumes "status_valid s"
  shows "parses ord status_decode (written ord (status_encode s)) s"
proof (cases "status_is_ok s")
  case True
  then have "s = status_ok"
    using assms by (simp add: status_ok_def status_valid_def status_is_ok_def)
  with True show ?thesis
    unfolding status_decode_def
    by (auto simp: status_encode_def wr_simps intro!: parses_bindI[OF parses_u8] parses_return)
next
  case False
  have t: "parses ord (if status_code s AND HAS_CALL_TREE_BIT \<noteq> 0
      then rd_bind read_string (\<lambda>t. rd_return (Some t)) else rd_return None)
      (written ord (wr_for write_string (case st_call_tree s of Some tree \<Rightarrow> [tree] | None \<Rightarrow> [])))
      (st_call_tree s)"
    using assms status_code_props(3)[of s]
    by (auto simp: status_valid_def written_for wr_simps rd_simps parses_return
        split: option.splits intro!: parses_map)
  have "parses ord (rd_bind read_string (\<lambda>message.
         rd_bind (if status_code s AND HAS_CALL_TREE_BIT \<noteq> 0
                  then rd_bind read_string (\<lambda>t. rd_return (Some t)) else rd_return None) (\<lambda>tree.
         rd_return \<lparr> st_type = st_type s, st_message = message, st_call_tree = tree \<rparr>)))
      (written ord (write_string (st_message s)) @
      written ord (wr_for write_string (case st_call_tree s of Some tree \<Rightarrow> [tree] | None \<Rightarrow> [])) @ []) s"
    by (intro parses_bind[OF parses_written(9)] parses_bind[OF t] parses_final)
      (use assms in \<open>auto simp: status_valid_def\<close>)
  then have "parses ord status_decode (written ord (write_u8 (status_code s)) @
      written ord (write_string (st_message s)) @
      written ord (wr_for write_string (case st_call_tree s of Some tree \<Rightarrow> [tree] | None \<Rightarrow> [])) @ []) s"
    unfolding status_decode_def using status_code_props[of s]
    by (intro parses_bind[OF parses_written(1)]) simp
  then show ?thesis
    using False by (simp add: status_encode_def written_seq)
qed

interpretation status: wire_codec status_encode status_decode status_valid
  by unfold_locales (auto intro: parses_status)

section \<open>Connection validation\<close>

record conn_validation =
  cv_buffer_size :: "32 word"
  cv_registry_size :: "16 word"
  cv_auth_methods :: "rstring list"

definition cv_decode :: "conn_validation rd" where
  "cv_decode =
     rd_bind read_i32 (\<lambda>bufsz.
     rd_bind read_i16 (\<lambda>regsz.
     rd_bind read_size_non_null (\<lambda>count.
     rd_bind (rd_repeat count read_string) (\<lambda>methods.
     rd_return \<lparr> cv_buffer_size = bufsz, cv_registry_size = regsz, cv_auth_methods = methods \<rparr>))))"

definition cv_encode :: "conn_validation \<Rightarrow> wr" where
  "cv_encode m = wr_seq
     [write_i32 (cv_buffer_size m),
      write_i16 (cv_registry_size m),
      write_size (length (cv_auth_methods m)),
      wr_for write_string (cv_auth_methods m)]"

definition cv_supports :: "conn_validation \<Rightarrow> rstring \<Rightarrow> bool" where
  "cv_supports m meth = list_ex (\<lambda>a. a = meth) (cv_auth_methods m)"

definition cv_supports_anonymous :: "conn_validation \<Rightarrow> bool" where
  "cv_supports_anonymous m = list_ex (\<lambda>a. a = ascii ''anonymous'') (cv_auth_methods m)"

record conn_validated =
  cvd_buffer_size :: "32 word"
  cvd_registry_size :: "16 word"
  cvd_qos :: "16 word"
  cvd_auth_method :: rstring

definition validated_anonymous :: "32 word \<Rightarrow> 16 word \<Rightarrow> conn_validated" where
  "validated_anonymous bufsz regsz =
     \<lparr> cvd_buffer_size = bufsz, cvd_registry_size = regsz, cvd_qos = 0, cvd_auth_method = ascii ''anonymous'' \<rparr>"

definition validated_decode :: "conn_validated rd" where
  "validated_decode =
     rd_bind read_i32 (\<lambda>bufsz.
     rd_bind read_i16 (\<lambda>regsz.
     rd_bind read_u16 (\<lambda>qos.
     rd_bind read_string (\<lambda>auth.
     rd_return \<lparr> cvd_buffer_size = bufsz, cvd_registry_size = regsz, cvd_qos = qos, cvd_auth_method = auth \<rparr>))))"

definition validated_encode :: "conn_validated \<Rightarrow> wr" where
  "validated_encode m = wr_seq
     [write_i32 (cvd_buffer_size m),
      write_i16 (cvd_registry_size m),
      write_u16 (cvd_qos m),
      write_string (cvd_auth_method m),
      write_u8 0xFF]"

interpretation validation: wire_codec cv_encode cv_decode
  "\<lambda>m. length (cv_auth_methods m) < 2 ^ 31 \<and> (\<forall>a \<in> set (cv_auth_methods m). string_ok a)"
proof (unfold_locales, goal_cases)
  case (1 v)
  show ?case
    by (auto simp: cv_encode_def)
next
  case (2 m ord)
  show ?case
    unfolding cv_decode_def cv_encode_def
    by (rule parses_steps rd_intros | (use 2 in simp; fail))+
qed

text \<open>The encoder of \<open>ConnectionValidated\<close> appends one byte (the null authentication data)
  that the decoder does not read.\<close>

lemma parses_validated:
  assumes "string_ok (cvd_auth_method m)"
  shows "written ord (validated_encode m) = take (length (written ord (validated_encode m)) - 1)
      (written ord (validated_encode m)) @ [0xFF]"
    and "parses ord validated_decode
      (take (length (written ord (validated_encode m)) - 1) (written ord (validated_encode m))) m"
proof -
  let ?body = "written ord (write_i32 (cvd_buffer_size m)) @ written ord (write_i16 (cvd_registry_size m)) @
     written ord (write_u16 (cvd_qos m)) @ written ord (write_string (cvd_auth_method m)) @ []"
  have w: "written ord (validated_encode m) = ?body @ [0xFF]"
    by (simp add: validated_encode_def written_seq wr_simps)
  then have t: "take (length (written ord (validated_encode m)) - 1) (written ord (validated_encode m)) = ?body"
    by simp
  then show "written ord (validated_encode m) = take (length (written ord (validated_encode m)) - 1)
      (written ord (validated_encode m)) @ [0xFF]"
    using w by simp
  show "parses ord validated_decode
      (take (length (written ord (validated_encode m)) - 1) (written ord (validated_encode m))) m"
    unfolding t validated_decode_def
    by (rule parses_bind rd_intros | (simp add: assms; fail))+
qed

section \<open>Channels\<close>

type_synonym create_channel_request = "(32 word \<times> rstring) list"

definition create_channel_single :: "32 word \<Rightarrow> rstring \<Rightarrow> create_channel_request" where
  "create_channel_single cid name = [(cid, name)]"

definition create_channel_multi :: "(32 word \<times> rstring) list \<Rightarrow> create_channel_request" where
  "create_channel_multi channels = channels"

definition read_channel :: "(32 word \<times> rstring) rd" where
  "read_channel = rd_bind read_i32 (\<lambda>cid. rd_bind read_string (\<lambda>name. rd_return (cid, name)))"

definition write_channel :: "32 word \<times> rstring \<Rightarrow> wr" where
  "write_channel ch = wr_seq [write_i32 (fst ch), write_string (snd ch)]"

definition create_request_decode :: "create_channel_request rd" where
  "create_request_decode = rd_bind read_u16 (\<lambda>count. rd_repeat (unat count) read_channel)"

definition create_request_encode :: "create_channel_request \<Rightarrow> wr" where
  "create_request_encode channels = wr_seq
     [write_u16 (of_nat (length channels)), wr_for write_channel channels]"

record create_channel_response =
  cr_client_id :: "32 word"
  cr_server_id :: "32 word"
  cr_status :: pva_status

definition cr_is_success :: "create_channel_response \<Rightarrow> bool" where
  "cr_is_success m = status_is_success (cr_status m)"

definition cr_decode :: "create_channel_response rd" where
  "cr_decode = rd_bind read_i32 (\<lambda>cid. rd_bind read_i32 (\<lambda>sid. rd_bind status_decode (\<lambda>status.
     rd_return \<lparr> cr_client_id = cid, cr_server_id = sid, cr_status = status \<rparr>)))"

definition cr_encode :: "create_channel_response \<Rightarrow> wr" where
  "cr_encode m = wr_seq [write_i32 (cr_client_id m), write_i32 (cr_server_id m),
     status_encode (cr_status m)]"

record destroy_channel =
  dc_client_id :: "32 word"
  dc_server_id :: "32 word"

definition dc_decode :: "destroy_channel rd" where
  "dc_decode = rd_bind read_i32 (\<lambda>cid. rd_bind read_i32 (\<lambda>sid.
     rd_return \<lparr> dc_client_id = cid, dc_server_id = sid \<rparr>))"

definition dc_encode :: "destroy_channel \<Rightarrow> wr" where
  "dc_encode m = wr_seq [write_i32 (dc_client_id m), write_i32 (dc_server_id m)]"

lemma appends_channel [simp, intro]: "appends (write_channel ch)"
  by (auto simp: write_channel_def)

lemma parses_channel [rd_intros]:
  assumes "string_ok (snd ch)"
  shows "parses ord read_channel (written ord (write_channel ch)) ch"
  unfolding read_channel_def write_channel_def
  by (rule parses_steps rd_intros | (use assms in simp; fail))+

text \<open>The count of the channels travels as a \<open>u16\<close>: longer vectors are outside the contract.\<close>

interpretation create_request: wire_codec create_request_encode create_request_decode
  "\<lambda>chs. length chs < 2 ^ 16 \<and> (\<forall>ch \<in> set chs. string_ok (snd ch))"
proof (unfold_locales, goal_cases)
  case (1 v)
  show ?case
    by (auto simp: create_request_encode_def)
next
  case (2 chs ord)
  have n: "unat (of_nat (length chs) :: 16 word) = length chs"
    using 2 by (simp add: unat_of_nat)
  have "parses ord (rd_repeat (length chs) read_channel) (written ord (wr_for write_channel chs)) chs"
    using 2 by (intro parses_for_size parses_channel) auto
  then show ?case
    unfolding create_request_decode_def create_request_encode_def
    by (intro parses_wr[OF parses_written(3)] parses_wr_last) (simp_all add: n)
qed

interpretation create_response: wire_codec cr_encode cr_decode "\<lambda>m. status_valid (cr_status m)"
proof (unfold_locales, goal_cases)
  case (1 m)
  show ?case
    by (auto simp: cr_encode_def)
next
  case (2 m ord)
  show ?case
    unfolding cr_decode_def cr_encode_def
    by (rule parses_steps rd_intros parses_status | (use 2 in simp; fail))+
qed

interpretation destroy: wire_codec dc_encode dc_decode "\<lambda>_. True"
proof (unfold_locales, goal_cases)
  case (1 m)
  show ?case
    by (auto simp: dc_encode_def)
next
  case (2 m ord)
  show ?case
    unfolding dc_decode_def dc_encode_def
    by (rule parses_steps rd_intros | (simp; fail))+
qed

section \<open>Monitor requests\<close>

datatype MonitorSubCommand =
    McInit
  | McStart
  | McStartPipeline
  | McStop
  | McDestroy
  | McPipeline "32 word"

definition sub_from_u8 :: "byte \<Rightarrow> MonitorSubCommand option" where
  "sub_from_u8 v =
    (if v = MONITOR_INIT then Some McInit
     else if v = MONITOR_START then Some McStart
     else if v = 0x44 then Some McStartPipeline
     else if v = MONITOR_STOP then Some McStop
     else if v = MONITOR_DESTROY then Some McDestroy
     else if v AND MONITOR_PIPELINE \<noteq> 0 then Some (McPipeline 0)
     else None)"

fun sub_to_u8 :: "MonitorSubCommand \<Rightarrow> byte" where
  "sub_to_u8 McInit = MONITOR_INIT"
| "sub_to_u8 McStart = MONITOR_START"
| "sub_to_u8 McStartPipeline = 0x44"
| "sub_to_u8 McStop = MONITOR_STOP"
| "sub_to_u8 McDestroy = MONITOR_DESTROY"
| "sub_to_u8 (McPipeline _) = MONITOR_PIPELINE"

fun sub_is_init :: "MonitorSubCommand \<Rightarrow> bool" where
  "sub_is_init McInit = True"
| "sub_is_init _ = False"

fun sub_is_pipeline :: "MonitorSubCommand \<Rightarrow> bool" where
  "sub_is_pipeline (McPipeline _) = True"
| "sub_is_pipeline _ = False"

fun sub_display :: "MonitorSubCommand \<Rightarrow> rstring" where
  "sub_display McInit = ascii ''INIT''"
| "sub_display McStart = ascii ''START''"
| "sub_display McStartPipeline = ascii ''START+PIPELINE''"
| "sub_display McStop = ascii ''STOP''"
| "sub_display McDestroy = ascii ''DESTROY''"
| "sub_display (McPipeline n) = ascii ''PIPELINE('' @ show_int (sint n) @ ascii '')''"

record monitor_request =
  mr_server_channel_id :: "32 word"
  mr_request_id :: "32 word"
  mr_sub :: MonitorSubCommand

definition monitor_req :: "32 word \<Rightarrow> 32 word \<Rightarrow> MonitorSubCommand \<Rightarrow> monitor_request" where
  "monitor_req sid rid sub =
     \<lparr> mr_server_channel_id = sid, mr_request_id = rid, mr_sub = sub \<rparr>"

definition mr_init where "mr_init sid rid = monitor_req sid rid McInit"
definition mr_start where "mr_start sid rid = monitor_req sid rid McStart"
definition mr_start_pipeline where "mr_start_pipeline sid rid = monitor_req sid rid McStartPipeline"
definition mr_stop where "mr_stop sid rid = monitor_req sid rid McStop"
definition mr_destroy where "mr_destroy sid rid = monitor_req sid rid McDestroy"
definition mr_pipeline where "mr_pipeline sid rid credits = monitor_req sid rid (McPipeline credits)"

definition mr_decode :: "monitor_request rd" where
  "mr_decode =
     rd_bind read_i32 (\<lambda>sid.
     rd_bind read_i32 (\<lambda>rid.
     rd_bind read_u8 (\<lambda>b.
     case sub_from_u8 b of
       None \<Rightarrow> rd_fail (DeProtocol (ascii ''unknown monitor sub: '' @ show_hex2 b))
     | Some sub \<Rightarrow>
         if sub_is_pipeline sub
         then rd_bind read_i32 (\<lambda>credits. rd_return (monitor_req sid rid (McPipeline credits)))
         else rd_return (monitor_req sid rid sub))))"

text \<open>What follows the sub-command byte: a fixed request structure, the credits, or nothing.\<close>

fun sub_body :: "MonitorSubCommand \<Rightarrow> wr" where
  "sub_body McInit = write_raw [0xFD, 0x02, 0x00, 0x80, 0x00, 0x00]"
| "sub_body (McPipeline credits) = write_i32 credits"
| "sub_body _ = wr_seq []"

definition mr_encode :: "monitor_request \<Rightarrow> wr" where
  "mr_encode m = wr_seq
     [write_i32 (mr_server_channel_id m),
      write_i32 (mr_request_id m),
      write_u8 (sub_to_u8 (mr_sub m)),
      sub_body (mr_sub m)]"

record monitor_response =
  mh_request_id :: "32 word"
  mh_sub_command :: byte

definition mh_decode :: "monitor_response rd" where
  "mh_decode = rd_bind read_i32 (\<lambda>rid. rd_bind read_u8 (\<lambda>sub.
     rd_return \<lparr> mh_request_id = rid, mh_sub_command = sub \<rparr>))"

definition mh_encode :: "monitor_response \<Rightarrow> wr" where
  "mh_encode m = wr_seq [write_i32 (mh_request_id m), write_u8 (mh_sub_command m)]"

definition mh_is_init :: "monitor_response \<Rightarrow> bool" where
  "mh_is_init m = (mh_sub_command m AND MONITOR_INIT \<noteq> 0)"

lemma appends_sub_body [simp, intro]: "appends (sub_body sub)"
  by (cases sub) (auto intro: appends_seq)

text \<open>The bytes of the request the decoder of the same type reads: all but the pvRequest
  structure of an \<open>Init\<close>.\<close>

definition sub_unread :: "MonitorSubCommand \<Rightarrow> bytes" where
  "sub_unread sub = (if sub = McInit then [0xFD, 0x02, 0x00, 0x80, 0x00, 0x00] else [])"

lemma sub_from_to:
  "sub_from_u8 (sub_to_u8 sub) = Some (case sub of McPipeline _ \<Rightarrow> McPipeline 0 | s \<Rightarrow> s)"
  by (cases sub) (simp_all add: sub_from_u8_def monitor_consts)

lemma parses_monitor_request:
  "\<exists>bs. written ord (mr_encode m) = bs @ sub_unread (mr_sub m) \<and> parses ord mr_decode bs m"
proof -
  let ?sub = "case mr_sub m of McPipeline _ \<Rightarrow> McPipeline 0 | s \<Rightarrow> s"
  let ?tail = "written ord (case mr_sub m of McPipeline c \<Rightarrow> write_i32 c | _ \<Rightarrow> wr_seq [])"
  let ?bs = "written ord (write_i32 (mr_server_channel_id m)) @ written ord (write_i32 (mr_request_id m)) @
    written ord (write_u8 (sub_to_u8 (mr_sub m))) @ ?tail"
  have "parses ord (if sub_is_pipeline ?sub
      then rd_bind read_i32 (\<lambda>credits. rd_return
        (monitor_req (mr_server_channel_id m) (mr_request_id m) (McPipeline credits)))
      else rd_return (monitor_req (mr_server_channel_id m) (mr_request_id m) ?sub)) ?tail m"
    by (cases m; cases "mr_sub m")
      (simp_all add: monitor_req_def written_seq parses_map[OF parses_written(4)] parses_return)
  then have p: "parses ord mr_decode ?bs m"
    unfolding mr_decode_def
    by (intro parses_bind[OF parses_written(4)] parses_bind[OF parses_written(1)])
      (simp add: sub_from_to)
  have "written ord (mr_encode m) = ?bs @ sub_unread (mr_sub m)"
    by (cases "mr_sub m") (simp_all add: mr_encode_def written_seq wr_simps sub_unread_def)
  with p show ?thesis
    by blast
qed

interpretation monitor_header: wire_codec mh_encode mh_decode "\<lambda>_. True"
proof (unfold_locales, goal_cases)
  case (1 m)
  show ?case
    by (auto simp: mh_encode_def)
next
  case (2 m ord)
  show ?case
    unfolding mh_decode_def mh_encode_def
    by (rule parses_steps rd_intros | (simp; fail))+
qed

text \<open>C34. Every message of the TCP dialogue with a full decoder is read back from its own
  encoding, in either byte order and followed by any bytes: status, connection validation,
  channel requests and responses, channel destruction and monitor headers.  The bounds are
  the ones of the wire: strings are UTF-8 and shorter than \<open>2^31\<close> bytes, the channels of a
  request number less than \<open>2^16\<close>, and an OK status without message carries no call tree.\<close>

theorem messages_round_trip:
  "status_valid st \<Longrightarrow> length (cv_auth_methods cv) < 2 ^ 31 \<Longrightarrow>
   \<forall>a \<in> set (cv_auth_methods cv). string_ok a \<Longrightarrow>
   length chs < 2 ^ 16 \<Longrightarrow> \<forall>ch \<in> set chs. string_ok (snd ch) \<Longrightarrow> status_valid (cr_status cr) \<Longrightarrow>
   parses ord status_decode (written ord (status_encode st)) st \<and>
   parses ord cv_decode (written ord (cv_encode cv)) cv \<and>
   parses ord create_request_decode (written ord (create_request_encode chs)) chs \<and>
   parses ord cr_decode (written ord (cr_encode cr)) cr \<and>
   parses ord dc_decode (written ord (dc_encode dc)) dc \<and>
   parses ord mh_decode (written ord (mh_encode mh)) mh"
  using status.round_trip validation.round_trip create_request.round_trip
    create_response.round_trip destroy.round_trip monitor_header.round_trip
  by blast

theorem messages_round_trip_witness:
  "parses BigEndian status_decode
     (written BigEndian (status_encode (with_call_tree [65] (status_error [66]))))
     (with_call_tree [65] (status_error [66]))"
  using messages_round_trip[where st = "with_call_tree [65] (status_error [66])"
      and cv = "\<lparr> cv_buffer_size = 1, cv_registry_size = 2, cv_auth_methods = [[65]] \<rparr>"
      and chs = "[(1, [65])]" and ord = BigEndian
      and cr = "\<lparr> cr_client_id = 1, cr_server_id = 2, cr_status = status_ok \<rparr>"]
  by (simp add: status_valid_def status_error_def with_call_tree_def status_is_ok_def
      string_ok_def status_ok_def)

text \<open>Every monitor request is read back from the front of its encoding; what is left
  is nothing, except for \<open>Init\<close>, whose six bytes of pvRequest the decoder of the same type
  leaves unread.\<close>

theorem monitor_request_prefix:
  "\<exists>bs. written ord (mr_encode m) = bs @ sub_unread (mr_sub m) \<and>
     mr_decode (reader_new (written ord (mr_encode m)) ord) =
       (Ok m, advance (length bs) (reader_new (written ord (mr_encode m)) ord))"
proof -
  obtain bs where "written ord (mr_encode m) = bs @ sub_unread (mr_sub m)" "parses ord mr_decode bs m"
    using parses_monitor_request by blast
  then show ?thesis
    by (intro exI[of _ bs]) (auto simp: reader_new_def intro!: parsesD)
qed

end
