(* ===== verification/Delta.thy ===== *)
theory Delta
  imports PvaVal BitSet Messages
begin

text \<open>
  Monitor updates (\<open>aura-net/src/runtime/session.rs\<close>): the generic decoder of a delta, which
  walks the description and reads the members whose bit is set, the three pre-computed
  layouts with their direct decoders, and the handler of an update, which picks one of
  them.  Events and subscription state are those of \<open>monitor/subscription.rs\<close>.
\<close>

section \<open>The generic delta decoder\<close>

text \<open>\<open>flat_idx\<close> is passed in and returned; after an error its value is not used.\<close>

fun skip_flat_indices :: "FieldDesc \<Rightarrow> nat \<Rightarrow> nat" and skip_members :: "NamedField list \<Rightarrow> nat \<Rightarrow> nat" where
  "skip_flat_indices (FieldDesc ft tid fs) i =
    (if ft \<in> {FtStructure, FtStructureArray, FtUnion, FtUnionArray} then skip_members fs (i + 1)
     else i + 1)"
| "skip_members [] i = i"
| "skip_members (f # fs) i = skip_members fs (skip_flat_indices (snd f) i)"

definition read_if :: "bool \<Rightarrow> PvaValue rd \<Rightarrow> nat \<Rightarrow> (PvaValue \<times> nat) rd" where
  "read_if c m i = (if c then rd_bind m (\<lambda>v. rd_return (v, i + 1)) else rd_return (PvNull, i + 1))"

fun decode_delta :: "FieldDesc \<Rightarrow> pva_bitset \<Rightarrow> nat \<Rightarrow> (PvaValue \<times> nat) rd"
  and delta_members :: "NamedField list \<Rightarrow> pva_bitset \<Rightarrow> nat \<Rightarrow> ((rstring \<times> PvaValue) list \<times> nat) rd" where
  "decode_delta (FieldDesc ft tid fs) changed i =
    (case ft of
       FtScalar st \<Rightarrow>
         read_if (bs_is_set i changed) (rd_bind (decode_scalar st) (\<lambda>v. rd_return (PvScalar v))) i
     | FtScalarArray st \<Rightarrow> read_if (bs_is_set i changed) (decode_scalar_array st) i
     | FtBoundedString _ \<Rightarrow>
         read_if (bs_is_set i changed)
           (rd_bind read_string (\<lambda>s. rd_return (PvScalar (SvString s)))) i
     | FtVariantUnion \<Rightarrow> read_if (bs_is_set i changed) (rd_bind read_u8 (\<lambda>_. rd_return PvNull)) i
     | FtVariantUnionArray \<Rightarrow> read_if (bs_is_set i changed) (rd_bind read_u8 (\<lambda>_. rd_return PvNull)) i
     | _ \<Rightarrow>
        (if ft = FtStructure \<or> ft = FtStructureArray then
           (if list_ex (\<lambda>k. bs_is_set k changed) [i..<i + flat_field_count (FieldDesc ft tid fs)]
            then rd_bind (delta_members fs changed (i + 1)) (\<lambda>(vs, j). rd_return (PvStructure vs, j))
            else rd_return (PvNull, skip_members fs (i + 1)))
         else
           read_if (bs_is_set i changed)
             (rd_bind read_i32 (\<lambda>selector.
                if selector <s 0 \<or> unat selector \<ge> length fs then rd_return PvNull
                else decode_member fs (unat selector))) i))"
| "delta_members [] changed i = rd_return ([], i)"
| "delta_members (f # fs) changed i = rd_bind (decode_delta (snd f) changed i) (\<lambda>(v, j).
     rd_bind (delta_members fs changed j) (\<lambda>(vs, k). rd_return ((fst f, v) # vs, k)))"

section \<open>Layouts\<close>

text \<open>The bits of the alarm and time stamp members, shared by the three layouts.\<close>

record at_layout =
  la_severity_bit :: byte
  la_status_bit :: byte
  la_message_bit :: byte
  la_seconds_bit :: byte
  la_nanos_bit :: byte
  la_user_tag_bit :: byte
  la_max_known_bit :: byte

record fast_scalar_layout = at_layout +
  fs_value_bit :: byte
  fs_value_type :: ScalarType

record fast_array_layout = at_layout +
  fa_value_bit :: byte
  fa_element_type :: ScalarType

record fast_enum_layout = at_layout +
  fe_value_struct_bit :: byte
  fe_index_bit :: byte
  fe_choices_bit :: byte

definition members_of :: "FieldDesc \<Rightarrow> nat \<Rightarrow> NamedField list" where
  "members_of d k = fd_fields (snd (fd_fields d ! k))"

text \<open>The end of every \<open>detect\<close>: the alarm and time stamp from bit \<open>idx\<close> on.\<close>

definition detect_alarm_time :: "FieldDesc \<Rightarrow> byte \<Rightarrow> at_layout option" where
  "detect_alarm_time d idx =
    (if length (members_of d 1) < 3 then None
     else
       let severity = idx + 1; status = severity + 1; message = status + 1 in
       if length (members_of d 2) < 3 then None
       else
         let seconds = message + 1 + 1; nanos = seconds + 1; user_tag = nanos + 1 in
         Some \<lparr> la_severity_bit = severity, la_status_bit = status, la_message_bit = message,
           la_seconds_bit = seconds, la_nanos_bit = nanos, la_user_tag_bit = user_tag,
           la_max_known_bit = user_tag + 1 - 1 \<rparr>)"

definition fast_scalar_detect :: "FieldDesc \<Rightarrow> fast_scalar_layout option" where
  "fast_scalar_detect d =
    (if take (length (ascii ''epics:nt/NTScalar'')) (fd_type_id d) \<noteq> ascii ''epics:nt/NTScalar''
     then None
     else if length (fd_fields d) < 3 then None
     else
       case fd_type (snd (fd_fields d ! 0)) of
         FtScalar st \<Rightarrow> map_option (\<lambda>l. at_layout.extend l (fast_scalar_layout.fields 1 st))
           (detect_alarm_time d 2)
       | _ \<Rightarrow> None)"

definition fast_array_detect :: "FieldDesc \<Rightarrow> fast_array_layout option" where
  "fast_array_detect d =
    (if fd_type_id d \<noteq> ascii ''epics:nt/NTScalarArray:1.0'' then None
     else if length (fd_fields d) < 3 then None
     else
       case fd_type (snd (fd_fields d ! 0)) of
         FtScalarArray st \<Rightarrow>
           if st = StString then None
           else map_option (\<lambda>l. at_layout.extend l (fast_array_layout.fields 1 st))
             (detect_alarm_time d 2)
       | _ \<Rightarrow> None)"

definition fast_enum_detect :: "FieldDesc \<Rightarrow> fast_enum_layout option" where
  "fast_enum_detect d =
    (if fd_type_id d \<noteq> ascii ''epics:nt/NTEnum:1.0'' then None
     else if length (fd_fields d) < 3 then None
     else if \<not> fd_is_structure (snd (fd_fields d ! 0)) then None
     else if length (members_of d 0) < 2 then None
     else map_option (\<lambda>l. at_layout.extend l (fast_enum_layout.fields 1 2 3))
       (detect_alarm_time d 4))"

section \<open>Direct decoding\<close>

definition f64_one :: f64bits where "f64_one = f64_of_int 1"

definition fast_read_value :: "ScalarType \<Rightarrow> f64bits rd" where
  "fast_read_value st =
    (case st of
       StDouble \<Rightarrow> read_f64
     | StFloat \<Rightarrow> rd_bind read_f32 (\<lambda>v. rd_return (f64_of_f32 v))
     | StInt \<Rightarrow> rd_bind read_i32 (\<lambda>v. rd_return (f64_of_int (sint v)))
     | StLong \<Rightarrow> rd_bind read_i64 (\<lambda>v. rd_return (f64_of_int (sint v)))
     | StShort \<Rightarrow> rd_bind read_i16 (\<lambda>v. rd_return (f64_of_int (sint v)))
     | StByte \<Rightarrow> rd_bind read_i8 (\<lambda>v. rd_return (f64_of_int (sint v)))
     | StUInt \<Rightarrow> rd_bind read_u32 (\<lambda>v. rd_return (f64_of_int (uint v)))
     | StULong \<Rightarrow> rd_bind read_u64 (\<lambda>v. rd_return (f64_of_int (uint v)))
     | StUShort \<Rightarrow> rd_bind read_u16 (\<lambda>v. rd_return (f64_of_int (uint v)))
     | StUByte \<Rightarrow> rd_bind read_u8 (\<lambda>v. rd_return (f64_of_int (uint v)))
     | StBoolean \<Rightarrow> rd_bind read_u8 (\<lambda>v. rd_return (if v \<noteq> 0 then f64_one else 0))
     | StString \<Rightarrow> rd_fail (DeInvalidUtf8 (ascii ''string value in NTScalar'')))"

definition fast_read_array :: "ScalarType \<Rightarrow> f64bits list rd" where
  "fast_read_array st = rd_bind read_size_non_null (\<lambda>len.
     if len = 0 then rd_return []
     else
       case st of
         StUByte \<Rightarrow> rd_bind (read_bytes len) (\<lambda>bs. rd_return (map (\<lambda>b. f64_of_int (uint b)) bs))
       | StString \<Rightarrow> rd_fail (DeProtocol (ascii ''string array in FastArrayLayout''))
       | _ \<Rightarrow> rd_repeat len (fast_read_value st))"

record at_acc =
  ac_severity :: "32 word"
  ac_status :: "32 word"
  ac_seconds :: "64 word"
  ac_nanos :: "32 word"

record 'v delta_acc = at_acc +
  ac_value :: 'v

definition acc_init :: "'v \<Rightarrow> 'v delta_acc" where
  "acc_init v = \<lparr> ac_severity = 0, ac_status = 0, ac_seconds = 0, ac_nanos = 0, ac_value = v \<rparr>"

text \<open>The arms for the alarm and the time stamp; structure markers carry no data.\<close>

definition at_field :: "'l at_layout_scheme \<Rightarrow> byte \<Rightarrow> 'v delta_acc \<Rightarrow> 'v delta_acc rd" where
  "at_field lay idx acc =
    (if idx = la_severity_bit lay then rd_bind read_i32 (\<lambda>v. rd_return (acc \<lparr> ac_severity := v \<rparr>))
     else if idx = la_status_bit lay then rd_bind read_i32 (\<lambda>v. rd_return (acc \<lparr> ac_status := v \<rparr>))
     else if idx = la_message_bit lay then rd_bind read_string (\<lambda>_. rd_return acc)
     else if idx = la_seconds_bit lay then rd_bind read_i64 (\<lambda>v. rd_return (acc \<lparr> ac_seconds := v \<rparr>))
     else if idx = la_nanos_bit lay then rd_bind read_i32 (\<lambda>v. rd_return (acc \<lparr> ac_nanos := v \<rparr>))
     else if idx = la_user_tag_bit lay then rd_bind read_i32 (\<lambda>_. rd_return acc)
     else rd_return acc)"

text \<open>The loop over the set bits; \<open>arm\<close> is the chain of comparisons of the layout.\<close>

fun fast_loop :: "byte \<Rightarrow> (byte \<Rightarrow> 'a \<Rightarrow> 'a rd) \<Rightarrow> nat list \<Rightarrow> 'a \<Rightarrow> 'a rd" where
  "fast_loop max_known arm [] acc = rd_return acc"
| "fast_loop max_known arm (b # bs) acc =
    (let idx = (of_nat b :: byte) in
     if idx = 0 then fast_loop max_known arm bs acc
     else if idx > max_known then rd_return acc
     else rd_bind (arm idx acc) (fast_loop max_known arm bs))"

definition scalar_arm ::
  "fast_scalar_layout \<Rightarrow> byte \<Rightarrow> (f64bits \<times> rstring option) delta_acc \<Rightarrow>
    (f64bits \<times> rstring option) delta_acc rd" where
  "scalar_arm lay idx acc =
    (if idx = fs_value_bit lay then
       (if fs_value_type lay = StString
        then rd_bind read_string (\<lambda>s. rd_return (acc \<lparr> ac_value := (fst (ac_value acc), Some s) \<rparr>))
        else rd_bind (fast_read_value (fs_value_type lay))
          (\<lambda>v. rd_return (acc \<lparr> ac_value := (v, snd (ac_value acc)) \<rparr>)))
     else at_field lay idx acc)"

definition array_arm ::
  "fast_array_layout \<Rightarrow> byte \<Rightarrow> f64bits list delta_acc \<Rightarrow> f64bits list delta_acc rd" where
  "array_arm lay idx acc =
    (if idx = fa_value_bit lay
     then rd_bind (fast_read_array (fa_element_type lay)) (\<lambda>v. rd_return (acc \<lparr> ac_value := v \<rparr>))
     else at_field lay idx acc)"

definition enum_arm ::
  "fast_enum_layout \<Rightarrow> byte \<Rightarrow> 32 word delta_acc \<Rightarrow> 32 word delta_acc rd" where
  "enum_arm lay idx acc =
    (if idx = fe_value_struct_bit lay then rd_return acc
     else if idx = fe_index_bit lay then rd_bind read_i32 (\<lambda>v. rd_return (acc \<lparr> ac_value := v \<rparr>))
     else if idx = fe_choices_bit lay
       then rd_bind read_size_non_null (\<lambda>len. rd_bind (rd_repeat len read_string) (\<lambda>_. rd_return acc))
     else at_field lay idx acc)"

definition scalar_fast_decode ::
  "fast_scalar_layout \<Rightarrow> pva_bitset \<Rightarrow> (f64bits \<times> rstring option) delta_acc rd" where
  "scalar_fast_decode lay changed =
    fast_loop (la_max_known_bit lay) (scalar_arm lay) (bs_iter_set changed) (acc_init (0, None))"

definition array_fast_decode :: "fast_array_layout \<Rightarrow> pva_bitset \<Rightarrow> f64bits list delta_acc rd" where
  "array_fast_decode lay changed =
    fast_loop (la_max_known_bit lay) (array_arm lay) (bs_iter_set changed) (acc_init [])"

definition enum_fast_decode :: "fast_enum_layout \<Rightarrow> pva_bitset \<Rightarrow> 32 word delta_acc rd" where
  "enum_fast_decode lay changed =
    fast_loop (la_max_known_bit lay) (enum_arm lay) (bs_iter_set changed) (acc_init 0)"

definition has_unknown :: "'l at_layout_scheme \<Rightarrow> pva_bitset \<Rightarrow> bool" where
  "has_unknown lay changed = list_ex (\<lambda>b. b > unat (la_max_known_bit lay)) (bs_iter_set changed)"

section \<open>What a delta means\<close>

text \<open>Descriptions made of scalars, scalar arrays, bounded strings and structures.\<close>

fun plain :: "FieldDesc \<Rightarrow> bool" and plain_members :: "NamedField list \<Rightarrow> bool" where
  "plain (FieldDesc ft tid fs) =
    (case ft of
       FtStructure \<Rightarrow> plain_members fs
     | FtScalar _ \<Rightarrow> fs = [] | FtScalarArray _ \<Rightarrow> fs = [] | FtBoundedString _ \<Rightarrow> fs = []
     | _ \<Rightarrow> False)"
| "plain_members [] = True"
| "plain_members (f # fs) = (plain (snd f) \<and> plain_members fs)"

text \<open>The wire form of the changed members of a value: the member at depth-first position
  \<open>k\<close> is sent when bit \<open>k\<close> is set.\<close>

fun put_delta :: "FieldDesc \<Rightarrow> PvaValue \<Rightarrow> pva_bitset \<Rightarrow> nat \<Rightarrow> wr"
  and put_delta_members :: "NamedField list \<Rightarrow> (rstring \<times> PvaValue) list \<Rightarrow> pva_bitset \<Rightarrow> nat \<Rightarrow> wr" where
  "put_delta (FieldDesc ft tid fs) v changed i =
    (case v of
       PvStructure vs \<Rightarrow> put_delta_members fs vs changed (i + 1)
     | _ \<Rightarrow> wr_for put_value (if bs_is_set i changed then [v] else []))"
| "put_delta_members [] vs changed i = wr_seq []"
| "put_delta_members (f # fs) vs changed i =
    (case vs of
       [] \<Rightarrow> wr_seq []
     | w # ws \<Rightarrow> wr_seq [put_delta (snd f) (snd w) changed i,
         put_delta_members fs ws changed (i + flat_field_count (snd f))])"

text \<open>The value a delta carries: unchanged members, and structures without a changed
  member, are \<open>Null\<close>.\<close>

fun delta_of :: "FieldDesc \<Rightarrow> PvaValue \<Rightarrow> pva_bitset \<Rightarrow> nat \<Rightarrow> PvaValue"
  and delta_of_members :: "NamedField list \<Rightarrow> (rstring \<times> PvaValue) list \<Rightarrow> pva_bitset \<Rightarrow> nat \<Rightarrow> (rstring \<times> PvaValue) list" where
  "delta_of (FieldDesc ft tid fs) v changed i =
    (case v of
       PvStructure vs \<Rightarrow>
         if list_ex (\<lambda>k. bs_is_set k changed) [i..<i + flat_field_count (FieldDesc ft tid fs)]
         then PvStructure (delta_of_members fs vs changed (i + 1)) else PvNull
     | _ \<Rightarrow> if bs_is_set i changed then v else PvNull)"
| "delta_of_members [] vs changed i = []"
| "delta_of_members (f # fs) vs changed i =
    (case vs of
       [] \<Rightarrow> []
     | w # ws \<Rightarrow> (fst f, delta_of (snd f) (snd w) changed i) #
         delta_of_members fs ws changed (i + flat_field_count (snd f)))"

lemma appends_put_delta [simp, intro]:
  "appends (put_delta d v changed i)" "appends (put_delta_members fs vs changed i)"
  by (induction d v changed i and fs vs changed i rule: put_delta_put_delta_members.induct)
    (auto split: PvaValue.split list.split intro: appends_for)

lemma plain_skip:
  "plain d \<Longrightarrow> skip_flat_indices d i = i + flat_field_count d"
  "plain_members fs \<Longrightarrow> skip_members fs i = i + flat_counts fs"
  by (induction d i and fs i rule: skip_flat_indices_skip_members.induct)
    (auto split: FieldType.splits)

lemma put_delta_unchanged:
  "\<forall>k. i \<le> k \<and> k < i + flat_field_count d \<longrightarrow> \<not> bs_is_set k changed \<Longrightarrow>
    written ord (put_delta d v changed i) = []"
  "\<forall>k. i \<le> k \<and> k < i + flat_counts fs \<longrightarrow> \<not> bs_is_set k changed \<Longrightarrow>
    written ord (put_delta_members fs vs changed i) = []"
proof (induction d v changed i and fs vs changed i rule: put_delta_put_delta_members.induct)
  case (1 ft tid fs v changed i)
  then show ?case
    by (cases v) (simp_all add: written_for)
next
  case (3 f fs vs changed i)
  show ?case
  proof (cases vs)
    case (Cons w ws)
    then show ?thesis
      using 3 by (simp add: written_seq)
  qed (simp add: written_seq)
qed (simp add: written_seq)

lemma parses_read_if:
  assumes "parses ord m (written ord (put_value v)) v"
  shows "parses ord (read_if c m i) (written ord (wr_for put_value (if c then [v] else [])))
    (if c then v else PvNull, Suc i)"
  using parses_map[OF assms, of "\<lambda>v. (v, Suc i)"]
  by (auto simp: read_if_def written_for parses_return)

lemma parses_delta:
  "plain d \<Longrightarrow> typed d v \<Longrightarrow> parses ord (decode_delta d changed i)
    (written ord (put_delta d v changed i)) (delta_of d v changed i, i + flat_field_count d)"
  "plain_members fs \<Longrightarrow> typed_members fs vs \<Longrightarrow> parses ord (delta_members fs changed i)
    (written ord (put_delta_members fs vs changed i)) (delta_of_members fs vs changed i, i + flat_counts fs)"
proof (induction d v changed i and fs vs changed i rule: put_delta_put_delta_members.induct)
  case (1 ft tid fs v changed i)
  show ?case
  proof (cases ft)
    case (FtScalar st)
    then obtain s where v: "v = PvScalar s" "sv_type_tag s = st" "scalar_ok s" "fs = []"
      using 1 by (auto split: PvaValue.splits)
    then have "parses ord (rd_bind (decode_scalar st) (\<lambda>v. rd_return (PvScalar v)))
        (written ord (put_value v)) v"
      by (auto intro!: parses_map parses_scalar)
    from parses_read_if[OF this, of "bs_is_set i changed" i] show ?thesis
      using FtScalar v by (cases "bs_is_set i changed") simp_all
  next
    case (FtScalarArray st)
    then obtain xs where v: "v = PvScalarArray xs" "array_ok st xs" "fs = []"
      using 1 by (auto split: PvaValue.splits)
    then have "parses ord (decode_scalar_array st) (written ord (put_value v)) v"
      by (auto intro!: parses_scalar_array)
    from parses_read_if[OF this, of "bs_is_set i changed" i] show ?thesis
      using FtScalarArray v by (cases "bs_is_set i changed") simp_all
  next
    case (FtBoundedString b)
    then obtain s where v: "v = PvScalar (SvString s)" "string_ok s" "fs = []"
      using 1 by (auto split: PvaValue.splits ScalarValue.splits)
    then have "parses ord (rd_bind read_string (\<lambda>s. rd_return (PvScalar (SvString s))))
        (written ord (put_value v)) v"
      by (auto simp: wr_simps intro!: parses_map parses_string)
    from parses_read_if[OF this, of "bs_is_set i changed" i] show ?thesis
      using FtBoundedString v by (cases "bs_is_set i changed") simp_all
  next
    case FtStructure
    then obtain vs where v: "v = PvStructure vs" "typed_members fs vs" "plain_members fs"
      using 1 by (auto split: PvaValue.splits)
    show ?thesis
    proof (cases "list_ex (\<lambda>k. bs_is_set k changed) [i..<i + flat_field_count (FieldDesc ft tid fs)]")
      case True
      then show ?thesis
        using 1 FtStructure v
        by (auto intro!: parses_bindI[where bs = "[]"] parses_return)
    next
      case False
      then have "written ord (put_delta_members fs vs changed (i + 1)) = []"
        by (intro put_delta_unchanged) (auto simp: list_ex_iff less_Suc_eq)
      then show ?thesis
        using False FtStructure v plain_skip(2)[OF v(3), of "i + 1"] by (auto intro!: parses_return)
    qed
  qed (use 1 in auto)
next
  case (3 f fs vs changed i)
  then obtain w ws where v: "vs = w # ws" "fst w = fst f" "typed (snd f) (snd w)" "typed_members fs ws"
    by (cases vs) auto
  have p: "parses ord (decode_delta (snd f) changed i) (written ord (put_delta (snd f) (snd w) changed i))
      (delta_of (snd f) (snd w) changed i, i + flat_field_count (snd f))"
      "parses ord (delta_members fs changed (i + flat_field_count (snd f)))
        (written ord (put_delta_members fs ws changed (i + flat_field_count (snd f))))
        (delta_of_members fs ws changed (i + flat_field_count (snd f)),
         i + flat_field_count (snd f) + flat_counts fs)"
    using 3 v by auto
  show ?case
    unfolding v(1) delta_members.simps put_delta_members.simps list.case
    by (rule parses_wr[OF p(1)], simp, rule parses_wr_last)
      (auto intro!: parses_bindI[OF p(2), where bs = "[]"] parses_return simp: add.assoc)
qed (simp add: written_seq parses_return)

section \<open>Reads that agree\<close>

text \<open>\<open>agrees R m n\<close>: the read \<open>m\<close> fails exactly as \<open>n\<close> does, or both succeed in the same
  state with results related by \<open>R\<close>.\<close>

definition agrees :: "('a \<Rightarrow> 'b \<Rightarrow> bool) \<Rightarrow> 'a rd \<Rightarrow> 'b rd \<Rightarrow> bool" where
  "agrees R m n \<longleftrightarrow> (\<forall>r. case n r of
     (Err e, r') \<Rightarrow> m r = (Err e, r')
   | (Ok y, r') \<Rightarrow> (\<exists>x. m r = (Ok x, r') \<and> R x y))"

lemma agrees_return: "R x y \<Longrightarrow> agrees R (rd_return x) (rd_return y)"
  by (simp add: agrees_def rd_return_def)

lemma agrees_fail: "agrees R (rd_fail e) (rd_fail e)"
  by (simp add: agrees_def rd_fail_def)

lemma agrees_refl: "agrees (=) m m"
  by (simp add: agrees_def split: prod.split sum.split)

lemma agrees_bind:
  assumes "agrees R m n" "\<And>x y. R x y \<Longrightarrow> agrees S (f x) (g y)"
  shows "agrees S (rd_bind m f) (rd_bind n g)"
  unfolding agrees_def
proof
  fix r
  show "case rd_bind n g r of (Err e, r') \<Rightarrow> rd_bind m f r = (Err e, r')
      | (Ok y, r') \<Rightarrow> \<exists>x. rd_bind m f r = (Ok x, r') \<and> S x y"
  proof (cases "n r")
    case (Pair q r')
    show ?thesis
    proof (cases q)
      case (Inl e)
      then show ?thesis
        using Pair assms(1)[unfolded agrees_def, rule_format, of r] by (simp add: rd_bind_def)
    next
      case (Inr y)
      then obtain x where x: "m r = (Ok x, r')" "R x y"
        using Pair assms(1)[unfolded agrees_def, rule_format, of r] by auto
      have "rd_bind m f r = f x r'" "rd_bind n g r = g y r'"
        using Pair Inr x(1) by (simp_all add: rd_bind_def)
      then show ?thesis
        using assms(2)[OF x(2), unfolded agrees_def, rule_format, of r']
        by (auto split: prod.splits sum.splits)
    qed
  qed
qed

lemma agrees_conv: "agrees R m n \<Longrightarrow> (\<And>x y. R x y \<Longrightarrow> S x y) \<Longrightarrow> agrees S m n"
  by (fastforce simp: agrees_def split: prod.splits sum.splits)

lemma agrees_same:
  "(\<And>v. S (f v) (g v)) \<Longrightarrow> agrees S (rd_bind m (\<lambda>v. rd_return (f v))) (rd_bind m (\<lambda>v. rd_return (g v)))"
  by (rule agrees_bind[OF agrees_refl]) (auto intro: agrees_return)

lemma agrees_map:
  assumes "agrees R m n" "\<And>x y. R x y \<Longrightarrow> agrees S (rd_return x) (g y)"
  shows "agrees S m (rd_bind n g)"
proof -
  have "agrees S (rd_bind m rd_return) (rd_bind n g)"
    by (rule agrees_bind[OF assms(1)]) (rule assms(2))
  moreover have "rd_bind m rd_return = m"
    by (auto simp: rd_bind_def rd_return_def fun_eq_iff split: prod.split sum.split)
  ultimately show ?thesis
    by simp
qed

text \<open>A conditional read against a member read only when it changed.\<close>

lemma agrees_read_if:
  assumes "c \<Longrightarrow> agrees S m (rd_bind n (\<lambda>v. rd_return (v, i + 1)))" "\<not> c \<Longrightarrow> S acc (PvNull, i + 1)"
  shows "agrees S (if c then m else rd_return acc) (read_if c n i)"
  using assms by (simp add: read_if_def agrees_return)

section \<open>The loop over the set bits\<close>

lemma fast_loop_append:
  assumes "\<forall>b \<in> set bs. 0 < b \<and> b \<le> unat max_known"
  shows "fast_loop max_known arm (bs @ cs) acc =
    rd_bind (fast_loop max_known arm bs acc) (fast_loop max_known arm cs)"
  using assms
proof (induction bs arbitrary: acc)
  case (Cons b bs)
  have "b < 2 ^ LENGTH(8)"
    using Cons.prems unat_less_power[of max_known] by (simp add: order_le_less_trans)
  then have "unat (of_nat b :: byte) = b"
    by (simp add: unat_of_nat)
  then have "(of_nat b :: byte) \<noteq> 0" "\<not> of_nat b > max_known"
    using Cons.prems by (auto simp: word_less_nat_alt dest: arg_cong[of _ _ unat])
  then show ?case
    using Cons.prems ext[where f = "fast_loop max_known arm (bs @ cs)", OF Cons.IH]
    by (simp add: Let_def rd_bind_assoc)
qed simp

text \<open>One bit of the loop.\<close>

lemma fast_loop_one:
  assumes "0 < b" "b \<le> unat max_known"
  shows "fast_loop max_known arm (filter P [b]) acc = (if P b then arm (of_nat b) acc else rd_return acc)"
proof -
  have "rd_bind m rd_return = m" for m :: "'a rd"
    by (auto simp: rd_bind_def rd_return_def fun_eq_iff split: prod.split sum.split)
  moreover have "fast_loop max_known arm [] = rd_return"
    by (simp add: fun_eq_iff)
  moreover have "b < 2 ^ LENGTH(8)"
    using assms unat_less_power[of max_known] by (simp add: order_le_less_trans)
  then have "unat (of_nat b :: byte) = b"
    by (simp add: unat_of_nat)
  then have "(of_nat b :: byte) \<noteq> 0" "\<not> of_nat b > max_known"
    using assms by (auto simp: word_less_nat_alt dest: arg_cong[of _ _ unat])
  ultimately show ?thesis
    by (simp add: Let_def)
qed

text \<open>Under the guard of the fast paths the loop runs over the known bits in order.\<close>

lemma iter_set_known:
  assumes "bs_ok changed" "\<not> bs_is_set 0 changed" "\<not> has_unknown lay changed"
  shows "bs_iter_set changed = filter (\<lambda>k. bs_is_set k changed) [1..<Suc (unat (la_max_known_bit lay))]"
    and "\<forall>k > unat (la_max_known_bit lay). \<not> bs_is_set k changed"
proof -
  let ?m = "unat (la_max_known_bit lay)"
  have it: "bs_iter_set changed = sorted_list_of_set (bits changed)"
    using to_vec_sorted[OF assms(1)] by (simp add: bs_to_vec_def)
  have set_it: "set (bs_iter_set changed) = bits changed"
    using walk_ok[of 0 "words changed"] assms(1) by (auto simp: iter_set_walk bits_def)
  have le: "k \<le> ?m" if "k \<in> bits changed" for k
    using assms(3) that set_it by (auto simp: has_unknown_def list_ex_iff)
  then show "\<forall>k > ?m. \<not> bs_is_set k changed"
    using is_set_bits[OF assms(1)] by (meson not_le)
  have "0 \<notin> bits changed"
    using assms(2) is_set_bits[OF assms(1)] by simp
  then have "k \<noteq> 0" if "k \<in> bits changed" for k
    using that by metis
  then have "1 \<le> k \<and> k < Suc ?m" if "k \<in> bits changed" for k
    using le[OF that] that by (simp add: Suc_le_eq less_Suc_eq_le)
  then have eq: "bits changed = set (filter (\<lambda>k. bs_is_set k changed) [1..<Suc ?m])"
    using is_set_bits[OF assms(1)] by (auto simp del: upt_Suc)
  show "bs_iter_set changed = filter (\<lambda>k. bs_is_set k changed) [1..<Suc ?m]"
    unfolding it eq
    by (rule sorted_list_of_set.idem_if_sorted_distinct) (simp_all add: sorted_wrt_filter del: upt_Suc)
qed

text \<open>Members behind the last set bit are not read.\<close>

lemma delta_rest:
  "\<forall>k \<ge> i. \<not> bs_is_set k changed \<Longrightarrow> \<exists>v j. i \<le> j \<and> decode_delta d changed i = rd_return (v, j)"
  "\<forall>k \<ge> i. \<not> bs_is_set k changed \<Longrightarrow> \<exists>vs j. i \<le> j \<and> delta_members fs changed i = rd_return (vs, j)"
proof (induction d changed i and fs changed i rule: decode_delta_delta_members.induct)
  case (1 ft tid fs changed i)
  have skip: "i \<le> skip_flat_indices d i" "i \<le> skip_members fs i" for d i and fs :: "NamedField list"
    by (induction d i and fs i rule: skip_flat_indices_skip_members.induct) auto
  have "\<not> bs_is_set i changed" "\<not> list_ex (\<lambda>k. bs_is_set k changed) [i..<i + flat_field_count (FieldDesc ft tid fs)]"
    using 1 by (auto simp: list_ex_iff)
  moreover have "\<exists>v k. i \<le> k \<and> (rd_return (w, j) :: (PvaValue \<times> nat) rd) = rd_return (v, k)"
    if "i \<le> j" for w j
    using that by blast
  ultimately show ?case
    using skip(2)[of "i + 1" fs] by (cases ft) (simp_all add: read_if_def)
next
  case (3 f fs changed i)
  from 3(1)[OF 3(3)] obtain v j where 1: "i \<le> j" "decode_delta (snd f) changed i = rd_return (v, j)"
    by blast
  then obtain vs k where 2: "j \<le> k" "delta_members fs changed j = rd_return (vs, k)"
    using 3(2) 3(3) by (metis order_trans)
  then show ?case
    using 1 by (intro exI[of _ "(fst f, v) # vs"] exI[of _ k]) simp
qed (simp, blast)

section \<open>The fast path of scalars\<close>

text \<open>The standard shape of the layouts: three members, alarm and time stamp with their
  members in order, anything behind them.\<close>

definition alarm_desc :: "FieldDesc \<Rightarrow> bool" where
  "alarm_desc d \<longleftrightarrow> (\<exists>t n0 n1 n2. d = FieldDesc FtStructure t
     [(n0, fd_scalar StInt), (n1, fd_scalar StInt), (n2, fd_scalar StString)])"

definition time_desc :: "FieldDesc \<Rightarrow> bool" where
  "time_desc d \<longleftrightarrow> (\<exists>t n0 n1 n2. d = FieldDesc FtStructure t
     [(n0, fd_scalar StLong), (n1, fd_scalar StInt), (n2, fd_scalar StInt)])"

definition member_i32 :: "PvaValue \<Rightarrow> nat \<Rightarrow> 32 word" where
  "member_i32 v i = (case pv_field_by_index i v of
     Some x \<Rightarrow> (case pv_as_i32 x of Some k \<Rightarrow> k | None \<Rightarrow> 0) | None \<Rightarrow> 0)"

definition member_i64 :: "PvaValue \<Rightarrow> nat \<Rightarrow> 64 word" where
  "member_i64 v i = (case pv_field_by_index i v of
     Some x \<Rightarrow> (case pv_as_i64 x of Some k \<Rightarrow> k | None \<Rightarrow> 0) | None \<Rightarrow> 0)"

definition value_pair :: "PvaValue \<Rightarrow> f64bits \<times> rstring option" where
  "value_pair v = (case v of
     PvScalar (SvString s) \<Rightarrow> (0, Some s)
   | PvScalar s \<Rightarrow> (the (sv_as_f64 s), None)
   | _ \<Rightarrow> (0, None))"

text \<open>What the fast path reports for the members the generic decoder returns.\<close>

definition acc_of :: "(rstring \<times> PvaValue) list \<Rightarrow> (f64bits \<times> rstring option) delta_acc" where
  "acc_of vs = \<lparr> ac_severity = member_i32 (snd (vs ! 1)) 0, ac_status = member_i32 (snd (vs ! 1)) 1,
     ac_seconds = member_i64 (snd (vs ! 2)) 0, ac_nanos = member_i32 (snd (vs ! 2)) 1,
     ac_value = value_pair (snd (vs ! 0)) \<rparr>"


lemma i32_of_int [simp]: "sv_as_i32 (SvInt k) = Some k" "sv_as_i64 (SvLong l) = Some l"
  by (simp_all add: sv_as_i32_def) (rule bit_word_eqI, auto simp: bit_simps)

lemma member_simps [simp]:
  "member_i32 PvNull i = 0" "member_i64 PvNull i = 0"
  "member_i32 (PvStructure vs) i = (if i < length vs then
     (case snd (vs ! i) of PvScalar s \<Rightarrow> (case sv_as_i32 s of Some k \<Rightarrow> k | None \<Rightarrow> 0) | _ \<Rightarrow> 0) else 0)"
  "member_i64 (PvStructure vs) i = (if i < length vs then
     (case snd (vs ! i) of PvScalar s \<Rightarrow> (case sv_as_i64 s of Some k \<Rightarrow> k | None \<Rightarrow> 0) | _ \<Rightarrow> 0) else 0)"
  by (auto simp: member_i32_def member_i64_def pv_as_i32_def pv_as_i64_def split: PvaValue.splits option.splits)

text \<open>The alarm: bits 2 to 5 when the structure starts at bit 2.\<close>

lemma agrees_alarm:
  assumes "alarm_desc d" "ac_severity acc = 0" "ac_status acc = 0"
  shows "agrees (\<lambda>acc' (v, j). j = 6 \<and> acc' = acc \<lparr> ac_severity := member_i32 v 0, ac_status := member_i32 v 1 \<rparr>)
    (rd_bind (if bs_is_set 3 changed then rd_bind read_i32 (\<lambda>v. rd_return (acc \<lparr> ac_severity := v \<rparr>)) else rd_return acc)
      (\<lambda>acc. rd_bind (if bs_is_set 4 changed then rd_bind read_i32 (\<lambda>v. rd_return (acc \<lparr> ac_status := v \<rparr>)) else rd_return acc)
      (\<lambda>acc. if bs_is_set 5 changed then rd_bind read_string (\<lambda>_. rd_return acc) else rd_return acc)))
    (decode_delta d changed 2)"
proof -
  have acc: "acc \<lparr> ac_severity := 0 \<rparr> = acc" "acc \<lparr> ac_status := 0 \<rparr> = acc"
      "acc \<lparr> ac_severity := k, ac_status := 0 \<rparr> = acc \<lparr> ac_severity := k \<rparr>" for k
    using assms(2,3) by (cases acc; simp)+
  obtain t n0 n1 n2 where d: "d = FieldDesc FtStructure t
     [(n0, FieldDesc (FtScalar StInt) [] []), (n1, FieldDesc (FtScalar StInt) [] []),
      (n2, FieldDesc (FtScalar StString) [] [])]"
    using assms(1) by (auto simp: alarm_desc_def fd_scalar_def)
  show ?thesis
    by (cases "bs_is_set 2 changed"; cases "bs_is_set 3 changed"; cases "bs_is_set 4 changed";
        cases "bs_is_set 5 changed";
        simp add: d read_if_def decode_scalar_def rd_bind_assoc acc;
        (rule agrees_bind[OF agrees_refl] agrees_return | simp add: acc)+)
qed

lemma agrees_time:
  assumes "time_desc d" "ac_seconds acc = 0" "ac_nanos acc = 0"
  shows "agrees (\<lambda>acc' (v, j). j = 10 \<and> acc' = acc \<lparr> ac_seconds := member_i64 v 0, ac_nanos := member_i32 v 1 \<rparr>)
    (rd_bind (if bs_is_set 7 changed then rd_bind read_i64 (\<lambda>v. rd_return (acc \<lparr> ac_seconds := v \<rparr>)) else rd_return acc)
      (\<lambda>acc. rd_bind (if bs_is_set 8 changed then rd_bind read_i32 (\<lambda>v. rd_return (acc \<lparr> ac_nanos := v \<rparr>)) else rd_return acc)
      (\<lambda>acc. if bs_is_set 9 changed then rd_bind read_i32 (\<lambda>_. rd_return acc) else rd_return acc)))
    (decode_delta d changed 6)"
proof -
  have acc: "acc \<lparr> ac_seconds := 0 \<rparr> = acc" "acc \<lparr> ac_nanos := 0 \<rparr> = acc"
      "acc \<lparr> ac_seconds := k, ac_nanos := 0 \<rparr> = acc \<lparr> ac_seconds := k \<rparr>" for k
    using assms(2,3) by (cases acc; simp)+
  obtain t n0 n1 n2 where d: "d = FieldDesc FtStructure t
     [(n0, FieldDesc (FtScalar StLong) [] []), (n1, FieldDesc (FtScalar StInt) [] []),
      (n2, FieldDesc (FtScalar StInt) [] [])]"
    using assms(1) by (auto simp: time_desc_def fd_scalar_def)
  show ?thesis
    by (cases "bs_is_set 6 changed"; cases "bs_is_set 7 changed"; cases "bs_is_set 8 changed";
        cases "bs_is_set 9 changed";
        simp add: d read_if_def decode_scalar_def rd_bind_assoc acc;
        (rule agrees_bind[OF agrees_refl] agrees_return | simp add: acc)+)
qed

lemma value_pair_Null [simp]: "value_pair PvNull = (0, None)"
  by (simp add: value_pair_def)

lemma agrees_value:
  assumes "ac_value acc = (0, None)" "fs_value_bit lay = 1" "fs_value_type lay = st"
  shows "agrees (\<lambda>acc' (v, j). j = 2 \<and> acc' = acc \<lparr> ac_value := value_pair v \<rparr>)
    (if bs_is_set 1 changed then scalar_arm lay 1 acc else rd_return acc)
    (decode_delta (FieldDesc (FtScalar st) t []) changed 1)"
proof -
  have acc: "acc \<lparr> ac_value := (0, None) \<rparr> = acc"
    using assms(1) by (cases acc) simp
  have "agrees (\<lambda>acc' (v, j). j = 2 \<and> acc' = acc \<lparr> ac_value := value_pair v \<rparr>) (scalar_arm lay 1 acc)
      (rd_bind (rd_bind (decode_scalar st) (\<lambda>v. rd_return (PvScalar v))) (\<lambda>v. rd_return (v, 2 :: nat)))"
    using assms
    by (cases st) (simp_all add: scalar_arm_def fast_read_value_def decode_scalar_def read_bool_def
      rd_bind_assoc, (rule agrees_same, simp add: value_pair_def f64_one_def)+)
  then show ?thesis
    using acc by (simp add: read_if_def agrees_return numeral_2_eq_2)
qed

text \<open>The arms of a layout whose alarm starts at bit 2.\<close>

definition at_bits :: "'l at_layout_scheme \<Rightarrow> bool" where
  "at_bits lay \<longleftrightarrow> la_severity_bit lay = 3 \<and> la_status_bit lay = 4 \<and> la_message_bit lay = 5 \<and>
     la_seconds_bit lay = 7 \<and> la_nanos_bit lay = 8 \<and> la_user_tag_bit lay = 9 \<and> la_max_known_bit lay = 9"

lemma scalar_loop_split:
  assumes "at_bits lay" "fs_value_bit lay = 1"
  shows "fast_loop 9 (scalar_arm lay) (filter P [1..<10]) acc =
    rd_bind (if P 1 then scalar_arm lay 1 acc else rd_return acc) (\<lambda>acc.
    rd_bind (rd_bind (if P 3 then rd_bind read_i32 (\<lambda>v. rd_return (acc \<lparr> ac_severity := v \<rparr>)) else rd_return acc)
      (\<lambda>acc. rd_bind (if P 4 then rd_bind read_i32 (\<lambda>v. rd_return (acc \<lparr> ac_status := v \<rparr>)) else rd_return acc)
      (\<lambda>acc. if P 5 then rd_bind read_string (\<lambda>_. rd_return acc) else rd_return acc))) (\<lambda>acc.
    rd_bind (if P 7 then rd_bind read_i64 (\<lambda>v. rd_return (acc \<lparr> ac_seconds := v \<rparr>)) else rd_return acc)
      (\<lambda>acc. rd_bind (if P 8 then rd_bind read_i32 (\<lambda>v. rd_return (acc \<lparr> ac_nanos := v \<rparr>)) else rd_return acc)
      (\<lambda>acc. if P 9 then rd_bind read_i32 (\<lambda>_. rd_return acc) else rd_return acc))))"
proof -
  have "[1..<10] = [1, 2, 3, 4, 5, 6, 7, 8, 9 :: nat]"
    by (simp add: upt_conv_Cons)
  then have list: "filter P [1..<10] = filter P [1] @ filter P [2] @ filter P [3] @ filter P [4] @
      filter P [5] @ filter P [6] @ filter P [7] @ filter P [8] @ filter P [9]"
    by simp
  let ?L = "fast_loop 9 (scalar_arm lay)"
  let ?S = "\<lambda>k w acc. if P k then scalar_arm lay w acc else rd_return acc"
  have app: "?L (filter P [b] @ cs) = (\<lambda>acc. rd_bind (?S b w acc) (?L cs))"
    if "0 < b" "b \<le> 9" "w = of_nat b" for b w cs
  proof
    fix acc
    have "\<forall>x \<in> set (filter P [b]). 0 < x \<and> x \<le> unat (9 :: byte)"
      using that by simp
    moreover have "b \<le> unat (9 :: byte)"
      using that by simp
    ultimately show "?L (filter P [b] @ cs) acc = rd_bind (?S b w acc) (?L cs)"
      using that by (simp only: fast_loop_append fast_loop_one)
  qed
  have apps: "?L (filter P [1] @ cs) = (\<lambda>acc. rd_bind (?S 1 1 acc) (?L cs))"
    "?L (filter P [2] @ cs) = (\<lambda>acc. rd_bind (?S 2 2 acc) (?L cs))"
    "?L (filter P [3] @ cs) = (\<lambda>acc. rd_bind (?S 3 3 acc) (?L cs))"
    "?L (filter P [4] @ cs) = (\<lambda>acc. rd_bind (?S 4 4 acc) (?L cs))"
    "?L (filter P [5] @ cs) = (\<lambda>acc. rd_bind (?S 5 5 acc) (?L cs))"
    "?L (filter P [6] @ cs) = (\<lambda>acc. rd_bind (?S 6 6 acc) (?L cs))"
    "?L (filter P [7] @ cs) = (\<lambda>acc. rd_bind (?S 7 7 acc) (?L cs))"
    "?L (filter P [8] @ cs) = (\<lambda>acc. rd_bind (?S 8 8 acc) (?L cs))" for cs
    by (rule app; simp)+
  have none: "(if P k then rd_return acc else rd_return acc) = rd_return acc" for k and acc :: "(f64bits \<times> rstring option) delta_acc"
    by simp
  have arms: "scalar_arm lay 2 acc = rd_return acc" "scalar_arm lay 6 acc = rd_return acc"
      "scalar_arm lay 3 acc = rd_bind read_i32 (\<lambda>v. rd_return (acc \<lparr> ac_severity := v \<rparr>))"
      "scalar_arm lay 4 acc = rd_bind read_i32 (\<lambda>v. rd_return (acc \<lparr> ac_status := v \<rparr>))"
      "scalar_arm lay 5 acc = rd_bind read_string (\<lambda>_. rd_return acc)"
      "scalar_arm lay 7 acc = rd_bind read_i64 (\<lambda>v. rd_return (acc \<lparr> ac_seconds := v \<rparr>))"
      "scalar_arm lay 8 acc = rd_bind read_i32 (\<lambda>v. rd_return (acc \<lparr> ac_nanos := v \<rparr>))"
      "scalar_arm lay 9 acc = rd_bind read_i32 (\<lambda>_. rd_return acc)" for acc
    using assms by (simp_all add: scalar_arm_def at_field_def at_bits_def)
  have last: "fast_loop 9 (scalar_arm lay) (filter P [9]) =
      (\<lambda>acc. if P 9 then scalar_arm lay 9 acc else rd_return acc)"
    using fast_loop_one[of 9 9 "scalar_arm lay" P] by (simp add: fun_eq_iff)
  show ?thesis
    unfolding list apps last arms none by (simp only: rd_bind_return rd_bind_assoc)
qed

definition nt_scalar_desc :: "FieldDesc \<Rightarrow> ScalarType \<Rightarrow> bool" where
  "nt_scalar_desc d st \<longleftrightarrow>
    take (length (ascii ''epics:nt/NTScalar'')) (fd_type_id d) = ascii ''epics:nt/NTScalar'' \<and>
    (\<exists>n0 t0 n1 al n2 ts rest. fd_fields d =
       (n0, FieldDesc (FtScalar st) t0 []) # (n1, al) # (n2, ts) # rest \<and> alarm_desc al \<and> time_desc ts)"

lemma nt_scalar_layout:
  assumes "nt_scalar_desc d st"
  shows "\<exists>lay. fast_scalar_detect d = Some lay \<and> at_bits lay \<and> fs_value_bit lay = 1 \<and> fs_value_type lay = st"
  using assms
  by (auto simp: nt_scalar_desc_def fast_scalar_detect_def detect_alarm_time_def members_of_def
      alarm_desc_def time_desc_def at_bits_def Let_def at_layout.defs fast_scalar_layout.defs)

lemma scalar_fast_agrees:
  assumes "nt_scalar_desc d st" "fast_scalar_detect d = Some lay"
    and "bs_ok changed" "\<not> bs_is_set 0 changed" "\<not> has_unknown lay changed"
  shows "agrees (\<lambda>acc (vs, _). acc = acc_of vs) (scalar_fast_decode lay changed)
    (delta_members (fd_fields d) changed 1)"
proof -
  obtain n0 t0 n1 al n2 ts others where d: "fd_fields d =
      (n0, FieldDesc (FtScalar st) t0 []) # (n1, al) # (n2, ts) # others" "alarm_desc al" "time_desc ts"
    using assms(1) by (auto simp: nt_scalar_desc_def)
  have lay: "at_bits lay" "fs_value_bit lay = 1" "fs_value_type lay = st"
    using nt_scalar_layout[OF assms(1)] assms(2) by auto
  then have m: "unat (la_max_known_bit lay) = 9"
    by (simp add: at_bits_def)
  have "Suc 9 = (10 :: nat)"
    by simp
  then have it: "bs_iter_set changed = filter (\<lambda>k. bs_is_set k changed) [1..<10]"
      "\<forall>k \<ge> 10. \<not> bs_is_set k changed"
    using iter_set_known[OF assms(3-5)] unfolding m by (auto simp del: upt_Suc)
  then obtain vs j where others: "delta_members others changed 10 = rd_return (vs, j)"
    using delta_rest(2)[of 10 changed others] by blast
  let ?a = "acc_init (0 :: f64bits, None :: rstring option)"
  have fast: "scalar_fast_decode lay changed =
      fast_loop 9 (scalar_arm lay) (filter (\<lambda>k. bs_is_set k changed) [1..<10]) ?a"
    using lay by (simp add: scalar_fast_decode_def it(1) at_bits_def)
  let ?A = "\<lambda>acc :: (f64bits \<times> rstring option) delta_acc.
    rd_bind (if bs_is_set 3 changed then rd_bind read_i32 (\<lambda>v. rd_return (acc \<lparr> ac_severity := v \<rparr>)) else rd_return acc)
      (\<lambda>acc. rd_bind (if bs_is_set 4 changed then rd_bind read_i32 (\<lambda>v. rd_return (acc \<lparr> ac_status := v \<rparr>)) else rd_return acc)
      (\<lambda>acc. if bs_is_set 5 changed then rd_bind read_string (\<lambda>_. rd_return acc) else rd_return acc))"
  let ?T = "\<lambda>acc :: (f64bits \<times> rstring option) delta_acc.
    rd_bind (if bs_is_set 7 changed then rd_bind read_i64 (\<lambda>v. rd_return (acc \<lparr> ac_seconds := v \<rparr>)) else rd_return acc)
      (\<lambda>acc. rd_bind (if bs_is_set 8 changed then rd_bind read_i32 (\<lambda>v. rd_return (acc \<lparr> ac_nanos := v \<rparr>)) else rd_return acc)
      (\<lambda>acc. if bs_is_set 9 changed then rd_bind read_i32 (\<lambda>_. rd_return acc) else rd_return acc))"
  have ts: "agrees (\<lambda>acc' (vs, _). acc' = acc \<lparr> ac_seconds := member_i64 (snd (vs ! 0)) 0,
        ac_nanos := member_i32 (snd (vs ! 0)) 1 \<rparr>)
      (?T acc) (delta_members ((n2, ts) # others) changed 6)"
    if "ac_seconds acc = 0" "ac_nanos acc = 0" for acc :: "(f64bits \<times> rstring option) delta_acc"
    unfolding delta_members.simps(2)[of "(n2, ts)"] fst_conv snd_conv
    by (rule agrees_map[OF agrees_time[OF d(3) that]]) (auto simp: others intro!: agrees_return)
  have al: "agrees (\<lambda>acc' (vs, _). acc' = acc \<lparr> ac_severity := member_i32 (snd (vs ! 0)) 0,
        ac_status := member_i32 (snd (vs ! 0)) 1, ac_seconds := member_i64 (snd (vs ! 1)) 0,
        ac_nanos := member_i32 (snd (vs ! 1)) 1 \<rparr>)
      (rd_bind (?A acc) ?T) (delta_members ((n1, al) # (n2, ts) # others) changed 2)"
    if "ac_severity acc = 0" "ac_status acc = 0" "ac_seconds acc = 0" "ac_nanos acc = 0"
    for acc :: "(f64bits \<times> rstring option) delta_acc"
    unfolding delta_members.simps(2)[of "(n1, al)"] fst_conv snd_conv
  proof (rule agrees_bind[OF agrees_alarm[OF d(2) that(1,2)]], goal_cases)
    case (1 x y)
    then obtain v where xy: "y = (v, 6)"
        "x = acc \<lparr> ac_severity := member_i32 v 0, ac_status := member_i32 v 1 \<rparr>"
      by (cases y) auto
    have x: "ac_seconds x = 0" "ac_nanos x = 0"
      using xy that by simp_all
    show ?case
      unfolding xy(1) prod.case by (rule agrees_map[OF ts[OF x]]) (auto simp: xy(2) intro!: agrees_return)
  qed
  show ?thesis
    unfolding fast scalar_loop_split[OF lay(1,2)] d(1) delta_members.simps(2)[of "(n0, _)"] fst_conv snd_conv
  proof (rule agrees_bind[OF agrees_value[OF _ lay(2,3)]], goal_cases)
    case (2 x y)
    then obtain v where xy: "y = (v, 2)" "x = ?a \<lparr> ac_value := value_pair v \<rparr>"
      by (cases y) auto
    have x: "ac_severity x = 0" "ac_status x = 0" "ac_seconds x = 0" "ac_nanos x = 0"
      using xy by (simp_all add: acc_init_def)
    show ?case
      unfolding xy(1) prod.case
      by (rule agrees_map[OF al[OF x]]) (auto simp: xy(2) acc_of_def acc_init_def intro!: agrees_return)
  qed (simp add: acc_init_def)
qed

end
