(* ===== verification/Monitor.thy ===== *)
theory Monitor
  imports Delta
begin

text \<open>
  Monitor subscriptions and the handler of a monitor update
  (\<open>aura-net/src/monitor/subscription.rs\<close> and \<open>handle_monitor_update\<close> of
  \<open>aura-net/src/runtime/session.rs\<close>).  \<open>se_emitted\<close> lists what the handler hands to the
  bus or to the channel of the PV, in order; whether a full channel drops it is not part
  of the session.  The lock of the metadata buffer is taken as never poisoned.
\<close>

datatype SubscriptionState = SubInitializing | SubActive | SubDestroyed

fun sub_is_active :: "SubscriptionState \<Rightarrow> bool" where
  "sub_is_active SubActive = True"
| "sub_is_active _ = False"

datatype MonitorEvent =
    MeValue PvaValue
  | MeScalarDelta f64bits "64 word" "32 word" "32 word" "32 word"
  | MeStringDelta rstring "64 word" "32 word" "32 word" "32 word"
  | MeArrayDelta "f64bits list" "64 word" "32 word" "32 word" "32 word"
  | MeDisconnect
  | MeReconnect
  | MeError rstring

record monitor_subscription =
  ms_pv_name :: rstring
  ms_request_id :: "32 word"
  ms_state :: SubscriptionState
  ms_type_desc :: "FieldDesc option"
  ms_last_value :: "PvaValue option"
  ms_updates_received :: u64
  ms_channel_id :: "32 word"

definition sub_new :: "rstring \<Rightarrow> 32 word \<Rightarrow> 32 word \<Rightarrow> monitor_subscription" where
  "sub_new pv_name channel_id request_id =
    \<lparr> ms_pv_name = pv_name, ms_request_id = request_id, ms_state = SubInitializing,
      ms_type_desc = None, ms_last_value = None, ms_updates_received = 0,
      ms_channel_id = channel_id \<rparr>"

definition sub_set_type_desc :: "FieldDesc \<Rightarrow> monitor_subscription \<Rightarrow> monitor_subscription" where
  "sub_set_type_desc d s = s \<lparr> ms_type_desc := Some d \<rparr>"

definition sub_activate :: "monitor_subscription \<Rightarrow> monitor_subscription" where
  "sub_activate s = s \<lparr> ms_state := SubActive \<rparr>"

definition sub_destroy :: "monitor_subscription \<Rightarrow> monitor_subscription" where
  "sub_destroy s = s \<lparr> ms_state := SubDestroyed \<rparr>"

record monitor_entry =
  me_sub :: monitor_subscription
  me_bus_shard :: nat
  me_pv_id :: "32 word"
  me_fast :: "fast_scalar_layout option"
  me_fast_array :: "fast_array_layout option"
  me_fast_enum :: "fast_enum_layout option"

text \<open>What an INIT response with a description does to its entry.\<close>

definition entry_initialised :: "FieldDesc \<Rightarrow> monitor_entry \<Rightarrow> monitor_entry" where
  "entry_initialised d e = e \<lparr> me_fast := fast_scalar_detect d, me_fast_array := fast_array_detect d,
     me_fast_enum := fast_enum_detect d, me_sub := sub_activate (sub_set_type_desc d (me_sub e)) \<rparr>"

datatype emitted =
    EmBus rstring "32 word" nat MonitorEvent
  | EmChannel "32 word" MonitorEvent

record session =
  se_order :: ByteOrder
  se_monitors :: "32 word \<rightharpoonup> monitor_entry"
  se_has_bus :: bool
  se_pv_cache :: "(rstring \<rightharpoonup> 32 word) option"
  se_metadata :: "(rstring \<times> PvaValue) list option"
  se_emitted :: "emitted list"

section \<open>The fast paths\<close>

definition scalar_event :: "(f64bits \<times> rstring option) delta_acc \<Rightarrow> MonitorEvent" where
  "scalar_event acc =
    (case snd (ac_value acc) of
       Some s \<Rightarrow> MeStringDelta s (ac_seconds acc) (ac_nanos acc) (ac_severity acc) (ac_status acc)
     | None \<Rightarrow> MeScalarDelta (fst (ac_value acc)) (ac_seconds acc) (ac_nanos acc) (ac_severity acc)
         (ac_status acc))"

definition array_event :: "f64bits list delta_acc \<Rightarrow> MonitorEvent" where
  "array_event acc =
    MeArrayDelta (ac_value acc) (ac_seconds acc) (ac_nanos acc) (ac_severity acc) (ac_status acc)"

definition enum_event :: "32 word delta_acc \<Rightarrow> MonitorEvent" where
  "enum_event acc =
    MeScalarDelta (f64_of_int (sint (ac_value acc))) (ac_seconds acc) (ac_nanos acc)
      (ac_severity acc) (ac_status acc)"

text \<open>The event of a fast path, or none, with the reader as the attempt leaves it: a failed
  attempt does not rewind.\<close>

definition fast_attempt ::
  "'a rd \<Rightarrow> ('a \<Rightarrow> bool) \<Rightarrow> ('a \<Rightarrow> MonitorEvent) \<Rightarrow> pva_reader \<Rightarrow> MonitorEvent option \<times> pva_reader" where
  "fast_attempt m good ev r =
    (case m r of
       (Ok acc, r') \<Rightarrow> (if good acc then (Some (ev acc), r') else (None, r'))
     | (Err _, r') \<Rightarrow> (None, r'))"

definition try_fast :: "monitor_entry \<Rightarrow> pva_bitset \<Rightarrow> pva_reader \<Rightarrow> MonitorEvent option \<times> pva_reader" where
  "try_fast e changed r =
    (if \<not> bs_is_set 0 changed \<and> ms_updates_received (me_sub e) > 0 then
       (case me_fast e of
          Some lay \<Rightarrow>
            if \<not> has_unknown lay changed
            then fast_attempt (scalar_fast_decode lay changed) (\<lambda>_. True) scalar_event r
            else (None, r)
        | None \<Rightarrow>
       (case me_fast_array e of
          Some lay \<Rightarrow>
            if \<not> has_unknown lay changed \<and> bs_is_set (unat (fa_value_bit lay)) changed
            then fast_attempt (array_fast_decode lay changed) (\<lambda>acc. ac_value acc \<noteq> []) array_event r
            else (None, r)
        | None \<Rightarrow>
       (case me_fast_enum e of
          Some lay \<Rightarrow>
            if \<not> has_unknown lay changed \<and> bs_is_set (unat (fe_index_bit lay)) changed
            then fast_attempt (enum_fast_decode lay changed) (\<lambda>_. True) enum_event r
            else (None, r)
        | None \<Rightarrow> (None, r))))
     else (None, r))"

section \<open>The handler\<close>

definition resolve_pv_id :: "session \<Rightarrow> monitor_entry \<Rightarrow> monitor_entry" where
  "resolve_pv_id s e =
    (if me_pv_id e = 0 then
       (case se_pv_cache s of
          None \<Rightarrow> e
        | Some cache \<Rightarrow>
           (case cache (ms_pv_name (me_sub e)) of
              None \<Rightarrow> e
            | Some i \<Rightarrow> e \<lparr> me_pv_id := i \<rparr>))
     else e)"

definition count_update :: "monitor_entry \<Rightarrow> monitor_entry" where
  "count_update e =
    e \<lparr> me_sub := (me_sub e) \<lparr> ms_updates_received := ms_updates_received (me_sub e) + 1 \<rparr> \<rparr>"

definition emit_event :: "32 word \<Rightarrow> monitor_entry \<Rightarrow> MonitorEvent \<Rightarrow> session \<Rightarrow> session" where
  "emit_event rid e ev s =
    s \<lparr> se_emitted := se_emitted s @
         [if se_has_bus s then EmBus (ms_pv_name (me_sub e)) (me_pv_id e) (me_bus_shard e) ev
          else EmChannel rid ev] \<rparr>"

text \<open>Count, resolve the id, store the entry, send.\<close>

definition finish_update :: "32 word \<Rightarrow> monitor_entry \<Rightarrow> MonitorEvent \<Rightarrow> session \<Rightarrow> session" where
  "finish_update rid e ev s =
    (let e' = resolve_pv_id s (count_update e) in
     emit_event rid e' ev (s \<lparr> se_monitors := (se_monitors s)(rid \<mapsto> e') \<rparr>))"

definition decode_update :: "FieldDesc \<Rightarrow> pva_bitset \<Rightarrow> PvaValue rd" where
  "decode_update d changed =
    (if bs_is_set 0 changed then decode_from d
     else rd_bind (delta_members (fd_fields d) changed 1) (\<lambda>(vs, _). rd_return (PvStructure vs)))"

definition remember_value :: "monitor_entry \<Rightarrow> PvaValue \<Rightarrow> bool \<Rightarrow> monitor_entry" where
  "remember_value e v full =
    (if full then e \<lparr> me_sub := (me_sub e) \<lparr> ms_last_value := Some v \<rparr> \<rparr> else e)"

definition push_metadata :: "monitor_entry \<Rightarrow> PvaValue \<Rightarrow> session \<Rightarrow> session" where
  "push_metadata e v s =
    (if ms_updates_received (me_sub e) = 0
     then s \<lparr> se_metadata := map_option (\<lambda>buf. buf @ [(ms_pv_name (me_sub e), v)]) (se_metadata s) \<rparr>
     else s)"

definition generic_update ::
  "32 word \<Rightarrow> monitor_entry \<Rightarrow> FieldDesc \<Rightarrow> pva_bitset \<Rightarrow> pva_reader \<Rightarrow> session \<Rightarrow> session" where
  "generic_update rid e d changed r s =
    (case fst (decode_update d changed r) of
       Err _ \<Rightarrow> s
     | Ok v \<Rightarrow> finish_update rid (remember_value e v (bs_is_set 0 changed)) (MeValue v) (push_metadata e v s))"

definition apply_update ::
  "32 word \<Rightarrow> monitor_entry \<Rightarrow> FieldDesc \<Rightarrow> pva_bitset \<Rightarrow> pva_reader \<Rightarrow> session \<Rightarrow> session" where
  "apply_update rid e d changed r s =
    (case try_fast e changed r of
       (Some ev, _) \<Rightarrow> finish_update rid e ev s
     | (None, r') \<Rightarrow> generic_update rid e d changed r' s)"

definition handle_monitor_update :: "bytes \<Rightarrow> session \<Rightarrow> session" where
  "handle_monitor_update payload s =
    (case mh_decode (reader_new payload (se_order s)) of
       (Err _, _) \<Rightarrow> s
     | (Ok hdr, r1) \<Rightarrow>
        (case se_monitors s (mh_request_id hdr) of
           None \<Rightarrow> s
         | Some e \<Rightarrow>
            (case ms_type_desc (me_sub e) of
               None \<Rightarrow> s
             | Some d \<Rightarrow>
                (case bs_decode r1 of
                   (Err _, _) \<Rightarrow> s
                 | (Ok changed, r2) \<Rightarrow> apply_update (mh_request_id hdr) e d changed r2 s))))"

section \<open>Lemmas\<close>

text \<open>The bytes of an update as a server builds it.\<close>

definition update_bytes ::
  "ByteOrder \<Rightarrow> 32 word \<Rightarrow> byte \<Rightarrow> pva_bitset \<Rightarrow> FieldDesc \<Rightarrow> (rstring \<times> PvaValue) list \<Rightarrow> bytes" where
  "update_bytes ord rid sub changed d vs =
     written ord (mh_encode \<lparr> mh_request_id = rid, mh_sub_command = sub \<rparr>) @
     written ord (bs_encode changed) @
     written ord (if bs_is_set 0 changed then put_value (PvStructure vs)
       else put_delta_members (fd_fields d) vs changed 1)"

lemma same_bits_put:
  assumes "\<And>k. bs_is_set k c = bs_is_set k c'"
  shows "put_delta d v c i = put_delta d v c' i" "put_delta_members fs vs c i = put_delta_members fs vs c' i"
  using assms
proof (induction d v c i and fs vs c i rule: put_delta_put_delta_members.induct)
  case (1 ft tid fs v changed i)
  then show ?case
    by (cases v) simp_all
next
  case (3 f fs vs changed i)
  then show ?case
    by (cases vs) simp_all
qed simp

lemma same_bits_delta_of:
  assumes "\<And>k. bs_is_set k c = bs_is_set k c'"
  shows "delta_of d v c i = delta_of d v c' i" "delta_of_members fs vs c i = delta_of_members fs vs c' i"
  using assms
proof (induction d v c i and fs vs c i rule: delta_of_delta_of_members.induct)
  case (1 ft tid fs v changed i)
  then show ?case
    by (cases v) (simp_all add: list_ex_iff)
next
  case (3 f fs vs changed i)
  then show ?case
    by (cases vs) simp_all
qed simp

lemma received_same:
  assumes "bs_ok c"
  shows "bs_is_set k (bs_received c) = bs_is_set k c" "bs_ok (bs_received c)"
  using bits_received[OF assms] is_set_bits[OF assms] is_set_bits[of "bs_received c" k] by auto

text \<open>The payload of an update up to the values.\<close>

lemma handle_update_bytes:
  assumes "se_monitors s rid = Some e" "ms_type_desc (me_sub e) = Some d"
    and "bs_ok changed" "length (bs_raw changed) < 2 ^ 31"
    and "payload = update_bytes (se_order s) rid sub changed d vs @ tail"
  obtains r where "handle_monitor_update payload s = apply_update rid e d (bs_received changed) r s"
    "rd_order r = se_order s"
    "rest r = written (se_order s) (if bs_is_set 0 changed then put_value (PvStructure vs)
       else put_delta_members (fd_fields d) vs changed 1) @ tail"
proof -
  let ?ord = "se_order s"
  let ?h = "written ?ord (mh_encode \<lparr> mh_request_id = rid, mh_sub_command = sub \<rparr>)"
  let ?b = "written ?ord (bs_encode changed)"
  let ?v = "written ?ord (if bs_is_set 0 changed then put_value (PvStructure vs)
       else put_delta_members (fd_fields d) vs changed 1)"
  have p: "payload = ?h @ ?b @ ?v @ tail"
    using assms(5) by (simp add: update_bytes_def)
  let ?r1 = "advance (length ?h) (reader_new payload ?ord)"
  have 1: "mh_decode (reader_new payload ?ord) = (Ok \<lparr> mh_request_id = rid, mh_sub_command = sub \<rparr>, ?r1)"
    using monitor_header.decode_new[where v = "\<lparr> mh_request_id = rid, mh_sub_command = sub \<rparr>"
      and ord = ?ord and tail = "?b @ ?v @ tail"] p
    by simp
  have 2: "bs_decode ?r1 = (Ok (bs_received changed), advance (length ?b) ?r1)"
    by (rule parsesD[OF parses_bitset[OF assms(3,4)]]) (simp_all add: reader_new_def p)
  show thesis
  proof (rule that[of "advance (length ?b) ?r1"])
    show "handle_monitor_update payload s =
        apply_update rid e d (bs_received changed) (advance (length ?b) ?r1) s"
      using assms(1,2) by (simp add: handle_monitor_update_def 1 2)
  qed (simp_all add: reader_new_def p)
qed

lemma decode_update_written:
  assumes "plain_members (fd_fields d)" "typed_members (fd_fields d) vs" "fd_type d = FtStructure"
    and "bs_ok changed"
  shows "parses ord (decode_update d (bs_received changed))
    (written ord (if bs_is_set 0 changed then put_value (PvStructure vs)
       else put_delta_members (fd_fields d) vs changed 1))
    (if bs_is_set 0 changed then PvStructure vs
     else PvStructure (delta_of_members (fd_fields d) vs changed 1))"
proof (cases "bs_is_set 0 changed")
  case True
  have "typed d (PvStructure vs)"
    using assms by (cases d) simp
  then show ?thesis
    using True parses_value(1)[of d "PvStructure vs" ord] received_same(1)[OF assms(4)]
    by (simp add: decode_update_def)
next
  case False
  have "parses ord (delta_members (fd_fields d) (bs_received changed) 1)
      (written ord (put_delta_members (fd_fields d) vs changed 1))
      (delta_of_members (fd_fields d) vs changed 1, 1 + flat_counts (fd_fields d))"
    using parses_delta(2)[OF assms(1,2), of ord "bs_received changed" 1]
      same_bits_put(2)[of "bs_received changed" changed] same_bits_delta_of(2)[of "bs_received changed" changed]
      received_same(1)[OF assms(4)] by simp
  then show ?thesis
    using False received_same(1)[OF assms(4)]
    by (auto simp: decode_update_def intro!: parses_bindI[where bs = "[]"] parses_return)
qed

lemma scalar_update:
  assumes "se_monitors s rid = Some e" "ms_type_desc (me_sub e) = Some d"
    and "ms_updates_received (me_sub e) > 0" "me_fast e = fast_scalar_detect d"
    and "nt_scalar_desc d st" "plain_members (fd_fields d)" "typed_members (fd_fields d) vs"
    and "bs_ok changed" "length (bs_raw changed) < 2 ^ 31" "bits changed \<subseteq> {1..9}"
  shows "handle_monitor_update (update_bytes (se_order s) rid sub changed d vs @ tail) s =
    finish_update rid e (scalar_event (acc_of (delta_of_members (fd_fields d) vs changed 1))) s"
proof -
  let ?c = "bs_received changed"
  note same = received_same[OF assms(8)]
  obtain lay where lay: "fast_scalar_detect d = Some lay" "at_bits lay"
    using nt_scalar_layout[OF assms(5)] by auto
  have no0: "\<not> bs_is_set 0 changed"
    using is_set_bits[OF assms(8)] assms(10) by auto
  have "set (bs_iter_set ?c) = bits changed"
    using walk_ok[of 0 "words ?c"] bits_received[OF assms(8)]
    by (auto simp: iter_set_walk bits_def)
  then have known: "\<not> has_unknown lay ?c"
    using lay(2) assms(10) by (fastforce simp: has_unknown_def list_ex_iff at_bits_def)
  obtain r where r: "handle_monitor_update (update_bytes (se_order s) rid sub changed d vs @ tail) s =
      apply_update rid e d ?c r s" "rd_order r = se_order s"
    "rest r = written (se_order s) (put_delta_members (fd_fields d) vs changed 1) @ tail"
    using handle_update_bytes[OF assms(1,2,8,9) refl] no0 by (metis (full_types))
  have "parses (se_order s) (delta_members (fd_fields d) ?c 1)
      (written (se_order s) (put_delta_members (fd_fields d) vs changed 1))
      (delta_of_members (fd_fields d) vs changed 1, 1 + flat_counts (fd_fields d))"
    using parses_delta(2)[OF assms(6,7), of "se_order s" ?c 1] same_bits_put(2)[of ?c changed]
      same_bits_delta_of(2)[of ?c changed] same(1) by simp
  from parsesD[OF this r(2,3)] obtain r' where g: "delta_members (fd_fields d) ?c 1 r =
      (Ok (delta_of_members (fd_fields d) vs changed 1, 1 + flat_counts (fd_fields d)), r')"
    by blast
  have "scalar_fast_decode lay ?c r = (Ok (acc_of (delta_of_members (fd_fields d) vs changed 1)), r')"
    using scalar_fast_agrees[OF assms(5) lay(1) same(2) _ known, unfolded agrees_def, rule_format, of r]
      no0 same(1) g by auto
  then have "try_fast e ?c r = (Some (scalar_event (acc_of (delta_of_members (fd_fields d) vs changed 1))), r')"
    using assms(3,4) lay known no0 same(1) by (simp add: try_fast_def fast_attempt_def)
  then show ?thesis
    using r(1) by (simp add: apply_update_def)
qed

lemma handle_cases:
  "handle_monitor_update payload s = s \<or>
   (\<exists>rid e d changed r. se_monitors s rid = Some e \<and> ms_type_desc (me_sub e) = Some d \<and>
     handle_monitor_update payload s = apply_update rid e d changed r s)"
  by (simp add: handle_monitor_update_def split: prod.split sum.split option.split) blast

text \<open>The effect of one accepted update: the named entry \<open>e\<close> becomes \<open>e'\<close>, the event
  \<open>ev\<close> goes out, and the first value of a monitor is pushed for its metadata.\<close>

definition update_step ::
  "session \<Rightarrow> 32 word \<Rightarrow> monitor_entry \<Rightarrow> monitor_entry \<Rightarrow> MonitorEvent \<Rightarrow> session \<Rightarrow> bool" where
  "update_step s rid e e' ev s' \<longleftrightarrow>
     se_monitors s' = (se_monitors s)(rid \<mapsto> e') \<and>
     ms_updates_received (me_sub e') = ms_updates_received (me_sub e) + 1 \<and>
     ms_type_desc (me_sub e') = ms_type_desc (me_sub e) \<and>
     ms_pv_name (me_sub e') = ms_pv_name (me_sub e) \<and>
     ms_request_id (me_sub e') = ms_request_id (me_sub e) \<and>
     ms_state (me_sub e') = ms_state (me_sub e) \<and>
     se_has_bus s' = se_has_bus s \<and>
     se_emitted s' = se_emitted s @ [if se_has_bus s
       then EmBus (ms_pv_name (me_sub e')) (me_pv_id e') (me_bus_shard e') ev else EmChannel rid ev] \<and>
     (se_metadata s' = se_metadata s \<or>
       ms_updates_received (me_sub e) = 0 \<and>
       (\<exists>v. ev = MeValue v \<and>
         se_metadata s' = map_option (\<lambda>buf. buf @ [(ms_pv_name (me_sub e), v)]) (se_metadata s)))"

lemma fast_step: "update_step s rid e (resolve_pv_id s (count_update e)) ev (finish_update rid e ev s)"
  by (auto simp: update_step_def finish_update_def Let_def emit_event_def resolve_pv_id_def
      count_update_def split: option.splits)

lemma generic_step:
  "update_step s rid e (resolve_pv_id s (count_update (remember_value e v f))) (MeValue v)
    (finish_update rid (remember_value e v f) (MeValue v) (push_metadata e v s))"
  by (auto simp: update_step_def finish_update_def Let_def emit_event_def resolve_pv_id_def
      count_update_def remember_value_def push_metadata_def split: option.splits)

text \<open>At the end of the payload nothing more can be read.\<close>

lemma read_u8_end: "rest r = [] \<Longrightarrow> \<exists>e. read_u8 r = (Err e, r)"
  by (auto simp: read_u8_def rd_bind_def rd_ensure_def)

lemma array_delta_end:
  assumes "rest r = []" "bs_is_set 1 c" "\<not> bs_is_set 0 c"
    and "fd_fields d = (n, FieldDesc (FtScalarArray st) t []) # others"
  shows "\<exists>e. fst (decode_update d c r) = Err e"
proof -
  obtain e where "read_u8 r = (Err e, r)"
    using read_u8_end[OF assms(1)] by blast
  then have "decode_scalar_array st r = (Err e, r)"
    by (simp add: decode_scalar_array_def read_size_non_null_def read_size_def rd_bind_def)
  then show ?thesis
    using assms by (simp add: decode_update_def read_if_def rd_bind_def)
qed

definition nt_array_desc :: "FieldDesc \<Rightarrow> ScalarType \<Rightarrow> bool" where
  "nt_array_desc d st \<longleftrightarrow> fd_type_id d = ascii ''epics:nt/NTScalarArray:1.0'' \<and> st \<noteq> StString \<and>
    (\<exists>n0 t0 n1 al n2 ts rest. fd_fields d =
       (n0, FieldDesc (FtScalarArray st) t0 []) # (n1, al) # (n2, ts) # rest \<and> alarm_desc al \<and> time_desc ts)"

lemma nt_array_layout:
  assumes "nt_array_desc d st"
  shows "\<exists>lay. fast_array_detect d = Some lay \<and> at_bits lay \<and> fa_value_bit lay = 1 \<and> fa_element_type lay = st"
    and "fast_scalar_detect d = None"
  using assms
  by (auto simp: nt_array_desc_def fast_array_detect_def fast_scalar_detect_def detect_alarm_time_def
      members_of_def alarm_desc_def time_desc_def at_bits_def Let_def at_layout.defs fast_array_layout.defs)

lemma array_fast_empty:
  assumes "at_bits lay" "fa_value_bit lay = 1" "bs_ok c" "bits c = {1}" "rest r = [0]"
  shows "array_fast_decode lay c r = (Ok (acc_init []), advance 1 r)"
proof -
  have "bs_iter_set c = [1]"
    using to_vec_sorted[OF assms(3)] assms(4) by (simp add: bs_to_vec_def)
  moreover have "parses (rd_order r) read_size_non_null [0] 0"
    using parses_size_non_null[of 0] by (simp add: size_bytes_def)
  from parsesD[OF this refl] assms(5) have "read_size_non_null r = (Ok 0, advance 1 r)"
    by simp
  ultimately show ?thesis
    using assms(1,2)
    by (simp add: array_fast_decode_def array_arm_def fast_read_array_def at_bits_def Let_def
        rd_bind_def rd_return_def acc_init_def)
qed

section \<open>A session to instantiate the properties\<close>

definition demo_desc :: FieldDesc where
  "demo_desc = fd_structure (ascii ''epics:nt/NTScalar:1.0'')
     [(ascii ''value'', fd_scalar StDouble),
      (ascii ''alarm'', fd_structure [] [([1], fd_scalar StInt), ([2], fd_scalar StInt), ([3], fd_scalar StString)]),
      (ascii ''timeStamp'', fd_structure [] [([1], fd_scalar StLong), ([2], fd_scalar StInt), ([3], fd_scalar StInt)])]"

definition demo_values :: "(rstring \<times> PvaValue) list" where
  "demo_values =
     [(ascii ''value'', PvScalar (SvDouble 7)),
      (ascii ''alarm'', PvStructure [([1], PvScalar (SvInt 2)), ([2], PvScalar (SvInt 3)), ([3], PvScalar (SvString []))]),
      (ascii ''timeStamp'', PvStructure [([1], PvScalar (SvLong 4)), ([2], PvScalar (SvInt 5)), ([3], PvScalar (SvInt 6))])]"

definition demo_entry :: "u64 \<Rightarrow> monitor_entry" where
  "demo_entry n = (entry_initialised demo_desc \<lparr> me_sub = sub_new [65] 1 9, me_bus_shard = 0,
     me_pv_id = 5, me_fast = None, me_fast_array = None, me_fast_enum = None \<rparr>)
     \<lparr> me_sub := (sub_activate (sub_set_type_desc demo_desc (sub_new [65] 1 9))) \<lparr> ms_updates_received := n \<rparr> \<rparr>"

definition demo_session :: "u64 \<Rightarrow> session" where
  "demo_session n = \<lparr> se_order = LittleEndian, se_monitors = [9 \<mapsto> demo_entry n], se_has_bus = True,
     se_pv_cache = None, se_metadata = Some [], se_emitted = [] \<rparr>"

lemma demo_ok:
  "fd_type demo_desc = FtStructure" "plain_members (fd_fields demo_desc)"
  "typed_members (fd_fields demo_desc) demo_values" "nt_scalar_desc demo_desc StDouble"
  by (auto simp: demo_desc_def demo_values_def fd_structure_def fd_scalar_def scalar_ok_def
      nt_scalar_desc_def alarm_desc_def time_desc_def ascii_def)

lemma demo_session_simps [simp]:
  "se_order (demo_session n) = LittleEndian" "se_monitors (demo_session n) 9 = Some (demo_entry n)"
  "ms_type_desc (me_sub (demo_entry n)) = Some demo_desc"
  "ms_updates_received (me_sub (demo_entry n)) = n"
  "se_emitted (demo_session n) = []" "me_fast (demo_entry n) = fast_scalar_detect demo_desc"
  "se_has_bus (demo_session n)"
  by (simp_all add: demo_session_def demo_entry_def sub_new_def sub_activate_def
      sub_set_type_desc_def entry_initialised_def)

text \<open>A bit set built from few small indices has a short encoding.\<close>

lemma small_raw:
  assumes "bs_ok c" "bs_overflow c = []"
  shows "length (bs_raw c) \<le> 16"
proof -
  have "bs_last_word c \<le> 2"
    using last_word_bound(1)[OF assms(1)] assms by (simp add: words_def bs_ok_def INLINE_WORDS_def)
  then show ?thesis
    using bytes_in_last_ok(1)[OF assms(1)] length_raw[OF assms(1)] raw_Nil[of c]
    by (cases "bs_last_word c = 0") auto
qed

lemma finish_emitted:
  "se_emitted (finish_update rid e ev s) = se_emitted s @
     [if se_has_bus s then EmBus (ms_pv_name (me_sub (resolve_pv_id s (count_update e))))
        (me_pv_id (resolve_pv_id s (count_update e))) (me_bus_shard (resolve_pv_id s (count_update e))) ev
      else EmChannel rid ev]"
  by (simp add: finish_update_def emit_event_def Let_def)

lemma demo_finish:
  "se_emitted (finish_update 9 (remember_value (demo_entry n) v f) ev (push_metadata (demo_entry n) w (demo_session n))) =
    [EmBus [65] 5 0 ev]"
  "se_emitted (finish_update 9 (demo_entry n) ev (demo_session n)) = [EmBus [65] 5 0 ev]"
  by (simp_all add: finish_emitted resolve_pv_id_def count_update_def remember_value_def push_metadata_def
      demo_session_def demo_entry_def entry_initialised_def sub_new_def sub_activate_def sub_set_type_desc_def)

lemma set_3: "bs_ok (bs_set 3 bs_new)" "bits (bs_set 3 bs_new) = {3}" "length (bs_raw (bs_set 3 bs_new)) < 2 ^ 31"
proof -
  show ok: "bs_ok (bs_set 3 bs_new)" and "bits (bs_set 3 bs_new) = {3}"
    by (simp_all add: bits_set)
  have "bs_overflow (bs_set 3 bs_new) = []"
    by (simp add: bs_set_def bs_update_def bs_new_def bs_word_mask_def INLINE_BITS_def INLINE_WORDS_def Let_def)
  then show "length (bs_raw (bs_set 3 bs_new)) < 2 ^ 31"
    using small_raw[OF ok] by simp
qed

section \<open>Properties\<close>

text \<open>When the generic decoder takes an update: the first update of a monitor, an update of the
  whole structure, one of a type without a layout, one with a bit beyond the layout, and, for arrays
  and enumerations, one that leaves the value alone.\<close>

definition takes_generic :: "monitor_entry \<Rightarrow> pva_bitset \<Rightarrow> bool" where
  "takes_generic e changed \<longleftrightarrow> 0 \<in> bits changed \<or> ms_updates_received (me_sub e) = 0 \<or>
    (case me_fast e of Some lay \<Rightarrow> \<exists>b \<in> bits changed. unat (la_max_known_bit lay) < b
     | None \<Rightarrow>
    (case me_fast_array e of Some lay \<Rightarrow>
       (\<exists>b \<in> bits changed. unat (la_max_known_bit lay) < b) \<or> unat (fa_value_bit lay) \<notin> bits changed
     | None \<Rightarrow>
    (case me_fast_enum e of Some lay \<Rightarrow>
       (\<exists>b \<in> bits changed. unat (la_max_known_bit lay) < b) \<or> unat (fe_index_bit lay) \<notin> bits changed
     | None \<Rightarrow> True)))"

lemma has_unknown_bits: "bs_ok c \<Longrightarrow> has_unknown lay c \<longleftrightarrow> (\<exists>b \<in> bits c. unat (la_max_known_bit lay) < b)"
  using to_vec_sorted[of c] finite_bits[of c] by (simp add: has_unknown_def list_ex_iff flip: bs_to_vec_def)

lemma takes_generic_skips:
  assumes "takes_generic e changed" "bs_ok changed"
  shows "try_fast e (bs_received changed) r = (None, r)"
  using assms
  by (auto simp: takes_generic_def try_fast_def bits_received is_set_bits received_same
      has_unknown_bits[OF received_same(2)[OF assms(2)]] split: option.splits)

text \<open>C11. End to end, every monitor update the generic decoder takes hands on exactly the changed
  members: the server's encoding of a well typed value, full or delta, becomes one event with
  the full value, or with the changed members and \<open>Null\<close> elsewhere, and the update is counted
  once.  The generic decoder takes the first update of a monitor, full updates, deltas of a type without a
  fast layout, and deltas that a layout does not cover; the other deltas of scalars, arrays and
  enumerations go through a fast path, for which this is not claimed.\<close>

theorem update_delivers_delta:
  assumes "se_monitors s rid = Some e" "ms_type_desc (me_sub e) = Some d" "takes_generic e changed"
    and "fd_type d = FtStructure" "plain_members (fd_fields d)" "typed_members (fd_fields d) vs"
    and "bs_ok changed" "length (bs_raw changed) < 2 ^ 31"
  defines "v \<equiv> (if bs_is_set 0 changed then PvStructure vs
     else PvStructure (delta_of_members (fd_fields d) vs changed 1))"
  shows "handle_monitor_update (update_bytes (se_order s) rid sub changed d vs @ tail) s =
    finish_update rid (remember_value e v (bs_is_set 0 changed)) (MeValue v) (push_metadata e v s)"
proof -
  obtain r where r: "handle_monitor_update (update_bytes (se_order s) rid sub changed d vs @ tail) s =
      apply_update rid e d (bs_received changed) r s" "rd_order r = se_order s"
    "rest r = written (se_order s) (if bs_is_set 0 changed then put_value (PvStructure vs)
       else put_delta_members (fd_fields d) vs changed 1) @ tail"
    using handle_update_bytes[OF assms(1,2,7,8) refl] by metis
  have "try_fast e (bs_received changed) r = (None, r)"
    by (rule takes_generic_skips[OF assms(3,7)])
  moreover have "fst (decode_update d (bs_received changed) r) = Ok v"
    using parsesD[OF decode_update_written[OF assms(5,6,4,7)] r(2,3)] unfolding v_def by simp
  ultimately show ?thesis
    using r(1) received_same(1)[OF assms(7)] by (simp add: apply_update_def generic_update_def)
qed

text \<open>A first update, and a later one of the whole structure.\<close>

theorem update_delivers_delta_witness:
  "se_emitted (handle_monitor_update (update_bytes LittleEndian 9 0 (bs_set 3 bs_new) demo_desc demo_values @ [])
      (demo_session 0)) =
    [EmBus [65] 5 0 (MeValue (PvStructure (delta_of_members (fd_fields demo_desc) demo_values (bs_set 3 bs_new) 1)))] \<and>
   se_emitted (handle_monitor_update (update_bytes LittleEndian 9 0 (bs_set 0 bs_new) demo_desc demo_values @ [])
      (demo_session 4)) = [EmBus [65] 5 0 (MeValue (PvStructure demo_values))]"
proof -
  have full: "bs_ok (bs_set 0 bs_new)" "bits (bs_set 0 bs_new) = {0}"
    by (simp_all add: bits_set)
  have "bs_overflow (bs_set 0 bs_new) = []"
    by (simp add: bs_set_def bs_update_def bs_new_def bs_word_mask_def INLINE_BITS_def INLINE_WORDS_def Let_def)
  then have short: "length (bs_raw (bs_set 0 bs_new)) < 2 ^ 31"
    using small_raw[OF full(1)] by simp
  show ?thesis
    using update_delivers_delta[where s = "demo_session 0" and rid = 9 and e = "demo_entry 0" and d = demo_desc
        and vs = demo_values and changed = "bs_set 3 bs_new" and sub = 0 and tail = "[]"]
      update_delivers_delta[where s = "demo_session 4" and rid = 9 and e = "demo_entry 4" and d = demo_desc
        and vs = demo_values and changed = "bs_set 0 bs_new" and sub = 0 and tail = "[]"]
      demo_ok set_3 is_set_bits[OF set_3(1), of 0] full short is_set_bits[OF full(1), of 0]
    by (simp add: demo_finish takes_generic_def)
qed

text \<open>C10. The fast path of a scalar agrees with the generic decoder: once a standard
  NTScalar monitor has seen its first update, a delta within the known bits is handed on as
  the event built from the generic decoder's members: the value as a double (or the string),
  severity, status and time stamp where they changed, and zero where they did not.\<close>

theorem fast_path_faithful:
  assumes "se_monitors s rid = Some e" "ms_type_desc (me_sub e) = Some d"
    and "ms_updates_received (me_sub e) > 0" "me_fast e = fast_scalar_detect d"
    and "nt_scalar_desc d st" "plain_members (fd_fields d)" "typed_members (fd_fields d) vs"
    and "bs_ok changed" "length (bs_raw changed) < 2 ^ 31" "bits changed \<subseteq> {1..9}"
  shows "handle_monitor_update (update_bytes (se_order s) rid sub changed d vs @ tail) s =
    finish_update rid e (scalar_event (acc_of (delta_of_members (fd_fields d) vs changed 1))) s"
  using assms by (rule scalar_update)

theorem fast_path_faithful_witness:
  "se_emitted (handle_monitor_update (update_bytes LittleEndian 9 0 (bs_set 3 bs_new) demo_desc demo_values @ [])
      (demo_session 1)) =
    [EmBus [65] 5 0 (scalar_event (acc_of (delta_of_members (fd_fields demo_desc) demo_values (bs_set 3 bs_new) 1)))]"
  using fast_path_faithful[where s = "demo_session 1" and rid = 9 and e = "demo_entry 1" and d = demo_desc
      and vs = demo_values and changed = "bs_set 3 bs_new" and sub = 0 and tail = "[]" and st = StDouble]
    demo_ok set_3
  by (simp add: demo_finish)

text \<open>A delta that changes the alarm and not the value is handed on as a new sample with
  the value 0: the fast path does not ask whether the value bit is set.\<close>

theorem alarm_update_reports_zero:
  assumes "se_monitors s rid = Some e" "ms_type_desc (me_sub e) = Some d"
    and "ms_updates_received (me_sub e) > 0" "me_fast e = fast_scalar_detect d"
    and "nt_scalar_desc d st" "plain_members (fd_fields d)" "typed_members (fd_fields d) vs"
    and "bs_ok changed" "length (bs_raw changed) < 2 ^ 31" "bits changed \<subseteq> {2..9}"
  shows "\<exists>secs nanos sev stat. handle_monitor_update (update_bytes (se_order s) rid sub changed d vs @ tail) s =
    finish_update rid e (MeScalarDelta 0 secs nanos sev stat) s"
proof -
  have "1 \<notin> bits changed"
    using assms(10) by auto
  then have "\<not> bs_is_set 1 changed"
    using is_set_bits[OF assms(8)] by simp
  then have "value_pair (snd (delta_of_members (fd_fields d) vs changed 1 ! 0)) = (0, None)"
    using assms(5,7) by (auto simp: nt_scalar_desc_def split: list.splits PvaValue.splits)
  then have "\<exists>secs nanos sev stat. scalar_event (acc_of (delta_of_members (fd_fields d) vs changed 1)) =
      MeScalarDelta 0 secs nanos sev stat"
    by (simp add: scalar_event_def acc_of_def)
  moreover have "bits changed \<subseteq> {1..9}"
    using assms(10) by auto
  ultimately show ?thesis
    using scalar_update[OF assms(1-9)] by metis
qed

theorem alarm_update_reports_zero_witness:
  "\<exists>secs nanos sev stat. se_emitted (handle_monitor_update
      (update_bytes LittleEndian 9 0 (bs_set 3 bs_new) demo_desc demo_values @ []) (demo_session 1)) =
    [EmBus [65] 5 0 (MeScalarDelta 0 secs nanos sev stat)]"
  using alarm_update_reports_zero[where s = "demo_session 1" and rid = 9 and e = "demo_entry 1" and d = demo_desc
      and vs = demo_values and changed = "bs_set 3 bs_new" and sub = 0 and tail = "[]" and st = StDouble]
    demo_ok set_3
  by (auto simp: demo_finish)

lemma handle_steps:
  "handle_monitor_update payload s = s \<or>
   (\<exists>rid e e' ev. se_monitors s rid = Some e \<and> ms_type_desc (me_sub e) \<noteq> None \<and>
     update_step s rid e e' ev (handle_monitor_update payload s))"
proof (cases "handle_monitor_update payload s = s")
  case False
  from False handle_cases[of payload s] obtain rid e d changed r2 where h: "se_monitors s rid = Some e"
      "ms_type_desc (me_sub e) = Some d"
      "handle_monitor_update payload s = apply_update rid e d changed r2 s"
    by blast
  have "\<exists>e' ev. update_step s rid e e' ev (handle_monitor_update payload s)"
  proof (cases "try_fast e changed r2")
    case (Pair oev r')
    show ?thesis
    proof (cases oev)
      case (Some ev)
      then have "handle_monitor_update payload s = finish_update rid e ev s"
        using Pair h(3) by (simp add: apply_update_def)
      then show ?thesis
        using fast_step by metis
    next
      case None
      then have "handle_monitor_update payload s = generic_update rid e d changed r' s"
        using Pair h(3) by (simp add: apply_update_def)
      then obtain v where "handle_monitor_update payload s =
          finish_update rid (remember_value e v (bs_is_set 0 changed)) (MeValue v) (push_metadata e v s)"
        using False by (auto simp: generic_update_def split: sum.splits)
      then show ?thesis
        using generic_step by metis
    qed
  qed
  then show ?thesis
    using h by auto
qed simp

text \<open>C38. The handler only ever touches the monitor the update names: it emits at most one
  event; with none, the session is unchanged; with one, the named monitor exists, is
  described, and its counter moves by one, while its description and name stay, other
  monitors are untouched and the metadata buffer grows by at most the first value of the
  monitor.\<close>

theorem update_touches_one_monitor:
  "handle_monitor_update payload s = s \<or>
   (\<exists>rid e e' ev. se_monitors s rid = Some e \<and> ms_type_desc (me_sub e) \<noteq> None \<and>
     update_step s rid e e' ev (handle_monitor_update payload s))"
  by (rule handle_steps)

text \<open>A delta that empties a waveform is lost: the fast path decodes it, refuses the
  empty array, and the generic decoder then starts where the fast path stopped, at the end
  of the payload, and fails; no event is emitted and the update is not counted.\<close>

theorem empty_waveform_is_lost:
  assumes "se_monitors s rid = Some e" "ms_type_desc (me_sub e) = Some d"
    and "ms_updates_received (me_sub e) > 0" "me_fast e = fast_scalar_detect d"
    and "me_fast_array e = fast_array_detect d" "nt_array_desc d st"
    and "vs = (n0, PvScalarArray []) # vs'" "bs_ok changed" "bits changed = {1}"
    and "length (bs_raw changed) < 2 ^ 31"
  shows "handle_monitor_update (update_bytes (se_order s) rid sub changed d vs) s = s"
proof -
  let ?c = "bs_received changed"
  note same = received_same[OF assms(8)]
  obtain lay where lay: "fast_array_detect d = Some lay" "at_bits lay" "fa_value_bit lay = 1"
    using nt_array_layout(1)[OF assms(6)] by auto
  obtain n t others where d: "fd_fields d = (n, FieldDesc (FtScalarArray st) t []) # others"
    using assms(6) by (auto simp: nt_array_desc_def)
  have set1: "bs_is_set k changed = (k = 1)" for k
    using is_set_bits[OF assms(8)] assms(9) by simp
  have bits: "bits ?c = {1}"
    using bits_received[OF assms(8)] assms(9) by simp
  have "set (bs_iter_set ?c) = {1}"
    using to_vec_sorted[OF same(2)] bits by (simp add: bs_to_vec_def)
  then have known: "\<not> has_unknown lay ?c"
    using lay(2) by (auto simp: has_unknown_def list_ex_iff at_bits_def)
  have "written ord (put_delta_members others vs' changed 2) = []" for ord
    by (rule put_delta_unchanged) (use set1 in auto)
  then have put: "written (se_order s) (put_delta_members (fd_fields d) vs changed 1) = [0]"
    using d assms(7) set1
    by (simp add: written_seq written_for put_array_def wr_simps size_bytes_def numeral_2_eq_2)
  obtain r where r: "handle_monitor_update (update_bytes (se_order s) rid sub changed d vs) s =
      apply_update rid e d ?c r s" "rd_order r = se_order s" "rest r = [0]"
    using handle_update_bytes[OF assms(1,2,8,10), of _ sub vs "[]"] put set1 by auto
  have "try_fast e ?c r = (None, advance 1 r)"
    using assms(3-6) lay known same set1 nt_array_layout(2)[OF assms(6)]
      array_fast_empty[OF lay(2,3) same(2) bits r(3)]
    by (simp add: try_fast_def fast_attempt_def acc_init_def)
  moreover have "rest (advance 1 r) = []"
  proof -
    have "length (rd_buf r) - rd_pos r = 1"
      using arg_cong[OF r(3), of length] by simp
    then show ?thesis
      by simp
  qed
  then obtain err where "fst (decode_update d ?c (advance 1 r)) = Err err"
    using array_delta_end[OF _ _ _ d, of "advance 1 r" ?c] same set1 by auto
  ultimately show ?thesis
    using r(1) by (simp add: apply_update_def generic_update_def)
qed

theorem empty_waveform_is_lost_witness:
  "\<exists>s d vs. s = \<lparr> se_order = BigEndian, se_monitors = [9 \<mapsto> \<lparr> me_sub = (sub_new [65] 1 9)
         \<lparr> ms_type_desc := Some d, ms_updates_received := 4 \<rparr>, me_bus_shard = 0, me_pv_id = 5,
         me_fast = fast_scalar_detect d, me_fast_array = fast_array_detect d, me_fast_enum = None \<rparr>],
       se_has_bus = False, se_pv_cache = None, se_metadata = None, se_emitted = [] \<rparr> \<and>
     vs = [([118], PvScalarArray [])] \<and> nt_array_desc d StDouble \<and>
     handle_monitor_update (update_bytes BigEndian 9 0 (bs_set 1 bs_new) d vs) s = s"
proof -
  define d where "d = fd_structure (ascii ''epics:nt/NTScalarArray:1.0'')
     [([118], fd_scalar_array StDouble),
      ([97], fd_structure [] [([1], fd_scalar StInt), ([2], fd_scalar StInt), ([3], fd_scalar StString)]),
      ([116], fd_structure [] [([1], fd_scalar StLong), ([2], fd_scalar StInt), ([3], fd_scalar StInt)])]"
  define e where "e = \<lparr> me_sub = (sub_new [65] 1 9) \<lparr> ms_type_desc := Some d, ms_updates_received := 4 \<rparr>,
     me_bus_shard = 0, me_pv_id = 5, me_fast = fast_scalar_detect d,
     me_fast_array = fast_array_detect d, me_fast_enum = None \<rparr>"
  define s where "s = \<lparr> se_order = BigEndian, se_monitors = [9 \<mapsto> e], se_has_bus = False,
     se_pv_cache = None, se_metadata = None, se_emitted = [] \<rparr>"
  have d: "nt_array_desc d StDouble"
    by (auto simp: d_def nt_array_desc_def fd_structure_def fd_scalar_array_def fd_scalar_def
        alarm_desc_def time_desc_def)
  have ok: "bs_ok (bs_set 1 bs_new)" and b: "bits (bs_set 1 bs_new) = {1}"
    by (simp_all add: bits_set del: One_nat_def)
  have "bs_overflow (bs_set 1 bs_new) = []"
    by (simp add: bs_set_def bs_update_def bs_new_def bs_word_mask_def INLINE_BITS_def INLINE_WORDS_def Let_def)
  then have len: "length (bs_raw (bs_set 1 bs_new)) < 2 ^ 31"
    using small_raw[OF ok] by simp
  have "handle_monitor_update (update_bytes (se_order s) 9 0 (bs_set 1 bs_new) d [([118], PvScalarArray [])]) s = s"
    by (rule empty_waveform_is_lost[where e = e and st = StDouble])
      (use d ok b len in \<open>simp_all add: s_def e_def\<close>)
  then show ?thesis
    using d unfolding s_def e_def by auto
qed

end
