(* ===== verification/Framing.thy ===== *)
theory Framing
  imports Header
begin

text \<open>
  The stream codec of \<open>aura-net/src/codec/framing.rs\<close>: a two state decoder
  (\<open>Header\<close>, \<open>Payload\<close>) over the receive buffer, with reassembly of segmented
  messages.  One pass of the \<open>loop\<close> in \<open>decode_frame\<close> is \<open>decode_step\<close>; \<open>decode_frame\<close>
  iterates it.  Errors are returned with the state the source leaves behind.
\<close>

section \<open>State\<close>

record pva_frame =
  fr_header :: pva_header
  fr_payload :: bytes

definition frame_new :: "pva_header \<Rightarrow> bytes \<Rightarrow> pva_frame" where
  "frame_new h p = \<lparr> fr_header = h, fr_payload = p \<rparr>"

definition frame_is_control :: "pva_frame \<Rightarrow> bool" where
  "frame_is_control f = is_control (fr_header f)"

definition frame_payload_len :: "pva_frame \<Rightarrow> nat" where
  "frame_payload_len f = length (fr_payload f)"

definition frame_wire_size :: "pva_frame \<Rightarrow> nat" where
  "frame_wire_size f = HEADER_SIZE + length (fr_payload f)"

datatype DecodeState = DsHeader | DsPayload pva_header

record segment_buffer =
  sb_header :: pva_header
  sb_data :: bytes

record pva_codec =
  cd_state :: DecodeState
  cd_byte_order :: ByteOrder
  cd_max_payload :: u32
  cd_segment_buf :: "segment_buffer option"
  cd_total_bytes :: u64
  cd_total_frames :: u64

datatype CodecError =
    CeBadMagic byte
  | CeNegativePayload "32 word"
  | CePayloadTooLarge u32
  | CeSegmentTooLarge
  | CeUnexpectedSegment

definition codec_new :: pva_codec where
  "codec_new = \<lparr> cd_state = DsHeader, cd_byte_order = LittleEndian,
     cd_max_payload = MAX_PAYLOAD_SIZE, cd_segment_buf = None,
     cd_total_bytes = 0, cd_total_frames = 0 \<rparr>"

definition codec_with_byte_order :: "ByteOrder \<Rightarrow> pva_codec \<Rightarrow> pva_codec" where
  "codec_with_byte_order ord c = c \<lparr> cd_byte_order := ord \<rparr>"

definition codec_with_max_payload :: "u32 \<Rightarrow> pva_codec \<Rightarrow> pva_codec" where
  "codec_with_max_payload m c = c \<lparr> cd_max_payload := m \<rparr>"

definition codec_is_assembling :: "pva_codec \<Rightarrow> bool" where
  "codec_is_assembling c = (cd_segment_buf c \<noteq> None)"

section \<open>Decoding\<close>

text \<open>
  \<open>payload_size as usize\<close> sign extends to 64 bits; the decoder stores only headers
  whose size is not negative (\<open>codec_ok\<close> below), so the extension never bites.
\<close>

definition payload_usize :: "pva_header \<Rightarrow> nat" where
  "payload_usize h = unat (signed (hdr_payload_size h) :: u64)"

datatype step_result =
    Continue pva_codec bytes
  | Return "CodecError + pva_frame option" pva_codec bytes

definition header_step :: "pva_codec \<Rightarrow> bytes \<Rightarrow> step_result" where
  "header_step c src =
    (if length src < HEADER_SIZE then Return (Ok None) c src
     else
      (case header_decode (take HEADER_SIZE src) of
         None \<Rightarrow> Return (Err (CeBadMagic (src ! 0))) c src
       | Some header \<Rightarrow>
          if is_control header then
            Return (Ok (Some (frame_new header [])))
              (c \<lparr> cd_total_bytes := cd_total_bytes c + of_nat HEADER_SIZE,
                   cd_total_frames := cd_total_frames c + 1 \<rparr>)
              (drop HEADER_SIZE src)
          else if hdr_payload_size header <s 0 then
            Return (Err (CeNegativePayload (hdr_payload_size header))) c src
          else if hdr_payload_size header > cd_max_payload c then
            Return (Err (CePayloadTooLarge (hdr_payload_size header))) c src
          else Continue (c \<lparr> cd_state := DsPayload header \<rparr>) src))"

text \<open>What a complete payload does, by the segmentation bits of its header.\<close>

definition deliver :: "pva_header \<Rightarrow> bytes \<Rightarrow> pva_codec \<Rightarrow> bytes \<Rightarrow> step_result" where
  "deliver header payload c src =
    (case hdr_segmentation header of
       SegNone \<Rightarrow>
         Return (Ok (Some (frame_new header payload)))
           (c \<lparr> cd_total_frames := cd_total_frames c + 1 \<rparr>) src
     | SegFirst \<Rightarrow>
         Continue (c \<lparr> cd_segment_buf := Some \<lparr> sb_header = header, sb_data = payload \<rparr> \<rparr>) src
     | SegMiddle \<Rightarrow>
         (case cd_segment_buf c of
            None \<Rightarrow> Return (Err CeUnexpectedSegment) c src
          | Some seg \<Rightarrow>
             if length (sb_data seg) + length payload > unat (cd_max_payload c) * 4
             then Return (Err CeSegmentTooLarge) c src
             else Continue (c \<lparr> cd_segment_buf :=
                    Some (seg \<lparr> sb_data := sb_data seg @ payload \<rparr>) \<rparr>) src)
     | SegLast \<Rightarrow>
         (case cd_segment_buf c of
            None \<Rightarrow> Return (Err CeUnexpectedSegment) c src
          | Some seg \<Rightarrow>
             let c' = c \<lparr> cd_segment_buf := None \<rparr> in
             if length (sb_data seg) + length payload > unat (cd_max_payload c) * 4
             then Return (Err CeSegmentTooLarge) c' src
             else
               (let d = sb_data seg @ payload;
                    final_h = with_segmentation SegNone
                      ((sb_header seg) \<lparr> hdr_payload_size := of_nat (length d) \<rparr>)
                in Return (Ok (Some (frame_new final_h d)))
                     (c' \<lparr> cd_total_frames := cd_total_frames c' + 1 \<rparr>) src)))"

definition payload_step :: "pva_header \<Rightarrow> pva_codec \<Rightarrow> bytes \<Rightarrow> step_result" where
  "payload_step header c src =
    (let psize = payload_usize header; needed = HEADER_SIZE + psize in
     if length src < needed then Return (Ok None) c src
     else deliver header (take psize (drop HEADER_SIZE src))
            (c \<lparr> cd_total_bytes := cd_total_bytes c + of_nat needed, cd_state := DsHeader \<rparr>)
            (drop needed src))"

definition decode_step :: "pva_codec \<Rightarrow> bytes \<Rightarrow> step_result" where
  "decode_step c src =
    (case cd_state c of
       DsHeader \<Rightarrow> header_step c src
     | DsPayload header \<Rightarrow> payload_step header c src)"

text \<open>
  Each pass either moves from \<open>Header\<close> to \<open>Payload\<close> or consumes at least eight bytes.
\<close>

definition loop_measure :: "pva_codec \<Rightarrow> bytes \<Rightarrow> nat" where
  "loop_measure c src = 2 * length src + (if cd_state c = DsHeader then 1 else 0)"

lemma deliver_Continue:
  assumes "deliver h p c src = Continue c' src'"
  shows "cd_state c' = cd_state c \<and> src' = src"
  using assms
  by (auto simp: deliver_def Let_def split: Segmentation.splits option.splits if_splits)

lemma header_step_Continue:
  assumes "header_step c src = Continue c' src'"
  shows "src' = src \<and> (\<exists>h. c' = c \<lparr> cd_state := DsPayload h \<rparr> \<and>
    header_decode (take HEADER_SIZE src) = Some h \<and> HEADER_SIZE \<le> length src \<and>
    \<not> is_control h \<and> \<not> hdr_payload_size h <s 0 \<and> hdr_payload_size h \<le> cd_max_payload c)"
  using assms by (auto simp: header_step_def not_less split: option.splits if_splits)

lemma decode_step_decreases:
  assumes "decode_step c src = Continue c' src'"
  shows "loop_measure c' src' < loop_measure c src"
proof (cases "cd_state c")
  case DsHeader
  then show ?thesis
    using header_step_Continue[of c src c' src'] assms
    by (auto simp: decode_step_def loop_measure_def)
next
  case (DsPayload h)
  then have "cd_state c' = DsHeader" "src' = drop (HEADER_SIZE + payload_usize h) src"
    "HEADER_SIZE + payload_usize h \<le> length src"
    using assms by (auto simp: decode_step_def payload_step_def Let_def
        dest!: deliver_Continue split: if_splits)
  with DsPayload show ?thesis
    by (auto simp: loop_measure_def HEADER_SIZE_def)
qed

function decode_frame ::
  "pva_codec \<Rightarrow> bytes \<Rightarrow> (CodecError + pva_frame option) \<times> pva_codec \<times> bytes" where
  "decode_frame c src =
    (case decode_step c src of
       Return r c' src' \<Rightarrow> (r, c', src')
     | Continue c' src' \<Rightarrow> decode_frame c' src')"
  by pat_completeness auto
termination
  by (relation "measure (\<lambda>(c, src). loop_measure c src)") (auto dest: decode_step_decreases)

declare decode_frame.simps [simp del]

definition encode_frame :: "pva_frame \<Rightarrow> bytes \<Rightarrow> bytes" where
  "encode_frame f dst =
    (let d = dst @ header_encode (fr_header f) in
     if fr_payload f \<noteq> [] then d @ fr_payload f else d)"

section \<open>Bytes that arrive later\<close>

primrec app_src :: "bytes \<Rightarrow> step_result \<Rightarrow> step_result" where
  "app_src later (Continue c s) = Continue c (s @ later)"
| "app_src later (Return r c s) = Return r c (s @ later)"

lemma deliver_append: "deliver h p c (src @ later) = app_src later (deliver h p c src)"
  by (simp add: deliver_def Let_def split: Segmentation.split option.split)

lemma header_step_append:
  assumes "HEADER_SIZE \<le> length src"
  shows "header_step c (src @ later) = app_src later (header_step c src)"
  using assms by (auto simp: header_step_def nth_append HEADER_SIZE_def split: option.split)

lemma payload_step_append:
  assumes "HEADER_SIZE + payload_usize h \<le> length src"
  shows "payload_step h c (src @ later) = app_src later (payload_step h c src)"
  using assms by (simp add: payload_step_def Let_def deliver_append)

lemma decode_step_None:
  "decode_step c src = Return (Ok None) c' src' \<Longrightarrow> c' = c \<and> src' = src"
  by (auto simp: decode_step_def header_step_def payload_step_def deliver_def Let_def
      split: DecodeState.splits option.splits if_splits Segmentation.splits)

lemma decode_step_append:
  assumes "\<nexists>c' src'. decode_step c src = Return (Ok None) c' src'"
  shows "decode_step c (src @ later) = app_src later (decode_step c src)"
proof (cases "cd_state c")
  case DsHeader
  with assms have "HEADER_SIZE \<le> length src"
    by (auto simp: decode_step_def header_step_def split: if_splits)
  with DsHeader show ?thesis
    by (simp add: decode_step_def header_step_append)
next
  case (DsPayload h)
  with assms have "HEADER_SIZE + payload_usize h \<le> length src"
    by (auto simp: decode_step_def payload_step_def Let_def split: if_splits)
  with DsPayload show ?thesis
    by (simp add: decode_step_def payload_step_append)
qed

text \<open>
  The answer on a longer buffer: if the shorter one already produced a frame or an
  error the same answer comes back; if it was incomplete, decoding resumes from the
  state it left.
\<close>

lemma decode_frame_more:
  assumes "decode_frame c src = (r, c', src')"
  shows "decode_frame c (src @ later) =
    (if r = Ok None then decode_frame c' (src' @ later) else (r, c', src' @ later))"
  using assms
proof (induction c src rule: decode_frame.induct)
  case (1 c src)
  show ?case
  proof (cases "decode_step c src")
    case (Continue d s)
    then have "decode_step c (src @ later) = Continue d (s @ later)"
      by (subst decode_step_append) auto
    moreover have "decode_frame d s = (r, c', src')"
      using 1(2) Continue by (simp add: decode_frame.simps[of c])
    ultimately show ?thesis
      using 1(1)[OF Continue] by (simp add: decode_frame.simps[of c])
  next
    case (Return q d s)
    then have res: "q = r" "d = c'" "s = src'"
      using 1(2) by (simp_all add: decode_frame.simps[of c])
    show ?thesis
    proof (cases "r = Ok None")
      case True
      then show ?thesis
        using Return res decode_step_None[of c src] by simp
    next
      case False
      then have "decode_step c (src @ later) = Return r c' (src' @ later)"
        using Return res by (subst decode_step_append) auto
      with False show ?thesis
        by (simp add: decode_frame.simps[of c])
    qed
  qed
qed

section \<open>Invariant of the codec\<close>

definition size_ok :: "u32 \<Rightarrow> pva_header \<Rightarrow> bool" where
  "size_ok m h = (\<not> is_control h \<and> 0 \<le>s hdr_payload_size h \<and> hdr_payload_size h \<le> m)"

fun state_ok :: "u32 \<Rightarrow> DecodeState \<Rightarrow> bool" where
  "state_ok m DsHeader = True"
| "state_ok m (DsPayload h) = size_ok m h"

fun seg_ok :: "u32 \<Rightarrow> segment_buffer option \<Rightarrow> bool" where
  "seg_ok m None = True"
| "seg_ok m (Some seg) = (length (sb_data seg) \<le> unat m * 4 \<and> size_ok m (sb_header seg))"

definition codec_ok :: "pva_codec \<Rightarrow> bool" where
  "codec_ok c =
    (state_ok (cd_max_payload c) (cd_state c) \<and> seg_ok (cd_max_payload c) (cd_segment_buf c))"

lemma payload_usize_eq: "0 \<le>s hdr_payload_size h \<Longrightarrow> payload_usize h = unat (hdr_payload_size h)"
  by (simp add: payload_usize_def signed_u64)

lemma codec_new_simps [simp]:
  "cd_state codec_new = DsHeader" "cd_max_payload codec_new = MAX_PAYLOAD_SIZE"
  "cd_segment_buf codec_new = None" "cd_byte_order codec_new = LittleEndian"
  by (simp_all add: codec_new_def)

lemma codec_ok_new: "codec_ok codec_new"
  by (simp add: codec_ok_def codec_new_def)

lemma codec_ok_more_bytes [simp]:
  "codec_ok (c \<lparr> cd_total_bytes := n \<rparr>) = codec_ok c"
  "codec_ok (c \<lparr> cd_total_frames := k \<rparr>) = codec_ok c"
  by (simp_all add: codec_ok_def)

lemma size_ok_usize:
  "size_ok m h \<Longrightarrow> payload_usize h \<le> unat m"
  by (auto simp: size_ok_def payload_usize_eq word_le_nat_alt)

lemma header_step_ok:
  assumes "codec_ok c"
  shows "case header_step c src of
      Continue c' src' \<Rightarrow> codec_ok c'
    | Return r c' src' \<Rightarrow> codec_ok c' \<and>
        (\<forall>f. r = Ok (Some f) \<longrightarrow> length (fr_payload f) \<le> unat (cd_max_payload c) * 4)"
  using assms
  by (auto simp: header_step_def codec_ok_def size_ok_def frame_new_def not_sless_0 not_less
      split: option.split)

lemma deliver_ok:
  assumes "codec_ok c" and "size_ok (cd_max_payload c) h" and "length p \<le> unat (cd_max_payload c)"
  shows "case deliver h p c src of
      Continue c' src' \<Rightarrow> codec_ok c'
    | Return r c' src' \<Rightarrow> codec_ok c' \<and>
        (\<forall>f. r = Ok (Some f) \<longrightarrow> length (fr_payload f) \<le> unat (cd_max_payload c) * 4)"
  using assms
  by (auto simp: deliver_def codec_ok_def frame_new_def Let_def
      split: Segmentation.split option.split DecodeState.split)

lemma decode_step_ok:
  assumes "codec_ok c"
  shows "case decode_step c src of
      Continue c' src' \<Rightarrow> codec_ok c' \<and> cd_max_payload c' = cd_max_payload c
    | Return r c' src' \<Rightarrow> codec_ok c' \<and> cd_max_payload c' = cd_max_payload c \<and>
        (\<forall>f. r = Ok (Some f) \<longrightarrow> length (fr_payload f) \<le> unat (cd_max_payload c) * 4)"
proof -
  have max: "case decode_step c src of Continue c' src' \<Rightarrow> cd_max_payload c' = cd_max_payload c
      | Return r c' src' \<Rightarrow> cd_max_payload c' = cd_max_payload c"
    by (auto simp: decode_step_def header_step_def payload_step_def deliver_def Let_def
        split: DecodeState.split option.split Segmentation.split)
  show ?thesis
  proof (cases "cd_state c")
    case DsHeader
    then show ?thesis
      using header_step_ok[OF assms, of src] max
      by (auto simp: decode_step_def split: step_result.splits)
  next
    case (DsPayload h)
    then have h: "size_ok (cd_max_payload c) h"
      using assms by (simp add: codec_ok_def)
    let ?c = "c \<lparr> cd_total_bytes := cd_total_bytes c + of_nat (HEADER_SIZE + payload_usize h),
                   cd_state := DsHeader \<rparr>"
    have "codec_ok ?c"
      using assms by (simp add: codec_ok_def split: option.splits)
    then show ?thesis
      using deliver_ok[of ?c h "take (payload_usize h) (drop HEADER_SIZE src)"
          "drop (HEADER_SIZE + payload_usize h) src"] h size_ok_usize[OF h] max DsPayload assms
      by (auto simp: decode_step_def payload_step_def Let_def split: step_result.splits if_splits)
  qed
qed

lemma decode_frame_ok:
  assumes "codec_ok c" and "decode_frame c src = (r, c', src')"
  shows "codec_ok c' \<and> cd_max_payload c' = cd_max_payload c \<and>
    (\<forall>f. r = Ok (Some f) \<longrightarrow> length (fr_payload f) \<le> unat (cd_max_payload c) * 4)"
  using assms
proof (induction c src rule: decode_frame.induct)
  case (1 c src)
  show ?case
  proof (cases "decode_step c src")
    case (Continue d s)
    then have "codec_ok d" "cd_max_payload d = cd_max_payload c" "decode_frame d s = (r, c', src')"
      using decode_step_ok[OF 1(2), of src] 1(3) by (simp_all add: decode_frame.simps[of c])
    then show ?thesis
      using 1(1)[OF Continue] by simp
  next
    case (Return q d s)
    then show ?thesis
      using decode_step_ok[OF 1(2), of src] 1(3) by (simp add: decode_frame.simps[of c])
  qed
qed

section \<open>Whole frames\<close>

text \<open>A frame the decoder accepts as it is: what the senders of the source build.\<close>

definition app_wf :: "u32 \<Rightarrow> pva_frame \<Rightarrow> bool" where
  "app_wf m f = (size_ok m (fr_header f) \<and>
     length (fr_payload f) = unat (hdr_payload_size (fr_header f)))"

definition frame_wf :: "u32 \<Rightarrow> pva_frame \<Rightarrow> bool" where
  "frame_wf m f =
    (if frame_is_control f then fr_payload f = []
     else app_wf m f \<and> hdr_segmentation (fr_header f) = SegNone)"

lemma encode_frame_Nil: "encode_frame f [] = header_encode (fr_header f) @ fr_payload f"
  by (simp add: encode_frame_def Let_def)

lemma length_encode_frame: "length (encode_frame f dst) = length dst + frame_wire_size f"
  by (simp add: encode_frame_def Let_def frame_wire_size_def)

abbreviation count_bytes :: "nat \<Rightarrow> pva_codec \<Rightarrow> pva_codec" where
  "count_bytes n c \<equiv> c \<lparr> cd_total_bytes := cd_total_bytes c + of_nat n \<rparr>"

lemma decode_frame_control:
  assumes "cd_state c = DsHeader" and "is_control h"
  shows "decode_frame c (header_encode h @ rest) =
    (Ok (Some (frame_new h [])),
     c \<lparr> cd_total_bytes := cd_total_bytes c + of_nat HEADER_SIZE,
         cd_total_frames := cd_total_frames c + 1 \<rparr>, rest)"
  using assms by (simp add: decode_frame.simps[of c] decode_step_def header_step_def)

lemma decode_frame_app:
  assumes st: "cd_state c = DsHeader" and f: "app_wf (cd_max_payload c) f"
  shows "decode_frame c (encode_frame f [] @ rest) =
    (case deliver (fr_header f) (fr_payload f) (count_bytes (frame_wire_size f) c) rest of
       Return r c' s \<Rightarrow> (r, c', s)
     | Continue c' s \<Rightarrow> decode_frame c' s)"
proof -
  let ?h = "fr_header f" and ?p = "fr_payload f"
  let ?src = "encode_frame f [] @ rest" and ?d = "c \<lparr> cd_state := DsPayload (fr_header f) \<rparr>"
  have h: "\<not> is_control ?h" "\<not> hdr_payload_size ?h <s 0" "\<not> hdr_payload_size ?h > cd_max_payload c"
    "payload_usize ?h = length ?p"
    using f by (auto simp: app_wf_def size_ok_def not_sless_0 payload_usize_eq)
  have "decode_step c ?src = Continue ?d ?src"
    using st h by (simp add: decode_step_def header_step_def encode_frame_Nil)
  moreover have idle: "c \<lparr> cd_total_bytes := n, cd_state := DsHeader \<rparr> = c \<lparr> cd_total_bytes := n \<rparr>" for n
    using st by (cases c) simp
  have "decode_step ?d ?src =
      deliver ?h ?p (count_bytes (frame_wire_size f) c) rest"
    using st h by (simp add: decode_step_def payload_step_def Let_def encode_frame_Nil
        frame_wire_size_def idle)
  ultimately show ?thesis
    by (simp add: decode_frame.simps[of c] decode_frame.simps[of ?d])
qed

lemma decode_encode_frame:
  assumes "cd_state c = DsHeader" and "frame_wf (cd_max_payload c) f"
  shows "decode_frame c (encode_frame f [] @ rest) =
    (Ok (Some f),
     c \<lparr> cd_total_bytes := cd_total_bytes c + of_nat (frame_wire_size f),
         cd_total_frames := cd_total_frames c + 1 \<rparr>, rest)"
proof (cases "frame_is_control f")
  case True
  then show ?thesis
    using assms decode_frame_control[of c "fr_header f" rest]
    by (simp add: frame_wf_def frame_is_control_def encode_frame_Nil frame_new_def
        frame_wire_size_def)
next
  case False
  then show ?thesis
    using assms
    by (simp add: frame_wf_def decode_frame_app deliver_def frame_new_def)
qed

section \<open>Reassembly\<close>

definition wire :: "pva_frame list \<Rightarrow> bytes" where
  "wire fs = concat (map (\<lambda>f. encode_frame f []) fs)"

definition joined :: "pva_frame list \<Rightarrow> bytes" where
  "joined fs = concat (map fr_payload fs)"

definition seg_is :: "Segmentation \<Rightarrow> pva_frame \<Rightarrow> bool" where
  "seg_is s f = (hdr_segmentation (fr_header f) = s)"

lemma wire_simps' [simp]:
  "wire [] = []" "wire (f # fs) = encode_frame f [] @ wire fs"
  "wire (fs @ gs) = wire fs @ wire gs"
  by (simp_all add: wire_def)

lemma joined_simps [simp]:
  "joined [] = []" "joined (f # fs) = fr_payload f @ joined fs"
  "joined (fs @ gs) = joined fs @ joined gs"
  by (simp_all add: joined_def)

lemma length_wire: "length (wire fs) = (\<Sum>f\<leftarrow>fs. frame_wire_size f)"
  by (induction fs) (simp_all add: length_encode_frame)

lemma upd_seg_bytes:
  "c \<lparr> cd_total_bytes := n, cd_segment_buf := s \<rparr> = c \<lparr> cd_segment_buf := s, cd_total_bytes := n \<rparr>"
  by (cases c) simp

lemma decode_middle_segments:
  assumes "cd_state c = DsHeader" and "cd_segment_buf c = Some seg"
    and "\<forall>f \<in> set fs. app_wf (cd_max_payload c) f \<and> seg_is SegMiddle f"
    and "length (sb_data seg) + length (joined fs) \<le> unat (cd_max_payload c) * 4"
  shows "decode_frame c (wire fs @ rest) =
    decode_frame (c \<lparr> cd_segment_buf := Some (seg \<lparr> sb_data := sb_data seg @ joined fs \<rparr>),
      cd_total_bytes := cd_total_bytes c + of_nat (length (wire fs)) \<rparr>) rest"
  using assms
proof (induction fs arbitrary: c seg)
  case (Cons f fs)
  let ?seg = "seg \<lparr> sb_data := sb_data seg @ fr_payload f \<rparr>"
  let ?c = "c \<lparr> cd_segment_buf := Some ?seg,
    cd_total_bytes := cd_total_bytes c + of_nat (frame_wire_size f) \<rparr>"
  have "decode_frame c (wire (f # fs) @ rest) = decode_frame ?c (wire fs @ rest)"
    using Cons.prems decode_frame_app[of c f "wire fs @ rest"]
    by (simp add: deliver_def seg_is_def upd_seg_bytes)
  also have "\<dots> = decode_frame (?c \<lparr>
      cd_segment_buf := Some (?seg \<lparr> sb_data := sb_data ?seg @ joined fs \<rparr>),
      cd_total_bytes := cd_total_bytes ?c + of_nat (length (wire fs)) \<rparr>) rest"
    by (rule Cons.IH) (use Cons.prems in simp_all)
  finally show ?case
    by (simp add: length_encode_frame add.assoc)
next
  case Nil
  then have "c \<lparr> cd_segment_buf := Some seg \<rparr> = c"
    by (cases c) simp
  then show ?case
    by simp
qed

lemma decode_segments:
  assumes "cd_state c = DsHeader"
    and "\<forall>f \<in> set (f0 # ms @ [l]). app_wf (cd_max_payload c) f"
    and "seg_is SegFirst f0" "\<forall>f \<in> set ms. seg_is SegMiddle f" "seg_is SegLast l"
    and "length (joined (f0 # ms @ [l])) \<le> unat (cd_max_payload c) * 4"
  shows "decode_frame c (wire (f0 # ms @ [l]) @ rest) =
    (Ok (Some (frame_new (with_segmentation SegNone ((fr_header f0)
        \<lparr> hdr_payload_size := of_nat (length (joined (f0 # ms @ [l]))) \<rparr>))
        (joined (f0 # ms @ [l])))),
     c \<lparr> cd_segment_buf := None,
         cd_total_bytes := cd_total_bytes c + of_nat (length (wire (f0 # ms @ [l]))),
         cd_total_frames := cd_total_frames c + 1 \<rparr>, rest)"
proof -
  let ?seg = "\<lparr> sb_header = fr_header f0, sb_data = fr_payload f0 \<rparr>"
  let ?c1 = "c \<lparr> cd_segment_buf := Some ?seg,
    cd_total_bytes := cd_total_bytes c + of_nat (frame_wire_size f0) \<rparr>"
  let ?c2 = "?c1 \<lparr> cd_segment_buf := Some (?seg \<lparr> sb_data := sb_data ?seg @ joined ms \<rparr>),
    cd_total_bytes := cd_total_bytes ?c1 + of_nat (length (wire ms)) \<rparr>"
  have "decode_frame c (wire (f0 # ms @ [l]) @ rest) =
      decode_frame ?c1 (wire ms @ (encode_frame l [] @ rest))"
    using assms decode_frame_app[of c f0 "wire ms @ (encode_frame l [] @ rest)"]
    by (simp add: deliver_def seg_is_def upd_seg_bytes)
  also have "\<dots> = decode_frame ?c2 (encode_frame l [] @ rest)"
    by (rule decode_middle_segments) (use assms in simp_all)
  also have "\<dots> = (case deliver (fr_header l) (fr_payload l) (count_bytes (frame_wire_size l) ?c2)
      rest of Return r c' s \<Rightarrow> (r, c', s) | Continue c' s \<Rightarrow> decode_frame c' s)"
    by (rule decode_frame_app) (use assms in simp_all)
  finally show ?thesis
    using assms
    by (simp add: deliver_def seg_is_def Let_def length_encode_frame add_ac)
qed

section \<open>Properties\<close>

text \<open>Decoding is incremental: on a buffer that is extended by later bytes the decoder
  gives the answer it gave on the short buffer, with the later bytes left over, or, where
  the short buffer was incomplete, what it gives when it resumes from the state it left.\<close>

theorem incremental_decoding:
  "decode_frame c (src @ later) =
    (case decode_frame c src of
       (Ok None, c', src') \<Rightarrow> decode_frame c' (src' @ later)
     | (r, c', src') \<Rightarrow> (r, c', src' @ later))"
proof -
  obtain r c' src' where d: "decode_frame c src = (r, c', src')"
    by (cases "decode_frame c src") auto
  show ?thesis
    using decode_frame_more[OF d, of later] by (auto simp: d split: sum.split option.split)
qed

text \<open>C15. A first segment, any number of middle segments and a last segment are delivered
  as one frame: the payloads in order, under the first header with its segmentation bits
  cleared and the total size, one frame and all wire bytes counted, the buffer freed.\<close>

theorem segment_reassembly:
  assumes "cd_state c = DsHeader"
    and "\<forall>f \<in> set (f0 # ms @ [l]). app_wf (cd_max_payload c) f"
    and "seg_is SegFirst f0" "\<forall>f \<in> set ms. seg_is SegMiddle f" "seg_is SegLast l"
    and "length (joined (f0 # ms @ [l])) \<le> unat (cd_max_payload c) * 4"
  shows "\<exists>h. decode_frame c (wire (f0 # ms @ [l]) @ rest) =
      (Ok (Some (frame_new h (joined (f0 # ms @ [l])))),
       c \<lparr> cd_segment_buf := None,
           cd_total_bytes := cd_total_bytes c + of_nat (length (wire (f0 # ms @ [l]))),
           cd_total_frames := cd_total_frames c + 1 \<rparr>, rest) \<and>
    hdr_segmentation h = SegNone \<and> hdr_command h = hdr_command (fr_header f0) \<and>
    hdr_byte_order h = hdr_byte_order (fr_header f0) \<and>
    hdr_payload_size h = of_nat (length (joined (f0 # ms @ [l])))"
proof -
  have "hdr_byte_order ((fr_header f0) \<lparr> hdr_payload_size := n \<rparr>) = hdr_byte_order (fr_header f0)" for n
    by (simp add: hdr_byte_order_def)
  then show ?thesis
    unfolding decode_segments[OF assms] by (intro exI conjI) (rule refl | simp)+
qed

theorem segment_reassembly_witness:
  "\<exists>h. fst (decode_frame codec_new
      (wire [frame_new \<lparr> hdr_version = 2, hdr_flags = 0x10, hdr_command = 13, hdr_payload_size = 2 \<rparr> [1, 2],
             frame_new \<lparr> hdr_version = 2, hdr_flags = 0x20, hdr_command = 13, hdr_payload_size = 1 \<rparr> [3]]))
    = Ok (Some (frame_new h [1, 2, 3])) \<and> hdr_segmentation h = SegNone"
  using segment_reassembly[of codec_new
      "frame_new \<lparr> hdr_version = 2, hdr_flags = 0x10, hdr_command = 13, hdr_payload_size = 2 \<rparr> [1, 2]" "[]"
      "frame_new \<lparr> hdr_version = 2, hdr_flags = 0x20, hdr_command = 13, hdr_payload_size = 1 \<rparr> [3]" "[]"]
  by (auto simp: codec_new_def app_wf_def size_ok_def frame_new_def is_control_def seg_is_def
      hdr_segmentation_def seg_from_flags_def flag_consts MAX_PAYLOAD_SIZE_def word_sle_eq)

text \<open>C32. The decoder never holds or delivers more than its limits allow: a pending payload
  is an application header with a size between zero and the maximum, the reassembly buffer
  and every delivered payload stay within four times the maximum.\<close>

theorem codec_bounded:
  assumes "codec_ok c" and "decode_frame c src = (r, c', src')"
  shows "codec_ok c' \<and> cd_max_payload c' = cd_max_payload c \<and>
    (\<forall>f. r = Ok (Some f) \<longrightarrow> length (fr_payload f) \<le> unat (cd_max_payload c) * 4)"
  using assms by (rule decode_frame_ok)

theorem codec_bounded_witness:
  "case decode_frame codec_new [0xCA, 2, 0, 13, 1, 0, 0, 0, 7] of
    (r, c', src') \<Rightarrow> codec_ok c' \<and> cd_max_payload c' = MAX_PAYLOAD_SIZE"
proof -
  obtain r c' src' where d: "decode_frame codec_new [0xCA, 2, 0, 13, 1, 0, 0, 0, 7] = (r, c', src')"
    by (cases "decode_frame codec_new [0xCA, 2, 0, 13, 1, 0, 0, 0, 7]") auto
  show ?thesis
    using codec_bounded[OF codec_ok_new d] by (simp add: d)
qed

text \<open>A rejected header is not consumed: once the decoder reports a bad magic byte, a
  negative or an oversized payload, the codec and the buffer are unchanged and every later
  call reports the same error, whatever bytes arrive.\<close>

theorem header_errors_stick:
  assumes "decode_frame c src = (Err e, c', src')"
    and "e \<notin> {CeSegmentTooLarge, CeUnexpectedSegment}"
  shows "decode_frame c' (src' @ later) = (Err e, c', src' @ later)"
  using assms
proof (induction c src rule: decode_frame.induct)
  case (1 c src)
  show ?case
  proof (cases "decode_step c src")
    case (Continue d s)
    then show ?thesis
      using 1 by (simp add: decode_frame.simps[of c])
  next
    case (Return q d s)
    then have r: "decode_step c src = Return (Err e) c' src'"
      using 1(2) by (simp add: decode_frame.simps[of c])
    then have "c' = c \<and> src' = src"
      using 1(3) by (auto simp: decode_step_def header_step_def payload_step_def deliver_def Let_def
          split: DecodeState.splits option.splits if_splits Segmentation.splits)
    then show ?thesis
      using decode_frame_more[OF 1(2), of later] 1(2) by simp
  qed
qed

theorem header_errors_stick_witness:
  "decode_frame codec_new ([0, 1, 2, 3, 4, 5, 6, 7] @ [9, 9]) =
    (Err (CeBadMagic 0), codec_new, [0, 1, 2, 3, 4, 5, 6, 7] @ [9, 9])"
proof -
  have "decode_frame codec_new [0, 1, 2, 3, 4, 5, 6, 7] =
      (Err (CeBadMagic 0), codec_new, [0, 1, 2, 3, 4, 5, 6, 7])"
    by (simp add: decode_frame.simps[of codec_new] decode_step_def header_step_def
        header_decode_def PVA_MAGIC_def HEADER_SIZE_def)
  from header_errors_stick[OF this] show ?thesis by simp
qed

end
