(* ===== verification/Transport.thy ===== *)
theory Transport
  imports Framing
begin

text \<open>
  The TCP connection of \<open>aura-net/src/runtime/tcp.rs\<close>: framed reads over a stream of
  chunks, immediate and buffered writes.  The socket itself is outside the sources;
  the bytes it delivers are the list of read results given to \<open>recv_frame\<close> (an empty
  chunk is end of file), a write either takes all bytes (\<open>None\<close>) or takes a prefix and
  fails (\<open>Some (k, e)\<close>).  \<open>tcp_out\<close> collects what the peer gets.  The connection setup
  and socket options are not modelled.
\<close>

datatype 'io TransportError = TeIo 'io | TeCodec CodecError | TeTimeout | TeClosed

record pva_tcp =
  tcp_codec :: pva_codec
  tcp_read_buf :: bytes
  tcp_write_buf :: bytes
  tcp_bytes_read :: u64
  tcp_bytes_written :: u64
  tcp_out :: bytes

definition tcp_connected :: pva_tcp where
  "tcp_connected = \<lparr> tcp_codec = codec_new, tcp_read_buf = [], tcp_write_buf = [],
     tcp_bytes_read = 0, tcp_bytes_written = 0, tcp_out = [] \<rparr>"

definition tcp_byte_order :: "pva_tcp \<Rightarrow> ByteOrder" where
  "tcp_byte_order t = cd_byte_order (tcp_codec t)"

definition tcp_set_byte_order :: "ByteOrder \<Rightarrow> pva_tcp \<Rightarrow> pva_tcp" where
  "tcp_set_byte_order ord t = t \<lparr> tcp_codec := (tcp_codec t) \<lparr> cd_byte_order := ord \<rparr> \<rparr>"

section \<open>Receiving\<close>

type_synonym 'io reads = "('io + bytes) list"

text \<open>
  The loop of \<open>recv_frame\<close>: decode from the buffer, read when it is incomplete.  The
  outer option is \<open>None\<close> while the socket has nothing more to give and the call is
  still waiting.
\<close>

fun recv_frame ::
  "pva_tcp \<Rightarrow> 'io reads \<Rightarrow> ('io TransportError + pva_frame) option \<times> pva_tcp \<times> 'io reads" where
  "recv_frame t reads =
    (case decode_frame (tcp_codec t) (tcp_read_buf t) of (r, c, buf) \<Rightarrow>
      let t' = t \<lparr> tcp_codec := c, tcp_read_buf := buf \<rparr> in
      (case r of
         Err e \<Rightarrow> (Some (Err (TeCodec e)), t', reads)
       | Ok (Some f) \<Rightarrow> (Some (Ok f), t', reads)
       | Ok None \<Rightarrow>
          (case reads of
             [] \<Rightarrow> (None, t', [])
           | Err e # rs \<Rightarrow> (Some (Err (TeIo e)), t', rs)
           | Ok chunk # rs \<Rightarrow>
              if chunk = [] then (Some (Err TeClosed), t', rs)
              else recv_frame (t' \<lparr> tcp_read_buf := buf @ chunk,
                     tcp_bytes_read := tcp_bytes_read t' + of_nat (length chunk) \<rparr>) rs)))"

declare recv_frame.simps [simp del]

text \<open>The bytes that successful reads deliver.\<close>

definition chunks :: "bytes list \<Rightarrow> 'io reads" where
  "chunks cs = map Ok cs"

text \<open>Successive calls, as the session loops make them.\<close>

fun recv_many ::
  "nat \<Rightarrow> pva_tcp \<Rightarrow> 'io reads \<Rightarrow> ('io TransportError + pva_frame) option list" where
  "recv_many 0 t reads = []"
| "recv_many (Suc n) t reads =
    (case recv_frame t reads of
       (Some (Ok f), t', reads') \<Rightarrow> Some (Ok f) # recv_many n t' reads'
     | (r, t', reads') \<Rightarrow> [r])"

section \<open>Sending\<close>

type_synonym 'io write_outcome = "(nat \<times> 'io) option"

definition stream_write_all ::
  "'io write_outcome \<Rightarrow> bytes \<Rightarrow> pva_tcp \<Rightarrow> ('io TransportError + unit) \<times> pva_tcp" where
  "stream_write_all w bs t =
    (case w of
       None \<Rightarrow> (Ok (), t \<lparr> tcp_out := tcp_out t @ bs \<rparr>)
     | Some (k, e) \<Rightarrow> (Err (TeIo e), t \<lparr> tcp_out := tcp_out t @ take k bs \<rparr>))"

definition send_control ::
  "'io write_outcome \<Rightarrow> byte \<Rightarrow> 32 word \<Rightarrow> pva_tcp \<Rightarrow> ('io TransportError + unit) \<times> pva_tcp" where
  "send_control w cmd v t =
    (case stream_write_all w (header_encode (header_ctrl cmd v)) t of
       (Err e, t') \<Rightarrow> (Err e, t')
     | (Ok u, t') \<Rightarrow>
         (Ok (), t' \<lparr> tcp_bytes_written := tcp_bytes_written t' + of_nat HEADER_SIZE \<rparr>))"

definition message_bytes :: "byte \<Rightarrow> bytes \<Rightarrow> bytes" where
  "message_bytes cmd payload = header_encode (header_app cmd (of_nat (length payload))) @ payload"

definition send_msg ::
  "'io write_outcome \<Rightarrow> byte \<Rightarrow> bytes \<Rightarrow> pva_tcp \<Rightarrow> ('io TransportError + unit) \<times> pva_tcp" where
  "send_msg w cmd payload t =
    (let t1 = t \<lparr> tcp_write_buf := message_bytes cmd payload \<rparr> in
     case stream_write_all w (tcp_write_buf t1) t1 of
       (Err e, t') \<Rightarrow> (Err e, t')
     | (Ok u, t') \<Rightarrow>
         (Ok (), t' \<lparr> tcp_bytes_written :=
            tcp_bytes_written t' + of_nat (length (tcp_write_buf t')) \<rparr>))"

definition buffer_msg :: "byte \<Rightarrow> bytes \<Rightarrow> pva_tcp \<Rightarrow> pva_tcp" where
  "buffer_msg cmd payload t =
    t \<lparr> tcp_write_buf := tcp_write_buf t @ message_bytes cmd payload \<rparr>"

definition flush_writes ::
  "'io write_outcome \<Rightarrow> pva_tcp \<Rightarrow> ('io TransportError + unit) \<times> pva_tcp" where
  "flush_writes w t =
    (if tcp_write_buf t = [] then (Ok (), t)
     else
      (case stream_write_all w (tcp_write_buf t) t of
         (Err e, t') \<Rightarrow> (Err e, t')
       | (Ok u, t') \<Rightarrow>
           (Ok (), t' \<lparr> tcp_bytes_written :=
                tcp_bytes_written t' + of_nat (length (tcp_write_buf t')),
              tcp_write_buf := [] \<rparr>)))"

section \<open>Chunking does not matter\<close>

lemma chunks_simps [simp]: "chunks [] = []" "chunks (c # cs) = Ok c # chunks cs"
  by (simp_all add: chunks_def)

definition as_decoded :: "('io TransportError + pva_frame) option \<Rightarrow> CodecError + pva_frame option" where
  "as_decoded r = (case r of Some (Ok f) \<Rightarrow> Ok (Some f)
    | Some (Err (TeCodec e)) \<Rightarrow> Err e | _ \<Rightarrow> Ok None)"

lemma recv_frame_decodes:
  assumes "[] \<notin> set cs"
  shows "\<exists>r t' cs'. recv_frame t (chunks cs :: 'io reads) = (r, t', chunks cs') \<and> [] \<notin> set cs' \<and>
    (\<forall>e. r = Some (Err e) \<longrightarrow> (\<exists>ce. e = TeCodec ce)) \<and> (r = None \<longrightarrow> cs' = []) \<and>
    decode_frame (tcp_codec t) (tcp_read_buf t @ concat cs) =
      (as_decoded r, tcp_codec t', tcp_read_buf t' @ concat cs')"
  using assms
proof (induction cs arbitrary: t)
  case Nil
  obtain r c buf where d: "decode_frame (tcp_codec t) (tcp_read_buf t) = (r, c, buf)"
    by (cases "decode_frame (tcp_codec t) (tcp_read_buf t)") auto
  show ?case
    by (intro exI[of _ "case r of Err e \<Rightarrow> Some (Err (TeCodec e)) | Ok x \<Rightarrow> map_option Ok x"]
        exI[of _ "t \<lparr> tcp_codec := c, tcp_read_buf := buf \<rparr>"] exI[of _ "[]"])
      (auto simp: recv_frame.simps[of t] d Let_def as_decoded_def split: sum.splits option.splits)
next
  case (Cons ch cs)
  obtain r c buf where d: "decode_frame (tcp_codec t) (tcp_read_buf t) = (r, c, buf)"
    by (cases "decode_frame (tcp_codec t) (tcp_read_buf t)") auto
  note later = decode_frame_more[OF d, of "ch @ concat cs"]
  show ?case
  proof (cases "r = Ok None")
    case False
    then show ?thesis
      using later Cons.prems
      by (intro exI[of _ "case r of Err e \<Rightarrow> Some (Err (TeCodec e)) | Ok x \<Rightarrow> map_option Ok x"]
          exI[of _ "t \<lparr> tcp_codec := c, tcp_read_buf := buf \<rparr>"] exI[of _ "ch # cs"])
        (auto simp: recv_frame.simps[of t] d Let_def as_decoded_def split: sum.splits option.splits)
  next
    case True
    let ?t = "t \<lparr> tcp_codec := c, tcp_read_buf := buf @ ch,
      tcp_bytes_read := tcp_bytes_read t + of_nat (length ch) \<rparr>"
    have "recv_frame t (chunks (ch # cs) :: 'io reads) = recv_frame ?t (chunks cs)"
      using True Cons.prems by (auto simp add: recv_frame.simps[of t] d Let_def)
    then show ?thesis
      using Cons.IH[of ?t] later True Cons.prems by simp
  qed
qed

text \<open>What a call answers is determined by the bytes still to come, not by their chunks.\<close>

lemma as_decoded_inj:
  assumes "as_decoded r = as_decoded r'"
    and "\<forall>e. r = Some (Err e) \<longrightarrow> (\<exists>ce. e = TeCodec ce)"
    and "\<forall>e. r' = Some (Err e) \<longrightarrow> (\<exists>ce. e = TeCodec ce)"
  shows "r = r'"
  using assms by (auto simp: as_decoded_def split: option.splits sum.splits)

lemma recv_many_chunking:
  assumes "[] \<notin> set cs" "[] \<notin> set ds"
    and "tcp_codec t = tcp_codec u"
    and "tcp_read_buf t @ concat cs = tcp_read_buf u @ concat ds"
  shows "recv_many n t (chunks cs :: 'io reads) = recv_many n u (chunks ds)"
  using assms
proof (induction n arbitrary: t u cs ds)
  case (Suc n)
  obtain r t' cs' where 1: "recv_frame t (chunks cs :: 'io reads) = (r, t', chunks cs')" "[] \<notin> set cs'"
      "\<forall>e. r = Some (Err e) \<longrightarrow> (\<exists>ce. e = TeCodec ce)"
      "decode_frame (tcp_codec t) (tcp_read_buf t @ concat cs) =
        (as_decoded r, tcp_codec t', tcp_read_buf t' @ concat cs')"
    using recv_frame_decodes[OF Suc.prems(1), of t] by blast
  obtain q u' ds' where 2: "recv_frame u (chunks ds :: 'io reads) = (q, u', chunks ds')" "[] \<notin> set ds'"
      "\<forall>e. q = Some (Err e) \<longrightarrow> (\<exists>ce. e = TeCodec ce)"
      "decode_frame (tcp_codec u) (tcp_read_buf u @ concat ds) =
        (as_decoded q, tcp_codec u', tcp_read_buf u' @ concat ds')"
    using recv_frame_decodes[OF Suc.prems(2), of u] by blast
  have "as_decoded r = as_decoded q" and c: "tcp_codec t' = tcp_codec u'"
      "tcp_read_buf t' @ concat cs' = tcp_read_buf u' @ concat ds'"
    using 1(4) 2(4) Suc.prems by auto
  then have "r = q"
    using 1(3) 2(3) by (blast intro: as_decoded_inj)
  moreover have "recv_many n t' (chunks cs' :: 'io reads) = recv_many n u' (chunks ds')"
    by (rule Suc.IH[OF 1(2) 2(2) c])
  ultimately show ?case
    by (simp add: 1(1) 2(1) split: option.split sum.split)
qed simp

section \<open>Sent messages\<close>

lemma header_app_simps [simp]:
  "hdr_payload_size (header_app cmd sz) = sz" "hdr_command (header_app cmd sz) = cmd"
  "hdr_byte_order (header_app cmd sz) = LittleEndian"
  "\<not> is_control (header_app cmd sz)" "hdr_segmentation (header_app cmd sz) = SegNone"
  by (simp_all add: header_app_def hdr_byte_order_def order_from_flags_def is_control_def
      hdr_segmentation_def seg_from_flags_def flag_consts)

lemma message_wf:
  assumes "length p \<le> unat m" and "unat m < 2 ^ 31"
  shows "frame_wf m (frame_new (header_app cmd (of_nat (length p))) p)"
proof -
  have small: "length p < 2 ^ 31"
    using assms by simp
  then have u: "unat (of_nat (length p) :: 32 word) = length p"
    by (simp add: unat_of_nat)
  have "0 \<le>s (of_nat (length p) :: 32 word)"
    using small by (simp add: word_sle_eq sint_of_nat_32)
  with u assms show ?thesis
    by (simp add: frame_wf_def app_wf_def size_ok_def frame_new_def frame_is_control_def
        word_le_nat_alt)
qed

text \<open>One call against a stream that starts with an encoded frame.\<close>

lemma recv_frame_encoded:
  assumes "cd_state (tcp_codec t) = DsHeader" and "[] \<notin> set cs"
    and "frame_wf (cd_max_payload (tcp_codec t)) f"
    and "tcp_read_buf t @ concat cs = encode_frame f [] @ tail"
  shows "\<exists>t' cs'. recv_frame t (chunks cs :: 'io reads) = (Some (Ok f), t', chunks cs') \<and>
    [] \<notin> set cs' \<and> tcp_read_buf t' @ concat cs' = tail \<and> cd_state (tcp_codec t') = DsHeader \<and>
    cd_max_payload (tcp_codec t') = cd_max_payload (tcp_codec t) \<and>
    cd_byte_order (tcp_codec t') = cd_byte_order (tcp_codec t)"
proof -
  obtain r t' cs' where 1: "recv_frame t (chunks cs :: 'io reads) = (r, t', chunks cs')" "[] \<notin> set cs'"
      "\<forall>e. r = Some (Err e) \<longrightarrow> (\<exists>ce. e = TeCodec ce)"
      "decode_frame (tcp_codec t) (tcp_read_buf t @ concat cs) =
        (as_decoded r, tcp_codec t', tcp_read_buf t' @ concat cs')"
    using recv_frame_decodes[OF assms(2), of t] by blast
  have "decode_frame (tcp_codec t) (encode_frame f [] @ tail) = (Ok (Some f),
      (tcp_codec t) \<lparr> cd_total_bytes := cd_total_bytes (tcp_codec t) + of_nat (frame_wire_size f),
         cd_total_frames := cd_total_frames (tcp_codec t) + 1 \<rparr>, tail)"
    by (rule decode_encode_frame) (use assms in simp_all)
  then have d: "as_decoded r = Ok (Some f)" "tcp_read_buf t' @ concat cs' = tail"
      "cd_state (tcp_codec t') = DsHeader"
      "cd_max_payload (tcp_codec t') = cd_max_payload (tcp_codec t)"
      "cd_byte_order (tcp_codec t') = cd_byte_order (tcp_codec t)"
    using 1(4) assms(1,4) by (auto simp: eq_commute[of _ "tcp_codec t'"])
  then have "r = Some (Ok f)"
    using 1(3) by (auto simp: as_decoded_def split: option.splits sum.splits TransportError.splits)
  with 1 d show ?thesis
    by blast
qed

lemma recv_many_frames:
  assumes "cd_state (tcp_codec t) = DsHeader" and "[] \<notin> set cs"
    and "\<forall>f \<in> set fs. frame_wf (cd_max_payload (tcp_codec t)) f"
    and "tcp_read_buf t @ concat cs = wire fs @ tail"
  shows "recv_many (length fs) t (chunks cs :: 'io reads) = map (\<lambda>f. Some (Ok f)) fs"
  using assms
proof (induction fs arbitrary: t cs)
  case (Cons f fs)
  obtain t' cs' where 1: "recv_frame t (chunks cs :: 'io reads) = (Some (Ok f), t', chunks cs')"
      "[] \<notin> set cs'" "tcp_read_buf t' @ concat cs' = wire fs @ tail"
      "cd_state (tcp_codec t') = DsHeader" "cd_max_payload (tcp_codec t') = cd_max_payload (tcp_codec t)"
    using recv_frame_encoded[OF Cons.prems(1,2), of f "wire fs @ tail"] Cons.prems by auto
  have "recv_many (length fs) t' (chunks cs' :: 'io reads) = map (\<lambda>f. Some (Ok f)) fs"
    by (rule Cons.IH) (use Cons.prems 1 in simp_all)
  then show ?case
    by (simp add: 1(1))
qed simp

text \<open>Receiving leaves the sending side alone.\<close>

lemma recv_frame_sending:
  "recv_frame t reads = (r, t', reads') \<Longrightarrow> tcp_out t' = tcp_out t \<and> tcp_write_buf t' = tcp_write_buf t"
proof (induction t reads rule: recv_frame.induct)
  case (1 t reads)
  obtain q c buf where d: "decode_frame (tcp_codec t) (tcp_read_buf t) = (q, c, buf)"
    by (cases "decode_frame (tcp_codec t) (tcp_read_buf t)") auto
  show ?case
    using 1 by (fastforce simp: recv_frame.simps[of t] d Let_def
        split: sum.splits option.splits list.splits if_splits)
qed

section \<open>Properties\<close>

text \<open>C4. However the network cuts the byte stream into reads, successive calls of
  \<open>recv_frame\<close> return exactly the frames the peer encoded, in order; the bytes after them
  stay for later calls.\<close>

theorem stream_round_trip:
  assumes "cd_state (tcp_codec t) = DsHeader" and "[] \<notin> set cs"
    and "\<forall>f \<in> set fs. frame_wf (cd_max_payload (tcp_codec t)) f"
    and "tcp_read_buf t @ concat cs = wire fs @ tail"
  shows "recv_many (length fs) t (chunks cs :: 'io reads) = map (\<lambda>f. Some (Ok f)) fs"
  using assms by (rule recv_many_frames)

theorem stream_round_trip_witness:
  "recv_many 1 tcp_connected (chunks [[0xCA, 2, 1], [2, 0, 0, 0, 0], [9]] :: unit reads) =
    [Some (Ok (frame_new (header_ctrl 2 0) []))]"
proof -
  have "wire [frame_new (header_ctrl 2 0) []] @ [9] = concat [[0xCA, 2, 1], [2, 0, 0, 0, 0], [9]]"
    by (simp add: wire_def encode_frame_def frame_new_def header_ctrl_def header_encode_def
        PVA_MAGIC_def PVA_VERSION_def CONTROL_def hdr_byte_order_def order_from_flags_bit
        le_bytes_def)
  then show ?thesis
    using stream_round_trip[of tcp_connected "[[0xCA, 2, 1], [2, 0, 0, 0, 0], [9]]"
        "[frame_new (header_ctrl 2 0) []]" "[9]"]
    by (simp add: tcp_connected_def codec_new_def frame_wf_def frame_is_control_def frame_new_def
        header_ctrl_def is_control_def CONTROL_def)
qed

text \<open>The answers of a receiver depend on the bytes it gets, not on how they are cut:
  two connections with the same decoder state and the same remaining byte stream return the
  same frames and the same error, call by call.\<close>

theorem chunking_irrelevant:
  assumes "[] \<notin> set cs" "[] \<notin> set ds" and "tcp_codec t = tcp_codec u"
    and "tcp_read_buf t @ concat cs = tcp_read_buf u @ concat ds"
  shows "recv_many n t (chunks cs :: 'io reads) = recv_many n u (chunks ds)"
  using assms by (rule recv_many_chunking)

theorem chunking_irrelevant_witness:
  "recv_many 5 tcp_connected (chunks [[1, 2], [3, 4, 5], [6, 7, 8]] :: unit reads) =
   recv_many 5 tcp_connected (chunks [[1, 2, 3, 4, 5, 6, 7, 8]])"
  by (rule chunking_irrelevant) simp_all

lemma send_msg_sent:
  "send_msg None c p t = (Ok (), t \<lparr> tcp_write_buf := message_bytes c p,
     tcp_out := tcp_out t @ message_bytes c p,
     tcp_bytes_written := tcp_bytes_written t + of_nat (length (message_bytes c p)) \<rparr>)"
  by (simp add: send_msg_def stream_write_all_def Let_def)

lemma message_bytes_not_Nil [simp]: "message_bytes c p \<noteq> []"
  by (simp add: message_bytes_def header_encode_def)

lemma flush_writes_sent:
  assumes "tcp_write_buf t \<noteq> []"
  shows "flush_writes None t = (Ok (), t \<lparr> tcp_out := tcp_out t @ tcp_write_buf t,
     tcp_bytes_written := tcp_bytes_written t + of_nat (length (tcp_write_buf t)),
     tcp_write_buf := [] \<rparr>)"
  using assms by (simp add: flush_writes_def stream_write_all_def)

text \<open>\<open>send_msg\<close> leaves its message in the write buffer: a message buffered after it and
  flushed goes out behind a second copy of the one already sent.  (The bulk subscription
  paths clear the buffer first; the PV search does not, so its first flush repeats the
  connection validation message of the handshake.)\<close>

theorem sent_message_is_repeated:
  assumes "send_msg None c1 p1 t = (Ok (), t1)"
    and "flush_writes None (buffer_msg c2 p2 t1) = (Ok (), t2)"
  shows "tcp_out t2 = tcp_out t @ message_bytes c1 p1 @ message_bytes c1 p1 @ message_bytes c2 p2"
  using assms by (auto simp: send_msg_sent flush_writes_sent buffer_msg_def)

theorem sent_message_is_repeated_witness:
  "tcp_out (snd (flush_writes (None :: unit write_outcome) (buffer_msg 3 [] (snd (send_msg (None :: unit write_outcome) 1 [7] tcp_connected))))) =
    message_bytes 1 [7] @ message_bytes 1 [7] @ message_bytes 3 []"
proof -
  let ?t1 = "snd (send_msg (None :: unit write_outcome) 1 [7] tcp_connected)"
  let ?t2 = "snd (flush_writes (None :: unit write_outcome) (buffer_msg 3 [] ?t1))"
  have s: "send_msg (None :: unit write_outcome) 1 [7] tcp_connected = (Ok (), ?t1)"
    by (simp add: send_msg_sent)
  have f: "flush_writes (None :: unit write_outcome) (buffer_msg 3 [] ?t1) = (Ok (), ?t2)"
    by (simp add: flush_writes_sent buffer_msg_def)
  have "tcp_out tcp_connected = []"
    by (simp add: tcp_connected_def)
  then show ?thesis
    using sent_message_is_repeated[OF s f] by simp
qed

end
