(* ===== verification/Handshake.thy ===== *)
theory Handshake
  imports Transport Messages
begin

text \<open>
  The connection handshake (\<open>aura-net/src/runtime/handshake.rs\<close>) over the transport and
  the connection messages.  The two writes have outcomes of their own; the result is
  \<open>None\<close> while a read still waits.  \<open>HeProtocol\<close> carries the decode error whose text the
  source formats into the message.
\<close>

datatype 'io HandshakeError =
    HeTransport "'io TransportError"
  | HeUnexpectedMessage rstring byte
  | HeProtocol DecodeError

record handshake_result =
  hr_byte_order :: ByteOrder
  hr_buffer_size :: "32 word"
  hr_registry_size :: "16 word"

type_synonym ('io, 'a) hs_out = "('io HandshakeError + 'a) option \<times> pva_tcp \<times> 'io reads"

text \<open>\<open>tcp.recv_frame().await?\<close> and \<open>tcp.send_...(..).await?\<close>.\<close>

definition hs_recv ::
  "pva_tcp \<Rightarrow> 'io reads \<Rightarrow> (pva_frame \<Rightarrow> pva_tcp \<Rightarrow> 'io reads \<Rightarrow> ('io, 'a) hs_out) \<Rightarrow> ('io, 'a) hs_out" where
  "hs_recv t reads k =
    (case recv_frame t reads of
       (None, t', rs) \<Rightarrow> (None, t', rs)
     | (Some (Err e), t', rs) \<Rightarrow> (Some (Err (HeTransport e)), t', rs)
     | (Some (Ok f), t', rs) \<Rightarrow> k f t' rs)"

definition hs_send ::
  "('io TransportError + unit) \<times> pva_tcp \<Rightarrow> 'io reads \<Rightarrow> (pva_tcp \<Rightarrow> ('io, 'a) hs_out) \<Rightarrow> ('io, 'a) hs_out" where
  "hs_send s reads k =
    (case s of (Err e, t') \<Rightarrow> (Some (Err (HeTransport e)), t', reads) | (Ok _, t') \<Rightarrow> k t')"

definition frame_order :: "pva_frame \<Rightarrow> ByteOrder" where
  "frame_order f = (if hdr_flags (fr_header f) AND BIG_ENDIAN \<noteq> 0 then BigEndian else LittleEndian)"

definition order_flag :: "ByteOrder \<Rightarrow> 32 word" where
  "order_flag ord = (case ord of BigEndian \<Rightarrow> 0x80 | LittleEndian \<Rightarrow> 0x00)"

text \<open>What follows the connection validation of the server.\<close>

definition hs_reply ::
  "'io write_outcome \<Rightarrow> 32 word \<Rightarrow> 16 word \<Rightarrow> ByteOrder \<Rightarrow> pva_frame \<Rightarrow> pva_tcp \<Rightarrow> 'io reads \<Rightarrow>
    ('io, handshake_result) hs_out" where
  "hs_reply w bufsz regsz ord frame t reads =
    (if hdr_command (fr_header frame) \<noteq> CMD_CONNECTION_VALIDATION
     then (Some (Err (HeUnexpectedMessage (ascii ''CMD_CONNECTION_VALIDATION'')
            (hdr_command (fr_header frame)))), t, reads)
     else
       (case fst (cv_decode (reader_new (fr_payload frame) ord)) of
          Err e \<Rightarrow> (Some (Err (HeProtocol e)), t, reads)
        | Ok validation \<Rightarrow>
            hs_send (send_msg w CMD_CONNECTION_VALIDATION
                (wr_buf (validated_encode (validated_anonymous bufsz regsz) (writer_new ord))) t) reads
              (\<lambda>t. hs_recv t reads (\<lambda>_ t reads.
                (Some (Ok \<lparr> hr_byte_order = ord,
                   hr_buffer_size = cv_buffer_size validation,
                   hr_registry_size = cv_registry_size validation \<rparr>), t, reads)))))"

text \<open>What follows the byte order message.\<close>

definition hs_order ::
  "'io write_outcome \<Rightarrow> 'io write_outcome \<Rightarrow> 32 word \<Rightarrow> 16 word \<Rightarrow> pva_frame \<Rightarrow> pva_tcp \<Rightarrow> 'io reads \<Rightarrow>
    ('io, handshake_result) hs_out" where
  "hs_order wctrl wmsg bufsz regsz frame t reads =
    (if \<not> frame_is_control frame \<or> hdr_command (fr_header frame) \<noteq> CTRL_SET_BYTE_ORDER
     then (Some (Err (HeUnexpectedMessage (ascii ''CTRL_SET_BYTE_ORDER'')
            (hdr_command (fr_header frame)))), t, reads)
     else
       let ord = frame_order frame in
       hs_send (send_control wctrl CTRL_SET_BYTE_ORDER (order_flag ord) (tcp_set_byte_order ord t)) reads
         (\<lambda>t. hs_recv t reads (hs_reply wmsg bufsz regsz ord)))"

definition perform_handshake ::
  "'io write_outcome \<Rightarrow> 'io write_outcome \<Rightarrow> 32 word \<Rightarrow> 16 word \<Rightarrow> pva_tcp \<Rightarrow> 'io reads \<Rightarrow>
    ('io, handshake_result) hs_out" where
  "perform_handshake wctrl wmsg bufsz regsz t reads =
    hs_recv t reads (hs_order wctrl wmsg bufsz regsz)"

section \<open>The dialogue that succeeds\<close>

definition hello :: "ByteOrder \<Rightarrow> bytes" where
  "hello ord = header_encode (header_ctrl CTRL_SET_BYTE_ORDER (order_flag ord))"

definition validation_reply :: "ByteOrder \<Rightarrow> 32 word \<Rightarrow> 16 word \<Rightarrow> bytes" where
  "validation_reply ord bufsz regsz = message_bytes CMD_CONNECTION_VALIDATION
     (written ord (validated_encode (validated_anonymous bufsz regsz)))"

lemma send_control_sent:
  "send_control None c v t = (Ok (), t \<lparr> tcp_out := tcp_out t @ header_encode (header_ctrl c v),
     tcp_bytes_written := tcp_bytes_written t + of_nat HEADER_SIZE \<rparr>)"
  by (simp add: send_control_def stream_write_all_def)

lemma hs_recv_encoded:
  assumes "cd_state (tcp_codec t) = DsHeader" and "[] \<notin> set cs"
    and "frame_wf (cd_max_payload (tcp_codec t)) f"
    and "tcp_read_buf t @ concat cs = encode_frame f [] @ tail"
  obtains t' cs' where "hs_recv t (chunks cs :: 'io reads) k = k f t' (chunks cs')"
    "[] \<notin> set cs'" "tcp_read_buf t' @ concat cs' = tail" "cd_state (tcp_codec t') = DsHeader"
    "cd_max_payload (tcp_codec t') = cd_max_payload (tcp_codec t)"
    "cd_byte_order (tcp_codec t') = cd_byte_order (tcp_codec t)"
    "tcp_out t' = tcp_out t" "tcp_write_buf t' = tcp_write_buf t"
proof -
  obtain t' cs' where 1: "recv_frame t (chunks cs :: 'io reads) = (Some (Ok f), t', chunks cs')"
    "[] \<notin> set cs'" "tcp_read_buf t' @ concat cs' = tail" "cd_state (tcp_codec t') = DsHeader"
    "cd_max_payload (tcp_codec t') = cd_max_payload (tcp_codec t)"
    "cd_byte_order (tcp_codec t') = cd_byte_order (tcp_codec t)"
    using recv_frame_encoded[OF assms, where 'io = 'io] by blast
  show thesis
    by (rule that[of t' cs']) (use 1 recv_frame_sending[OF 1(1)] in \<open>simp_all add: hs_recv_def\<close>)
qed

lemma cv_decode_written:
  assumes "length (cv_auth_methods v) < 2 ^ 31" "\<forall>a \<in> set (cv_auth_methods v). string_ok a"
  shows "fst (cv_decode (reader_new (written ord (cv_encode v) @ extra) ord)) = Ok v"
  using validation.decode_new[of v ord extra] assms by simp

lemma hs_reply_succeeds:
  assumes "cd_state (tcp_codec t) = DsHeader" and "[] \<notin> set cs"
    and "frame_wf (cd_max_payload (tcp_codec t)) f'"
    and "tcp_read_buf t @ concat cs = encode_frame f' [] @ tail"
    and f: "hdr_command (fr_header f) = CMD_CONNECTION_VALIDATION"
      "fr_payload f = written ord (cv_encode v) @ extra"
    and v: "length (cv_auth_methods v) < 2 ^ 31" "\<forall>a \<in> set (cv_auth_methods v). string_ok a"
  obtains t' cs' where "hs_reply None bufsz regsz ord f t (chunks cs :: 'io reads) =
      (Some (Ok \<lparr> hr_byte_order = ord, hr_buffer_size = cv_buffer_size v,
         hr_registry_size = cv_registry_size v \<rparr>), t', chunks cs')"
    "cd_byte_order (tcp_codec t') = cd_byte_order (tcp_codec t)"
    "tcp_read_buf t' @ concat cs' = tail" "tcp_out t' = tcp_out t @ validation_reply ord bufsz regsz"
    "tcp_write_buf t' = validation_reply ord bufsz regsz"
proof -
  let ?reply = "written ord (validated_encode (validated_anonymous bufsz regsz))"
  let ?ret = "\<lambda>(_ :: pva_frame) t (reads :: 'io reads). (Some (Ok \<lparr> hr_byte_order = ord,
      hr_buffer_size = cv_buffer_size v, hr_registry_size = cv_registry_size v \<rparr> ::
      'io HandshakeError + handshake_result), t, reads)"
  let ?t = "snd (send_msg (None :: 'io write_outcome) CMD_CONNECTION_VALIDATION ?reply t)"
  obtain t' cs' where 1: "hs_recv ?t (chunks cs :: 'io reads) ?ret = ?ret f' t' (chunks cs')"
    "[] \<notin> set cs'" "tcp_read_buf t' @ concat cs' = tail" "cd_state (tcp_codec t') = DsHeader"
    "cd_max_payload (tcp_codec t') = cd_max_payload (tcp_codec ?t)"
    "cd_byte_order (tcp_codec t') = cd_byte_order (tcp_codec ?t)"
    "tcp_out t' = tcp_out ?t" "tcp_write_buf t' = tcp_write_buf ?t"
    by (rule hs_recv_encoded[OF _ assms(2), where t = ?t and f = f' and k = ?ret])
      (use assms in \<open>auto simp: send_msg_sent\<close>)
  have w: "wr_buf (validated_encode (validated_anonymous bufsz regsz) (writer_new ord)) = ?reply"
    by (simp add: written_def)
  have "hs_reply None bufsz regsz ord f t (chunks cs :: 'io reads) = ?ret f' t' (chunks cs')"
    using f v 1(1) by (simp add: hs_reply_def cv_decode_written w send_msg_sent hs_send_def)
  then show thesis
    by (rule that) (use 1 in \<open>simp_all add: send_msg_sent validation_reply_def\<close>)
qed

text \<open>C35. Against a server that sends a byte order announcement, a connection validation in
  that order and one more well-formed frame, however the network cuts the stream, the
  handshake returns the announced order and the server's sizes, leaves the following bytes
  for later calls, sets the connection's byte order, and sends exactly the echo and its
  anonymous answer, under the command CMD_CONNECTION_VALIDATION; that answer stays in the write buffer.
  (The module comment of handshake.rs names CMD_CONNECTION_VALIDATED for this answer.  It also asks
  for that command in the last frame, where the code only logs a warning about another one, so
  the theorem asks nothing of that frame.)\<close>

theorem handshake_succeeds:
  assumes "cd_state (tcp_codec t) = DsHeader" and "[] \<notin> set cs"
    and "\<forall>f \<in> {f1, f2, f3}. frame_wf (cd_max_payload (tcp_codec t)) f"
    and "tcp_read_buf t @ concat cs = encode_frame f1 [] @ encode_frame f2 [] @ encode_frame f3 [] @ tail"
    and "frame_is_control f1" "hdr_command (fr_header f1) = CTRL_SET_BYTE_ORDER"
    and "hdr_command (fr_header f2) = CMD_CONNECTION_VALIDATION"
    and "fr_payload f2 = written (frame_order f1) (cv_encode v) @ extra"
    and "length (cv_auth_methods v) < 2 ^ 31" "\<forall>a \<in> set (cv_auth_methods v). string_ok a"
  shows "\<exists>t' cs'. perform_handshake None None bufsz regsz t (chunks cs :: 'io reads) =
      (Some (Ok \<lparr> hr_byte_order = frame_order f1, hr_buffer_size = cv_buffer_size v,
         hr_registry_size = cv_registry_size v \<rparr>), t', chunks cs') \<and>
    tcp_read_buf t' @ concat cs' = tail \<and> tcp_byte_order t' = frame_order f1 \<and>
    tcp_out t' = tcp_out t @ hello (frame_order f1) @ validation_reply (frame_order f1) bufsz regsz \<and>
    tcp_write_buf t' = validation_reply (frame_order f1) bufsz regsz"
proof -
  let ?ord = "frame_order f1"
  let ?ord_k = "hs_order (None :: 'io write_outcome) (None :: 'io write_outcome) bufsz regsz"
  let ?reply_k = "hs_reply (None :: 'io write_outcome) bufsz regsz ?ord"
  obtain t1 cs1 where 1: "hs_recv t (chunks cs :: 'io reads) ?ord_k = ?ord_k f1 t1 (chunks cs1)"
    "[] \<notin> set cs1" "tcp_read_buf t1 @ concat cs1 = encode_frame f2 [] @ encode_frame f3 [] @ tail"
    "cd_state (tcp_codec t1) = DsHeader"
    "cd_max_payload (tcp_codec t1) = cd_max_payload (tcp_codec t)"
    "cd_byte_order (tcp_codec t1) = cd_byte_order (tcp_codec t)"
    "tcp_out t1 = tcp_out t" "tcp_write_buf t1 = tcp_write_buf t"
    by (rule hs_recv_encoded[OF assms(1,2), where f = f1 and k = ?ord_k]) (use assms in auto)
  let ?t = "snd (send_control (None :: 'io write_outcome) CTRL_SET_BYTE_ORDER (order_flag ?ord)
    (tcp_set_byte_order ?ord t1))"
  have t: "tcp_out ?t = tcp_out t @ hello ?ord" "cd_byte_order (tcp_codec ?t) = ?ord"
    using 1 by (simp_all add: send_control_sent tcp_set_byte_order_def hello_def)
  obtain t2 cs2 where 2: "hs_recv ?t (chunks cs1 :: 'io reads) ?reply_k = ?reply_k f2 t2 (chunks cs2)"
    "[] \<notin> set cs2" "tcp_read_buf t2 @ concat cs2 = encode_frame f3 [] @ tail"
    "cd_state (tcp_codec t2) = DsHeader"
    "cd_max_payload (tcp_codec t2) = cd_max_payload (tcp_codec ?t)"
    "cd_byte_order (tcp_codec t2) = cd_byte_order (tcp_codec ?t)"
    "tcp_out t2 = tcp_out ?t" "tcp_write_buf t2 = tcp_write_buf ?t"
    by (rule hs_recv_encoded[OF _ 1(2), where t = ?t and f = f2 and k = ?reply_k])
      (use 1 assms in \<open>auto simp: send_control_sent tcp_set_byte_order_def\<close>)
  have m: "cd_max_payload (tcp_codec t2) = cd_max_payload (tcp_codec t)"
    using 1 2 by (simp add: send_control_sent tcp_set_byte_order_def)
  obtain t' cs' where 3: "?reply_k f2 t2 (chunks cs2 :: 'io reads) =
      (Some (Ok \<lparr> hr_byte_order = ?ord, hr_buffer_size = cv_buffer_size v,
         hr_registry_size = cv_registry_size v \<rparr>), t', chunks cs')"
    "cd_byte_order (tcp_codec t') = cd_byte_order (tcp_codec t2)"
    "tcp_read_buf t' @ concat cs' = tail" "tcp_out t' = tcp_out t2 @ validation_reply ?ord bufsz regsz"
    "tcp_write_buf t' = validation_reply ?ord bufsz regsz"
    by (rule hs_reply_succeeds[OF 2(4,2) _ 2(3) assms(7-10), where 'io = 'io])
      (use assms(3) m in auto)
  have "?ord_k f1 t1 (chunks cs1) = hs_recv ?t (chunks cs1 :: 'io reads) ?reply_k"
    using assms by (simp add: hs_order_def Let_def send_control_sent hs_send_def)
  then have "perform_handshake None None bufsz regsz t (chunks cs :: 'io reads) =
      (Some (Ok \<lparr> hr_byte_order = ?ord, hr_buffer_size = cv_buffer_size v,
         hr_registry_size = cv_registry_size v \<rparr>), t', chunks cs')"
    unfolding perform_handshake_def using 1(1) 2(1) 3(1) by simp
  then show ?thesis
    using 2 3 t by (auto simp: tcp_byte_order_def)
qed

lemma control_frame_wf: "is_control h \<Longrightarrow> frame_wf m (frame_new h [])"
  by (simp add: frame_wf_def frame_is_control_def frame_new_def)

theorem handshake_succeeds_witness:
  "\<exists>t' cs'. perform_handshake None None 65536 256 tcp_connected
     (chunks [encode_frame (frame_new (header_ctrl CTRL_SET_BYTE_ORDER 0) []) [] @
       encode_frame (frame_new (header_app CMD_CONNECTION_VALIDATION 7) [1, 0, 0, 0, 2, 0, 0]) [],
       encode_frame (frame_new (header_ctrl 9 0) []) []] :: unit reads) =
     (Some (Ok \<lparr> hr_byte_order = LittleEndian, hr_buffer_size = 1, hr_registry_size = 2 \<rparr>), t', chunks cs') \<and>
     tcp_byte_order t' = LittleEndian"
proof -
  let ?f1 = "frame_new (header_ctrl CTRL_SET_BYTE_ORDER 0) []"
  let ?f2 = "frame_new (header_app CMD_CONNECTION_VALIDATION 7) [1, 0, 0, 0, 2, 0, 0]"
  let ?f3 = "frame_new (header_ctrl 9 0) []"
  let ?v = "\<lparr> cv_buffer_size = 1, cv_registry_size = 2, cv_auth_methods = [] \<rparr>"
  have c: "is_control (header_ctrl cmd v)" for cmd v
    by (simp add: is_control_def header_ctrl_def CONTROL_def)
  have "frame_wf 1000 (frame_new (header_app CMD_CONNECTION_VALIDATION
      (of_nat (length [1, 0, 0, 0, 2, 0, 0 :: byte]))) [1, 0, 0, 0, 2, 0, 0])"
    by (rule message_wf) simp_all
  then have wf: "frame_wf (cd_max_payload codec_new) ?f2"
    using message_wf[of "[1, 0, 0, 0, 2, 0, 0]" "cd_max_payload codec_new" CMD_CONNECTION_VALIDATION]
    by (simp add: codec_new_def MAX_PAYLOAD_SIZE_def)
  have ord: "frame_order ?f1 = LittleEndian"
    by (simp add: frame_order_def frame_new_def header_ctrl_def CONTROL_def BIG_ENDIAN_def)
  have ne: "encode_frame f [] \<noteq> []" for f
    by (simp add: encode_frame_Nil header_encode_def)
  have enc: "written LittleEndian (cv_encode ?v) = [1, 0, 0, 0, 2, 0, 0]"
    by (simp add: cv_encode_def written_seq written_for wr_simps size_bytes_def order_write.simps
        le_bytes_def)
  have pay: "fr_payload ?f2 = written (frame_order ?f1) (cv_encode ?v) @ []"
    unfolding ord enc by (simp add: frame_new_def)
  have m: "tcp_codec tcp_connected = codec_new" "tcp_read_buf tcp_connected = []"
      "cd_state codec_new = DsHeader"
    by (simp_all add: tcp_connected_def codec_new_def)
  have ctl: "frame_is_control ?f1" "hdr_command (fr_header ?f1) = CTRL_SET_BYTE_ORDER"
      "hdr_command (fr_header ?f2) = CMD_CONNECTION_VALIDATION"
    using c by (simp_all add: frame_is_control_def frame_new_def header_ctrl_def header_app_def)
  have "\<exists>t' cs'. perform_handshake None None 65536 256 tcp_connected
      (chunks [encode_frame ?f1 [] @ encode_frame ?f2 [], encode_frame ?f3 []] :: unit reads) =
      (Some (Ok \<lparr> hr_byte_order = frame_order ?f1, hr_buffer_size = cv_buffer_size ?v,
         hr_registry_size = cv_registry_size ?v \<rparr>), t', chunks cs') \<and>
    tcp_read_buf t' @ concat cs' = [] \<and> tcp_byte_order t' = frame_order ?f1 \<and>
    tcp_out t' = tcp_out tcp_connected @ hello (frame_order ?f1) @
      validation_reply (frame_order ?f1) 65536 256 \<and>
    tcp_write_buf t' = validation_reply (frame_order ?f1) 65536 256"
    by (rule handshake_succeeds[OF _ _ _ _ ctl pay])
      (use wf ne ne[symmetric] m control_frame_wf[OF c] in simp_all)
  then show ?thesis
    unfolding ord by auto
qed

text \<open>A server that opens with anything but the byte order control message is refused
  before a single byte is sent.\<close>

theorem handshake_refuses:
  assumes "cd_state (tcp_codec t) = DsHeader" and "[] \<notin> set cs"
    and "frame_wf (cd_max_payload (tcp_codec t)) f"
    and "tcp_read_buf t @ concat cs = encode_frame f [] @ tail"
    and "\<not> frame_is_control f \<or> hdr_command (fr_header f) \<noteq> CTRL_SET_BYTE_ORDER"
  shows "\<exists>t' cs'. perform_handshake wctrl wmsg bufsz regsz t (chunks cs :: 'io reads) =
      (Some (Err (HeUnexpectedMessage (ascii ''CTRL_SET_BYTE_ORDER'') (hdr_command (fr_header f)))),
       t', chunks cs') \<and> tcp_out t' = tcp_out t"
  unfolding perform_handshake_def
  by (rule hs_recv_encoded[OF assms(1-4), where k = "hs_order wctrl wmsg bufsz regsz"])
    (use assms(5) in \<open>auto simp: hs_order_def\<close>)

theorem handshake_refuses_witness:
  "\<exists>t' cs'. perform_handshake None None 65536 256 tcp_connected
     (chunks [encode_frame (frame_new (header_ctrl CTRL_ECHO_REQUEST 0) []) []] :: unit reads) =
     (Some (Err (HeUnexpectedMessage (ascii ''CTRL_SET_BYTE_ORDER'') CTRL_ECHO_REQUEST)), t', chunks cs')"
proof -
  let ?f = "frame_new (header_ctrl CTRL_ECHO_REQUEST 0) []"
  have "is_control (header_ctrl CTRL_ECHO_REQUEST 0)"
    by (simp add: is_control_def header_ctrl_def CONTROL_def)
  then show ?thesis
    using handshake_refuses[where t = tcp_connected and f = ?f and cs = "[encode_frame ?f []]"
        and tail = "[]" and 'io = unit and bufsz = 65536 and regsz = 256 and wctrl = None and wmsg = None]
      control_frame_wf[of "header_ctrl CTRL_ECHO_REQUEST 0"]
    by (auto simp: tcp_connected_def codec_new_def frame_new_def header_ctrl_def
        encode_frame_Nil header_encode_def ctrl_consts)
qed

text \<open>The echo of the byte order carries the order in its size field only: the flag byte
  of the echo says little-endian for either order, and so does the header of every
  application message, while their payloads are in the negotiated order.\<close>

theorem sent_headers_little_endian:
  "hdr_byte_order (header_ctrl CTRL_SET_BYTE_ORDER (order_flag ord)) = LittleEndian \<and>
   hdr_byte_order (header_app cmd sz) = LittleEndian \<and>
   written BigEndian (validated_encode (validated_anonymous bufsz regsz)) =
     be_bytes 4 bufsz @ be_bytes 2 regsz @ [0, 0] @ 9 # ascii ''anonymous'' @ [0xFF]"
  by (simp add: header_ctrl_def header_app_def hdr_byte_order_def order_from_flags_def CONTROL_def
      BIG_ENDIAN_def validated_encode_def validated_anonymous_def written_seq wr_simps size_bytes_def
      order_write.simps ascii_def be_bytes_def le_bytes_def)

end
