(* ===== verification/Search.thy ===== *)
theory Search
  imports PvData
begin

text \<open>
  PV discovery messages (\<open>aura-net/src/messages/search.rs\<close>).  An IP address is its 32 or
  128 bits, a socket address an IP address and a port; the flow label and scope of an
  IPv6 socket address, always 0 in \<open>SocketAddr::new\<close>, are left out.
\<close>

definition GUID_LEN :: nat where "GUID_LEN = 12"

datatype ip_addr = IpV4 "32 word" | IpV6 "128 word"

record socket_addr =
  sa_ip :: ip_addr
  sa_port :: u16

definition mapped_prefix :: bytes where
  "mapped_prefix = replicate 10 0 @ [0xFF, 0xFF]"

text \<open>\<open>to_ipv6_mapped\<close> followed by \<open>octets\<close>, and \<open>Ipv6Addr::from\<close> followed by
  \<open>to_ipv4_mapped\<close>.\<close>

fun ip_octets :: "ip_addr \<Rightarrow> bytes" where
  "ip_octets (IpV4 a) = mapped_prefix @ be_bytes 4 a"
| "ip_octets (IpV6 a) = be_bytes 16 a"

definition ip_from_octets :: "bytes \<Rightarrow> ip_addr" where
  "ip_from_octets bs =
    (if take 12 bs = mapped_prefix then IpV4 (from_be_bytes (drop 12 bs)) else IpV6 (from_be_bytes bs))"

definition encode_search_response_address :: "socket_addr \<Rightarrow> wr" where
  "encode_search_response_address addr = wr_seq
     [write_raw (ip_octets (sa_ip addr)), write_raw (le_bytes 2 (sa_port addr))]"

definition encode_search_address :: "socket_addr \<Rightarrow> wr" where
  "encode_search_address addr = wr_seq
     [write_raw [0, 0, 0], write_raw (ip_octets (sa_ip addr)), write_raw (le_bytes 2 (sa_port addr))]"

definition decode_ipv6_address :: "socket_addr rd" where
  "decode_ipv6_address =
     rd_bind (read_bytes 16) (\<lambda>b.
     rd_bind (read_bytes 2) (\<lambda>port.
     rd_return \<lparr> sa_ip = ip_from_octets b, sa_port = from_le_bytes port \<rparr>))"

definition decode_search_address :: "socket_addr rd" where
  "decode_search_address = rd_bind (read_bytes 3) (\<lambda>_. decode_ipv6_address)"

definition decode_search_response_address :: "socket_addr rd" where
  "decode_search_response_address = decode_ipv6_address"

definition REPLY_REQUIRED :: byte where "REPLY_REQUIRED = 0x01"
definition UNICAST :: byte where "UNICAST = 0x80"

record search_request =
  sq_seq :: "32 word"
  sq_reply_required :: bool
  sq_unicast :: bool
  sq_address :: socket_addr
  sq_protocol :: rstring
  sq_channels :: "(32 word \<times> rstring) list"

definition search_multi :: "32 word \<Rightarrow> (32 word \<times> rstring) list \<Rightarrow> socket_addr \<Rightarrow> search_request" where
  "search_multi seq channels addr =
     \<lparr> sq_seq = seq, sq_reply_required = True, sq_unicast = False, sq_address = addr,
       sq_protocol = ascii ''tcp'', sq_channels = channels \<rparr>"

definition search_single :: "32 word \<Rightarrow> rstring \<Rightarrow> socket_addr \<Rightarrow> search_request" where
  "search_single sid pv_name addr =
     \<lparr> sq_seq = sid, sq_reply_required = True, sq_unicast = False, sq_address = addr,
       sq_protocol = ascii ''tcp'', sq_channels = [(sid, pv_name)] \<rparr>"

definition sq_channel_count :: "search_request \<Rightarrow> nat" where
  "sq_channel_count m = length (sq_channels m)"

definition sq_is_empty :: "search_request \<Rightarrow> bool" where
  "sq_is_empty m = (sq_channels m = [])"

definition read_search_channel :: "(32 word \<times> rstring) rd" where
  "read_search_channel = rd_bind read_i32 (\<lambda>cid. rd_bind read_string (\<lambda>name. rd_return (cid, name)))"

definition write_search_channel :: "32 word \<times> rstring \<Rightarrow> wr" where
  "write_search_channel ch = wr_seq [write_i32 (fst ch), write_string (snd ch)]"

definition sq_decode :: "search_request rd" where
  "sq_decode =
     rd_bind read_i32 (\<lambda>seq.
     rd_bind read_u8 (\<lambda>flags.
     rd_bind decode_search_address (\<lambda>addr.
     rd_bind read_u8 (\<lambda>protos.
     rd_bind (if 0 < protos then read_string else rd_return (ascii ''tcp'')) (\<lambda>protocol.
     rd_bind (rd_repeat (unat protos - 1) read_string) (\<lambda>_.
     rd_bind read_u16 (\<lambda>count.
     rd_bind (rd_repeat (unat count) read_search_channel) (\<lambda>channels.
     rd_return \<lparr> sq_seq = seq, sq_reply_required = (flags AND REPLY_REQUIRED \<noteq> 0),
       sq_unicast = (flags AND UNICAST \<noteq> 0), sq_address = addr, sq_protocol = protocol,
       sq_channels = channels \<rparr>))))))))"

definition sq_flags :: "search_request \<Rightarrow> byte" where
  "sq_flags m = (0 OR (if sq_reply_required m then REPLY_REQUIRED else 0))
     OR (if sq_unicast m then UNICAST else 0)"

definition sq_encode :: "search_request \<Rightarrow> wr" where
  "sq_encode m = wr_seq
     [write_i32 (sq_seq m),
      write_u8 (sq_flags m),
      encode_search_address (sq_address m),
      write_u8 1,
      write_string (sq_protocol m),
      write_u16 (of_nat (length (sq_channels m))),
      wr_for write_search_channel (sq_channels m)]"

record search_response =
  sr_guid :: bytes
  sr_seq :: "32 word"
  sr_addr :: socket_addr
  sr_protocol :: rstring
  sr_found :: "32 word list"

definition sr_decode :: "search_response rd" where
  "sr_decode =
     rd_bind (read_bytes GUID_LEN) (\<lambda>guid.
     rd_bind read_i32 (\<lambda>seq.
     rd_bind decode_search_response_address (\<lambda>addr.
     rd_bind read_string (\<lambda>protocol.
     rd_bind read_u8 (\<lambda>_.
     rd_bind read_u16 (\<lambda>count.
     rd_bind (rd_repeat (unat count) read_i32) (\<lambda>found.
     rd_return \<lparr> sr_guid = guid, sr_seq = seq, sr_addr = addr, sr_protocol = protocol,
       sr_found = found \<rparr>)))))))"

definition sr_encode :: "search_response \<Rightarrow> wr" where
  "sr_encode m = wr_seq
     [write_raw (sr_guid m),
      write_i32 (sr_seq m),
      encode_search_response_address (sr_addr m),
      write_string (sr_protocol m),
      write_u8 (if sr_found m = [] then 0 else 1),
      write_u16 (of_nat (length (sr_found m))),
      wr_for write_i32 (sr_found m)]"

definition sr_contains :: "search_response \<Rightarrow> 32 word \<Rightarrow> bool" where
  "sr_contains m sid = (sid \<in> set (sr_found m))"

definition sr_is_empty :: "search_response \<Rightarrow> bool" where
  "sr_is_empty m = (sr_found m = [])"

definition sr_found_count :: "search_response \<Rightarrow> nat" where
  "sr_found_count m = length (sr_found m)"

section \<open>Addresses\<close>

text \<open>An IPv6 address in the IPv4-mapped range comes back as IPv4.\<close>

definition ip_ok :: "ip_addr \<Rightarrow> bool" where
  "ip_ok ip \<longleftrightarrow> (case ip of IpV4 _ \<Rightarrow> True | IpV6 a \<Rightarrow> take 12 (be_bytes 16 a) \<noteq> mapped_prefix)"

lemma length_mapped_prefix [simp]: "length mapped_prefix = 12"
  by (simp add: mapped_prefix_def)

lemma length_ip_octets [simp]: "length (ip_octets ip) = 16"
  by (cases ip) simp_all

lemma ip_octets_inverse: "ip_ok ip \<Longrightarrow> ip_from_octets (ip_octets ip) = ip"
  by (cases ip) (simp_all add: ip_ok_def ip_from_octets_def)

lemma appends_addresses [simp, intro]:
  "appends (encode_search_response_address a)" "appends (encode_search_address a)"
  "appends (write_search_channel ch)"
  by (auto simp: encode_search_response_address_def encode_search_address_def
      write_search_channel_def)

lemma not_Nil_length: "0 < length xs \<Longrightarrow> xs \<noteq> []"
  by auto

lemma parses_ipv6_address:
  assumes "ip_ok (sa_ip a)"
  shows "parses ord decode_ipv6_address (written ord (encode_search_response_address a)) a"
  unfolding decode_ipv6_address_def encode_search_response_address_def
  by (rule parses_steps rd_intros | rule not_Nil_length
      | (use assms in \<open>simp add: ip_octets_inverse\<close>; fail))+

lemma parses_search_address [rd_intros]:
  assumes "ip_ok (sa_ip a)"
  shows "parses ord decode_search_response_address (written ord (encode_search_response_address a)) a"
    and "parses ord decode_search_address (written ord (encode_search_address a)) a"
proof -
  show "parses ord decode_search_response_address (written ord (encode_search_response_address a)) a"
    using assms by (simp add: decode_search_response_address_def parses_ipv6_address)
  have "parses ord (read_bytes 3) (written ord (write_raw [0, 0, 0])) [0, 0, 0]"
    by (rule rd_intros) simp_all
  from parses_bind[OF this parses_ipv6_address[OF assms]]
  show "parses ord decode_search_address (written ord (encode_search_address a)) a"
    by (simp add: decode_search_address_def encode_search_address_def
        encode_search_response_address_def written_seq)
qed

lemma parses_search_channel [rd_intros]:
  assumes "string_ok (snd ch)"
  shows "parses ord read_search_channel (written ord (write_search_channel ch)) ch"
  unfolding read_search_channel_def write_search_channel_def
  by (rule parses_steps rd_intros | (use assms in simp; fail))+

lemma sq_flags_bits:
  "sq_flags m AND REPLY_REQUIRED \<noteq> 0 \<longleftrightarrow> sq_reply_required m"
  "sq_flags m AND UNICAST \<noteq> 0 \<longleftrightarrow> sq_unicast m"
  by (simp_all add: sq_flags_def REPLY_REQUIRED_def UNICAST_def)

text \<open>A counted loop: the count as a \<open>u16\<close>, then the elements.\<close>

lemma parses_counted:
  assumes "length xs < 2 ^ 16" "\<And>x. x \<in> set xs \<Longrightarrow> parses ord m (written ord (f x)) x"
    and "\<And>x. appends (f x)" "k xs = v"
  shows "parses ord (rd_bind read_u16 (\<lambda>count. rd_bind (rd_repeat (unat count) m) (\<lambda>ys. rd_return (k ys))))
    (written ord (wr_seq [write_u16 (of_nat (length xs)), wr_for f xs])) v"
proof -
  have n: "unat (of_nat (length xs) :: 16 word) = length xs"
    using assms(1) by (simp add: unat_of_nat)
  show ?thesis
    by (rule parses_wr[OF parses_written(3)])
      (use assms in \<open>auto simp: n intro!: parses_wr parses_wr_end parses_for_size\<close>)
qed

definition search_request_ok :: "search_request \<Rightarrow> bool" where
  "search_request_ok m \<longleftrightarrow> ip_ok (sa_ip (sq_address m)) \<and> string_ok (sq_protocol m) \<and>
     length (sq_channels m) < 2 ^ 16 \<and> (\<forall>ch \<in> set (sq_channels m). string_ok (snd ch))"

definition search_response_ok :: "search_response \<Rightarrow> bool" where
  "search_response_ok m \<longleftrightarrow> length (sr_guid m) = GUID_LEN \<and> ip_ok (sa_ip (sr_addr m)) \<and>
     string_ok (sr_protocol m) \<and> length (sr_found m) < 2 ^ 16"

interpretation search_request: wire_codec sq_encode sq_decode search_request_ok
proof (unfold_locales, goal_cases)
  case (1 m)
  show ?case
    by (auto simp: sq_encode_def)
next
  case (2 m ord)
  have chs: "parses ord (rd_bind read_u16 (\<lambda>count. rd_bind (rd_repeat (unat count) read_search_channel)
      (\<lambda>chs. rd_return (m \<lparr> sq_channels := chs \<rparr>))))
    (written ord (wr_seq [write_u16 (of_nat (length (sq_channels m))),
      wr_for write_search_channel (sq_channels m)])) m"
    by (rule parses_counted) (use 2 in \<open>auto simp: search_request_ok_def intro!: rd_intros\<close>)
  have upd: "m \<lparr> sq_channels := chs \<rparr> = \<lparr> sq_seq = sq_seq m, sq_reply_required = sq_reply_required m,
      sq_unicast = sq_unicast m, sq_address = sq_address m, sq_protocol = sq_protocol m,
      sq_channels = chs \<rparr>" for chs
    by (cases m) simp
  let ?dec = "\<lambda>protocol. rd_bind read_u16 (\<lambda>count. rd_bind (rd_repeat (unat count) read_search_channel)
      (\<lambda>channels. rd_return \<lparr> sq_seq = sq_seq m, sq_reply_required = sq_reply_required m,
        sq_unicast = sq_unicast m, sq_address = sq_address m, sq_protocol = protocol,
        sq_channels = channels \<rparr>))"
  have tail: "parses ord (rd_bind read_u8 (\<lambda>protos.
      rd_bind (if 0 < protos then read_string else rd_return (ascii ''tcp'')) (\<lambda>protocol.
      rd_bind (rd_repeat (unat protos - 1) read_string) (\<lambda>_. ?dec protocol))))
    (written ord (wr_seq [write_u8 1, write_string (sq_protocol m),
      write_u16 (of_nat (length (sq_channels m))), wr_for write_search_channel (sq_channels m)])) m"
  proof (rule parses_wr[OF parses_written(1)], goal_cases)
    case 1
    have "parses ord (rd_bind read_string ?dec) (written ord (wr_seq [write_string (sq_protocol m),
      write_u16 (of_nat (length (sq_channels m))), wr_for write_search_channel (sq_channels m)])) m"
      by (rule parses_wr[OF parses_written(9)])
        (use 2 chs in \<open>auto simp: search_request_ok_def upd\<close>)
    then show ?case
      by simp
  qed (simp_all add: appends_for)
  show ?case
    unfolding sq_decode_def sq_encode_def
    by (rule parses_wr[OF parses_written(4)], rule parses_wr[OF parses_written(1)],
        rule parses_wr[OF parses_search_address(2)])
      (use 2 tail in \<open>simp_all add: search_request_ok_def sq_flags_bits appends_for\<close>)
qed

interpretation search_response: wire_codec sr_encode sr_decode search_response_ok
proof (unfold_locales, goal_cases)
  case (1 m)
  show ?case
    by (auto simp: sr_encode_def)
next
  case (2 m ord)
  have ids: "parses ord (rd_bind read_u16 (\<lambda>count. rd_bind (rd_repeat (unat count) read_i32)
      (\<lambda>found. rd_return \<lparr> sr_guid = sr_guid m, sr_seq = sr_seq m, sr_addr = sr_addr m,
        sr_protocol = sr_protocol m, sr_found = found \<rparr>)))
    (written ord (wr_seq [write_u16 (of_nat (length (sr_found m))), wr_for write_i32 (sr_found m)])) m"
    by (rule parses_counted) (use 2 in \<open>auto simp: search_response_ok_def intro!: rd_intros\<close>)
  show ?case
    unfolding sr_decode_def sr_encode_def
    by (rule ids parses_wr rd_intros not_Nil_length
        | (use 2 in \<open>simp add: search_response_ok_def GUID_LEN_def\<close>; fail))+
qed

text \<open>Search requests and responses survive the wire in either byte order: addresses
  (IPv4 as IPv4-mapped IPv6, little-endian port), flags, protocol and the channel or id
  lists, for the values \<open>search_request_ok\<close> and \<open>search_response_ok\<close> describe.\<close>

theorem search_round_trip:
  "search_request_ok q \<Longrightarrow> search_response_ok a \<Longrightarrow>
   parses ord sq_decode (written ord (sq_encode q)) q \<and>
   parses ord sr_decode (written ord (sr_encode a)) a"
  using search_request.round_trip search_response.round_trip by blast

theorem search_round_trip_witness:
  "parses LittleEndian sq_decode
     (written LittleEndian (sq_encode (search_single 7 [65] \<lparr> sa_ip = IpV4 0x7F000001, sa_port = 5076 \<rparr>)))
     (search_single 7 [65] \<lparr> sa_ip = IpV4 0x7F000001, sa_port = 5076 \<rparr>)"
  using search_round_trip[where ord = LittleEndian
      and q = "search_single 7 [65] \<lparr> sa_ip = IpV4 0x7F000001, sa_port = 5076 \<rparr>"
      and a = "\<lparr> sr_guid = replicate 12 0, sr_seq = 1, sr_addr = \<lparr> sa_ip = IpV4 1, sa_port = 2 \<rparr>,
        sr_protocol = [65], sr_found = [1] \<rparr>"]
  by (simp add: search_request_ok_def search_response_ok_def search_single_def ip_ok_def
      string_ok_def GUID_LEN_def ascii_def)

end
