(* ===== verification/Buffers.thy ===== *)
theory Buffers
  imports Main "HOL-Library.Sublist"
begin

text \<open>
  The interface of the bounded queues between the threads: a \<open>push\<close> that is refused when
  the queue holds its limit and appends otherwise.  The channels of the monitor bus and
  the two queues of a \<open>SharedBuffer\<close> are used through it; the second are given here their
  interpretation in the theory that models them, the first enter as a hypothesis because
  the channel is a library of its own.
\<close>

locale bounded_buffer =
  fixes push :: "'a \<Rightarrow> 'q \<Rightarrow> bool \<times> 'q"
    and held :: "'q \<Rightarrow> 'a list"
    and limit :: "'q \<Rightarrow> nat"
  assumes push_accepts: "fst (push x q) = (length (held q) < limit q)"
    and held_push: "held (snd (push x q)) = held q @ (if length (held q) < limit q then [x] else [])"
    and limit_push: "limit (snd (push x q)) = limit q"
begin

primrec push_all :: "'a list \<Rightarrow> 'q \<Rightarrow> nat \<times> 'q" where
  "push_all [] q = (0, q)"
| "push_all (x # xs) q =
    (case push x q of (ok, q') \<Rightarrow>
       (case push_all xs q' of (refused, q'') \<Rightarrow> (if ok then refused else Suc refused, q'')))"

lemma held_bounded:
  "length (held q) \<le> limit q \<Longrightarrow> length (held (snd (push x q))) \<le> limit (snd (push x q))"
  by (simp add: held_push limit_push)

lemma push_full: "\<not> length (held q) < limit q \<Longrightarrow> fst (push x q) = False \<and> held (snd (push x q)) = held q"
  by (simp add: push_accepts held_push)

lemma push_room: "length (held q) < limit q \<Longrightarrow> fst (push x q) \<and> held (snd (push x q)) = held q @ [x]"
  by (simp add: push_accepts held_push)

text \<open>Pushing in sequence keeps a prefix: once full, always full until taken.\<close>

lemma push_all_prefix:
  assumes "length (held q) \<le> limit q"
  shows "held (snd (push_all xs q)) = held q @ take (limit q - length (held q)) xs \<and>
    fst (push_all xs q) = length xs - (limit q - length (held q)) \<and>
    limit (snd (push_all xs q)) = limit q"
  using assms
proof (induction xs arbitrary: q)
  case (Cons x xs)
  have "length (held (snd (push x q))) \<le> limit (snd (push x q))"
    using Cons.prems by (rule held_bounded)
  note IH = Cons.IH[OF this]
  show ?case
  proof (cases "length (held q) < limit q")
    case True
    then show ?thesis
      using IH push_room[OF True, of x] limit_push[of x q]
      by (auto split: prod.splits simp: take_Cons' Suc_diff_Suc)
  next
    case False
    then show ?thesis
      using IH push_full[OF False, of x] limit_push[of x q] Cons.prems
      by (auto split: prod.splits)
  qed
qed simp

end

lemma sum_update_one:
  fixes f :: "nat \<Rightarrow> nat"
  assumes "s < n"
  shows "(\<Sum>i<n. (f(s := v)) i) + f s = (\<Sum>i<n. f i) + v"
proof -
  have 1: "(\<Sum>i<n. (f(s := v)) i) = v + (\<Sum>i\<in>{..<n} - {s}. f i)"
    using assms by (subst sum.remove[of _ s]) (auto intro!: sum.cong)
  have 2: "(\<Sum>i<n. f i) = f s + (\<Sum>i\<in>{..<n} - {s}. f i)"
    using assms by (intro sum.remove) auto
  show ?thesis
    using 1 2 by simp
qed

end
