(* ===== verification/Bus.thy ===== *)
theory Bus
  imports Monitor Buffers
begin

text \<open>
  The monitor bus: one bounded channel per ingest shard, filled by the sessions and
  drained by the ingest threads (\<open>aura-net/src/monitor/bus.rs\<close>).  The channel itself is a
  library of its own: its operations are the argument \<open>api\<close>, and \<open>fifo_channel\<close> states what
  the bus relies on.  Both ends of a channel are one element of \<open>mb_channels\<close>; a bus handle
  is shared by reference, so sending is a step on the one bus.
\<close>

record tagged_event =
  te_pv_name :: rstring
  te_pv_id :: "32 word"
  te_event :: MonitorEvent

record 'ch channel_api =
  ca_bounded :: "nat \<Rightarrow> 'ch"
  ca_try_send :: "tagged_event \<Rightarrow> 'ch \<Rightarrow> bool \<times> 'ch"
  ca_try_recv :: "'ch \<Rightarrow> tagged_event option \<times> 'ch"

record 'ch monitor_bus =
  mb_channels :: "'ch list"
  mb_n_shards :: nat
  mb_dropped :: u64

definition fnv_step :: "u64 \<Rightarrow> byte \<Rightarrow> u64" where
  "fnv_step hash b = (hash XOR ucast b) * 0x100000001b3"

text \<open>\<open>hash % 0\<close> panics.\<close>

definition shard_for_pv :: "rstring \<Rightarrow> nat \<Rightarrow> nat option" where
  "shard_for_pv pv_name n_shards =
    (if n_shards = 0 then None
     else Some (unat (foldl fnv_step 0xcbf29ce484222325 pv_name) mod n_shards))"

text \<open>The outcome of the channel (true for \<open>Ok\<close>) and the bus afterwards; \<open>None\<close> is the
  panic of an index out of range.\<close>

definition send_to_shard ::
  "'ch channel_api \<Rightarrow> rstring \<Rightarrow> 32 word \<Rightarrow> nat \<Rightarrow> MonitorEvent \<Rightarrow> 'ch monitor_bus \<Rightarrow>
   (bool \<times> 'ch monitor_bus) option" where
  "send_to_shard api pv_name pv_id shard ev bus =
    (if shard < length (mb_channels bus) then
       (case ca_try_send api \<lparr> te_pv_name = pv_name, te_pv_id = pv_id, te_event = ev \<rparr>
          (mb_channels bus ! shard) of
          (ok, ch) \<Rightarrow>
            Some (ok, bus \<lparr> mb_channels := (mb_channels bus)[shard := ch],
                   mb_dropped := (if ok then mb_dropped bus else mb_dropped bus + 1) \<rparr>))
     else None)"

primrec drain_into :: "'ch channel_api \<Rightarrow> nat \<Rightarrow> 'ch \<Rightarrow> tagged_event list \<Rightarrow> tagged_event list \<times> 'ch" where
  "drain_into api 0 ch out = (out, ch)"
| "drain_into api (Suc n) ch out =
    (case ca_try_recv api ch of
       (Some e, ch') \<Rightarrow> drain_into api n ch' (out @ [e])
     | (None, ch') \<Rightarrow> (out, ch'))"

definition create_bus :: "'ch channel_api \<Rightarrow> nat \<Rightarrow> nat \<Rightarrow> 'ch monitor_bus" where
  "create_bus api n_shards buffer =
    \<lparr> mb_channels = replicate n_shards (ca_bounded api buffer), mb_n_shards = n_shards, mb_dropped = 0 \<rparr>"

lemma shard_in_range: "0 < n \<Longrightarrow> \<exists>s. shard_for_pv pv n = Some s \<and> s < n"
  by (simp add: shard_for_pv_def)

section \<open>What the bus relies on\<close>

definition fifo_channel ::
  "'ch channel_api \<Rightarrow> ('ch \<Rightarrow> tagged_event list) \<Rightarrow> ('ch \<Rightarrow> nat) \<Rightarrow> bool" where
  "fifo_channel api queued cap \<longleftrightarrow>
    bounded_buffer (ca_try_send api) queued cap \<and>
    (\<forall>n. queued (ca_bounded api n) = [] \<and> cap (ca_bounded api n) = n) \<and>
    (\<forall>ch. cap (snd (ca_try_recv api ch)) = cap ch \<and>
       (case queued ch of
          [] \<Rightarrow> fst (ca_try_recv api ch) = None \<and> queued (snd (ca_try_recv api ch)) = []
        | e # es \<Rightarrow> fst (ca_try_recv api ch) = Some e \<and> queued (snd (ca_try_recv api ch)) = es))"

section \<open>Draining\<close>

lemma drain_into_prefix:
  assumes "fifo_channel api queued cap"
  shows "fst (drain_into api n ch out) = out @ take n (queued ch) \<and>
    queued (snd (drain_into api n ch out)) = drop n (queued ch) \<and>
    cap (snd (drain_into api n ch out)) = cap ch"
proof (induction n arbitrary: ch out)
  case (Suc n)
  have c: "cap (snd (ca_try_recv api ch)) = cap ch"
    "case queued ch of
          [] \<Rightarrow> fst (ca_try_recv api ch) = None \<and> queued (snd (ca_try_recv api ch)) = []
        | e # es \<Rightarrow> fst (ca_try_recv api ch) = Some e \<and> queued (snd (ca_try_recv api ch)) = es"
    using assms by (auto simp: fifo_channel_def)
  show ?case
    using c Suc[of "snd (ca_try_recv api ch)"]
    by (auto split: list.splits prod.splits)
qed simp

section \<open>Runs of the bus\<close>

text \<open>What sessions and ingest threads do with one bus, in any order: the second component
  of the state is what each receiver has been given.\<close>

datatype bus_op = BusSend rstring "32 word" nat MonitorEvent | BusDrain nat nat

fun bus_step ::
  "'ch channel_api \<Rightarrow> bus_op \<Rightarrow> 'ch monitor_bus \<times> (nat \<Rightarrow> tagged_event list) \<Rightarrow>
   ('ch monitor_bus \<times> (nat \<Rightarrow> tagged_event list)) option" where
  "bus_step api (BusSend pv i s ev) (bus, got) =
    map_option (\<lambda>(_, bus'). (bus', got)) (send_to_shard api pv i s ev bus)"
| "bus_step api (BusDrain s n) (bus, got) =
    (if s < length (mb_channels bus) then
       (case drain_into api n (mb_channels bus ! s) [] of
          (out, ch) \<Rightarrow> Some (bus \<lparr> mb_channels := (mb_channels bus)[s := ch] \<rparr>, got(s := got s @ out)))
     else None)"

primrec bus_run where
  "bus_run api [] st = Some st"
| "bus_run api (x # xs) st = (case bus_step api x st of None \<Rightarrow> None | Some st' \<Rightarrow> bus_run api xs st')"

fun op_shard :: "bus_op \<Rightarrow> nat" where
  "op_shard (BusSend _ _ s _) = s" | "op_shard (BusDrain s _) = s"

fun op_sent :: "bus_op \<Rightarrow> tagged_event list" where
  "op_sent (BusSend pv i s ev) = [\<lparr> te_pv_name = pv, te_pv_id = i, te_event = ev \<rparr>]"
| "op_sent (BusDrain _ _) = []"

definition sent_to :: "nat \<Rightarrow> bus_op list \<Rightarrow> tagged_event list" where
  "sent_to s ops = concat (map op_sent (filter (\<lambda>x. op_shard x = s) ops))"

definition sends :: "bus_op list \<Rightarrow> nat" where
  "sends ops = length (concat (map op_sent ops))"

text \<open>The events of a shard: handed over, then still queued.\<close>

definition accepted ::
  "('ch \<Rightarrow> tagged_event list) \<Rightarrow> 'ch monitor_bus \<times> (nat \<Rightarrow> tagged_event list) \<Rightarrow> nat \<Rightarrow> tagged_event list" where
  "accepted queued st s = snd st s @ queued (mb_channels (fst st) ! s)"

definition bus_ok ::
  "('ch \<Rightarrow> tagged_event list) \<Rightarrow> ('ch \<Rightarrow> nat) \<Rightarrow> nat \<Rightarrow> nat \<Rightarrow> bus_op list \<Rightarrow>
   'ch monitor_bus \<times> (nat \<Rightarrow> tagged_event list) \<Rightarrow> bool" where
  "bus_ok queued cap n m ops st \<longleftrightarrow>
    length (mb_channels (fst st)) = n \<and>
    (\<forall>s < n. cap (mb_channels (fst st) ! s) = m \<and> length (queued (mb_channels (fst st) ! s)) \<le> m \<and>
       subseq (accepted queued st s) (sent_to s ops)) \<and>
    (\<exists>d. mb_dropped (fst st) = of_nat d \<and>
       sends ops = (\<Sum>s<n. length (accepted queued st s)) + d)"

lemma sent_to_snoc: "sent_to s (ops @ [x]) = sent_to s ops @ (if op_shard x = s then op_sent x else [])"
  by (simp add: sent_to_def)

lemma sends_snoc: "sends (ops @ [x]) = sends ops + length (op_sent x)"
  by (simp add: sends_def)

lemma bus_ok_init:
  assumes "fifo_channel api queued cap"
  shows "bus_ok queued cap n m [] (create_bus api n m, \<lambda>_. [])"
  using assms by (auto simp: bus_ok_def create_bus_def fifo_channel_def accepted_def sends_def intro: exI[of _ 0])

lemma accepted_other:
  "s' \<noteq> s \<Longrightarrow> accepted queued (bus \<lparr> mb_channels := (mb_channels bus)[s := ch], mb_dropped := d \<rparr>, got) s' =
    accepted queued (bus, got) s'"
  by (simp add: accepted_def)

text \<open>A step on one shard, seen through \<open>accepted\<close>.\<close>

lemma bus_ok_shard:
  assumes ok: "bus_ok queued cap n m ops st" and s: "s < n" and x: "op_shard x = s"
    and len: "length (mb_channels (fst st')) = n"
    and other: "\<And>k. k < n \<Longrightarrow> k \<noteq> s \<Longrightarrow> accepted queued st' k = accepted queued st k \<and>
      mb_channels (fst st') ! k = mb_channels (fst st) ! k"
    and ch: "cap (mb_channels (fst st') ! s) = m" "length (queued (mb_channels (fst st') ! s)) \<le> m"
    and acc: "accepted queued st' s = accepted queued st s @ new" "subseq new (op_sent x)"
    and drop: "mb_dropped (fst st') = mb_dropped (fst st) + of_nat (length (op_sent x) - length new)"
  shows "bus_ok queued cap n m (ops @ [x]) st'"
proof -
  obtain d where d: "mb_dropped (fst st) = of_nat d"
    "sends ops = (\<Sum>k<n. length (accepted queued st k)) + d"
    using ok by (auto simp: bus_ok_def)
  have upd: "(\<Sum>k<n. length (accepted queued st' k)) =
      (\<Sum>k<n. ((\<lambda>k. length (accepted queued st k))(s := length (accepted queued st s) + length new)) k)"
    using other acc by (intro sum.cong) auto
  have le: "length new \<le> length (op_sent x)"
    using acc(2) by (rule list_emb_length)
  have tot: "(\<Sum>k<n. length (accepted queued st' k)) = (\<Sum>k<n. length (accepted queued st k)) + length new"
    using sum_update_one[OF s, of "\<lambda>k. length (accepted queued st k)"
        "length (accepted queued st s) + length new"] upd by simp
  have "subseq (accepted queued st' k) (sent_to k (ops @ [x]))" if "k < n" for k
  proof (cases "k = s")
    case True
    then show ?thesis
      using ok s x acc by (auto simp: bus_ok_def sent_to_snoc intro: list_emb_append_mono)
  next
    case False
    then show ?thesis
      using ok other[OF that False] that x by (auto simp: bus_ok_def sent_to_snoc)
  qed
  moreover have "cap (mb_channels (fst st') ! k) = m \<and> length (queued (mb_channels (fst st') ! k)) \<le> m"
    if "k < n" for k
    using ok ch other[OF that] that by (cases "k = s") (auto simp: bus_ok_def)
  moreover have "mb_dropped (fst st') = of_nat (d + (length (op_sent x) - length new))"
    "sends (ops @ [x]) = (\<Sum>k<n. length (accepted queued st' k)) + (d + (length (op_sent x) - length new))"
    using d drop tot le by (simp_all add: sends_snoc)
  ultimately show ?thesis
    using len unfolding bus_ok_def by blast
qed

lemma bus_ok_step:
  assumes "fifo_channel api queued cap" "bus_ok queued cap n m ops (bus, got)" "op_shard x < n"
  obtains st where "bus_step api x (bus, got) = Some st" "bus_ok queued cap n m (ops @ [x]) st"
proof (cases x)
  case (BusSend pv i s ev)
  let ?e = "\<lparr> te_pv_name = pv, te_pv_id = i, te_event = ev \<rparr>"
  let ?ch = "mb_channels bus ! s"
  have bb: "bounded_buffer (ca_try_send api) queued cap"
    using assms(1) by (simp add: fifo_channel_def)
  note law = bounded_buffer.push_accepts[OF bb] bounded_buffer.held_push[OF bb] bounded_buffer.limit_push[OF bb]
  have s: "s < n" "length (mb_channels bus) = n" "cap ?ch = m" "length (queued ?ch) \<le> m"
    using assms(2,3) BusSend by (auto simp: bus_ok_def)
  obtain ok ch where r: "ca_try_send api ?e ?ch = (ok, ch)"
    by (cases "ca_try_send api ?e ?ch")
  let ?bus = "bus \<lparr> mb_channels := (mb_channels bus)[s := ch],
    mb_dropped := (if ok then mb_dropped bus else mb_dropped bus + 1) \<rparr>"
  have c: "ok = (length (queued ?ch) < m)" "queued ch = queued ?ch @ (if ok then [?e] else [])" "cap ch = m"
    using law[of ?e ?ch] r s by auto
  have "bus_ok queued cap n m (ops @ [x]) (?bus, got)"
    by (rule bus_ok_shard[OF assms(2) s(1), where new = "if ok then [?e] else []"])
      (use s c BusSend in \<open>auto simp: accepted_def\<close>)
  then show thesis
    using that[of "(?bus, got)"] BusSend s r by (simp add: send_to_shard_def)
next
  case (BusDrain s k)
  let ?ch = "mb_channels bus ! s"
  have s: "s < n" "length (mb_channels bus) = n" "cap ?ch = m" "length (queued ?ch) \<le> m"
    using assms(2,3) BusDrain by (auto simp: bus_ok_def)
  obtain out ch where r: "drain_into api k ?ch [] = (out, ch)"
    by (cases "drain_into api k ?ch []")
  have c: "out = take k (queued ?ch)" "queued ch = drop k (queued ?ch)" "cap ch = m"
    using drain_into_prefix[OF assms(1), of k ?ch "[]"] r s by auto
  let ?st = "(bus \<lparr> mb_channels := (mb_channels bus)[s := ch] \<rparr>, got(s := got s @ out))"
  have "bus_ok queued cap n m (ops @ [x]) ?st"
    by (rule bus_ok_shard[OF assms(2) s(1), where new = "[]"])
      (use s c BusDrain in \<open>auto simp: accepted_def\<close>)
  then show thesis
    using that[of ?st] BusDrain s r by simp
qed

lemma bus_ok_run:
  assumes "fifo_channel api queued cap" "bus_ok queued cap n m past st" "\<forall>x \<in> set ops. op_shard x < n"
  shows "\<exists>st'. bus_run api ops st = Some st' \<and> bus_ok queued cap n m (past @ ops) st'"
  using assms(2,3)
proof (induction ops arbitrary: past st)
  case (Cons x xs)
  obtain bus got where "st = (bus, got)"
    by (cases st)
  with Cons.prems obtain st' where "bus_step api x st = Some st'" "bus_ok queued cap n m (past @ [x]) st'"
    using bus_ok_step[OF assms(1), of n m past bus got x] by auto
  then show ?case
    using Cons.IH[of "past @ [x]" st'] Cons.prems(2) by simp
qed simp

section \<open>Properties\<close>

text \<open>C13. Whatever the sessions send and the ingest threads drain, in any order on
  shards in range, no call panics, each receiver is given its shard's events in the order they were sent, none twice, no channel
  grows beyond its bound, and every event that was not accepted is in the drop counter.\<close>

theorem bus_conserves_events:
  assumes "fifo_channel api queued cap" "\<forall>x \<in> set ops. op_shard x < n"
  shows "\<exists>bus got d. bus_run api ops (create_bus api n m, \<lambda>_. []) = Some (bus, got) \<and>
    (\<forall>s < n. subseq (got s @ queued (mb_channels bus ! s)) (sent_to s ops) \<and>
       length (queued (mb_channels bus ! s)) \<le> m) \<and>
    mb_dropped bus = of_nat d \<and>
    sends ops = (\<Sum>s<n. length (got s @ queued (mb_channels bus ! s))) + d"
proof -
  obtain bus got where "bus_run api ops (create_bus api n m, \<lambda>_. []) = Some (bus, got)"
    "bus_ok queued cap n m ops (bus, got)"
    using bus_ok_run[OF assms(1) bus_ok_init[OF assms(1), of n m] assms(2)] by (metis append_Nil surj_pair)
  then show ?thesis
    by (fastforce simp: bus_ok_def accepted_def)
qed

text \<open>A channel that satisfies the hypothesis: a list with its bound.\<close>

definition list_channel :: "(nat \<times> tagged_event list) channel_api" where
  "list_channel = \<lparr> ca_bounded = (\<lambda>n. (n, [])),
     ca_try_send = (\<lambda>e (n, es). if length es < n then (True, (n, es @ [e])) else (False, (n, es))),
     ca_try_recv = (\<lambda>(n, es). case es of [] \<Rightarrow> (None, (n, [])) | e # r \<Rightarrow> (Some e, (n, r))) \<rparr>"

lemma list_channel_fifo: "fifo_channel list_channel snd fst"
  by (auto simp: fifo_channel_def list_channel_def bounded_buffer_def split: list.splits)

theorem bus_conserves_events_witness:
  "\<exists>bus got d. bus_run list_channel
      [BusSend (ascii ''a'') 1 0 MeDisconnect, BusSend (ascii ''a'') 1 0 MeReconnect, BusDrain 0 8]
      (create_bus list_channel 2 1, \<lambda>_. []) = Some (bus, got) \<and>
    (\<forall>s < 2. subseq (got s @ snd (mb_channels bus ! s)) (sent_to s
       [BusSend (ascii ''a'') 1 0 MeDisconnect, BusSend (ascii ''a'') 1 0 MeReconnect, BusDrain 0 8]) \<and>
       length (snd (mb_channels bus ! s)) \<le> 1) \<and>
    mb_dropped bus = of_nat d \<and>
    sends [BusSend (ascii ''a'') 1 0 MeDisconnect, BusSend (ascii ''a'') 1 0 MeReconnect, BusDrain 0 8] =
      (\<Sum>s<2. length (got s @ snd (mb_channels bus ! s))) + d"
  by (rule bus_conserves_events[OF list_channel_fifo]) simp

end
