(* ===== verification/Session.thy ===== *)
theory Session
  imports Monitor Handshake Search Bus
begin

text \<open>
  The session on one connection: \<open>ConnectionState\<close> of
  \<open>aura-net/src/client/connection.rs\<close> and the channel, monitor, bulk, search and event loop
  operations of \<open>aura-net/src/runtime/session.rs\<close>.

  The receiving side of the transport is the list \<open>ps_inbox\<close> of what successive calls of
  \<open>recv_frame\<close> give (\<open>Transport\<close> relates it to the bytes of the socket); \<open>InTimeout\<close> marks
  a moment at which the deadline of a waiting loop, if it has one, elapses.  The sending side is the
  transport itself; \<open>ps_writes\<close> holds the outcomes of its next writes (success when the
  list is exhausted).  The static id counter is the component \<open>ps_next_id\<close>.  A hash map is
  an association list; \<open>iter\<close>, the parameter of the operations that iterate one, gives the
  order in which the keys come.
\<close>

section \<open>Connection state\<close>

datatype ChannelState = ChCreating | ChActive "32 word" | ChDestroying | ChClosed

fun ch_is_active :: "ChannelState \<Rightarrow> bool" where
  "ch_is_active (ChActive _) = True"
| "ch_is_active _ = False"

fun ch_server_id :: "ChannelState \<Rightarrow> 32 word option" where
  "ch_server_id (ChActive sid) = Some sid"
| "ch_server_id _ = None"

fun ch_display :: "ChannelState \<Rightarrow> rstring" where
  "ch_display ChCreating = ascii ''CREATING''"
| "ch_display (ChActive sid) = ascii ''ACTIVE(sid='' @ show_int (sint sid) @ ascii '')''"
| "ch_display ChDestroying = ascii ''DESTROYING''"
| "ch_display ChClosed = ascii ''CLOSED''"

record channel_info =
  ci_client_id :: "32 word"
  ci_pv_name :: rstring
  ci_state :: ChannelState

record connection_state =
  cs_addr :: socket_addr
  cs_byte_order :: ByteOrder
  cs_server_buffer_size :: "32 word"
  cs_registry :: introspection_registry
  cs_channels :: "(32 word \<times> channel_info) list"
  cs_handshake_complete :: bool
  cs_messages_sent :: u64
  cs_messages_received :: u64

definition conn_new :: "socket_addr \<Rightarrow> nat \<Rightarrow> connection_state" where
  "conn_new addr registry_size =
    \<lparr> cs_addr = addr, cs_byte_order = LittleEndian, cs_server_buffer_size = 0,
      cs_registry = reg_new registry_size, cs_channels = [], cs_handshake_complete = False,
      cs_messages_sent = 0, cs_messages_received = 0 \<rparr>"

definition activate_channel :: "32 word \<Rightarrow> 32 word \<Rightarrow> connection_state \<Rightarrow> bool \<times> connection_state" where
  "activate_channel cid sid c =
    (case map_of (cs_channels c) cid of
       Some info \<Rightarrow> (True, c \<lparr> cs_channels :=
         AList.update cid (info \<lparr> ci_state := ChActive sid \<rparr>) (cs_channels c) \<rparr>)
     | None \<Rightarrow> (False, c))"

definition close_channel :: "32 word \<Rightarrow> connection_state \<Rightarrow> connection_state" where
  "close_channel cid c =
    (case map_of (cs_channels c) cid of
       Some info \<Rightarrow> c \<lparr> cs_channels :=
         AList.update cid (info \<lparr> ci_state := ChClosed \<rparr>) (cs_channels c) \<rparr>
     | None \<Rightarrow> c)"

text \<open>The entries of a hash map in the order of its iteration.\<close>

definition hash_entries :: "('k list \<Rightarrow> 'k list) \<Rightarrow> ('k \<times> 'v) list \<Rightarrow> ('k \<times> 'v) list" where
  "hash_entries iter m = List.map_filter (\<lambda>k. map_option (Pair k) (map_of m k)) (iter (map fst m))"

definition find_channel_by_name ::
  "(32 word list \<Rightarrow> 32 word list) \<Rightarrow> rstring \<Rightarrow> connection_state \<Rightarrow> channel_info option" where
  "find_channel_by_name iter pv_name c =
    find (\<lambda>info. ci_pv_name info = pv_name) (map snd (hash_entries iter (cs_channels c)))"

definition active_channel_count :: "connection_state \<Rightarrow> nat" where
  "active_channel_count c = length (filter (\<lambda>(_, info). ch_is_active (ci_state info)) (cs_channels c))"

definition complete_handshake :: "ByteOrder \<Rightarrow> 32 word \<Rightarrow> connection_state \<Rightarrow> connection_state" where
  "complete_handshake ord bufsz c =
    c \<lparr> cs_byte_order := ord, cs_server_buffer_size := bufsz, cs_handshake_complete := True \<rparr>"

section \<open>The session\<close>

datatype 'io SessionError =
    SeTransport "'io TransportError"
  | SeHandshake "'io HandshakeError"
  | SeChannelCreateFailed rstring
  | SeMonitorFailed rstring
  | SeProtocol rstring
  | SeDecode rstring DecodeError

datatype 'io inbound = InFrame pva_frame | InError "'io TransportError" | InTimeout

record 'io pva_session =
  ps_tcp :: pva_tcp
  ps_inbox :: "'io inbound list"
  ps_writes :: "'io write_outcome list"
  ps_next_id :: "32 word"
  ps_state :: connection_state
  ps_monitor_ids :: "32 word list"
  ps_core :: session
  ps_shards :: "nat option"

text \<open>How an operation ends: with a value or an error, waiting for a frame that has not
  come, or in a panic.\<close>

datatype ('io, 'a) outcome = Returned "'io SessionError + 'a" | Waiting | Panicked

type_synonym ('io, 'a) op = "'io pva_session \<Rightarrow> ('io, 'a) outcome \<times> 'io pva_session"

definition session_connect ::
  "socket_addr \<Rightarrow> 'io write_outcome \<Rightarrow> 'io write_outcome \<Rightarrow> 32 word \<Rightarrow> 16 word \<Rightarrow>
    pva_tcp \<Rightarrow> 'io reads \<Rightarrow> 32 word \<Rightarrow>
    (pva_tcp \<Rightarrow> 'io reads \<Rightarrow> 'io inbound list) \<Rightarrow> 'io write_outcome list \<Rightarrow>
    ('io SessionError + 'io pva_session) option" where
  "session_connect addr wctrl wmsg bufsz regsz t reads next_id inbox writes =
    (case perform_handshake wctrl wmsg bufsz regsz t reads of
       (None, _, _) \<Rightarrow> None
     | (Some (Err e), _, _) \<Rightarrow> Some (Err (SeHandshake e))
     | (Some (Ok hs), t', reads') \<Rightarrow>
         Some (Ok \<lparr> ps_tcp = t', ps_inbox = inbox t' reads', ps_writes = writes, ps_next_id = next_id,
           ps_state = complete_handshake (hr_byte_order hs) (hr_buffer_size hs)
             (conn_new addr (unat (scast regsz :: 64 word))),
           ps_monitor_ids = [],
           ps_core = \<lparr> se_order = hr_byte_order hs, se_monitors = Map.empty, se_has_bus = False,
             se_pv_cache = None, se_metadata = None, se_emitted = [] \<rparr>,
           ps_shards = None \<rparr>))"

definition set_bus_tx :: "nat \<Rightarrow> 'io pva_session \<Rightarrow> 'io pva_session" where
  "set_bus_tx n_shards s = s \<lparr> ps_shards := Some n_shards, ps_core := (ps_core s) \<lparr> se_has_bus := True \<rparr> \<rparr>"

definition set_metadata_buf :: "(rstring \<times> PvaValue) list \<Rightarrow> 'io pva_session \<Rightarrow> 'io pva_session" where
  "set_metadata_buf buf s = s \<lparr> ps_core := (ps_core s) \<lparr> se_metadata := Some buf \<rparr> \<rparr>"

definition set_pv_cache :: "(rstring \<rightharpoonup> 32 word) \<Rightarrow> 'io pva_session \<Rightarrow> 'io pva_session" where
  "set_pv_cache cache s = s \<lparr> ps_core := (ps_core s) \<lparr> se_pv_cache := Some cache \<rparr> \<rparr>"

definition ps_order :: "'io pva_session \<Rightarrow> ByteOrder" where
  "ps_order s = cs_byte_order (ps_state s)"

definition next_client_id :: "'io pva_session \<Rightarrow> 32 word \<times> 'io pva_session" where
  "next_client_id s = (ps_next_id s, s \<lparr> ps_next_id := ps_next_id s + 1 \<rparr>)"

definition add_channel :: "rstring \<Rightarrow> 'io pva_session \<Rightarrow> 32 word \<times> 'io pva_session" where
  "add_channel pv_name s =
    (let (cid, s1) = next_client_id s in
     (cid, s1 \<lparr> ps_state := (ps_state s1) \<lparr> cs_channels :=
        AList.update cid \<lparr> ci_client_id = cid, ci_pv_name = pv_name, ci_state = ChCreating \<rparr>
          (cs_channels (ps_state s1)) \<rparr> \<rparr>))"

definition count_sent :: "'io pva_session \<Rightarrow> 'io pva_session" where
  "count_sent s = s \<lparr> ps_state := (ps_state s) \<lparr> cs_messages_sent := cs_messages_sent (ps_state s) + 1 \<rparr> \<rparr>"

definition count_received :: "'io pva_session \<Rightarrow> 'io pva_session" where
  "count_received s =
    s \<lparr> ps_state := (ps_state s) \<lparr> cs_messages_received := cs_messages_received (ps_state s) + 1 \<rparr> \<rparr>"

definition set_inbox :: "'io inbound list \<Rightarrow> 'io pva_session \<Rightarrow> 'io pva_session" where
  "set_inbox ins s = s \<lparr> ps_inbox := ins \<rparr>"

text \<open>One write on the socket, with its outcome.\<close>

definition next_write :: "'io pva_session \<Rightarrow> 'io write_outcome" where
  "next_write s = (case ps_writes s of [] \<Rightarrow> None | w # _ \<Rightarrow> w)"

definition ps_send :: "byte \<Rightarrow> bytes \<Rightarrow> 'io pva_session \<Rightarrow> ('io TransportError + unit) \<times> 'io pva_session" where
  "ps_send cmd payload s =
    (case send_msg (next_write s) cmd payload (ps_tcp s) of
       (r, t) \<Rightarrow> (r, s \<lparr> ps_tcp := t, ps_writes := tl (ps_writes s) \<rparr>))"

definition ps_buffer :: "byte \<Rightarrow> bytes \<Rightarrow> 'io pva_session \<Rightarrow> 'io pva_session" where
  "ps_buffer cmd payload s = s \<lparr> ps_tcp := buffer_msg cmd payload (ps_tcp s) \<rparr>"

definition ps_flush :: "'io pva_session \<Rightarrow> ('io TransportError + unit) \<times> 'io pva_session" where
  "ps_flush s =
    (if tcp_write_buf (ps_tcp s) = [] then (Ok (), s)
     else
      (case flush_writes (next_write s) (ps_tcp s) of
         (r, t) \<Rightarrow> (r, s \<lparr> ps_tcp := t, ps_writes := tl (ps_writes s) \<rparr>)))"

definition clear_write_buf :: "'io pva_session \<Rightarrow> 'io pva_session" where
  "clear_write_buf s = s \<lparr> ps_tcp := (ps_tcp s) \<lparr> tcp_write_buf := [] \<rparr> \<rparr>"

definition handle_update :: "bytes \<Rightarrow> 'io pva_session \<Rightarrow> 'io pva_session" where
  "handle_update payload s =
    s \<lparr> ps_core := handle_monitor_update payload ((ps_core s) \<lparr> se_order := ps_order s \<rparr>) \<rparr>"

definition dispatch_frame :: "pva_frame \<Rightarrow> 'io pva_session \<Rightarrow> 'io pva_session" where
  "dispatch_frame f s =
    (if hdr_command (fr_header f) = CMD_MONITOR then handle_update (fr_payload f) s
     else if hdr_command (fr_header f) = CMD_ECHO then snd (ps_send CMD_ECHO (fr_payload f) s)
     else s)"

section \<open>One channel, one monitor\<close>

definition payload_of :: "'io pva_session \<Rightarrow> wr \<Rightarrow> bytes" where
  "payload_of s w = written (ps_order s) w"

definition reader_of :: "'io pva_session \<Rightarrow> pva_frame \<Rightarrow> pva_reader" where
  "reader_of s f = reader_new (fr_payload f) (ps_order s)"

definition status_display :: "pva_status \<Rightarrow> rstring" where
  "status_display st =
    (if status_is_ok st then ascii ''OK''
     else if st_message st = [] then ascii (status_type_display (st_type st))
     else ascii (status_type_display (st_type st)) @ ascii '': '' @ st_message st)"

text \<open>The loop that waits for the answer to \<open>CREATE_CHANNEL\<close>.\<close>

fun await_channel :: "32 word \<Rightarrow> 'io inbound list \<Rightarrow> ('io, 32 word) op" where
  "await_channel cid [] s = (Waiting, set_inbox [] s)"
| "await_channel cid (InTimeout # ins) s = await_channel cid ins s"
| "await_channel cid (InError e # ins) s = (Returned (Err (SeTransport e)), set_inbox ins s)"
| "await_channel cid (InFrame f # ins) s =
    (let s1 = count_received s in
     if hdr_command (fr_header f) = CMD_CREATE_CHANNEL then
       (case fst (cr_decode (reader_of s1 f)) of
          Err e \<Rightarrow> (Returned (Err (SeDecode (ascii ''decode CREATE_CHANNEL'') e)), set_inbox ins s1)
        | Ok resp \<Rightarrow>
           if cr_client_id resp = cid then
             (if \<not> status_is_ok (cr_status resp)
              then (Returned (Err (SeChannelCreateFailed (status_display (cr_status resp)))),
                    set_inbox ins (s1 \<lparr> ps_state := close_channel cid (ps_state s1) \<rparr>))
              else (Returned (Ok (cr_server_id resp)),
                    set_inbox ins (s1 \<lparr> ps_state := snd (activate_channel cid (cr_server_id resp) (ps_state s1)) \<rparr>)))
           else await_channel cid ins (dispatch_frame f s1))
     else await_channel cid ins (dispatch_frame f s1))"

definition create_channel :: "rstring \<Rightarrow> ('io, 32 word) op" where
  "create_channel pv_name s =
    (let (cid, s1) = add_channel pv_name s in
     case ps_send CMD_CREATE_CHANNEL (payload_of s1 (create_request_encode [(cid, pv_name)])) s1 of
       (Err e, s2) \<Rightarrow> (Returned (Err (SeTransport e)), s2)
     | (Ok _, s2) \<Rightarrow> await_channel cid (ps_inbox s2) (count_sent s2))"

text \<open>What the caller of a subscription gets: a handle on the shared bus or on a channel of
  its own.\<close>

datatype monitor_handle = BusHandle rstring | ChannelHandle rstring nat

definition new_handle :: "rstring \<Rightarrow> nat \<Rightarrow> 'io pva_session \<Rightarrow> monitor_handle" where
  "new_handle pv_name buffer s =
    (if ps_shards s \<noteq> None then BusHandle pv_name else ChannelHandle pv_name buffer)"

text \<open>\<open>None\<close> is the panic of a division by zero, on a bus without shards.\<close>

definition bus_shard_of :: "rstring \<Rightarrow> 'io pva_session \<Rightarrow> nat option" where
  "bus_shard_of pv_name s =
    (case ps_shards s of None \<Rightarrow> Some 0 | Some n \<Rightarrow> shard_for_pv pv_name n)"

definition monitor_entry_new :: "monitor_subscription \<Rightarrow> nat \<Rightarrow> monitor_entry" where
  "monitor_entry_new sub shard =
    \<lparr> me_sub = sub, me_bus_shard = shard, me_pv_id = 0, me_fast = None, me_fast_array = None,
      me_fast_enum = None \<rparr>"

definition put_monitor :: "32 word \<Rightarrow> monitor_entry \<Rightarrow> 'io pva_session \<Rightarrow> 'io pva_session" where
  "put_monitor rid e s =
    s \<lparr> ps_core := (ps_core s) \<lparr> se_monitors := (se_monitors (ps_core s))(rid \<mapsto> e) \<rparr>,
      ps_monitor_ids := (if rid \<in> set (ps_monitor_ids s) then ps_monitor_ids s else ps_monitor_ids s @ [rid]) \<rparr>"

definition drop_monitor :: "32 word \<Rightarrow> 'io pva_session \<Rightarrow> 'io pva_session" where
  "drop_monitor rid s =
    s \<lparr> ps_core := (ps_core s) \<lparr> se_monitors := (se_monitors (ps_core s))(rid := None) \<rparr>,
      ps_monitor_ids := removeAll rid (ps_monitor_ids s) \<rparr>"

definition initialise_monitor :: "32 word \<Rightarrow> FieldDesc \<Rightarrow> 'io pva_session \<Rightarrow> 'io pva_session" where
  "initialise_monitor rid d s =
    (case se_monitors (ps_core s) rid of
       Some e \<Rightarrow> s \<lparr> ps_core := (ps_core s) \<lparr> se_monitors :=
         (se_monitors (ps_core s))(rid \<mapsto> entry_initialised d e) \<rparr> \<rparr>
     | None \<Rightarrow> s)"

text \<open>Decoding a description may extend the registry, also when it fails.\<close>

definition read_desc :: "pva_reader \<Rightarrow> 'io pva_session \<Rightarrow> (DecodeError + FieldDesc option) \<times> 'io pva_session" where
  "read_desc r s =
    (case fd_decode (cs_registry (ps_state s)) r of
       (res, reg, _) \<Rightarrow> (res, s \<lparr> ps_state := (ps_state s) \<lparr> cs_registry := reg \<rparr> \<rparr>))"

text \<open>The answer to the INIT of a monitor: its status and description, then the START.\<close>

definition monitor_started ::
  "monitor_handle \<Rightarrow> 32 word \<Rightarrow> 32 word \<Rightarrow> pva_reader \<Rightarrow> ('io, monitor_handle) op" where
  "monitor_started handle sid rid r s =
    (case status_decode r of
       (Err e, _) \<Rightarrow> (Returned (Err (SeDecode (ascii ''decode status'') e)), s)
     | (Ok status, r1) \<Rightarrow>
        if \<not> status_is_ok status
        then (Returned (Err (SeMonitorFailed (status_display status))), drop_monitor rid s)
        else
          (case read_desc r1 s of
             (Err e, s1) \<Rightarrow> (Returned (Err (SeDecode (ascii ''decode FieldDesc'') e)), s1)
           | (Ok None, s1) \<Rightarrow> (Returned (Err (SeProtocol (ascii ''null FieldDesc in MONITOR INIT''))), s1)
           | (Ok (Some d), s1) \<Rightarrow>
              (let s2 = initialise_monitor rid d s1 in
               case ps_send CMD_MONITOR (payload_of s2 (mr_encode (mr_start_pipeline sid rid))) s2 of
                 (Err e, s3) \<Rightarrow> (Returned (Err (SeTransport e)), s3)
               | (Ok _, s3) \<Rightarrow> (Returned (Ok handle), count_sent s3))))"

fun await_init ::
  "monitor_handle \<Rightarrow> 32 word \<Rightarrow> 32 word \<Rightarrow> 'io inbound list \<Rightarrow> ('io, monitor_handle) op" where
  "await_init handle sid rid [] s = (Waiting, set_inbox [] s)"
| "await_init handle sid rid (InTimeout # ins) s = await_init handle sid rid ins s"
| "await_init handle sid rid (InError e # ins) s = (Returned (Err (SeTransport e)), set_inbox ins s)"
| "await_init handle sid rid (InFrame f # ins) s =
    (let s1 = count_received s in
     if hdr_command (fr_header f) = CMD_MONITOR then
       (case mh_decode (reader_of s1 f) of
          (Err e, _) \<Rightarrow> (Returned (Err (SeDecode (ascii ''decode MONITOR'') e)), set_inbox ins s1)
        | (Ok hdr, r) \<Rightarrow>
           if mh_request_id hdr = rid \<and> mh_sub_command hdr = sub_to_u8 McInit
           then monitor_started handle sid rid r (set_inbox ins s1)
           else await_init handle sid rid ins (dispatch_frame f s1))
     else await_init handle sid rid ins (dispatch_frame f s1))"

definition start_monitor ::
  "(32 word list \<Rightarrow> 32 word list) \<Rightarrow> rstring \<Rightarrow> 32 word \<Rightarrow> nat \<Rightarrow> ('io, monitor_handle) op" where
  "start_monitor iter pv_name sid buffer s =
    (let (rid, s1) = next_client_id s; handle = new_handle pv_name buffer s1 in
     case find_channel_by_name iter pv_name (ps_state s1) of
       None \<Rightarrow> (Returned (Err (SeProtocol (ascii ''no channel for PV '' @ pv_name))), s1)
     | Some _ \<Rightarrow>
        (case ps_send CMD_MONITOR (payload_of s1 (mr_encode (mr_init sid rid))) s1 of
           (Err e, s2) \<Rightarrow> (Returned (Err (SeTransport e)), s2)
         | (Ok _, s2) \<Rightarrow>
            (let s3 = count_sent s2 in
             case bus_shard_of pv_name s3 of
               None \<Rightarrow> (Panicked, s3)
             | Some shard \<Rightarrow>
                await_init handle sid rid (ps_inbox s3)
                  (put_monitor rid (monitor_entry_new (sub_new pv_name sid rid) shard) s3))))"

definition add_monitor_inline ::
  "(32 word list \<Rightarrow> 32 word list) \<Rightarrow> rstring \<Rightarrow> ('io, monitor_handle) op" where
  "add_monitor_inline iter pv_name s =
    (case create_channel pv_name s of
       (Returned (Ok sid), s1) \<Rightarrow> start_monitor iter pv_name sid 256 s1
     | (Returned (Err e), s1) \<Rightarrow> (Returned (Err e), s1)
     | (Waiting, s1) \<Rightarrow> (Waiting, s1)
     | (Panicked, s1) \<Rightarrow> (Panicked, s1))"

text \<open>The monitor of a PV, by its name.\<close>

definition find_monitor ::
  "(32 word list \<Rightarrow> 32 word list) \<Rightarrow> rstring \<Rightarrow> 'io pva_session \<Rightarrow> 32 word option" where
  "find_monitor iter pv_name s =
    find (\<lambda>rid. case se_monitors (ps_core s) rid of
                  Some e \<Rightarrow> ms_pv_name (me_sub e) = pv_name
                | None \<Rightarrow> False) (iter (ps_monitor_ids s))"

definition stop_monitor ::
  "32 word \<Rightarrow> 32 word option \<Rightarrow> 'io pva_session \<Rightarrow> 'io pva_session" where
  "stop_monitor sid found s =
    (case found of
       Some rid \<Rightarrow> drop_monitor rid (snd (ps_send CMD_MONITOR (payload_of s (mr_encode (mr_stop sid rid))) s))
     | None \<Rightarrow> s)"

definition remove_monitor_inline ::
  "(32 word list \<Rightarrow> 32 word list) \<Rightarrow> rstring \<Rightarrow> 'io pva_session \<Rightarrow> 'io pva_session" where
  "remove_monitor_inline iter pv_name s =
    (case find_channel_by_name iter pv_name (ps_state s) of
       None \<Rightarrow> s
     | Some info \<Rightarrow>
        (case ch_server_id (ci_state info) of
           None \<Rightarrow> s
         | Some sid \<Rightarrow>
            (let s1 = stop_monitor sid (find_monitor iter pv_name s) s;
                 s2 = snd (ps_send CMD_DESTROY_CHANNEL
                        (order_write (ps_order s1) 4 (ci_client_id info) @ order_write (ps_order s1) 4 sid) s1)
             in s2 \<lparr> ps_state := (ps_state s2) \<lparr> cs_channels :=
                  filter (\<lambda>(_, i). ci_pv_name i \<noteq> pv_name) (cs_channels (ps_state s2)) \<rparr> \<rparr>)))"

section \<open>Subscribing many PVs at once\<close>

type_synonym 'io bulk_results = "(rstring \<times> ('io SessionError + monitor_handle)) list"

definition FLUSH_EVERY :: nat where "FLUSH_EVERY = 10000"

definition register_channels ::
  "rstring list \<Rightarrow> 'io pva_session \<Rightarrow> (32 word \<times> rstring) list \<times> 'io pva_session" where
  "register_channels pv_names s =
    fold (\<lambda>pv (ids, s). case add_channel pv s of (cid, s1) \<Rightarrow> (AList.update cid pv ids, s1)) pv_names ([], s)"

definition buffer_create :: "32 word \<Rightarrow> rstring \<Rightarrow> 'io pva_session \<Rightarrow> 'io pva_session" where
  "buffer_create cid pv_name s =
    count_sent (ps_buffer CMD_CREATE_CHANNEL
      (payload_of s (wr_seq [write_u16 1, write_i32 cid, write_string pv_name])) s)"

text \<open>Phase 1, sending: false when a flush failed.\<close>

fun send_creates :: "nat \<Rightarrow> (32 word \<times> rstring) list \<Rightarrow> 'io pva_session \<Rightarrow> bool \<times> 'io pva_session" where
  "send_creates sent [] s = (case ps_flush s of (r, s1) \<Rightarrow> (case r of Ok _ \<Rightarrow> True | Err _ \<Rightarrow> False, s1))"
| "send_creates sent ((cid, pv_name) # others) s =
    (let s1 = buffer_create cid pv_name s in
     if Suc sent mod FLUSH_EVERY = 0 then
       (case ps_flush s1 of
          (Err _, s2) \<Rightarrow> (False, s2)
        | (Ok _, s2) \<Rightarrow> send_creates (Suc sent) others s2)
     else send_creates (Suc sent) others s1)"

text \<open>Phase 1, receiving: the channels created, by client id with the PV and the id of the
  server, and the client ids refused.\<close>

type_synonym created = "(32 word \<times> (rstring \<times> 32 word)) list \<times> 32 word list"

definition note_created ::
  "(32 word \<times> rstring) list \<Rightarrow> create_channel_response \<Rightarrow> created \<Rightarrow> 'io pva_session \<Rightarrow> created \<times> 'io pva_session" where
  "note_created ids resp acc s =
    (if status_is_ok (cr_status resp) then
       ((case map_of ids (cr_client_id resp) of
           Some pv \<Rightarrow> (AList.update (cr_client_id resp) (pv, cr_server_id resp) (fst acc), snd acc)
         | None \<Rightarrow> acc),
        s \<lparr> ps_state := snd (activate_channel (cr_client_id resp) (cr_server_id resp) (ps_state s)) \<rparr>)
     else
       ((fst acc, List.insert (cr_client_id resp) (snd acc)),
        s \<lparr> ps_state := close_channel (cr_client_id resp) (ps_state s) \<rparr>))"

fun read_creates ::
  "(32 word \<times> rstring) list \<Rightarrow> nat \<Rightarrow> created \<Rightarrow> 'io inbound list \<Rightarrow> 'io pva_session \<Rightarrow> created \<times> 'io pva_session" where
  "read_creates ids missing acc [] s = (acc, set_inbox [] s)"
| "read_creates ids missing acc (i # ins) s =
    (if missing = 0 then (acc, set_inbox (i # ins) s)
     else
      (case i of
         InFrame f \<Rightarrow>
           (let s1 = count_received s in
            if hdr_command (fr_header f) = CMD_CREATE_CHANNEL then
              (case fst (cr_decode (reader_of s1 f)) of
                 Err _ \<Rightarrow> read_creates ids missing acc ins s1
               | Ok resp \<Rightarrow>
                  (case note_created ids resp acc s1 of
                     (acc', s2) \<Rightarrow> read_creates ids (missing - 1) acc' ins s2))
            else read_creates ids missing acc ins (dispatch_frame f s1))
       | _ \<Rightarrow> (acc, set_inbox ins s)))"

record pending_monitor =
  pm_pv_name :: rstring
  pm_request_id :: "32 word"
  pm_server_cid :: "32 word"
  pm_handle :: monitor_handle

text \<open>Phase 2: an entry and a handle for every channel created.\<close>

fun build_pending ::
  "(rstring \<times> 32 word) list \<Rightarrow> 'io pva_session \<Rightarrow> pending_monitor list option \<times> 'io pva_session" where
  "build_pending [] s = (Some [], s)"
| "build_pending ((pv_name, sid) # others) s =
    (let (rid, s1) = next_client_id s in
     case bus_shard_of pv_name s1 of
       None \<Rightarrow> (None, s1)
     | Some shard \<Rightarrow>
        (case build_pending others (put_monitor rid (monitor_entry_new (sub_new pv_name sid rid) shard) s1) of
           (None, s2) \<Rightarrow> (None, s2)
         | (Some pms, s2) \<Rightarrow>
             (Some (\<lparr> pm_pv_name = pv_name, pm_request_id = rid, pm_server_cid = sid,
                pm_handle = new_handle pv_name 32 s1 \<rparr> # pms), s2)))"

definition buffer_monitor ::
  "(32 word \<Rightarrow> 32 word \<Rightarrow> monitor_request) \<Rightarrow> pending_monitor \<Rightarrow> 'io pva_session \<Rightarrow> 'io pva_session" where
  "buffer_monitor req pm s =
    count_sent (ps_buffer CMD_MONITOR (payload_of s (mr_encode (req (pm_server_cid pm) (pm_request_id pm)))) s)"

text \<open>The sends of phases 2 and 3: a flush every \<open>FLUSH_EVERY\<close> messages and one at the end,
  with their errors ignored.\<close>

fun send_requests ::
  "(32 word \<Rightarrow> 32 word \<Rightarrow> monitor_request) \<Rightarrow> nat \<Rightarrow> pending_monitor list \<Rightarrow> 'io pva_session \<Rightarrow> 'io pva_session" where
  "send_requests req sent [] s = snd (ps_flush s)"
| "send_requests req sent (pm # pms) s =
    (let s1 = buffer_monitor req pm s in
     send_requests req (Suc sent) pms
       (if Suc sent mod FLUSH_EVERY = 0 then snd (ps_flush s1) else s1))"

text \<open>Phases 2 and 2b, receiving: the ids answered, and how many answers came.  An answer
  that is not OK, or whose description does not decode, is counted all the same.\<close>

definition note_init :: "32 word \<Rightarrow> pva_status \<Rightarrow> pva_reader \<Rightarrow> 'io pva_session \<Rightarrow> 'io pva_session" where
  "note_init rid status r s =
    (if status_is_ok status then
       (case read_desc r s of
          (Ok (Some d), s1) \<Rightarrow> initialise_monitor rid d s1
        | (_, s1) \<Rightarrow> s1)
     else s)"

fun read_inits ::
  "nat \<Rightarrow> 32 word list \<Rightarrow> 'io inbound list \<Rightarrow> 'io pva_session \<Rightarrow> 32 word list \<times> 'io pva_session" where
  "read_inits missing init_done [] s = (init_done, set_inbox [] s)"
| "read_inits missing init_done (i # ins) s =
    (if missing = 0 then (init_done, set_inbox (i # ins) s)
     else
      (case i of
         InFrame f \<Rightarrow>
           (let s1 = count_received s in
            if hdr_command (fr_header f) = CMD_MONITOR then
              (case mh_decode (reader_of s1 f) of
                 (Err _, _) \<Rightarrow> read_inits missing init_done ins s1
               | (Ok hdr, r) \<Rightarrow>
                  if mh_sub_command hdr = sub_to_u8 McInit then
                    (case status_decode r of
                       (Err _, _) \<Rightarrow> read_inits missing init_done ins s1
                     | (Ok status, r1) \<Rightarrow>
                         read_inits (missing - 1) (List.insert (mh_request_id hdr) init_done) ins
                           (note_init (mh_request_id hdr) status r1 s1))
                  else read_inits missing init_done ins (handle_update (fr_payload f) s1))
            else read_inits missing init_done ins (dispatch_frame f s1))
       | _ \<Rightarrow> (init_done, set_inbox ins s)))"

definition retry_inits ::
  "pending_monitor list \<Rightarrow> 32 word list \<Rightarrow> 'io pva_session \<Rightarrow> 32 word list \<times> 'io pva_session" where
  "retry_inits pms init_done s =
    (let missing = filter (\<lambda>pm. pm_request_id pm \<notin> set init_done) pms in
     if missing = [] then (init_done, s)
     else
       (let s1 = snd (ps_flush (fold (buffer_monitor mr_init) missing (clear_write_buf s))) in
        read_inits (length missing) init_done (ps_inbox s1) s1))"

text \<open>The results of phase 3; a monitor without an answer is taken out again.\<close>

definition finish_pending ::
  "32 word list \<Rightarrow> pending_monitor \<Rightarrow> 'io bulk_results \<times> 'io pva_session \<Rightarrow> 'io bulk_results \<times> 'io pva_session" where
  "finish_pending init_done pm acc =
    (if pm_request_id pm \<in> set init_done
     then (fst acc @ [(pm_pv_name pm, Ok (pm_handle pm))], snd acc)
     else (fst acc @ [(pm_pv_name pm, Err (SeProtocol (ascii ''INIT not received'')))],
           drop_monitor (pm_request_id pm) (snd acc)))"

definition init_phase ::
  "pending_monitor list \<Rightarrow> 'io pva_session \<Rightarrow> 32 word list \<times> 'io pva_session" where
  "init_phase pms s =
    (let s1 = send_requests mr_init 0 pms (clear_write_buf s) in
     read_inits (length pms) [] (ps_inbox s1) s1)"

definition start_phase ::
  "pending_monitor list \<Rightarrow> 32 word list \<Rightarrow> 'io pva_session \<Rightarrow> 'io pva_session" where
  "start_phase pms init_done s =
    send_requests mr_start_pipeline 0 (filter (\<lambda>pm. pm_request_id pm \<in> set init_done) pms) (clear_write_buf s)"

definition subscribe_pending ::
  "'io bulk_results \<Rightarrow> pending_monitor list \<Rightarrow> 'io pva_session \<Rightarrow> 'io bulk_results \<times> 'io pva_session" where
  "subscribe_pending results pms s =
    (case init_phase pms s of (init1, s1) \<Rightarrow>
     case retry_inits pms init1 s1 of (init2, s2) \<Rightarrow>
       fold (finish_pending init2) pms (results, start_phase pms init2 s2))"

definition refused_results ::
  "(32 word list \<Rightarrow> 32 word list) \<Rightarrow> (32 word \<times> rstring) list \<Rightarrow> 32 word list \<Rightarrow> 'io bulk_results" where
  "refused_results iter ids failures =
    List.map_filter (\<lambda>cid. map_option (\<lambda>pv. (pv, Err (SeChannelCreateFailed (ascii ''server rejected''))))
      (map_of ids cid)) (iter failures)"

text \<open>\<open>None\<close> is a panic.\<close>

definition add_monitors_bulk ::
  "(32 word list \<Rightarrow> 32 word list) \<Rightarrow> rstring list \<Rightarrow> 'io pva_session \<Rightarrow>
    'io bulk_results option \<times> 'io pva_session" where
  "add_monitors_bulk iter pv_names s =
    (if pv_names = [] then (Some [], s)
     else
      (case register_channels pv_names s of (ids, s1) \<Rightarrow>
       case send_creates 0 (hash_entries iter ids) (clear_write_buf s1) of
         (False, s2) \<Rightarrow>
           (Some (map (\<lambda>(_, pv). (pv, Err (SeProtocol (ascii ''flush failed'')))) (hash_entries iter ids)), s2)
       | (True, s2) \<Rightarrow>
          (case read_creates ids (length ids) ([], []) (ps_inbox s2) s2 of ((channels, failures), s3) \<Rightarrow>
           case build_pending (map snd (hash_entries iter channels)) s3 of
             (None, s4) \<Rightarrow> (None, s4)
           | (Some pms, s4) \<Rightarrow>
              (case subscribe_pending (refused_results iter ids failures) pms s4 of
                 (results, s5) \<Rightarrow> (Some results, s5)))))"

section \<open>Searching\<close>

definition SEARCH_BATCH :: nat where "SEARCH_BATCH = 500"
definition SEARCH_FLUSH_EVERY :: nat where "SEARCH_FLUSH_EVERY = 100"

function batches :: "'a list \<Rightarrow> 'a list list" where
  "batches xs = (if xs = [] then [] else take SEARCH_BATCH xs # batches (drop SEARCH_BATCH xs))"
  by pat_completeness auto
termination by (relation "measure length") (auto simp: SEARCH_BATCH_def)

declare batches.simps [simp del]

text \<open>\<open>None\<close>: nothing before the deadline of the caller.\<close>

fun recv_search_response ::
  "'io inbound list \<Rightarrow> 'io pva_session \<Rightarrow> ('io SessionError + search_response) option \<times> 'io pva_session" where
  "recv_search_response [] s = (None, set_inbox [] s)"
| "recv_search_response (InTimeout # ins) s = (None, set_inbox ins s)"
| "recv_search_response (InError e # ins) s = (Some (Err (SeTransport e)), set_inbox ins s)"
| "recv_search_response (InFrame f # ins) s =
    (let s1 = count_received s in
     if hdr_command (fr_header f) = CMD_SEARCH_RESPONSE then
       (case fst (sr_decode (reader_of s1 f)) of
          Err e \<Rightarrow> (Some (Err (SeDecode (ascii ''decode search response'') e)), set_inbox ins s1)
        | Ok resp \<Rightarrow> (Some (Ok resp), set_inbox ins s1))
     else recv_search_response ins s1)"

definition search_channels ::
  "rstring list \<Rightarrow> (32 word \<times> rstring) list \<times> 'io pva_session \<Rightarrow>
    (32 word \<times> rstring) list \<times> (32 word \<times> rstring) list \<times> 'io pva_session" where
  "search_channels batch acc =
    fold (\<lambda>pv (chs, ids, s). case next_client_id s of
       (i, s1) \<Rightarrow> (chs @ [(i, pv)], AList.update i pv ids, s1)) batch ([], acc)"

fun send_searches ::
  "socket_addr \<Rightarrow> nat \<Rightarrow> rstring list list \<Rightarrow> (32 word \<times> rstring) list \<Rightarrow> 'io pva_session \<Rightarrow>
    (32 word \<times> rstring) list option \<times> 'io pva_session" where
  "send_searches addr n [] ids s =
    (case ps_flush s of (Ok _, s1) \<Rightarrow> (Some ids, s1) | (Err _, s1) \<Rightarrow> (None, s1))"
| "send_searches addr n (batch # others) ids s =
    (case search_channels batch (ids, s) of (chs, ids', s1) \<Rightarrow>
     case next_client_id s1 of (seq, s2) \<Rightarrow>
       let s3 = count_sent (ps_buffer CMD_SEARCH (payload_of s2 (sq_encode (search_multi seq chs addr))) s2) in
       if Suc n mod SEARCH_FLUSH_EVERY = 0 then
         (case ps_flush s3 of
            (Err _, s4) \<Rightarrow> (None, s4)
          | (Ok _, s4) \<Rightarrow> send_searches addr (Suc n) others ids' s4)
       else send_searches addr (Suc n) others ids' s3)"

text \<open>The PVs of the ids a response lists, each id once.\<close>

definition take_found ::
  "32 word list \<Rightarrow> (32 word \<times> rstring) list \<times> rstring list \<Rightarrow> (32 word \<times> rstring) list \<times> rstring list" where
  "take_found found acc =
    fold (\<lambda>i (ids, pvs). case map_of ids i of
       Some pv \<Rightarrow> (AList.delete i ids, pvs @ [pv]) | None \<Rightarrow> (ids, pvs)) found acc"

lemma recv_search_response_shorter:
  "recv_search_response ins s = (Some r, s') \<Longrightarrow> length (ps_inbox s') < length ins"
  by (induction ins s rule: recv_search_response.induct)
    (fastforce simp: Let_def set_inbox_def split: if_splits sum.splits)+

function read_found ::
  "nat \<Rightarrow> (32 word \<times> rstring) list \<times> rstring list \<Rightarrow> 'io inbound list \<Rightarrow> 'io pva_session \<Rightarrow> rstring list \<times> 'io pva_session" where
  "read_found missing acc ins s =
    (if missing = 0 then (snd acc, set_inbox ins s)
     else
      (case recv_search_response ins s of
         (Some (Ok resp), s1) \<Rightarrow> read_found (missing - 1) (take_found (sr_found resp) acc) (ps_inbox s1) s1
       | (_, s1) \<Rightarrow> (snd acc, s1)))"
  by pat_completeness auto
termination by (relation "measure (\<lambda>(m, _). m)") auto

declare read_found.simps [simp del]

definition search_pvs :: "socket_addr \<Rightarrow> rstring list \<Rightarrow> 'io pva_session \<Rightarrow> rstring list \<times> 'io pva_session" where
  "search_pvs local_addr pv_names s =
    (if pv_names = [] then ([], s)
     else
      (case send_searches local_addr 0 (batches pv_names) [] s of
         (None, s1) \<Rightarrow> ([], s1)
       | (Some ids, s1) \<Rightarrow>
           read_found ((length pv_names + SEARCH_BATCH - 1) div SEARCH_BATCH) (ids, []) (ps_inbox s1) s1))"

section \<open>The event loop\<close>

datatype SessionCommand =
    AddMonitor rstring
  | AddMonitorBatch "rstring list"
  | RemoveMonitor rstring
  | Shutdown

datatype 'io command_reply =
    ReplyOne rstring "'io SessionError + monitor_handle"
  | ReplyBatch "'io bulk_results"

text \<open>What the loop's \<open>select!\<close> takes up: a frame, a tick of the echo timer or a command.\<close>

datatype loop_choice = OnFrame | OnTick | OnCommand SessionCommand

text \<open>One turn: \<open>None\<close> to go on.\<close>

definition run_command ::
  "(32 word list \<Rightarrow> 32 word list) \<Rightarrow> SessionCommand \<Rightarrow> 'io pva_session \<Rightarrow>
    ('io, unit) outcome option \<times> 'io command_reply list \<times> 'io pva_session" where
  "run_command iter cmd s =
    (case cmd of
       AddMonitor pv_name \<Rightarrow>
         (case add_monitor_inline iter pv_name s of
            (Returned r, s1) \<Rightarrow> (None, [ReplyOne pv_name r], s1)
          | (Waiting, s1) \<Rightarrow> (Some Waiting, [], s1)
          | (Panicked, s1) \<Rightarrow> (Some Panicked, [], s1))
     | AddMonitorBatch pv_names \<Rightarrow>
         (case add_monitors_bulk iter pv_names s of
            (Some results, s1) \<Rightarrow> (None, [ReplyBatch results], s1)
          | (None, s1) \<Rightarrow> (Some Panicked, [], s1))
     | RemoveMonitor pv_name \<Rightarrow> (None, [], remove_monitor_inline iter pv_name s)
     | Shutdown \<Rightarrow> (Some (Returned (Ok ())), [], s))"

definition loop_turn ::
  "(32 word list \<Rightarrow> 32 word list) \<Rightarrow> loop_choice \<Rightarrow> 'io pva_session \<Rightarrow>
    ('io, unit) outcome option \<times> 'io command_reply list \<times> 'io pva_session" where
  "loop_turn iter ch s =
    (case ch of
       OnFrame \<Rightarrow>
         (case ps_inbox s of
            InFrame f # ins \<Rightarrow> (None, [], dispatch_frame f (count_received (set_inbox ins s)))
          | InError e # ins \<Rightarrow> (Some (Returned (Err (SeTransport e))), [], set_inbox ins s)
          | InTimeout # ins \<Rightarrow> (None, [], set_inbox ins s)
          | [] \<Rightarrow> (None, [], s))
     | OnTick \<Rightarrow>
         (case ps_send CMD_ECHO (ascii ''aura'') s of
            (Err e, s1) \<Rightarrow> (Some (Returned (Err (SeTransport e))), [], s1)
          | (Ok _, s1) \<Rightarrow> (None, [], count_sent s1))
     | OnCommand cmd \<Rightarrow> run_command iter cmd s)"

fun run_event_loop ::
  "(32 word list \<Rightarrow> 32 word list) \<Rightarrow> loop_choice list \<Rightarrow> 'io pva_session \<Rightarrow>
    ('io, unit) outcome option \<times> 'io command_reply list \<times> 'io pva_session" where
  "run_event_loop iter [] s = (None, [], s)"
| "run_event_loop iter (ch # chs) s =
    (case loop_turn iter ch s of
       (Some res, replies, s1) \<Rightarrow> (Some res, replies, s1)
     | (None, replies, s1) \<Rightarrow>
        (case run_event_loop iter chs s1 of (res, later, s2) \<Rightarrow> (res, replies @ later, s2)))"

end
