(* ===== verification/SessionFacts.thy ===== *)
theory SessionFacts
  imports Session "HOL-Library.Multiset"
begin

text \<open>
  What the operations of a session (theory \<open>Session\<close>) keep and answer: the agreement of
  the session's tables, the answers of a search and of a bulk subscription, and the dialogue
  of a bulk subscription with a server that grants everything.
\<close>

section \<open>What the small steps leave alone\<close>

named_theorems session_fields

lemma send_fields [simp, session_fields]:
  "ps_core (snd (ps_send c p s)) = ps_core s" "ps_state (snd (ps_send c p s)) = ps_state s"
  "ps_inbox (snd (ps_send c p s)) = ps_inbox s" "ps_next_id (snd (ps_send c p s)) = ps_next_id s"
  "ps_monitor_ids (snd (ps_send c p s)) = ps_monitor_ids s" "ps_shards (snd (ps_send c p s)) = ps_shards s"
  by (simp_all add: ps_send_def split: prod.splits)

lemma flush_fields [simp, session_fields]:
  "ps_core (snd (ps_flush s)) = ps_core s" "ps_state (snd (ps_flush s)) = ps_state s"
  "ps_inbox (snd (ps_flush s)) = ps_inbox s" "ps_next_id (snd (ps_flush s)) = ps_next_id s"
  "ps_monitor_ids (snd (ps_flush s)) = ps_monitor_ids s" "ps_shards (snd (ps_flush s)) = ps_shards s"
  by (simp_all add: ps_flush_def split: prod.splits)

lemma ps_sendD:
  assumes "ps_send c p s = (r, s')"
  shows "ps_core s' = ps_core s" "ps_state s' = ps_state s" "ps_inbox s' = ps_inbox s"
    "ps_next_id s' = ps_next_id s" "ps_monitor_ids s' = ps_monitor_ids s" "ps_shards s' = ps_shards s"
  using send_fields[of c p s] assms by simp_all

lemma ps_flushD:
  assumes "ps_flush s = (r, s')"
  shows "ps_core s' = ps_core s" "ps_state s' = ps_state s" "ps_inbox s' = ps_inbox s"
    "ps_next_id s' = ps_next_id s" "ps_monitor_ids s' = ps_monitor_ids s" "ps_shards s' = ps_shards s"
  using flush_fields[of s] assms by simp_all

lemma buffer_fields [simp, session_fields]:
  "ps_core (ps_buffer c p s) = ps_core s" "ps_state (ps_buffer c p s) = ps_state s"
  "ps_inbox (ps_buffer c p s) = ps_inbox s" "ps_next_id (ps_buffer c p s) = ps_next_id s"
  "ps_monitor_ids (ps_buffer c p s) = ps_monitor_ids s" "ps_shards (ps_buffer c p s) = ps_shards s"
  by (simp_all add: ps_buffer_def)

lemma clear_fields [simp, session_fields]:
  "ps_core (clear_write_buf s) = ps_core s" "ps_state (clear_write_buf s) = ps_state s"
  "ps_inbox (clear_write_buf s) = ps_inbox s" "ps_next_id (clear_write_buf s) = ps_next_id s"
  "ps_monitor_ids (clear_write_buf s) = ps_monitor_ids s" "ps_shards (clear_write_buf s) = ps_shards s"
  by (simp_all add: clear_write_buf_def)

section \<open>The tables of a session agree\<close>

definition conn_ok :: "connection_state \<Rightarrow> bool" where
  "conn_ok c \<longleftrightarrow> distinct (map fst (cs_channels c)) \<and>
     (\<forall>cid info. map_of (cs_channels c) cid = Some info \<longrightarrow> ci_client_id info = cid)"

text \<open>The monitors of a session, apart from their counters and values: the ids listed are the
  keys, each entry is filed under its request id, and the bus is known to both parts.\<close>

definition monitors_ok :: "32 word list \<Rightarrow> nat option \<Rightarrow> session \<Rightarrow> bool" where
  "monitors_ok ids shards c \<longleftrightarrow> distinct ids \<and> set ids = dom (se_monitors c) \<and>
     (\<forall>rid e. se_monitors c rid = Some e \<longrightarrow> ms_request_id (me_sub e) = rid) \<and>
     (se_has_bus c \<longleftrightarrow> shards \<noteq> None)"

definition session_ok :: "'io pva_session \<Rightarrow> bool" where
  "session_ok s \<longleftrightarrow> conn_ok (ps_state s) \<and> monitors_ok (ps_monitor_ids s) (ps_shards s) (ps_core s)"

lemma session_okI:
  "session_ok s \<Longrightarrow> ps_state s' = ps_state s \<Longrightarrow> ps_core s' = ps_core s \<Longrightarrow>
    ps_monitor_ids s' = ps_monitor_ids s \<Longrightarrow> ps_shards s' = ps_shards s \<Longrightarrow> session_ok s'"
  by (simp add: session_ok_def)

lemma conn_ok_put:
  assumes "conn_ok c" "ci_client_id info = cid"
  shows "conn_ok (c \<lparr> cs_channels := AList.update cid info (cs_channels c) \<rparr>)"
  using assms by (auto simp: conn_ok_def update_conv' distinct_update)

lemma conn_okD: "conn_ok c \<Longrightarrow> map_of (cs_channels c) cid = Some info \<Longrightarrow> ci_client_id info = cid"
  by (simp add: conn_ok_def)

lemma conn_ok_others [simp]:
  "conn_ok (c \<lparr> cs_registry := reg \<rparr>) = conn_ok c"
  "conn_ok (c \<lparr> cs_messages_sent := n \<rparr>) = conn_ok c"
  "conn_ok (c \<lparr> cs_messages_received := n \<rparr>) = conn_ok c"
  by (simp_all add: conn_ok_def)

lemma conn_ok_activate: "conn_ok c \<Longrightarrow> conn_ok (snd (activate_channel cid sid c))"
  by (auto simp: activate_channel_def conn_okD intro!: conn_ok_put split: option.split)

lemma conn_ok_close: "conn_ok c \<Longrightarrow> conn_ok (close_channel cid c)"
  by (auto simp: close_channel_def conn_okD intro!: conn_ok_put split: option.split)

lemma map_of_filter_Some:
  "distinct (map fst xs) \<Longrightarrow> map_of (filter P xs) k = Some v \<Longrightarrow> map_of xs k = Some v"
  by (auto dest!: map_of_SomeD)

lemma conn_ok_filter:
  "conn_ok c \<Longrightarrow> conn_ok (c \<lparr> cs_channels := filter P (cs_channels c) \<rparr>)"
  by (auto simp: conn_ok_def distinct_map_filter dest: map_of_filter_Some)

lemma session_ok_state [intro]:
  "session_ok s \<Longrightarrow> conn_ok c \<Longrightarrow> session_ok (s \<lparr> ps_state := c \<rparr>)"
  by (simp add: session_ok_def)

lemma session_ok_conn: "session_ok s \<Longrightarrow> conn_ok (ps_state s)"
  by (simp add: session_ok_def)

lemma session_ok_counts [simp]:
  "session_ok (count_sent s) = session_ok s" "session_ok (count_received s) = session_ok s"
  "session_ok (set_inbox ins s) = session_ok s"
  by (simp_all add: session_ok_def count_sent_def count_received_def set_inbox_def)

lemma session_ok_io [simp]:
  "session_ok (snd (ps_send c p s)) = session_ok s" "session_ok (snd (ps_flush s)) = session_ok s"
  "session_ok (ps_buffer c p s) = session_ok s" "session_ok (clear_write_buf s) = session_ok s"
  by (simp_all add: session_ok_def)

lemma session_ok_send: "ps_send c p s = (r, s') \<Longrightarrow> session_ok s' = session_ok s"
  by (metis session_ok_io(1) snd_conv)

lemma session_ok_flush: "ps_flush s = (r, s') \<Longrightarrow> session_ok s' = session_ok s"
  by (metis session_ok_io(2) snd_conv)

lemma session_ok_id: "next_client_id s = (i, s') \<Longrightarrow> session_ok s' = session_ok s"
  by (auto simp: next_client_id_def session_ok_def)

lemma session_ok_add_channel: "add_channel pv s = (cid, s') \<Longrightarrow> session_ok s \<Longrightarrow> session_ok s'"
  by (auto simp: add_channel_def next_client_id_def session_ok_def intro!: conn_ok_put)

lemma monitors_ok_put:
  assumes "monitors_ok ids sh c" "ms_request_id (me_sub e) = rid"
  shows "monitors_ok (if rid \<in> set ids then ids else ids @ [rid]) sh
    (c \<lparr> se_monitors := (se_monitors c)(rid \<mapsto> e) \<rparr>)"
  using assms by (auto simp: monitors_ok_def)

lemma session_ok_put_monitor:
  "session_ok s \<Longrightarrow> ms_request_id (me_sub e) = rid \<Longrightarrow> session_ok (put_monitor rid e s)"
  using monitors_ok_put[of "ps_monitor_ids s" "ps_shards s" "ps_core s" e rid]
  by (simp add: session_ok_def put_monitor_def)

lemma session_ok_new_monitor:
  "session_ok s \<Longrightarrow> session_ok (put_monitor rid (monitor_entry_new (sub_new pv sid rid) sh) s)"
  by (rule session_ok_put_monitor) (simp_all add: monitor_entry_new_def sub_new_def)

lemma session_ok_drop_monitor: "session_ok s \<Longrightarrow> session_ok (drop_monitor rid s)"
  by (auto simp: session_ok_def drop_monitor_def monitors_ok_def distinct_removeAll)

lemma request_id_initialised [simp]: "ms_request_id (me_sub (entry_initialised d e)) = ms_request_id (me_sub e)"
  by (simp add: entry_initialised_def sub_activate_def sub_set_type_desc_def)

lemma session_ok_initialise: "session_ok s \<Longrightarrow> session_ok (initialise_monitor rid d s)"
  by (auto simp: session_ok_def initialise_monitor_def monitors_ok_def split: option.split)

lemma session_ok_read_desc: "read_desc r s = (res, s') \<Longrightarrow> session_ok s' = session_ok s"
  by (auto simp: read_desc_def session_ok_def split: prod.splits)

lemma monitors_ok_update:
  assumes "monitors_ok ids sh c"
  shows "monitors_ok ids sh (handle_monitor_update payload c)"
  using handle_steps[of payload c]
proof (elim disjE exE conjE)
  fix rid e e' ev
  assume e: "se_monitors c rid = Some e"
    and u: "update_step c rid e e' ev (handle_monitor_update payload c)"
  then have "se_monitors (handle_monitor_update payload c) = (se_monitors c)(rid \<mapsto> e')"
      "ms_request_id (me_sub e') = ms_request_id (me_sub e)"
      "se_has_bus (handle_monitor_update payload c) = se_has_bus c"
    by (simp_all add: update_step_def)
  with e assms show ?thesis
    by (auto simp: monitors_ok_def split: if_splits)
qed (use assms in simp)

lemma monitors_ok_order [simp]: "monitors_ok ids sh (c \<lparr> se_order := ord \<rparr>) = monitors_ok ids sh c"
  by (simp add: monitors_ok_def)

lemma session_ok_handle_update: "session_ok s \<Longrightarrow> session_ok (handle_update payload s)"
  by (simp add: session_ok_def handle_update_def monitors_ok_update)

lemma session_ok_dispatch: "session_ok s \<Longrightarrow> session_ok (dispatch_frame f s)"
  by (simp add: dispatch_frame_def session_ok_handle_update)

lemma session_ok_await_channel:
  "session_ok s \<Longrightarrow> session_ok (snd (await_channel cid ins s))"
  by (induction cid ins s rule: await_channel.induct)
    (auto simp: Let_def session_ok_dispatch session_ok_state conn_ok_close conn_ok_activate
      session_ok_conn split: sum.split)

lemma session_ok_create_channel: "session_ok s \<Longrightarrow> session_ok (snd (create_channel pv s))"
  by (auto simp: create_channel_def Let_def session_ok_await_channel session_ok_send
      dest!: session_ok_add_channel split: prod.split sum.split)

lemma session_ok_started: "session_ok s \<Longrightarrow> session_ok (snd (monitor_started h sid rid r s))"
  by (auto simp: monitor_started_def Let_def session_ok_drop_monitor session_ok_read_desc
      session_ok_initialise session_ok_send split: prod.split sum.split option.split)

lemma session_ok_await_init: "session_ok s \<Longrightarrow> session_ok (snd (await_init h sid rid ins s))"
  by (induction h sid rid ins s rule: await_init.induct)
    (auto simp: Let_def session_ok_dispatch session_ok_started split: prod.split sum.split)

lemma session_ok_start_monitor: "session_ok s \<Longrightarrow> session_ok (snd (start_monitor iter pv sid n s))"
  by (auto simp: start_monitor_def Let_def session_ok_id session_ok_send
      intro!: session_ok_await_init session_ok_new_monitor split: prod.split sum.split option.split)

lemma session_ok_add_inline: "session_ok s \<Longrightarrow> session_ok (snd (add_monitor_inline iter pv s))"
  using session_ok_create_channel[of s pv] session_ok_start_monitor
  by (auto simp: add_monitor_inline_def split: prod.split outcome.split sum.split)

lemma session_ok_remove_inline: "session_ok s \<Longrightarrow> session_ok (remove_monitor_inline iter pv s)"
  by (auto simp: remove_monitor_inline_def stop_monitor_def Let_def session_ok_drop_monitor
      intro!: session_ok_state conn_ok_filter session_ok_conn split: option.split)

lemma session_ok_register:
  assumes "session_ok s"
  shows "session_ok (snd (register_channels pvs s))"
proof -
  have "session_ok (snd (fold (\<lambda>pv (ids, s). case add_channel pv s of (cid, s1) \<Rightarrow> (AList.update cid pv ids, s1))
      pvs (ids, s)))" for ids
    using assms
    by (induction pvs arbitrary: ids s)
      (auto simp: case_prod_unfold intro: session_ok_add_channel[OF prod.collapse[symmetric]])
  then show ?thesis
    by (simp add: register_channels_def)
qed

lemma session_ok_buffer_create [simp]: "session_ok (buffer_create cid pv s) = session_ok s"
  by (simp add: buffer_create_def)

lemma session_ok_buffer_monitor [simp]: "session_ok (buffer_monitor req pm s) = session_ok s"
  by (simp add: buffer_monitor_def)

lemma session_ok_send_creates [simp]: "session_ok (snd (send_creates n ids s)) = session_ok s"
  by (induction n ids s rule: send_creates.induct)
    (auto simp: Let_def session_ok_flush split: prod.split sum.split)

lemma session_ok_note_created: "session_ok s \<Longrightarrow> session_ok (snd (note_created ids resp acc s))"
  by (simp add: note_created_def session_ok_state conn_ok_activate conn_ok_close session_ok_conn)

lemma session_ok_read_creates: "session_ok s \<Longrightarrow> session_ok (snd (read_creates ids n acc ins s))"
proof (induction ids n acc ins s rule: read_creates.induct)
  case (2 ids n acc i ins s)
  show ?case
    using 2 session_ok_note_created[of "count_received s" ids _ acc]
    by (cases i) (auto simp: Let_def session_ok_dispatch case_prod_unfold split: sum.split)
qed simp

lemma session_ok_next [simp]: "session_ok (snd (next_client_id s)) = session_ok s"
  by (simp add: next_client_id_def session_ok_def)

lemma session_ok_build_pending: "session_ok s \<Longrightarrow> session_ok (snd (build_pending chs s))"
proof (induction chs s rule: build_pending.induct)
  case (2 pv_name sid others s)
  then show ?case
    by (cases "bus_shard_of pv_name (snd (next_client_id s))")
      (simp_all add: Let_def case_prod_unfold session_ok_new_monitor split: option.split)
qed simp

lemma session_ok_send_requests [simp]: "session_ok (send_requests req n pms s) = session_ok s"
  by (induction req n pms s rule: send_requests.induct) (simp_all add: Let_def)

lemma session_ok_note_init: "session_ok s \<Longrightarrow> session_ok (note_init rid st r s)"
  by (auto simp: note_init_def session_ok_initialise session_ok_read_desc
      split: prod.split sum.split option.split)

lemma session_ok_read_inits: "session_ok s \<Longrightarrow> session_ok (snd (read_inits n rids ins s))"
proof (induction n rids ins s rule: read_inits.induct)
  case (2 n rids i ins s)
  then show ?case
    by (cases i) (auto simp: Let_def session_ok_dispatch session_ok_handle_update session_ok_note_init
        split: prod.split sum.split)
qed simp

lemma session_ok_buffer_monitors [simp]:
  "session_ok (fold (buffer_monitor req) pms s) = session_ok s"
  by (induction pms arbitrary: s) simp_all

lemma session_ok_finish:
  "session_ok (snd acc) \<Longrightarrow> session_ok (snd (fold (finish_pending rids) pms acc))"
  by (induction pms arbitrary: acc) (simp_all add: finish_pending_def session_ok_drop_monitor)

lemma session_ok_subscribe: "session_ok s \<Longrightarrow> session_ok (snd (subscribe_pending res pms s))"
  by (auto simp: subscribe_pending_def init_phase_def retry_inits_def start_phase_def Let_def case_prod_unfold
      intro!: session_ok_finish session_ok_read_inits)

text \<open>The stages of a bulk subscription that gets past its sends.\<close>

lemma add_monitors_bulk_cases:
  obtains "pvs = []" "add_monitors_bulk iter pvs s = (Some [], s)"
  | ids s1 s2 where "register_channels pvs s = (ids, s1)"
      "send_creates 0 (hash_entries iter ids) (clear_write_buf s1) = (False, s2)"
      "add_monitors_bulk iter pvs s = (Some (map (\<lambda>(_, pv). (pv, Err (SeProtocol (ascii ''flush failed''))))
         (hash_entries iter ids)), s2)"
  | ids s1 s2 channels failures s3 s4 where "register_channels pvs s = (ids, s1)"
      "send_creates 0 (hash_entries iter ids) (clear_write_buf s1) = (True, s2)"
      "read_creates ids (length ids) ([], []) (ps_inbox s2) s2 = ((channels, failures), s3)"
      "build_pending (map snd (hash_entries iter channels)) s3 = (None, s4)"
      "add_monitors_bulk iter pvs s = (None, s4)"
  | ids s1 s2 channels failures s3 pms s4 where "register_channels pvs s = (ids, s1)"
      "send_creates 0 (hash_entries iter ids) (clear_write_buf s1) = (True, s2)"
      "read_creates ids (length ids) ([], []) (ps_inbox s2) s2 = ((channels, failures), s3)"
      "build_pending (map snd (hash_entries iter channels)) s3 = (Some pms, s4)"
      "fst (add_monitors_bulk iter pvs s) =
         Some (fst (subscribe_pending (refused_results iter ids failures) pms s4))"
      "snd (add_monitors_bulk iter pvs s) =
         snd (subscribe_pending (refused_results iter ids failures) pms s4)"
proof (cases "pvs = []")
  case True
  then show thesis
    by (intro that(1)) (simp_all add: add_monitors_bulk_def)
next
  case False
  obtain ids s1 where 1: "register_channels pvs s = (ids, s1)"
    by (cases "register_channels pvs s") auto
  obtain sent s2 where 2: "send_creates 0 (hash_entries iter ids) (clear_write_buf s1) = (sent, s2)"
    by (cases "send_creates 0 (hash_entries iter ids) (clear_write_buf s1)") auto
  obtain channels failures s3 where 3:
      "read_creates ids (length ids) ([], []) (ps_inbox s2) s2 = ((channels, failures), s3)"
    by (metis prod.collapse)
  obtain pms s4 where 4: "build_pending (map snd (hash_entries iter channels)) s3 = (pms, s4)"
    by (cases "build_pending (map snd (hash_entries iter channels)) s3") auto
  show thesis
    using False 1 2 3 4 that(2-4)
    by (cases sent; cases pms) (simp_all add: add_monitors_bulk_def split: prod.split)
qed

lemma session_ok_bulk:
  assumes "session_ok s"
  shows "session_ok (snd (add_monitors_bulk iter pvs s))"
  using session_ok_register[OF assms, of pvs]
proof (cases rule: add_monitors_bulk_cases[of pvs iter s])
  case (2 ids s1 s2)
  then show ?thesis
    using session_ok_register[OF assms, of pvs] session_ok_send_creates[of 0 "hash_entries iter ids" "clear_write_buf s1"]
    by simp
next
  case (3 ids s1 s2 channels failures s3 s4)
  then show ?thesis
    using session_ok_register[OF assms, of pvs] session_ok_send_creates[of 0 "hash_entries iter ids" "clear_write_buf s1"]
      session_ok_read_creates[of s2 ids "length ids" "([], [])" "ps_inbox s2"]
      session_ok_build_pending[of s3 "map snd (hash_entries iter channels)"]
    by simp
next
  case (4 ids s1 s2 channels failures s3 pms s4)
  then have "session_ok s4"
    using session_ok_register[OF assms, of pvs] session_ok_send_creates[of 0 "hash_entries iter ids" "clear_write_buf s1"]
      session_ok_read_creates[of s2 ids "length ids" "([], [])" "ps_inbox s2"]
      session_ok_build_pending[of s3 "map snd (hash_entries iter channels)"]
    by simp
  then show ?thesis
    unfolding 4(6) by (rule session_ok_subscribe)
qed (use assms in simp)

lemma session_ok_recv_search [simp]: "session_ok (snd (recv_search_response ins s)) = session_ok s"
  by (induction ins s rule: recv_search_response.induct) (auto simp: Let_def split: sum.split)

lemma session_ok_results:
  "add_monitor_inline iter pv s = (r, s') \<Longrightarrow> session_ok s \<Longrightarrow> session_ok s'"
  "add_monitors_bulk iter pvs s = (rs, s') \<Longrightarrow> session_ok s \<Longrightarrow> session_ok s'"
  using session_ok_add_inline[of s iter pv] session_ok_bulk[of s iter pvs] by simp_all

lemma session_ok_command: "session_ok s \<Longrightarrow> session_ok (snd (snd (run_command iter cmd s)))"
  by (cases cmd) (auto simp: run_command_def session_ok_remove_inline dest: session_ok_results
      split: prod.split outcome.split option.split)

lemma session_ok_turn: "session_ok s \<Longrightarrow> session_ok (snd (snd (loop_turn iter ch s)))"
  by (cases ch) (auto simp: loop_turn_def session_ok_command session_ok_dispatch session_ok_send
      split: list.split inbound.split prod.split sum.split)

lemma session_ok_loop: "session_ok s \<Longrightarrow> session_ok (snd (snd (run_event_loop iter chs s)))"
proof (induction iter chs s rule: run_event_loop.induct)
  case (2 iter ch chs s)
  then show ?case
    using session_ok_turn[of s iter ch] by (auto split: prod.split option.split)
qed simp

lemma session_ok_connect:
  assumes "session_connect addr wctrl wmsg bufsz regsz t reads n inbox writes = Some (Ok s)"
  shows "session_ok s"
  using assms by (auto simp: session_connect_def session_ok_def monitors_ok_def conn_ok_def
      conn_new_def complete_handshake_def split: prod.splits option.splits sum.splits)

lemma session_ok_set_bus: "session_ok s \<Longrightarrow> session_ok (set_bus_tx n s)"
  by (auto simp: session_ok_def set_bus_tx_def monitors_ok_def)

lemma session_ok_setters [simp]:
  "session_ok (set_metadata_buf buf s) = session_ok s" "session_ok (set_pv_cache cache s) = session_ok s"
  by (simp_all add: session_ok_def set_metadata_buf_def set_pv_cache_def monitors_ok_def)

section \<open>Search\<close>

lemma mset_update_subset:
  "mset (map snd (AList.update k v xs)) \<subseteq># add_mset v (mset (map snd xs))"
proof (induction xs)
  case (Cons p xs)
  obtain a b where p: "p = (a, b)"
    by (cases p)
  show ?case
  proof (cases "a = k")
    case True
    have "add_mset v (mset (map snd xs)) \<subseteq># add_mset v (add_mset b (mset (map snd xs)))"
      by (simp add: subset_eq_diff_conv)
    then show ?thesis
      using True by (simp add: p)
  next
    case False
    have "add_mset b (mset (map snd (AList.update k v xs))) \<subseteq># add_mset b (add_mset v (mset (map snd xs)))"
      using Cons by simp
    then show ?thesis
      using False by (simp add: p add_mset_commute)
  qed
qed simp

lemma mset_delete_subset:
  "map_of xs k = Some v \<Longrightarrow> add_mset v (mset (map snd (AList.delete k xs))) \<subseteq># mset (map snd xs)"
proof (induction xs)
  case (Cons p xs)
  obtain a b where p: "p = (a, b)"
    by (cases p)
  have shrink: "mset (map snd (AList.delete k xs)) \<subseteq># mset (map snd xs)"
    by (simp add: AList.delete_eq image_mset_subseteq_mono multiset_filter_subset)
  show ?case
  proof (cases "a = k")
    case True
    then show ?thesis
      using Cons.prems shrink by (simp add: p)
  next
    case False
    then have "add_mset v (mset (map snd (AList.delete k xs))) \<subseteq># mset (map snd xs)"
      using Cons by (simp add: p)
    then show ?thesis
      using False by (simp add: p add_mset_commute)
  qed
qed simp

lemma take_found_subset:
  "mset (map snd (fst (take_found found acc))) + mset (snd (take_found found acc)) \<subseteq>#
    mset (map snd (fst acc)) + mset (snd acc)"
proof (induction found arbitrary: acc)
  case (Cons i found)
  obtain ids pvs where acc: "acc = (ids, pvs)"
    by (cases acc)
  show ?case
  proof (cases "map_of ids i")
    case None
    then show ?thesis
      using Cons[of acc] by (simp add: take_found_def acc)
  next
    case (Some pv)
    have "add_mset pv (mset (map snd (AList.delete i ids))) + mset pvs \<subseteq># mset (map snd ids) + mset pvs"
      using mset_delete_subset[OF Some] by simp
    then show ?thesis
      using Cons[of "(AList.delete i ids, pvs @ [pv])"] Some
      by (simp add: take_found_def acc) (erule subset_mset.order_trans, simp)
  qed
qed (simp add: take_found_def)

lemma read_found_subset:
  "mset (fst (read_found n acc ins s)) \<subseteq># mset (map snd (fst acc)) + mset (snd acc)"
proof (induction n acc ins s rule: read_found.induct)
  case (1 n acc ins s)
  show ?case
  proof (cases "\<exists>resp s1. n \<noteq> 0 \<and> recv_search_response ins s = (Some (Ok resp), s1)")
    case True
    then obtain resp s1 where r: "n \<noteq> 0" "recv_search_response ins s = (Some (Ok resp), s1)"
      by blast
    then have "read_found n acc ins s = read_found (n - 1) (take_found (sr_found resp) acc) (ps_inbox s1) s1"
      by (simp add: read_found.simps[of n])
    then show ?thesis
      using 1[OF r(1) r(2)[symmetric] refl refl] take_found_subset[of "sr_found resp" acc] subset_mset.order_trans by auto
  next
    case False
    then have "fst (read_found n acc ins s) = snd acc"
      by (auto simp: read_found.simps[of n] split: prod.split option.split sum.split)
    then show ?thesis
      by simp
  qed
qed

lemma search_channels_subset:
  "search_channels batch (ids, s) = (chs, ids', s') \<Longrightarrow>
    mset (map snd ids') \<subseteq># mset (map snd ids) + mset batch"
proof -
  have "fold (\<lambda>pv (chs, ids, s). case next_client_id s of
       (i, s1) \<Rightarrow> (chs @ [(i, pv)], AList.update i pv ids, s1)) batch (chs0, ids, s) = (chs, ids', s') \<Longrightarrow>
    mset (map snd ids') \<subseteq># mset (map snd ids) + mset batch" for chs0
  proof (induction batch arbitrary: chs0 ids s)
    case (Cons pv batch)
    have "mset (map snd ids') \<subseteq># mset (map snd (AList.update (fst (next_client_id s)) pv ids)) + mset batch"
      using Cons.IH Cons.prems by (simp add: case_prod_unfold)
    also have "\<dots> \<subseteq># add_mset pv (mset (map snd ids)) + mset batch"
      by (rule subset_mset.add_right_mono[OF mset_update_subset])
    finally show ?case
      by simp
  qed simp
  then show "search_channels batch (ids, s) = (chs, ids', s') \<Longrightarrow>
    mset (map snd ids') \<subseteq># mset (map snd ids) + mset batch"
    by (simp add: search_channels_def)
qed

lemma send_searches_subset:
  "send_searches addr n bs ids s = (Some ids', s') \<Longrightarrow>
    mset (map snd ids') \<subseteq># mset (map snd ids) + mset (concat bs)"
proof (induction addr n bs ids s rule: send_searches.induct)
  case (1 addr n ids s)
  then show ?case
    by (auto split: prod.splits sum.splits)
next
  case (2 addr n batch others ids s)
  obtain chs ids1 s1 where c: "search_channels batch (ids, s) = (chs, ids1, s1)"
    by (metis prod_cases3)
  obtain seq s2 where q: "next_client_id s1 = (seq, s2)"
    by (cases "next_client_id s1") auto
  have "mset (map snd ids') \<subseteq># mset (map snd ids1) + mset (concat others)"
    using 2 by (auto simp: c q Let_def split: if_splits prod.splits sum.splits)
  also have "\<dots> \<subseteq># mset (map snd ids) + mset batch + mset (concat others)"
    by (rule subset_mset.add_right_mono[OF search_channels_subset[OF c]])
  finally show ?case
    by (simp add: add.assoc)
qed

lemma concat_batches: "concat (batches xs) = xs"
  by (induction xs rule: batches.induct) (simp add: batches.simps)

lemma length_batches: "length (batches xs) = (length xs + SEARCH_BATCH - 1) div SEARCH_BATCH"
proof (induction xs rule: batches.induct)
  case (1 xs)
  show ?case
  proof (cases "length xs \<le> SEARCH_BATCH \<or> xs = []")
    case True
    then have "length (batches xs) = (if xs = [] then 0 else 1)"
      using 1 by (auto simp: batches.simps[of xs] batches.simps[of "[]"])
    then show ?thesis
      using True by (cases xs) (auto simp: SEARCH_BATCH_def intro!: div_nat_eqI)
  next
    case False
    then have "length xs + SEARCH_BATCH - 1 = (length xs - 1) + SEARCH_BATCH"
      by (simp add: SEARCH_BATCH_def)
    then have "(length xs + SEARCH_BATCH - 1) div SEARCH_BATCH = Suc ((length xs - 1) div SEARCH_BATCH)"
      by (simp add: SEARCH_BATCH_def)
    then show ?thesis
      using False 1 by (simp add: batches.simps[of xs])
  qed
qed

lemma search_subset: "mset (fst (search_pvs addr pvs s)) \<subseteq># mset pvs"
proof (cases "send_searches addr 0 (batches pvs) [] s")
  case (Pair res s1)
  show ?thesis
  proof (cases res)
    case (Some ids)
    then have "mset (map snd ids) \<subseteq># mset pvs"
      using send_searches_subset[of addr 0 "batches pvs" "[]" s ids s1] Pair
      by (simp add: concat_batches)
    then show ?thesis
      using read_found_subset[of _ "(ids, [])" "ps_inbox s1" s1] Pair Some
      by (auto simp: search_pvs_def intro: subset_mset.order_trans)
  qed (simp add: search_pvs_def Pair)
qed

section \<open>The results of a bulk subscription\<close>

lemma set_map_filter: "set (List.map_filter f xs) = {y. \<exists>x \<in> set xs. f x = Some y}"
  by (force simp: List.map_filter_def)

lemma set_hash_entries: "set (hash_entries iter m) \<subseteq> set m"
  by (auto simp: hash_entries_def set_map_filter dest: map_of_SomeD)

lemma names_update: "snd ` set (AList.update k v xs) \<subseteq> insert v (snd ` set xs)"
  by (induction xs) auto

lemma register_names:
  assumes "register_channels pvs s = (ids, s')"
  shows "snd ` set ids \<subseteq> set pvs"
proof -
  have "fold (\<lambda>pv (ids, s). case add_channel pv s of (cid, s1) \<Rightarrow> (AList.update cid pv ids, s1))
      pvs (ids0, s) = (ids, s') \<Longrightarrow> snd ` set ids \<subseteq> snd ` set ids0 \<union> set pvs" for ids0
  proof (induction pvs arbitrary: ids0 s)
    case (Cons pv pvs)
    then have "snd ` set ids \<subseteq> snd ` set (AList.update (fst (add_channel pv s)) pv ids0) \<union> set pvs"
      by (simp add: case_prod_unfold)
    then show ?case
      using names_update[of "fst (add_channel pv s)" pv ids0] by auto
  qed simp
  then show ?thesis
    using assms by (fastforce simp: register_channels_def)
qed

lemma note_created_names:
  assumes "fst ` snd ` set (fst acc) \<subseteq> snd ` set ids"
  shows "fst ` snd ` set (fst (fst (note_created ids resp acc s))) \<subseteq> snd ` set ids"
proof (cases "map_of ids (cr_client_id resp)")
  case (Some pv)
  then have pv: "pv \<in> snd ` set ids"
    by (force dest: map_of_SomeD)
  let ?new = "AList.update (cr_client_id resp) (pv, cr_server_id resp) (fst acc)"
  have "fst ` snd ` set ?new \<subseteq> fst ` insert (pv, cr_server_id resp) (snd ` set (fst acc))"
    by (rule image_mono[OF names_update])
  also have "\<dots> \<subseteq> snd ` set ids"
    using assms pv by simp
  finally show ?thesis
    using assms Some by (simp add: note_created_def)
qed (use assms in \<open>simp add: note_created_def\<close>)

lemma read_creates_names:
  assumes "fst ` snd ` set (fst acc) \<subseteq> snd ` set ids"
  shows "fst ` snd ` set (fst (fst (read_creates ids n acc ins s))) \<subseteq> snd ` set ids"
  using assms
proof (induction ids n acc ins s rule: read_creates.induct)
  case (2 ids n acc i ins s)
  note ih = 2(1-3) and acc = 2(4)
  show ?case
  proof (cases i)
    case (InFrame f)
    let ?s1 = "count_received s"
    show ?thesis
    proof (cases "n \<noteq> 0 \<and> hdr_command (fr_header f) = CMD_CREATE_CHANNEL")
      case True
      show ?thesis
      proof (cases "fst (cr_decode (reader_of ?s1 f))")
        case (Inr resp)
        obtain acc' s2 where "note_created ids resp acc ?s1 = (acc', s2)"
          by (cases "note_created ids resp acc ?s1") auto
        then show ?thesis
          using 2(2) True InFrame Inr note_created_names[OF acc, of resp ?s1] by (simp add: Let_def)
      qed (use True InFrame 2(1) acc in \<open>simp add: Let_def\<close>)
    qed (use InFrame 2(3) acc in \<open>auto simp: Let_def\<close>)
  qed (use acc in auto)
qed simp

lemma build_pending_names:
  "build_pending chs s = (Some pms, s') \<Longrightarrow> map pm_pv_name pms = map fst chs"
  by (induction chs s arbitrary: pms s' rule: build_pending.induct)
    (auto simp: Let_def split: prod.splits option.splits)

lemma finish_names:
  "map fst (fst (fold (finish_pending rids) pms acc)) = map fst (fst acc) @ map pm_pv_name pms"
  by (induction pms arbitrary: acc) (simp_all add: finish_pending_def)

lemma subscribe_names:
  "map fst (fst (subscribe_pending res pms s)) = map fst res @ map pm_pv_name pms"
  by (simp add: subscribe_pending_def case_prod_unfold finish_names)

lemma refused_names: "fst ` set (refused_results iter ids failures) \<subseteq> snd ` set ids"
  by (force simp: refused_results_def set_map_filter dest: map_of_SomeD)

lemma bulk_names:
  fixes s :: "'io pva_session"
  assumes "fst (add_monitors_bulk iter pvs s) = Some results"
  shows "fst ` set results \<subseteq> set pvs"
proof (cases rule: add_monitors_bulk_cases[of pvs iter s])
  case (2 ids s1 s2)
  then show ?thesis
    using assms set_hash_entries[of iter ids] register_names[of pvs s ids s1] by force
next
  case (4 ids s1 s2 channels failures s3 pms s4)
  have "fst ` snd ` set channels \<subseteq> snd ` set ids"
    using read_creates_names[of "([], [])" ids "length ids" "ps_inbox s2" s2] 4(3) by simp
  moreover have "pm_pv_name ` set pms \<subseteq> fst ` snd ` set channels"
    using build_pending_names[OF 4(4)] set_hash_entries[of iter channels]
    by (metis (no_types, lifting) image_mono image_set list.set_map)
  moreover have "fst ` set results = fst ` set (refused_results iter ids failures :: 'io bulk_results) \<union> pm_pv_name ` set pms"
    using assms arg_cong[OF subscribe_names[of "refused_results iter ids failures" pms s4], of set]
    by (simp add: 4(5))
  moreover have "fst ` set (refused_results iter ids failures :: 'io bulk_results) \<subseteq> snd ` set ids"
    by (rule refused_names)
  ultimately show ?thesis
    using register_names[OF 4(1)] by (metis (no_types, lifting) Un_least subset_trans)
qed (use assms in simp_all)

end
