(* ===== verification/Bulk.thy ===== *)
theory Bulk
  imports SessionFacts
begin

text \<open>
  The dialogue of \<open>add_monitors_bulk\<close> (theory \<open>Session\<close>) with a server that grants every
  channel and every monitor, in whatever order it answers and in whatever order the hash
  maps of the client are iterated.
\<close>

section \<open>The messages of the dialogue\<close>

definition create_message :: "ByteOrder \<Rightarrow> 32 word \<times> rstring \<Rightarrow> bytes" where
  "create_message ord ch = message_bytes CMD_CREATE_CHANNEL
     (written ord (wr_seq [write_u16 1, write_i32 (fst ch), write_string (snd ch)]))"

definition request_message ::
  "ByteOrder \<Rightarrow> (32 word \<Rightarrow> 32 word \<Rightarrow> monitor_request) \<Rightarrow> 32 word \<times> 32 word \<Rightarrow> bytes" where
  "request_message ord req sub = message_bytes CMD_MONITOR (written ord (mr_encode (req (fst sub) (snd sub))))"

definition app_frame :: "byte \<Rightarrow> bytes \<Rightarrow> pva_frame" where
  "app_frame cmd p = frame_new (header_app cmd (of_nat (length p))) p"

definition create_reply :: "ByteOrder \<Rightarrow> 32 word \<times> 32 word \<Rightarrow> 'io inbound" where
  "create_reply ord r = InFrame (app_frame CMD_CREATE_CHANNEL
     (written ord (cr_encode \<lparr> cr_client_id = fst r, cr_server_id = snd r, cr_status = status_ok \<rparr>)))"

definition init_reply :: "ByteOrder \<Rightarrow> 32 word \<times> FieldDesc \<Rightarrow> 'io inbound" where
  "init_reply ord r = InFrame (app_frame CMD_MONITOR
     (written ord (mh_encode \<lparr> mh_request_id = fst r, mh_sub_command = sub_to_u8 McInit \<rparr>) @
      written ord (status_encode status_ok) @ written ord (fd_encode (snd r))))"

text \<open>The ids the client hands out from now on.\<close>

definition ids_from :: "32 word \<Rightarrow> nat \<Rightarrow> 32 word list" where
  "ids_from n k = map (\<lambda>i. n + of_nat i) [0..<k]"

lemma length_ids_from [simp]: "length (ids_from n k) = k"
  by (simp add: ids_from_def)

lemma ids_from_Suc: "ids_from n (Suc k) = n # ids_from (n + 1) k"
  by (rule nth_equalityI) (auto simp: ids_from_def nth_Cons split: nat.split simp del: upt_Suc)

lemma ids_from_add: "ids_from n (j + k) = ids_from n j @ ids_from (n + of_nat j) k"
  by (rule nth_equalityI) (auto simp: ids_from_def nth_append)

lemma distinct_ids_from: "k < 2 ^ 32 \<Longrightarrow> distinct (ids_from n k)"
  by (auto simp: ids_from_def distinct_map inj_on_def unat_of_nat dest!: arg_cong[where f = unat])

section \<open>Phase 1\<close>

lemma update_fresh: "k \<notin> fst ` set xs \<Longrightarrow> AList.update k v xs = xs @ [(k, v)]"
  by (induction xs) auto

text \<open>What registering and sending leave alone.\<close>

definition same_monitors :: "'io pva_session \<Rightarrow> 'io pva_session \<Rightarrow> bool" where
  "same_monitors s s' \<longleftrightarrow> ps_core s' = ps_core s \<and> ps_monitor_ids s' = ps_monitor_ids s \<and>
     ps_shards s' = ps_shards s \<and> ps_order s' = ps_order s \<and>
     cs_registry (ps_state s') = cs_registry (ps_state s)"

definition same_traffic :: "'io pva_session \<Rightarrow> 'io pva_session \<Rightarrow> bool" where
  "same_traffic s s' \<longleftrightarrow> ps_tcp s' = ps_tcp s \<and> ps_writes s' = ps_writes s"

lemma register_fold:
  assumes "set cids \<inter> fst ` set ids = {}" "distinct cids" "cids = ids_from (ps_next_id s) (length pvs)"
  shows "\<exists>s'. fold (\<lambda>pv (ids, s). case add_channel pv s of (cid, s1) \<Rightarrow> (AList.update cid pv ids, s1))
      pvs (ids, s) = (ids @ zip cids pvs, s') \<and>
    same_monitors s s' \<and> same_traffic s s' \<and> ps_inbox s' = ps_inbox s \<and>
    ps_next_id s' = ps_next_id s + of_nat (length pvs)"
  using assms
proof (induction pvs arbitrary: cids ids s)
  case (Cons pv pvs)
  let ?n = "ps_next_id s"
  let ?s = "snd (add_channel pv s)"
  let ?cids = "ids_from (?n + 1) (length pvs)"
  have c: "cids = ?n # ?cids" and fst: "fst (add_channel pv s) = ?n"
    and s: "same_monitors s ?s" "same_traffic s ?s" "ps_inbox ?s = ps_inbox s" "ps_next_id ?s = ?n + 1"
    using Cons.prems(3) by (simp_all add: ids_from_Suc add_channel_def next_client_id_def same_monitors_def
        same_traffic_def ps_order_def)
  have "?n \<notin> fst ` set ids" and d: "set ?cids \<inter> fst ` set (ids @ [(?n, pv)]) = {}" "distinct ?cids"
    using Cons.prems(1,2) unfolding c by auto
  then have "AList.update ?n pv ids = ids @ [(?n, pv)]"
    by (intro update_fresh)
  moreover obtain s' where "fold (\<lambda>pv (ids, s). case add_channel pv s of (cid, s1) \<Rightarrow> (AList.update cid pv ids, s1))
      pvs (ids @ [(?n, pv)], ?s) = ((ids @ [(?n, pv)]) @ zip ?cids pvs, s')"
    "same_monitors ?s s'" "same_traffic ?s s'" "ps_inbox s' = ps_inbox ?s"
    "ps_next_id s' = ps_next_id ?s + of_nat (length pvs)"
    using Cons.IH[OF d, of ?s] s(4) by auto
  ultimately show ?case
    using s c fst
    by (intro exI[of _ s']) (auto simp: case_prod_unfold same_monitors_def same_traffic_def)
qed (simp add: ids_from_def same_monitors_def same_traffic_def)

lemma register_channels_run:
  assumes "length pvs < 2 ^ 32"
  obtains s' where "register_channels pvs s = (zip (ids_from (ps_next_id s) (length pvs)) pvs, s')"
    "same_monitors s s'" "same_traffic s s'" "ps_inbox s' = ps_inbox s"
    "ps_next_id s' = ps_next_id s + of_nat (length pvs)"
  using register_fold[of "ids_from (ps_next_id s) (length pvs)" "[]" s pvs]
    distinct_ids_from[OF assms] by (auto simp: register_channels_def)

text \<open>A session whose writes all succeed, what it has sent, and what it is about to.\<close>

definition wire_out :: "'io pva_session \<Rightarrow> bytes" where
  "wire_out s = tcp_out (ps_tcp s) @ tcp_write_buf (ps_tcp s)"

definition sends :: "'io pva_session \<Rightarrow> bytes \<Rightarrow> 'io pva_session \<Rightarrow> bool" where
  "sends s bs s' \<longleftrightarrow> same_monitors s s' \<and> ps_inbox s' = ps_inbox s \<and> ps_next_id s' = ps_next_id s \<and>
     ps_writes s' = [] \<and> wire_out s' = wire_out s @ bs"

lemma sends_trans: "sends s a t \<Longrightarrow> sends t b u \<Longrightarrow> sends s (a @ b) u"
  by (simp add: sends_def same_monitors_def)

lemma sends_refl: "ps_writes s = [] \<Longrightarrow> sends s [] s"
  by (simp add: sends_def same_monitors_def)

lemma flush_sends:
  assumes "ps_writes s = []"
  obtains s' where "ps_flush s = (Ok (), s')" "sends s [] s'" "tcp_write_buf (ps_tcp s') = []"
  using assms by (cases "tcp_write_buf (ps_tcp s) = []")
    (auto simp: ps_flush_def sends_def same_monitors_def ps_order_def next_write_def flush_writes_sent wire_out_def)

lemma buffer_sends:
  "ps_writes s = [] \<Longrightarrow> sends s (message_bytes c p) (count_sent (ps_buffer c p s))"
  by (simp add: sends_def same_monitors_def ps_order_def count_sent_def ps_buffer_def buffer_msg_def wire_out_def)

lemma sends_order: "sends s bs s' \<Longrightarrow> ps_order s' = ps_order s"
  by (simp add: sends_def same_monitors_def)

lemma sends_writes: "sends s bs s' \<Longrightarrow> ps_writes s' = []"
  by (simp add: sends_def)

lemma send_creates_run:
  assumes "ps_writes s = []"
  obtains s' where "send_creates n es s = (True, s')"
    "sends s (concat (map (create_message (ps_order s)) es)) s'" "tcp_write_buf (ps_tcp s') = []"
proof -
  have "\<exists>s'. send_creates n es s = (True, s') \<and>
    sends s (concat (map (create_message (ps_order s)) es)) s' \<and> tcp_write_buf (ps_tcp s') = []"
    using assms
  proof (induction n es s rule: send_creates.induct)
    case (1 n s)
    obtain s' where "ps_flush s = (Ok (), s')" "sends s [] s'" "tcp_write_buf (ps_tcp s') = []"
      by (rule flush_sends[OF 1])
    then show ?case
      by simp
  next
    case (2 n cid pv others s)
    let ?m = "create_message (ps_order s) (cid, pv)"
    let ?s1 = "buffer_create cid pv s"
    have b: "sends s ?m ?s1"
      unfolding buffer_create_def create_message_def payload_of_def fst_conv snd_conv by (rule buffer_sends[OF 2(3)])
    show ?case
    proof (cases "Suc n mod FLUSH_EVERY = 0")
      case True
      obtain s2 where f: "ps_flush ?s1 = (Ok (), s2)" "sends ?s1 [] s2"
        using flush_sends[OF sends_writes[OF b]] by blast
      have s2: "sends s ?m s2"
        using sends_trans[OF b f(2)] by simp
      obtain s' where "send_creates (Suc n) others s2 = (True, s')"
          "sends s2 (concat (map (create_message (ps_order s)) others)) s'" "tcp_write_buf (ps_tcp s') = []"
        using 2(1)[OF refl True f(1)[symmetric] refl sends_writes[OF s2]] sends_order[OF s2] by auto
      then show ?thesis
        using True f(1) sends_trans[OF s2] by (intro exI[of _ s']) (simp add: Let_def)
    next
      case False
      obtain s' where "send_creates (Suc n) others ?s1 = (True, s')"
          "sends ?s1 (concat (map (create_message (ps_order s)) others)) s'" "tcp_write_buf (ps_tcp s') = []"
        using 2(2)[OF refl False sends_writes[OF b]] sends_order[OF b] by auto
      then show ?thesis
        using False sends_trans[OF b] by (intro exI[of _ s']) (simp add: Let_def)
    qed
  qed
  then show thesis
    using that by blast
qed

lemma frame_simps [simp]:
  "hdr_command (fr_header (app_frame cmd p)) = cmd" "fr_payload (app_frame cmd p) = p"
  by (simp_all add: app_frame_def frame_new_def header_app_def)

lemma status_ok_simps [simp]: "status_is_ok status_ok" "status_valid status_ok"
  by (simp_all add: status_is_ok_def status_ok_def status_valid_def string_ok_def)

lemma count_received_simps [simp]:
  "same_monitors s (count_received s)" "same_traffic s (count_received s)"
  "ps_next_id (count_received s) = ps_next_id s" "ps_order (count_received s) = ps_order s"
  by (simp_all add: count_received_def same_monitors_def same_traffic_def ps_order_def)

lemma activate_same:
  "same_monitors s (s \<lparr> ps_state := snd (activate_channel cid sid (ps_state s)) \<rparr>)"
  by (simp add: same_monitors_def ps_order_def activate_channel_def split: option.split)

lemma same_trans:
  "same_monitors s t \<Longrightarrow> same_monitors t u \<Longrightarrow> same_monitors s u"
  "same_traffic s t \<Longrightarrow> same_traffic t u \<Longrightarrow> same_traffic s u"
  by (simp_all add: same_monitors_def same_traffic_def)

lemma read_creates_run:
  assumes "distinct (map fst creates)" "fst ` set creates \<inter> fst ` set chans = {}"
    and "\<forall>(cid, sid) \<in> set creates. \<exists>pv. map_of ids cid = Some pv"
  shows "\<exists>s'. read_creates ids (length creates) (chans, [])
      (map (create_reply (ps_order s)) creates @ later) s =
      ((chans @ map (\<lambda>(cid, sid). (cid, (the (map_of ids cid), sid))) creates, []), s') \<and>
    same_monitors s s' \<and> same_traffic s s' \<and> ps_next_id s' = ps_next_id s \<and> ps_inbox s' = later"
  using assms
proof (induction creates arbitrary: chans s)
  case Nil
  then show ?case
    by (cases later) (auto simp: set_inbox_def same_monitors_def same_traffic_def ps_order_def)
next
  case (Cons r creates)
  obtain cid sid where r: "r = (cid, sid)"
    by (cases r)
  obtain pv where pv: "map_of ids cid = Some pv"
    using Cons.prems(3) r by auto
  let ?resp = "\<lparr> cr_client_id = cid, cr_server_id = sid, cr_status = status_ok \<rparr>"
  let ?s1 = "count_received s"
  let ?s2 = "?s1 \<lparr> ps_state := snd (activate_channel cid sid (ps_state ?s1)) \<rparr>"
  have d: "fst (cr_decode (reader_new (written (ps_order s) (cr_encode ?resp)) (ps_order s))) = Ok ?resp"
    using create_response.decode_new[of ?resp "ps_order s" "[]"] by simp
  have "AList.update cid (pv, sid) chans = chans @ [(cid, (pv, sid))]"
    by (rule update_fresh) (use Cons.prems(2) r in auto)
  then have n: "note_created ids ?resp (chans, []) ?s1 = ((chans @ [(cid, (pv, sid))], []), ?s2)"
    by (simp add: note_created_def pv)
  have o: "ps_order ?s2 = ps_order s"
    using activate_same[of ?s1 cid sid] by (simp add: same_monitors_def)
  have same: "same_monitors s ?s2" "same_traffic s ?s2" "ps_next_id ?s2 = ps_next_id s"
    using same_trans(1)[OF count_received_simps(1) activate_same] by (simp_all add: same_traffic_def count_received_def)
  have prems: "distinct (map fst creates)" "fst ` set creates \<inter> fst ` set (chans @ [(cid, (pv, sid))]) = {}"
      "\<forall>(cid, sid) \<in> set creates. \<exists>pv. map_of ids cid = Some pv"
    using Cons.prems r by auto
  obtain s' where s': "read_creates ids (length creates) (chans @ [(cid, (pv, sid))], [])
      (map (create_reply (ps_order s)) creates @ later) ?s2 =
      (((chans @ [(cid, (pv, sid))]) @ map (\<lambda>(cid, sid). (cid, (the (map_of ids cid), sid))) creates, []), s')"
    "same_monitors ?s2 s'" "same_traffic ?s2 s'" "ps_next_id s' = ps_next_id ?s2" "ps_inbox s' = later"
    using Cons.IH[OF prems, of ?s2] unfolding o by blast
  have "read_creates ids (length (r # creates)) (chans, [])
      (map (create_reply (ps_order s)) (r # creates) @ later) s =
    read_creates ids (length creates) (chans @ [(cid, (pv, sid))], [])
      (map (create_reply (ps_order s)) creates @ later) ?s2"
    by (simp add: create_reply_def r reader_of_def d n Let_def)
  then show ?case
    using s' same(3) same_trans(1)[OF same(1) s'(2)] same_trans(2)[OF same(2) s'(3)]
    by (intro exI[of _ s']) (simp add: r pv)
qed

section \<open>Phases 2 and 3\<close>

text \<open>The entry of a monitor as it is created, and after the server has described it.\<close>

definition fresh_entry :: "rstring \<Rightarrow> 32 word \<Rightarrow> 32 word \<Rightarrow> nat option \<Rightarrow> monitor_entry" where
  "fresh_entry pv sid rid shards = monitor_entry_new (sub_new pv sid rid)
     (case shards of None \<Rightarrow> 0 | Some n \<Rightarrow> the (shard_for_pv pv n))"

lemma shard_of_ok:
  "ps_shards s \<noteq> Some 0 \<Longrightarrow> bus_shard_of pv s =
    Some (case ps_shards s of None \<Rightarrow> 0 | Some n \<Rightarrow> the (shard_for_pv pv n))"
  by (auto simp: bus_shard_of_def shard_for_pv_def split: option.split)

definition pending_of :: "'io pva_session \<Rightarrow> (rstring \<times> 32 word) \<times> 32 word \<Rightarrow> pending_monitor" where
  "pending_of s c = \<lparr> pm_pv_name = fst (fst c), pm_request_id = snd c, pm_server_cid = snd (fst c),
     pm_handle = new_handle (fst (fst c)) 32 s \<rparr>"

lemma build_pending_run:
  assumes "ps_shards s \<noteq> Some 0" "distinct (ids_from (ps_next_id s) (length chs))"
  shows "\<exists>s'. build_pending chs s =
      (Some (map (pending_of s) (zip chs (ids_from (ps_next_id s) (length chs)))), s') \<and>
    ps_tcp s' = ps_tcp s \<and> ps_writes s' = ps_writes s \<and> ps_inbox s' = ps_inbox s \<and>
    ps_state s' = ps_state s \<and> ps_shards s' = ps_shards s \<and>
    (\<forall>((pv, sid), rid) \<in> set (zip chs (ids_from (ps_next_id s) (length chs))).
       se_monitors (ps_core s') rid = Some (fresh_entry pv sid rid (ps_shards s))) \<and>
    (\<forall>rid. rid \<notin> set (ids_from (ps_next_id s) (length chs)) \<longrightarrow>
       se_monitors (ps_core s') rid = se_monitors (ps_core s) rid)"
  using assms
proof (induction chs arbitrary: s)
  case (Cons ch chs)
  obtain pv sid where ch: "ch = (pv, sid)"
    by (cases ch)
  let ?n = "ps_next_id s"
  let ?s1 = "s \<lparr> ps_next_id := ?n + 1 \<rparr>"
  let ?s2 = "put_monitor ?n (fresh_entry pv sid ?n (ps_shards s)) ?s1"
  have new: "new_handle p 32 ?s2 = new_handle p 32 s" for p
    by (simp add: new_handle_def put_monitor_def)
  have f: "ps_next_id ?s2 = ?n + 1" "ps_shards ?s2 = ps_shards s" "ps_tcp ?s2 = ps_tcp s"
      "ps_writes ?s2 = ps_writes s" "ps_inbox ?s2 = ps_inbox s" "ps_state ?s2 = ps_state s"
      "se_monitors (ps_core ?s2) = (se_monitors (ps_core s))(?n \<mapsto> fresh_entry pv sid ?n (ps_shards s))"
    by (simp_all add: put_monitor_def)
  have d: "?n \<notin> set (ids_from (?n + 1) (length chs))" "distinct (ids_from (?n + 1) (length chs))"
    using Cons.prems(2) by (simp_all add: ids_from_Suc)
  from Cons.IH[of ?s2, unfolded f(1,2,3,4,5,6), OF Cons.prems(1) d(2)] obtain s' where s': "build_pending chs ?s2 =
      (Some (map (pending_of ?s2) (zip chs (ids_from (?n + 1) (length chs)))), s')"
    "ps_tcp s' = ps_tcp s" "ps_writes s' = ps_writes s" "ps_inbox s' = ps_inbox s"
    "ps_state s' = ps_state s" "ps_shards s' = ps_shards s"
    "\<forall>((pv, sid), rid) \<in> set (zip chs (ids_from (?n + 1) (length chs))).
       se_monitors (ps_core s') rid = Some (fresh_entry pv sid rid (ps_shards s))"
    "\<forall>rid. rid \<notin> set (ids_from (?n + 1) (length chs)) \<longrightarrow>
       se_monitors (ps_core s') rid = se_monitors (ps_core ?s2) rid"
    by (elim exE conjE) (rule that; assumption)
  have p: "pending_of ?s2 = pending_of s"
    by (simp add: pending_of_def new fun_eq_iff)
  have b: "build_pending (ch # chs) s =
      (Some (pending_of s (ch, ?n) # map (pending_of s) (zip chs (ids_from (?n + 1) (length chs)))), s')"
    using shard_of_ok[of ?s1 pv] Cons.prems(1) s'(1) unfolding p
    by (simp add: ch next_client_id_def Let_def fresh_entry_def pending_of_def new_handle_def)
  have own: "se_monitors (ps_core s') ?n = Some (fresh_entry pv sid ?n (ps_shards s))"
    using s'(8) d(1) f(7) by simp
  have others: "se_monitors (ps_core s') rid = se_monitors (ps_core s) rid"
    if "rid \<notin> set (?n # ids_from (?n + 1) (length chs))" for rid
    using s'(8) f(7) that by simp
  show ?case
    using b s'(2-7) own others by (intro exI[of _ s']) (simp add: ids_from_Suc ch)
qed (simp add: ids_from_def)

lemma send_requests_run:
  assumes "ps_writes s = []"
  shows "sends s (concat (map (\<lambda>pm. request_message (ps_order s) req (pm_server_cid pm, pm_request_id pm)) pms))
      (send_requests req n pms s) \<and> tcp_write_buf (ps_tcp (send_requests req n pms s)) = []"
  using assms
proof (induction req n pms s rule: send_requests.induct)
  case (1 req n s)
  obtain s' where "ps_flush s = (Ok (), s')" "sends s [] s'" "tcp_write_buf (ps_tcp s') = []"
    by (rule flush_sends[OF 1])
  then show ?case
    by simp
next
  case (2 req n pm pms s)
  let ?m = "request_message (ps_order s) req (pm_server_cid pm, pm_request_id pm)"
  let ?s1 = "buffer_monitor req pm s"
  let ?s2 = "if Suc n mod FLUSH_EVERY = 0 then snd (ps_flush ?s1) else ?s1"
  have b: "sends s ?m ?s1"
    unfolding buffer_monitor_def request_message_def payload_of_def fst_conv snd_conv by (rule buffer_sends[OF 2(2)])
  obtain s' where "ps_flush ?s1 = (Ok (), s')" "sends ?s1 [] s'"
    by (rule flush_sends[OF sends_writes[OF b]])
  then have s2: "sends s ?m ?s2"
    using b sends_trans[OF b] by fastforce
  show ?case
    using 2(1)[OF refl sends_writes[OF s2]] sends_trans[OF s2] sends_order[OF s2] by (simp add: Let_def)
qed

definition answered ::
  "(32 word \<times> FieldDesc) list \<Rightarrow> 'io pva_session \<Rightarrow> 'io pva_session \<Rightarrow> bool" where
  "answered inits s s' \<longleftrightarrow> ps_tcp s' = ps_tcp s \<and> ps_writes s' = ps_writes s \<and> ps_shards s' = ps_shards s \<and>
     ps_order s' = ps_order s \<and>
     (\<forall>rid. se_monitors (ps_core s') rid =
        (case map_of inits rid of
           Some d \<Rightarrow> map_option (entry_initialised d) (se_monitors (ps_core s) rid)
         | None \<Rightarrow> se_monitors (ps_core s) rid))"

lemma note_init_run:
  assumes "desc_ok d" "rd_order r = ps_order s" "rest r = written (ps_order s) (fd_encode d)"
  shows "answered [(rid, d)] s (note_init rid status_ok r s)"
proof -
  have "read_desc r s = (Ok (Some d), s)"
    using fd_decode_plain[OF assms(1,2), of "[]" "cs_registry (ps_state s)"] assms(3)
    by (simp add: read_desc_def)
  then show ?thesis
    by (auto simp: note_init_def answered_def initialise_monitor_def ps_order_def split: option.split)
qed

lemma answered_trans:
  assumes "answered [(rid, d)] s t" "answered inits t u" "rid \<notin> fst ` set inits"
  shows "answered ((rid, d) # inits) s u"
proof -
  have "map_of inits rid = None"
    using assms(3) by (simp add: map_of_eq_None_iff)
  then show ?thesis
    using assms(1,2) by (auto simp: answered_def split: option.split)
qed

lemma set_inbox_answered: "answered [] s (set_inbox ins s)"
  by (simp add: answered_def set_inbox_def ps_order_def)

lemma read_inits_run:
  assumes "distinct (map fst inits)" "\<forall>(rid, d) \<in> set inits. desc_ok d"
  shows "\<exists>rids s'. read_inits (length inits) rids0
      (map (init_reply (ps_order s)) inits @ later) s = (rids, s') \<and>
    set rids = set rids0 \<union> fst ` set inits \<and> ps_inbox s' = later \<and> answered inits s s'"
  using assms
proof (induction inits arbitrary: rids0 s)
  case Nil
  then show ?case
    using set_inbox_answered[of s later] by (cases later) (auto simp: set_inbox_def)
next
  case (Cons r inits)
  obtain rid d where r: "r = (rid, d)"
    by (cases r)
  let ?s1 = "count_received s" and ?ord = "ps_order s"
  let ?hdr = "\<lparr> mh_request_id = rid, mh_sub_command = MONITOR_INIT \<rparr>"
  let ?h = "written ?ord (mh_encode ?hdr)"
  let ?st = "written ?ord (status_encode status_ok)" and ?d = "written ?ord (fd_encode d)"
  let ?f = "app_frame CMD_MONITOR (?h @ ?st @ ?d)"
  have "mh_decode (reader_of ?s1 ?f) = (Ok ?hdr, advance (length ?h) (reader_of ?s1 ?f))"
    using monitor_header.decode_new[where v = ?hdr and ord = ?ord and tail = "?st @ ?d"]
    by (simp add: reader_of_def)
  then obtain r1 where 1: "mh_decode (reader_of ?s1 ?f) = (Ok ?hdr, r1)" "rd_order r1 = ?ord" "rest r1 = ?st @ ?d"
    by (simp add: reader_of_def reader_new_def)
  have "status_decode r1 = (Ok status_ok, advance (length ?st) r1)"
    by (rule parsesD[OF parses_status[of status_ok ?ord], where tail = ?d]) (simp_all add: 1)
  then obtain r2 where 2: "status_decode r1 = (Ok status_ok, r2)" "rd_order r2 = ?ord" "rest r2 = ?d"
    using 1(2,3) rest_advance[of "length ?st" r1] by simp
  let ?s2 = "note_init rid status_ok r2 ?s1"
  have "answered [(rid, d)] ?s1 ?s2"
    by (rule note_init_run) (use Cons.prems(2) r 2 in auto)
  moreover have "answered [] s ?s1"
    by (simp add: answered_def count_received_def ps_order_def)
  ultimately have a: "answered [(rid, d)] s ?s2"
    by (simp add: answered_def)
  then have o: "ps_order ?s2 = ?ord"
    by (simp add: answered_def)
  obtain rids s' where s': "read_inits (length inits) (List.insert rid rids0)
      (map (init_reply ?ord) inits @ later) ?s2 = (rids, s')"
    "set rids = set (List.insert rid rids0) \<union> fst ` set inits" "ps_inbox s' = later" "answered inits ?s2 s'"
    using Cons.IH[of "List.insert rid rids0" ?s2] Cons.prems unfolding o by auto
  have "read_inits (length (r # inits)) rids0 (map (init_reply ?ord) (r # inits) @ later) s =
    read_inits (length inits) (List.insert rid rids0) (map (init_reply ?ord) inits @ later) ?s2"
    by (simp add: init_reply_def r 1(1) 2(1) Let_def)
  moreover have "answered (r # inits) s s'"
    unfolding r by (rule answered_trans[OF a s'(4)]) (use Cons.prems(1) r in simp)
  ultimately show ?case
    using s'(1-3) by (intro exI[of _ rids] exI[of _ s']) (auto simp: r)
qed

lemma finish_all:
  assumes "pm_request_id ` set pms \<subseteq> set rids"
  shows "fold (finish_pending rids) pms acc =
    (fst acc @ map (\<lambda>pm. (pm_pv_name pm, Ok (pm_handle pm))) pms, snd acc)"
  using assms by (induction pms arbitrary: acc) (simp_all add: finish_pending_def)

lemma wire_out_clear: "tcp_write_buf (ps_tcp s) = [] \<Longrightarrow> clear_write_buf s = s"
  by (simp add: clear_write_buf_def)

lemma subscribe_pending_run:
  assumes "ps_writes s = []" "tcp_write_buf (ps_tcp s) = []"
    and "ps_inbox s = map (init_reply (ps_order s)) inits @ later"
    and "length inits = length pms" "distinct (map fst inits)" "fst ` set inits = pm_request_id ` set pms"
    and "\<forall>(rid, d) \<in> set inits. desc_ok d"
  shows "\<exists>s'. subscribe_pending res pms s = (res @ map (\<lambda>pm. (pm_pv_name pm, Ok (pm_handle pm))) pms, s') \<and>
    ps_inbox s' = later \<and>
    (\<forall>rid. se_monitors (ps_core s') rid =
        (case map_of inits rid of
           Some d \<Rightarrow> map_option (entry_initialised d) (se_monitors (ps_core s) rid)
         | None \<Rightarrow> se_monitors (ps_core s) rid)) \<and>
    tcp_out (ps_tcp s') = tcp_out (ps_tcp s) @
      concat (map (\<lambda>pm. request_message (ps_order s) mr_init (pm_server_cid pm, pm_request_id pm)) pms) @
      concat (map (\<lambda>pm. request_message (ps_order s) mr_start_pipeline (pm_server_cid pm, pm_request_id pm)) pms) \<and>
    tcp_write_buf (ps_tcp s') = []"
proof -
  let ?msg = "\<lambda>req pm. request_message (ps_order s) req (pm_server_cid pm, pm_request_id pm)"
  let ?s1 = "send_requests mr_init 0 pms s"
  have c: "clear_write_buf s = s"
    by (rule wire_out_clear[OF assms(2)])
  have s1: "sends s (concat (map (?msg mr_init) pms)) ?s1" "tcp_write_buf (ps_tcp ?s1) = []"
    using send_requests_run[OF assms(1), of mr_init pms 0] by simp_all
  have o1: "ps_order ?s1 = ps_order s" "ps_inbox ?s1 = map (init_reply (ps_order s)) inits @ later"
    using s1 assms(3) by (simp_all add: sends_def same_monitors_def)
  obtain rids s2 where r: "read_inits (length inits) [] (map (init_reply (ps_order s)) inits @ later) ?s1 = (rids, s2)"
      "set rids = fst ` set inits" "ps_inbox s2 = later" "answered inits ?s1 s2"
    using read_inits_run[OF assms(5,7), of "[]" ?s1 later] unfolding o1 by auto
  have init: "init_phase pms s = (rids, s2)"
    using r(1) assms(4) o1(2) by (simp add: init_phase_def c Let_def)
  have all: "filter (\<lambda>pm. pm_request_id pm \<notin> set rids) pms = []"
      "filter (\<lambda>pm. pm_request_id pm \<in> set rids) pms = pms"
    using r(2) assms(6) by (auto simp: filter_empty_conv intro!: filter_True)
  have retry: "retry_inits pms rids s2 = (rids, s2)"
    by (simp add: retry_inits_def all)
  have w2: "ps_writes s2 = []" "tcp_write_buf (ps_tcp s2) = []" "ps_order s2 = ps_order s"
    using r(4) s1 o1 by (simp_all add: answered_def sends_def)
  let ?s3 = "send_requests mr_start_pipeline 0 pms s2"
  have start: "start_phase pms rids s2 = ?s3"
    by (simp add: start_phase_def all wire_out_clear[OF w2(2)])
  have s3: "sends s2 (concat (map (?msg mr_start_pipeline) pms)) ?s3" "tcp_write_buf (ps_tcp ?s3) = []"
    using send_requests_run[OF w2(1), of mr_start_pipeline pms 0] w2(3) by simp_all
  have known: "pm_request_id ` set pms \<subseteq> set rids"
    using r(2) assms(6) by simp
  have "subscribe_pending res pms s = (res @ map (\<lambda>pm. (pm_pv_name pm, Ok (pm_handle pm))) pms, ?s3)"
    by (simp add: subscribe_pending_def init retry start finish_all[OF known])
  moreover have "tcp_out (ps_tcp ?s3) = tcp_out (ps_tcp s) @ concat (map (?msg mr_init) pms) @
      concat (map (?msg mr_start_pipeline) pms)"
    using s1 s3 r(4) assms(2) by (simp add: sends_def wire_out_def answered_def)
  moreover have core: "ps_core ?s1 = ps_core s" "ps_core ?s3 = ps_core s2"
    using s1(1) s3(1) by (simp_all add: sends_def same_monitors_def)
  moreover have "ps_inbox ?s3 = later"
    using s3(1) r(3) by (simp add: sends_def)
  moreover have "se_monitors (ps_core ?s3) rid =
        (case map_of inits rid of
           Some d \<Rightarrow> map_option (entry_initialised d) (se_monitors (ps_core s) rid)
         | None \<Rightarrow> se_monitors (ps_core s) rid)" for rid
    using r(4) unfolding answered_def core by blast
  ultimately show ?thesis
    using s3(2) by blast
qed

section \<open>The whole dialogue\<close>

lemma map_filter_known:
  "\<forall>k \<in> set ks. map_of m k \<noteq> None \<Longrightarrow>
    List.map_filter (\<lambda>k. map_option (Pair k) (map_of m k)) ks = map (\<lambda>k. (k, the (map_of m k))) ks"
  by (induction ks) (auto simp: List.map_filter_def)

lemma mset_hash_entries:
  assumes "distinct (map fst m)" "mset (iter (map fst m)) = mset (map fst m)"
  shows "mset (hash_entries iter m) = mset m"
proof -
  let ?e = "\<lambda>k. (k, the (map_of m k))"
  have keys: "set (iter (map fst m)) = fst ` set m"
    using arg_cong[OF assms(2), of set_mset] by simp
  have "\<forall>k \<in> set (iter (map fst m)). map_of m k \<noteq> None"
    unfolding keys map_of_eq_None_iff by simp
  then have "hash_entries iter m = map ?e (iter (map fst m))"
    unfolding hash_entries_def by (rule map_filter_known)
  then have "mset (hash_entries iter m) = mset (map ?e (map fst m))"
    using assms(2) by (metis mset_map)
  also have "map ?e (map fst m) = m"
    using assms(1) by (auto intro!: map_idI)
  finally show ?thesis .
qed

lemma names_of_created:
  assumes "distinct cids" "length cids = length pvs" "mset (map fst creates) = mset cids"
  shows "image_mset (\<lambda>(cid, sid). the (map_of (zip cids pvs) cid)) (mset creates) = mset pvs"
proof -
  let ?name = "\<lambda>cid. the (map_of (zip cids pvs) cid)"
  have "image_mset (\<lambda>(cid, sid). ?name cid) (mset creates) = image_mset ?name (mset (map fst creates))"
    by (simp add: case_prod_unfold image_mset.compositionality comp_def)
  also have "\<dots> = mset (map ?name cids)"
    using assms(3) by simp
  also have "map ?name cids = pvs"
    using assms(1,2) by (auto intro!: nth_equalityI simp: map_of_zip_nth)
  finally show ?thesis .
qed

text \<open>Phase 1 against such a server.\<close>

lemma phase_one_run:
  fixes s :: "'io pva_session"
  assumes "pvs \<noteq> []" "length pvs < 2 ^ 31" "ps_writes s = []"
    and iter: "\<And>ks. mset (iter ks) = mset ks"
    and "mset (map fst creates) = mset (ids_from (ps_next_id s) (length pvs))"
    and "ps_inbox s = map (create_reply (ps_order s)) creates @ later"
  obtains chs order s3 where "add_monitors_bulk iter pvs s =
      (case build_pending chs s3 of
         (None, s4) \<Rightarrow> (None, s4)
       | (Some pms, s4) \<Rightarrow> (case subscribe_pending [] pms s4 of (results, s5) \<Rightarrow> (Some results, s5)))"
    "mset (map fst chs) = mset pvs" "snd ` set chs \<subseteq> snd ` set creates"
    "mset order = mset (zip (ids_from (ps_next_id s) (length pvs)) pvs)"
    "ps_next_id s3 = ps_next_id s + of_nat (length pvs)" "ps_shards s3 = ps_shards s"
    "ps_writes s3 = []" "tcp_write_buf (ps_tcp s3) = []" "ps_order s3 = ps_order s" "ps_inbox s3 = later"
    "tcp_out (ps_tcp s3) = tcp_out (ps_tcp s) @ concat (map (create_message (ps_order s)) order)"
proof -
  let ?n = "ps_next_id s" and ?k = "length pvs" and ?ord = "ps_order s"
  let ?cids = "ids_from ?n ?k"
  let ?ids = "zip ?cids pvs"
  have d: "distinct ?cids"
    using assms(2) by (simp add: distinct_ids_from)
  have k: "length creates = ?k" and dom: "fst ` set creates = set ?cids"
    using arg_cong[OF assms(5), of size] arg_cong[OF assms(5), of set_mset] by simp_all
  have dist: "distinct (map fst creates)"
    using d assms(5) mset_eq_imp_distinct_iff by blast
  obtain s1 where s1: "register_channels pvs s = (?ids, s1)" "same_monitors s s1" "same_traffic s s1"
      "ps_inbox s1 = ps_inbox s" "ps_next_id s1 = ?n + of_nat ?k"
    using register_channels_run[of pvs s] assms(2) by auto
  let ?s1 = "clear_write_buf s1" and ?order = "hash_entries iter ?ids"
  have w1: "ps_writes ?s1 = []" "ps_order ?s1 = ?ord" "wire_out ?s1 = tcp_out (ps_tcp s)"
      "ps_inbox ?s1 = ps_inbox s" "ps_next_id ?s1 = ?n + of_nat ?k" "ps_shards ?s1 = ps_shards s"
    using s1 assms(3) by (simp_all add: clear_write_buf_def same_traffic_def same_monitors_def wire_out_def ps_order_def)
  obtain s2 where s2: "send_creates 0 ?order ?s1 = (True, s2)"
      "sends ?s1 (concat (map (create_message ?ord) ?order)) s2" "tcp_write_buf (ps_tcp s2) = []"
    using send_creates_run[OF w1(1)] w1(2) by metis
  have w2: "ps_writes s2 = []" "ps_order s2 = ?ord" "ps_inbox s2 = ps_inbox s"
      "ps_next_id s2 = ?n + of_nat ?k" "ps_shards s2 = ps_shards s"
      "tcp_out (ps_tcp s2) = tcp_out (ps_tcp s) @ concat (map (create_message ?ord) ?order)"
    using s2(2,3) w1 by (simp_all add: sends_def same_monitors_def wire_out_def)
  let ?named = "\<lambda>(cid, sid). (the (map_of ?ids cid), sid)"
  let ?channels = "map (\<lambda>(cid, sid). (cid, ?named (cid, sid))) creates"
  have len: "length ?ids = length creates"
    using k by simp
  have ok3: "\<forall>(cid, sid) \<in> set creates. \<exists>pv. map_of ?ids cid = Some pv"
    using dom by (force simp: map_of_zip_is_Some[of ?cids pvs, symmetric])
  obtain s3 where s3: "read_creates ?ids (length ?ids) ([], []) (ps_inbox s2) s2 = ((?channels, []), s3)"
      "same_monitors s2 s3" "same_traffic s2 s3" "ps_next_id s3 = ps_next_id s2" "ps_inbox s3 = later"
    using read_creates_run[OF dist _ ok3, of "[]" s2 later] unfolding len w2(2,3) assms(6) by auto
  let ?chs = "map snd (hash_entries iter ?channels)"
  have "distinct (map fst ?channels)"
    using dist by (simp add: case_prod_unfold comp_def)
  then have "mset (hash_entries iter ?channels) = mset ?channels"
    by (rule mset_hash_entries) (rule iter)
  then have chs: "mset ?chs = image_mset ?named (mset creates)"
    using mset_map[of snd "hash_entries iter ?channels"]
    by (simp add: image_mset.compositionality comp_def case_prod_unfold)
  show thesis
  proof (rule that[of ?chs s3 ?order])
    have "iter [] = []"
      using iter[of "[]"] by simp
    then have refused: "refused_results iter ?ids [] = []"
      by (simp add: refused_results_def List.map_filter_def)
    show "add_monitors_bulk iter pvs s =
      (case build_pending ?chs s3 of
         (None, s4) \<Rightarrow> (None, s4)
       | (Some pms, s4) \<Rightarrow> (case subscribe_pending [] pms s4 of (results, s5) \<Rightarrow> (Some results, s5)))"
      using assms(1) by (simp only: add_monitors_bulk_def s1(1) s2(1) s3(1) refused prod.case bool.case if_False)
    show "mset (map fst ?chs) = mset pvs"
      unfolding mset_map[of fst ?chs] chs using names_of_created[OF d length_ids_from assms(5)]
      by (simp add: image_mset.compositionality comp_def case_prod_unfold)
    show "snd ` set ?chs \<subseteq> snd ` set creates"
      using arg_cong[OF chs, of set_mset] by (auto simp del: set_map) (force simp: case_prod_unfold)+
    show "mset ?order = mset ?ids"
      by (rule mset_hash_entries) (use d iter in \<open>simp_all add: map_fst_zip_take\<close>)
  qed (use s2(3) s3 w2 in \<open>simp_all add: same_monitors_def same_traffic_def\<close>)
qed

lemma map_zip_fst: "length ys = length xs \<Longrightarrow> map (\<lambda>x. g (fst x)) (zip xs ys) = map g xs"
  by (rule nth_equalityI) auto

text \<open>Phases 2 and 3 from there.\<close>

lemma later_phases_run:
  fixes s :: "'io pva_session"
  assumes "distinct (ids_from (ps_next_id s) (length chs))" "ps_shards s \<noteq> Some 0"
    and "ps_writes s = []" "tcp_write_buf (ps_tcp s) = []"
    and inits: "mset (map fst inits) = mset (ids_from (ps_next_id s) (length chs))"
    and "\<forall>(rid, d) \<in> set inits. desc_ok d" "ps_inbox s = map (init_reply (ps_order s)) inits @ later"
  obtains subs s4 pms s5 where "build_pending chs s = (Some pms, s4)"
    "subscribe_pending [] pms s4 = (map (\<lambda>(pv, sid). (pv, Ok (new_handle pv 32 s))) chs, s5)"
    "ps_inbox s5 = later" "mset (map snd subs) = mset (map fst inits)"
    "tcp_out (ps_tcp s5) = tcp_out (ps_tcp s) @ concat (map (request_message (ps_order s) mr_init) subs) @
        concat (map (request_message (ps_order s) mr_start_pipeline) subs)"
    "\<forall>(pv, sid) \<in> set chs. \<exists>(rid, d) \<in> set inits.
       se_monitors (ps_core s5) rid = Some (entry_initialised d (fresh_entry pv sid rid (ps_shards s)))"
proof -
  let ?k = "length chs" and ?ord = "ps_order s"
  let ?rids = "ids_from (ps_next_id s) ?k"
  let ?pms = "map (pending_of s) (zip chs ?rids)"
  have k: "length inits = ?k" and dom: "fst ` set inits = set ?rids"
    using arg_cong[OF inits, of size] arg_cong[OF inits, of set_mset] by simp_all
  have dist: "distinct (map fst inits)"
    using assms(1) inits mset_eq_imp_distinct_iff by blast
  from build_pending_run[OF assms(2,1)]
  obtain s4 where s4: "build_pending chs s = (Some ?pms, s4)"
      "ps_tcp s4 = ps_tcp s" "ps_writes s4 = ps_writes s" "ps_inbox s4 = ps_inbox s"
      "ps_state s4 = ps_state s" "ps_shards s4 = ps_shards s"
      "\<forall>((pv, sid), rid) \<in> set (zip chs ?rids).
         se_monitors (ps_core s4) rid = Some (fresh_entry pv sid rid (ps_shards s))"
    by blast
  have rids_pms: "map pm_request_id ?pms = ?rids"
    by (simp add: pending_of_def comp_def)
  have pm: "length inits = length ?pms" "fst ` set inits = pm_request_id ` set ?pms"
    using k dom arg_cong[OF rids_pms, of set] by (simp_all add: image_image)
  have w4: "ps_writes s4 = []" "tcp_write_buf (ps_tcp s4) = []" "ps_order s4 = ?ord"
      "ps_inbox s4 = map (init_reply (ps_order s4)) inits @ later"
    using s4 assms(3,4,7) by (simp_all add: ps_order_def)
  from subscribe_pending_run[OF w4(1,2,4) pm(1) dist pm(2) assms(6), of "[]"]
  obtain s5 where s5: "subscribe_pending [] ?pms s4 = ([] @ map (\<lambda>pm. (pm_pv_name pm, Ok (pm_handle pm))) ?pms, s5)"
      "ps_inbox s5 = later"
      "\<forall>rid. se_monitors (ps_core s5) rid =
        (case map_of inits rid of
           Some d \<Rightarrow> map_option (entry_initialised d) (se_monitors (ps_core s4) rid)
         | None \<Rightarrow> se_monitors (ps_core s4) rid)"
      "tcp_out (ps_tcp s5) = tcp_out (ps_tcp s4) @
        concat (map (\<lambda>pm. request_message (ps_order s4) mr_init (pm_server_cid pm, pm_request_id pm)) ?pms) @
        concat (map (\<lambda>pm. request_message (ps_order s4) mr_start_pipeline (pm_server_cid pm, pm_request_id pm)) ?pms)"
    by blast
  let ?subs = "map (\<lambda>pm. (pm_server_cid pm, pm_request_id pm)) ?pms"
  show thesis
  proof (rule that[of ?pms s4 s5 ?subs])
    show "subscribe_pending [] ?pms s4 = (map (\<lambda>(pv, sid). (pv, Ok (new_handle pv 32 s))) chs, s5)"
      using map_zip_fst[of ?rids chs "\<lambda>p. (fst p, Ok (new_handle (fst p) 32 s))"]
      by (simp add: s5(1) pending_of_def comp_def case_prod_unfold)
    have "map snd ?subs = ?rids"
      using rids_pms by (simp add: comp_def)
    then show "mset (map snd ?subs) = mset (map fst inits)"
      using inits by simp
    show "\<forall>(pv, sid) \<in> set chs. \<exists>(rid, d) \<in> set inits.
       se_monitors (ps_core s5) rid = Some (entry_initialised d (fresh_entry pv sid rid (ps_shards s)))"
    proof clarify
      fix pv sid
      assume "(pv, sid) \<in> set chs"
      then obtain i where i: "i < ?k" "chs ! i = (pv, sid)"
        by (metis in_set_conv_nth)
      then have z: "((pv, sid), ?rids ! i) \<in> set (zip chs ?rids)"
        by (auto simp: set_zip intro!: exI[of _ i])
      have "?rids ! i \<in> fst ` set inits"
        using i(1) dom by simp
      then obtain desc where desc: "(?rids ! i, desc) \<in> set inits"
        by auto
      then have "map_of inits (?rids ! i) = Some desc"
        using dist by simp
      moreover have "se_monitors (ps_core s4) (?rids ! i) = Some (fresh_entry pv sid (?rids ! i) (ps_shards s))"
        using s4(7) z by blast
      ultimately have "se_monitors (ps_core s5) (?rids ! i) =
          Some (entry_initialised desc (fresh_entry pv sid (?rids ! i) (ps_shards s)))"
        using s5(3) by simp
      then show "\<exists>(rid, d) \<in> set inits.
          se_monitors (ps_core s5) rid = Some (entry_initialised d (fresh_entry pv sid rid (ps_shards s)))"
        using desc by blast
    qed
  qed (use s4 s5 w4 in \<open>simp_all add: comp_def\<close>)
qed

text \<open>C6. A server that grants everything: when every channel is created and every INIT
  answered with a description, in any order, and the client's hash maps are iterated in any
  order, a bulk subscription returns one handle for every PV asked for, leaves behind an
  active monitor for each with the description the server sent, has put exactly the three
  rounds of messages on the wire (every CREATE before every INIT, every INIT before every
  START), and leaves later frames unread.\<close>

theorem bulk_subscribes_all:
  fixes s :: "'io pva_session"
  assumes "pvs \<noteq> []" "length pvs < 2 ^ 31" "ps_writes s = []" "ps_shards s \<noteq> Some 0"
    and "\<And>ks. mset (iter ks) = mset ks"
    and "mset (map fst creates) = mset (ids_from (ps_next_id s) (length pvs))"
    and "mset (map fst inits) = mset (ids_from (ps_next_id s + of_nat (length pvs)) (length pvs))"
    and "\<forall>(rid, d) \<in> set inits. desc_ok d"
    and "ps_inbox s = map (create_reply (ps_order s)) creates @ map (init_reply (ps_order s)) inits @ later"
  shows "\<exists>results s' order subs. add_monitors_bulk iter pvs s = (Some results, s') \<and>
    mset (map fst results) = mset pvs \<and> (\<forall>(pv, r) \<in> set results. r = Ok (new_handle pv 32 s)) \<and>
    (\<forall>pv \<in> set pvs. \<exists>cid sid rid d. (cid, sid) \<in> set creates \<and> (rid, d) \<in> set inits \<and>
       se_monitors (ps_core s') rid = Some (entry_initialised d (fresh_entry pv sid rid (ps_shards s)))) \<and>
    ps_inbox s' = later \<and>
    mset order = mset (zip (ids_from (ps_next_id s) (length pvs)) pvs) \<and>
    mset (map snd subs) = mset (map fst inits) \<and>
    tcp_out (ps_tcp s') = tcp_out (ps_tcp s) @
      concat (map (create_message (ps_order s)) order) @
      concat (map (request_message (ps_order s) mr_init) subs) @
      concat (map (request_message (ps_order s) mr_start_pipeline) subs)"
proof -
  have rep: "ps_inbox s = map (create_reply (ps_order s)) creates @ map (init_reply (ps_order s)) inits @ later"
    using assms(9) by simp
  obtain chs order s3 where 1: "add_monitors_bulk iter pvs s =
      (case build_pending chs s3 of
         (None, s4) \<Rightarrow> (None, s4)
       | (Some pms, s4) \<Rightarrow> (case subscribe_pending [] pms s4 of (results, s5) \<Rightarrow> (Some results, s5)))"
    "mset (map fst chs) = mset pvs" "snd ` set chs \<subseteq> snd ` set creates"
    "mset order = mset (zip (ids_from (ps_next_id s) (length pvs)) pvs)"
    "ps_next_id s3 = ps_next_id s + of_nat (length pvs)" "ps_shards s3 = ps_shards s"
    "ps_writes s3 = []" "tcp_write_buf (ps_tcp s3) = []" "ps_order s3 = ps_order s"
    "ps_inbox s3 = map (init_reply (ps_order s)) inits @ later"
    "tcp_out (ps_tcp s3) = tcp_out (ps_tcp s) @ concat (map (create_message (ps_order s)) order)"
    by (rule phase_one_run[OF assms(1-3,5,6) rep])
  have k: "length chs = length pvs"
    using arg_cong[OF 1(2), of size] by simp
  have 2: "distinct (ids_from (ps_next_id s3) (length chs))" "ps_shards s3 \<noteq> Some 0"
      "mset (map fst inits) = mset (ids_from (ps_next_id s3) (length chs))"
      "ps_inbox s3 = map (init_reply (ps_order s3)) inits @ later"
    using assms(2,4,7) 1 k by (simp_all add: distinct_ids_from)
  obtain subs s4 pms s5 where 3: "build_pending chs s3 = (Some pms, s4)"
    "subscribe_pending [] pms s4 = (map (\<lambda>(pv, sid). (pv, Ok (new_handle pv 32 s3))) chs, s5)"
    "ps_inbox s5 = later" "mset (map snd subs) = mset (map fst inits)"
    "tcp_out (ps_tcp s5) = tcp_out (ps_tcp s3) @ concat (map (request_message (ps_order s3) mr_init) subs) @
        concat (map (request_message (ps_order s3) mr_start_pipeline) subs)"
    "\<forall>(pv, sid) \<in> set chs. \<exists>(rid, d) \<in> set inits.
       se_monitors (ps_core s5) rid = Some (entry_initialised d (fresh_entry pv sid rid (ps_shards s3)))"
    by (rule later_phases_run[OF 2(1,2) 1(7,8) 2(3) assms(8) 2(4)])
  let ?results = "map (\<lambda>(pv, sid). (pv, Ok (new_handle pv 32 s3))) chs :: 'io bulk_results"
  have run: "add_monitors_bulk iter pvs s = (Some ?results, s5)"
    by (simp add: 1(1) 3(1,2))
  have names: "mset (map fst ?results) = mset pvs"
    using 1(2) by (simp add: comp_def case_prod_unfold)
  have handles: "\<forall>(pv, r) \<in> set ?results. r = Ok (new_handle pv 32 s)"
    using 1(6) by (auto simp: new_handle_def)
  have monitors: "\<exists>cid sid rid d. (cid, sid) \<in> set creates \<and> (rid, d) \<in> set inits \<and>
       se_monitors (ps_core s5) rid = Some (entry_initialised d (fresh_entry pv sid rid (ps_shards s)))"
    if "pv \<in> set pvs" for pv
  proof -
    have "set (map fst chs) = set pvs"
      using arg_cong[OF 1(2), of set_mset] by (simp only: set_mset_mset)
    then have "pv \<in> fst ` set chs"
      using that by simp
    then obtain sid where ch: "(pv, sid) \<in> set chs"
      by auto
    then obtain cid where "(cid, sid) \<in> set creates"
      using 1(3) by force
    then show ?thesis
      using 3(6) ch unfolding 1(6) by fast
  qed
  have monitored: "\<forall>pv \<in> set pvs. \<exists>cid sid rid d. (cid, sid) \<in> set creates \<and> (rid, d) \<in> set inits \<and>
       se_monitors (ps_core s5) rid = Some (entry_initialised d (fresh_entry pv sid rid (ps_shards s)))"
    using monitors by blast
  show ?thesis
    by (intro exI conjI, rule run, rule names, rule handles, rule monitored, rule 3(3), rule 1(4), rule 3(4))
      (simp add: 3(5) 1(9,11))
qed

text \<open>The same for one PV, with its result.\<close>

lemma bulk_subscribes_one:
  fixes s :: "'io pva_session"
  assumes "ps_writes s = []" "ps_shards s \<noteq> Some 0" "\<And>ks. mset (iter ks) = mset ks" "desc_ok desc"
    and "ps_inbox s = [create_reply (ps_order s) (ps_next_id s, sid), init_reply (ps_order s) (ps_next_id s + 1, desc)]"
  shows "fst (add_monitors_bulk iter [pv] s) = Some [(pv, Ok (new_handle pv 32 s))]"
proof -
  have small: "[pv] \<noteq> []" "length [pv] < 2 ^ 31"
      "mset (map fst [(ps_next_id s, sid)]) = mset (ids_from (ps_next_id s) (length [pv]))"
      "ps_inbox s = map (create_reply (ps_order s)) [(ps_next_id s, sid)] @
         [init_reply (ps_order s) (ps_next_id s + 1, desc)]"
    using assms(5) by (simp_all add: ids_from_def)
  obtain chs order s3 where 1: "add_monitors_bulk iter [pv] s =
      (case build_pending chs s3 of
         (None, s4) \<Rightarrow> (None, s4)
       | (Some pms, s4) \<Rightarrow> (case subscribe_pending [] pms s4 of (results, s5) \<Rightarrow> (Some results, s5)))"
    "mset (map fst chs) = mset [pv]" "snd ` set chs \<subseteq> snd ` set [(ps_next_id s, sid)]"
    "mset order = mset (zip (ids_from (ps_next_id s) (length [pv])) [pv])"
    "ps_next_id s3 = ps_next_id s + of_nat (length [pv])" "ps_shards s3 = ps_shards s"
    "ps_writes s3 = []" "tcp_write_buf (ps_tcp s3) = []" "ps_order s3 = ps_order s"
    "ps_inbox s3 = [init_reply (ps_order s) (ps_next_id s + 1, desc)]"
    "tcp_out (ps_tcp s3) = tcp_out (ps_tcp s) @ concat (map (create_message (ps_order s)) order)"
    by (rule phase_one_run[OF small(1,2) assms(1,3) small(3,4)])
  have "map fst chs = [pv]"
    using 1(2) by (simp del: mset_map)
  then have chs: "chs = [(pv, sid)]"
    using 1(3) by (cases chs) auto
  let ?inits = "[(ps_next_id s + 1, desc)]"
  have 2: "distinct (ids_from (ps_next_id s3) (length chs))" "ps_shards s3 \<noteq> Some 0"
      "mset (map fst ?inits) = mset (ids_from (ps_next_id s3) (length chs))"
      "\<forall>(rid, d) \<in> set ?inits. desc_ok d"
      "ps_inbox s3 = map (init_reply (ps_order s3)) ?inits @ []"
    using assms(2,4) 1 by (simp_all add: chs ids_from_def)
  obtain subs s4 pms s5 where 3: "build_pending chs s3 = (Some pms, s4)"
    "subscribe_pending [] pms s4 = (map (\<lambda>(pv, sid). (pv, Ok (new_handle pv 32 s3))) chs, s5)"
    by (rule later_phases_run[OF 2(1,2) 1(7,8) 2(3-5)])
  have "subscribe_pending [] pms s4 = ([(pv, Ok (new_handle pv 32 s))], s5)"
    using 3(2) by (simp add: chs new_handle_def 1(6))
  then show ?thesis
    by (simp only: 1(1) 3(1) prod.case option.case fst_conv)
qed

text \<open>A session with no monitor yet, and a server that answers in the reverse order.\<close>

definition demo_scalar :: FieldDesc where
  "demo_scalar = FieldDesc (FtScalar StDouble) [] []"

definition demo_start :: "'io inbound list \<Rightarrow> 'io pva_session" where
  "demo_start ins = \<lparr> ps_tcp = tcp_connected, ps_inbox = ins, ps_writes = [], ps_next_id = 1,
     ps_state = conn_new \<lparr> sa_ip = IpV4 0, sa_port = 5075 \<rparr> 4, ps_monitor_ids = [],
     ps_core = \<lparr> se_order = LittleEndian, se_monitors = Map.empty, se_has_bus = True,
       se_pv_cache = None, se_metadata = None, se_emitted = [] \<rparr>, ps_shards = Some 4 \<rparr>"

lemma demo_start_simps [simp]:
  "ps_writes (demo_start ins) = []" "ps_next_id (demo_start ins) = 1" "ps_shards (demo_start ins) = Some 4"
  "ps_inbox (demo_start ins) = ins" "ps_order (demo_start ins) = LittleEndian"
  "tcp_out (ps_tcp (demo_start ins)) = []" "session_ok (demo_start ins)"
  by (simp_all add: demo_start_def ps_order_def conn_new_def tcp_connected_def session_ok_def conn_ok_def
      monitors_ok_def)

theorem bulk_subscribes_all_witness:
  "\<exists>results s'. add_monitors_bulk rev [[65], [66]]
      (demo_start (map (create_reply LittleEndian) [(2, 70), (1, 71)] @
         map (init_reply LittleEndian) [(4, demo_scalar), (3, demo_scalar)]) :: unit pva_session) =
      (Some results, s') \<and>
    mset (map fst results) = {# [65], [66] #} \<and> ps_inbox s' = []"
proof -
  let ?pvs = "[[65], [66]] :: rstring list"
  let ?s = "demo_start (map (create_reply LittleEndian) [(2, 70), (1, 71)] @
     map (init_reply LittleEndian) [(4, demo_scalar), (3, demo_scalar)]) :: unit pva_session"
  have "ids_from 1 2 = [1, 2]" "ids_from 3 2 = [3, 4]"
    by (simp_all add: ids_from_def upt_conv_Cons numeral_2_eq_2)
  then have ids: "mset (map fst [(2, 70 :: 32 word), (1, 71)]) = mset (ids_from (ps_next_id ?s) (length ?pvs))"
      "mset (map fst [(4, demo_scalar), (3, demo_scalar)]) =
        mset (ids_from (ps_next_id ?s + of_nat (length ?pvs)) (length ?pvs))"
    by (simp_all add: numeral_2_eq_2)
  have small: "?pvs \<noteq> []" "length ?pvs < 2 ^ 31" "ps_writes ?s = []" "ps_shards ?s \<noteq> Some 0"
      "\<And>ks :: 32 word list. mset (rev ks) = mset ks"
      "\<forall>(rid, d) \<in> set [(4 :: 32 word, demo_scalar), (3, demo_scalar)]. desc_ok d"
      "ps_inbox ?s = map (create_reply (ps_order ?s)) [(2, 70), (1, 71)] @
         map (init_reply (ps_order ?s)) [(4, demo_scalar), (3, demo_scalar)] @ []"
    by (simp_all add: demo_scalar_def)
  have "mset ?pvs = {# [65], [66] #}"
    by simp
  with bulk_subscribes_all[OF small(1-5) ids small(6,7)] show ?thesis
    by (elim exE conjE) (intro exI conjI, assumption, simp only:, assumption)
qed

section \<open>Servers that do not grant everything\<close>

text \<open>When nothing arrives before the deadline of phase 1, no PV appears in the results,
  neither as subscribed nor as failed.\<close>

lemma silent_server_no_results:
  fixes s :: "'io pva_session"
  assumes "pvs \<noteq> []" "length pvs < 2 ^ 31" "ps_writes s = []" "ps_inbox s = InTimeout # later"
    and "\<And>ks. mset (iter ks) = mset ks"
  shows "fst (add_monitors_bulk iter pvs s) = Some []"
proof -
  let ?ids = "zip (ids_from (ps_next_id s) (length pvs)) pvs"
  have "length pvs < 2 ^ 32"
    using assms(2) by simp
  then obtain s1 where "register_channels pvs s = (?ids, s1)" "same_traffic s s1" "ps_inbox s1 = ps_inbox s"
    using register_channels_run by metis
  then obtain ids where s1: "register_channels pvs s = (ids, s1)" "same_traffic s s1" "ps_inbox s1 = ps_inbox s"
      "length ids = length pvs"
    by simp
  have "ps_writes (clear_write_buf s1) = []" "ps_inbox (clear_write_buf s1) = InTimeout # later"
    using s1 assms(3,4) by (simp_all add: clear_write_buf_def same_traffic_def)
  then obtain s2 where s2: "send_creates 0 (hash_entries iter ids) (clear_write_buf s1) = (True, s2)"
      "ps_inbox s2 = InTimeout # later"
    using send_creates_run[of "clear_write_buf s1" 0 "hash_entries iter ids"] by (auto simp: sends_def)
  have n: "length ids \<noteq> 0"
    using s1(4) assms(1) by simp
  have r: "read_creates ids (length ids) ([], []) (ps_inbox s2) s2 = (([], []), set_inbox later s2)"
    using s2(2) n by simp
  have "iter [] = []"
    using assms(5)[of "[]"] by simp
  then have none: "hash_entries iter [] = []" "refused_results iter ids [] = []"
    by (simp_all add: hash_entries_def refused_results_def List.map_filter_def)
  have "add_monitors_bulk iter pvs s =
      (case subscribe_pending [] [] (set_inbox later s2) of (results, s5) \<Rightarrow> (Some results, s5))"
    using assms(1) by (simp only: add_monitors_bulk_def s1(1) s2(1) r none list.map build_pending.simps
        prod.case bool.case option.case if_False)
  then show ?thesis
    by (simp add: subscribe_pending_def case_prod_unfold)
qed

definition init_refusal :: "ByteOrder \<Rightarrow> 32 word \<times> pva_status \<Rightarrow> 'io inbound" where
  "init_refusal ord r = InFrame (app_frame CMD_MONITOR
     (written ord (mh_encode \<lparr> mh_request_id = fst r, mh_sub_command = sub_to_u8 McInit \<rparr>) @
      written ord (status_encode (snd r))))"

lemma read_refusal:
  assumes "status_valid st" "\<not> status_is_ok st"
  shows "read_inits (Suc 0) [] (init_refusal (ps_order s) (rid, st) # later) s =
    ([rid], set_inbox later (count_received s))"
proof -
  let ?ord = "ps_order s" and ?s1 = "count_received s"
  let ?hdr = "\<lparr> mh_request_id = rid, mh_sub_command = MONITOR_INIT \<rparr>"
  let ?h = "written ?ord (mh_encode ?hdr)" and ?st = "written ?ord (status_encode st)"
  let ?f = "app_frame CMD_MONITOR (?h @ ?st)"
  have "mh_decode (reader_of ?s1 ?f) = (Ok ?hdr, advance (length ?h) (reader_of ?s1 ?f))"
    using monitor_header.decode_new[where v = ?hdr and ord = ?ord and tail = "?st"]
    by (simp add: reader_of_def)
  then obtain r1 where 1: "mh_decode (reader_of ?s1 ?f) = (Ok ?hdr, r1)" "rd_order r1 = ?ord" "rest r1 = ?st @ []"
    by (simp add: reader_of_def reader_new_def)
  obtain r2 where 2: "status_decode r1 = (Ok st, r2)"
    using parsesD[OF parses_status[OF assms(1)] 1(2,3)] by blast
  show ?thesis
    using assms(2) by (cases later) (simp_all add: init_refusal_def Let_def 1(1) 2 note_init_def)
qed

text \<open>A refused monitor is reported as subscribed: when the server creates the channel
  and answers the INIT with an error, the bulk subscription returns a handle for the PV and
  keeps a monitor that has no description, so that every later update for it is ignored.\<close>

theorem refused_monitor_reported_ok:
  fixes s :: "'io pva_session"
  assumes "ps_writes s = []" "ps_shards s \<noteq> Some 0" "\<And>ks. mset (iter ks) = mset ks"
    and "status_valid st" "\<not> status_is_ok st"
    and "ps_inbox s = [create_reply (ps_order s) (ps_next_id s, sid),
           init_refusal (ps_order s) (ps_next_id s + 1, st)] @ later"
  shows "\<exists>s'. add_monitors_bulk iter [pv] s = (Some [(pv, Ok (new_handle pv 32 s))], s') \<and>
    se_monitors (ps_core s') (ps_next_id s + 1) =
      Some (fresh_entry pv sid (ps_next_id s + 1) (ps_shards s)) \<and>
    ms_type_desc (me_sub (fresh_entry pv sid (ps_next_id s + 1) (ps_shards s))) = None"
proof -
  let ?rid = "ps_next_id s + 1"
  have one: "ids_from n (length [x]) = [n]" for n and x :: 'a
    by (simp add: ids_from_def)
  have small: "[pv] \<noteq> []" "length [pv] < 2 ^ 31"
      "mset (map fst [(ps_next_id s, sid)]) = mset (ids_from (ps_next_id s) (length [pv]))"
      "ps_inbox s = map (create_reply (ps_order s)) [(ps_next_id s, sid)] @
         init_refusal (ps_order s) (?rid, st) # later"
    using assms(6) by (simp_all add: ids_from_def)
  obtain chs order s3 where 1: "add_monitors_bulk iter [pv] s =
      (case build_pending chs s3 of
         (None, s4) \<Rightarrow> (None, s4)
       | (Some pms, s4) \<Rightarrow> (case subscribe_pending [] pms s4 of (results, s5) \<Rightarrow> (Some results, s5)))"
    "mset (map fst chs) = mset [pv]" "snd ` set chs \<subseteq> snd ` set [(ps_next_id s, sid)]"
    "mset order = mset (zip (ids_from (ps_next_id s) (length [pv])) [pv])"
    "ps_next_id s3 = ps_next_id s + of_nat (length [pv])" "ps_shards s3 = ps_shards s"
    "ps_writes s3 = []" "tcp_write_buf (ps_tcp s3) = []" "ps_order s3 = ps_order s"
    "ps_inbox s3 = init_refusal (ps_order s) (?rid, st) # later"
    "tcp_out (ps_tcp s3) = tcp_out (ps_tcp s) @ concat (map (create_message (ps_order s)) order)"
    by (rule phase_one_run[OF small(1,2) assms(1,3) small(3,4)])
  have "map fst chs = [pv]"
    using 1(2) by (simp del: mset_map)
  then have chs: "chs = [(pv, sid)]"
    using 1(3) by (cases chs) auto
  have next3: "ps_next_id s3 = ?rid"
    using 1(5) by simp
  have sh3: "ps_shards s3 \<noteq> Some 0" and d3: "distinct (ids_from (ps_next_id s3) (length chs))"
    using assms(2) 1(6) by (simp_all add: chs ids_from_def)
  let ?pm = "pending_of s3 ((pv, sid), ?rid)"
  obtain s4 where s4: "build_pending chs s3 = (Some [?pm], s4)"
      "ps_tcp s4 = ps_tcp s3" "ps_writes s4 = ps_writes s3" "ps_inbox s4 = ps_inbox s3" "ps_state s4 = ps_state s3"
      "se_monitors (ps_core s4) ?rid = Some (fresh_entry pv sid ?rid (ps_shards s))"
    using build_pending_run[OF sh3 d3] unfolding next3 1(6) by (auto simp: chs ids_from_def)
  have w4: "ps_writes s4 = []" "tcp_write_buf (ps_tcp s4) = []" "ps_order s4 = ps_order s"
    using s4 1(7-9) by (simp_all add: ps_order_def)
  let ?s5 = "send_requests mr_init 0 [?pm] s4"
  have s5: "sends s4 (concat (map (\<lambda>pm. request_message (ps_order s4) mr_init (pm_server_cid pm, pm_request_id pm)) [?pm])) ?s5"
      "tcp_write_buf (ps_tcp ?s5) = []"
    using send_requests_run[OF w4(1)] by blast+
  have in5: "ps_inbox ?s5 = init_refusal (ps_order ?s5) (?rid, st) # later" and core5: "ps_core ?s5 = ps_core s4"
    using s5(1) s4(4) 1(10) w4(3) by (simp_all add: sends_def same_monitors_def)
  let ?s6 = "set_inbox later (count_received ?s5)"
  have init: "init_phase [?pm] s4 = ([?rid], ?s6)"
    using read_refusal[OF assms(4,5), of ?s5 ?rid later]
    by (simp add: init_phase_def wire_out_clear[OF w4(2)] Let_def in5 del: send_requests.simps)
  have rid: "pm_request_id ?pm = ?rid" "pm_pv_name ?pm = pv" "pm_handle ?pm = new_handle pv 32 s"
    using 1(6) by (simp_all add: pending_of_def new_handle_def)
  have w6: "ps_writes ?s6 = []"
    using s5(1) by (simp add: sends_def set_inbox_def count_received_def)
  have clear6: "clear_write_buf ?s6 = ?s6"
    by (rule wire_out_clear) (use s5(2) in \<open>simp add: set_inbox_def count_received_def\<close>)
  have core6: "ps_core (send_requests mr_start_pipeline 0 [?pm] ?s6) = ps_core s4"
    using send_requests_run[OF w6, of mr_start_pipeline "[?pm]" 0] core5
    by (simp add: sends_def same_monitors_def set_inbox_def count_received_def)
  have "subscribe_pending [] [?pm] s4 = ([(pv, Ok (new_handle pv 32 s))], send_requests mr_start_pipeline 0 [?pm] ?s6)"
    by (simp add: subscribe_pending_def init retry_inits_def start_phase_def finish_pending_def rid clear6
        del: send_requests.simps)
  then show ?thesis
    using s4(6) core6 by (simp add: 1(1) s4(1) fresh_entry_def monitor_entry_new_def sub_new_def
        del: send_requests.simps)
qed

theorem refused_monitor_reported_ok_witness:
  "\<exists>s'. add_monitors_bulk id [[65]]
      (demo_start [create_reply LittleEndian (1, 70),
         init_refusal LittleEndian (2, status_error (ascii ''no such field''))] :: unit pva_session) =
    (Some [([65], Ok (BusHandle [65]))], s')"
proof -
  let ?st = "status_error (ascii ''no such field'')"
  have "status_valid ?st" "\<not> status_is_ok ?st"
    by (simp_all add: status_valid_def status_error_def status_is_ok_def string_ok_def ascii_def
        utf8_valid_ascii_bytes)
  then show ?thesis
    using refused_monitor_reported_ok[where pv = "[65]" and iter = id and later = "[]" and sid = 70 and st = ?st
        and s = "demo_start [create_reply LittleEndian (1, 70), init_refusal LittleEndian (2, ?st)] :: unit pva_session"]
    by (simp add: new_handle_def) blast
qed

section \<open>Removing a monitor\<close>

text \<open>The message that destroys a channel; the monitors of a PV.\<close>

definition destroy_message :: "ByteOrder \<Rightarrow> 32 word \<times> 32 word \<Rightarrow> bytes" where
  "destroy_message ord ids =
    message_bytes CMD_DESTROY_CHANNEL (order_write ord 4 (fst ids) @ order_write ord 4 (snd ids))"

definition monitored :: "rstring \<Rightarrow> 'io pva_session \<Rightarrow> 32 word \<Rightarrow> bool" where
  "monitored pv s rid \<longleftrightarrow> (\<exists>e. se_monitors (ps_core s) rid = Some e \<and> ms_pv_name (me_sub e) = pv)"

lemma find_channel:
  assumes "conn_ok c" "\<And>ks :: 32 word list. mset (iter ks) = mset ks"
  shows "case find_channel_by_name iter pv c of
      None \<Rightarrow> \<forall>(cid, info) \<in> set (cs_channels c). ci_pv_name info \<noteq> pv
    | Some info \<Rightarrow> (ci_client_id info, info) \<in> set (cs_channels c) \<and> ci_pv_name info = pv"
proof -
  have d: "distinct (map fst (cs_channels c))"
    using assms(1) by (simp add: conn_ok_def)
  have "mset (hash_entries iter (cs_channels c)) = mset (cs_channels c)"
    using d assms(2) by (rule mset_hash_entries)
  from arg_cong[OF this, of set_mset]
  have entries: "set (hash_entries iter (cs_channels c)) = set (cs_channels c)"
    by simp
  have key: "ci_client_id info = cid" if "(cid, info) \<in> set (cs_channels c)" for cid info
    using assms(1) d that by (simp add: conn_ok_def)
  show ?thesis
  proof (cases "find_channel_by_name iter pv c")
    case None
    then have "\<forall>(cid, info) \<in> set (cs_channels c). ci_pv_name info \<noteq> pv"
      using entries by (auto simp: find_channel_by_name_def find_None_iff)
    then show ?thesis
      using None by simp
  next
    case (Some info)
    then have "info \<in> set (map snd (hash_entries iter (cs_channels c)))" "ci_pv_name info = pv"
      unfolding find_channel_by_name_def by (auto simp only: find_Some_iff nth_mem)
    then have "info \<in> snd ` set (cs_channels c)" "ci_pv_name info = pv"
      unfolding set_map entries by simp_all
    then show ?thesis
      using Some key by auto
  qed
qed

lemma find_monitored:
  assumes "session_ok s" "\<And>ks :: 32 word list. mset (iter ks) = mset ks"
  shows "case find_monitor iter pv s of
      None \<Rightarrow> \<forall>rid. \<not> monitored pv s rid
    | Some rid \<Rightarrow> monitored pv s rid"
proof -
  have "set (iter (ps_monitor_ids s)) = set (ps_monitor_ids s)"
    using arg_cong[OF assms(2)[of "ps_monitor_ids s"], of set_mset] by simp
  then have ids: "set (iter (ps_monitor_ids s)) = dom (se_monitors (ps_core s))"
    using assms(1) by (simp add: session_ok_def monitors_ok_def)
  show ?thesis
  proof (cases "find_monitor iter pv s")
    case None
    then have "\<forall>rid \<in> dom (se_monitors (ps_core s)). \<not> monitored pv s rid"
      unfolding ids[symmetric] find_monitor_def find_None_iff monitored_def by (auto split: option.splits)
    then show ?thesis
      using None by (auto simp: monitored_def)
  next
    case (Some rid)
    then have "monitored pv s rid"
      unfolding find_monitor_def find_Some_iff monitored_def by (auto split: option.splits)
    then show ?thesis
      using Some by simp
  qed
qed

lemma send_out:
  "ps_writes s = [] \<Longrightarrow> ps_writes (snd (ps_send c p s)) = [] \<and>
    tcp_out (ps_tcp (snd (ps_send c p s))) = tcp_out (ps_tcp s) @ message_bytes c p"
  by (simp add: ps_send_def next_write_def send_msg_sent)

lemma stop_monitor_run:
  "ps_state (stop_monitor sid found s) = ps_state s"
  "ps_core (stop_monitor sid found s) = (ps_core s) \<lparr> se_monitors :=
     (case found of None \<Rightarrow> se_monitors (ps_core s) | Some rid \<Rightarrow> (se_monitors (ps_core s))(rid := None)) \<rparr>"
  "ps_writes s = [] \<Longrightarrow> ps_writes (stop_monitor sid found s) = [] \<and>
     tcp_out (ps_tcp (stop_monitor sid found s)) = tcp_out (ps_tcp s) @
       (case found of None \<Rightarrow> [] | Some rid \<Rightarrow> request_message (ps_order s) mr_stop (sid, rid))"
  by (simp_all add: stop_monitor_def drop_monitor_def send_out payload_of_def request_message_def split: option.split)

text \<open>A session with the monitor 2 for the PV \<open>A\<close>, and a channel for \<open>B\<close>.\<close>

definition demo_one :: "unit pva_session" where
  "demo_one = (let s = demo_start [] in s \<lparr> ps_state := (ps_state s) \<lparr> cs_channels :=
       [(1, \<lparr> ci_client_id = 1, ci_pv_name = [65], ci_state = ChActive 70 \<rparr>),
        (3, \<lparr> ci_client_id = 3, ci_pv_name = [66], ci_state = ChActive 71 \<rparr>)] \<rparr>,
     ps_core := (ps_core s) \<lparr> se_monitors := [2 \<mapsto> monitor_entry_new (sub_new [65] 70 2) 0] \<rparr>,
     ps_monitor_ids := [2] \<rparr>)"

lemma demo_one_ok: "session_ok demo_one"
  by (auto simp: demo_one_def Let_def session_ok_def conn_ok_def monitors_ok_def demo_start_def
      monitor_entry_new_def sub_new_def)

text \<open>C27. Removing a PV stops its monitor.  At any point of a session's event loop, for a PV with
  channels that are all active, removing it picks one of its channels and a monitor of the PV, if
  there is one, drops that monitor and every channel of the PV, and leaves the other monitors and channels and
  the rest of the session's state as they are, whatever becomes of the writes; when the writes succeed,
  STOP for that monitor and then DESTROY_CHANNEL with both ids of that channel are what is put on the
  wire.  A PV that had one monitor has none afterwards.\<close>

theorem removal_stops_the_monitor:
  fixes s\<^sub>0 :: "'io pva_session"
  assumes "session_ok s\<^sub>0" "s = snd (snd (run_event_loop iter chs s\<^sub>0))" "\<And>ks. mset (iter ks) = mset ks"
    and "\<exists>(cid, info) \<in> set (cs_channels (ps_state s)). ci_pv_name info = pv"
    and "\<forall>(cid, info) \<in> set (cs_channels (ps_state s)). ci_pv_name info = pv \<longrightarrow> ch_is_active (ci_state info)"
  defines "s' \<equiv> remove_monitor_inline iter pv s"
  shows "\<exists>cid sid found.
    (cid, \<lparr> ci_client_id = cid, ci_pv_name = pv, ci_state = ChActive sid \<rparr>) \<in> set (cs_channels (ps_state s)) \<and>
    (case found of None \<Rightarrow> \<forall>rid. \<not> monitored pv s rid | Some rid \<Rightarrow> monitored pv s rid) \<and>
    ps_core s' = (ps_core s) \<lparr> se_monitors :=
      (case found of None \<Rightarrow> se_monitors (ps_core s) | Some rid \<Rightarrow> (se_monitors (ps_core s))(rid := None)) \<rparr> \<and>
    ps_state s' = (ps_state s) \<lparr> cs_channels := filter (\<lambda>(_, i). ci_pv_name i \<noteq> pv) (cs_channels (ps_state s)) \<rparr> \<and>
    (ps_writes s = [] \<longrightarrow> tcp_out (ps_tcp s') = tcp_out (ps_tcp s) @
       (case found of None \<Rightarrow> [] | Some rid \<Rightarrow> request_message (ps_order s) mr_stop (sid, rid)) @
       destroy_message (ps_order s) (cid, sid)) \<and>
    ((\<forall>r\<^sub>1 r\<^sub>2. monitored pv s r\<^sub>1 \<and> monitored pv s r\<^sub>2 \<longrightarrow> r\<^sub>1 = r\<^sub>2) \<longrightarrow> (\<forall>rid. \<not> monitored pv s' rid))"
proof -
  have ok: "session_ok s"
    unfolding assms(2) by (rule session_ok_loop[OF assms(1)])
  note channel = find_channel[OF session_ok_conn[OF ok] assms(3), of pv]
  then obtain info where info: "find_channel_by_name iter pv (ps_state s) = Some info"
      "(ci_client_id info, info) \<in> set (cs_channels (ps_state s))" "ci_pv_name info = pv"
    using assms(4) by (cases "find_channel_by_name iter pv (ps_state s)") auto
  then obtain sid where sid: "ci_state info = ChActive sid"
    using assms(5) by (cases "ci_state info") auto
  let ?found = "find_monitor iter pv s" and ?cid = "ci_client_id info"
  let ?s1 = "stop_monitor sid ?found s"
  have run: "s' = (let s2 = snd (ps_send CMD_DESTROY_CHANNEL
        (order_write (ps_order ?s1) 4 ?cid @ order_write (ps_order ?s1) 4 sid) ?s1) in
      s2 \<lparr> ps_state := (ps_state s2) \<lparr> cs_channels :=
        filter (\<lambda>(_, i). ci_pv_name i \<noteq> pv) (cs_channels (ps_state s2)) \<rparr> \<rparr>)"
    by (simp add: s'_def remove_monitor_inline_def info(1) sid Let_def)
  have order: "ps_order ?s1 = ps_order s"
    by (simp add: ps_order_def stop_monitor_run)
  have 1: "(?cid, \<lparr> ci_client_id = ?cid, ci_pv_name = pv, ci_state = ChActive sid \<rparr>) \<in> set (cs_channels (ps_state s))"
    using info sid by (metis channel_info.surjective old.unit.exhaust)
  note 2 = find_monitored[OF ok assms(3), of pv]
  have 3: "ps_core s' = (ps_core s) \<lparr> se_monitors :=
      (case ?found of None \<Rightarrow> se_monitors (ps_core s) | Some rid \<Rightarrow> (se_monitors (ps_core s))(rid := None)) \<rparr>"
    by (simp add: run Let_def stop_monitor_run)
  have 4: "ps_state s' = (ps_state s) \<lparr> cs_channels := filter (\<lambda>(_, i). ci_pv_name i \<noteq> pv) (cs_channels (ps_state s)) \<rparr>"
    by (simp add: run Let_def stop_monitor_run)
  have 5: "ps_writes s = [] \<longrightarrow> tcp_out (ps_tcp s') = tcp_out (ps_tcp s) @
       (case ?found of None \<Rightarrow> [] | Some rid \<Rightarrow> request_message (ps_order s) mr_stop (sid, rid)) @
       destroy_message (ps_order s) (?cid, sid)"
    by (simp add: run Let_def stop_monitor_run send_out order destroy_message_def)
  have 6: "\<not> monitored pv s' rid" if "\<forall>r\<^sub>1 r\<^sub>2. monitored pv s r\<^sub>1 \<and> monitored pv s r\<^sub>2 \<longrightarrow> r\<^sub>1 = r\<^sub>2" for rid
    using 2 that by (auto simp: monitored_def 3 split: option.splits if_splits)
  show ?thesis
    by (rule exI[of _ ?cid], rule exI[of _ sid], rule exI[of _ ?found], intro conjI impI allI)
      (fact 1 2 3 4 5[rule_format] 6)+
qed

theorem removal_stops_the_monitor_witness:
  "let s' = remove_monitor_inline id [65] (snd (snd (run_event_loop id [] demo_one))) in
   se_monitors (ps_core s') = Map.empty \<and> tcp_out (ps_tcp s') =
     request_message LittleEndian mr_stop (70, 2) @ destroy_message LittleEndian (1, 70)"
proof -
  have s: "snd (snd (run_event_loop id [] demo_one)) = demo_one"
    by simp
  have fields: "ps_writes demo_one = []" "ps_order demo_one = LittleEndian" "tcp_out (ps_tcp demo_one) = []"
    "se_monitors (ps_core demo_one) = [2 \<mapsto> monitor_entry_new (sub_new [65] 70 2) 0]"
    "cs_channels (ps_state demo_one) = [(1, \<lparr> ci_client_id = 1, ci_pv_name = [65], ci_state = ChActive 70 \<rparr>),
        (3, \<lparr> ci_client_id = 3, ci_pv_name = [66], ci_state = ChActive 71 \<rparr>)]"
    by (simp_all add: demo_one_def Let_def demo_start_def ps_order_def tcp_connected_def conn_new_def)
  have m: "monitored [65] demo_one rid \<longleftrightarrow> rid = 2" for rid
    by (simp add: monitored_def fields monitor_entry_new_def sub_new_def)
  have ch: "\<exists>(cid, info) \<in> set (cs_channels (ps_state demo_one)). ci_pv_name info = [65]"
      "\<forall>(cid, info) \<in> set (cs_channels (ps_state demo_one)). ci_pv_name info = [65] \<longrightarrow> ch_is_active (ci_state info)"
    by (simp_all add: fields(5))
  have perm: "mset (id ks) = mset ks" for ks :: "32 word list"
    by simp
  obtain cid sid found where r:
    "(cid, \<lparr> ci_client_id = cid, ci_pv_name = [65], ci_state = ChActive sid \<rparr>) \<in> set (cs_channels (ps_state demo_one))"
    "case found of None \<Rightarrow> \<forall>rid. \<not> monitored [65] demo_one rid | Some rid \<Rightarrow> monitored [65] demo_one rid"
    "ps_core (remove_monitor_inline id [65] demo_one) = (ps_core demo_one) \<lparr> se_monitors :=
      (case found of None \<Rightarrow> se_monitors (ps_core demo_one) | Some rid \<Rightarrow> (se_monitors (ps_core demo_one))(rid := None)) \<rparr>"
    "ps_writes demo_one = [] \<longrightarrow> tcp_out (ps_tcp (remove_monitor_inline id [65] demo_one)) = tcp_out (ps_tcp demo_one) @
       (case found of None \<Rightarrow> [] | Some rid \<Rightarrow> request_message (ps_order demo_one) mr_stop (sid, rid)) @
       destroy_message (ps_order demo_one) (cid, sid)"
    using removal_stops_the_monitor[OF demo_one_ok s[symmetric] perm ch]
    by (elim exE conjE) (rule that, assumption+)
  have "found = Some 2"
    using r(2) by (cases found) (simp_all add: m)
  moreover have "cid = 1 \<and> sid = 70"
    using r(1) by (auto simp: fields(5))
  ultimately show ?thesis
    using r(3,4) by (simp add: fields s Let_def)
qed

text \<open>The channel is looked for by its name only: when a refused channel of the PV is still in the
  table, the order of the hash map decides whether anything is removed.\<close>

definition demo_refused :: "unit pva_session" where
  "demo_refused = (let s = demo_start [] in s \<lparr> ps_state := (ps_state s) \<lparr> cs_channels :=
     [(1, \<lparr> ci_client_id = 1, ci_pv_name = [65], ci_state = ChClosed \<rparr>),
      (2, \<lparr> ci_client_id = 2, ci_pv_name = [65], ci_state = ChActive 70 \<rparr>)] \<rparr> \<rparr>)"

lemma removal_takes_any_channel_of_the_name:
  "session_ok demo_refused" "remove_monitor_inline id [65] demo_refused = demo_refused"
  "cs_channels (ps_state (remove_monitor_inline rev [65] demo_refused)) = []"
proof -
  have "session_ok (demo_start [] :: unit pva_session)"
    by simp
  then show "session_ok demo_refused"
    by (simp add: session_ok_def demo_refused_def Let_def conn_ok_def)
  show "remove_monitor_inline id [65] demo_refused = demo_refused"
    by (simp add: remove_monitor_inline_def find_channel_by_name_def hash_entries_def demo_refused_def Let_def
        List.map_filter_def)
  show "cs_channels (ps_state (remove_monitor_inline rev [65] demo_refused)) = []"
    by (simp add: remove_monitor_inline_def find_channel_by_name_def hash_entries_def demo_refused_def Let_def
        List.map_filter_def stop_monitor_run)
qed

section \<open>Properties of every session\<close>

text \<open>A search returns PVs that were asked for, none more often than it was asked for,
  and a bulk subscription reports on PVs that were asked for only, whatever the server answers.\<close>

theorem answers_name_what_was_asked:
  "mset (fst (search_pvs addr pvs s)) \<subseteq># mset pvs \<and>
   (case fst (add_monitors_bulk iter pvs s) of
      None \<Rightarrow> True
    | Some results \<Rightarrow> fst ` set results \<subseteq> set pvs)"
  using search_subset[of addr pvs s] bulk_names[of iter pvs s] by (simp split: option.split)

end
