(* ===== verification/Driver.thy ===== *)
theory Driver
  imports Bulk
begin

text \<open>
  The driver that spreads the PVs over the IOCs (\<open>aura-net/src/runtime/driver.rs\<close>): the
  two search rounds, the subscriptions on existing and on new sessions, the bookkeeping of
  which PV is on which IOC, and the reconnect loop of a session.

  What the spawned tasks answer is the record \<open>ioc_world\<close>: a search gives the PVs found
  (none when the connection failed), a subscription on a new session the results or
  \<open>None\<close> when the connection failed, a batch on a running session the results or \<open>None\<close>
  when its channel is closed or its answer is late.  A running session is known by the
  position of its task; \<open>dr_offered\<close> lists the commands put on the channels of the tasks
  and \<open>dr_lifecycle\<close> the lifecycle events offered to the main loop (a full channel drops
  them).  As in \<open>Session\<close>, a hash map is an association list and \<open>iter\<close> gives the
  order of its keys.
\<close>

datatype 'e DriverError = DrSession 'e | DrSearchFailed rstring | DrIo rstring

datatype LifecycleEvent =
    LeConnected socket_addr "rstring list"
  | LeDisconnected socket_addr "rstring list" rstring
  | LeReconnected socket_addr "rstring list"

type_synonym 'e answers = "(rstring \<times> ('e + monitor_handle)) list"

record 'e ioc_world =
  iw_search1 :: "socket_addr \<Rightarrow> rstring list \<Rightarrow> rstring list"
  iw_search2 :: "socket_addr \<Rightarrow> rstring list \<Rightarrow> rstring list"
  iw_batch :: "socket_addr \<Rightarrow> rstring list \<Rightarrow> 'e answers option"
  iw_subscribe :: "socket_addr \<Rightarrow> rstring list \<Rightarrow> 'e answers option"

text \<open>The task of an event loop: the list it subscribes again after a disconnect is the one
  of the moment it was spawned.\<close>

record event_task =
  et_addr :: socket_addr
  et_reconnect_pvs :: "rstring list"
  et_cancelled :: bool

record driver =
  dr_name_servers :: "socket_addr list"
  dr_cache :: "rstring \<rightharpoonup> socket_addr"
  dr_failed :: "rstring list"
  dr_commands :: "socket_addr \<rightharpoonup> nat"
  dr_ioc_pvs :: "socket_addr \<rightharpoonup> rstring list"
  dr_cancel :: "socket_addr \<rightharpoonup> nat"
  dr_tasks :: "event_task list"
  dr_offered :: "(nat \<times> SessionCommand) list"
  dr_lifecycle :: "LifecycleEvent list"

definition driver_new :: "socket_addr list \<Rightarrow> driver" where
  "driver_new servers = \<lparr> dr_name_servers = servers, dr_cache = Map.empty, dr_failed = [],
     dr_commands = Map.empty, dr_ioc_pvs = Map.empty, dr_cancel = Map.empty, dr_tasks = [],
     dr_offered = [], dr_lifecycle = [] \<rparr>"

definition set_name_servers :: "socket_addr list \<Rightarrow> driver \<Rightarrow> driver" where
  "set_name_servers servers d = d \<lparr> dr_name_servers := servers \<rparr>"

section \<open>Search\<close>

text \<open>The share of server \<open>j\<close> of \<open>n\<close> in the first round.\<close>

definition search_share :: "nat \<Rightarrow> nat \<Rightarrow> rstring list \<Rightarrow> rstring list" where
  "search_share n j pvs = map snd (filter (\<lambda>(i, _). i mod n = j) (enumerate 0 pvs))"

type_synonym placement = "(rstring \<times> socket_addr) list"

text \<open>The first server that claims a PV gets it.\<close>

definition claim :: "socket_addr \<times> rstring list \<Rightarrow> placement \<Rightarrow> placement" where
  "claim answer m =
    fold (\<lambda>pv m. if map_of m pv = None then m @ [(pv, fst answer)] else m) (snd answer) m"

definition search_round1 :: "'e ioc_world \<Rightarrow> socket_addr list \<Rightarrow> rstring list \<Rightarrow> placement" where
  "search_round1 w servers pvs =
    fold claim (map (\<lambda>(j, srv). (srv, iw_search1 w srv (search_share (length servers) j pvs)))
      (enumerate 0 servers)) []"

definition unfound :: "placement \<Rightarrow> rstring list \<Rightarrow> rstring list" where
  "unfound m pvs = filter (\<lambda>pv. map_of m pv = None) pvs"

definition search_round2 ::
  "'e ioc_world \<Rightarrow> socket_addr list \<Rightarrow> rstring list \<Rightarrow> placement \<Rightarrow> placement" where
  "search_round2 w servers pvs m =
    (if unfound m pvs = [] then m
     else fold claim (map (\<lambda>srv. (srv, iw_search2 w srv (unfound m pvs))) servers) m)"

definition place :: "'e ioc_world \<Rightarrow> socket_addr list \<Rightarrow> rstring list \<Rightarrow> placement" where
  "place w servers pvs = search_round2 w servers pvs (search_round1 w servers pvs)"

section \<open>Subscribing\<close>

type_synonym hash_order = "(rstring list \<Rightarrow> rstring list) \<times> (socket_addr list \<Rightarrow> socket_addr list)"

definition group_add :: "'k \<Rightarrow> 'v \<Rightarrow> ('k \<times> 'v list) list \<Rightarrow> ('k \<times> 'v list) list" where
  "group_add k v m = AList.update k ((case map_of m k of Some vs \<Rightarrow> vs | None \<Rightarrow> []) @ [v]) m"

definition group_by_server :: "hash_order \<Rightarrow> placement \<Rightarrow> (socket_addr \<times> rstring list) list" where
  "group_by_server iters m = fold (\<lambda>(pv, addr). group_add addr pv) (hash_entries (fst iters) m) []"

text \<open>\<open>spawn_event_loop\<close>: a new task takes over the command channel and the cancellation
  token of the address.\<close>

definition spawn_event_loop :: "socket_addr \<Rightarrow> driver \<Rightarrow> driver" where
  "spawn_event_loop addr d =
    (let t = length (dr_tasks d);
         pvs = (case dr_ioc_pvs d addr of Some pvs \<Rightarrow> pvs | None \<Rightarrow> []) in
     d \<lparr> dr_commands := (dr_commands d)(addr \<mapsto> t), dr_cancel := (dr_cancel d)(addr \<mapsto> t),
         dr_tasks := dr_tasks d @ [\<lparr> et_addr = addr, et_reconnect_pvs = pvs, et_cancelled = False \<rparr>] \<rparr>)"

definition is_ok :: "'e + 'a \<Rightarrow> bool" where
  "is_ok r = (case r of Ok _ \<Rightarrow> True | Err _ \<Rightarrow> False)"

definition cache_ok :: "socket_addr \<Rightarrow> 'e answers \<Rightarrow> driver \<Rightarrow> driver" where
  "cache_ok addr answers d =
    fold (\<lambda>(pv, r) d. if is_ok r then d \<lparr> dr_cache := (dr_cache d)(pv \<mapsto> addr) \<rparr> else d) answers d"

definition as_driver_results :: "'e answers \<Rightarrow> 'e DriverError answers" where
  "as_driver_results = map (\<lambda>(pv, r). (pv, case r of Ok h \<Rightarrow> Ok h | Err e \<Rightarrow> Err (DrSession e)))"

record 'e batch =
  bt_driver :: driver
  bt_results :: "'e DriverError answers"
  bt_new :: "(socket_addr \<times> rstring list) list"

text \<open>A batch on the running session of an IOC; without an answer the IOC is treated as new.\<close>

definition offer :: "nat \<Rightarrow> SessionCommand \<Rightarrow> driver \<Rightarrow> driver" where
  "offer t cmd d = d \<lparr> dr_offered := dr_offered d @ [(t, cmd)] \<rparr>"

definition extend_ioc_pvs :: "socket_addr \<Rightarrow> rstring list \<Rightarrow> driver \<Rightarrow> driver" where
  "extend_ioc_pvs addr pvs d =
    (case dr_ioc_pvs d addr of
       Some old \<Rightarrow> d \<lparr> dr_ioc_pvs := (dr_ioc_pvs d)(addr \<mapsto>
         old @ filter (\<lambda>pv. dr_cache d pv \<noteq> None) pvs) \<rparr>
     | None \<Rightarrow> d)"

definition subscribe_existing :: "'e ioc_world \<Rightarrow> socket_addr \<times> rstring list \<Rightarrow> 'e batch \<Rightarrow> 'e batch" where
  "subscribe_existing w ioc b =
    (case ioc of (addr, pvs) \<Rightarrow>
     case dr_commands (bt_driver b) addr of
       None \<Rightarrow> b
     | Some t \<Rightarrow>
        (let d = offer t (AddMonitorBatch pvs) (bt_driver b) in
         case iw_batch w addr pvs of
           Some answers \<Rightarrow>
             b \<lparr> bt_driver := extend_ioc_pvs addr pvs (cache_ok addr answers d),
                 bt_results := bt_results b @ as_driver_results answers \<rparr>
         | None \<Rightarrow> b \<lparr> bt_driver := d, bt_new := AList.update addr pvs (bt_new b) \<rparr>))"

text \<open>A fresh session for an IOC.\<close>

definition subscribe_new :: "'e ioc_world \<Rightarrow> socket_addr \<times> rstring list \<Rightarrow> 'e batch \<Rightarrow> 'e batch" where
  "subscribe_new w ioc b =
    (case ioc of (addr, pvs) \<Rightarrow>
     case iw_subscribe w addr pvs of
       None \<Rightarrow> b
     | Some answers \<Rightarrow>
        (let d = cache_ok addr answers (bt_driver b) in
         b \<lparr> bt_driver :=
               (if list_ex (\<lambda>(_, r). is_ok r) answers
                then spawn_event_loop addr (d \<lparr> dr_ioc_pvs := (dr_ioc_pvs d)(addr \<mapsto> pvs) \<rparr>) else d),
             bt_results := bt_results b @ as_driver_results answers \<rparr>))"

definition subscribe_placed :: "hash_order \<Rightarrow> 'e ioc_world \<Rightarrow> placement \<Rightarrow> driver \<Rightarrow> 'e batch" where
  "subscribe_placed iters w m d =
    (let groups = hash_entries (snd iters) (group_by_server iters m);
         running = (\<lambda>(addr, _). dr_commands d addr \<noteq> None);
         b = fold (subscribe_existing w) (hash_entries (snd iters) (filter running groups))
               \<lparr> bt_driver = d, bt_results = [], bt_new = filter (\<lambda>g. \<not> running g) groups \<rparr>
     in fold (subscribe_new w) (hash_entries (snd iters) (bt_new b)) b)"

definition not_found_results :: "placement \<Rightarrow> rstring list \<Rightarrow> 'e DriverError answers" where
  "not_found_results m pvs = map (\<lambda>pv. (pv, Err (DrSearchFailed (ascii ''not found'')))) (unfound m pvs)"

definition announce_connected ::
  "hash_order \<Rightarrow> 'e DriverError answers \<Rightarrow> driver \<Rightarrow> driver" where
  "announce_connected iters results d =
    (let by_ioc = fold (\<lambda>(pv, r) m. if is_ok r then
           (case dr_cache d pv of Some addr \<Rightarrow> group_add addr pv m | None \<Rightarrow> m) else m) results []
     in d \<lparr> dr_lifecycle := dr_lifecycle d @
          map (\<lambda>(addr, pvs). LeConnected addr pvs) (hash_entries (snd iters) by_ioc) \<rparr>)"

definition monitor_batch ::
  "hash_order \<Rightarrow> 'e ioc_world \<Rightarrow> rstring list \<Rightarrow> driver \<Rightarrow> 'e DriverError answers \<times> driver" where
  "monitor_batch iters w pvs d =
    (if dr_name_servers d = []
     then (map (\<lambda>pv. (pv, Err (DrSearchFailed (ascii ''no IOCs configured'')))) pvs, d)
     else
       (let m = place w (dr_name_servers d) pvs;
            b = subscribe_placed iters w m (d \<lparr> dr_failed := unfound m pvs \<rparr>);
            results = bt_results b @ not_found_results m pvs
        in (results, announce_connected iters results (bt_driver b))))"

section \<open>Leaving and joining\<close>

definition unsubscribe_one :: "rstring \<Rightarrow> driver \<Rightarrow> driver" where
  "unsubscribe_one pv d =
    (case dr_cache d pv of
       None \<Rightarrow> d
     | Some addr \<Rightarrow>
        (let d1 = d \<lparr> dr_cache := (dr_cache d)(pv := None) \<rparr>;
             d2 = (case dr_commands d1 addr of Some t \<Rightarrow> offer t (RemoveMonitor pv) d1 | None \<Rightarrow> d1)
         in d2 \<lparr> dr_ioc_pvs := (dr_ioc_pvs d2)(addr := map_option (removeAll pv) (dr_ioc_pvs d2 addr)) \<rparr>))"

definition unsubscribe :: "rstring list \<Rightarrow> driver \<Rightarrow> driver" where
  "unsubscribe pvs d = fold unsubscribe_one pvs d"

text \<open>The PVs searched on an IOC that joins, each once; \<open>set_order\<close> is the order of the hash
  set.\<close>

definition hot_add_search_set :: "rstring list \<Rightarrow> driver \<Rightarrow> rstring list" where
  "hot_add_search_set configured d =
    fold List.insert (filter (\<lambda>pv. dr_cache d pv = None) configured) (remdups (dr_failed d))"

definition recover :: "socket_addr \<Rightarrow> 'e answers \<Rightarrow> driver \<Rightarrow> rstring list \<times> driver" where
  "recover addr answers d =
    fold (\<lambda>(pv, r) (recovered, d). if is_ok r
        then (recovered @ [pv], d \<lparr> dr_cache := (dr_cache d)(pv \<mapsto> addr), dr_failed := removeAll pv (dr_failed d) \<rparr>)
        else (recovered, d)) answers ([], d)"

definition hot_add_ioc ::
  "(rstring list \<Rightarrow> rstring list) \<Rightarrow> 'e ioc_world \<Rightarrow> socket_addr \<Rightarrow> rstring list \<Rightarrow> driver \<Rightarrow>
    rstring list \<times> driver" where
  "hot_add_ioc set_order w addr configured d =
    (let pvs = set_order (hot_add_search_set configured d) in
     if pvs = [] then ([], d)
     else
       (let found = iw_search1 w addr pvs in
        if found = [] then ([], d)
        else
          (case iw_subscribe w addr found of
             None \<Rightarrow> ([], d)
           | Some answers \<Rightarrow>
              if list_ex (\<lambda>(_, r). is_ok r) answers then
                (case recover addr answers d of (recovered, d1) \<Rightarrow>
                   (recovered, spawn_event_loop addr (d1 \<lparr> dr_ioc_pvs := (dr_ioc_pvs d1)(addr \<mapsto> found) \<rparr>)))
              else ([], d))))"

definition cancel_task :: "nat \<Rightarrow> event_task list \<Rightarrow> event_task list" where
  "cancel_task t ts = (if t < length ts then ts[t := (ts ! t) \<lparr> et_cancelled := True \<rparr>] else ts)"

definition remove_session :: "socket_addr \<Rightarrow> driver \<Rightarrow> driver" where
  "remove_session addr d =
    (let d1 = (case dr_cancel d addr of
           Some t \<Rightarrow> d \<lparr> dr_cancel := (dr_cancel d)(addr := None), dr_tasks := cancel_task t (dr_tasks d) \<rparr>
         | None \<Rightarrow> d);
         d2 = (case dr_ioc_pvs d1 addr of
           Some pvs \<Rightarrow> d1 \<lparr> dr_ioc_pvs := (dr_ioc_pvs d1)(addr := None), dr_failed := dr_failed d1 @ pvs \<rparr>
         | None \<Rightarrow> d1)
     in d2 \<lparr> dr_commands := (dr_commands d2)(addr := None),
             dr_cache := (\<lambda>pv. if dr_cache d2 pv = Some addr then None else dr_cache d2 pv) \<rparr>)"

text \<open>\<open>addrs\<close> lists the keys of both maps, in the order of their iteration.\<close>

definition shutdown_sessions :: "socket_addr list \<Rightarrow> socket_addr list \<Rightarrow> driver \<Rightarrow> driver" where
  "shutdown_sessions addrs cancels d =
    (let d1 = fold (\<lambda>addr d. case dr_commands d addr of Some t \<Rightarrow> offer t Shutdown d | None \<Rightarrow> d) addrs d
     in d1 \<lparr> dr_tasks := fold (\<lambda>addr ts. case dr_cancel d1 addr of Some t \<Rightarrow> cancel_task t ts | None \<Rightarrow> ts)
          cancels (dr_tasks d1) \<rparr>)"

text \<open>The main loop's answer to a reconnect: the new channel replaces the old one.\<close>

definition install_commands :: "socket_addr \<Rightarrow> nat \<Rightarrow> driver \<Rightarrow> driver" where
  "install_commands addr t d = d \<lparr> dr_commands := (dr_commands d)(addr \<mapsto> t) \<rparr>"

section \<open>The reconnect loop of a task\<close>

definition backoff_secs :: "u32 \<Rightarrow> nat" where
  "backoff_secs attempt =
    (if attempt = 1 then 5 else if attempt = 2 then 10 else if 3 \<le> attempt \<and> attempt \<le> 5 then 30
     else if 6 \<le> attempt \<and> attempt \<le> 10 then 60 else 300)"

text \<open>One pass of the loop: whether the token is cancelled before it or during the wait, whether
  the connection succeeds and with how many PVs subscribed again, and how that session ends.\<close>

record reconnect_round =
  rr_cancelled :: bool
  rr_cancelled_waiting :: bool
  rr_subscribed :: "nat option"
  rr_reason :: rstring

datatype reconnect_action = RaWait nat | RaEmit LifecycleEvent | RaStop

fun reconnect_loop ::
  "socket_addr \<Rightarrow> rstring list \<Rightarrow> u32 \<Rightarrow> reconnect_round list \<Rightarrow> reconnect_action list" where
  "reconnect_loop addr pvs attempt [] = []"
| "reconnect_loop addr pvs attempt (rr # rrs) =
    (if rr_cancelled rr then [RaStop]
     else if rr_cancelled_waiting rr then [RaWait (backoff_secs (attempt + 1)), RaStop]
     else RaWait (backoff_secs (attempt + 1)) #
       (case rr_subscribed rr of
          None \<Rightarrow> reconnect_loop addr pvs (attempt + 1) rrs
        | Some n \<Rightarrow>
           if n > 0 then RaEmit (LeReconnected addr pvs) # RaEmit (LeDisconnected addr pvs (rr_reason rr)) #
             reconnect_loop addr pvs 0 rrs
           else reconnect_loop addr pvs (attempt + 1) rrs))"

definition run_event_task :: "event_task \<Rightarrow> rstring \<Rightarrow> reconnect_round list \<Rightarrow> reconnect_action list" where
  "run_event_task t reason rounds =
    (if et_reconnect_pvs t = [] then []
     else RaEmit (LeDisconnected (et_addr t) (et_reconnect_pvs t) reason) #
       (if et_cancelled t then [] else reconnect_loop (et_addr t) (et_reconnect_pvs t) 0 rounds))"

end
