(* ===== verification/DriverFacts.thy ===== *)
theory DriverFacts
  imports Driver
begin

text \<open>
  What the driver (theory \<open>Driver\<close>) relies on from the sessions, and what it promises: every
  subscription is recorded at the server that claimed the PV, a recorded PV has a session,
  and the reconnect loop reaches an IOC that comes back.
\<close>

section \<open>The sessions as a service\<close>

text \<open>A search and a bulk subscription name only PVs they were asked for.\<close>

locale session_service =
  fixes search :: "socket_addr \<Rightarrow> rstring list \<Rightarrow> rstring list"
    and subscribe :: "socket_addr \<Rightarrow> rstring list \<Rightarrow> 'e answers option"
  assumes found_asked: "set (search addr pvs) \<subseteq> set pvs"
    and answered_asked: "subscribe addr pvs = Some answers \<Longrightarrow> fst ` set answers \<subseteq> set pvs"
begin

lemma found_one: "pv \<in> set (search addr pvs) \<Longrightarrow> pv \<in> set pvs"
  using found_asked by blast

lemma answered_one: "subscribe addr pvs = Some answers \<Longrightarrow> (pv, r) \<in> set answers \<Longrightarrow> pv \<in> set pvs"
  using answered_asked by force

end

text \<open>The sessions of the model: \<open>connect\<close> gives the session a connection ends in, if it
  succeeds.\<close>

definition session_search ::
  "(socket_addr \<Rightarrow> 'io pva_session option) \<Rightarrow> socket_addr \<Rightarrow> socket_addr \<Rightarrow> rstring list \<Rightarrow> rstring list" where
  "session_search connect local_addr addr pvs =
    (case connect addr of None \<Rightarrow> [] | Some s \<Rightarrow> fst (search_pvs local_addr pvs s))"

definition session_subscribe ::
  "(socket_addr \<Rightarrow> 'io pva_session option) \<Rightarrow> (32 word list \<Rightarrow> 32 word list) \<Rightarrow> socket_addr \<Rightarrow> rstring list \<Rightarrow>
    'io SessionError answers option" where
  "session_subscribe connect iter addr pvs =
    (case connect addr of None \<Rightarrow> None | Some s \<Rightarrow> fst (add_monitors_bulk iter pvs s))"

lemma session_search_asked: "set (session_search c l addr pvs) \<subseteq> set pvs"
  using set_mset_mono[OF search_subset] by (auto simp: session_search_def split: option.split)

lemma session_subscribe_asked:
  "session_subscribe c iter addr pvs = Some answers \<Longrightarrow> fst ` set answers \<subseteq> set pvs"
  by (auto simp: session_subscribe_def dest: bulk_names split: option.splits)

interpretation session: session_service "session_search c l" "session_subscribe c' iter" for c l c' iter
  by unfold_locales (rule session_search_asked session_subscribe_asked, assumption?)+

text \<open>A placement puts each of the PVs asked for at one of the servers, or nowhere.\<close>

definition placed_ok :: "socket_addr list \<Rightarrow> rstring list \<Rightarrow> placement \<Rightarrow> bool" where
  "placed_ok servers pvs m \<longleftrightarrow> distinct (map fst m) \<and> fst ` set m \<subseteq> set pvs \<and> snd ` set m \<subseteq> set servers"

text \<open>A group holds PVs placed at its server; the cache agrees with the placement on every PV
  reported as subscribed.\<close>

definition group_ok :: "placement \<Rightarrow> socket_addr \<times> rstring list \<Rightarrow> bool" where
  "group_ok m g \<longleftrightarrow> (\<forall>pv \<in> set (snd g). map_of m pv = Some (fst g))"

definition cache_points :: "placement \<Rightarrow> 'e DriverError answers \<Rightarrow> (rstring \<rightharpoonup> socket_addr) \<Rightarrow> bool" where
  "cache_points m results cache \<longleftrightarrow>
    (\<forall>(pv, r) \<in> set results. map_of m pv \<noteq> None \<and> (is_ok r \<longrightarrow> cache pv = map_of m pv))"

definition batch_ok :: "placement \<Rightarrow> 'e batch \<Rightarrow> bool" where
  "batch_ok m b \<longleftrightarrow> cache_points m (bt_results b) (dr_cache (bt_driver b)) \<and>
     (\<forall>g \<in> set (bt_new b). group_ok m g)"

lemma is_ok_simps [simp]: "is_ok (Ok h)" "\<not> is_ok (Err e)"
  by (simp_all add: is_ok_def)

lemma dr_cache_cache_ok:
  "dr_cache (cache_ok addr answers d) =
    (\<lambda>pv. if \<exists>r. (pv, r) \<in> set answers \<and> is_ok r then Some addr else dr_cache d pv)"
proof (induction answers arbitrary: d)
  case (Cons a answers)
  then show ?case
    by (cases a) (auto simp: cache_ok_def fun_eq_iff)
qed (simp add: cache_ok_def)

lemma cache_ok_fields [simp]:
  "dr_name_servers (cache_ok addr answers d) = dr_name_servers d"
  "dr_failed (cache_ok addr answers d) = dr_failed d"
  "dr_commands (cache_ok addr answers d) = dr_commands d"
  "dr_ioc_pvs (cache_ok addr answers d) = dr_ioc_pvs d"
  "dr_cancel (cache_ok addr answers d) = dr_cancel d"
  "dr_tasks (cache_ok addr answers d) = dr_tasks d"
  "dr_offered (cache_ok addr answers d) = dr_offered d"
  by (induction answers arbitrary: d) (auto simp: cache_ok_def)

lemma cache_ok_offer [simp]:
  "dr_cache (cache_ok addr answers (offer t c d)) = dr_cache (cache_ok addr answers d)"
  by (simp add: dr_cache_cache_ok offer_def cong: if_cong)

lemma extend_fields [simp]:
  "dr_cache (extend_ioc_pvs addr pvs d) = dr_cache d" "dr_commands (extend_ioc_pvs addr pvs d) = dr_commands d"
  "dr_failed (extend_ioc_pvs addr pvs d) = dr_failed d" "dr_tasks (extend_ioc_pvs addr pvs d) = dr_tasks d"
  "dr_cancel (extend_ioc_pvs addr pvs d) = dr_cancel d"
  by (simp_all add: extend_ioc_pvs_def split: option.split)

lemma spawn_fields [simp]:
  "dr_cache (spawn_event_loop addr d) = dr_cache d" "dr_failed (spawn_event_loop addr d) = dr_failed d"
  "dr_commands (spawn_event_loop addr d) = (dr_commands d)(addr \<mapsto> length (dr_tasks d))"
  "dr_cancel (spawn_event_loop addr d) = (dr_cancel d)(addr \<mapsto> length (dr_tasks d))"
  by (simp_all add: spawn_event_loop_def Let_def)

lemma as_driver_results_ok:
  "(pv, r) \<in> set (as_driver_results answers) \<Longrightarrow> \<exists>q. (pv, q) \<in> set answers \<and> is_ok r = is_ok q"
  by (auto simp: as_driver_results_def split: sum.splits)

lemma cache_points_answers:
  fixes answers :: "'e answers"
  assumes "cache_points m results cache" "group_ok m (addr, pvs)"
    and "\<And>pv r. (pv, r) \<in> set answers \<Longrightarrow> pv \<in> set pvs"
    and "cache' = (\<lambda>pv. if \<exists>r. (pv, r) \<in> set answers \<and> is_ok r then Some addr else cache pv)"
  shows "cache_points m (results @ as_driver_results answers) cache'"
proof -
  have placed: "map_of m pv = Some addr" if "(pv, q) \<in> set answers" for pv q
    using assms(2,3) that by (auto simp: group_ok_def)
  have "map_of m pv \<noteq> None \<and> (is_ok r \<longrightarrow> cache' pv = map_of m pv)"
    if mem: "(pv, r) \<in> set (results @ as_driver_results answers)" for pv r
  proof (cases "(pv, r) \<in> set results")
    case True
    then show ?thesis
      using assms(1) placed unfolding assms(4) cache_points_def by fastforce
  next
    case False
    then obtain q where "(pv, q) \<in> set answers" "is_ok r = is_ok q"
      using mem as_driver_results_ok[of pv r answers] by auto
    then show ?thesis
      using placed[of pv q] unfolding assms(4) by auto
  qed
  then show ?thesis
    by (auto simp: cache_points_def)
qed

lemma batch_ok_answers:
  fixes answers :: "'e answers"
  assumes "batch_ok m b" "group_ok m (addr, pvs)" "\<And>pv r. (pv, r) \<in> set answers \<Longrightarrow> pv \<in> set pvs"
  shows "batch_ok m (b \<lparr> bt_driver := cache_ok addr answers (bt_driver b),
    bt_results := bt_results b @ as_driver_results answers \<rparr>)"
  using cache_points_answers[OF _ assms(2,3) dr_cache_cache_ok, of "bt_results b" "bt_driver b"] assms(1)
  by (simp add: batch_ok_def)

lemma update_groups: "set (AList.update k v m) \<subseteq> insert (k, v) (set m)"
  by (induction m) auto

lemma update_groups_all: "\<forall>g \<in> set gs. P g \<Longrightarrow> P (k, v) \<Longrightarrow> \<forall>g \<in> set (AList.update k v gs). P g"
  using update_groups by fast

lemma group_add_ok:
  assumes "\<forall>g \<in> set gs. group_ok m g" "map_of m pv = Some addr"
  shows "\<forall>g \<in> set (group_add addr pv gs). group_ok m g"
proof -
  have "group_ok m (addr, (case map_of gs addr of Some vs \<Rightarrow> vs | None \<Rightarrow> []) @ [pv])"
  proof (cases "map_of gs addr")
    case (Some vs)
    then have "group_ok m (addr, vs)"
      using assms(1) by (meson map_of_SomeD)
    then show ?thesis
      using assms(2) Some by (auto simp: group_ok_def)
  qed (use assms(2) in \<open>simp add: group_ok_def\<close>)
  then show ?thesis
    using assms(1) unfolding group_add_def by (intro update_groups_all)
qed

lemma group_by_server_ok:
  assumes "distinct (map fst m)"
  shows "\<forall>g \<in> set (group_by_server iters m). group_ok m g"
  unfolding group_by_server_def
proof (rule fold_invariant[where Q = "\<lambda>(pv, addr). map_of m pv = Some addr"])
  show "case x of (pv, addr) \<Rightarrow> map_of m pv = Some addr" if "x \<in> set (hash_entries (fst iters) m)" for x
    using that set_hash_entries[of "fst iters" m] assms by auto
  show "\<forall>g \<in> set ((case x of (pv, addr) \<Rightarrow> group_add addr pv) gs). group_ok m g"
    if "case x of (pv, addr) \<Rightarrow> map_of m pv = Some addr" "\<forall>g \<in> set gs. group_ok m g" for x gs
    using group_add_ok[OF that(2), of "fst x" "snd x"] that(1) by (simp add: case_prod_unfold)
qed simp

text \<open>All the IOCs: the sessions of the first search and of the new subscriptions, and those
  of the second search and of the running subscriptions.\<close>

locale ioc_network =
  fresh: session_service "iw_search1 w" "iw_subscribe w" +
  running: session_service "iw_search2 w" "iw_batch w" for w :: "'e ioc_world"
begin

lemma share_subset: "set (search_share n j pvs) \<subseteq> set pvs"
  by (auto simp: search_share_def in_set_enumerate_eq)

lemma placed_ok_claim:
  assumes "placed_ok servers pvs m" "addr \<in> set servers" "set found \<subseteq> set pvs"
  shows "placed_ok servers pvs (claim (addr, found) m)"
proof -
  have "placed_ok servers pvs
      (fold (\<lambda>pv m. if map_of m pv = None then m @ [(pv, addr)] else m) found m)"
    using assms(1,3)
  proof (induction found arbitrary: m)
    case (Cons pv found)
    then show ?case
      using assms(2) by (auto simp: placed_ok_def map_of_eq_None_iff)
  qed simp
  then show ?thesis
    unfolding claim_def fst_conv snd_conv .
qed

lemma placed_ok_claims:
  assumes "placed_ok servers pvs m" "\<forall>(addr, found) \<in> set as. addr \<in> set servers \<and> set found \<subseteq> set pvs"
  shows "placed_ok servers pvs (fold claim as m)"
  using assms by (induction as arbitrary: m) (auto simp: placed_ok_claim)

lemma placed_ok_place: "placed_ok servers pvs (place w servers pvs)"
proof -
  have 1: "placed_ok servers pvs (search_round1 w servers pvs)"
    unfolding search_round1_def
    by (rule placed_ok_claims)
      (use fresh.found_asked share_subset in \<open>fastforce simp: placed_ok_def in_set_enumerate_eq\<close>)+
  have "set (iw_search2 w srv (unfound m pvs)) \<subseteq> set pvs" for srv m
    using running.found_asked[of srv "unfound m pvs"] by (auto simp: unfound_def)
  then have "\<forall>(addr, found) \<in> set (map (\<lambda>srv. (srv, iw_search2 w srv (unfound m pvs))) servers).
      addr \<in> set servers \<and> set found \<subseteq> set pvs" for m
    by (simp add: case_prod_unfold)
  then show ?thesis
    unfolding place_def search_round2_def using placed_ok_claims[OF 1] 1 by simp
qed

lemma batch_answers: "iw_batch w addr pvs = Some answers \<Longrightarrow> (pv, r) \<in> set answers \<Longrightarrow> pv \<in> set pvs"
  by (rule running.answered_one)

lemma subscribe_answers: "iw_subscribe w addr pvs = Some answers \<Longrightarrow> (pv, r) \<in> set answers \<Longrightarrow> pv \<in> set pvs"
  by (rule fresh.answered_one)

lemma batch_ok_existing:
  assumes "batch_ok m b" "group_ok m g"
  shows "batch_ok m (subscribe_existing w g b)"
proof -
  obtain addr pvs where g: "g = (addr, pvs)"
    by (cases g)
  show ?thesis
  proof (cases "dr_commands (bt_driver b) addr")
    case (Some t)
    show ?thesis
    proof (cases "iw_batch w addr pvs")
      case None
      then show ?thesis
        using assms Some g update_groups[of addr pvs "bt_new b"]
        by (auto simp: subscribe_existing_def Let_def batch_ok_def offer_def cache_points_def)
    next
      case (Some answers)
      then have "batch_ok m (b \<lparr> bt_driver := cache_ok addr answers (bt_driver b),
          bt_results := bt_results b @ as_driver_results answers \<rparr>)"
        using batch_ok_answers[OF assms(1), of addr pvs answers] assms(2) batch_answers g by blast
      then show ?thesis
        using Some \<open>dr_commands (bt_driver b) addr = Some t\<close> g
        by (simp add: subscribe_existing_def Let_def batch_ok_def cache_points_def)
    qed
  qed (use assms g in \<open>simp add: subscribe_existing_def\<close>)
qed

lemma batch_ok_new:
  assumes "batch_ok m b" "group_ok m g"
  shows "batch_ok m (subscribe_new w g b)"
proof -
  obtain addr pvs where g: "g = (addr, pvs)"
    by (cases g)
  show ?thesis
  proof (cases "iw_subscribe w addr pvs")
    case (Some answers)
    then have "batch_ok m (b \<lparr> bt_driver := cache_ok addr answers (bt_driver b),
        bt_results := bt_results b @ as_driver_results answers \<rparr>)"
      using batch_ok_answers[OF assms(1), of addr pvs answers] assms(2) subscribe_answers g by blast
    then show ?thesis
      using Some g by (simp add: subscribe_new_def Let_def batch_ok_def cache_points_def)
  qed (use assms g in \<open>simp add: subscribe_new_def\<close>)
qed

lemma batch_ok_placed:
  assumes "distinct (map fst m)"
  shows "batch_ok m (subscribe_placed iters w m d)"
proof -
  let ?groups = "hash_entries (snd iters) (group_by_server iters m)"
  let ?running = "\<lambda>(addr, _). dr_commands d addr \<noteq> None"
  let ?start = "\<lparr> bt_driver = d, bt_results = [], bt_new = filter (\<lambda>g. \<not> ?running g) ?groups \<rparr> :: 'e batch"
  let ?b = "fold (subscribe_existing w) (hash_entries (snd iters) (filter ?running ?groups)) ?start"
  have groups: "\<forall>g \<in> set ?groups. group_ok m g"
    using group_by_server_ok[OF assms] set_hash_entries by fast
  have some: "batch_ok m (fold f gs b)"
    if "\<forall>g \<in> set gs. group_ok m g" "batch_ok m b" "\<And>g b. group_ok m g \<Longrightarrow> batch_ok m b \<Longrightarrow> batch_ok m (f g b)"
    for f gs and b :: "'e batch"
    using that by (intro fold_invariant[where Q = "group_ok m" and P = "batch_ok m"]) auto
  have in_entries: "\<forall>g \<in> set (hash_entries f gs). group_ok m g" if "\<forall>g \<in> set gs. group_ok m g" for f gs
    using that set_hash_entries[of f gs] by blast
  have b0: "batch_ok m ?start"
    using groups by (simp add: batch_ok_def cache_points_def)
  have g0: "\<forall>g \<in> set (hash_entries (snd iters) (filter ?running ?groups)). group_ok m g"
    by (rule in_entries) (use groups in simp)
  have b: "batch_ok m ?b"
    by (rule some[OF g0 b0 batch_ok_existing])
  have g1: "\<forall>g \<in> set (hash_entries (snd iters) (bt_new ?b)). group_ok m g"
    by (rule in_entries[OF conjunct2[OF b[unfolded batch_ok_def]]])
  have "batch_ok m (fold (subscribe_new w) (hash_entries (snd iters) (bt_new ?b)) ?b)"
    by (rule some[OF g1 b batch_ok_new])
  then show ?thesis
    by (simp add: subscribe_placed_def Let_def)
qed

end

definition session_world ::
  "(socket_addr \<Rightarrow> 'io pva_session option) \<Rightarrow> (socket_addr \<Rightarrow> 'io pva_session option) \<Rightarrow>
   (socket_addr \<Rightarrow> 'io pva_session option) \<Rightarrow> (socket_addr \<Rightarrow> 'io pva_session option) \<Rightarrow>
   socket_addr \<Rightarrow> (32 word list \<Rightarrow> 32 word list) \<Rightarrow> 'io SessionError ioc_world" where
  "session_world search1 search2 running fresh local_addr iter =
    \<lparr> iw_search1 = session_search search1 local_addr, iw_search2 = session_search search2 local_addr,
      iw_batch = session_subscribe running iter, iw_subscribe = session_subscribe fresh iter \<rparr>"

interpretation net: ioc_network "session_world search1 search2 running fresh local_addr iter"
  for search1 search2 running fresh local_addr iter
  by unfold_locales (auto simp: session_world_def session.found_one session.answered_one)

section \<open>What a batch leaves alone\<close>

lemma subscribe_existing_failed [simp]:
  "dr_failed (bt_driver (subscribe_existing w g b)) = dr_failed (bt_driver b)"
  by (simp add: subscribe_existing_def Let_def offer_def split: prod.split option.split)

lemma subscribe_new_failed [simp]:
  "dr_failed (bt_driver (subscribe_new w g b)) = dr_failed (bt_driver b)"
  by (simp add: subscribe_new_def Let_def split: prod.split option.split)

lemma fold_existing_failed [simp]:
  "dr_failed (bt_driver (fold (subscribe_existing w) gs b)) = dr_failed (bt_driver b)"
  by (induction gs arbitrary: b) simp_all

lemma fold_new_failed [simp]:
  "dr_failed (bt_driver (fold (subscribe_new w) gs b)) = dr_failed (bt_driver b)"
  by (induction gs arbitrary: b) simp_all

lemma subscribe_placed_failed [simp]: "dr_failed (bt_driver (subscribe_placed iters w m d)) = dr_failed d"
  by (simp add: subscribe_placed_def Let_def)

lemma announce_fields [simp]:
  "dr_cache (announce_connected iters rs d) = dr_cache d" "dr_failed (announce_connected iters rs d) = dr_failed d"
  "dr_commands (announce_connected iters rs d) = dr_commands d" "dr_tasks (announce_connected iters rs d) = dr_tasks d"
  by (simp_all add: announce_connected_def Let_def)

text \<open>The results of the sessions are never those of a failed search.\<close>

definition results_plain :: "'e batch \<Rightarrow> bool" where
  "results_plain b \<longleftrightarrow> (\<forall>(pv, q) \<in> set (bt_results b). \<nexists>e. q = Err (DrSearchFailed e))"

lemma answers_plain [simp]: "(pv, Err (DrSearchFailed e)) \<notin> set (as_driver_results answers)"
  by (auto simp: as_driver_results_def split: sum.splits)

lemma results_plain_existing: "results_plain b \<Longrightarrow> results_plain (subscribe_existing w g b)"
  by (auto simp: results_plain_def subscribe_existing_def Let_def split: prod.split option.split)

lemma results_plain_new: "results_plain b \<Longrightarrow> results_plain (subscribe_new w g b)"
  by (auto simp: results_plain_def subscribe_new_def Let_def split: prod.split option.split)

lemma placed_results_plain:
  assumes "(pv, q) \<in> set (bt_results (subscribe_placed iters w m d))"
  shows "\<nexists>e. q = Err (DrSearchFailed e)"
proof -
  have existing: "results_plain (fold (subscribe_existing w) gs b)" if "results_plain b" for gs b
    using that by (induction gs arbitrary: b) (simp_all add: results_plain_existing)
  have new: "results_plain (fold (subscribe_new w) gs b)" if "results_plain b" for gs b
    using that by (induction gs arbitrary: b) (simp_all add: results_plain_new)
  have "results_plain (subscribe_placed iters w m d)"
    unfolding subscribe_placed_def Let_def by (intro new existing) (simp add: results_plain_def)
  then show ?thesis
    using assms by (auto simp: results_plain_def)
qed

section \<open>Who gets a PV\<close>

text \<open>The first server whose answer names the PV.\<close>

definition claimant :: "(socket_addr \<times> rstring list) list \<Rightarrow> rstring \<Rightarrow> socket_addr option" where
  "claimant answers pv = map_option fst (find (\<lambda>(srv, found). pv \<in> set found) answers)"

lemma map_of_claim: "map_of (claim (addr, found) m) pv =
    (case map_of m pv of Some x \<Rightarrow> Some x | None \<Rightarrow> if pv \<in> set found then Some addr else None)"
proof -
  have "map_of (fold (\<lambda>q m. if map_of m q = None then m @ [(q, addr)] else m) found m) pv =
      (case map_of m pv of Some x \<Rightarrow> Some x | None \<Rightarrow> if pv \<in> set found then Some addr else None)"
    by (induction found arbitrary: m) (auto simp: map_add_def split: option.splits)
  then show ?thesis
    unfolding claim_def fst_conv snd_conv .
qed

lemma map_of_claims: "map_of (fold claim answers m) pv =
    (case map_of m pv of Some x \<Rightarrow> Some x | None \<Rightarrow> claimant answers pv)"
proof (induction answers arbitrary: m)
  case (Cons x answers)
  obtain addr found where x: "x = (addr, found)"
    by fastforce
  show ?case
    using Cons.IH[of "claim (addr, found) m"]
    by (simp add: x map_of_claim claimant_def split: option.split)
qed (simp add: claimant_def split: option.split)

lemma claimant_append: "claimant (xs @ ys) pv = (case claimant xs pv of Some x \<Rightarrow> Some x | None \<Rightarrow> claimant ys pv)"
  by (induction xs) (auto simp: claimant_def)

definition first_round :: "'e ioc_world \<Rightarrow> socket_addr list \<Rightarrow> rstring list \<Rightarrow> (socket_addr \<times> rstring list) list" where
  "first_round w servers pvs =
    map (\<lambda>j. (servers ! j, iw_search1 w (servers ! j) (search_share (length servers) j pvs))) [0..<length servers]"

definition second_round :: "'e ioc_world \<Rightarrow> socket_addr list \<Rightarrow> rstring list \<Rightarrow> (socket_addr \<times> rstring list) list" where
  "second_round w servers pvs =
    map (\<lambda>srv. (srv, iw_search2 w srv (filter (\<lambda>pv. claimant (first_round w servers pvs) pv = None) pvs))) servers"

lemma map_of_round1: "map_of (search_round1 w servers pvs) pv = claimant (first_round w servers pvs) pv"
proof -
  have "map (\<lambda>(j, srv). (srv, iw_search1 w srv (search_share (length servers) j pvs))) (enumerate 0 servers) =
      first_round w servers pvs"
    unfolding first_round_def by (rule nth_equalityI) (simp_all add: nth_enumerate_eq)
  then show ?thesis
    by (simp add: search_round1_def map_of_claims)
qed

lemma map_of_place:
  assumes "pv \<in> set pvs"
  shows "map_of (place w servers pvs) pv = claimant (first_round w servers pvs @ second_round w servers pvs) pv"
proof -
  have u: "unfound (search_round1 w servers pvs) pvs = filter (\<lambda>pv. claimant (first_round w servers pvs) pv = None) pvs"
    by (simp add: unfound_def map_of_round1)
  show ?thesis
  proof (cases "unfound (search_round1 w servers pvs) pvs = []")
    case True
    then obtain srv where "claimant (first_round w servers pvs) pv = Some srv"
      using assms unfolding u by (auto simp: filter_empty_conv)
    then show ?thesis
      using True by (simp add: place_def search_round2_def map_of_round1 claimant_append)
  next
    case False
    then show ?thesis
      by (simp add: place_def search_round2_def map_of_claims map_of_round1 claimant_append second_round_def u)
  qed
qed

text \<open>Each PV is in the share of one server.\<close>

lemma share_covers: "i < length pvs \<Longrightarrow> pvs ! i \<in> set (search_share n (i mod n) pvs)"
  by (force simp: search_share_def in_set_enumerate_eq image_iff)

text \<open>A server that finds the PV \<open>A\<close>, but not \<open>B\<close>, and grants a monitor for it.\<close>

definition demo_search_answer :: "unit inbound" where
  "demo_search_answer = InFrame (app_frame CMD_SEARCH_RESPONSE (written LittleEndian (sr_encode
     \<lparr> sr_guid = replicate 12 0, sr_seq = 3, sr_addr = \<lparr> sa_ip = IpV4 7, sa_port = 5075 \<rparr>,
       sr_protocol = ascii ''tcp'', sr_found = [1] \<rparr>)))"

definition demo_server :: socket_addr where "demo_server = \<lparr> sa_ip = IpV4 7, sa_port = 5075 \<rparr>"

lemma demo_search: "fst (search_pvs demo_server [[65], [66]] (demo_start [demo_search_answer])) = [[65]]"
proof -
  let ?r = "\<lparr> sr_guid = replicate 12 0, sr_seq = 3, sr_addr = \<lparr> sa_ip = IpV4 7, sa_port = 5075 \<rparr>,
       sr_protocol = ascii ''tcp'', sr_found = [1] \<rparr>"
  have ok: "search_response_ok ?r"
    by (simp add: search_response_ok_def ip_ok_def string_ok_def GUID_LEN_def utf8_valid_ascii_bytes ascii_def)
  have d: "fst (sr_decode (reader_new (written LittleEndian (sr_encode ?r)) LittleEndian)) = Ok ?r"
    using search_response.decode_new[OF ok, of LittleEndian "[]"] by simp
  have b: "batches [[65], [66]] = [[[65], [66]]]" "batches [] = []"
    by (simp_all add: batches.simps SEARCH_BATCH_def)
  show ?thesis
    using d
    by (simp add: search_pvs_def b search_channels_def next_client_id_def ps_flush_def ps_buffer_def count_sent_def
        Let_def SEARCH_FLUSH_EVERY_def SEARCH_BATCH_def read_found.simps demo_search_answer_def reader_of_def
        set_inbox_def count_received_def take_found_def ps_order_def demo_start_def conn_new_def flush_writes_def
        next_write_def buffer_msg_def tcp_connected_def stream_write_all_def split: if_splits)
qed

lemma demo_bulk: "fst (add_monitors_bulk id [[65]] (demo_start [create_reply LittleEndian (1, 70),
    init_reply LittleEndian (2, demo_scalar)] :: unit pva_session)) = Some [([65], Ok (BusHandle [65]))]"
  by (subst bulk_subscribes_one[where desc = demo_scalar and sid = 70]) (simp_all add: demo_scalar_def new_handle_def)

definition demo_connect :: "nat \<Rightarrow> socket_addr \<Rightarrow> unit pva_session option" where
  "demo_connect k addr =
    (if k = 1 then Some (demo_start [demo_search_answer])
     else if k = 4 then Some (demo_start [create_reply LittleEndian (1, 70), init_reply LittleEndian (2, demo_scalar)])
     else None)"

definition demo_world :: "unit SessionError ioc_world" where
  "demo_world = session_world (demo_connect 1) (demo_connect 2) (demo_connect 3) (demo_connect 4) demo_server id"

lemma demo_world_answers:
  "iw_search1 demo_world demo_server [[65], [66]] = [[65]]" "iw_search2 demo_world demo_server qs = []"
  "iw_subscribe demo_world demo_server [[65]] = Some [([65], Ok (BusHandle [65]))]"
  using demo_search
  by (simp_all add: demo_world_def session_world_def session_search_def session_subscribe_def demo_connect_def demo_bulk)

lemma demo_placed: "place demo_world [demo_server] [[65], [66]] = [([65], demo_server)]"
  by (simp add: place_def search_round1_def search_round2_def demo_world_answers claim_def unfound_def
      enumerate_eq_zip search_share_def)

lemma hash_entries_one: "hash_entries id [(k, v)] = [(k, v)]" "hash_entries id [] = []"
  by (simp_all add: hash_entries_def List.map_filter_def)

lemma demo_subscribed:
  assumes "dr_commands d = Map.empty"
  shows "bt_results (subscribe_placed (id, id) demo_world [([65], demo_server)] d) = [([65], Ok (BusHandle [65]))]"
    and "dr_cache (bt_driver (subscribe_placed (id, id) demo_world [([65], demo_server)] d)) =
      (dr_cache d)([65] \<mapsto> demo_server)"
proof -
  have g: "group_by_server (id, id) [([65] :: rstring, demo_server)] = [(demo_server, [[65]])]"
    by (simp add: group_by_server_def hash_entries_one group_add_def)
  show "bt_results (subscribe_placed (id, id) demo_world [([65], demo_server)] d) = [([65], Ok (BusHandle [65]))]"
    using assms by (simp add: g subscribe_placed_def hash_entries_one subscribe_new_def demo_world_answers Let_def
      as_driver_results_def)
  show "dr_cache (bt_driver (subscribe_placed (id, id) demo_world [([65], demo_server)] d)) =
      (dr_cache d)([65] \<mapsto> demo_server)"
    using assms by (simp add: g subscribe_placed_def hash_entries_one subscribe_new_def demo_world_answers Let_def
      spawn_event_loop_def dr_cache_cache_ok fun_eq_iff is_ok_def)
qed

text \<open>C8. A batch of subscriptions over the sessions of the model goes where the answers to the searches
  say.  In the first round each server is asked for its share of the PVs, in the second every
  server for those that nobody claimed; a PV belongs to the first server, in this order, whose
  answer names it.  The PVs without such a server are exactly those reported as not found and
  those kept for later; a PV reported as subscribed has such a server, and the driver's cache points
  at it; no result is about another PV.  (That each placed PV has a result is the subject of
  \<open>DriverAnswers\<close>: it takes sessions that answer about every PV.)\<close>

theorem monitor_batch_places_each_pv:
  fixes connect :: "nat \<Rightarrow> socket_addr \<Rightarrow> 'io pva_session option"
  assumes w_def: "w = session_world (connect 1) (connect 2) (connect 3) (connect 4) local_addr iter"
    and "dr_name_servers d \<noteq> []" "monitor_batch iters w pvs d = (results, d')"
  defines "server \<equiv> claimant (first_round w (dr_name_servers d) pvs @ second_round w (dr_name_servers d) pvs)"
  shows "fst ` set results \<subseteq> set pvs \<and>
    (\<forall>i < length pvs. pvs ! i \<in> set (search_share (length (dr_name_servers d)) (i mod length (dr_name_servers d)) pvs)) \<and>
    dr_failed d' = filter (\<lambda>pv. server pv = None) pvs \<and>
    (\<forall>pv e. (pv, Err (DrSearchFailed e)) \<in> set results \<longleftrightarrow>
       pv \<in> set pvs \<and> server pv = None \<and> e = ascii ''not found'') \<and>
    (\<forall>pv h. (pv, Ok h) \<in> set results \<longrightarrow> server pv \<noteq> None \<and> dr_cache d' pv = server pv)"
proof -
  let ?m = "place w (dr_name_servers d) pvs"
  let ?b = "subscribe_placed iters w ?m (d \<lparr> dr_failed := unfound ?m pvs \<rparr>)"
  have r: "results = bt_results ?b @ not_found_results ?m pvs" "d' = announce_connected iters results (bt_driver ?b)"
    using assms(2,3) by (auto simp: monitor_batch_def Let_def)
  have m: "placed_ok (dr_name_servers d) pvs ?m"
    unfolding w_def by (rule net.placed_ok_place)
  then have b: "batch_ok ?m ?b"
    unfolding w_def by (intro net.batch_ok_placed) (simp add: placed_ok_def)
  have known: "pv \<in> set pvs" if "map_of ?m pv = Some srv" for pv srv
    using m map_of_SomeD[OF that] by (force simp: placed_ok_def)
  have server: "map_of ?m pv = server pv" if "pv \<in> set pvs" for pv
    using map_of_place[OF that, of w "dr_name_servers d"] by (simp add: server_def)
  have u: "unfound ?m pvs = filter (\<lambda>pv. server pv = None) pvs"
    unfolding unfound_def by (rule filter_cong) (simp_all add: server)
  have placed: "pv \<in> set pvs \<and> server pv \<noteq> None \<and> (is_ok q \<longrightarrow> dr_cache d' pv = server pv)"
    if "(pv, q) \<in> set (bt_results ?b)" for pv q
  proof -
    have "map_of ?m pv \<noteq> None \<and> (is_ok q \<longrightarrow> dr_cache (bt_driver ?b) pv = map_of ?m pv)"
      using conjunct1[OF b[unfolded batch_ok_def], unfolded cache_points_def, THEN bspec, OF that]
      unfolding prod.case .
    moreover have "pv \<in> set pvs" if "map_of ?m pv \<noteq> None"
      using that known by blast
    ultimately show ?thesis
      using server by (simp add: r(2))
  qed
  have plain: "\<nexists>e. q = Err (DrSearchFailed e)" if "(pv, q) \<in> set (bt_results ?b)" for pv q
    using that by (rule placed_results_plain)
  have missing: "(pv, q) \<in> set (not_found_results ?m pvs) \<longleftrightarrow>
      pv \<in> set pvs \<and> server pv = None \<and> q = Err (DrSearchFailed (ascii ''not found''))"
    for pv and q :: "'io SessionError DriverError + monitor_handle"
    by (auto simp: not_found_results_def u)
  have 1: "fst ` set results \<subseteq> set pvs"
    unfolding r(1) using placed missing by fastforce
  have 2: "\<forall>i < length pvs. pvs ! i \<in>
      set (search_share (length (dr_name_servers d)) (i mod length (dr_name_servers d)) pvs)"
    by (simp add: share_covers)
  have 3: "dr_failed d' = filter (\<lambda>pv. server pv = None) pvs"
    by (simp add: r(2) u)
  have 4: "\<forall>pv e. (pv, Err (DrSearchFailed e)) \<in> set results \<longleftrightarrow>
      pv \<in> set pvs \<and> server pv = None \<and> e = ascii ''not found''"
  proof (intro allI)
    fix pv e
    have "(pv, Err (DrSearchFailed e)) \<notin> set (bt_results ?b)"
      using plain[of pv "Err (DrSearchFailed e)"] by blast
    then show "(pv, Err (DrSearchFailed e)) \<in> set results \<longleftrightarrow>
        pv \<in> set pvs \<and> server pv = None \<and> e = ascii ''not found''"
      using missing[of pv "Err (DrSearchFailed e)"] by (simp add: r(1))
  qed
  have 5: "\<forall>pv h. (pv, Ok h) \<in> set results \<longrightarrow> server pv \<noteq> None \<and> dr_cache d' pv = server pv"
  proof (intro allI impI)
    fix pv h
    assume "(pv, Ok h) \<in> set results"
    then have "(pv, Ok h) \<in> set (bt_results ?b)"
      using missing[of pv "Ok h"] by (simp add: r(1))
    from placed[OF this] show "server pv \<noteq> None \<and> dr_cache d' pv = server pv"
      by simp
  qed
  show ?thesis
    using 1 2 3 4 5 by (intro conjI)
qed

theorem monitor_batch_places_each_pv_witness:
  "let r = monitor_batch (id, id) demo_world [[65], [66]] (driver_new [demo_server])
   in ([65], Ok (BusHandle [65])) \<in> set (fst r) \<and> dr_cache (snd r) [65] = Some demo_server \<and>
      ([66], Err (DrSearchFailed (ascii ''not found''))) \<in> set (fst r) \<and> dr_failed (snd r) = [[66]]"
proof -
  let ?pvs = "[[65], [66]] :: rstring list"
  let ?r = "monitor_batch (id, id) demo_world ?pvs (driver_new [demo_server])"
  have server: "claimant (first_round demo_world [demo_server] ?pvs @ second_round demo_world [demo_server] ?pvs) [65] = Some demo_server"
      "claimant (first_round demo_world [demo_server] ?pvs @ second_round demo_world [demo_server] ?pvs) [66] = None"
    using map_of_place[of "[65]" ?pvs demo_world "[demo_server]"] map_of_place[of "[66]" ?pvs demo_world "[demo_server]"]
    by (simp_all add: demo_placed)
  have ns: "dr_name_servers (driver_new [demo_server]) = [demo_server]"
    by (simp add: driver_new_def)
  have ok: "([65], Ok (BusHandle [65])) \<in> set (fst ?r)"
    by (simp add: monitor_batch_def ns demo_placed demo_subscribed driver_new_def Let_def)
  have ask: "dr_name_servers (driver_new [demo_server]) \<noteq> []"
    by (simp add: ns)
  note placed = monitor_batch_places_each_pv[where connect = demo_connect and local_addr = demo_server and iter = id
      and iters = "(id, id)" and d = "driver_new [demo_server]" and pvs = ?pvs, OF demo_world_def ask prod.collapse[symmetric],
      unfolded ns]
  have "dr_cache (snd ?r) [65] = Some demo_server"
    using placed[THEN conjunct2, THEN conjunct2, THEN conjunct2, THEN conjunct2, rule_format, OF ok] server(1) by simp
  moreover have "([66], Err (DrSearchFailed (ascii ''not found''))) \<in> set (fst ?r)"
    using placed[THEN conjunct2, THEN conjunct2, THEN conjunct2, THEN conjunct1, rule_format] server(2) by simp
  moreover have "dr_failed (snd ?r) = [[66]]"
    using placed[THEN conjunct2, THEN conjunct2, THEN conjunct1] by (simp add: server)
  ultimately show ?thesis
    using ok by (simp only: Let_def simp_thms)
qed

section \<open>A recorded PV has a session\<close>

text \<open>The life of a driver: batches, departures, IOCs that join and leave, and the channel a
  reconnected task hands to the main loop.  The kind of I/O error in an answer does not
  matter to the driver's state.\<close>

inductive driver_step :: "driver \<Rightarrow> driver \<Rightarrow> bool" where
  step_batch: "driver_step d (snd (monitor_batch iters (w :: unit SessionError ioc_world) pvs d))"
| step_unsubscribe: "driver_step d (unsubscribe pvs d)"
| step_hot_add: "driver_step d (snd (hot_add_ioc set_order (w :: unit SessionError ioc_world) addr configured d))"
| step_remove: "driver_step d (remove_session addr d)"
| step_servers: "driver_step d (set_name_servers servers d)"
| step_reconnected: "t < length (dr_tasks d) \<Longrightarrow> et_addr (dr_tasks d ! t) = addr \<Longrightarrow>
    driver_step d (install_commands addr t d)"
| step_shutdown: "driver_step d (shutdown_sessions addrs cancels d)"

definition driver_ok :: "driver \<Rightarrow> bool" where
  "driver_ok d \<longleftrightarrow>
    (\<forall>pv addr. dr_cache d pv = Some addr \<longrightarrow> dr_commands d addr \<noteq> None) \<and>
    (\<forall>addr t. dr_commands d addr = Some t \<longrightarrow> t < length (dr_tasks d) \<and> et_addr (dr_tasks d ! t) = addr)"

lemma driver_okI:
  assumes "driver_ok d" "dr_commands d' = dr_commands d" "map et_addr (dr_tasks d') = map et_addr (dr_tasks d)"
    and "\<And>pv addr. dr_cache d' pv = Some addr \<Longrightarrow> dr_cache d pv = Some addr \<or> dr_commands d addr \<noteq> None"
  shows "driver_ok d'"
proof -
  have len: "length (dr_tasks d') = length (dr_tasks d)"
    using arg_cong[OF assms(3), of length] by simp
  have "et_addr (dr_tasks d' ! t) = et_addr (dr_tasks d ! t)" if "t < length (dr_tasks d)" for t
    using arg_cong[OF assms(3), of "\<lambda>xs. xs ! t"] that len by simp
  then show ?thesis
    using assms(1,2,4) len unfolding driver_ok_def by metis
qed

lemma driver_ok_cache: "driver_ok d \<Longrightarrow> dr_commands d addr \<noteq> None \<Longrightarrow> driver_ok (cache_ok addr answers d)"
  by (rule driver_okI[of d]) (auto simp: dr_cache_cache_ok split: if_splits)

lemma driver_ok_spawn:
  assumes "\<forall>pv a. dr_cache d pv = Some a \<longrightarrow> a = addr \<or> dr_commands d a \<noteq> None"
    and "\<forall>a t. dr_commands d a = Some t \<longrightarrow> t < length (dr_tasks d) \<and> et_addr (dr_tasks d ! t) = a"
  shows "driver_ok (spawn_event_loop addr d)"
  using assms by (auto simp: driver_ok_def spawn_event_loop_def Let_def nth_append less_Suc_eq)

lemma driver_ok_offer [simp]: "driver_ok (offer t c d) = driver_ok d"
  by (simp add: driver_ok_def offer_def)

lemma driver_ok_extend: "driver_ok d \<Longrightarrow> driver_ok (extend_ioc_pvs addr pvs d)"
  by (simp add: driver_ok_def)

lemma driver_ok_existing: "driver_ok (bt_driver b) \<Longrightarrow> driver_ok (bt_driver (subscribe_existing w g b))"
  by (auto simp: subscribe_existing_def Let_def split: prod.split option.split
      intro!: driver_ok_extend driver_ok_cache) (simp add: offer_def)

lemma driver_ok_new: "driver_ok (bt_driver b) \<Longrightarrow> driver_ok (bt_driver (subscribe_new w g b))"
proof (cases g; cases "iw_subscribe w (fst g) (snd g)")
  fix addr pvs answers
  assume b: "driver_ok (bt_driver b)" and g: "g = (addr, pvs)" "iw_subscribe w (fst g) (snd g) = Some answers"
  show ?thesis
  proof (cases "list_ex (\<lambda>(_, r). is_ok r) answers")
    case True
    have "driver_ok (spawn_event_loop addr ((cache_ok addr answers (bt_driver b))
        \<lparr> dr_ioc_pvs := (dr_ioc_pvs (bt_driver b))(addr \<mapsto> pvs) \<rparr>))"
      by (rule driver_ok_spawn) (use b in \<open>auto simp: driver_ok_def dr_cache_cache_ok split: if_splits\<close>)
    then show ?thesis
      using True g by (simp add: subscribe_new_def Let_def)
  next
    case False
    then have "dr_cache (cache_ok addr answers (bt_driver b)) = dr_cache (bt_driver b)"
      by (fastforce simp: dr_cache_cache_ok list_ex_iff fun_eq_iff)
    then show ?thesis
      using False g b by (simp add: subscribe_new_def Let_def driver_ok_def)
  qed
qed (auto simp: subscribe_new_def)

lemma driver_ok_fold:
  assumes "\<And>g b. driver_ok (bt_driver b) \<Longrightarrow> driver_ok (bt_driver (f g b))" "driver_ok (bt_driver b)"
  shows "driver_ok (bt_driver (fold f gs b))"
  using assms(2) by (induction gs arbitrary: b) (simp_all add: assms(1))

lemma driver_ok_batch: "driver_ok d \<Longrightarrow> driver_ok (snd (monitor_batch iters w pvs d))"
proof (cases "dr_name_servers d = []")
  case False
  let ?m = "place w (dr_name_servers d) pvs"
  assume d: "driver_ok d"
  have start: "driver_ok (d \<lparr> dr_failed := unfound ?m pvs \<rparr>)"
    using d by (simp add: driver_ok_def)
  have "driver_ok (bt_driver (subscribe_placed iters w ?m (d \<lparr> dr_failed := unfound ?m pvs \<rparr>)))"
    unfolding subscribe_placed_def Let_def
    by (intro driver_ok_fold driver_ok_new driver_ok_existing) (use start in simp_all)
  then show ?thesis
    using False by (simp add: monitor_batch_def Let_def driver_ok_def)
qed (simp add: monitor_batch_def)

lemma driver_ok_unsubscribe: "driver_ok d \<Longrightarrow> driver_ok (unsubscribe pvs d)"
proof -
  have "driver_ok (unsubscribe_one pv d)" if "driver_ok d" for pv d
    by (rule driver_okI[OF that]) (auto simp: unsubscribe_one_def Let_def offer_def split: option.splits if_splits)
  then show "driver_ok d \<Longrightarrow> driver_ok (unsubscribe pvs d)"
    unfolding unsubscribe_def by (induction pvs arbitrary: d) simp_all
qed

lemma recover_fields:
  "recover addr answers d = (rec, d') \<Longrightarrow> dr_commands d' = dr_commands d \<and> dr_tasks d' = dr_tasks d \<and>
    (\<forall>pv a. dr_cache d' pv = Some a \<longrightarrow> a = addr \<or> dr_cache d pv = Some a)"
proof -
  have "fold (\<lambda>(pv, r) (recovered, d). if is_ok r
        then (recovered @ [pv], d \<lparr> dr_cache := (dr_cache d)(pv \<mapsto> addr), dr_failed := removeAll pv (dr_failed d) \<rparr>)
        else (recovered, d)) answers (rec0, d) = (rec, d') \<Longrightarrow> dr_commands d' = dr_commands d \<and> dr_tasks d' = dr_tasks d \<and>
    (\<forall>pv a. dr_cache d' pv = Some a \<longrightarrow> a = addr \<or> dr_cache d pv = Some a)" for rec0
  proof (induction answers arbitrary: rec0 d)
    case (Cons a answers)
    obtain pv r where a: "a = (pv, r)"
      by (cases a)
    show ?case
      using Cons.IH[of "if is_ok r then rec0 @ [pv] else rec0"
          "if is_ok r then d \<lparr> dr_cache := (dr_cache d)(pv \<mapsto> addr), dr_failed := removeAll pv (dr_failed d) \<rparr> else d"]
        Cons.prems by (auto simp: a split: if_splits)
  qed simp
  then show "recover addr answers d = (rec, d') \<Longrightarrow> dr_commands d' = dr_commands d \<and> dr_tasks d' = dr_tasks d \<and>
    (\<forall>pv a. dr_cache d' pv = Some a \<longrightarrow> a = addr \<or> dr_cache d pv = Some a)"
    by (simp add: recover_def)
qed

lemma hot_add_cases:
  fixes w :: "'e ioc_world"
  shows "hot_add_ioc set_order w addr configured d = ([], d) \<or>
   (\<exists>(answers :: 'e answers) recovered d1 found. recover addr answers d = (recovered, d1) \<and>
      hot_add_ioc set_order w addr configured d =
        (recovered, spawn_event_loop addr (d1 \<lparr> dr_ioc_pvs := (dr_ioc_pvs d1)(addr \<mapsto> found) \<rparr>)))"
proof -
  let ?found = "iw_search1 w addr (set_order (hot_add_search_set configured d))"
  show ?thesis
  proof (cases "iw_subscribe w addr ?found")
    case (Some answers)
    obtain recovered d1 where r: "recover addr answers d = (recovered, d1)"
      by (cases "recover addr answers d")
    then have "hot_add_ioc set_order w addr configured d \<in> {([], d),
        (recovered, spawn_event_loop addr (d1 \<lparr> dr_ioc_pvs := (dr_ioc_pvs d1)(addr \<mapsto> ?found) \<rparr>))}"
      using Some by (simp add: hot_add_ioc_def Let_def)
    then consider "hot_add_ioc set_order w addr configured d = ([], d)"
      | "hot_add_ioc set_order w addr configured d =
          (recovered, spawn_event_loop addr (d1 \<lparr> dr_ioc_pvs := (dr_ioc_pvs d1)(addr \<mapsto> ?found) \<rparr>))"
      by blast
    then show ?thesis
    proof cases
      case 1
      then show ?thesis
        by (rule disjI1)
    next
      case 2
      then show ?thesis
        using r by (intro disjI2 exI conjI)
    qed
  qed (simp add: hot_add_ioc_def Let_def)
qed

lemma driver_ok_hot_add:
  fixes w :: "'e ioc_world"
  assumes "driver_ok d"
  shows "driver_ok (snd (hot_add_ioc set_order w addr configured d))"
  using hot_add_cases[of set_order w addr configured d]
proof (elim disjE exE conjE)
  fix answers :: "'e answers" and recovered d1 found
  assume 2: "recover addr answers d = (recovered, d1)" "hot_add_ioc set_order w addr configured d =
      (recovered, spawn_event_loop addr (d1 \<lparr> dr_ioc_pvs := (dr_ioc_pvs d1)(addr \<mapsto> found) \<rparr>))"
  note r = recover_fields[OF 2(1)]
  have "driver_ok (spawn_event_loop addr (d1 \<lparr> dr_ioc_pvs := (dr_ioc_pvs d1)(addr \<mapsto> found) \<rparr>))"
  proof (rule driver_ok_spawn)
    show "\<forall>pv a. dr_cache (d1 \<lparr> dr_ioc_pvs := (dr_ioc_pvs d1)(addr \<mapsto> found) \<rparr>) pv = Some a \<longrightarrow>
        a = addr \<or> dr_commands (d1 \<lparr> dr_ioc_pvs := (dr_ioc_pvs d1)(addr \<mapsto> found) \<rparr>) a \<noteq> None"
      using r assms unfolding driver_ok_def by simp metis
  qed (use r assms in \<open>simp add: driver_ok_def\<close>)
  then show ?thesis
    unfolding 2(2) by simp
qed (use assms in simp)

lemma map_addr_cancel [simp]: "map et_addr (cancel_task t ts) = map et_addr ts"
  by (auto simp: cancel_task_def map_update intro!: list_update_same_conv[THEN iffD2])

lemma driver_ok_remove: "driver_ok d \<Longrightarrow> driver_ok (remove_session addr d)"
proof -
  assume d: "driver_ok d"
  have c: "dr_commands (remove_session addr d) = (dr_commands d)(addr := None)"
      "dr_cache (remove_session addr d) = (\<lambda>pv. if dr_cache d pv = Some addr then None else dr_cache d pv)"
      "map et_addr (dr_tasks (remove_session addr d)) = map et_addr (dr_tasks d)"
    by (auto simp: remove_session_def Let_def fun_eq_iff split: option.split)
  show ?thesis
  proof -
    have "driver_ok ((remove_session addr d) \<lparr> dr_commands := dr_commands d \<rparr>)"
      by (rule driver_okI[OF d]) (simp_all add: c split: if_splits)
    then show ?thesis
      by (auto simp: driver_ok_def c split: if_splits)
  qed
qed

lemma driver_ok_shutdown: "driver_ok d \<Longrightarrow> driver_ok (shutdown_sessions addrs cancels d)"
proof -
  assume d: "driver_ok d"
  let ?d1 = "fold (\<lambda>addr d. case dr_commands d addr of Some t \<Rightarrow> offer t Shutdown d | None \<Rightarrow> d) addrs d"
  have d1: "driver_ok ?d1"
    using d by (induction addrs arbitrary: d) (simp_all split: option.split)
  have "map et_addr (fold (\<lambda>addr ts. case dr_cancel ?d1 addr of Some t \<Rightarrow> cancel_task t ts | None \<Rightarrow> ts) cancels ts)
      = map et_addr ts" for ts
    by (induction cancels arbitrary: ts) (simp_all split: option.split)
  then show ?thesis
    unfolding shutdown_sessions_def Let_def by (intro driver_okI[OF d1]) simp_all
qed

lemma driver_ok_reachable:
  assumes "driver_step\<^sup>*\<^sup>* (driver_new servers) d"
  shows "driver_ok d"
  using assms
proof (induction rule: rtranclp_induct)
  case (step d d')
  from step(2,3) show ?case
  proof (cases rule: driver_step.cases)
    case step_servers
    then show ?thesis
      using step(3) by (simp add: driver_ok_def set_name_servers_def)
  next
    case step_reconnected
    then show ?thesis
      using step(3) by (auto simp: driver_ok_def install_commands_def)
  qed (auto intro: driver_ok_batch driver_ok_unsubscribe driver_ok_hot_add driver_ok_remove driver_ok_shutdown)
qed (simp add: driver_ok_def driver_new_def)

text \<open>The first mention of each PV of a list, in order.\<close>

definition first_mentions :: "'a list \<Rightarrow> 'a list" where
  "first_mentions xs = rev (remdups (rev xs))"

lemma first_mentions_Cons: "first_mentions (x # xs) = x # filter (\<lambda>y. y \<noteq> x) (first_mentions xs)"
proof -
  have "remdups (ys @ [x]) = filter (\<lambda>y. y \<noteq> x) (remdups ys) @ [x]" for ys
    by (induction ys) auto
  then show ?thesis
    by (simp add: first_mentions_def rev_filter)
qed

lemma first_mentions_simps [simp]: "first_mentions [] = []" "set (first_mentions xs) = set xs"
  by (simp_all add: first_mentions_def)

text \<open>What an unsubscription does when every cached PV has a channel.\<close>

lemma unsubscribe_one_missing: "dr_cache d pv = None \<Longrightarrow> unsubscribe_one pv d = d"
  by (simp add: unsubscribe_one_def)

lemma unsubscribe_one_cached:
  assumes "dr_cache d pv = Some addr" "dr_commands d addr = Some t"
  shows "unsubscribe_one pv d = d \<lparr> dr_cache := (dr_cache d)(pv := None),
    dr_offered := dr_offered d @ [(t, RemoveMonitor pv)],
    dr_ioc_pvs := (dr_ioc_pvs d)(addr := map_option (removeAll pv) (dr_ioc_pvs d addr)) \<rparr>"
  using assms by (simp add: unsubscribe_one_def offer_def)

lemma unsubscribe_run:
  assumes "\<forall>pv addr. dr_cache d pv = Some addr \<longrightarrow> dr_commands d addr = Some (channel pv)"
  shows "dr_offered (unsubscribe pvs d) = dr_offered d @
      map (\<lambda>pv. (channel pv, RemoveMonitor pv)) (filter (\<lambda>pv. dr_cache d pv \<noteq> None) (first_mentions pvs)) \<and>
    dr_cache (unsubscribe pvs d) = (\<lambda>pv. if pv \<in> set pvs then None else dr_cache d pv) \<and>
    dr_ioc_pvs (unsubscribe pvs d) addr =
      map_option (filter (\<lambda>pv. \<not> (pv \<in> set pvs \<and> dr_cache d pv = Some addr))) (dr_ioc_pvs d addr)"
  using assms
proof (induction pvs arbitrary: d)
  case Nil
  show ?case
    by (simp add: unsubscribe_def option.map_ident)
next
  case (Cons p pvs)
  let ?d = "unsubscribe_one p d"
  have step: "unsubscribe (p # pvs) d = unsubscribe pvs ?d"
    by (simp add: unsubscribe_def)
  have fields: "dr_commands ?d = dr_commands d" "dr_cache ?d = (dr_cache d)(p := None)"
    "dr_offered ?d = dr_offered d @ (if dr_cache d p = None then [] else [(channel p, RemoveMonitor p)])"
    using Cons.prems
    by (cases "dr_cache d p"; simp add: unsubscribe_one_missing unsubscribe_one_cached fun_upd_idem; fail)+
  have listed: "dr_ioc_pvs ?d addr =
      map_option (filter (\<lambda>pv. \<not> (pv = p \<and> dr_cache d pv = Some addr))) (dr_ioc_pvs d addr)"
  proof (cases "dr_cache d p = Some addr")
    case True
    then show ?thesis
      using Cons.prems by (auto simp: unsubscribe_one_cached removeAll_filter_not_eq intro!: option.map_cong0 filter_cong)
  next
    case False
    then have "map_option (filter (\<lambda>pv. \<not> (pv = p \<and> dr_cache d pv = Some addr))) x = x" for x
      by (cases x) (auto simp: filter_id_conv)
    then show ?thesis
      using False Cons.prems by (cases "dr_cache d p") (simp_all add: unsubscribe_one_missing unsubscribe_one_cached)
  qed
  have ok: "\<forall>pv addr. dr_cache ?d pv = Some addr \<longrightarrow> dr_commands ?d addr = Some (channel pv)"
    using Cons.prems by (simp add: fields(1,2))
  note IH = Cons.IH[OF ok, THEN conjunct1] Cons.IH[OF ok, THEN conjunct2, THEN conjunct1]
    Cons.IH[OF ok, THEN conjunct2, THEN conjunct2]
  have 1: "dr_offered (unsubscribe (p # pvs) d) = dr_offered d @
      map (\<lambda>pv. (channel pv, RemoveMonitor pv)) (filter (\<lambda>pv. dr_cache d pv \<noteq> None) (first_mentions (p # pvs)))"
    by (simp add: step IH(1) fields first_mentions_Cons cong: conj_cong)
  have 2: "dr_cache (unsubscribe (p # pvs) d) = (\<lambda>pv. if pv \<in> set (p # pvs) then None else dr_cache d pv)"
    by (auto simp: step IH(2) fields)
  have 3: "dr_ioc_pvs (unsubscribe (p # pvs) d) addr =
      map_option (filter (\<lambda>pv. \<not> (pv \<in> set (p # pvs) \<and> dr_cache d pv = Some addr))) (dr_ioc_pvs d addr)"
    by (auto simp: step IH(3) fields listed option.map_comp comp_def intro!: option.map_cong0 filter_cong)
  show ?case
    using 1 2 3 by (intro conjI)
qed

lemma unsubscribe_frame [simp]:
  "dr_commands (unsubscribe pvs d) = dr_commands d" "dr_tasks (unsubscribe pvs d) = dr_tasks d"
proof -
  have "dr_commands (unsubscribe_one pv d) = dr_commands d \<and> dr_tasks (unsubscribe_one pv d) = dr_tasks d" for pv d
    by (simp add: unsubscribe_one_def Let_def offer_def split: option.split)
  then show "dr_commands (unsubscribe pvs d) = dr_commands d" "dr_tasks (unsubscribe pvs d) = dr_tasks d"
    unfolding unsubscribe_def by (induction pvs arbitrary: d) simp_all
qed



section \<open>Reconnecting\<close>

text \<open>The waits of \<open>k\<close> failed attempts in a row.\<close>

definition backoffs :: "nat \<Rightarrow> nat list" where
  "backoffs k = map (\<lambda>i. backoff_secs (of_nat i + 1)) [0..<k]"

lemma backoff_bounds: "5 \<le> backoff_secs n \<and> backoff_secs n \<le> 300"
  by (simp add: backoff_secs_def)

definition failed_round :: "reconnect_round \<Rightarrow> bool" where
  "failed_round rr \<longleftrightarrow> \<not> rr_cancelled rr \<and> \<not> rr_cancelled_waiting rr \<and> rr_subscribed rr \<in> {None, Some 0}"

lemma reconnect_failures:
  assumes "\<forall>rr \<in> set fails. failed_round rr"
  shows "reconnect_loop addr pvs (of_nat j) (fails @ rrs) =
    map RaWait (map (\<lambda>i. backoff_secs (of_nat i + 1)) [j..<j + length fails]) @
    reconnect_loop addr pvs (of_nat (j + length fails)) rrs"
  using assms
proof (induction fails arbitrary: j)
  case (Cons rr fails)
  have "reconnect_loop addr pvs (of_nat j) ((rr # fails) @ rrs) =
      RaWait (backoff_secs (of_nat j + 1)) # reconnect_loop addr pvs (of_nat (Suc j)) (fails @ rrs)"
    using Cons.prems by (auto simp: failed_round_def add.commute)
  also have "\<dots> = RaWait (backoff_secs (of_nat j + 1)) #
      map RaWait (map (\<lambda>i. backoff_secs (of_nat i + 1)) [Suc j..<Suc j + length fails]) @
      reconnect_loop addr pvs (of_nat (Suc j + length fails)) rrs"
    using Cons.IH[of "Suc j"] Cons.prems by simp
  finally show ?case
    by (simp add: upt_conv_Cons add.commute del: upt_Suc)
qed simp

text \<open>C29. A task whose IOC comes back reaches it: after any number of failed attempts, each
  preceded by a wait of 5 to 300 seconds (5, 10, 30, 30, 30, 60, ... then 300), the first
  attempt that subscribes a PV reports the reconnection with all the PVs of the task, then
  the end of that session, and the next wait is the shortest again.\<close>

theorem reconnect_reaches_the_ioc:
  assumes "\<forall>rr \<in> set fails. failed_round rr" and "\<not> rr_cancelled good" "\<not> rr_cancelled_waiting good"
    and "rr_subscribed good = Some n" "0 < n"
  shows "reconnect_loop addr pvs 0 (fails @ good # later) =
      map RaWait (backoffs (Suc (length fails))) @
      [RaEmit (LeReconnected addr pvs), RaEmit (LeDisconnected addr pvs (rr_reason good))] @
      reconnect_loop addr pvs 0 later \<and>
    (\<forall>t \<in> set (backoffs (Suc (length fails))). 5 \<le> t \<and> t \<le> 300) \<and>
    sum_list (backoffs (Suc (length fails))) \<le> 300 * Suc (length fails) \<and> backoffs 6 = [5, 10, 30, 30, 30, 60]"
proof -
  have "reconnect_loop addr pvs (of_nat 0) (fails @ good # later) =
      map RaWait (backoffs (length fails)) @ reconnect_loop addr pvs (of_nat (length fails)) (good # later)"
    using reconnect_failures[OF assms(1), of addr pvs 0 "good # later"] by (simp add: backoffs_def)
  moreover have "backoffs (Suc (length fails)) = backoffs (length fails) @ [backoff_secs (of_nat (length fails) + 1)]"
    by (simp add: backoffs_def)
  moreover have bounds: "\<forall>t \<in> set (backoffs k). 5 \<le> t \<and> t \<le> 300" for k
    using backoff_bounds by (simp add: backoffs_def)
  moreover have total: "sum_list (backoffs k) \<le> 300 * k" for k
    using sum_list_mono[of "[0..<k]" "\<lambda>i. backoff_secs (of_nat i + 1)" "\<lambda>_. 300"] backoff_bounds
    by (simp add: backoffs_def sum_list_triv)
  moreover have "backoffs 6 = [5, 10, 30, 30, 30, 60]"
    by (simp add: backoffs_def backoff_secs_def upt_conv_Cons)
  ultimately show ?thesis
    using assms(2-5) bounds[of "Suc (length fails)"] total[of "Suc (length fails)"] by simp
qed

theorem reconnect_reaches_the_ioc_witness:
  "\<forall>a pvs. reconnect_loop a pvs 0 ([\<lparr> rr_cancelled = False, rr_cancelled_waiting = False, rr_subscribed = None, rr_reason = [] \<rparr>] @
      \<lparr> rr_cancelled = False, rr_cancelled_waiting = False, rr_subscribed = Some 2, rr_reason = [66] \<rparr> # []) =
    [RaWait 5, RaWait 10, RaEmit (LeReconnected a pvs), RaEmit (LeDisconnected a pvs [66])]"
proof (intro allI)
  fix a pvs
  show "reconnect_loop a pvs 0 ([\<lparr> rr_cancelled = False, rr_cancelled_waiting = False, rr_subscribed = None, rr_reason = [] \<rparr>] @
      \<lparr> rr_cancelled = False, rr_cancelled_waiting = False, rr_subscribed = Some 2, rr_reason = [66] \<rparr> # []) =
    [RaWait 5, RaWait 10, RaEmit (LeReconnected a pvs), RaEmit (LeDisconnected a pvs [66])]"
  using reconnect_reaches_the_ioc[where n = 2 and later = "[]" and addr = a and pvs = pvs and
      fails = "[\<lparr> rr_cancelled = False, rr_cancelled_waiting = False, rr_subscribed = None, rr_reason = [] \<rparr>]"
      and good = "\<lparr> rr_cancelled = False, rr_cancelled_waiting = False, rr_subscribed = Some 2, rr_reason = [66] \<rparr>"]
  by (simp add: failed_round_def backoffs_def backoff_secs_def)
qed

section \<open>What a reconnect forgets and what it brings back\<close>

text \<open>A task subscribes again what it was spawned with: neither an unsubscription nor a batch
  added to a running session changes that list.\<close>

lemma reconnect_list_is_frozen:
  "dr_tasks (unsubscribe pvs d) = dr_tasks d"
  "dr_tasks (bt_driver (subscribe_existing w g b)) = dr_tasks (bt_driver b)"
  by (simp_all add: subscribe_existing_def Let_def offer_def split: prod.split option.split)

text \<open>Removing the session of an IOC sends its event loop nothing: the token is looked at only
  once the loop has ended.\<close>

lemma removed_session_keeps_running:
  "dr_offered (remove_session addr d) = dr_offered d"
  by (simp add: remove_session_def Let_def split: option.split)

end
