(* ===== verification/DriverAnswers.thy ===== *)
theory DriverAnswers
  imports DriverFacts
begin

text \<open>
  A batch loses no PV (\<open>monitor_batch\<close> of \<open>aura-net/src/runtime/driver.rs\<close>): when every IOC
  that claims PVs can be connected to and every session answers about all the PVs it is
  asked for, each PV of the batch has a result, whichever IOCs had a running session and
  whichever of those were dead.  The groups of the placement are followed through the two
  passes over the sessions.
\<close>

text \<open>The pairs of a table of groups.\<close>

definition grouped :: "('k \<times> 'v list) list \<Rightarrow> ('k \<times> 'v) set" where
  "grouped gs = {(k, v). \<exists>vs. map_of gs k = Some vs \<and> v \<in> set vs}"

lemma grouped_add: "grouped (group_add k v gs) = insert (k, v) (grouped gs)"
  by (auto simp: grouped_def group_add_def update_conv' split: option.splits if_splits)

lemma distinct_group_add: "distinct (map fst gs) \<Longrightarrow> distinct (map fst (group_add k v gs))"
  by (simp add: group_add_def distinct_update)

lemma grouped_fold:
  "grouped (fold (\<lambda>(pv, addr). group_add addr pv) m gs) = (\<lambda>(pv, addr). (addr, pv)) ` set m \<union> grouped gs"
  by (induction m arbitrary: gs) (auto simp: grouped_add)

lemma distinct_group_fold:
  "distinct (map fst gs) \<Longrightarrow> distinct (map fst (fold (\<lambda>(pv, addr). group_add addr pv) m gs))"
  by (induction m arbitrary: gs) (auto simp: distinct_group_add)

text \<open>An order of iteration visits every key once.\<close>

definition orders_ok :: "hash_order \<Rightarrow> bool" where
  "orders_ok iters \<longleftrightarrow> (\<forall>ks. mset (fst iters ks) = mset ks) \<and> (\<forall>ks. mset (snd iters ks) = mset ks)"

lemma hash_entries_all:
  assumes "distinct (map fst m)" "\<forall>ks. mset (iter ks) = mset ks"
  shows "mset (hash_entries iter m) = mset m" "set (hash_entries iter m) = set m"
    "distinct (map fst (hash_entries iter m))" "map_of (hash_entries iter m) = map_of m"
proof -
  show 1: "mset (hash_entries iter m) = mset m"
    using assms by (intro mset_hash_entries) simp_all
  show 2: "set (hash_entries iter m) = set m"
    using arg_cong[OF 1, of set_mset] by simp
  have "mset (map fst (hash_entries iter m)) = mset (map fst m)"
    using 1 by simp
  then show 3: "distinct (map fst (hash_entries iter m))"
    using assms(1) mset_eq_imp_distinct_iff by blast
  show "map_of (hash_entries iter m) = map_of m"
    using map_of_inject_set[OF 3 assms(1)] 2 by blast
qed

text \<open>Where a group of a batch stands: all its PVs have a result, or the group waits for a
  new session.\<close>

definition answered :: "'e batch \<Rightarrow> socket_addr \<times> rstring list \<Rightarrow> bool" where
  "answered b g \<longleftrightarrow> set (snd g) \<subseteq> fst ` set (bt_results b)"

definition waiting :: "'e batch \<Rightarrow> socket_addr \<times> rstring list \<Rightarrow> bool" where
  "waiting b g \<longleftrightarrow> map_of (bt_new b) (fst g) = Some (snd g)"

text \<open>Sessions that answer about every PV they are asked for, the new ones without fail.\<close>

definition answers_all :: "'e ioc_world \<Rightarrow> bool" where
  "answers_all w \<longleftrightarrow>
    (\<forall>addr pvs. case iw_batch w addr pvs of None \<Rightarrow> True | Some as \<Rightarrow> set pvs \<subseteq> fst ` set as) \<and>
    (\<forall>addr pvs. case iw_subscribe w addr pvs of None \<Rightarrow> False | Some as \<Rightarrow> set pvs \<subseteq> fst ` set as)"

lemma names_of_driver_results [simp]: "fst ` set (as_driver_results answers) = fst ` set answers"
  by (force simp: as_driver_results_def)

lemma existing_commands [simp]:
  "dr_commands (bt_driver (subscribe_existing w g b)) = dr_commands (bt_driver b)"
  by (simp add: subscribe_existing_def Let_def offer_def split: prod.split option.split)

lemma existing_serves:
  assumes "answers_all w" "dr_commands (bt_driver b) (fst g) \<noteq> None"
  shows "answered (subscribe_existing w g b) g \<or> waiting (subscribe_existing w g b) g"
proof -
  obtain addr pvs t where g: "g = (addr, pvs)" and t: "dr_commands (bt_driver b) addr = Some t"
    using assms(2) by (cases g) auto
  show ?thesis
  proof (cases "iw_batch w addr pvs")
    case (Some answers)
    then have "set pvs \<subseteq> fst ` set answers"
      using assms(1) by (auto simp: answers_all_def split: option.splits dest: spec)
    then show ?thesis
      using Some t g by (auto simp: subscribe_existing_def answered_def Let_def image_Un)
  qed (use t g in \<open>simp add: subscribe_existing_def waiting_def Let_def update_conv'\<close>)
qed

lemma existing_keeps:
  assumes "answered b h \<or> waiting b h" "fst g = fst h \<longrightarrow> g = h"
  shows "answered (subscribe_existing w g b) h \<or> waiting (subscribe_existing w g b) h"
  using assms
  by (cases g; cases h)
    (auto simp: subscribe_existing_def answered_def waiting_def Let_def image_Un update_conv'
      split: option.split)

lemma existing_all_served:
  assumes "answers_all w" "distinct (map fst gs)" "\<forall>g \<in> set gs. dr_commands (bt_driver b) (fst g) \<noteq> None"
    "\<forall>h \<in> set hs. answered b h \<or> waiting b h" "distinct (map fst (gs @ hs))" "g \<in> set (gs @ hs)"
  shows "answered (fold (subscribe_existing w) gs b) g \<or> waiting (fold (subscribe_existing w) gs b) g"
  using assms(2-)
proof (induction gs arbitrary: b hs)
  case (Cons g1 gs)
  let ?b = "subscribe_existing w g1 b"
  have one: "answered ?b g1 \<or> waiting ?b g1"
    using existing_serves[OF assms(1)] Cons.prems(2) by simp
  have "answered ?b h \<or> waiting ?b h" if "h \<in> set hs" for h
    using that Cons.prems(3,4) by (intro existing_keeps) (auto simp: image_iff)
  with one have "\<forall>h \<in> set (g1 # hs). answered ?b h \<or> waiting ?b h"
    by simp
  moreover have "distinct (map fst (gs @ (g1 # hs)))" "distinct (map fst gs)"
    using Cons.prems(1,4) by auto
  ultimately show ?case
    using Cons.IH[of ?b "g1 # hs"] Cons.prems(2,5) by auto
qed simp

lemma existing_new_distinct:
  "distinct (map fst (bt_new b)) \<Longrightarrow> distinct (map fst (bt_new (fold (subscribe_existing w) gs b)))"
proof (induction gs arbitrary: b)
  case (Cons g gs)
  then have "distinct (map fst (bt_new (subscribe_existing w g b)))"
    by (cases g) (simp add: subscribe_existing_def Let_def distinct_update split: option.split)
  then show ?case
    using Cons.IH by simp
qed simp

lemma new_keeps: "answered b h \<Longrightarrow> answered (subscribe_new w g b) h"
  by (cases g) (auto simp: subscribe_new_def answered_def Let_def image_Un split: option.split)

lemma new_serves:
  assumes "answers_all w"
  shows "answered (subscribe_new w g b) g"
proof -
  obtain addr pvs where g: "g = (addr, pvs)"
    by (cases g)
  obtain answers where "iw_subscribe w addr pvs = Some answers" "set pvs \<subseteq> fst ` set answers"
    using assms unfolding answers_all_def by (metis (no_types, lifting) option.case_eq_if option.exhaust_sel)
  then show ?thesis
    using g by (auto simp: subscribe_new_def answered_def Let_def image_Un)
qed

lemma new_all_served:
  assumes "answers_all w" "answered b g \<or> g \<in> set gs"
  shows "answered (fold (subscribe_new w) gs b) g"
  using assms(2)
proof (induction gs arbitrary: b)
  case (Cons g1 gs)
  then show ?case
    using new_keeps[of b g w g1] new_serves[OF assms(1), of g1 b] by auto
qed simp

lemma placed_answered:
  assumes "answers_all w" "orders_ok iters" "distinct (map fst m)"
  shows "fst ` set m \<subseteq> fst ` set (bt_results (subscribe_placed iters w m d))"
proof
  fix pv assume "pv \<in> fst ` set m"
  then obtain addr where mem: "(pv, addr) \<in> set m"
    by auto
  let ?by = "group_by_server iters m"
  let ?groups = "hash_entries (snd iters) ?by"
  let ?running = "\<lambda>(addr, _). dr_commands d addr \<noteq> None"
  let ?run = "hash_entries (snd iters) (filter ?running ?groups)"
  let ?new = "filter (\<lambda>g. \<not> ?running g) ?groups"
  let ?start = "\<lparr> bt_driver = d, bt_results = [], bt_new = ?new \<rparr> :: 'a batch"
  let ?b = "fold (subscribe_existing w) ?run ?start"
  have orders: "\<forall>ks. mset (fst iters ks) = mset ks" "\<forall>ks. mset (snd iters ks) = mset ks"
    using assms(2) by (simp_all add: orders_ok_def)
  note pvs_order = hash_entries_all[OF assms(3) orders(1)]
  have d1: "distinct (map fst ?by)"
    unfolding group_by_server_def by (rule distinct_group_fold) simp
  have "(addr, pv) \<in> grouped ?by"
    using mem pvs_order(2) unfolding group_by_server_def grouped_fold by force
  note d2 = hash_entries_all[OF d1 orders(2)]
  from \<open>(addr, pv) \<in> grouped ?by\<close> obtain vs where vs: "(addr, vs) \<in> set ?groups" "pv \<in> set vs"
    using d2(2) by (auto simp: grouped_def dest: map_of_SomeD)
  have dfilter: "distinct (map fst (filter P ?groups))" for P
    using d2(3) by (simp add: distinct_map_filter)
  note d3 = hash_entries_all[OF dfilter orders(2), of ?running]
  have new_waits: "\<forall>h \<in> set ?new. answered ?start h \<or> waiting ?start h"
    using dfilter[of "\<lambda>g. \<not> ?running g"] by (auto simp: waiting_def)
  have "fst ` set (filter ?running ?groups) \<inter> fst ` set ?new = {}"
    by auto
  then have apart: "distinct (map fst (?run @ ?new))"
    using d3(2,3) dfilter[of "\<lambda>g. \<not> ?running g"] by simp
  have running: "\<forall>g \<in> set ?run. dr_commands (bt_driver ?start) (fst g) \<noteq> None"
    unfolding d3(2) by auto
  have "(addr, vs) \<in> set (?run @ ?new)"
    using vs(1) d3(2) by auto
  from existing_all_served[OF assms(1) d3(3) running new_waits apart this]
  have served: "answered ?b (addr, vs) \<or> waiting ?b (addr, vs)" .
  have "distinct (map fst (bt_new ?b))"
    by (rule existing_new_distinct) (use dfilter in simp)
  note d4 = hash_entries_all[OF this orders(2)]
  have "answered ?b (addr, vs) \<or> (addr, vs) \<in> set (hash_entries (snd iters) (bt_new ?b))"
    using served unfolding waiting_def d4(2) by (auto dest: map_of_SomeD)
  from new_all_served[OF assms(1) this]
  show "pv \<in> fst ` set (bt_results (subscribe_placed iters w m d))"
    using vs(2) by (auto simp: answered_def subscribe_placed_def Let_def)
qed

lemma distinct_claim: "distinct (map fst m) \<Longrightarrow> distinct (map fst (claim a m))"
proof -
  have "distinct (map fst m) \<Longrightarrow>
      distinct (map fst (fold (\<lambda>pv m. if map_of m pv = None then m @ [(pv, x)] else m) pvs m))" for pvs x
    by (induction pvs arbitrary: m) (auto simp: map_of_eq_None_iff)
  then show "distinct (map fst m) \<Longrightarrow> distinct (map fst (claim a m))"
    by (simp add: claim_def)
qed

lemma distinct_claims: "distinct (map fst m) \<Longrightarrow> distinct (map fst (fold claim as m))"
  by (induction as arbitrary: m) (simp_all add: distinct_claim)

lemma distinct_place: "distinct (map fst (place w servers pvs))"
  by (simp add: place_def search_round2_def search_round1_def distinct_claims)

text \<open>C7. When every session answers about all the PVs it is asked for and new sessions can
  be opened, every PV of a batch has a result: a PV whose IOC had a running session that
  turned out dead is subscribed on a new one, and one that no server claimed is reported
  as not found.\<close>

theorem monitor_batch_answers_every_pv:
  assumes "answers_all w" "orders_ok iters" "pv \<in> set pvs"
  shows "pv \<in> fst ` set (fst (monitor_batch iters w pvs d))"
proof (cases "dr_name_servers d = []")
  case False
  let ?m = "place w (dr_name_servers d) pvs"
  have results: "fst (monitor_batch iters w pvs d) =
      bt_results (subscribe_placed iters w ?m (d \<lparr> dr_failed := unfound ?m pvs \<rparr>)) @ not_found_results ?m pvs"
    using False by (simp add: monitor_batch_def Let_def)
  show ?thesis
  proof (cases "map_of ?m pv")
    case None
    then show ?thesis
      unfolding results using assms(3) by (force simp: not_found_results_def unfound_def)
  next
    case (Some addr)
    then have "pv \<in> fst ` set ?m"
      by (metis image_eqI fst_conv map_of_SomeD)
    from subsetD[OF placed_answered[OF assms(1,2) distinct_place] this]
    show ?thesis
      unfolding results by (simp add: image_Un)
  qed
qed (use assms(3) in \<open>simp add: monitor_batch_def image_image\<close>)

text \<open>One server with a task that no longer answers.\<close>

theorem monitor_batch_answers_every_pv_witness:
  "let srv = \<lparr> sa_ip = IpV4 7, sa_port = 5075 \<rparr>;
       w = \<lparr> iw_search1 = (\<lambda>_ pvs. pvs), iw_search2 = (\<lambda>_ _. []), iw_batch = (\<lambda>_ _. None),
             iw_subscribe = (\<lambda>_ pvs. Some (map (\<lambda>pv. (pv, Err ())) pvs)) \<rparr> :: unit ioc_world
   in [65] \<in> fst ` set (fst (monitor_batch (rev, rev) w [[65], [66]] (spawn_event_loop srv (driver_new [srv]))))"
  unfolding Let_def
  by (rule monitor_batch_answers_every_pv)
    (auto simp: answers_all_def orders_ok_def image_image)

end
