(* ===== verification/CopyRows.thy ===== *)
theory CopyRows
  imports Prelude "HOL-Library.Signed_Division"
begin

text \<open>
  The rows of the archive tables and their binary COPY form
  (\<open>aura-store/src/writer/copy_pool.rs\<close>, \<open>scalar.rs\<close>, \<open>string.rs\<close>, \<open>array.rs\<close>, and
  \<open>StoreReason\<close> of \<open>aura-core/src/sample.rs\<close>).  Times of the calendar library are values of
  a type \<open>'dt\<close>; what the rows use of it is the argument \<open>micros\<close> (\<open>timestamp_micros\<close>) or a
  \<open>calendar\<close>.  Integer arithmetic wraps, as in a release build.  The second half states the
  COPY format as its documentation does (a header, tuples of length-prefixed fields, a
  trailer) with a parser, and shows that the payloads the writers build are exactly the
  rows.
\<close>

section \<open>Constants and results\<close>

definition PGCOPY_HEADER :: bytes where
  "PGCOPY_HEADER = ascii ''PGCOPY'' @ [10, 0xFF, 13, 10, 0, 0, 0, 0, 0, 0, 0, 0, 0]"

definition PGCOPY_TRAILER :: bytes where "PGCOPY_TRAILER = [0xFF, 0xFF]"

definition PG_EPOCH_OFFSET_US :: "64 word" where "PG_EPOCH_OFFSET_US = 946684800 * 1000000"

datatype PushResult = Accepted | Full | BackpressureExceeded

fun needs_flush :: "PushResult \<Rightarrow> bool" where
  "needs_flush Accepted = False" | "needs_flush _ = True"

fun is_accepted :: "PushResult \<Rightarrow> bool" where
  "is_accepted BackpressureExceeded = False" | "is_accepted _ = True"

datatype StoreReason =
    SrValueChanged | SrHeartbeat | SrInitial | SrDisconnected | SrReconnected | SrAlarmChange
  | SrArrayChanged | SrTableChanged | SrImageFrame | SrCustomChanged | SrTimeout

definition reason_all :: "StoreReason list" where
  "reason_all = [SrValueChanged, SrHeartbeat, SrInitial, SrDisconnected, SrReconnected,
     SrAlarmChange, SrArrayChanged, SrTableChanged, SrImageFrame, SrCustomChanged, SrTimeout]"

text \<open>\<open>reason as i16\<close>.\<close>

fun reason_i16 :: "StoreReason \<Rightarrow> 16 word" where
  "reason_i16 SrValueChanged = 0" | "reason_i16 SrHeartbeat = 1" | "reason_i16 SrInitial = 2"
| "reason_i16 SrDisconnected = 3" | "reason_i16 SrReconnected = 4" | "reason_i16 SrAlarmChange = 5"
| "reason_i16 SrArrayChanged = 6" | "reason_i16 SrTableChanged = 7" | "reason_i16 SrImageFrame = 8"
| "reason_i16 SrCustomChanged = 9" | "reason_i16 SrTimeout = 10"

definition reason_is_connectivity :: "StoreReason \<Rightarrow> bool" where
  "reason_is_connectivity r = (r \<in> {SrDisconnected, SrReconnected, SrInitial, SrTimeout})"

definition reason_is_value_change :: "StoreReason \<Rightarrow> bool" where
  "reason_is_value_change r =
    (r \<in> {SrValueChanged, SrArrayChanged, SrTableChanged, SrImageFrame, SrCustomChanged})"

text \<open>The calendar: \<open>DateTime::from_timestamp\<close>, its default, and \<open>timestamp_micros\<close>.\<close>

record 'dt calendar =
  cal_from_timestamp :: "64 word \<Rightarrow> 32 word \<Rightarrow> 'dt option"
  cal_default :: 'dt
  cal_micros :: "'dt \<Rightarrow> 64 word"

definition cal_at :: "'dt calendar \<Rightarrow> 64 word \<Rightarrow> 32 word \<Rightarrow> 'dt" where
  "cal_at cal s ns = (case cal_from_timestamp cal s ns of Some t \<Rightarrow> t | None \<Rightarrow> cal_default cal)"

definition pg_micros :: "'dt calendar \<Rightarrow> 'dt \<Rightarrow> 64 word" where
  "pg_micros cal t = cal_micros cal t - PG_EPOCH_OFFSET_US"

section \<open>Scalar rows\<close>

record scalar_row =
  sr_pg_us :: "64 word"
  sr_pv_id :: "32 word"
  sr_value :: f64bits
  sr_severity :: "16 word"
  sr_status :: "16 word"
  sr_reason :: "16 word"

definition scalar_from_parts ::
  "64 word \<Rightarrow> 32 word \<Rightarrow> f64bits \<Rightarrow> 16 word \<Rightarrow> 16 word \<Rightarrow> StoreReason \<Rightarrow> scalar_row" where
  "scalar_from_parts us pv v sev st r =
    \<lparr> sr_pg_us = us, sr_pv_id = pv, sr_value = v, sr_severity = sev, sr_status = st,
      sr_reason = reason_i16 r \<rparr>"

definition scalar_row_new ::
  "'dt calendar \<Rightarrow> 'dt \<Rightarrow> 32 word \<Rightarrow> f64bits \<Rightarrow> 16 word \<Rightarrow> 16 word \<Rightarrow> StoreReason \<Rightarrow> scalar_row" where
  "scalar_row_new cal t pv v sev st r =
    \<lparr> sr_pg_us = pg_micros cal t, sr_pv_id = pv, sr_value = v, sr_severity = sev, sr_status = st,
      sr_reason = reason_i16 r \<rparr>"

definition scalar_from_epoch ::
  "64 word \<Rightarrow> 32 word \<Rightarrow> 32 word \<Rightarrow> f64bits \<Rightarrow> 16 word \<Rightarrow> 16 word \<Rightarrow> StoreReason \<Rightarrow> scalar_row" where
  "scalar_from_epoch seconds nanos pv v sev st r =
    \<lparr> sr_pg_us = seconds * 1000000 + word_of_int (sint nanos sdiv 1000) - PG_EPOCH_OFFSET_US, sr_pv_id = pv,
      sr_value = v, sr_severity = sev, sr_status = st, sr_reason = reason_i16 r \<rparr>"

definition has_non_finite :: "scalar_row \<Rightarrow> bool" where
  "has_non_finite row \<longleftrightarrow> drop_bit 52 (sr_value row) AND 0x7FF = 0x7FF"

definition ROW_MEM_SIZE :: nat where "ROW_MEM_SIZE = 32"

definition WIRE_ROW_SIZE :: nat where "WIRE_ROW_SIZE = 52"

text \<open>\<open>out[off..off + len].copy_from_slice(bs)\<close>.\<close>

definition splice :: "nat \<Rightarrow> bytes \<Rightarrow> bytes \<Rightarrow> bytes" where
  "splice off bs out = take off out @ bs @ drop (off + length bs) out"

definition scalar_template :: bytes where
  "scalar_template =
    (replicate 52 0)[1 := 6, 5 := 8, 17 := 4, 25 := 8, 37 := 2, 43 := 2, 49 := 2]"

definition scalar_encode_copy :: "scalar_row \<Rightarrow> bytes" where
  "scalar_encode_copy row =
    splice 50 (be_bytes 2 (sr_reason row))
    (splice 44 (be_bytes 2 (sr_status row))
    (splice 38 (be_bytes 2 (sr_severity row))
    (splice 26 (be_bytes 8 (sr_value row))
    (splice 18 (be_bytes 4 (sr_pv_id row))
    (splice 6 (be_bytes 8 (sr_pg_us row)) scalar_template)))))"

primrec scalar_copy_rows :: "scalar_row list \<Rightarrow> nat \<Rightarrow> bytes \<Rightarrow> nat \<times> bytes" where
  "scalar_copy_rows [] off buf = (off, buf)"
| "scalar_copy_rows (row # rows) off buf =
    scalar_copy_rows rows (off + WIRE_ROW_SIZE) (splice off (scalar_encode_copy row) buf)"

text \<open>The buffer is resized to its final length, then filled in place.\<close>

definition scalar_build_copy :: "scalar_row list \<Rightarrow> bytes" where
  "scalar_build_copy rows =
    (let n = length PGCOPY_HEADER + length rows * WIRE_ROW_SIZE + length PGCOPY_TRAILER;
         buf = splice 0 PGCOPY_HEADER (replicate n 0);
         (off, buf) = scalar_copy_rows rows (length PGCOPY_HEADER) buf
     in splice off PGCOPY_TRAILER buf)"

section \<open>String rows\<close>

record 'dt string_row =
  st_time :: 'dt
  st_pv_id :: "32 word"
  st_value :: rstring
  st_severity :: "16 word"
  st_status :: "16 word"

definition string_row_new ::
  "'dt \<Rightarrow> 32 word \<Rightarrow> rstring \<Rightarrow> 16 word \<Rightarrow> 16 word \<Rightarrow> 'dt string_row" where
  "string_row_new t pv v sev st =
    \<lparr> st_time = t, st_pv_id = pv, st_value = v, st_severity = sev, st_status = st \<rparr>"

definition string_from_epoch ::
  "'dt calendar \<Rightarrow> 64 word \<Rightarrow> 32 word \<Rightarrow> 32 word \<Rightarrow> rstring \<Rightarrow> 16 word \<Rightarrow> 16 word \<Rightarrow> 'dt string_row" where
  "string_from_epoch cal seconds nanos pv v sev st =
    \<lparr> st_time = cal_at cal seconds nanos, st_pv_id = pv, st_value = v, st_severity = sev,
      st_status = st \<rparr>"

definition string_mem_size :: "'dt string_row \<Rightarrow> nat" where
  "string_mem_size row = 40 + length (st_value row)"

definition string_wire_size :: "'dt string_row \<Rightarrow> nat" where
  "string_wire_size row = 38 + length (st_value row)"

abbreviation be_i32 :: "nat \<Rightarrow> bytes" where "be_i32 n \<equiv> be_bytes 4 (of_nat n :: 32 word)"
abbreviation be_i16 :: "nat \<Rightarrow> bytes" where "be_i16 n \<equiv> be_bytes 2 (of_nat n :: 16 word)"

definition string_encode_copy :: "'dt calendar \<Rightarrow> 'dt string_row \<Rightarrow> bytes" where
  "string_encode_copy cal row =
    be_i16 5 @
    be_i32 8 @ be_bytes 8 (pg_micros cal (st_time row)) @
    be_i32 4 @ be_bytes 4 (st_pv_id row) @
    be_i32 (length (st_value row)) @ st_value row @
    be_i32 2 @ be_bytes 2 (st_severity row) @
    be_i32 2 @ be_bytes 2 (st_status row)"

definition string_build_copy :: "'dt calendar \<Rightarrow> 'dt string_row list \<Rightarrow> bytes" where
  "string_build_copy cal rows =
    PGCOPY_HEADER @ concat (map (string_encode_copy cal) rows) @ PGCOPY_TRAILER"

section \<open>Array rows\<close>

record array_num_row =
  an_pg_us :: "64 word"
  an_pv_id :: "32 word"
  an_array_id :: "64 word"
  an_idx :: "32 word"
  an_value :: f64bits
  an_severity :: "16 word"
  an_status :: "16 word"

record array_str_row =
  as_pg_us :: "64 word"
  as_pv_id :: "32 word"
  as_array_id :: "64 word"
  as_idx :: "32 word"
  as_value :: rstring
  as_severity :: "16 word"
  as_status :: "16 word"

definition NUM_WIRE_SIZE :: nat where "NUM_WIRE_SIZE = 66"

definition STR_WIRE_BASE :: nat where "STR_WIRE_BASE = 58"

definition array_template :: bytes where
  "array_template =
    (replicate 66 0)[1 := 7, 5 := 8, 17 := 4, 25 := 8, 37 := 4, 45 := 8, 57 := 2, 63 := 2]"

definition array_num_encode :: "array_num_row \<Rightarrow> bytes" where
  "array_num_encode row =
    splice 64 (be_bytes 2 (an_status row))
    (splice 58 (be_bytes 2 (an_severity row))
    (splice 46 (be_bytes 8 (an_value row))
    (splice 38 (be_bytes 4 (an_idx row))
    (splice 26 (be_bytes 8 (an_array_id row))
    (splice 18 (be_bytes 4 (an_pv_id row))
    (splice 6 (be_bytes 8 (an_pg_us row)) array_template))))))"

definition array_str_wire_size :: "array_str_row \<Rightarrow> nat" where
  "array_str_wire_size row = STR_WIRE_BASE + length (as_value row)"

definition array_str_encode :: "array_str_row \<Rightarrow> bytes" where
  "array_str_encode row =
    be_i16 7 @
    be_i32 8 @ be_bytes 8 (as_pg_us row) @
    be_i32 4 @ be_bytes 4 (as_pv_id row) @
    be_i32 8 @ be_bytes 8 (as_array_id row) @
    be_i32 4 @ be_bytes 4 (as_idx row) @
    be_i32 (length (as_value row)) @ as_value row @
    be_i32 2 @ be_bytes 2 (as_severity row) @
    be_i32 2 @ be_bytes 2 (as_status row)"

definition array_num_build :: "array_num_row list \<Rightarrow> bytes" where
  "array_num_build rows = PGCOPY_HEADER @ concat (map array_num_encode rows) @ PGCOPY_TRAILER"

definition array_str_build :: "array_str_row list \<Rightarrow> bytes" where
  "array_str_build rows = PGCOPY_HEADER @ concat (map array_str_encode rows) @ PGCOPY_TRAILER"

datatype ArrayData = AdNumeric "f64bits list" | AdString "rstring list"

record 'dt array_capture =
  ac_time :: 'dt
  ac_pv_id :: "32 word"
  ac_severity16 :: "16 word"
  ac_status16 :: "16 word"
  ac_data :: ArrayData

fun array_data_len :: "ArrayData \<Rightarrow> nat" where
  "array_data_len (AdNumeric v) = length v"
| "array_data_len (AdString v) = length v"

definition capture_len :: "'dt array_capture \<Rightarrow> nat" where
  "capture_len c = array_data_len (ac_data c)"

section \<open>The COPY format\<close>

text \<open>A field is its length and its bytes, a tuple the number of its fields and the
  fields.\<close>

definition pg_field :: "bytes \<Rightarrow> bytes" where
  "pg_field bs = be_i32 (length bs) @ bs"

definition pg_tuple :: "bytes list \<Rightarrow> bytes" where
  "pg_tuple fs = be_i16 (length fs) @ concat (map pg_field fs)"

definition pg_copy :: "bytes list list \<Rightarrow> bytes" where
  "pg_copy rows = PGCOPY_HEADER @ concat (map pg_tuple rows) @ PGCOPY_TRAILER"

primrec pg_fields :: "nat \<Rightarrow> bytes \<Rightarrow> (bytes list \<times> bytes) option" where
  "pg_fields 0 bs = Some ([], bs)"
| "pg_fields (Suc n) bs =
    (if length bs < 4 then None
     else
       let k = unat (from_be_bytes (take 4 bs) :: 32 word); r = drop 4 bs in
       if length r < k then None
       else map_option (\<lambda>(fs, r'). (take k r # fs, r')) (pg_fields n (drop k r)))"

lemma pg_fields_shrink: "pg_fields n bs = Some (fs, r) \<Longrightarrow> length r \<le> length bs"
  by (induction n arbitrary: bs fs) (fastforce simp: Let_def split: if_splits)+

function pg_tuples :: "bytes \<Rightarrow> bytes list list option" where
  "pg_tuples bs =
    (if length bs < 2 then None
     else if take 2 bs = PGCOPY_TRAILER then (if drop 2 bs = [] then Some [] else None)
     else
       (case pg_fields (unat (from_be_bytes (take 2 bs) :: 16 word)) (drop 2 bs) of
          None \<Rightarrow> None
        | Some (fs, r) \<Rightarrow> map_option ((#) fs) (pg_tuples r)))"
  by pat_completeness auto
termination by (relation "measure length") (auto dest!: pg_fields_shrink)

declare pg_tuples.simps [simp del]

definition pg_parse :: "bytes \<Rightarrow> bytes list list option" where
  "pg_parse bs =
    (if take 19 bs = PGCOPY_HEADER then pg_tuples (drop 19 bs) else None)"

section \<open>The columns of a row\<close>

definition scalar_columns :: "scalar_row \<Rightarrow> bytes list" where
  "scalar_columns row = [be_bytes 8 (sr_pg_us row), be_bytes 4 (sr_pv_id row), be_bytes 8 (sr_value row),
     be_bytes 2 (sr_severity row), be_bytes 2 (sr_status row), be_bytes 2 (sr_reason row)]"

definition string_columns :: "'dt calendar \<Rightarrow> 'dt string_row \<Rightarrow> bytes list" where
  "string_columns cal row = [be_bytes 8 (pg_micros cal (st_time row)), be_bytes 4 (st_pv_id row),
     st_value row, be_bytes 2 (st_severity row), be_bytes 2 (st_status row)]"

definition array_num_columns :: "array_num_row \<Rightarrow> bytes list" where
  "array_num_columns row = [be_bytes 8 (an_pg_us row), be_bytes 4 (an_pv_id row),
     be_bytes 8 (an_array_id row), be_bytes 4 (an_idx row), be_bytes 8 (an_value row),
     be_bytes 2 (an_severity row), be_bytes 2 (an_status row)]"

definition array_str_columns :: "array_str_row \<Rightarrow> bytes list" where
  "array_str_columns row = [be_bytes 8 (as_pg_us row), be_bytes 4 (as_pv_id row),
     be_bytes 8 (as_array_id row), be_bytes 4 (as_idx row), as_value row,
     be_bytes 2 (as_severity row), be_bytes 2 (as_status row)]"

section \<open>Reading a tuple back\<close>

lemma length_pg_field [simp]: "length (pg_field bs) = 4 + length bs"
  by (simp add: pg_field_def)

lemma be_i32_length:
  assumes "n < 2 ^ 31"
  shows "unat (from_be_bytes (be_i32 n) :: 32 word) = n"
  using assms by (simp add: unat_of_nat)

lemma pg_fields_append:
  assumes "\<forall>f \<in> set fs. length f < 2 ^ 31"
  shows "pg_fields (length fs) (concat (map pg_field fs) @ r) = Some (fs, r)"
  using assms
proof (induction fs)
  case (Cons f fs)
  then show ?case
    using be_i32_length[of "length f"] by (simp add: pg_field_def Let_def)
qed simp

lemma pg_tuples_append:
  assumes "length fs < 2 ^ 15" "\<forall>f \<in> set fs. length f < 2 ^ 31"
  shows "pg_tuples (pg_tuple fs @ r) = map_option ((#) fs) (pg_tuples r)"
proof -
  have n: "unat (from_be_bytes (be_i16 (length fs)) :: 16 word) = length fs"
    using assms(1) by (simp add: unat_of_nat)
  have "be_i16 (length fs) \<noteq> PGCOPY_TRAILER"
  proof
    assume "be_i16 (length fs) = PGCOPY_TRAILER"
    then have "unat (from_be_bytes PGCOPY_TRAILER :: 16 word) = length fs"
      using n by simp
    then show False
      using assms(1) by (simp add: PGCOPY_TRAILER_def from_be_bytes_def from_le_bytes_def)
  qed
  then show ?thesis
    using n pg_fields_append[OF assms(2)] by (subst pg_tuples.simps) (simp add: pg_tuple_def)
qed

definition columns_ok :: "bytes list \<Rightarrow> bool" where
  "columns_ok fs \<longleftrightarrow> length fs < 2 ^ 15 \<and> (\<forall>f \<in> set fs. length f < 2 ^ 31)"

lemma pg_parse_copy:
  assumes "\<forall>fs \<in> set rows. columns_ok fs"
  shows "pg_parse (pg_copy rows) = Some rows"
proof -
  have "pg_tuples (concat (map pg_tuple rows) @ PGCOPY_TRAILER) = Some rows"
    using assms
  proof (induction rows)
    case Nil
    then show ?case
      by (subst pg_tuples.simps) (simp add: PGCOPY_TRAILER_def)
  next
    case (Cons fs rows)
    then show ?case
      by (simp add: pg_tuples_append columns_ok_def)
  qed
  then show ?thesis
    by (simp add: pg_parse_def pg_copy_def PGCOPY_HEADER_def ascii_def)
qed

section \<open>The writers' payloads\<close>

lemma be_consts:
  "be_bytes 4 (2 :: 32 word) = [0, 0, 0, 2]" "be_bytes 4 (4 :: 32 word) = [0, 0, 0, 4]"
  "be_bytes 4 (8 :: 32 word) = [0, 0, 0, 8]"
  "be_bytes 2 (5 :: 16 word) = [0, 5]" "be_bytes 2 (6 :: 16 word) = [0, 6]" "be_bytes 2 (7 :: 16 word) = [0, 7]"
  by (simp_all add: be_bytes_def le_bytes_def)

lemma scalar_template_split:
  "scalar_template = [0, 6, 0, 0, 0, 8] @ replicate 8 0 @ [0, 0, 0, 4] @ replicate 4 0 @ [0, 0, 0, 8] @
     replicate 8 0 @ [0, 0, 0, 2] @ replicate 2 0 @ [0, 0, 0, 2] @ replicate 2 0 @ [0, 0, 0, 2] @ replicate 2 0"
  by (simp add: scalar_template_def numeral_eq_Suc)

lemma array_template_split:
  "array_template = [0, 7, 0, 0, 0, 8] @ replicate 8 0 @ [0, 0, 0, 4] @ replicate 4 0 @ [0, 0, 0, 8] @
     replicate 8 0 @ [0, 0, 0, 4] @ replicate 4 0 @ [0, 0, 0, 8] @ replicate 8 0 @ [0, 0, 0, 2] @
     replicate 2 0 @ [0, 0, 0, 2] @ replicate 2 0"
  by (simp add: array_template_def numeral_eq_Suc)

lemma scalar_encode_tuple: "scalar_encode_copy row = pg_tuple (scalar_columns row)"
proof -
  have "length a1 = 8 \<Longrightarrow> length a2 = 4 \<Longrightarrow> length a3 = 8 \<Longrightarrow> length a4 = 2 \<Longrightarrow> length a5 = 2 \<Longrightarrow> length a6 = 2 \<Longrightarrow>
    splice 50 a6 (splice 44 a5 (splice 38 a4 (splice 26 a3 (splice 18 a2 (splice 6 a1 scalar_template))))) =
    [0, 6, 0, 0, 0, 8] @ a1 @ [0, 0, 0, 4] @ a2 @ [0, 0, 0, 8] @ a3 @ [0, 0, 0, 2] @ a4 @
    [0, 0, 0, 2] @ a5 @ [0, 0, 0, 2] @ a6" for a1 a2 a3 a4 a5 a6
    by (simp add: scalar_template_split splice_def)
  then show ?thesis
    by (simp add: scalar_encode_copy_def pg_tuple_def scalar_columns_def pg_field_def be_consts)
qed

lemma array_num_encode_tuple: "array_num_encode row = pg_tuple (array_num_columns row)"
proof -
  have "length a1 = 8 \<Longrightarrow> length a2 = 4 \<Longrightarrow> length a3 = 8 \<Longrightarrow> length a4 = 4 \<Longrightarrow> length a5 = 8 \<Longrightarrow> length a6 = 2 \<Longrightarrow>
    length a7 = 2 \<Longrightarrow>
    splice 64 a7 (splice 58 a6 (splice 46 a5 (splice 38 a4 (splice 26 a3 (splice 18 a2 (splice 6 a1
      array_template)))))) =
    [0, 7, 0, 0, 0, 8] @ a1 @ [0, 0, 0, 4] @ a2 @ [0, 0, 0, 8] @ a3 @ [0, 0, 0, 4] @ a4 @
    [0, 0, 0, 8] @ a5 @ [0, 0, 0, 2] @ a6 @ [0, 0, 0, 2] @ a7" for a1 a2 a3 a4 a5 a6 a7
    by (simp add: array_template_split splice_def)
  then show ?thesis
    by (simp add: array_num_encode_def pg_tuple_def array_num_columns_def pg_field_def be_consts)
qed

lemma string_encode_tuple: "string_encode_copy cal row = pg_tuple (string_columns cal row)"
  by (simp add: string_encode_copy_def pg_tuple_def string_columns_def pg_field_def)

lemma array_str_encode_tuple: "array_str_encode row = pg_tuple (array_str_columns row)"
  by (simp add: array_str_encode_def pg_tuple_def array_str_columns_def pg_field_def)

lemmas encode_tuples = ext[OF scalar_encode_tuple] ext[OF array_num_encode_tuple]
  ext[OF string_encode_tuple] ext[OF array_str_encode_tuple]

lemma length_scalar_encode [simp]: "length (scalar_encode_copy row) = WIRE_ROW_SIZE"
  by (simp add: scalar_encode_tuple pg_tuple_def scalar_columns_def WIRE_ROW_SIZE_def)

lemma scalar_copy_rows_fill:
  assumes "length pre = off" "length gap = length rows * WIRE_ROW_SIZE"
  shows "scalar_copy_rows rows off (pre @ gap @ post) =
    (off + length rows * WIRE_ROW_SIZE, pre @ concat (map scalar_encode_copy rows) @ post)"
  using assms
proof (induction rows arbitrary: off pre gap)
  case (Cons row rows)
  let ?g = "drop WIRE_ROW_SIZE gap"
  have s: "splice off (scalar_encode_copy row) (pre @ gap @ post) = (pre @ scalar_encode_copy row) @ ?g @ post"
    using Cons.prems by (simp add: splice_def)
  have "length (pre @ scalar_encode_copy row) = off + WIRE_ROW_SIZE" "length ?g = length rows * WIRE_ROW_SIZE"
    using Cons.prems by simp_all
  then show ?case
    using Cons.IH[of "pre @ scalar_encode_copy row" "off + WIRE_ROW_SIZE" ?g] by (simp only: s scalar_copy_rows.simps) simp
qed simp

lemma length_scalar_rows: "length (concat (map scalar_encode_copy rows)) = length rows * WIRE_ROW_SIZE"
  by (induction rows) simp_all

lemma scalar_build_copy_eq: "scalar_build_copy rows = pg_copy (map scalar_columns rows)"
proof -
  let ?k = "length rows * WIRE_ROW_SIZE"
  let ?e = "concat (map scalar_encode_copy rows)"
  have z: "replicate (length PGCOPY_HEADER + ?k + length PGCOPY_TRAILER) (0 :: byte) =
      replicate (length PGCOPY_HEADER) 0 @ replicate ?k 0 @ replicate (length PGCOPY_TRAILER) 0"
    by (simp add: replicate_add)
  have 1: "splice 0 PGCOPY_HEADER (replicate (length PGCOPY_HEADER + ?k + length PGCOPY_TRAILER) 0) =
      PGCOPY_HEADER @ replicate ?k 0 @ replicate (length PGCOPY_TRAILER) 0"
    by (simp only: z) (simp add: splice_def)
  have 2: "scalar_copy_rows rows (length PGCOPY_HEADER)
      (PGCOPY_HEADER @ replicate ?k 0 @ replicate (length PGCOPY_TRAILER) 0) =
      (length PGCOPY_HEADER + ?k, PGCOPY_HEADER @ ?e @ replicate (length PGCOPY_TRAILER) 0)"
    by (rule scalar_copy_rows_fill) simp_all
  have 3: "splice (length PGCOPY_HEADER + ?k) PGCOPY_TRAILER
      (PGCOPY_HEADER @ ?e @ replicate (length PGCOPY_TRAILER) 0) = PGCOPY_HEADER @ ?e @ PGCOPY_TRAILER"
    using length_scalar_rows[of rows] by (simp add: splice_def)
  have "scalar_build_copy rows = PGCOPY_HEADER @ ?e @ PGCOPY_TRAILER"
    unfolding scalar_build_copy_def Let_def 1 2 prod.case 3 by (rule refl)
  then show ?thesis
    by (simp add: pg_copy_def o_def encode_tuples)
qed

lemma array_num_build_eq: "array_num_build rows = pg_copy (map array_num_columns rows)"
  by (simp add: array_num_build_def pg_copy_def o_def encode_tuples)

lemma string_build_copy_eq: "string_build_copy cal rows = pg_copy (map (string_columns cal) rows)"
  by (simp add: string_build_copy_def pg_copy_def o_def encode_tuples)

lemma array_str_build_eq: "array_str_build rows = pg_copy (map array_str_columns rows)"
  by (simp add: array_str_build_def pg_copy_def o_def encode_tuples)

lemma columns_ok_fixed [simp]: "columns_ok (scalar_columns r)" "columns_ok (array_num_columns a)"
  by (simp_all add: columns_ok_def scalar_columns_def array_num_columns_def)

lemma columns_ok_text:
  "length (st_value r) < 2 ^ 31 \<Longrightarrow> columns_ok (string_columns cal r)"
  "length (as_value a) < 2 ^ 31 \<Longrightarrow> columns_ok (array_str_columns a)"
  by (simp_all add: columns_ok_def string_columns_def array_str_columns_def)

lemma length_scalar_build: "length (scalar_build_copy rows) = 21 + 52 * length rows"
  using length_scalar_rows[of rows]
  by (simp add: scalar_build_copy_eq pg_copy_def o_def PGCOPY_HEADER_def PGCOPY_TRAILER_def ascii_def
      WIRE_ROW_SIZE_def encode_tuples)

text \<open>C16. The payload handed to PostgreSQL for a list of rows is read by the documented COPY
  format as exactly those rows, column by column and in order: for scalar rows and array
  elements always (and a scalar payload has 21 + 52 n bytes), for string rows and string
  elements as long as no text reaches 2 GiB, whatever bytes it holds.\<close>

theorem copy_payload_is_the_rows:
  assumes "\<forall>r \<in> set strings. length (st_value r) < 2 ^ 31"
    and "\<forall>r \<in> set texts. length (as_value r) < 2 ^ 31"
  shows "pg_parse (scalar_build_copy rows) = Some (map scalar_columns rows) \<and>
    length (scalar_build_copy rows) = 21 + 52 * length rows \<and>
    pg_parse (array_num_build elements) = Some (map array_num_columns elements) \<and>
    pg_parse (string_build_copy cal strings) = Some (map (string_columns cal) strings) \<and>
    pg_parse (array_str_build texts) = Some (map array_str_columns texts)"
  using assms length_scalar_build[of rows]
  by (auto simp: scalar_build_copy_eq array_num_build_eq string_build_copy_eq array_str_build_eq
      columns_ok_text intro!: pg_parse_copy)

text \<open>A calendar for examples: a time is its number of seconds.\<close>

definition second_calendar :: "64 word calendar" where
  "second_calendar = \<lparr> cal_from_timestamp = (\<lambda>s n. Some s), cal_default = 0, cal_micros = (\<lambda>s. s * 1000000) \<rparr>"

theorem copy_payload_is_the_rows_witness:
  "pg_parse (string_build_copy second_calendar [string_row_new 5 7 (ascii ''on'') 0 0]) =
    Some [string_columns second_calendar (string_row_new 5 7 (ascii ''on'') 0 0)] \<and>
   length (scalar_build_copy [scalar_from_parts 5 7 0 0 0 SrHeartbeat]) = 73"
  using copy_payload_is_the_rows[of "[string_row_new 5 7 (ascii ''on'') 0 0]" "[]"
      "[scalar_from_parts 5 7 0 0 0 SrHeartbeat]" "[]" second_calendar]
  by (simp add: string_row_new_def ascii_def)

end
