(* ===== verification/JsonRows.thy ===== *)
theory JsonRows
  imports CopyRows
begin

text \<open>
  The rows of the JSON tables and of the image table
  (\<open>aura-store/src/writer/json.rs\<close>, \<open>image.rs\<close>).  A JSON value has the six constructors the
  sources match on; its numbers are a type \<open>'num\<close> of the JSON library, read through the
  argument \<open>lib\<close>, which also serialises.  The counter of capture ids is a process-wide
  variable: the builders take it and return it.
\<close>

datatype 'num json =
    JNull
  | JBool bool
  | JNumber 'num
  | JString rstring
  | JArray "'num json list"
  | JObject "(rstring \<times> 'num json) list"

record 'num json_lib =
  jl_f64 :: "'num \<Rightarrow> f64bits option"
  jl_i64 :: "'num \<Rightarrow> 64 word option"
  jl_to_vec :: "'num json \<Rightarrow> bytes option"

fun json_get :: "rstring \<Rightarrow> 'num json \<Rightarrow> 'num json option" where
  "json_get k (JObject ms) = map_of ms k"
| "json_get k _ = None"

fun json_array :: "'num json \<Rightarrow> 'num json list option" where
  "json_array (JArray a) = Some a"
| "json_array _ = None"

fun json_str :: "'num json \<Rightarrow> rstring" where
  "json_str (JString s) = s"
| "json_str _ = []"

text \<open>\<open>as_f64().unwrap_or(0.0)\<close> and \<open>as_i64().unwrap_or(0)\<close>.\<close>

fun json_f64 :: "'num json_lib \<Rightarrow> 'num json \<Rightarrow> f64bits" where
  "json_f64 lib (JNumber x) = (case jl_f64 lib x of Some v \<Rightarrow> v | None \<Rightarrow> 0)"
| "json_f64 lib _ = 0"

fun json_i64 :: "'num json_lib \<Rightarrow> 'num json \<Rightarrow> 64 word" where
  "json_i64 lib (JNumber x) = (case jl_i64 lib x of Some v \<Rightarrow> v | None \<Rightarrow> 0)"
| "json_i64 lib _ = 0"

definition json_field_array :: "rstring \<Rightarrow> 'num json \<Rightarrow> 'num json list option" where
  "json_field_array k v = Option.bind (json_get k v) json_array"

fun estimate_json_size :: "'num json \<Rightarrow> nat" where
  "estimate_json_size JNull = 4"
| "estimate_json_size (JBool b) = (if b then 4 else 5)"
| "estimate_json_size (JNumber _) = 8"
| "estimate_json_size (JString s) = length s + 2"
| "estimate_json_size (JArray a) = 2 + sum_list (map estimate_json_size a) + (length a - 1)"
| "estimate_json_size (JObject ms) =
    2 + sum_list (map (\<lambda>(k, v). length k + 3 + estimate_json_size v) ms) + (length ms - 1)"

section \<open>JSON rows\<close>

datatype 'num JsonData = JdBytes bytes | JdParsed "'num json"

fun as_json_bytes :: "'num json_lib \<Rightarrow> 'num JsonData \<Rightarrow> bytes" where
  "as_json_bytes lib (JdBytes b) = b"
| "as_json_bytes lib (JdParsed v) = (case jl_to_vec lib v of Some b \<Rightarrow> b | None \<Rightarrow> ascii ''{}'')"

fun json_data_value :: "'num JsonData \<Rightarrow> 'num json option" where
  "json_data_value (JdParsed v) = Some v"
| "json_data_value (JdBytes _) = None"

fun json_data_mem_size :: "'num JsonData \<Rightarrow> nat" where
  "json_data_mem_size (JdBytes b) = 24 + length b"
| "json_data_mem_size (JdParsed v) = estimate_json_size v"

datatype JsonTable = JtTable | JtCustom | JtNameValue | JtHistogram | JtContinuum | JtMulti

fun json_table_name :: "JsonTable \<Rightarrow> string" where
  "json_table_name JtTable = ''samples_table''" | "json_table_name JtCustom = ''samples_custom''"
| "json_table_name JtNameValue = ''samples_nv''" | "json_table_name JtHistogram = ''samples_hist''"
| "json_table_name JtContinuum = ''samples_cont''" | "json_table_name JtMulti = ''samples_mch''"

definition json_is_jsonb :: "JsonTable \<Rightarrow> bool" where
  "json_is_jsonb t = (t \<in> {JtTable, JtCustom})"

definition json_table_all :: "JsonTable list" where
  "json_table_all = [JtTable, JtCustom, JtNameValue, JtHistogram, JtContinuum, JtMulti]"

record ('dt, 'num) json_row =
  jr_time :: 'dt
  jr_pv_id :: "32 word"
  jr_table :: JsonTable
  jr_data :: "'num JsonData"
  jr_nt_type :: "rstring option"
  jr_severity :: "16 word"
  jr_status :: "16 word"
  jr_estimated_size :: nat

definition json_create ::
  "'dt \<Rightarrow> 32 word \<Rightarrow> JsonTable \<Rightarrow> 'num JsonData \<Rightarrow> rstring option \<Rightarrow> 16 word \<Rightarrow> 16 word \<Rightarrow>
   ('dt, 'num) json_row" where
  "json_create t pv table dat nt sev st =
    \<lparr> jr_time = t, jr_pv_id = pv, jr_table = table, jr_data = dat, jr_nt_type = nt,
      jr_severity = sev, jr_status = st,
      jr_estimated_size = 64 + json_data_mem_size dat + (case nt of None \<Rightarrow> 0 | Some s \<Rightarrow> 24 + length s) \<rparr>"

definition json_row_table where
  "json_row_table t pv b sev st = json_create t pv JtTable (JdBytes b) None sev st"
definition json_row_custom where
  "json_row_custom t pv nt b sev st = json_create t pv JtCustom (JdBytes b) (Some nt) sev st"
definition json_row_namevalue where
  "json_row_namevalue t pv v sev st = json_create t pv JtNameValue (JdParsed v) None sev st"
definition json_row_histogram where
  "json_row_histogram t pv v sev st = json_create t pv JtHistogram (JdParsed v) None sev st"
definition json_row_continuum where
  "json_row_continuum t pv v sev st = json_create t pv JtContinuum (JdParsed v) None sev st"
definition json_row_multi where
  "json_row_multi t pv v sev st = json_create t pv JtMulti (JdParsed v) None sev st"

section \<open>Payloads of the two JSONB tables\<close>

definition jsonb_field :: "bytes \<Rightarrow> bytes" where
  "jsonb_field json = be_i32 (1 + length json) @ [1] @ json"

definition table_row_bytes :: "'dt calendar \<Rightarrow> 'num json_lib \<Rightarrow> ('dt, 'num) json_row \<Rightarrow> bytes" where
  "table_row_bytes cal lib row =
    be_i16 5 @
    be_i32 8 @ be_bytes 8 (pg_micros cal (jr_time row)) @
    be_i32 4 @ be_bytes 4 (jr_pv_id row) @
    jsonb_field (as_json_bytes lib (jr_data row)) @
    be_i32 2 @ be_bytes 2 (jr_severity row) @
    be_i32 2 @ be_bytes 2 (jr_status row)"

definition custom_row_bytes :: "'dt calendar \<Rightarrow> 'num json_lib \<Rightarrow> ('dt, 'num) json_row \<Rightarrow> bytes" where
  "custom_row_bytes cal lib row =
    (let nt = (case jr_nt_type row of Some s \<Rightarrow> s | None \<Rightarrow> ascii ''Custom'') in
     be_i16 6 @
     be_i32 8 @ be_bytes 8 (pg_micros cal (jr_time row)) @
     be_i32 4 @ be_bytes 4 (jr_pv_id row) @
     be_i32 (length nt) @ nt @
     jsonb_field (as_json_bytes lib (jr_data row)) @
     be_i32 2 @ be_bytes 2 (jr_severity row) @
     be_i32 2 @ be_bytes 2 (jr_status row))"

definition build_table_payload ::
  "'dt calendar \<Rightarrow> 'num json_lib \<Rightarrow> ('dt, 'num) json_row list \<Rightarrow> (bytes \<times> nat) option" where
  "build_table_payload cal lib buffer =
    (let rows = filter (\<lambda>r. jr_table r = JtTable) buffer in
     if rows = [] then None
     else Some (PGCOPY_HEADER @ concat (map (table_row_bytes cal lib) rows) @ PGCOPY_TRAILER, length rows))"

definition build_custom_payload ::
  "'dt calendar \<Rightarrow> 'num json_lib \<Rightarrow> ('dt, 'num) json_row list \<Rightarrow> (bytes \<times> nat) option" where
  "build_custom_payload cal lib buffer =
    (let rows = filter (\<lambda>r. jr_table r = JtCustom) buffer in
     if rows = [] then None
     else Some (PGCOPY_HEADER @ concat (map (custom_row_bytes cal lib) rows) @ PGCOPY_TRAILER, length rows))"

section \<open>Payloads of the destructured tables\<close>

text \<open>The middle columns of the elements of a capture; \<open>None\<close> where the source skips it.\<close>

definition nv_elements :: "'num json_lib \<Rightarrow> 'num json \<Rightarrow> bytes list list option" where
  "nv_elements lib v =
    (case json_field_array (ascii ''name'') v of
       None \<Rightarrow> None
     | Some names \<Rightarrow>
        (case json_field_array (ascii ''value'') v of
           None \<Rightarrow> None
         | Some vals \<Rightarrow>
             Some (map (\<lambda>(a, b). [json_str a, be_bytes 8 (json_f64 lib b)]) (zip names vals))))"

definition hist_elements :: "'num json_lib \<Rightarrow> 'num json \<Rightarrow> bytes list list option" where
  "hist_elements lib v =
    (case json_field_array (ascii ''ranges'') v of
       None \<Rightarrow> None
     | Some ranges \<Rightarrow>
        (case (case json_field_array (ascii ''value'') v of
                 Some a \<Rightarrow> Some a | None \<Rightarrow> json_field_array (ascii ''counts'') v) of
           None \<Rightarrow> None
         | Some counts \<Rightarrow>
             Some (map (\<lambda>(a, b). [be_bytes 8 (json_f64 lib a), be_bytes 8 (json_i64 lib b)])
               (zip ranges counts))))"

definition cont_elements :: "'num json_lib \<Rightarrow> 'num json \<Rightarrow> bytes list list option" where
  "cont_elements lib v =
    (case json_field_array (ascii ''base'') v of
       None \<Rightarrow> None
     | Some base \<Rightarrow>
        (case json_field_array (ascii ''value'') v of
           None \<Rightarrow> None
         | Some vals \<Rightarrow>
             Some (map (\<lambda>(a, b). [be_bytes 8 (json_f64 lib a), be_bytes 8 (json_f64 lib b)])
               (zip base vals))))"

definition mch_severity :: "'num json_lib \<Rightarrow> 'num json list option \<Rightarrow> nat \<Rightarrow> 16 word" where
  "mch_severity lib sevs i =
    (case sevs of None \<Rightarrow> 0 | Some s \<Rightarrow> if i < length s then ucast (json_i64 lib (s ! i)) else 0)"

definition mch_elements :: "'num json_lib \<Rightarrow> 'num json \<Rightarrow> bytes list list option" where
  "mch_elements lib v =
    (case json_field_array (ascii ''channel_names'') v of
       None \<Rightarrow> None
     | Some names \<Rightarrow>
        (case json_field_array (ascii ''channel_values'') v of
           None \<Rightarrow> None
         | Some vals \<Rightarrow>
             let sevs = json_field_array (ascii ''severities'') v in
             Some (map (\<lambda>(i, a, b). [json_str a, be_bytes 8 (json_f64 lib b),
                 be_bytes 2 (mch_severity lib sevs i)])
               (zip [0..<min (length names) (length vals)] (zip names vals)))))"

text \<open>One element: time, PV, capture, \<open>i as i16\<close>, the middle columns, severity, status.\<close>

definition element_columns ::
  "'dt calendar \<Rightarrow> ('dt, 'num) json_row \<Rightarrow> 64 word \<Rightarrow> nat \<Rightarrow> bytes list \<Rightarrow> bytes list" where
  "element_columns cal row cid i mid =
    [be_bytes 8 (pg_micros cal (jr_time row)), be_bytes 4 (jr_pv_id row), be_bytes 8 cid, be_i16 i] @
    mid @ [be_bytes 2 (jr_severity row), be_bytes 2 (jr_status row)]"

definition capture_tuples ::
  "('num json \<Rightarrow> bytes list list option) \<Rightarrow> 'dt calendar \<Rightarrow> ('dt, 'num) json_row \<Rightarrow> 64 word \<Rightarrow> bytes list list" where
  "capture_tuples elements cal row cid =
    (case Option.bind (json_data_value (jr_data row)) elements of
       None \<Rightarrow> []
     | Some es \<Rightarrow> map (\<lambda>(i, mid). element_columns cal row cid i mid) (zip [0..<length es] es))"

primrec captures where
  "captures elements cal [] cid = ([], cid)"
| "captures elements cal (row # rows) cid =
    (case captures elements cal rows (cid + 1) of
       (ts, cid') \<Rightarrow> (capture_tuples elements cal row cid @ ts, cid'))"

definition build_destructured ::
  "JsonTable \<Rightarrow> ('num json \<Rightarrow> bytes list list option) \<Rightarrow> 'dt calendar \<Rightarrow> ('dt, 'num) json_row list \<Rightarrow>
   64 word \<Rightarrow> (bytes \<times> nat) option \<times> 64 word" where
  "build_destructured table elements cal buffer cid =
    (let rows = filter (\<lambda>r. jr_table r = table) buffer in
     if rows = [] then (None, cid)
     else
       (case captures elements cal rows cid of
          (ts, cid') \<Rightarrow>
            (if ts = [] then None
             else Some (PGCOPY_HEADER @ concat (map pg_tuple ts) @ PGCOPY_TRAILER, length ts), cid')))"

definition build_nv_payload where
  "build_nv_payload cal lib = build_destructured JtNameValue (nv_elements lib) cal"
definition build_hist_payload where
  "build_hist_payload cal lib = build_destructured JtHistogram (hist_elements lib) cal"
definition build_cont_payload where
  "build_cont_payload cal lib = build_destructured JtContinuum (cont_elements lib) cal"
definition build_mch_payload where
  "build_mch_payload cal lib = build_destructured JtMulti (mch_elements lib) cal"

text \<open>The six builders by table, in one form.\<close>

fun build_json ::
  "'dt calendar \<Rightarrow> 'num json_lib \<Rightarrow> JsonTable \<Rightarrow> ('dt, 'num) json_row list \<Rightarrow> 64 word \<Rightarrow>
   (bytes \<times> nat) option \<times> 64 word" where
  "build_json cal lib JtTable rows cid = (build_table_payload cal lib rows, cid)"
| "build_json cal lib JtCustom rows cid = (build_custom_payload cal lib rows, cid)"
| "build_json cal lib JtNameValue rows cid = build_nv_payload cal lib rows cid"
| "build_json cal lib JtHistogram rows cid = build_hist_payload cal lib rows cid"
| "build_json cal lib JtContinuum rows cid = build_cont_payload cal lib rows cid"
| "build_json cal lib JtMulti rows cid = build_mch_payload cal lib rows cid"

section \<open>Image rows\<close>

record ('dt, 'num) image_row =
  ir_time :: 'dt
  ir_pv_id :: "32 word"
  ir_data :: bytes
  ir_codec :: rstring
  ir_compressed_size :: "64 word"
  ir_uncompressed_size :: "64 word"
  ir_dimensions :: "32 word list"
  ir_unique_id :: "32 word"
  ir_attributes :: "'num json"
  ir_severity :: "16 word"
  ir_status :: "16 word"

definition image_row_new ::
  "'dt \<Rightarrow> 32 word \<Rightarrow> bytes \<Rightarrow> rstring \<Rightarrow> 64 word \<Rightarrow> 64 word \<Rightarrow> 32 word list \<Rightarrow> 32 word \<Rightarrow>
   16 word \<Rightarrow> 16 word \<Rightarrow> ('dt, 'num) image_row" where
  "image_row_new t pv dat codec cs us dims uid sev st =
    \<lparr> ir_time = t, ir_pv_id = pv, ir_data = dat, ir_codec = codec, ir_compressed_size = cs,
      ir_uncompressed_size = us, ir_dimensions = dims, ir_unique_id = uid,
      ir_attributes = JObject [], ir_severity = sev, ir_status = st \<rparr>"

definition image_mem_size :: "('dt, 'num) image_row \<Rightarrow> nat" where
  "image_mem_size row = 200 + length (ir_data row) + length (ir_codec row) + length (ir_dimensions row) * 4"

text \<open>\<open>INT4[]\<close> in the binary array format: dimensions, null flag, element type, then for a
  non-empty array its length, lower bound and elements.\<close>

definition int4_array :: "32 word list \<Rightarrow> bytes" where
  "int4_array ds =
    (let ndims = (if ds = [] then 0 else 1);
         n = 4 + 4 + 4 + (if ndims > 0 then 4 + 4 + length ds * 8 else 0) in
     be_i32 n @ be_i32 ndims @ be_i32 0 @ be_i32 23 @
     (if ndims > 0 then
        be_i32 (length ds) @ be_i32 1 @ concat (map (\<lambda>d. be_i32 4 @ be_bytes 4 d) ds)
      else []))"

definition image_row_bytes :: "'dt calendar \<Rightarrow> 'num json_lib \<Rightarrow> ('dt, 'num) image_row \<Rightarrow> bytes" where
  "image_row_bytes cal lib row =
    (let attrs = (case jl_to_vec lib (ir_attributes row) of Some b \<Rightarrow> b | None \<Rightarrow> ascii ''{}'') in
     be_i16 11 @
     be_i32 8 @ be_bytes 8 (pg_micros cal (ir_time row)) @
     be_i32 4 @ be_bytes 4 (ir_pv_id row) @
     be_i32 (length (ir_data row)) @ ir_data row @
     be_i32 (length (ir_codec row)) @ ir_codec row @
     be_i32 8 @ be_bytes 8 (ir_compressed_size row) @
     be_i32 8 @ be_bytes 8 (ir_uncompressed_size row) @
     int4_array (ir_dimensions row) @
     be_i32 4 @ be_bytes 4 (ir_unique_id row) @
     jsonb_field attrs @
     be_i32 2 @ be_bytes 2 (ir_severity row) @
     be_i32 2 @ be_bytes 2 (ir_status row))"

definition image_build_copy ::
  "'dt calendar \<Rightarrow> 'num json_lib \<Rightarrow> ('dt, 'num) image_row list \<Rightarrow> bytes" where
  "image_build_copy cal lib rows =
    PGCOPY_HEADER @ concat (map (image_row_bytes cal lib) rows) @ PGCOPY_TRAILER"

end
