(* ===== verification/SharedBuf.thy ===== *)
theory SharedBuf
  imports JsonRows Buffers
begin

text \<open>
  The staging buffer between an ingest thread and the store loop
  (\<open>aura-store/src/writer/shared_buf.rs\<close>): a queue of scalar rows and a queue of all other
  rows, each bounded by \<open>max_len\<close>.  Every operation holds the lock of its queue, so an
  execution is a sequence of operations.  \<open>sb_notified\<close> counts the calls of
  \<open>notify_one\<close>; the capacity of the vectors is not modelled.
\<close>

datatype ('dt, 'num) WriterRow =
    WrString "'dt string_row"
  | WrArray "'dt array_capture"
  | WrJson "('dt, 'num) json_row"
  | WrImage "('dt, 'num) image_row"

record ('dt, 'num) shared_buffer =
  sb_scalars :: "scalar_row list"
  sb_others :: "('dt, 'num) WriterRow list"
  sb_max_len :: nat
  sb_dropped :: u64
  sb_notified :: nat

definition sb_new :: "nat \<Rightarrow> ('dt, 'num) shared_buffer" where
  "sb_new max_len =
    \<lparr> sb_scalars = [], sb_others = [], sb_max_len = max_len, sb_dropped = 0, sb_notified = 0 \<rparr>"

definition push_scalar ::
  "scalar_row \<Rightarrow> ('dt, 'num) shared_buffer \<Rightarrow> bool \<times> ('dt, 'num) shared_buffer" where
  "push_scalar row b =
    (if length (sb_scalars b) < sb_max_len b then
       (True, b \<lparr> sb_scalars := sb_scalars b @ [row],
          sb_notified := (if sb_scalars b = [] then sb_notified b + 1 else sb_notified b) \<rparr>)
     else (False, b \<lparr> sb_dropped := sb_dropped b + 1 \<rparr>))"

definition push_other ::
  "('dt, 'num) WriterRow \<Rightarrow> ('dt, 'num) shared_buffer \<Rightarrow> bool \<times> ('dt, 'num) shared_buffer" where
  "push_other row b =
    (if length (sb_others b) < sb_max_len b then
       (True, b \<lparr> sb_others := sb_others b @ [row],
          sb_notified := (if sb_others b = [] then sb_notified b + 1 else sb_notified b) \<rparr>)
     else (False, b \<lparr> sb_dropped := sb_dropped b + 1 \<rparr>))"

definition take_scalars ::
  "('dt, 'num) shared_buffer \<Rightarrow> scalar_row list \<times> ('dt, 'num) shared_buffer" where
  "take_scalars b = (sb_scalars b, b \<lparr> sb_scalars := [] \<rparr>)"

definition take_others ::
  "('dt, 'num) shared_buffer \<Rightarrow> ('dt, 'num) WriterRow list \<times> ('dt, 'num) shared_buffer" where
  "take_others b = (sb_others b, b \<lparr> sb_others := [] \<rparr>)"

definition sb_len :: "('dt, 'num) shared_buffer \<Rightarrow> nat" where
  "sb_len b = length (sb_scalars b) + length (sb_others b)"

definition sb_is_empty :: "('dt, 'num) shared_buffer \<Rightarrow> bool" where
  "sb_is_empty b \<longleftrightarrow> sb_scalars b = [] \<and> sb_others b = []"

interpretation scalars: bounded_buffer push_scalar sb_scalars sb_max_len
  by unfold_locales (auto simp: push_scalar_def)

interpretation others: bounded_buffer push_other sb_others sb_max_len
  by unfold_locales (auto simp: push_other_def)

lemma push_scalar_rest:
  "sb_others (snd (push_scalar r b)) = sb_others b"
  "sb_dropped (snd (push_scalar r b)) =
    sb_dropped b + (if length (sb_scalars b) < sb_max_len b then 0 else 1)"
  by (auto simp: push_scalar_def)

lemma push_other_rest:
  "sb_scalars (snd (push_other r b)) = sb_scalars b"
  "sb_dropped (snd (push_other r b)) =
    sb_dropped b + (if length (sb_others b) < sb_max_len b then 0 else 1)"
  by (auto simp: push_other_def)

section \<open>Executions\<close>

datatype ('dt, 'num) sb_op =
    PushScalar scalar_row
  | PushOther "('dt, 'num) WriterRow"
  | TakeScalars
  | TakeOthers

record ('dt, 'num) sb_run =
  rn_buf :: "('dt, 'num) shared_buffer"
  rn_scalars :: "scalar_row list"
  rn_others :: "('dt, 'num) WriterRow list"

text \<open>One operation; what the consumer takes is appended to what it has.\<close>

fun sb_step :: "('dt, 'num) sb_op \<Rightarrow> ('dt, 'num) sb_run \<Rightarrow> ('dt, 'num) sb_run" where
  "sb_step (PushScalar r) st = st \<lparr> rn_buf := snd (push_scalar r (rn_buf st)) \<rparr>"
| "sb_step (PushOther r) st = st \<lparr> rn_buf := snd (push_other r (rn_buf st)) \<rparr>"
| "sb_step TakeScalars st =
    (case take_scalars (rn_buf st) of (rows, b) \<Rightarrow> st \<lparr> rn_buf := b, rn_scalars := rn_scalars st @ rows \<rparr>)"
| "sb_step TakeOthers st =
    (case take_others (rn_buf st) of (rows, b) \<Rightarrow> st \<lparr> rn_buf := b, rn_others := rn_others st @ rows \<rparr>)"

definition sb_execute :: "nat \<Rightarrow> ('dt, 'num) sb_op list \<Rightarrow> ('dt, 'num) sb_run" where
  "sb_execute max_len ops =
    foldl (\<lambda>st x. sb_step x st) \<lparr> rn_buf = sb_new max_len, rn_scalars = [], rn_others = [] \<rparr> ops"

fun op_scalars :: "('dt, 'num) sb_op \<Rightarrow> scalar_row list" where
  "op_scalars (PushScalar r) = [r]" | "op_scalars _ = []"

fun op_others :: "('dt, 'num) sb_op \<Rightarrow> ('dt, 'num) WriterRow list" where
  "op_others (PushOther r) = [r]" | "op_others _ = []"

definition pushed_scalars where "pushed_scalars ops = concat (map op_scalars ops)"
definition pushed_others where "pushed_others ops = concat (map op_others ops)"

definition sb_inv :: "nat \<Rightarrow> ('dt, 'num) sb_op list \<Rightarrow> ('dt, 'num) sb_run \<Rightarrow> bool" where
  "sb_inv m ops st \<longleftrightarrow>
    sb_max_len (rn_buf st) = m \<and>
    length (sb_scalars (rn_buf st)) \<le> m \<and> length (sb_others (rn_buf st)) \<le> m \<and>
    subseq (rn_scalars st @ sb_scalars (rn_buf st)) (pushed_scalars ops) \<and>
    subseq (rn_others st @ sb_others (rn_buf st)) (pushed_others ops) \<and>
    (\<exists>d. sb_dropped (rn_buf st) = of_nat d \<and>
      length (pushed_scalars ops) + length (pushed_others ops) =
        length (rn_scalars st @ sb_scalars (rn_buf st)) + length (rn_others st @ sb_others (rn_buf st)) + d)"

lemma subseq_snoc: "subseq xs ys \<Longrightarrow> subseq (xs @ [x]) (ys @ [x])"
  by simp

lemma subseq_skip: "subseq xs ys \<Longrightarrow> subseq xs (ys @ zs)"
  using list_emb_append2 by fastforce

lemma pushed_snoc [simp]:
  "pushed_scalars (ops @ [x]) = pushed_scalars ops @ op_scalars x"
  "pushed_others (ops @ [x]) = pushed_others ops @ op_others x"
  by (simp_all add: pushed_scalars_def pushed_others_def)

lemma of_nat_Suc_word: "(of_nat d :: 64 word) + 1 = of_nat (Suc d)"
  by simp

lemma sb_inv_step:
  assumes inv: "sb_inv m ops st"
  shows "sb_inv m (ops @ [x]) (sb_step x st)"
proof -
  obtain d where d: "sb_dropped (rn_buf st) = of_nat d"
    "length (pushed_scalars ops) + length (pushed_others ops) =
        length (rn_scalars st @ sb_scalars (rn_buf st)) + length (rn_others st @ sb_others (rn_buf st)) + d"
    using inv by (auto simp: sb_inv_def)
  show ?thesis
  proof (cases x)
    case (PushScalar r)
    have "sb_dropped (rn_buf (sb_step x st)) =
        of_nat (d + (if length (sb_scalars (rn_buf st)) < m then 0 else 1))"
      using inv d PushScalar by (simp add: push_scalar_rest sb_inv_def)
    then show ?thesis
      using inv d PushScalar
      by (auto simp: sb_inv_def push_scalar_rest scalars.held_push scalars.limit_push subseq_skip
          simp flip: append_assoc intro!: exI[of _ "d + (if length (sb_scalars (rn_buf st)) < m then 0 else 1)"])
  next
    case (PushOther r)
    have "sb_dropped (rn_buf (sb_step x st)) =
        of_nat (d + (if length (sb_others (rn_buf st)) < m then 0 else 1))"
      using inv d PushOther by (simp add: push_other_rest sb_inv_def)
    then show ?thesis
      using inv d PushOther
      by (auto simp: sb_inv_def push_other_rest others.held_push others.limit_push subseq_skip
          simp flip: append_assoc intro!: exI[of _ "d + (if length (sb_others (rn_buf st)) < m then 0 else 1)"])
  qed (use inv d in \<open>auto simp: sb_inv_def take_scalars_def take_others_def intro!: exI[of _ d]\<close>)
qed

lemma sb_inv_execute: "sb_inv m ops (sb_execute m ops)"
proof (induction ops rule: rev_induct)
  case Nil
  then show ?case
    by (simp add: sb_inv_def sb_execute_def sb_new_def pushed_scalars_def pushed_others_def)
next
  case (snoc x xs)
  then show ?case
    using sb_inv_step[of m xs "sb_execute m xs" x] by (simp add: sb_execute_def)
qed

text \<open>C12. Whatever the ingest thread pushes and the store loop takes, in any order: the rows
  taken and those still held are rows that were pushed, in that order and none twice; neither
  queue exceeds \<open>max_len\<close>; and every pushed row that is missing is in the drop counter (which
  counts modulo 2^64).\<close>

theorem shared_buffer_conserves_rows:
  "let st = sb_execute m ops; b = rn_buf st in
    subseq (rn_scalars st @ sb_scalars b) (pushed_scalars ops) \<and>
    subseq (rn_others st @ sb_others b) (pushed_others ops) \<and>
    length (sb_scalars b) \<le> m \<and> length (sb_others b) \<le> m \<and>
    (\<exists>d. sb_dropped b = of_nat d \<and>
      length (pushed_scalars ops) + length (pushed_others ops) =
        length (rn_scalars st) + length (rn_others st) + sb_len b + d)"
  using sb_inv_execute[of m ops] by (auto simp: sb_inv_def sb_len_def Let_def)

end
