(* ===== verification/PvCache.thy ===== *)
theory PvCache
  imports Prelude "HOL-Library.AList"
begin

text \<open>
  The cache from PV names to numeric ids (\<open>aura-store/src/writer/pv_cache.rs\<close>).  The hash
  map is an association list with distinct keys.  The table \<open>pv_lookup\<close> is the argument
  \<open>db\<close>: the four statements the code runs on it, as functions of the database state; what
  the code relies on (ids never change, the upsert answers the id of its name, a select
  answers rows of the table) is \<open>pv_lookup_laws\<close>.
\<close>

type_synonym pv_row = "32 word \<times> rstring"

record ('s, 'e) pv_lookup =
  pl_upsert :: "rstring \<Rightarrow> 's \<Rightarrow> ('e + 32 word) \<times> 's"
  pl_select_first :: "nat \<Rightarrow> 's \<Rightarrow> 'e + pv_row list"
  pl_insert_all :: "rstring list \<Rightarrow> 's \<Rightarrow> ('e + unit) \<times> 's"
  pl_select_any :: "rstring list \<Rightarrow> 's \<Rightarrow> 'e + pv_row list"

record pv_cache =
  pc_entries :: "(rstring \<times> 32 word) list"
  pc_max_entries :: nat
  pc_hits :: u64
  pc_misses :: u64
  pc_saturations :: u64

definition DEFAULT_MAX_ENTRIES :: nat where "DEFAULT_MAX_ENTRIES = 8000000"

definition pc_with_limits :: "nat \<Rightarrow> pv_cache" where
  "pc_with_limits max_entries =
    \<lparr> pc_entries = [], pc_max_entries = max max_entries 1, pc_hits = 0, pc_misses = 0, pc_saturations = 0 \<rparr>"

definition pc_new :: pv_cache where "pc_new = pc_with_limits DEFAULT_MAX_ENTRIES"

definition pc_len :: "pv_cache \<Rightarrow> nat" where "pc_len c = length (pc_entries c)"

definition pc_is_full :: "pv_cache \<Rightarrow> bool" where "pc_is_full c \<longleftrightarrow> pc_len c \<ge> pc_max_entries c"

definition pc_total_lookups :: "pv_cache \<Rightarrow> u64" where "pc_total_lookups c = pc_hits c + pc_misses c"

definition pc_put :: "rstring \<Rightarrow> 32 word \<Rightarrow> pv_cache \<Rightarrow> pv_cache" where
  "pc_put name i c = c \<lparr> pc_entries := AList.update name i (pc_entries c) \<rparr>"

definition pc_resolve_cached :: "rstring \<Rightarrow> pv_cache \<Rightarrow> 32 word option" where
  "pc_resolve_cached name c = map_of (pc_entries c) name"

definition pc_resolve ::
  "('s, 'e) pv_lookup \<Rightarrow> rstring \<Rightarrow> pv_cache \<Rightarrow> 's \<Rightarrow> ('e + 32 word) \<times> pv_cache \<times> 's" where
  "pc_resolve db name c s =
    (case map_of (pc_entries c) name of
       Some i \<Rightarrow> (Ok i, c \<lparr> pc_hits := pc_hits c + 1 \<rparr>, s)
     | None \<Rightarrow>
        if pc_len c \<ge> pc_max_entries c then
          (case pl_upsert db name s of
             (r, s') \<Rightarrow>
               (r, c \<lparr> pc_saturations := pc_saturations c + 1, pc_misses := pc_misses c + 1 \<rparr>, s'))
        else
          (let c1 = c \<lparr> pc_misses := pc_misses c + 1 \<rparr> in
           case pl_upsert db name s of
             (Err e, s') \<Rightarrow> (Err e, c1, s')
           | (Ok i, s') \<Rightarrow> (Ok i, pc_put name i c1, s')))"

definition pc_warm :: "('s, 'e) pv_lookup \<Rightarrow> pv_cache \<Rightarrow> 's \<Rightarrow> ('e + nat) \<times> pv_cache" where
  "pc_warm db c s =
    (case pl_select_first db (pc_max_entries c + 1) s of
       Err e \<Rightarrow> (Err e, c)
     | Ok rows \<Rightarrow>
        (let rows' = take (pc_max_entries c) rows in
         (Ok (length rows'), fold (\<lambda>(i, name). pc_put name i) rows' c)))"

definition pc_insert :: "rstring \<Rightarrow> 32 word \<Rightarrow> pv_cache \<Rightarrow> bool \<times> pv_cache" where
  "pc_insert name i c = (if pc_len c \<ge> pc_max_entries c then (False, c) else (True, pc_put name i c))"

definition pc_take_row :: "pv_row \<Rightarrow> nat \<times> pv_cache \<Rightarrow> nat \<times> pv_cache" where
  "pc_take_row row st =
    (case (row, st) of ((i, name), (count, c)) \<Rightarrow>
       if pc_len c < pc_max_entries c then (count + 1, pc_put name i c) else (count, c))"

definition pc_bulk_upsert ::
  "('s, 'e) pv_lookup \<Rightarrow> rstring list \<Rightarrow> pv_cache \<Rightarrow> 's \<Rightarrow> ('e + nat) \<times> pv_cache \<times> 's" where
  "pc_bulk_upsert db names c s =
    (if names = [] then (Ok 0, c, s)
     else
       (case pl_insert_all db names s of
          (Err e, s') \<Rightarrow> (Err e, c, s')
        | (Ok _, s') \<Rightarrow>
           (case pl_select_any db names s' of
              Err e \<Rightarrow> (Err e, c, s')
            | Ok rows \<Rightarrow> (case fold pc_take_row rows (0, c) of (count, c') \<Rightarrow> (Ok count, c', s')))))"

definition pc_clear :: "pv_cache \<Rightarrow> pv_cache" where
  "pc_clear c = c \<lparr> pc_entries := [], pc_hits := 0, pc_misses := 0, pc_saturations := 0 \<rparr>"

section \<open>What the table promises\<close>

definition pv_lookup_laws :: "('s, 'e) pv_lookup \<Rightarrow> ('s \<Rightarrow> rstring \<rightharpoonup> 32 word) \<Rightarrow> bool" where
  "pv_lookup_laws db ids \<longleftrightarrow>
    (\<forall>n s r s'. pl_upsert db n s = (r, s') \<longrightarrow>
       ids s \<subseteq>\<^sub>m ids s' \<and> (\<forall>i. r = Ok i \<longrightarrow> ids s' n = Some i)) \<and>
    (\<forall>ns s r s'. pl_insert_all db ns s = (r, s') \<longrightarrow> ids s \<subseteq>\<^sub>m ids s') \<and>
    (\<forall>k s rows. pl_select_first db k s = Ok rows \<longrightarrow> (\<forall>(i, n) \<in> set rows. ids s n = Some i)) \<and>
    (\<forall>ns s rows. pl_select_any db ns s = Ok rows \<longrightarrow> (\<forall>(i, n) \<in> set rows. ids s n = Some i))"

text \<open>The cache is a part of the table, within its limit.\<close>

definition pc_inv :: "(rstring \<rightharpoonup> 32 word) \<Rightarrow> pv_cache \<Rightarrow> bool" where
  "pc_inv table c \<longleftrightarrow> distinct (map fst (pc_entries c)) \<and> map_of (pc_entries c) \<subseteq>\<^sub>m table \<and>
     pc_len c \<le> pc_max_entries c"

lemma pc_inv_mono: "pc_inv t c \<Longrightarrow> t \<subseteq>\<^sub>m t' \<Longrightarrow> pc_inv t' c"
  by (auto simp: pc_inv_def intro: map_le_trans)

lemma pc_inv_counters [simp]:
  "pc_inv t (c \<lparr> pc_hits := h \<rparr>) = pc_inv t c" "pc_inv t (c \<lparr> pc_misses := h \<rparr>) = pc_inv t c"
  "pc_inv t (c \<lparr> pc_saturations := h \<rparr>) = pc_inv t c"
  by (simp_all add: pc_inv_def pc_len_def)

lemma pc_len_put: "pc_len (pc_put n i c) \<le> Suc (pc_len c)"
proof -
  have "length (AList.update n i xs) \<le> Suc (length xs)" for xs :: "(rstring \<times> 32 word) list"
    by (induction xs) auto
  then show ?thesis
    by (simp add: pc_len_def pc_put_def)
qed

lemma pc_inv_put:
  assumes "pc_inv t c" "t n = Some i" "pc_len c < pc_max_entries c"
  shows "pc_inv t (pc_put n i c)"
proof -
  have "map_of (AList.update n i (pc_entries c)) \<subseteq>\<^sub>m t"
    using assms by (auto simp: pc_inv_def update_conv' map_le_def)
  then show ?thesis
    using assms pc_len_put[of n i c] distinct_update[of "pc_entries c" n i]
    by (simp add: pc_inv_def pc_put_def)
qed

lemma pc_inv_take_rows:
  assumes "pc_inv t c" "\<forall>(i, n) \<in> set rows. t n = Some i"
  shows "pc_inv t (snd (fold pc_take_row rows (k, c))) \<and>
    pc_max_entries (snd (fold pc_take_row rows (k, c))) = pc_max_entries c"
  using assms
proof (induction rows arbitrary: k c)
  case (Cons row rows)
  obtain i n where row: "row = (i, n)"
    by (cases row)
  show ?case
  proof (cases "pc_len c < pc_max_entries c")
    case True
    then show ?thesis
      using Cons.IH[of "pc_put n i c" "k + 1"] pc_inv_put[of t c n i] Cons.prems row
      by (simp add: pc_take_row_def) (simp add: pc_put_def)
  qed (use Cons row in \<open>simp add: pc_take_row_def\<close>)
qed simp

section \<open>Executions\<close>

datatype pc_op = PcResolve rstring | PcBulk "rstring list"

fun pc_step ::
  "('s, 'e) pv_lookup \<Rightarrow> pc_op \<Rightarrow> pv_cache \<times> 's \<Rightarrow> pv_cache \<times> 's" where
  "pc_step db (PcResolve n) (c, s) = (case pc_resolve db n c s of (_, c', s') \<Rightarrow> (c', s'))"
| "pc_step db (PcBulk ns) (c, s) = (case pc_bulk_upsert db ns c s of (_, c', s') \<Rightarrow> (c', s'))"

lemma pc_resolve_inv:
  assumes "pv_lookup_laws db ids" "pc_inv (ids s) c" "pc_resolve db n c s = (r, c', s')"
  shows "pc_inv (ids s') c' \<and> ids s \<subseteq>\<^sub>m ids s' \<and> pc_max_entries c' = pc_max_entries c \<and>
    (\<forall>i. r = Ok i \<longrightarrow> ids s' n = Some i) \<and> pc_total_lookups c' = pc_total_lookups c + 1"
proof -
  obtain a s1 where u: "pl_upsert db n s = (a, s1)"
    by fastforce
  have law: "ids s \<subseteq>\<^sub>m ids s1" "\<And>i. a = Ok i \<Longrightarrow> ids s1 n = Some i"
    using assms(1) u unfolding pv_lookup_laws_def by blast+
  show ?thesis
  proof (cases "map_of (pc_entries c) n")
    case None
    then show ?thesis
      using assms(2,3) law u pc_inv_mono[OF assms(2) law(1)]
      by (auto simp: pc_resolve_def Let_def pc_total_lookups_def pc_len_def split: prod.splits sum.splits if_splits
          intro!: pc_inv_put) (simp_all add: pc_put_def pc_len_def)
  next
    case (Some i)
    moreover have "ids s n = Some i"
      using Some assms(2) unfolding pc_inv_def map_le_def by (metis domI)
    ultimately show ?thesis
      using assms(2,3) by (auto simp: pc_resolve_def pc_total_lookups_def)
  qed
qed

lemma pc_bulk_inv:
  assumes "pv_lookup_laws db ids" "pc_inv (ids s) c" "pc_bulk_upsert db ns c s = (r, c', s')"
  shows "pc_inv (ids s') c' \<and> ids s \<subseteq>\<^sub>m ids s' \<and> pc_max_entries c' = pc_max_entries c"
proof (cases "ns = []")
  case False
  obtain a s1 where u: "pl_insert_all db ns s = (a, s1)"
    by fastforce
  have law: "ids s \<subseteq>\<^sub>m ids s1"
    using assms(1) u unfolding pv_lookup_laws_def by blast
  note inv = pc_inv_mono[OF assms(2) law]
  show ?thesis
  proof (cases a)
    case (Inr x)
    show ?thesis
    proof (cases "pl_select_any db ns s1")
      case rows: (Inr rows)
      then have "\<forall>(i, n) \<in> set rows. ids s1 n = Some i"
        using assms(1) unfolding pv_lookup_laws_def by blast
      from pc_inv_take_rows[OF inv this, of 0] show ?thesis
        using False assms(3) law u Inr rows by (auto simp: pc_bulk_upsert_def split: prod.splits)
    qed (use False assms(3) law u inv Inr in \<open>auto simp: pc_bulk_upsert_def\<close>)
  qed (use False assms(3) law u inv in \<open>auto simp: pc_bulk_upsert_def\<close>)
qed (use assms in \<open>auto simp: pc_bulk_upsert_def\<close>)

lemma pc_run_inv:
  assumes "pv_lookup_laws db ids" "pc_inv (ids s) c"
  shows "case foldl (\<lambda>st x. pc_step db x st) (c, s) ops of (c', s') \<Rightarrow>
    pc_inv (ids s') c' \<and> ids s \<subseteq>\<^sub>m ids s' \<and> pc_max_entries c' = pc_max_entries c"
proof (induction ops rule: rev_induct)
  case (snoc x xs)
  obtain c1 s1 where 1: "foldl (\<lambda>st x. pc_step db x st) (c, s) xs = (c1, s1)"
    by fastforce
  then have ih: "pc_inv (ids s1) c1" "ids s \<subseteq>\<^sub>m ids s1" "pc_max_entries c1 = pc_max_entries c"
    using snoc by auto
  show ?case
  proof (cases x)
    case (PcResolve n)
    obtain r c2 s2 where 2: "pc_resolve db n c1 s1 = (r, c2, s2)"
      by (metis prod_cases3)
    then show ?thesis
      using pc_resolve_inv[OF assms(1) ih(1) 2] ih 1 PcResolve by (auto intro: map_le_trans)
  next
    case (PcBulk ns)
    obtain r c2 s2 where 2: "pc_bulk_upsert db ns c1 s1 = (r, c2, s2)"
      by (metis prod_cases3)
    then show ?thesis
      using pc_bulk_inv[OF assms(1) ih(1) 2] ih 1 PcBulk by (auto intro: map_le_trans)
  qed
qed (use assms in simp)

text \<open>C17. From an empty cache, after any sequence of lookups and bulk registrations, whatever
  statements of the database fail in between: the cache holds at most its limit of entries,
  every entry is the id the table has for that name, and the next lookup that answers an id
  answers the table's id, from the cache or from the table alike; ids already handed out
  never change.\<close>

theorem pv_cache_agrees_with_table:
  assumes "pv_lookup_laws db ids"
    and "foldl (\<lambda>st x. pc_step db x st) (pc_with_limits m, s) ops = (c, s1)"
    and "pc_resolve db name c s1 = (r, c2, s2)"
  shows "pc_len c \<le> max m 1 \<and> map_of (pc_entries c) \<subseteq>\<^sub>m ids s1 \<and> ids s \<subseteq>\<^sub>m ids s1 \<and>
    (\<forall>i. r = Ok i \<longrightarrow> ids s2 name = Some i)"
proof -
  have "pc_inv (ids s) (pc_with_limits m)"
    by (simp add: pc_inv_def pc_with_limits_def pc_len_def)
  from pc_run_inv[OF assms(1) this, of ops] have
    "pc_inv (ids s1) c" "ids s \<subseteq>\<^sub>m ids s1" "pc_max_entries c = max m 1"
    using assms(2) by (auto simp: pc_with_limits_def)
  with pc_resolve_inv[OF assms(1) _ assms(3)] show ?thesis
    by (auto simp: pc_inv_def)
qed

text \<open>A table as an association list that hands out consecutive ids.\<close>

definition list_upsert :: "rstring \<Rightarrow> (rstring \<times> 32 word) list \<Rightarrow> (unit + 32 word) \<times> (rstring \<times> 32 word) list" where
  "list_upsert n s =
    (case map_of s n of
       Some i \<Rightarrow> (Ok i, s)
     | None \<Rightarrow> (let i = of_nat (length s + 1) in (Ok i, (n, i) # s)))"

definition list_pv_lookup :: "((rstring \<times> 32 word) list, unit) pv_lookup" where
  "list_pv_lookup = \<lparr> pl_upsert = list_upsert,
     pl_select_first = (\<lambda>k s. Ok (filter (\<lambda>(i, n). map_of s n = Some i) (map prod.swap (take k s)))),
     pl_insert_all = (\<lambda>ns s. (Ok (), fold (\<lambda>n s. snd (list_upsert n s)) ns s)),
     pl_select_any = (\<lambda>ns s. Ok (filter (\<lambda>(i, n). n \<in> set ns \<and> map_of s n = Some i) (map prod.swap s))) \<rparr>"

lemma list_upsert_mono: "map_of s \<subseteq>\<^sub>m map_of (snd (list_upsert n s))"
  by (auto simp: list_upsert_def map_le_def Let_def split: option.splits)

lemma list_pv_lookup_laws: "pv_lookup_laws list_pv_lookup map_of"
proof -
  have "map_of s \<subseteq>\<^sub>m map_of (fold (\<lambda>n s. snd (list_upsert n s)) ns s)" for ns s
    by (induction ns arbitrary: s) (auto intro: map_le_trans[OF list_upsert_mono])
  moreover have "list_upsert n s = (r, s') \<Longrightarrow> map_of s \<subseteq>\<^sub>m map_of s' \<and> (\<forall>i. r = Ok i \<longrightarrow> map_of s' n = Some i)" for n s r s'
    using list_upsert_mono[of s n] by (auto simp: list_upsert_def Let_def split: option.splits)
  ultimately show ?thesis
    by (auto simp: pv_lookup_laws_def list_pv_lookup_def)
qed

theorem pv_cache_agrees_with_table_witness:
  "case foldl (\<lambda>st x. pc_step list_pv_lookup x st) (pc_with_limits 1, [])
      [PcResolve (ascii ''a''), PcBulk [ascii ''b''], PcResolve (ascii ''b'')] of
    (c, s) \<Rightarrow> pc_len c \<le> 1 \<and> fst (pc_resolve list_pv_lookup (ascii ''b'') c s) = Ok 2 \<and>
      map_of s (ascii ''b'') = Some 2"
proof -
  let ?run = "foldl (\<lambda>st x. pc_step list_pv_lookup x st) (pc_with_limits 1, [])
      [PcResolve (ascii ''a''), PcBulk [ascii ''b''], PcResolve (ascii ''b'')]"
  obtain c s where r: "?run = (c, s)"
    by fastforce
  have "pc_len c \<le> max 1 1"
    using pv_cache_agrees_with_table[OF list_pv_lookup_laws r, of "ascii ''b''"] by (metis surj_pair)
  then show ?thesis
    using r by (auto simp: list_pv_lookup_def list_upsert_def pc_resolve_def pc_with_limits_def pc_len_def
        pc_put_def pc_bulk_upsert_def pc_take_row_def ascii_def Let_def)
qed

end
