(* ===== verification/CopyPool.thy ===== *)
theory CopyPool
  imports CopyRows
begin

text \<open>
  The pool of COPY connections (\<open>aura-store/src/writer/copy_pool.rs\<close>) and the flush of one
  table's rows over it (\<open>flush_section\<close> of \<open>aura-store/src/writer/mod.rs\<close>).  The
  PostgreSQL client is a library of its own: its calls and its errors are the argument
  \<open>api\<close>, over the database state \<open>'db\<close>.  The chunks of a parallel flush are sent in the
  order of their indices, one of the orders the concurrent tasks can take.
\<close>

section \<open>Errors\<close>

record copy_error =
  ce_message :: rstring
  ce_transient :: bool

definition pool_empty_error :: copy_error where
  "pool_empty_error =
    \<lparr> ce_message = ascii ''CopyPool is empty '' @ [0xE2, 0x80, 0x94] @
       ascii '' no COPY connections established'', ce_transient = False \<rparr>"

definition show_copy_error :: "copy_error \<Rightarrow> rstring" where
  "show_copy_error e =
    ce_message e @ ascii '' ['' @ ascii (if ce_transient e then ''transient'' else ''permanent'') @ ascii '']''"

record ('cl, 'sink, 'db, 'e) pg_api =
  pg_copy_in :: "'cl \<Rightarrow> string \<Rightarrow> 'db \<Rightarrow> ('e + 'sink) \<times> 'db"
  pg_send :: "'sink \<Rightarrow> bytes \<Rightarrow> 'db \<Rightarrow> ('e + 'sink) \<times> 'db"
  pg_close :: "'sink \<Rightarrow> 'db \<Rightarrow> ('e + unit) \<times> 'db"
  pg_is_closed :: "'e \<Rightarrow> bool"
  pg_code :: "'e \<Rightarrow> string option"
  pg_show :: "'e \<Rightarrow> rstring"

definition is_transient_pg_error :: "('cl, 'sink, 'db, 'e) pg_api \<Rightarrow> 'e \<Rightarrow> bool" where
  "is_transient_pg_error api e =
    (if pg_is_closed api e then True
     else
       (case pg_code api e of
          None \<Rightarrow> True
        | Some c \<Rightarrow> take 2 c = ''08'' \<or> take 2 c = ''40'' \<or> take 2 c = ''53'' \<or> take 2 c = ''57''))"

definition copy_error_from_pg ::
  "('cl, 'sink, 'db, 'e) pg_api \<Rightarrow> string \<Rightarrow> nat \<Rightarrow> nat \<Rightarrow> 'e \<Rightarrow> copy_error" where
  "copy_error_from_pg api stage conn_idx row_count e =
    \<lparr> ce_message = ascii stage @ ascii '' ('' @ show_nat row_count @ ascii '' rows, conn '' @
        show_nat conn_idx @ ascii ''): '' @ pg_show api e,
      ce_transient = is_transient_pg_error api e \<rparr>"

section \<open>Sending\<close>

type_synonym 'db sender = "nat \<Rightarrow> string \<Rightarrow> bytes \<Rightarrow> nat \<Rightarrow> 'db \<Rightarrow> (copy_error + unit) \<times> 'db"

definition pool_get :: "'cl list \<Rightarrow> nat \<Rightarrow> 'cl" where
  "pool_get clients i = clients ! (i mod length clients)"

definition send_copy_classified :: "('cl, 'sink, 'db, 'e) pg_api \<Rightarrow> 'cl list \<Rightarrow> 'db sender" where
  "send_copy_classified api clients i sql payload row_count db =
    (if clients = [] then (Err pool_empty_error, db)
     else
       (case pg_copy_in api (pool_get clients i) sql db of
          (Err e, db) \<Rightarrow> (Err (copy_error_from_pg api ''COPY begin'' i row_count e), db)
        | (Ok sink, db) \<Rightarrow>
       (case pg_send api sink payload db of
          (Err e, db) \<Rightarrow> (Err (copy_error_from_pg api ''COPY send'' i row_count e), db)
        | (Ok sink, db) \<Rightarrow>
       (case pg_close api sink db of
          (Err e, db) \<Rightarrow> (Err (copy_error_from_pg api ''COPY close'' i row_count e), db)
        | (Ok _, db) \<Rightarrow> (Ok (), db)))))"

text \<open>Reconnecting: \<open>closed\<close> and \<open>dial\<close> stand for the client library; a failed or timed out
  dial answers none.\<close>

definition reconnect_dead ::
  "('cl \<Rightarrow> bool) \<Rightarrow> (nat \<Rightarrow> 'cl option) \<Rightarrow> 'cl list \<Rightarrow> (nat \<times> nat) \<times> 'cl list" where
  "reconnect_dead closed dial clients =
    (if \<not> list_ex closed clients then ((0, 0), clients)
     else
       (let slots = zip [0..<length clients] clients;
            next_clients = map (\<lambda>(i, c). if closed c then (case dial i of Some c' \<Rightarrow> c' | None \<Rightarrow> c) else c) slots;
            reconnected = length (filter (\<lambda>(i, c). closed c \<and> dial i \<noteq> None) slots);
            still_dead = length (filter (\<lambda>(i, c). closed c \<and> dial i = None) slots)
        in ((reconnected, still_dead), if reconnected > 0 then next_clients else clients)))"

section \<open>Flushing the rows of one table\<close>

text \<open>\<open>rows.chunks(n)\<close>.\<close>

function chunks :: "nat \<Rightarrow> 'a list \<Rightarrow> 'a list list" where
  "chunks n xs = (if n = 0 \<or> xs = [] then [] else take n xs # chunks n (drop n xs))"
  by pat_completeness auto
termination by (relation "measure (length \<circ> snd)") auto

declare chunks.simps [simp del]

definition div_ceil :: "nat \<Rightarrow> nat \<Rightarrow> nat" where
  "div_ceil a b = (a + b - 1) div b"

text \<open>What a flush changes: the database, the messages, the count of lost rows, the progress
  counter, and the process-wide counter of capture ids.\<close>

record 'db flush_state =
  fs_db :: 'db
  fs_errors :: "rstring list"
  fs_lost :: nat
  fs_progress :: nat
  fs_cid :: "64 word"

primrec send_chunks ::
  "'db sender \<Rightarrow> string \<Rightarrow> nat \<Rightarrow> (bytes \<times> nat) list \<Rightarrow> 'db \<Rightarrow> nat \<Rightarrow>
   (copy_error + nat) list \<times> 'db \<times> nat" where
  "send_chunks send sql i [] db progress = ([], db, progress)"
| "send_chunks send sql i (p # ps) db progress =
    (case send i sql (fst p) (snd p) db of
       (Ok _, db') \<Rightarrow>
         (case send_chunks send sql (Suc i) ps db' (progress + snd p) of
            (rs, db'', progress') \<Rightarrow> (Ok (snd p) # rs, db'', progress'))
     | (Err e, db') \<Rightarrow>
         (case send_chunks send sql (Suc i) ps db' progress of
            (rs, db'', progress') \<Rightarrow> (Err e # rs, db'', progress')))"

text \<open>The answers in order: rows written, rows lost, messages, and which chunks to retry.\<close>

primrec tally ::
  "nat \<Rightarrow> nat \<Rightarrow> nat \<Rightarrow> (copy_error + nat) list \<Rightarrow> nat \<times> nat \<times> rstring list \<times> bool list" where
  "tally chunk_size count i [] = (0, 0, [], [])"
| "tally chunk_size count i (r # rs) =
    (case tally chunk_size count (Suc i) rs of
       (written, lost, errors, retry) \<Rightarrow>
         (case r of
            Ok n \<Rightarrow> (n + written, lost, errors, False # retry)
          | Err e \<Rightarrow>
              if ce_transient e then (written, lost, show_copy_error e # errors, True # retry)
              else
                (let first = i * chunk_size; last = min (first + chunk_size) count in
                 (written, last - first + lost, show_copy_error e # errors, False # retry))))"

definition retry_rows :: "nat \<Rightarrow> bool list \<Rightarrow> 'r list \<Rightarrow> 'r list" where
  "retry_rows chunk_size retry rows =
    map snd (filter (\<lambda>(pos, row). retry ! (pos div chunk_size)) (zip [0..<length rows] rows))"

definition flush_section ::
  "nat \<Rightarrow> 'db sender \<Rightarrow> string \<Rightarrow> 'r list \<Rightarrow> ('r list \<Rightarrow> bytes) \<Rightarrow> nat \<Rightarrow> 'db flush_state \<Rightarrow>
   nat \<times> 'r list \<times> 'db flush_state" where
  "flush_section n send sql rows build parallel_threshold st =
    (let count = length rows in
     if count = 0 then (0, [], st)
     else if count \<ge> parallel_threshold \<and> n > 1 then
       (let chunk_size = div_ceil count n;
            payloads = map (\<lambda>ch. (build ch, length ch)) (chunks chunk_size rows)
        in case send_chunks send sql 0 payloads (fs_db st) (fs_progress st) of
             (results, db, progress) \<Rightarrow>
               (case tally chunk_size count 0 results of
                  (written, lost, errors, retry) \<Rightarrow>
                    (written, if list_ex id retry then retry_rows chunk_size retry rows else [],
                     st \<lparr> fs_db := db, fs_progress := progress, fs_lost := fs_lost st + lost,
                          fs_errors := fs_errors st @ errors \<rparr>)))
     else
       (case send 0 sql (build rows) count (fs_db st) of
          (Ok _, db) \<Rightarrow> (count, [], st \<lparr> fs_db := db, fs_progress := fs_progress st + count \<rparr>)
        | (Err e, db) \<Rightarrow>
           (let st' = st \<lparr> fs_db := db, fs_errors := fs_errors st @ [show_copy_error e] \<rparr> in
            if ce_transient e then (0, rows, st')
            else (0, [], st' \<lparr> fs_lost := fs_lost st + count \<rparr>))))"

section \<open>Fates\<close>

text \<open>Specification: a flush gives every row exactly one fate.\<close>

datatype fate = Written | Retried | Lost

definition fated :: "fate \<Rightarrow> 'r list \<Rightarrow> fate list \<Rightarrow> 'r list" where
  "fated f rows fates = map fst (filter (\<lambda>(_, g). g = f) (zip rows fates))"

fun answer_fate :: "copy_error + 'a \<Rightarrow> fate" where
  "answer_fate (Inr _) = Written"
| "answer_fate (Inl e) = (if ce_transient e then Retried else Lost)"

lemma fated_append:
  "length xs = length fs \<Longrightarrow> fated f (xs @ ys) (fs @ gs) = fated f xs fs @ fated f ys gs"
  by (simp add: fated_def)

lemma fated_replicate [simp]: "fated f xs (replicate (length xs) g) = (if g = f then xs else [])"
  by (induction xs) (auto simp: fated_def)

lemma fated_Nil [simp]: "fated f [] fs = []"
  by (simp add: fated_def)

lemma fates_partition:
  assumes "length fs = length xs"
  shows "length (fated Written xs fs) + length (fated Retried xs fs) + length (fated Lost xs fs) = length xs"
  using assms
proof (induction fs arbitrary: xs)
  case (Cons g gs)
  then obtain y ys where "xs = y # ys"
    by (cases xs) auto
  then show ?case
    using Cons by (cases g) (auto simp: fated_def)
qed (simp add: fated_def)

text \<open>Each COPY is a transaction of its own: an acknowledged payload is appended to its
  table, a refused one changes nothing.\<close>

definition transactional :: "'db sender \<Rightarrow> ('db \<Rightarrow> string \<Rightarrow> bytes list list) \<Rightarrow> bool" where
  "transactional send stored \<longleftrightarrow>
    (\<forall>i sql p n db r db'. send i sql p n db = (r, db') \<longrightarrow>
       (\<forall>t. t \<noteq> sql \<longrightarrow> stored db' t = stored db t) \<and>
       (case r of
          Ok _ \<Rightarrow> \<forall>rows. pg_parse p = Some rows \<longrightarrow> stored db' sql = stored db sql @ rows
        | Err _ \<Rightarrow> stored db' sql = stored db sql))"

lemma transactional_ok:
  "transactional send stored \<Longrightarrow> send i sql p n db = (Ok u, db') \<Longrightarrow> pg_parse p = Some rows \<Longrightarrow>
    stored db' = (stored db)(sql := stored db sql @ rows)"
  by (rule ext, rename_tac t, case_tac "t = sql") (fastforce simp: transactional_def)+

lemma transactional_err:
  "transactional send stored \<Longrightarrow> send i sql p n db = (Err e, db') \<Longrightarrow> stored db' = stored db"
  by (rule ext, rename_tac t, case_tac "t = sql") (fastforce simp: transactional_def)+

definition chunk_fates :: "'r list list \<Rightarrow> (copy_error + nat) list \<Rightarrow> fate list" where
  "chunk_fates chs results = concat (map2 (\<lambda>ch r. replicate (length ch) (answer_fate r)) chs results)"

lemma chunk_fates_simps [simp]:
  "chunk_fates [] rs = []" "chunk_fates chs [] = []"
  "chunk_fates (ch # chs) (r # rs) = replicate (length ch) (answer_fate r) @ chunk_fates chs rs"
  by (simp_all add: chunk_fates_def)

lemma length_chunk_fates: "length rs = length chs \<Longrightarrow> length (chunk_fates chs rs) = length (concat chs)"
  by (induction rs chs rule: list_induct2) auto

lemma concat_chunks: "0 < n \<Longrightarrow> concat (chunks n xs) = xs"
  by (induction n xs rule: chunks.induct) (subst chunks.simps, auto)

section \<open>Every row has one fate\<close>

lemma send_chunks_spec:
  assumes "ok \<Longrightarrow> transactional send stored"
    and "ok \<longrightarrow> (\<forall>ch \<in> set chs. pg_parse (build ch) = Some (map cols ch))"
    and "send_chunks send sql i (map (\<lambda>ch. (build ch, length ch)) chs) db p = (rs, db', p')"
  shows "length rs = length chs \<and>
    (ok \<longrightarrow> stored db' = (stored db)(sql := stored db sql @ map cols (fated Written (concat chs) (chunk_fates chs rs)))) \<and>
    p' = p + length (fated Written (concat chs) (chunk_fates chs rs)) \<and>
    list_all2 (\<lambda>ch r. \<forall>n. r = Ok n \<longrightarrow> n = length ch) chs rs"
  using assms(2,3)
proof (induction chs arbitrary: i db p rs db' p')
  case (Cons ch chs)
  obtain a db1 where a: "send i sql (build ch) (length ch) db = (a, db1)"
    by fastforce
  have ch: "ok \<Longrightarrow> pg_parse (build ch) = Some (map cols ch)"
    using Cons.prems by simp
  show ?case
  proof (cases a)
    case (Inl e)
    obtain rs' where r: "send_chunks send sql (Suc i) (map (\<lambda>ch. (build ch, length ch)) chs) db1 p = (rs', db', p')"
      "rs = Err e # rs'"
      using Cons.prems(2) a Inl by (auto split: prod.splits)
    with Cons.IH[OF _ r(1)] Cons.prems(1) Inl transactional_err[OF assms(1) a[unfolded Inl]] show ?thesis
      by (auto simp: fated_append length_chunk_fates)
  next
    case (Inr u)
    obtain rs' where r: "send_chunks send sql (Suc i) (map (\<lambda>ch. (build ch, length ch)) chs) db1 (p + length ch) = (rs', db', p')"
      "rs = Ok (length ch) # rs'"
      using Cons.prems(2) a Inr by (auto split: prod.splits)
    with Cons.IH[OF _ r(1)] Cons.prems(1) Inr transactional_ok[OF assms(1) a[unfolded Inr] ch] show ?thesis
      by (auto simp: fated_append length_chunk_fates)
  qed
qed simp

lemma tally_spec:
  assumes "0 < c" "tally c count i rs = (w, l, es, fl)" "length rs = length (chunks c xs)"
    and "list_all2 (\<lambda>ch r. \<forall>n. r = Ok n \<longrightarrow> n = length ch) (chunks c xs) rs"
    and "xs \<noteq> [] \<longrightarrow> count = i * c + length xs"
  shows "w = length (fated Written xs (chunk_fates (chunks c xs) rs)) \<and>
    l = length (fated Lost xs (chunk_fates (chunks c xs) rs)) \<and>
    fl = map (\<lambda>r. answer_fate r = Retried) rs"
  using assms(2-5)
proof (induction rs arbitrary: i w l es fl xs)
  case Nil
  then have "xs = []"
    using assms(1) chunks.simps[of c xs] by (cases "xs = []") simp_all
  with Nil show ?case
    by simp
next
  case (Cons r rs)
  from Cons.prems(2) have ne: "xs \<noteq> []"
    by (auto simp: chunks.simps[of c "[]"])
  then have ch: "chunks c xs = take c xs # chunks c (drop c xs)"
    using assms(1) by (simp add: chunks.simps[of c xs])
  obtain w' l' es' fl' where t: "tally c count (Suc i) rs = (w', l', es', fl')"
    by (metis prod_cases4)
  have rest: "drop c xs \<noteq> [] \<longrightarrow> count = Suc i * c + length (drop c xs)"
    using Cons.prems(4) ne by auto
  have IH: "w' = length (fated Written (drop c xs) (chunk_fates (chunks c (drop c xs)) rs)) \<and>
    l' = length (fated Lost (drop c xs) (chunk_fates (chunks c (drop c xs)) rs)) \<and>
    fl' = map (\<lambda>r. answer_fate r = Retried) rs"
    using Cons.prems(2,3) ch rest by (intro Cons.IH[OF t]) simp_all
  have split: "fated f xs (chunk_fates (chunks c xs) (r # rs)) =
      (if answer_fate r = f then take c xs else []) @
      fated f (drop c xs) (chunk_fates (chunks c (drop c xs)) rs)" for f
    using fated_append[of "take c xs" "replicate (length (take c xs)) (answer_fate r)" f "drop c xs"
        "chunk_fates (chunks c (drop c xs)) rs"]
    by (simp only: ch chunk_fates_simps length_replicate append_take_drop_id fated_replicate)
  have len: "min (i * c + c) count - i * c = length (take c xs)"
    using Cons.prems(4) ne by simp
  show ?case
    using Cons.prems(1,3) t IH ch len unfolding split
    by (cases r) (auto simp: Let_def split: if_splits)
qed


lemma retry_rows_shift:
  assumes "0 < c" "length rs = length (chunks c xs)"
  shows "map snd (filter (\<lambda>(pos, row). map (\<lambda>r. answer_fate r = Retried) rs ! (pos div c - i))
      (zip [i * c..<i * c + length xs] xs)) = fated Retried xs (chunk_fates (chunks c xs) rs)"
  using assms(2)
proof (induction rs arbitrary: i xs)
  case Nil
  then have "xs = []"
    using assms(1) chunks.simps[of c xs] by (cases "xs = []") simp_all
  then show ?case
    by simp
next
  case (Cons r rs)
  from Cons.prems have ne: "xs \<noteq> []"
    by (auto simp: chunks.simps[of c "[]"])
  then have ch: "chunks c xs = take c xs # chunks c (drop c xs)"
    using assms(1) by (simp add: chunks.simps[of c xs])
  let ?P = "\<lambda>rs i. \<lambda>(pos, row). map (\<lambda>r. answer_fate r = Retried) rs ! (pos div c - i)"
  let ?b = "answer_fate r = Retried"
  have A: "map snd (filter (?P (r # rs) i) (zip [i * c..<i * c + length (take c xs)] (take c xs))) =
      (if ?b then take c xs else [])"
  proof -
    have "filter (?P (r # rs) i) (zip [i * c..<i * c + length (take c xs)] (take c xs)) =
        (if ?b then zip [i * c..<i * c + length (take c xs)] (take c xs) else [])"
      by (auto simp: filter_id_conv filter_empty_conv set_zip div_nat_eqI[of i c] split: if_splits)
    then show ?thesis
      by simp
  qed
  have B: "filter (?P (r # rs) i) (zip [Suc i * c..<Suc i * c + length (drop c xs)] (drop c xs)) =
      filter (?P rs (Suc i)) (zip [Suc i * c..<Suc i * c + length (drop c xs)] (drop c xs))"
  proof (rule filter_cong[OF refl], clarsimp simp: set_zip)
    fix k assume "k < length xs - c"
    have "Suc i \<le> (c + i * c + k) div c"
      using assms(1) by (simp add: div_add_self1 add.assoc)
    then show "(?b # map (\<lambda>r. answer_fate r = Retried) rs) ! ((c + i * c + k) div c - i) =
        map (\<lambda>r. answer_fate r = Retried) rs ! ((c + i * c + k) div c - Suc i)"
      by (simp add: nth_Cons' Suc_diff_le)
  qed
  have Z: "zip [i * c..<i * c + length xs] xs = zip [i * c..<i * c + length (take c xs)] (take c xs) @
      zip [Suc i * c..<Suc i * c + length (drop c xs)] (drop c xs)"
  proof (cases "length xs \<le> c")
    case False
    then have "[i * c..<i * c + length xs] = [i * c..<i * c + c] @ [i * c + c..<i * c + length xs]"
      using upt_add_eq_append[of "i * c" "i * c + c" "length xs - c"] by simp
    then show ?thesis
      using False zip_append[of "[i * c..<i * c + c]" "take c xs" "[i * c + c..<i * c + length xs]" "drop c xs"]
      by (simp add: add.commute add.left_commute)
  qed simp
  have "length rs = length (chunks c (drop c xs))"
    using Cons.prems ch by simp
  note IH = Cons.IH[OF this, of "Suc i"]
  have "fated Retried xs (chunk_fates (chunks c xs) (r # rs)) =
      (if ?b then take c xs else []) @ fated Retried (drop c xs) (chunk_fates (chunks c (drop c xs)) rs)"
    using fated_append[of "take c xs" "replicate (length (take c xs)) (answer_fate r)"
       Retried "drop c xs" "chunk_fates (chunks c (drop c xs)) rs"]
    by (simp only: ch chunk_fates_simps length_replicate append_take_drop_id fated_replicate)
  then show ?case
    unfolding Z filter_append map_append A B IH by simp
qed


lemmas retry_rows_spec = retry_rows_shift[where i = 0, simplified, folded retry_rows_def]

definition section_accounts ::
  "bool \<Rightarrow> ('r \<Rightarrow> bytes list) \<Rightarrow> string \<Rightarrow> 'r list \<Rightarrow> ('db \<Rightarrow> string \<Rightarrow> bytes list list) \<Rightarrow>
   'db flush_state \<Rightarrow> nat \<Rightarrow> 'r list \<Rightarrow> 'db flush_state \<Rightarrow> fate list \<Rightarrow> bool" where
  "section_accounts ok cols sql rows stored st written keep st' fates \<longleftrightarrow>
    length fates = length rows \<and>
    (ok \<longrightarrow> stored (fs_db st') = (stored (fs_db st))(sql := stored (fs_db st) sql @ map cols (fated Written rows fates))) \<and>
    written = length (fated Written rows fates) \<and>
    fs_progress st' = fs_progress st + written \<and>
    keep = fated Retried rows fates \<and>
    fs_lost st' = fs_lost st + length (fated Lost rows fates)"

lemma chunks_members: "ch \<in> set (chunks c xs) \<Longrightarrow> set ch \<subseteq> set xs"
proof (induction c xs rule: chunks.induct)
  case (1 c xs)
  then show ?case
    using chunks.simps[of c xs] by (auto split: if_splits dest: in_set_takeD in_set_dropD)
qed

lemma fated_none:
  assumes "\<forall>r \<in> set rs. answer_fate r \<noteq> f"
  shows "fated f (concat chs) (chunk_fates chs rs) = []"
  using assms
proof (induction rs arbitrary: chs)
  case (Cons r rs)
  then show ?case
    by (cases chs) (auto simp: fated_append)
qed (simp add: fated_def)

lemma section_accounted:
  assumes "ok \<Longrightarrow> transactional send stored"
    and build: "\<And>rs. ok \<Longrightarrow> set rs \<subseteq> set rows \<Longrightarrow> pg_parse (build rs) = Some (map cols rs)"
    and run: "flush_section n send sql rows build threshold st = (written, keep, st')"
  shows "\<exists>fates. section_accounts ok cols sql rows stored st written keep st' fates"
proof (cases "rows = [] \<or> \<not> (threshold \<le> length rows \<and> 1 < n)")
  case True
  obtain a db where a: "send 0 sql (build rows) (length rows) (fs_db st) = (a, db)"
    by fastforce
  have b: "ok \<Longrightarrow> pg_parse (build rows) = Some (map cols rows)"
    using build by simp
  let ?fates = "replicate (length rows) (answer_fate a)"
  have "section_accounts ok cols sql rows stored st written keep st' ?fates"
    using True run a transactional_ok[OF assms(1) _ b] transactional_err[OF assms(1)]
    by (cases a) (auto simp: section_accounts_def flush_section_def Let_def split: if_splits)
  then show ?thesis
    by blast
next
  case False
  let ?c = "div_ceil (length rows) n"
  have "1 \<le> length rows" "1 < n"
    using False by (auto simp: Suc_le_eq)
  then have "n \<le> length rows + n - 1" "0 < n"
    by linarith+
  then have c: "0 < ?c"
    unfolding div_ceil_def div_greater_zero_iff by (rule conjI)
  obtain rs db p where s: "send_chunks send sql 0 (map (\<lambda>ch. (build ch, length ch)) (chunks ?c rows))
      (fs_db st) (fs_progress st) = (rs, db, p)"
    by (metis prod_cases3)
  have "ok \<longrightarrow> (\<forall>ch \<in> set (chunks ?c rows). pg_parse (build ch) = Some (map cols ch))"
    using build chunks_members by blast
  note sent = send_chunks_spec[where ok = ok, OF assms(1) this s, unfolded concat_chunks[OF c]]
  obtain w l es fl where t: "tally ?c (length rows) 0 rs = (w, l, es, fl)"
    by (metis prod_cases4)
  have tal: "w = length (fated Written rows (chunk_fates (chunks ?c rows) rs)) \<and>
      l = length (fated Lost rows (chunk_fates (chunks ?c rows) rs)) \<and>
      fl = map (\<lambda>r. answer_fate r = Retried) rs"
    by (rule tally_spec[OF c t]) (use sent in simp_all)
  have kept: "(if list_ex id fl then retry_rows ?c fl rows else []) =
      fated Retried rows (chunk_fates (chunks ?c rows) rs)"
    using retry_rows_spec[OF c, of rs rows] sent tal
      fated_none[of rs Retried "chunks ?c rows", unfolded concat_chunks[OF c]]
    by (auto simp: list_ex_iff)
  have "section_accounts ok cols sql rows stored st written keep st' (chunk_fates (chunks ?c rows) rs)"
    using False run s t sent tal kept length_chunk_fates[of rs "chunks ?c rows", unfolded concat_chunks[OF c]]
    by (auto simp: section_accounts_def flush_section_def Let_def)
  then show ?thesis
    by blast
qed

end
