(* ===== verification/Writers.thy ===== *)
theory Writers
  imports SharedBuf PvCache CopyPool
begin

text \<open>
  The batch writers (\<open>ScalarWriter\<close>, \<open>StringWriter\<close>, \<open>ArrayWriter\<close>, \<open>JsonWriter\<close>,
  \<open>ImageWriter\<close>) and the \<open>BatchWriter\<close> that owns them
  (\<open>aura-store/src/writer/mod.rs\<close>): ingestion of the rows taken from the shared buffers, and
  the bundle handed to a background flush.  Timing counters are left out; the process-wide
  counter of array ids is passed and returned.
\<close>

section \<open>Writers\<close>

text \<open>The writers of string, JSON and image rows have the same fields and the same \<open>push\<close>,
  with the size of a row.\<close>

record 'r row_writer =
  rw_batch_size :: nat
  rw_max_bytes :: nat
  rw_buffer :: "'r list"
  rw_bytes :: nat
  rw_written :: u64
  rw_flushes :: u64
  rw_backpressure :: u64

definition row_writer_new :: "nat \<Rightarrow> nat \<Rightarrow> 'r row_writer" where
  "row_writer_new batch_size max_bytes =
    \<lparr> rw_batch_size = max batch_size 1, rw_max_bytes = max_bytes, rw_buffer = [], rw_bytes = 0,
      rw_written = 0, rw_flushes = 0, rw_backpressure = 0 \<rparr>"

definition row_push :: "('r \<Rightarrow> nat) \<Rightarrow> 'r \<Rightarrow> 'r row_writer \<Rightarrow> PushResult \<times> 'r row_writer" where
  "row_push mem row w =
    (if rw_buffer w \<noteq> [] \<and> rw_bytes w + mem row > rw_max_bytes w then
       (BackpressureExceeded, w \<lparr> rw_backpressure := rw_backpressure w + 1 \<rparr>)
     else
       (let w' = w \<lparr> rw_bytes := rw_bytes w + mem row, rw_buffer := rw_buffer w @ [row] \<rparr> in
        (if length (rw_buffer w') \<ge> rw_batch_size w' then Full else Accepted, w')))"

definition row_is_full :: "'r row_writer \<Rightarrow> bool" where
  "row_is_full w \<longleftrightarrow> length (rw_buffer w) \<ge> rw_batch_size w"

definition row_discard :: "'r row_writer \<Rightarrow> 'r row_writer" where
  "row_discard w = w \<lparr> rw_buffer := [], rw_bytes := 0 \<rparr>"

definition string_writer_new :: "nat \<Rightarrow> nat \<Rightarrow> 'dt string_row row_writer" where
  "string_writer_new batch_size max_bytes = row_writer_new batch_size (max max_bytes 1024)"

definition json_writer_new :: "nat \<Rightarrow> nat \<Rightarrow> ('dt, 'num) json_row row_writer" where
  "json_writer_new batch_size max_bytes = row_writer_new batch_size (max max_bytes 64)"

definition image_writer_new :: "nat \<Rightarrow> nat \<Rightarrow> ('dt, 'num) image_row row_writer" where
  "image_writer_new batch_size max_bytes = row_writer_new batch_size (max max_bytes 1024)"

definition string_push :: "'dt string_row \<Rightarrow> 'dt string_row row_writer \<Rightarrow> PushResult \<times> 'dt string_row row_writer" where
  "string_push = row_push string_mem_size"

definition json_push ::
  "('dt, 'num) json_row \<Rightarrow> ('dt, 'num) json_row row_writer \<Rightarrow> PushResult \<times> ('dt, 'num) json_row row_writer" where
  "json_push = row_push jr_estimated_size"

definition image_push ::
  "('dt, 'num) image_row \<Rightarrow> ('dt, 'num) image_row row_writer \<Rightarrow> PushResult \<times> ('dt, 'num) image_row row_writer" where
  "image_push = row_push image_mem_size"

record scalar_writer =
  sw_batch_size :: nat
  sw_max_bytes :: nat
  sw_buffer :: "scalar_row list"
  sw_written :: u64
  sw_flushes :: u64
  sw_backpressure :: u64
  sw_non_finite :: u64

definition scalar_writer_new :: "nat \<Rightarrow> nat \<Rightarrow> scalar_writer" where
  "scalar_writer_new batch_size max_bytes =
    \<lparr> sw_batch_size = max batch_size 1, sw_max_bytes = max max_bytes ROW_MEM_SIZE, sw_buffer = [],
      sw_written = 0, sw_flushes = 0, sw_backpressure = 0, sw_non_finite = 0 \<rparr>"

definition scalar_push :: "scalar_row \<Rightarrow> scalar_writer \<Rightarrow> PushResult \<times> scalar_writer" where
  "scalar_push row w =
    (if sw_buffer w \<noteq> [] \<and> length (sw_buffer w) * ROW_MEM_SIZE + ROW_MEM_SIZE > sw_max_bytes w then
       (BackpressureExceeded, w \<lparr> sw_backpressure := sw_backpressure w + 1 \<rparr>)
     else
       (let w' = w \<lparr> sw_non_finite := (if has_non_finite row then sw_non_finite w + 1 else sw_non_finite w),
                     sw_buffer := sw_buffer w @ [row] \<rparr> in
        (if length (sw_buffer w') \<ge> sw_batch_size w' then Full else Accepted, w')))"

definition scalar_is_full :: "scalar_writer \<Rightarrow> bool" where
  "scalar_is_full w \<longleftrightarrow> length (sw_buffer w) \<ge> sw_batch_size w"

definition scalar_discard :: "scalar_writer \<Rightarrow> scalar_writer" where
  "scalar_discard w = w \<lparr> sw_buffer := [] \<rparr>"

record array_writer =
  aw_batch_size :: nat
  aw_max_bytes :: nat
  aw_num :: "array_num_row list"
  aw_str :: "array_str_row list"
  aw_bytes :: nat
  aw_written :: u64
  aw_captures :: u64
  aw_elements :: u64
  aw_flushes :: u64
  aw_backpressure :: u64

definition array_writer_new :: "nat \<Rightarrow> nat \<Rightarrow> array_writer" where
  "array_writer_new batch_size max_bytes =
    \<lparr> aw_batch_size = max batch_size 1, aw_max_bytes = max max_bytes 1024, aw_num = [], aw_str = [],
      aw_bytes = 0, aw_written = 0, aw_captures = 0, aw_elements = 0, aw_flushes = 0, aw_backpressure = 0 \<rparr>"

fun array_est_bytes :: "ArrayData \<Rightarrow> nat" where
  "array_est_bytes (AdNumeric v) = length v * NUM_WIRE_SIZE"
| "array_est_bytes (AdString v) = sum_list (map (\<lambda>s. STR_WIRE_BASE + length s) v)"

definition num_rows :: "64 word \<Rightarrow> 64 word \<Rightarrow> 'dt array_capture \<Rightarrow> f64bits list \<Rightarrow> array_num_row list" where
  "num_rows pg_us aid c vs = map (\<lambda>(i, v).
     \<lparr> an_pg_us = pg_us, an_pv_id = ac_pv_id c, an_array_id = aid, an_idx = of_nat i, an_value = v,
       an_severity = ac_severity16 c, an_status = ac_status16 c \<rparr>) (zip [0..<length vs] vs)"

definition str_rows :: "64 word \<Rightarrow> 64 word \<Rightarrow> 'dt array_capture \<Rightarrow> rstring list \<Rightarrow> array_str_row list" where
  "str_rows pg_us aid c vs = map (\<lambda>(i, v).
     \<lparr> as_pg_us = pg_us, as_pv_id = ac_pv_id c, as_array_id = aid, as_idx = of_nat i, as_value = v,
       as_severity = ac_severity16 c, as_status = ac_status16 c \<rparr>) (zip [0..<length vs] vs)"

definition array_len :: "array_writer \<Rightarrow> nat" where
  "array_len w = length (aw_num w) + length (aw_str w)"

definition array_is_full :: "array_writer \<Rightarrow> bool" where
  "array_is_full w \<longleftrightarrow> array_len w \<ge> aw_batch_size w"

definition array_push ::
  "'dt calendar \<Rightarrow> 'dt array_capture \<Rightarrow> array_writer \<Rightarrow> 64 word \<Rightarrow> PushResult \<times> array_writer \<times> 64 word" where
  "array_push cal c w next_id =
    (let n = capture_len c; est = array_est_bytes (ac_data c) in
     if n = 0 then (Accepted, w, next_id)
     else if (aw_num w \<noteq> [] \<or> aw_str w \<noteq> []) \<and> aw_bytes w + est > aw_max_bytes w then
       (BackpressureExceeded, w \<lparr> aw_backpressure := aw_backpressure w + 1 \<rparr>, next_id)
     else
       (let us = pg_micros cal (ac_time c);
            w1 = w \<lparr> aw_bytes := aw_bytes w + est, aw_captures := aw_captures w + 1,
                     aw_elements := aw_elements w + of_nat n \<rparr>;
            w2 = (case ac_data c of
                    AdNumeric vs \<Rightarrow> w1 \<lparr> aw_num := aw_num w1 @ num_rows us next_id c vs \<rparr>
                  | AdString vs \<Rightarrow> w1 \<lparr> aw_str := aw_str w1 @ str_rows us next_id c vs \<rparr>)
        in (if array_is_full w2 then Full else Accepted, w2, next_id + 1)))"

definition array_discard :: "array_writer \<Rightarrow> array_writer" where
  "array_discard w = w \<lparr> aw_num := [], aw_str := [], aw_bytes := 0 \<rparr>"

section \<open>The interface of a writer\<close>

locale batch_writer_buffer =
  fixes push :: "'r \<Rightarrow> 'w \<Rightarrow> PushResult \<times> 'w"
    and buffered :: "'w \<Rightarrow> 'r list"
  assumes buffered_push:
      "buffered (snd (push r w)) = buffered w @ (if is_accepted (fst (push r w)) then [r] else [])"
    and empty_accepts: "buffered w = [] \<Longrightarrow> is_accepted (fst (push r w))"
begin

definition push_rows :: "'r list \<Rightarrow> 'w \<Rightarrow> 'w" where
  "push_rows rows w = fold (\<lambda>r w. snd (push r w)) rows w"

lemma push_rows_subseq: "\<exists>kept. subseq kept rows \<and> buffered (push_rows rows w) = buffered w @ kept"
proof (induction rows arbitrary: w)
  case (Cons r rows)
  obtain kept where "subseq kept rows" "buffered (push_rows rows (snd (push r w))) = buffered (snd (push r w)) @ kept"
    using Cons by blast
  then show ?case
    by (intro exI[of _ "(if is_accepted (fst (push r w)) then [r] else []) @ kept"])
      (auto simp: push_rows_def buffered_push)
qed (simp add: push_rows_def)

text \<open>A writer that is emptied takes at least the next row.\<close>

lemma push_rows_progress:
  "buffered w = [] \<Longrightarrow> rows \<noteq> [] \<Longrightarrow> buffered (push_rows rows w) \<noteq> []"
proof (cases rows)
  case (Cons r rest)
  assume "buffered w = []"
  then show ?thesis
    using push_rows_subseq[of rest "snd (push r w)"] Cons buffered_push[of r w] empty_accepts[of w r]
    by (auto simp: push_rows_def)
qed simp

end

interpretation string_writer: batch_writer_buffer string_push rw_buffer
  by unfold_locales (auto simp: string_push_def row_push_def Let_def)

interpretation json_writer: batch_writer_buffer json_push rw_buffer
  by unfold_locales (auto simp: json_push_def row_push_def Let_def)

interpretation image_writer: batch_writer_buffer image_push rw_buffer
  by unfold_locales (auto simp: image_push_def row_push_def Let_def)

interpretation scalar_writer: batch_writer_buffer scalar_push sw_buffer
  by unfold_locales (auto simp: scalar_push_def Let_def)

section \<open>The batch writer\<close>

record batch_writer_config =
  cf_scalar :: nat
  cf_string :: nat
  cf_array :: nat
  cf_json :: nat
  cf_image :: nat

definition config_default :: batch_writer_config where
  "config_default = \<lparr> cf_scalar = 500, cf_string = 500, cf_array = 200, cf_json = 200, cf_image = 50 \<rparr>"

record ('dt, 'num) batch_writer =
  bw_cache :: pv_cache
  bw_scalar :: scalar_writer
  bw_string :: "'dt string_row row_writer"
  bw_array :: array_writer
  bw_json :: "('dt, 'num) json_row row_writer"
  bw_image :: "('dt, 'num) image_row row_writer"
  bw_next_array_id :: "64 word"
  bw_dispatched :: u64
  bw_errors :: u64

definition MB :: nat where "MB = 1024 * 1024"

definition batch_writer_new :: "batch_writer_config \<Rightarrow> ('dt, 'num) batch_writer" where
  "batch_writer_new c =
    \<lparr> bw_cache = pc_new,
      bw_scalar = scalar_writer_new (cf_scalar c) (64 * MB),
      bw_string = string_writer_new (cf_string c) (32 * MB),
      bw_array = array_writer_new (cf_array c) (64 * MB),
      bw_json = json_writer_new (cf_json c) (32 * MB),
      bw_image = image_writer_new (cf_image c) (128 * MB),
      bw_next_array_id = 1, bw_dispatched = 0, bw_errors = 0 \<rparr>"

definition ingest_scalars ::
  "scalar_row list \<Rightarrow> ('dt, 'num) batch_writer \<Rightarrow> nat \<times> ('dt, 'num) batch_writer" where
  "ingest_scalars rows w =
    (let count = length rows in
     if count = 0 then (0, w)
     else
       (let s = bw_scalar w;
            s' = s \<lparr> sw_non_finite := sw_non_finite s + of_nat (length (filter has_non_finite rows)),
                     sw_buffer := sw_buffer s @ rows \<rparr>
        in (count, w \<lparr> bw_scalar := s', bw_dispatched := bw_dispatched w + of_nat count \<rparr>)))"

fun ingest_other_row ::
  "'dt calendar \<Rightarrow> ('dt, 'num) WriterRow \<Rightarrow> ('dt, 'num) batch_writer \<Rightarrow> ('dt, 'num) batch_writer" where
  "ingest_other_row cal (WrString r) w = w \<lparr> bw_string := snd (string_push r (bw_string w)) \<rparr>"
| "ingest_other_row cal (WrArray c) w =
    (case array_push cal c (bw_array w) (bw_next_array_id w) of
       (_, a, i) \<Rightarrow> w \<lparr> bw_array := a, bw_next_array_id := i \<rparr>)"
| "ingest_other_row cal (WrJson r) w = w \<lparr> bw_json := snd (json_push r (bw_json w)) \<rparr>"
| "ingest_other_row cal (WrImage r) w = w \<lparr> bw_image := snd (image_push r (bw_image w)) \<rparr>"

definition ingest_other_rows ::
  "'dt calendar \<Rightarrow> ('dt, 'num) WriterRow list \<Rightarrow> ('dt, 'num) batch_writer \<Rightarrow>
   nat \<times> ('dt, 'num) batch_writer" where
  "ingest_other_rows cal rows w =
    (let w' = fold (ingest_other_row cal) rows w in
     (length rows, w' \<lparr> bw_dispatched := bw_dispatched w' + of_nat (length rows) \<rparr>))"

definition total_buffered :: "('dt, 'num) batch_writer \<Rightarrow> nat" where
  "total_buffered w = length (sw_buffer (bw_scalar w)) + length (rw_buffer (bw_string w)) +
     array_len (bw_array w) + length (rw_buffer (bw_json w)) + length (rw_buffer (bw_image w))"

definition has_pending :: "('dt, 'num) batch_writer \<Rightarrow> bool" where
  "has_pending w \<longleftrightarrow> sw_buffer (bw_scalar w) \<noteq> [] \<or> rw_buffer (bw_string w) \<noteq> [] \<or>
     \<not> (aw_num (bw_array w) = [] \<and> aw_str (bw_array w) = []) \<or>
     rw_buffer (bw_json w) \<noteq> [] \<or> rw_buffer (bw_image w) \<noteq> []"

definition any_writer_full :: "('dt, 'num) batch_writer \<Rightarrow> bool" where
  "any_writer_full w \<longleftrightarrow> scalar_is_full (bw_scalar w) \<or> row_is_full (bw_string w) \<or>
     array_is_full (bw_array w) \<or> row_is_full (bw_json w) \<or> row_is_full (bw_image w)"

definition discard_all :: "('dt, 'num) batch_writer \<Rightarrow> ('dt, 'num) batch_writer" where
  "discard_all w = w \<lparr> bw_scalar := scalar_discard (bw_scalar w), bw_string := row_discard (bw_string w),
     bw_array := array_discard (bw_array w), bw_json := row_discard (bw_json w),
     bw_image := row_discard (bw_image w) \<rparr>"

section \<open>Bundles\<close>

record ('dt, 'num) flush_bundle =
  fb_scalars :: "scalar_row list"
  fb_strings :: "'dt string_row list"
  fb_nums :: "array_num_row list"
  fb_strs :: "array_str_row list"
  fb_jsons :: "('dt, 'num) json_row list"
  fb_images :: "('dt, 'num) image_row list"

definition total_rows :: "('dt, 'num) flush_bundle \<Rightarrow> nat" where
  "total_rows b = length (fb_scalars b) + length (fb_strings b) + length (fb_nums b) +
     length (fb_strs b) + length (fb_jsons b) + length (fb_images b)"

text \<open>\<open>std::mem::take\<close> of the six buffers; nothing else of the writers changes.\<close>

definition take_flush_bundle ::
  "('dt, 'num) batch_writer \<Rightarrow> ('dt, 'num) flush_bundle option \<times> ('dt, 'num) batch_writer" where
  "take_flush_bundle w =
    (if \<not> has_pending w then (None, w)
     else
       (Some \<lparr> fb_scalars = sw_buffer (bw_scalar w), fb_strings = rw_buffer (bw_string w),
               fb_nums = aw_num (bw_array w), fb_strs = aw_str (bw_array w),
               fb_jsons = rw_buffer (bw_json w), fb_images = rw_buffer (bw_image w) \<rparr>,
        w \<lparr> bw_scalar := (bw_scalar w) \<lparr> sw_buffer := [] \<rparr>,
            bw_string := (bw_string w) \<lparr> rw_buffer := [] \<rparr>,
            bw_array := (bw_array w) \<lparr> aw_num := [], aw_str := [] \<rparr>,
            bw_json := (bw_json w) \<lparr> rw_buffer := [] \<rparr>,
            bw_image := (bw_image w) \<lparr> rw_buffer := [] \<rparr> \<rparr>))"

lemma take_flush_bundle_rows:
  "case take_flush_bundle w of
     (None, w') \<Rightarrow> total_buffered w = 0 \<and> w' = w
   | (Some b, w') \<Rightarrow> total_rows b = total_buffered w \<and> total_buffered w' = 0 \<and> 0 < total_rows b"
  by (auto simp: take_flush_bundle_def has_pending_def total_buffered_def total_rows_def array_len_def)

section \<open>Ingestion\<close>

text \<open>The rows of each kind inside a list of rows.\<close>

fun row_string :: "('dt, 'num) WriterRow \<Rightarrow> 'dt string_row list" where
  "row_string (WrString r) = [r]" | "row_string _ = []"

definition strings_of :: "('dt, 'num) WriterRow list \<Rightarrow> 'dt string_row list" where
  "strings_of rows = concat (map row_string rows)"

lemma ingest_strings:
  "bw_string (fold (ingest_other_row cal) rows w) = string_writer.push_rows (strings_of rows) (bw_string w)"
proof (induction rows arbitrary: w)
  case (Cons r rows)
  then show ?case
    by (cases r) (simp_all add: strings_of_def string_writer.push_rows_def split: prod.split)
qed (simp add: strings_of_def string_writer.push_rows_def)

lemma stale_push:
  assumes "rw_bytes w > rw_max_bytes w" "rw_buffer w \<noteq> []"
  shows "fst (string_push r w) = BackpressureExceeded" "rw_buffer (snd (string_push r w)) = rw_buffer w"
    "rw_bytes (snd (string_push r w)) = rw_bytes w" "rw_max_bytes (snd (string_push r w)) = rw_max_bytes w"
  using assms by (simp_all add: string_push_def row_push_def)

lemma stale_push_rows:
  assumes "rw_bytes w > rw_max_bytes w" "rw_buffer w \<noteq> []"
  shows "rw_buffer (string_writer.push_rows rows w) = rw_buffer w \<and>
    rw_bytes (string_writer.push_rows rows w) = rw_bytes w \<and>
    rw_max_bytes (string_writer.push_rows rows w) = rw_max_bytes w"
  using assms
proof (induction rows arbitrary: w)
  case (Cons r rows)
  then show ?case
    using Cons.IH[of "snd (string_push r w)"] stale_push[OF Cons.prems, of r]
    by (simp add: string_writer.push_rows_def)
qed (simp add: string_writer.push_rows_def)

text \<open>With stale bytes an emptied string writer takes the first row only.\<close>

lemma stale_ingest:
  assumes "rw_bytes w > rw_max_bytes w" "rw_buffer w = []"
  shows "rw_buffer (string_writer.push_rows rows w) = take 1 rows \<and>
    rw_bytes w \<le> rw_bytes (string_writer.push_rows rows w) \<and>
    rw_max_bytes (string_writer.push_rows rows w) = rw_max_bytes w"
proof (cases rows)
  case (Cons r rest)
  let ?w = "snd (string_push r w)"
  have "rw_buffer ?w = [r]" "rw_bytes ?w = rw_bytes w + string_mem_size r" "rw_max_bytes ?w = rw_max_bytes w"
    using assms by (simp_all add: string_push_def row_push_def Let_def)
  then show ?thesis
    using stale_push_rows[of ?w rest] assms Cons by (simp add: string_writer.push_rows_def)
qed (use assms in \<open>simp add: string_writer.push_rows_def\<close>)

text \<open>One round of the store loop: rows are ingested, then the bundle is taken.\<close>

definition ingest_round ::
  "'dt calendar \<Rightarrow> ('dt, 'num) WriterRow list \<Rightarrow> ('dt, 'num) batch_writer \<Rightarrow>
   ('dt, 'num) flush_bundle option \<times> ('dt, 'num) batch_writer" where
  "ingest_round cal rows w = take_flush_bundle (snd (ingest_other_rows cal rows w))"

primrec ingest_rounds where
  "ingest_rounds cal [] w = ([], w)"
| "ingest_rounds cal (rows # rest) w =
    (case ingest_round cal rows w of
       (b, w') \<Rightarrow> (case ingest_rounds cal rest w' of (bs, w'') \<Rightarrow> (b # bs, w'')))"

definition bundle_strings :: "('dt, 'num) flush_bundle option \<Rightarrow> 'dt string_row list" where
  "bundle_strings b = (case b of None \<Rightarrow> [] | Some b \<Rightarrow> fb_strings b)"

lemma ingest_round_stale:
  assumes "rw_bytes (bw_string w) > rw_max_bytes (bw_string w)" "rw_buffer (bw_string w) = []"
    and "ingest_round cal rows w = (b, w')"
  shows "bundle_strings b = take 1 (strings_of rows) \<and> rw_buffer (bw_string w') = [] \<and>
    rw_bytes (bw_string w') > rw_max_bytes (bw_string w')"
proof -
  let ?s = "string_writer.push_rows (strings_of rows) (bw_string w)"
  have s: "rw_buffer ?s = take 1 (strings_of rows)" "rw_bytes ?s > rw_max_bytes ?s"
    using stale_ingest[OF assms(1,2), of "strings_of rows"] assms(1) by auto
  have "bw_string (snd (ingest_other_rows cal rows w)) = ?s"
    by (simp add: ingest_other_rows_def ingest_strings Let_def)
  then show ?thesis
    using assms(3) s
    by (auto simp: ingest_round_def take_flush_bundle_def bundle_strings_def has_pending_def split: if_splits)
qed

lemma ingest_rounds_stale:
  assumes "rw_bytes (bw_string w) > rw_max_bytes (bw_string w)" "rw_buffer (bw_string w) = []"
  shows "map bundle_strings (fst (ingest_rounds cal rounds w)) = map (\<lambda>rows. take 1 (strings_of rows)) rounds"
  using assms
proof (induction rounds arbitrary: w)
  case (Cons rows rest)
  obtain b w' where "ingest_round cal rows w = (b, w')"
    by fastforce
  then show ?case
    using ingest_round_stale[OF Cons.prems] Cons.IH[of w'] by (auto split: prod.splits)
qed simp

lemma discard_recovers:
  "rw_bytes (bw_string (discard_all w)) = 0 \<and> total_buffered (discard_all w) = 0"
  by (simp add: discard_all_def row_discard_def scalar_discard_def array_discard_def total_buffered_def array_len_def)

text \<open>Taking a bundle empties the buffers but leaves the byte count of the string writer
  as it is, so the count only grows: once it has passed the limit (32 MiB of text in all,
  however often it was flushed), every later round keeps at most one string row and drops
  the rest, for any number of rounds; and \<open>ingest_other_rows\<close> still reports every row as
  ingested.\<close>

theorem string_writer_never_recovers:
  assumes "rw_bytes (bw_string w) > rw_max_bytes (bw_string w)" "rw_buffer (bw_string w) = []"
  shows "map bundle_strings (fst (ingest_rounds cal rounds w)) = map (\<lambda>rows. take 1 (strings_of rows)) rounds \<and>
    fst (ingest_other_rows cal rows w) = length rows"
  using ingest_rounds_stale[OF assms] by (simp add: ingest_other_rows_def Let_def)

definition small_string_writer :: "(64 word, unit) batch_writer" where
  "small_string_writer = (batch_writer_new config_default) \<lparr> bw_string := string_writer_new 500 0 \<rparr>"

definition long_row :: "64 word string_row" where
  "long_row = string_row_new 0 1 (replicate 1000 65) 0 0"

text \<open>The state is reached by one round.\<close>

definition stale_writer :: "(64 word, unit) batch_writer" where
  "stale_writer = snd (ingest_round second_calendar [WrString long_row] small_string_writer)"

definition two_strings :: "(64 word, unit) WriterRow list" where
  "two_strings = [WrString (string_row_new 1 1 (ascii ''a'') 0 0), WrString (string_row_new 2 1 (ascii ''b'') 0 0)]"

theorem string_writer_never_recovers_witness:
  "map bundle_strings (fst (ingest_rounds second_calendar [two_strings] stale_writer)) = [[string_row_new 1 1 (ascii ''a'') 0 0]]"
proof -
  have "rw_bytes (bw_string stale_writer) > rw_max_bytes (bw_string stale_writer)"
    "rw_buffer (bw_string stale_writer) = []"
    by (simp_all add: stale_writer_def small_string_writer_def ingest_round_def ingest_other_rows_def take_flush_bundle_def
        has_pending_def batch_writer_new_def string_writer_new_def row_writer_new_def Let_def string_push_def
        row_push_def string_mem_size_def long_row_def string_row_new_def config_default_def
        scalar_writer_new_def array_writer_new_def json_writer_new_def image_writer_new_def)
  then have "map bundle_strings (fst (ingest_rounds second_calendar [two_strings] stale_writer)) =
    map (\<lambda>rows. take 1 (strings_of rows)) [two_strings]"
    by (rule string_writer_never_recovers[THEN conjunct1])
  then show ?thesis
    by (simp only: list.map) (simp add: strings_of_def two_strings_def)
qed

end
