(* ===== verification/JsonFacts.thy ===== *)
theory JsonFacts
  imports JsonRows CopyPool
begin

text \<open>
  What the payloads of the JSON tables and of the image table hold, read by the COPY format of
  \<open>CopyRows\<close>: the columns of each row, and for the destructured tables the tuples of every capture.
\<close>

section \<open>Columns\<close>

definition table_columns :: "'dt calendar \<Rightarrow> 'num json_lib \<Rightarrow> ('dt, 'num) json_row \<Rightarrow> bytes list" where
  "table_columns cal lib row = [be_bytes 8 (pg_micros cal (jr_time row)), be_bytes 4 (jr_pv_id row),
     1 # as_json_bytes lib (jr_data row), be_bytes 2 (jr_severity row), be_bytes 2 (jr_status row)]"

definition nt_name :: "('dt, 'num) json_row \<Rightarrow> rstring" where
  "nt_name row = (case jr_nt_type row of Some s \<Rightarrow> s | None \<Rightarrow> ascii ''Custom'')"

definition custom_columns :: "'dt calendar \<Rightarrow> 'num json_lib \<Rightarrow> ('dt, 'num) json_row \<Rightarrow> bytes list" where
  "custom_columns cal lib row = [be_bytes 8 (pg_micros cal (jr_time row)), be_bytes 4 (jr_pv_id row), nt_name row,
     1 # as_json_bytes lib (jr_data row), be_bytes 2 (jr_severity row), be_bytes 2 (jr_status row)]"

definition image_attributes :: "'num json_lib \<Rightarrow> ('dt, 'num) image_row \<Rightarrow> bytes" where
  "image_attributes lib row = (case jl_to_vec lib (ir_attributes row) of Some b \<Rightarrow> b | None \<Rightarrow> ascii ''{}'')"

text \<open>A one-dimensional array: dimensions, no nulls, the type, then its length, lower bound and
  fields; an empty one has no dimension.\<close>

definition int4_body :: "32 word list \<Rightarrow> bytes" where
  "int4_body ds = (if ds = [] then be_i32 0 @ be_i32 0 @ be_i32 23
     else be_i32 1 @ be_i32 0 @ be_i32 23 @ be_i32 (length ds) @ be_i32 1 @ concat (map (pg_field \<circ> be_bytes 4) ds))"

definition image_columns :: "'dt calendar \<Rightarrow> 'num json_lib \<Rightarrow> ('dt, 'num) image_row \<Rightarrow> bytes list" where
  "image_columns cal lib row = [be_bytes 8 (pg_micros cal (ir_time row)), be_bytes 4 (ir_pv_id row), ir_data row,
     ir_codec row, be_bytes 8 (ir_compressed_size row), be_bytes 8 (ir_uncompressed_size row),
     int4_body (ir_dimensions row), be_bytes 4 (ir_unique_id row), 1 # image_attributes lib row,
     be_bytes 2 (ir_severity row), be_bytes 2 (ir_status row)]"

text \<open>The tuples of a table: one of each row of the JSONB tables, one of each element of the captures
  of the others, whose ids count from \<open>cid\<close>.\<close>

fun table_elements :: "'num json_lib \<Rightarrow> JsonTable \<Rightarrow> 'num json \<Rightarrow> bytes list list option" where
  "table_elements lib JtNameValue = nv_elements lib" | "table_elements lib JtHistogram = hist_elements lib"
| "table_elements lib JtContinuum = cont_elements lib" | "table_elements lib JtMulti = mch_elements lib"
| "table_elements lib _ = (\<lambda>_. None)"

definition json_tuples ::
  "'dt calendar \<Rightarrow> 'num json_lib \<Rightarrow> JsonTable \<Rightarrow> ('dt, 'num) json_row list \<Rightarrow> 64 word \<Rightarrow> bytes list list" where
  "json_tuples cal lib t rows cid =
    (if t = JtTable then map (table_columns cal lib) rows
     else if t = JtCustom then map (custom_columns cal lib) rows
     else concat (map (\<lambda>(i, row). capture_tuples (table_elements lib t) cal row (cid + of_nat i)) (zip [0..<length rows] rows)))"

text \<open>How many tuples a row becomes.\<close>

definition json_width :: "'num json_lib \<Rightarrow> ('dt, 'num) json_row \<Rightarrow> nat" where
  "json_width lib row =
    (if json_is_jsonb (jr_table row) then 1
     else (case Option.bind (json_data_value (jr_data row)) (table_elements lib (jr_table row)) of
             None \<Rightarrow> 0 | Some es \<Rightarrow> length es))"

section \<open>The builders write the tuples\<close>

lemma captures_eq: "captures elements cal rows cid =
    (concat (map (\<lambda>(i, row). capture_tuples elements cal row (cid + of_nat i)) (zip [0..<length rows] rows)),
     cid + of_nat (length rows))"
proof (induction rows arbitrary: cid)
  case (Cons row rows)
  have "zip [0..<length (row # rows)] (row # rows) =
      (0, row) # map (\<lambda>(i, r). (Suc i, r)) (zip [0..<length rows] rows)"
    by (simp add: upt_conv_Cons map_Suc_upt[symmetric] zip_map1 del: upt_Suc)
  then show ?case
    by (simp add: Cons.IH o_def case_prod_unfold ac_simps)
qed simp

lemma jsonb_is_field: "jsonb_field json = pg_field (1 # json)"
  by (simp add: jsonb_field_def pg_field_def)

lemma row_bytes_tuple:
  "table_row_bytes cal lib row = pg_tuple (table_columns cal lib row)"
  "custom_row_bytes cal lib row = pg_tuple (custom_columns cal lib row)"
  by (simp_all add: table_row_bytes_def custom_row_bytes_def pg_tuple_def table_columns_def custom_columns_def
      nt_name_def jsonb_is_field pg_field_def Let_def)

lemma int4_array_field: "int4_array ds = pg_field (int4_body ds)"
proof -
  have "length (concat (map (pg_field \<circ> be_bytes 4) ds)) = 8 * length ds"
    by (induction ds) simp_all
  moreover have "concat (map (\<lambda>d. be_i32 4 @ be_bytes 4 d) ds) = concat (map (pg_field \<circ> be_bytes 4) ds)"
    by (simp add: pg_field_def o_def)
  ultimately show ?thesis
    by (simp add: int4_array_def int4_body_def pg_field_def Let_def mult.commute)
qed

lemma image_bytes_tuple: "image_row_bytes cal lib row = pg_tuple (image_columns cal lib row)"
  by (simp add: image_row_bytes_def pg_tuple_def image_columns_def image_attributes_def jsonb_is_field int4_array_field
      pg_field_def Let_def)

lemma image_build_copy_eq: "image_build_copy cal lib rows = pg_copy (map (image_columns cal lib) rows)"
  by (simp add: image_build_copy_def pg_copy_def ext[OF image_bytes_tuple] o_def)

abbreviation rows_in :: "JsonTable \<Rightarrow> ('dt, 'num) json_row list \<Rightarrow> ('dt, 'num) json_row list" where
  "rows_in t rows \<equiv> filter (\<lambda>r. jr_table r = t) rows"

lemma json_tuples_Nil [simp]: "json_tuples cal lib t [] cid = []"
  by (simp add: json_tuples_def)

lemma build_json_eq:
  "fst (build_json cal lib t rows cid) =
    (let ts = json_tuples cal lib t (rows_in t rows) cid in if ts = [] then None else Some (pg_copy ts, length ts))"
  by (cases t) (simp_all add: build_table_payload_def build_custom_payload_def build_nv_payload_def build_hist_payload_def
      build_cont_payload_def build_mch_payload_def build_destructured_def captures_eq json_tuples_def pg_copy_def
      ext[OF row_bytes_tuple(1)] ext[OF row_bytes_tuple(2)] o_def Let_def)

lemma length_json_tuples:
  assumes "\<forall>r \<in> set rows. jr_table r = t"
  shows "length (json_tuples cal lib t rows cid) = sum_list (map (json_width lib) rows)"
proof (cases "json_is_jsonb t")
  case True
  then have "json_tuples cal lib t rows cid \<noteq> [] \<or> rows = []" "length (json_tuples cal lib t rows cid) = length rows"
    by (auto simp: json_tuples_def json_is_jsonb_def)
  moreover have "sum_list (map (json_width lib) rows) = length rows"
    using assms True by (induction rows) (auto simp: json_width_def)
  ultimately show ?thesis
    by simp
next
  case False
  have "length (capture_tuples (table_elements lib t) cal row k) = json_width lib row" if "row \<in> set rows" for row k
    using that assms False by (auto simp: capture_tuples_def json_width_def split: option.split)
  then have "sum_list (map (length \<circ> (\<lambda>(i, row). capture_tuples (table_elements lib t) cal row (cid + of_nat i)))
      (zip [0..<length rows] rows)) = sum_list (map (json_width lib) (map snd (zip [0..<length rows] rows)))"
    by (intro arg_cong[where f = sum_list]) (auto dest: set_zip_rightD simp del: map_snd_zip)
  then show ?thesis
    using False by (simp add: json_tuples_def json_is_jsonb_def length_concat)
qed

section \<open>Bounds\<close>

text \<open>No column of the row reaches 2 GiB.\<close>

definition json_fits :: "'num json_lib \<Rightarrow> ('dt, 'num) json_row \<Rightarrow> bool" where
  "json_fits lib row \<longleftrightarrow> length (as_json_bytes lib (jr_data row)) + 1 < 2 ^ 31 \<and> length (nt_name row) < 2 ^ 31 \<and>
    (\<forall>v es. json_data_value (jr_data row) = Some v \<longrightarrow> table_elements lib (jr_table row) v = Some es \<longrightarrow>
       (\<forall>mid \<in> set es. \<forall>f \<in> set mid. length f < 2 ^ 31))"

definition image_fits :: "'num json_lib \<Rightarrow> ('dt, 'num) image_row \<Rightarrow> bool" where
  "image_fits lib row \<longleftrightarrow> length (ir_data row) < 2 ^ 31 \<and> length (ir_codec row) < 2 ^ 31 \<and>
    length (int4_body (ir_dimensions row)) < 2 ^ 31 \<and> length (image_attributes lib row) + 1 < 2 ^ 31"

lemma table_elements_width:
  assumes "table_elements lib t v = Some es" "mid \<in> set es"
  shows "length mid \<le> 3"
  using assms
  by (cases t) (auto simp: nv_elements_def hist_elements_def cont_elements_def mch_elements_def Let_def
      split: option.splits)

lemma capture_tupleE:
  assumes "fs \<in> set (capture_tuples elements cal row k)"
  shows "\<exists>v es i mid. json_data_value (jr_data row) = Some v \<and> elements v = Some es \<and> mid \<in> set es \<and>
    fs = element_columns cal row k i mid"
proof (cases "json_data_value (jr_data row)")
  case (Some v)
  show ?thesis
  proof (cases "elements v")
    case es: (Some es)
    obtain i mid where "(i, mid) \<in> set (zip [0..<length es] es)" "fs = element_columns cal row k i mid"
      using assms Some es by (auto simp: capture_tuples_def)
    then show ?thesis
      using Some es set_zip_rightD by fastforce
  qed (use assms Some in \<open>simp add: capture_tuples_def\<close>)
qed (use assms in \<open>simp add: capture_tuples_def\<close>)

lemma json_tuples_fit:
  assumes "\<forall>r \<in> set rows. jr_table r = t \<and> json_fits lib r"
  shows "\<forall>fs \<in> set (json_tuples cal lib t rows cid). columns_ok fs"
proof (cases "t = JtTable \<or> t = JtCustom")
  case True
  then show ?thesis
    using assms by (auto simp: json_tuples_def json_fits_def columns_ok_def table_columns_def custom_columns_def)
next
  case False
  have "columns_ok fs" if r: "row \<in> set rows" and f: "fs \<in> set (capture_tuples (table_elements lib t) cal row k)" for row k fs
  proof -
    have row: "jr_table row = t" "json_fits lib row"
      using assms r by auto
    obtain v es i mid where v: "json_data_value (jr_data row) = Some v" "table_elements lib t v = Some es"
      "mid \<in> set es" "fs = element_columns cal row k i mid"
      using capture_tupleE[OF f] by blast
    then have "\<forall>f \<in> set mid. length f < 2 ^ 31" "length mid \<le> 3"
      using row table_elements_width[OF v(2,3)] by (auto simp: json_fits_def)
    then show ?thesis
      by (auto simp: v(4) element_columns_def columns_ok_def)
  qed
  note each = this
  have "columns_ok fs" if fs: "fs \<in> set (json_tuples cal lib t rows cid)" for fs
  proof -
    obtain i row where "(i, row) \<in> set (zip [0..<length rows] rows)"
      "fs \<in> set (capture_tuples (table_elements lib t) cal row (cid + of_nat i))"
      using False fs by (auto simp: json_tuples_def)
    then show ?thesis
      using each set_zip_rightD by metis
  qed
  then show ?thesis
    by blast
qed

lemma json_payload_parses:
  assumes "\<forall>r \<in> set rows. json_fits lib r" "fst (build_json cal lib t rows cid) = Some (payload, k)"
  shows "pg_parse payload = Some (json_tuples cal lib t (rows_in t rows) cid) \<and>
    k = length (json_tuples cal lib t (rows_in t rows) cid)"
proof -
  have "pg_parse (pg_copy (json_tuples cal lib t (rows_in t rows) cid)) = Some (json_tuples cal lib t (rows_in t rows) cid)"
    using assms(1) by (intro pg_parse_copy json_tuples_fit) auto
  then show ?thesis
    using assms(2) by (auto simp: build_json_eq Let_def split: if_splits)
qed

lemma image_payload_parses:
  assumes "\<forall>r \<in> set rows. image_fits lib r"
  shows "pg_parse (image_build_copy cal lib rows) = Some (map (image_columns cal lib) rows)"
  unfolding image_build_copy_eq using assms
  by (intro pg_parse_copy) (auto simp: image_fits_def image_columns_def columns_ok_def)

text \<open>A capture without elements, or without the arrays its table is cut from, leaves no tuple; when
  all are so, no payload is built.\<close>

lemma empty_capture_is_not_written:
  assumes "\<forall>r \<in> set rows. json_width lib r = 0"
  shows "fst (build_json cal lib t rows cid) = None"
proof -
  have "length (json_tuples cal lib t (rows_in t rows) cid) = 0"
    using assms by (subst length_json_tuples) auto
  then show ?thesis
    by (simp add: build_json_eq)
qed

end
