(* ===== verification/BundleFlush.thy ===== *)
theory BundleFlush
  imports Writers JsonFacts
begin

text \<open>
  The background flush of a bundle (\<open>FlushBundle::flush_with_progress\<close> of
  \<open>aura-store/src/writer/mod.rs\<close>): one section per table, the JSON family table by table,
  and the outcome with what was written, what is kept for a retry and what is lost.
  \<open>n\<close> and \<open>send\<close> are the pool: its number of connections and
  \<open>send_copy_classified\<close> on them.
\<close>

definition COPY_SQL_SCALAR :: string where
  "COPY_SQL_SCALAR = ''COPY samples (time, pv_id, value, severity, status, reason) FROM STDIN WITH (FORMAT binary)''"
definition COPY_SQL_STRING :: string where
  "COPY_SQL_STRING = ''COPY samples_string (time, pv_id, value, severity, status) FROM STDIN WITH (FORMAT binary)''"
definition COPY_SQL_NUM :: string where
  "COPY_SQL_NUM = ''COPY samples_array_num (time, pv_id, array_id, idx, value, severity, status) FROM STDIN WITH (FORMAT binary)''"
definition COPY_SQL_STR :: string where
  "COPY_SQL_STR = ''COPY samples_array_str (time, pv_id, array_id, idx, value, severity, status) FROM STDIN WITH (FORMAT binary)''"
definition COPY_SQL_IMAGE :: string where
  "COPY_SQL_IMAGE = ''COPY samples_image (time, pv_id, data, codec, compressed_size, uncompressed_size, dimensions, unique_id, attributes, severity, status) FROM STDIN WITH (FORMAT binary)''"

fun json_sql :: "JsonTable \<Rightarrow> string" where
  "json_sql JtTable = ''COPY samples_table (time, pv_id, data, severity, status) FROM STDIN WITH (FORMAT binary)''"
| "json_sql JtCustom = ''COPY samples_custom (time, pv_id, nt_type, data, severity, status) FROM STDIN WITH (FORMAT binary)''"
| "json_sql JtNameValue = ''COPY samples_nv (time, pv_id, capture_id, idx, name, value, severity, status) FROM STDIN WITH (FORMAT binary)''"
| "json_sql JtHistogram = ''COPY samples_hist (time, pv_id, capture_id, idx, range_val, count, severity, status) FROM STDIN WITH (FORMAT binary)''"
| "json_sql JtContinuum = ''COPY samples_cont (time, pv_id, capture_id, idx, base_val, trace_val, severity, status) FROM STDIN WITH (FORMAT binary)''"
| "json_sql JtMulti = ''COPY samples_mch (time, pv_id, capture_id, idx, ch_name, ch_value, ch_severity, severity, status) FROM STDIN WITH (FORMAT binary)''"

record flush_report =
  rp_scalar :: nat
  rp_string :: nat
  rp_array :: nat
  rp_json :: nat
  rp_image :: nat

definition report_total :: "flush_report \<Rightarrow> nat" where
  "report_total r = rp_scalar r + rp_string r + rp_array r + rp_json r + rp_image r"

definition report_is_empty :: "flush_report \<Rightarrow> bool" where
  "report_is_empty r \<longleftrightarrow> report_total r = 0"

record ('dt, 'num) flush_outcome =
  fo_report :: flush_report
  fo_retry :: "('dt, 'num) flush_bundle option"
  fo_lost :: nat
  fo_errors :: "rstring list"

definition outcome_is_clean :: "('dt, 'num) flush_outcome \<Rightarrow> bool" where
  "outcome_is_clean o1 \<longleftrightarrow> fo_retry o1 = None \<and> fo_lost o1 = 0 \<and> fo_errors o1 = []"

section \<open>The JSON family\<close>

primrec flush_json_tables where
  "flush_json_tables cal lib send rows [] json retry st = (json, retry, st)"
| "flush_json_tables cal lib send rows (t # plan) json retry st =
    (case build_json cal lib t rows (fs_cid st) of
       (None, cid) \<Rightarrow> flush_json_tables cal lib send rows plan json retry (st \<lparr> fs_cid := cid \<rparr>)
     | (Some (payload, k), cid) \<Rightarrow>
        (case send 0 (json_sql t) payload k (fs_db st) of
           (Ok (u :: unit), db) \<Rightarrow>
             flush_json_tables cal lib send rows plan (json + k) retry
               (st \<lparr> fs_cid := cid, fs_db := db, fs_progress := fs_progress st + k \<rparr>)
         | (Err e, db) \<Rightarrow>
             (let st' = st \<lparr> fs_cid := cid, fs_db := db, fs_errors := fs_errors st @ [show_copy_error e] \<rparr> in
              if ce_transient e then
                flush_json_tables cal lib send rows plan json (retry @ [t]) st'
              else
                flush_json_tables cal lib send rows plan json retry (st' \<lparr> fs_lost := fs_lost st + k \<rparr>))))"

definition flush_json ::
  "'dt calendar \<Rightarrow> 'num json_lib \<Rightarrow> 'db sender \<Rightarrow> ('dt, 'num) json_row list \<Rightarrow> 'db flush_state \<Rightarrow>
   nat \<times> ('dt, 'num) json_row list \<times> 'db flush_state" where
  "flush_json cal lib send rows st =
    (if rows = [] then (0, [], st)
     else
       (case flush_json_tables cal lib send rows json_table_all 0 [] st of
          (json, retry, st') \<Rightarrow>
            (json, if retry = [] then [] else filter (\<lambda>r. jr_table r \<in> set retry) rows, st')))"

section \<open>The flush\<close>

definition PARALLEL_THRESHOLD :: nat where "PARALLEL_THRESHOLD = 10000"

definition USIZE_MAX :: nat where "USIZE_MAX = 2 ^ 64 - 1"

definition flush_with_progress ::
  "'dt calendar \<Rightarrow> 'num json_lib \<Rightarrow> nat \<Rightarrow> 'db sender \<Rightarrow> ('dt, 'num) flush_bundle \<Rightarrow> 'db \<Rightarrow> 64 word \<Rightarrow>
   ('dt, 'num) flush_outcome \<times> 'db flush_state" where
  "flush_with_progress cal lib n send b db cid =
    (let st0 = \<lparr> fs_db = db, fs_errors = [], fs_lost = 0, fs_progress = 0, fs_cid = cid \<rparr>;
         (scalar, keep_scalar, st1) =
           flush_section n send COPY_SQL_SCALAR (fb_scalars b) scalar_build_copy PARALLEL_THRESHOLD st0;
         (strings, keep_string, st2) =
           flush_section n send COPY_SQL_STRING (fb_strings b) (string_build_copy cal) PARALLEL_THRESHOLD st1;
         (nums, keep_num, st3) =
           flush_section n send COPY_SQL_NUM (fb_nums b) array_num_build PARALLEL_THRESHOLD st2;
         (strs, keep_str, st4) =
           flush_section n send COPY_SQL_STR (fb_strs b) array_str_build USIZE_MAX st3;
         (json, keep_json, st5) = flush_json cal lib send (fb_jsons b) st4;
         (image, keep_image, st6) =
           flush_section n send COPY_SQL_IMAGE (fb_images b) (image_build_copy cal lib) USIZE_MAX st5;
         has_retry = (keep_scalar \<noteq> [] \<or> keep_string \<noteq> [] \<or> keep_num \<noteq> [] \<or> keep_str \<noteq> [] \<or>
           keep_json \<noteq> [] \<or> keep_image \<noteq> [])
     in (\<lparr> fo_report = \<lparr> rp_scalar = scalar, rp_string = strings, rp_array = nums + strs, rp_json = json,
                          rp_image = image \<rparr>,
           fo_retry = (if has_retry then
               Some \<lparr> fb_scalars = keep_scalar, fb_strings = keep_string, fb_nums = keep_num,
                      fb_strs = keep_str, fb_jsons = keep_json, fb_images = keep_image \<rparr>
             else None),
           fo_lost = fs_lost st6, fo_errors = fs_errors st6 \<rparr>, st6))"

section \<open>Accounting\<close>

lemma json_sql_distinct:
  "json_sql t \<noteq> COPY_SQL_SCALAR" "json_sql t \<noteq> COPY_SQL_STRING" "json_sql t \<noteq> COPY_SQL_NUM"
  "json_sql t \<noteq> COPY_SQL_STR" "json_sql t \<noteq> COPY_SQL_IMAGE"
  by (cases t; simp add: COPY_SQL_SCALAR_def COPY_SQL_STRING_def COPY_SQL_NUM_def COPY_SQL_STR_def COPY_SQL_IMAGE_def)+

lemma copy_sql_distinct [simp]:
  "COPY_SQL_SCALAR \<noteq> COPY_SQL_STRING" "COPY_SQL_SCALAR \<noteq> COPY_SQL_NUM" "COPY_SQL_SCALAR \<noteq> COPY_SQL_STR"
  "COPY_SQL_SCALAR \<noteq> COPY_SQL_IMAGE" "COPY_SQL_STRING \<noteq> COPY_SQL_NUM" "COPY_SQL_STRING \<noteq> COPY_SQL_STR"
  "COPY_SQL_STRING \<noteq> COPY_SQL_IMAGE" "COPY_SQL_NUM \<noteq> COPY_SQL_STR" "COPY_SQL_NUM \<noteq> COPY_SQL_IMAGE"
  "COPY_SQL_STR \<noteq> COPY_SQL_IMAGE"
  by (simp_all add: COPY_SQL_SCALAR_def COPY_SQL_STRING_def COPY_SQL_NUM_def COPY_SQL_STR_def COPY_SQL_IMAGE_def)

lemmas copy_sql_distinct' [simp] = copy_sql_distinct[symmetric]

lemma transactional_other:
  "transactional send stored \<Longrightarrow> send i sql p n db = (r, db') \<Longrightarrow> t \<noteq> sql \<Longrightarrow> stored db' t = stored db t"
  by (auto simp: transactional_def)

lemma flush_section_other:
  assumes "transactional send stored" "t \<noteq> sql"
    and "flush_section n send sql rows build threshold st = (written, keep, st')"
  shows "stored (fs_db st') t = stored (fs_db st) t"
proof -
  have chunks: "stored db' t = stored db t" if "send_chunks send sql i ps db p = (rs, db', p')" for i ps db p rs db' p'
    using that
  proof (induction ps arbitrary: i db p rs)
    case (Cons q ps)
    obtain a db1 where a: "send i sql (fst q) (snd q) db = (a, db1)"
      by fastforce
    with Cons show ?case
      using transactional_other[OF assms(1) a assms(2)]
      by (cases a) (fastforce split: prod.splits)+
  qed simp
  show ?thesis
    using assms(3) transactional_other[OF assms(1) _ assms(2)] chunks
    by (fastforce simp: flush_section_def Let_def split: if_splits prod.splits sum.splits)
qed

section \<open>The fates of the JSON tables\<close>

text \<open>The payload of a table has one fate.  The captures of the destructured tables are numbered
  through, table after table, whatever becomes of the payloads: \<open>counter_at\<close> is the number a table
  starts with.\<close>

primrec counter_at where
  "counter_at cal lib rows [] cid t = cid"
| "counter_at cal lib rows (k # plan) cid t =
    (if k = t then cid else counter_at cal lib rows plan (snd (build_json cal lib k rows cid)) t)"

definition table_tuples where
  "table_tuples cal lib plan rows cid t = json_tuples cal lib t (rows_in t rows) (counter_at cal lib rows plan cid t)"

definition widths :: "'num json_lib \<Rightarrow> (JsonTable \<Rightarrow> bool) \<Rightarrow> ('dt, 'num) json_row list \<Rightarrow> nat" where
  "widths lib P rows = sum_list (map (json_width lib) (filter (\<lambda>r. P (jr_table r)) rows))"

lemma json_sql_inj: "json_sql t = json_sql k \<longleftrightarrow> t = k"
  by (cases t; cases k) auto

lemma all_tables: "set json_table_all = UNIV"
  using json_sql.cases by (auto simp: json_table_all_def)

lemma widths_insert:
  "t \<notin> set plan \<Longrightarrow> widths lib (\<lambda>k. k \<in> set (t # plan) \<and> P k) rows =
    (if P t then widths lib (\<lambda>k. k = t) rows else 0) + widths lib (\<lambda>k. k \<in> set plan \<and> P k) rows"
  by (induction rows) (auto simp: widths_def)

lemma table_tuples_length: "length (json_tuples cal lib t (rows_in t rows) cid) = widths lib (\<lambda>k. k = t) rows"
  by (simp add: widths_def length_json_tuples)

definition tables_accounted where
  "tables_accounted ok cal lib stored rows plan cid db db' g \<longleftrightarrow>
    (\<forall>t \<in> set plan. (table_tuples cal lib plan rows cid t = [] \<longrightarrow> g t = Written) \<and>
       (ok \<longrightarrow> stored db' (json_sql t) =
         stored db (json_sql t) @ (if g t = Written then table_tuples cal lib plan rows cid t else []))) \<and>
    (ok \<longrightarrow> (\<forall>sql. (\<forall>t \<in> set plan. sql \<noteq> json_sql t) \<longrightarrow> stored db' sql = stored db sql))"

lemma tables_accounted_Cons:
  assumes "t \<notin> set plan" "tables_accounted ok cal lib stored rows plan (snd (build_json cal lib t rows cid)) db1 db' g"
    and "json_tuples cal lib t (rows_in t rows) cid = [] \<Longrightarrow> f = Written"
    and "ok \<Longrightarrow> stored db1 = (stored db)(json_sql t := stored db (json_sql t) @
       (if f = Written then json_tuples cal lib t (rows_in t rows) cid else []))"
  shows "tables_accounted ok cal lib stored rows (t # plan) cid db db' (g(t := f))"
proof -
  have "table_tuples cal lib (t # plan) rows cid k =
      (if k = t then json_tuples cal lib t (rows_in t rows) cid
       else table_tuples cal lib plan rows (snd (build_json cal lib t rows cid)) k)" for k
    by (simp add: table_tuples_def)
  note tuples = this
  have other: "k \<noteq> t" if "k \<in> set plan" for k
    using that assms(1) by auto
  then have "\<forall>k \<in> set plan. json_sql t \<noteq> json_sql k"
    by (auto simp: json_sql_inj)
  then have "ok \<Longrightarrow> stored db' (json_sql t) = stored db1 (json_sql t)"
    using assms(2) unfolding tables_accounted_def by blast
  then show ?thesis
    using assms(2-4) other unfolding tables_accounted_def
    by (simp add: json_sql_inj tuples)
qed

lemma json_tables_accounted:
  assumes "ok \<Longrightarrow> transactional send stored" "ok \<Longrightarrow> \<forall>r \<in> set rows. json_fits lib r" "distinct plan"
    and "flush_json_tables cal lib send rows plan json retry st = (json', retry', st')"
  shows "\<exists>g. tables_accounted ok cal lib stored rows plan (fs_cid st) (fs_db st) (fs_db st') g \<and>
    json' = json + widths lib (\<lambda>t. t \<in> set plan \<and> g t = Written) rows \<and>
    retry' = retry @ filter (\<lambda>t. g t = Retried) plan \<and>
    fs_lost st' = fs_lost st + widths lib (\<lambda>t. t \<in> set plan \<and> g t = Lost) rows \<and>
    fs_progress st' = fs_progress st + widths lib (\<lambda>t. t \<in> set plan \<and> g t = Written) rows"
  using assms(3,4)
proof (induction plan arbitrary: json retry st)
  case Nil
  then show ?case
    by (simp add: tables_accounted_def widths_def)
next
  case (Cons t plan)
  have t: "t \<notin> set plan" "distinct plan"
    using Cons.prems(1) by simp_all
  obtain bo cid where b: "build_json cal lib t rows (fs_cid st) = (bo, cid)"
    by fastforce
  let ?ts = "json_tuples cal lib t (rows_in t rows) (fs_cid st)"
  have bo: "bo = (if ?ts = [] then None else Some (pg_copy ?ts, length ?ts))"
    using build_json_eq[of cal lib t rows "fs_cid st"] b by (simp add: Let_def)
  have step: ?case if
      f: "?ts = [] \<Longrightarrow> f = Written"
      "ok \<Longrightarrow> stored (fs_db st1) = (stored (fs_db st))(json_sql t := stored (fs_db st) (json_sql t) @ (if f = Written then ?ts else []))"
      "fs_cid st1 = cid" "fs_lost st1 = fs_lost st + (if f = Lost then length ?ts else 0)"
      "fs_progress st1 = fs_progress st + (if f = Written then length ?ts else 0)" and
      r: "flush_json_tables cal lib send rows plan (json + (if f = Written then length ?ts else 0))
        (retry @ (if f = Retried then [t] else [])) st1 = (json', retry', st')" for f st1
  proof -
    obtain g where g: "tables_accounted ok cal lib stored rows plan (fs_cid st1) (fs_db st1) (fs_db st') g"
      "json' = json + (if f = Written then length ?ts else 0) + widths lib (\<lambda>t. t \<in> set plan \<and> g t = Written) rows"
      "retry' = retry @ (if f = Retried then [t] else []) @ filter (\<lambda>t. g t = Retried) plan"
      "fs_lost st' = fs_lost st1 + widths lib (\<lambda>t. t \<in> set plan \<and> g t = Lost) rows"
      "fs_progress st' = fs_progress st1 + widths lib (\<lambda>t. t \<in> set plan \<and> g t = Written) rows"
      using Cons.IH[OF t(2) r] by auto
    have same: "(\<lambda>k. k \<in> set plan \<and> (g(t := f)) k = h) = (\<lambda>k. k \<in> set plan \<and> g k = h)" for h
      using t(1) by auto
    have w: "widths lib (\<lambda>k. k \<in> set (t # plan) \<and> (g(t := f)) k = h) rows =
        (if f = h then length ?ts else 0) + widths lib (\<lambda>k. k \<in> set plan \<and> g k = h) rows" for h
      using widths_insert[OF t(1), of lib "\<lambda>k. (g(t := f)) k = h" rows] by (simp only: same table_tuples_length) simp
    have "filter (\<lambda>k. (g(t := f)) k = Retried) plan = filter (\<lambda>k. g k = Retried) plan"
      using t(1) by (intro filter_cong) auto
    then have kept: "retry' = retry @ filter (\<lambda>k. (g(t := f)) k = Retried) (t # plan)"
      using g(3) by simp
    have "tables_accounted ok cal lib stored rows (t # plan) (fs_cid st) (fs_db st) (fs_db st') (g(t := f))"
      by (rule tables_accounted_Cons[where ?db1.0 = "fs_db st1", OF t(1)]) (use g(1) f(1-3) b in simp_all)
    moreover have "json' = json + widths lib (\<lambda>k. k \<in> set (t # plan) \<and> (g(t := f)) k = Written) rows"
      "fs_lost st' = fs_lost st + widths lib (\<lambda>k. k \<in> set (t # plan) \<and> (g(t := f)) k = Lost) rows"
      "fs_progress st' = fs_progress st + widths lib (\<lambda>k. k \<in> set (t # plan) \<and> (g(t := f)) k = Written) rows"
      using g f(4,5) by (simp_all only: w)
    ultimately show ?thesis
      using kept by blast
  qed
  show ?case
  proof (cases "?ts = []")
    case True
    then show ?thesis
      using Cons.prems(2) b bo by (intro step[of Written "st \<lparr> fs_cid := cid \<rparr>"]) simp_all
  next
    case False
    then have pn: "bo = Some (pg_copy ?ts, length ?ts)"
      using bo by simp
    have parse: "ok \<Longrightarrow> pg_parse (pg_copy ?ts) = Some ?ts"
      using assms(2) json_payload_parses[of rows lib cal t "fs_cid st"] b pn by simp
    obtain a db where a: "send 0 (json_sql t) (pg_copy ?ts) (length ?ts) (fs_db st) = (a, db)"
      by fastforce
    show ?thesis
    proof (cases a)
      case (Inr u)
      have "ok \<Longrightarrow> stored db = (stored (fs_db st))(json_sql t := stored (fs_db st) (json_sql t) @ ?ts)"
        by (rule transactional_ok[OF assms(1) a[unfolded Inr] parse])
      then show ?thesis
        using Cons.prems(2) b pn a Inr False
        by (intro step[of Written "st \<lparr> fs_cid := cid, fs_db := db, fs_progress := fs_progress st + length ?ts \<rparr>"]) simp_all
    next
      case (Inl e)
      have "ok \<Longrightarrow> stored db = stored (fs_db st)"
        by (rule transactional_err[OF assms(1) a[unfolded Inl]])
      then show ?thesis
        using Cons.prems(2) b pn a Inl False
        by (intro step[of "answer_fate a" "st \<lparr> fs_cid := cid, fs_db := db, fs_errors := fs_errors st @ [show_copy_error e],
              fs_lost := fs_lost st + (if ce_transient e then 0 else length ?ts) \<rparr>"])
          (auto simp: Let_def split: if_splits)
    qed
  qed
qed

lemma json_accounted:
  assumes "ok \<Longrightarrow> transactional send stored" "ok \<Longrightarrow> \<forall>r \<in> set rows. json_fits lib r"
    and "flush_json cal lib send rows st = (w, keep, st')"
  shows "\<exists>g. tables_accounted ok cal lib stored rows json_table_all (fs_cid st) (fs_db st) (fs_db st') g \<and>
    w = widths lib (\<lambda>t. g t = Written) rows \<and> keep = filter (\<lambda>r. g (jr_table r) = Retried) rows \<and>
    fs_lost st' = fs_lost st + widths lib (\<lambda>t. g t = Lost) rows \<and> fs_progress st' = fs_progress st + w"
proof (cases "rows = []")
  case True
  then show ?thesis
    using assms(3)
    by (intro exI[of _ "\<lambda>_. Written"]) (simp add: flush_json_def widths_def tables_accounted_def table_tuples_def)
next
  case False
  obtain json retry st1 where r: "flush_json_tables cal lib send rows json_table_all 0 [] st = (json, retry, st1)"
    by (metis prod_cases3)
  have plan: "distinct json_table_all" "set json_table_all = UNIV"
    using all_tables by (simp_all add: json_table_all_def)
  obtain g where g: "tables_accounted ok cal lib stored rows json_table_all (fs_cid st) (fs_db st) (fs_db st1) g"
    "json = widths lib (\<lambda>t. g t = Written) rows" "retry = filter (\<lambda>t. g t = Retried) json_table_all"
    "fs_lost st1 = fs_lost st + widths lib (\<lambda>t. g t = Lost) rows" "fs_progress st1 = fs_progress st + json"
    using json_tables_accounted[OF assms(1,2) plan(1) r] by (auto simp: plan(2))
  have "set retry = {t. g t = Retried}"
    using plan(2) by (auto simp: g(3))
  then have "(if retry = [] then [] else filter (\<lambda>r. jr_table r \<in> set retry) rows) =
      filter (\<lambda>r. g (jr_table r) = Retried) rows"
    by (auto simp: filter_empty_conv)
  then show ?thesis
    using assms(3) False r g by (intro exI[of _ g]) (auto simp: flush_json_def)
qed

lemma flush_section_cid: "flush_section n send sql rows build threshold st = (w, k, st') \<Longrightarrow> fs_cid st' = fs_cid st"
  by (auto simp: flush_section_def Let_def split: if_splits prod.splits sum.splits)

text \<open>Rows that become one tuple each are counted one by one.\<close>

lemma widths_single:
  "\<forall>r \<in> set rows. json_width lib r = 1 \<Longrightarrow>
    widths lib (\<lambda>t. g t = Written) rows + length (filter (\<lambda>r. g (jr_table r) = Retried) rows) +
    widths lib (\<lambda>t. g t = Lost) rows = length rows"
proof (induction rows)
  case (Cons r rows)
  then show ?case
    by (cases "g (jr_table r)") (auto simp: widths_def)
qed (simp add: widths_def)

text \<open>The rows kept for a retry, as a bundle.\<close>

definition retry_bundle :: "('dt, 'num) flush_outcome \<Rightarrow> ('dt, 'num) flush_bundle" where
  "retry_bundle o1 =
    (case fo_retry o1 of
       Some b \<Rightarrow> b
     | None \<Rightarrow> \<lparr> fb_scalars = [], fb_strings = [], fb_nums = [], fb_strs = [], fb_jsons = [], fb_images = [] \<rparr>)"

lemma flush_cases:
  assumes "flush_with_progress cal lib n send b db cid = (o1, st6)"
  obtains w1 k1 st1 w2 k2 st2 w3 k3 st3 w4 k4 st4 w5 k5 st5 w6 k6 where
    "flush_section n send COPY_SQL_SCALAR (fb_scalars b) scalar_build_copy PARALLEL_THRESHOLD
       \<lparr> fs_db = db, fs_errors = [], fs_lost = 0, fs_progress = 0, fs_cid = cid \<rparr> = (w1, k1, st1)"
    "flush_section n send COPY_SQL_STRING (fb_strings b) (string_build_copy cal) PARALLEL_THRESHOLD st1 = (w2, k2, st2)"
    "flush_section n send COPY_SQL_NUM (fb_nums b) array_num_build PARALLEL_THRESHOLD st2 = (w3, k3, st3)"
    "flush_section n send COPY_SQL_STR (fb_strs b) array_str_build USIZE_MAX st3 = (w4, k4, st4)"
    "flush_json cal lib send (fb_jsons b) st4 = (w5, k5, st5)"
    "flush_section n send COPY_SQL_IMAGE (fb_images b) (image_build_copy cal lib) USIZE_MAX st5 = (w6, k6, st6)"
    "fo_report o1 = \<lparr> rp_scalar = w1, rp_string = w2, rp_array = w3 + w4, rp_json = w5, rp_image = w6 \<rparr>"
    "fo_lost o1 = fs_lost st6"
    "retry_bundle o1 = \<lparr> fb_scalars = k1, fb_strings = k2, fb_nums = k3, fb_strs = k4, fb_jsons = k5, fb_images = k6 \<rparr>"
  using assms by (auto simp: flush_with_progress_def Let_def retry_bundle_def split: prod.splits if_splits)

text \<open>What one table of a flush shows to the outside.\<close>

definition table_accounted ::
  "bytes list list \<Rightarrow> bytes list list \<Rightarrow> ('r \<Rightarrow> bytes list) \<Rightarrow> 'r list \<Rightarrow> 'r list \<Rightarrow> nat \<Rightarrow> fate list \<Rightarrow> bool" where
  "table_accounted before after cols rows keep written fates \<longleftrightarrow>
    length fates = length rows \<and>
    after = before @ map cols (fated Written rows fates) \<and>
    keep = fated Retried rows fates \<and> written = length (fated Written rows fates)"

text \<open>Sections keep the accounts in numbers without any assumption on the database.\<close>

lemma section_counts:
  assumes "flush_section n send sql rows build threshold st = (written, keep, st')"
  shows "written + length keep + fs_lost st' = length rows + fs_lost st \<and>
    fs_progress st' = fs_progress st + written"
proof -
  obtain fates where "section_accounts False (\<lambda>_. []) sql rows (\<lambda>_ _. []) st written keep st' fates"
    using section_accounted[where ok = False, OF _ _ assms] by blast
  then show ?thesis
    using fates_partition[of fates rows] by (auto simp: section_accounts_def)
qed

lemma flush_counts:
  assumes "flush_with_progress cal lib n send b db cid = (o1, st)" "\<forall>r \<in> set (fb_jsons b). json_width lib r = 1"
  shows "report_total (fo_report o1) + total_rows (retry_bundle o1) + fo_lost o1 = total_rows b \<and>
    fs_progress st = report_total (fo_report o1) \<and> set (fb_jsons (retry_bundle o1)) \<subseteq> set (fb_jsons b)"
proof -
  obtain w1 k1 st1 w2 k2 st2 w3 k3 st3 w4 k4 st4 w5 k5 st5 w6 k6 where s:
    "flush_section n send COPY_SQL_SCALAR (fb_scalars b) scalar_build_copy PARALLEL_THRESHOLD
       \<lparr> fs_db = db, fs_errors = [], fs_lost = 0, fs_progress = 0, fs_cid = cid \<rparr> = (w1, k1, st1)"
    "flush_section n send COPY_SQL_STRING (fb_strings b) (string_build_copy cal) PARALLEL_THRESHOLD st1 = (w2, k2, st2)"
    "flush_section n send COPY_SQL_NUM (fb_nums b) array_num_build PARALLEL_THRESHOLD st2 = (w3, k3, st3)"
    "flush_section n send COPY_SQL_STR (fb_strs b) array_str_build USIZE_MAX st3 = (w4, k4, st4)"
    "flush_json cal lib send (fb_jsons b) st4 = (w5, k5, st5)"
    "flush_section n send COPY_SQL_IMAGE (fb_images b) (image_build_copy cal lib) USIZE_MAX st5 = (w6, k6, st)"
    "fo_report o1 = \<lparr> rp_scalar = w1, rp_string = w2, rp_array = w3 + w4, rp_json = w5, rp_image = w6 \<rparr>"
    "fo_lost o1 = fs_lost st"
    "retry_bundle o1 = \<lparr> fb_scalars = k1, fb_strings = k2, fb_nums = k3, fb_strs = k4, fb_jsons = k5, fb_images = k6 \<rparr>"
    using flush_cases[OF assms(1)] .
  obtain g where g: "w5 = widths lib (\<lambda>t. g t = Written) (fb_jsons b)"
    "k5 = filter (\<lambda>r. g (jr_table r) = Retried) (fb_jsons b)"
    "fs_lost st5 = fs_lost st4 + widths lib (\<lambda>t. g t = Lost) (fb_jsons b)" "fs_progress st5 = fs_progress st4 + w5"
    using json_accounted[where ok = False, OF _ _ s(5)] by auto
  have "w5 + length k5 + fs_lost st5 = length (fb_jsons b) + fs_lost st4"
    using widths_single[OF assms(2), of g] by (simp add: g(1-3))
  then show ?thesis
    using section_counts[OF s(1)] section_counts[OF s(2)] section_counts[OF s(3)] section_counts[OF s(4)]
      section_counts[OF s(6)] s(7-9) g(4)
    by (auto simp: report_total_def total_rows_def g(2))
qed

text \<open>JSON captures without elements: a flush neither writes, keeps nor counts them.\<close>

lemma empty_captures_vanish:
  assumes "flush_with_progress cal lib n send b db cid = (o1, st)"
    and "\<forall>r \<in> set (fb_jsons b). json_width lib r = 0"
    and "fb_scalars b = []" "fb_strings b = []" "fb_nums b = []" "fb_strs b = []" "fb_images b = []"
  shows "report_total (fo_report o1) = 0 \<and> total_rows (retry_bundle o1) = 0 \<and> fo_lost o1 = 0"
proof -
  have none: "widths lib P (fb_jsons b) = 0" for P
    using assms(2) by (simp add: widths_def)
  obtain w1 k1 st1 w2 k2 st2 w3 k3 st3 w4 k4 st4 w5 k5 st5 w6 k6 where s:
    "flush_section n send COPY_SQL_SCALAR (fb_scalars b) scalar_build_copy PARALLEL_THRESHOLD
       \<lparr> fs_db = db, fs_errors = [], fs_lost = 0, fs_progress = 0, fs_cid = cid \<rparr> = (w1, k1, st1)"
    "flush_section n send COPY_SQL_STRING (fb_strings b) (string_build_copy cal) PARALLEL_THRESHOLD st1 = (w2, k2, st2)"
    "flush_section n send COPY_SQL_NUM (fb_nums b) array_num_build PARALLEL_THRESHOLD st2 = (w3, k3, st3)"
    "flush_section n send COPY_SQL_STR (fb_strs b) array_str_build USIZE_MAX st3 = (w4, k4, st4)"
    "flush_json cal lib send (fb_jsons b) st4 = (w5, k5, st5)"
    "flush_section n send COPY_SQL_IMAGE (fb_images b) (image_build_copy cal lib) USIZE_MAX st5 = (w6, k6, st)"
    "fo_report o1 = \<lparr> rp_scalar = w1, rp_string = w2, rp_array = w3 + w4, rp_json = w5, rp_image = w6 \<rparr>"
    "fo_lost o1 = fs_lost st"
    "retry_bundle o1 = \<lparr> fb_scalars = k1, fb_strings = k2, fb_nums = k3, fb_strs = k4, fb_jsons = k5, fb_images = k6 \<rparr>"
    using flush_cases[OF assms(1)] .
  obtain g where g: "tables_accounted False cal lib (\<lambda>_ _. []) (fb_jsons b) json_table_all (fs_cid st4) (fs_db st4) (fs_db st5) g"
    "w5 = 0" "k5 = filter (\<lambda>r. g (jr_table r) = Retried) (fb_jsons b)" "fs_lost st5 = fs_lost st4"
    using json_accounted[where ok = False and stored = "\<lambda>_ _. []", OF _ _ s(5)] none by auto
  have "table_tuples cal lib json_table_all (fb_jsons b) (fs_cid st4) t = []" for t
    using none[of "\<lambda>k. k = t"] by (simp add: table_tuples_def table_tuples_length flip: length_0_conv)
  then have "g t = Written" for t
    using g(1) all_tables by (auto simp: tables_accounted_def)
  then have "k5 = []"
    by (simp add: g(3))
  then show ?thesis
    using s g(2,4) assms(3-7) by (auto simp: flush_section_def report_total_def total_rows_def)
qed

lemma table_of_section:
  assumes "section_accounts True cols sql rows stored st written keep st' fates"
    and "stored (fs_db st) sql = before" "stored (fs_db st') sql = after"
  shows "table_accounted before after cols rows keep written fates"
  using assms by (auto simp: section_accounts_def table_accounted_def)

lemma columns_parse:
  "pg_parse (scalar_build_copy rows) = Some (map scalar_columns rows)"
  "pg_parse (array_num_build elements) = Some (map array_num_columns elements)"
  "\<forall>r \<in> set strings. length (st_value r) < 2 ^ 31 \<Longrightarrow>
    pg_parse (string_build_copy cal strings) = Some (map (string_columns cal) strings)"
  "\<forall>r \<in> set texts. length (as_value r) < 2 ^ 31 \<Longrightarrow>
    pg_parse (array_str_build texts) = Some (map array_str_columns texts)"
  by (auto simp: scalar_build_copy_eq array_num_build_eq string_build_copy_eq array_str_build_eq
      columns_ok_text intro!: pg_parse_copy)

text \<open>What becomes of a whole bundle: one fate per row of the five flat tables, one per JSON table.\<close>

definition lost_rows :: "'r list \<Rightarrow> fate list \<Rightarrow> nat" where
  "lost_rows rows fates = length (fated Lost rows fates)"

lemma lost_of_section:
  "section_accounts ok cols sql rows stored st written keep st' fates \<Longrightarrow> fs_lost st' = fs_lost st + lost_rows rows fates"
  by (simp add: section_accounts_def lost_rows_def)

lemma json_table_after:
  "tables_accounted True cal lib stored rows json_table_all cid db db' g \<Longrightarrow>
    stored db' (json_sql t) = stored db (json_sql t) @ (if g t = Written then table_tuples cal lib json_table_all rows cid t else [])"
  "tables_accounted True cal lib stored rows json_table_all cid db db' g \<Longrightarrow>
    table_tuples cal lib json_table_all rows cid t = [] \<Longrightarrow> g t = Written"
  "tables_accounted True cal lib stored rows json_table_all cid db db' g \<Longrightarrow> (\<And>k. sql \<noteq> json_sql k) \<Longrightarrow>
    stored db' sql = stored db sql"
  using all_tables by (auto simp: tables_accounted_def)

definition bundle_fits :: "'num json_lib \<Rightarrow> ('dt, 'num) flush_bundle \<Rightarrow> bool" where
  "bundle_fits lib b \<longleftrightarrow> (\<forall>r \<in> set (fb_strings b). length (st_value r) < 2 ^ 31) \<and>
    (\<forall>r \<in> set (fb_strs b). length (as_value r) < 2 ^ 31) \<and> (\<forall>r \<in> set (fb_jsons b). json_fits lib r) \<and>
    (\<forall>r \<in> set (fb_images b). image_fits lib r)"

text \<open>C9. When every COPY is a transaction of its own, so that a refused one stored nothing, and no
  string, list, document or image of the bundle exceeds the lengths COPY can carry (\<open>bundle_fits\<close>), a flush
  gives every row of the bundle one fate, in each of its six sections.  The scalar, string, array and
  image rows written are appended to their table in the order of the bundle, and those in the retry
  bundle are exactly the others whose COPY failed transiently.  The JSON rows of one table share a
  fate: written, all the tuples of its captures are appended, numbered through from the counter of
  captures; failed transiently, all its rows are in the retry bundle.  The report counts the tuples
  written, and the count of lost rows is the number of the tuples that failed permanently, over all
  sections.  So nothing else reaches a table, and a second flush, of the retry bundle, writes no row that
  the first one wrote.  A JSON capture without elements has no tuple: it is not written,
  kept or counted.\<close>

theorem flush_writes_each_row_once:
  assumes "transactional send stored" "bundle_fits lib b"
    and "flush_with_progress cal lib n send b db cid = (o1, st)"
  shows "\<exists>f1 f2 f3 f4 g f6 w3 w4.
    table_accounted (stored db COPY_SQL_SCALAR) (stored (fs_db st) COPY_SQL_SCALAR) scalar_columns
       (fb_scalars b) (fb_scalars (retry_bundle o1)) (rp_scalar (fo_report o1)) f1 \<and>
    table_accounted (stored db COPY_SQL_STRING) (stored (fs_db st) COPY_SQL_STRING) (string_columns cal)
       (fb_strings b) (fb_strings (retry_bundle o1)) (rp_string (fo_report o1)) f2 \<and>
    table_accounted (stored db COPY_SQL_NUM) (stored (fs_db st) COPY_SQL_NUM) array_num_columns
       (fb_nums b) (fb_nums (retry_bundle o1)) w3 f3 \<and>
    table_accounted (stored db COPY_SQL_STR) (stored (fs_db st) COPY_SQL_STR) array_str_columns
       (fb_strs b) (fb_strs (retry_bundle o1)) w4 f4 \<and>
    rp_array (fo_report o1) = w3 + w4 \<and>
    (\<forall>t. stored (fs_db st) (json_sql t) = stored db (json_sql t) @
       (if g t = Written then table_tuples cal lib json_table_all (fb_jsons b) cid t else [])) \<and>
    fb_jsons (retry_bundle o1) = filter (\<lambda>r. g (jr_table r) = Retried) (fb_jsons b) \<and>
    rp_json (fo_report o1) = widths lib (\<lambda>t. g t = Written) (fb_jsons b) \<and>
    table_accounted (stored db COPY_SQL_IMAGE) (stored (fs_db st) COPY_SQL_IMAGE) (image_columns cal lib)
       (fb_images b) (fb_images (retry_bundle o1)) (rp_image (fo_report o1)) f6 \<and>
    fo_lost o1 = lost_rows (fb_scalars b) f1 + lost_rows (fb_strings b) f2 + lost_rows (fb_nums b) f3 +
      lost_rows (fb_strs b) f4 + widths lib (\<lambda>t. g t = Lost) (fb_jsons b) + lost_rows (fb_images b) f6"
proof -
  obtain w1 k1 st1 w2 k2 st2 w3 k3 st3 w4 k4 st4 w5 k5 st5 w6 k6 where s:
    "flush_section n send COPY_SQL_SCALAR (fb_scalars b) scalar_build_copy PARALLEL_THRESHOLD
       \<lparr> fs_db = db, fs_errors = [], fs_lost = 0, fs_progress = 0, fs_cid = cid \<rparr> = (w1, k1, st1)"
    "flush_section n send COPY_SQL_STRING (fb_strings b) (string_build_copy cal) PARALLEL_THRESHOLD st1 = (w2, k2, st2)"
    "flush_section n send COPY_SQL_NUM (fb_nums b) array_num_build PARALLEL_THRESHOLD st2 = (w3, k3, st3)"
    "flush_section n send COPY_SQL_STR (fb_strs b) array_str_build USIZE_MAX st3 = (w4, k4, st4)"
    "flush_json cal lib send (fb_jsons b) st4 = (w5, k5, st5)"
    "flush_section n send COPY_SQL_IMAGE (fb_images b) (image_build_copy cal lib) USIZE_MAX st5 = (w6, k6, st)"
    "fo_report o1 = \<lparr> rp_scalar = w1, rp_string = w2, rp_array = w3 + w4, rp_json = w5, rp_image = w6 \<rparr>"
    "fo_lost o1 = fs_lost st"
    "retry_bundle o1 = \<lparr> fb_scalars = k1, fb_strings = k2, fb_nums = k3, fb_strs = k4, fb_jsons = k5, fb_images = k6 \<rparr>"
    using flush_cases[OF assms(3)] .
  have fits: "\<forall>r \<in> set (fb_strings b). length (st_value r) < 2 ^ 31" "\<forall>r \<in> set (fb_strs b). length (as_value r) < 2 ^ 31"
    "\<forall>r \<in> set (fb_jsons b). json_fits lib r" "\<forall>r \<in> set (fb_images b). image_fits lib r"
    using assms(2) by (simp_all add: bundle_fits_def)
  note acc = section_accounted[where ok = True, OF assms(1)]
  obtain f1 where f1: "section_accounts True scalar_columns COPY_SQL_SCALAR (fb_scalars b) stored
      \<lparr> fs_db = db, fs_errors = [], fs_lost = 0, fs_progress = 0, fs_cid = cid \<rparr> w1 k1 st1 f1"
    using acc[OF _ s(1)] columns_parse(1) by blast
  obtain f2 where f2: "section_accounts True (string_columns cal) COPY_SQL_STRING (fb_strings b) stored st1 w2 k2 st2 f2"
    using acc[OF _ s(2)] columns_parse(3) fits(1) by blast
  obtain f3 where f3: "section_accounts True array_num_columns COPY_SQL_NUM (fb_nums b) stored st2 w3 k3 st3 f3"
    using acc[OF _ s(3)] columns_parse(2) by blast
  obtain f4 where f4: "section_accounts True array_str_columns COPY_SQL_STR (fb_strs b) stored st3 w4 k4 st4 f4"
    using acc[OF _ s(4)] columns_parse(4) fits(2) by blast
  obtain f6 where f6: "section_accounts True (image_columns cal lib) COPY_SQL_IMAGE (fb_images b) stored st5 w6 k6 st f6"
    using acc[OF _ s(6)] image_payload_parses fits(4) by blast
  have cid: "fs_cid st4 = cid"
    using flush_section_cid[OF s(1)] flush_section_cid[OF s(2)] flush_section_cid[OF s(3)] flush_section_cid[OF s(4)] by simp
  obtain g where g: "tables_accounted True cal lib stored (fb_jsons b) json_table_all cid (fs_db st4) (fs_db st5) g"
    "w5 = widths lib (\<lambda>t. g t = Written) (fb_jsons b)" "k5 = filter (\<lambda>r. g (jr_table r) = Retried) (fb_jsons b)"
    "fs_lost st5 = fs_lost st4 + widths lib (\<lambda>t. g t = Lost) (fb_jsons b)"
    using json_accounted[where ok = True, OF assms(1) fits(3) s(5)] cid by auto
  note other = flush_section_other[OF assms(1)] and j = json_table_after[OF g(1)]
  note o1 = other[OF _ s(1)] and o2 = other[OF _ s(2)] and o3 = other[OF _ s(3)] and o4 = other[OF _ s(4)]
    and o6 = other[OF _ s(6)]
  have flat: "stored (fs_db st5) q = stored (fs_db st4) q" if
      "q \<in> {COPY_SQL_SCALAR, COPY_SQL_STRING, COPY_SQL_NUM, COPY_SQL_STR, COPY_SQL_IMAGE}" for q
    using that by (intro j(3)) (auto simp: json_sql_distinct)
  have jsons: "stored (fs_db st4) (json_sql t) = stored db (json_sql t)"
    "stored (fs_db st) (json_sql t) = stored (fs_db st5) (json_sql t)" for t
    using json_sql_distinct[of t] by (simp_all add: o1 o2 o3 o4 o6)
  have "fo_lost o1 = lost_rows (fb_scalars b) f1 + lost_rows (fb_strings b) f2 + lost_rows (fb_nums b) f3 +
      lost_rows (fb_strs b) f4 + widths lib (\<lambda>t. g t = Lost) (fb_jsons b) + lost_rows (fb_images b) f6"
    using lost_of_section[OF f1] lost_of_section[OF f2] lost_of_section[OF f3] lost_of_section[OF f4] lost_of_section[OF f6]
    by (simp add: s(8) g(4))
  note lost = this
  have tables: "table_accounted (stored db COPY_SQL_SCALAR) (stored (fs_db st) COPY_SQL_SCALAR) scalar_columns (fb_scalars b) k1 w1 f1"
    "table_accounted (stored db COPY_SQL_STRING) (stored (fs_db st) COPY_SQL_STRING) (string_columns cal) (fb_strings b) k2 w2 f2"
    "table_accounted (stored db COPY_SQL_NUM) (stored (fs_db st) COPY_SQL_NUM) array_num_columns (fb_nums b) k3 w3 f3"
    "table_accounted (stored db COPY_SQL_STR) (stored (fs_db st) COPY_SQL_STR) array_str_columns (fb_strs b) k4 w4 f4"
    "table_accounted (stored db COPY_SQL_IMAGE) (stored (fs_db st) COPY_SQL_IMAGE) (image_columns cal lib) (fb_images b) k6 w6 f6"
    by (rule table_of_section[OF f1] table_of_section[OF f2] table_of_section[OF f3] table_of_section[OF f4]
        table_of_section[OF f6]; simp add: o1 o2 o3 o4 o6 flat)+
  have "\<forall>t. stored (fs_db st) (json_sql t) = stored db (json_sql t) @
      (if g t = Written then table_tuples cal lib json_table_all (fb_jsons b) cid t else [])"
    by (simp add: jsons j(1))
  with tables lost show ?thesis
    unfolding s(7,9) flush_report.simps flush_bundle.simps g(2,3) by blast
qed

text \<open>A database for examples: the tables as lists of tuples, and a count of the sends that
  still fail.\<close>

definition list_sender :: "nat \<Rightarrow> string \<Rightarrow> bytes \<Rightarrow> nat \<Rightarrow> nat \<times> (string \<Rightarrow> bytes list list) \<Rightarrow>
    (copy_error + unit) \<times> nat \<times> (string \<Rightarrow> bytes list list)" where
  "list_sender i sql p k db =
    (case db of
       (Suc f, t) \<Rightarrow> (Err \<lparr> ce_message = [], ce_transient = True \<rparr>, (f, t))
     | (0, t) \<Rightarrow>
        (case pg_parse p of
           None \<Rightarrow> (Err \<lparr> ce_message = [], ce_transient = False \<rparr>, (0, t))
         | Some rows \<Rightarrow> (Ok (), (0, t(sql := t sql @ rows)))))"

lemma list_sender_transactional: "transactional list_sender snd"
  by (auto simp: transactional_def list_sender_def split: nat.splits option.splits prod.splits)

definition two_rows :: "(64 word, unit) flush_bundle" where
  "two_rows = \<lparr> fb_scalars = [scalar_from_parts 5 7 0 0 0 SrHeartbeat],
     fb_strings = [string_row_new 5 8 (ascii ''on'') 0 0], fb_nums = [], fb_strs = [], fb_jsons = [], fb_images = [] \<rparr>"

definition no_numbers :: "unit json_lib" where
  "no_numbers = \<lparr> jl_f64 = (\<lambda>_. None), jl_i64 = (\<lambda>_. None), jl_to_vec = (\<lambda>_. None) \<rparr>"

definition mixed_rows :: "(64 word, unit) flush_bundle" where
  "mixed_rows = two_rows \<lparr> fb_jsons := [json_row_table 5 9 (ascii ''{}'') 0 0] \<rparr>"

text \<open>The first COPY, of the scalar row, fails; the others are written.\<close>

theorem flush_writes_each_row_once_witness:
  "let run = flush_with_progress second_calendar no_numbers 1 list_sender mixed_rows (1, \<lambda>_. []) 1;
       after = snd (fs_db (snd run)); o1 = fst run
   in \<exists>f1 g. table_accounted [] (after COPY_SQL_SCALAR) scalar_columns (fb_scalars mixed_rows)
        (fb_scalars (retry_bundle o1)) (rp_scalar (fo_report o1)) f1 \<and>
      after (json_sql JtTable) = (if g JtTable = Written
        then table_tuples second_calendar no_numbers json_table_all (fb_jsons mixed_rows) 1 JtTable else []) \<and>
      fb_jsons (retry_bundle o1) = filter (\<lambda>r. g (jr_table r) = Retried) (fb_jsons mixed_rows)"
proof -
  have "bundle_fits no_numbers mixed_rows"
    by (simp add: bundle_fits_def mixed_rows_def two_rows_def string_row_new_def json_fits_def json_row_table_def
        json_create_def nt_name_def ascii_def)
  moreover obtain o1 st where run: "flush_with_progress second_calendar no_numbers 1 list_sender mixed_rows (1, \<lambda>_. []) 1 = (o1, st)"
    by fastforce
  ultimately obtain f1 g where
    "table_accounted [] (snd (fs_db st) COPY_SQL_SCALAR) scalar_columns (fb_scalars mixed_rows)
       (fb_scalars (retry_bundle o1)) (rp_scalar (fo_report o1)) f1"
    "snd (fs_db st) (json_sql JtTable) = (if g JtTable = Written
       then table_tuples second_calendar no_numbers json_table_all (fb_jsons mixed_rows) 1 JtTable else [])"
    "fb_jsons (retry_bundle o1) = filter (\<lambda>r. g (jr_table r) = Retried) (fb_jsons mixed_rows)"
    using flush_writes_each_row_once[OF list_sender_transactional _ run] by (auto simp del: json_sql.simps)
  then show ?thesis
    unfolding Let_def run fst_conv snd_conv by blast
qed

end
