(* ===== verification/StoreLoop.thy ===== *)
theory StoreLoop
  imports BundleFlush
begin

text \<open>
  The store loop (\<open>aura-store/src/store_loop.rs\<close>, with the flush clock of
  \<open>aura-store/src/pipeline.rs\<close>): it reaps a finished background flush, schedules the next one
  (a due retry before fresh rows), and ingests what the shared buffers hold unless a retry is
  pending; at shutdown it waits for the flush, tries the retained bundle once more and drains
  the buffers.  The clock, what became of the background task and the contents of the buffers
  are the inputs of an iteration; a flush is executed when it is reaped, on the pool and the
  database of the input.  Sleeping, statistics and the fallback channel are not part of this
  theory.  Counters are natural numbers: they would need 2^64 rows to wrap.
\<close>

definition FLUSH_BACKOFF_SECS :: "nat list" where
  "FLUSH_BACKOFF_SECS = [1, 4, 15, 30, 60]"

record ('dt, 'num) pending_retry =
  pr_bundle :: "('dt, 'num) flush_bundle"
  pr_attempts :: nat
  pr_next_try :: nat

record ('dt, 'num) store_loop =
  sl_writer :: "('dt, 'num) batch_writer"
  sl_inflight :: "('dt, 'num) flush_bundle option"
  sl_inflight_attempts :: nat
  sl_inflight_rows :: nat
  sl_pending :: "('dt, 'num) pending_retry option"
  sl_last_flush :: nat
  sl_written :: nat
  sl_rows_lost :: nat
  sl_flush_errors :: nat
  sl_received :: nat
  sl_stored :: nat

definition store_loop_new :: "('dt, 'num) batch_writer \<Rightarrow> nat \<Rightarrow> ('dt, 'num) store_loop" where
  "store_loop_new w now =
    \<lparr> sl_writer = w, sl_inflight = None, sl_inflight_attempts = 0, sl_inflight_rows = 0,
      sl_pending = None, sl_last_flush = now, sl_written = 0, sl_rows_lost = 0, sl_flush_errors = 0,
      sl_received = 0, sl_stored = 0 \<rparr>"

text \<open>How the background task ended: with an outcome, or without one after \<open>committed\<close>
  rows.\<close>

datatype ('dt, 'num) task_result =
    TaskDone "('dt, 'num) flush_outcome"
  | TaskFailed nat

section \<open>Reaping\<close>

definition backoff_delay :: "nat \<Rightarrow> nat" where
  "backoff_delay failed =
    FLUSH_BACKOFF_SECS ! min (failed - 1) (length FLUSH_BACKOFF_SECS - 1)"

text \<open>What a transient failure does with the retained bundle (times in milliseconds).\<close>

definition retain_bundle ::
  "nat \<Rightarrow> nat \<Rightarrow> ('dt, 'num) flush_bundle \<Rightarrow> ('dt, 'num) store_loop \<Rightarrow> ('dt, 'num) store_loop" where
  "retain_bundle now attempts b st =
    (let st = st \<lparr> sl_flush_errors := sl_flush_errors st + 1 \<rparr>; failed = attempts + 1 in
     if failed < length FLUSH_BACKOFF_SECS + 1 then
       st \<lparr> sl_pending := Some \<lparr> pr_bundle = b, pr_attempts = failed,
              pr_next_try = now + 1000 * backoff_delay failed \<rparr> \<rparr>
     else st \<lparr> sl_rows_lost := sl_rows_lost st + total_rows b \<rparr>)"

definition count_lost :: "nat \<Rightarrow> ('dt, 'num) store_loop \<Rightarrow> ('dt, 'num) store_loop" where
  "count_lost lost st =
    (if lost > 0 then st \<lparr> sl_flush_errors := sl_flush_errors st + 1, sl_rows_lost := sl_rows_lost st + lost \<rparr>
     else st)"

definition reap_task ::
  "nat \<Rightarrow> ('dt, 'num) task_result \<Rightarrow> ('dt, 'num) store_loop \<Rightarrow> ('dt, 'num) store_loop" where
  "reap_task now r st =
    (let attempts = sl_inflight_attempts st; at_risk = sl_inflight_rows st;
         st = st \<lparr> sl_inflight := None, sl_inflight_attempts := 0, sl_inflight_rows := 0 \<rparr> in
     case r of
       TaskDone out \<Rightarrow>
         (let st = count_lost (fo_lost out) (st \<lparr> sl_written := sl_written st + report_total (fo_report out) \<rparr>) in
          case fo_retry out of
            None \<Rightarrow> st
          | Some b \<Rightarrow> retain_bundle now attempts b st)
     | TaskFailed committed \<Rightarrow>
         st \<lparr> sl_flush_errors := sl_flush_errors st + 1, sl_written := sl_written st + committed,
              sl_rows_lost := sl_rows_lost st + (at_risk - committed) \<rparr>)"

section \<open>Scheduling\<close>

definition start_flush ::
  "('dt, 'num) flush_bundle \<Rightarrow> nat \<Rightarrow> ('dt, 'num) store_loop \<Rightarrow> ('dt, 'num) store_loop" where
  "start_flush b attempts st =
    st \<lparr> sl_inflight := Some b, sl_inflight_attempts := attempts, sl_inflight_rows := total_rows b \<rparr>"

definition schedule_retry :: "nat \<Rightarrow> ('dt, 'num) store_loop \<Rightarrow> ('dt, 'num) store_loop" where
  "schedule_retry now st =
    (if sl_inflight st = None then
       (case sl_pending st of
          None \<Rightarrow> st
        | Some pr \<Rightarrow>
            if now \<ge> pr_next_try pr then start_flush (pr_bundle pr) (pr_attempts pr) (st \<lparr> sl_pending := None \<rparr>)
            else st)
     else st)"

definition should_time_flush :: "nat \<Rightarrow> nat \<Rightarrow> ('dt, 'num) store_loop \<Rightarrow> bool" where
  "should_time_flush interval now st \<longleftrightarrow> now - sl_last_flush st \<ge> interval"

definition schedule_fresh :: "nat \<Rightarrow> nat \<Rightarrow> ('dt, 'num) store_loop \<Rightarrow> ('dt, 'num) store_loop" where
  "schedule_fresh interval now st =
    (if sl_inflight st = None \<and> sl_pending st = None \<and> has_pending (sl_writer st) \<and>
        (any_writer_full (sl_writer st) \<or> should_time_flush interval now st) then
       (case take_flush_bundle (sl_writer st) of
          (None, w) \<Rightarrow> st \<lparr> sl_writer := w \<rparr>
        | (Some b, w) \<Rightarrow> start_flush b 0 (st \<lparr> sl_writer := w, sl_last_flush := now \<rparr>))
     else st)"

section \<open>Ingesting\<close>

text \<open>One buffer: its scalars, then its other rows; and how many rows it held.\<close>

definition ingest_rows ::
  "'dt calendar \<Rightarrow> ('dt, 'num) shared_buffer \<Rightarrow> ('dt, 'num) batch_writer \<Rightarrow> nat \<times> ('dt, 'num) batch_writer" where
  "ingest_rows cal b w =
    (let (scalars, b1) = take_scalars b; (others, _) = take_others b1;
         w1 = (if scalars = [] then w else snd (ingest_scalars scalars w));
         w2 = (if others = [] then w1 else snd (ingest_other_rows cal others w1))
     in (length scalars + length others, w2))"

definition ingest_buffer ::
  "'dt calendar \<Rightarrow> ('dt, 'num) shared_buffer \<Rightarrow> ('dt, 'num) store_loop \<Rightarrow> ('dt, 'num) store_loop" where
  "ingest_buffer cal b st =
    (case ingest_rows cal b (sl_writer st) of
       (n, w) \<Rightarrow> st \<lparr> sl_writer := w, sl_received := sl_received st + n, sl_stored := sl_stored st + n \<rparr>)"

definition emptied :: "('dt, 'num) shared_buffer \<Rightarrow> ('dt, 'num) shared_buffer" where
  "emptied b = snd (take_others (snd (take_scalars b)))"

definition ingest_phase ::
  "'dt calendar \<Rightarrow> ('dt, 'num) shared_buffer list \<Rightarrow> ('dt, 'num) store_loop \<Rightarrow>
   ('dt, 'num) store_loop \<times> ('dt, 'num) shared_buffer list" where
  "ingest_phase cal bufs st =
    (if sl_pending st = None then (fold (ingest_buffer cal) bufs st, map emptied bufs) else (st, bufs))"

section \<open>The loop\<close>

record 'db flush_env =
  fe_n :: nat
  fe_send :: "'db sender"
  fe_db :: 'db
  fe_cid :: "64 word"

datatype 'db task_end = Completes "'db flush_env" | Fails nat

fun run_task ::
  "'dt calendar \<Rightarrow> 'num json_lib \<Rightarrow> 'db task_end \<Rightarrow> ('dt, 'num) flush_bundle \<Rightarrow> ('dt, 'num) task_result" where
  "run_task cal lib (Completes e) b =
    TaskDone (fst (flush_with_progress cal lib (fe_n e) (fe_send e) b (fe_db e) (fe_cid e)))"
| "run_task cal lib (Fails committed) b = TaskFailed committed"

record ('dt, 'num, 'db) loop_input =
  in_now :: nat
  in_finished :: "'db task_end option"
  in_bufs :: "('dt, 'num) shared_buffer list"

text \<open>The phases of an iteration, for a task that is found finished or not.\<close>

definition reap_phase ::
  "'dt calendar \<Rightarrow> 'num json_lib \<Rightarrow> nat \<Rightarrow> 'db task_end option \<Rightarrow> ('dt, 'num) store_loop \<Rightarrow> ('dt, 'num) store_loop" where
  "reap_phase cal lib now fin st =
    (case (sl_inflight st, fin) of
       (Some b, Some f) \<Rightarrow> reap_task now (run_task cal lib f b) st
     | _ \<Rightarrow> st)"

definition loop_step ::
  "'dt calendar \<Rightarrow> 'num json_lib \<Rightarrow> nat \<Rightarrow> ('dt, 'num, 'db) loop_input \<Rightarrow> ('dt, 'num) store_loop \<Rightarrow>
   ('dt, 'num) store_loop" where
  "loop_step cal lib interval i st =
    fst (ingest_phase cal (in_bufs i)
      (schedule_fresh interval (in_now i) (schedule_retry (in_now i)
        (reap_phase cal lib (in_now i) (in_finished i) st))))"

definition loop_run where
  "loop_run cal lib interval = fold (loop_step cal lib interval)"

section \<open>Shutdown\<close>

text \<open>The task in flight is waited for; a bundle it returns is retained whatever its
  attempts.\<close>

definition shutdown_join ::
  "('dt, 'num) task_result \<Rightarrow> ('dt, 'num) store_loop \<Rightarrow> ('dt, 'num) store_loop" where
  "shutdown_join r st =
    (case r of
       TaskDone out \<Rightarrow>
         (let st1 = st \<lparr> sl_inflight := None, sl_written := sl_written st + report_total (fo_report out),
                        sl_rows_lost := sl_rows_lost st + fo_lost out \<rparr> in
          case fo_retry out of
            None \<Rightarrow> st1
          | Some b \<Rightarrow> st1 \<lparr> sl_pending := Some \<lparr> pr_bundle = b, pr_attempts = sl_inflight_attempts st + 1,
                                 pr_next_try = 0 \<rparr> \<rparr>)
     | TaskFailed committed \<Rightarrow>
         st \<lparr> sl_inflight := None, sl_written := sl_written st + committed,
              sl_rows_lost := sl_rows_lost st + (sl_inflight_rows st - committed) \<rparr>)"

text \<open>A last flush: what it does not write is lost.\<close>

definition final_flush ::
  "('dt, 'num) task_result \<Rightarrow> nat \<Rightarrow> ('dt, 'num) store_loop \<Rightarrow> ('dt, 'num) store_loop" where
  "final_flush r rows st =
    (case r of
       TaskDone out \<Rightarrow>
         st \<lparr> sl_written := sl_written st + report_total (fo_report out),
              sl_rows_lost := sl_rows_lost st + (fo_lost out +
                (case fo_retry out of None \<Rightarrow> 0 | Some b \<Rightarrow> total_rows b)) \<rparr>
     | TaskFailed committed \<Rightarrow>
         st \<lparr> sl_written := sl_written st + committed, sl_rows_lost := sl_rows_lost st + (rows - committed) \<rparr>)"

definition shutdown_inflight where
  "shutdown_inflight cal lib fin st =
    (case sl_inflight st of None \<Rightarrow> st | Some b \<Rightarrow> shutdown_join (run_task cal lib fin b) st)"

definition shutdown_retry where
  "shutdown_retry cal lib fin st =
    (case sl_pending st of
       None \<Rightarrow> st
     | Some pr \<Rightarrow> final_flush (run_task cal lib fin (pr_bundle pr)) (total_rows (pr_bundle pr)) (st \<lparr> sl_pending := None \<rparr>))"

definition shutdown_drain where
  "shutdown_drain cal lib fin bufs st =
    (case take_flush_bundle (fold (\<lambda>b w. snd (ingest_rows cal b w)) bufs (sl_writer st)) of
       (None, w) \<Rightarrow> st \<lparr> sl_writer := w \<rparr>
     | (Some b, w) \<Rightarrow> final_flush (run_task cal lib fin b) (total_rows b) (st \<lparr> sl_writer := w \<rparr>))"

definition shutdown where
  "shutdown cal lib fins bufs st =
    shutdown_drain cal lib (fins 2) bufs (shutdown_retry cal lib (fins 1) (shutdown_inflight cal lib (fins (0 :: nat)) st))"

section \<open>Where every row is\<close>

definition inflight_rows :: "('dt, 'num) store_loop \<Rightarrow> nat" where
  "inflight_rows st = (case sl_inflight st of None \<Rightarrow> 0 | Some b \<Rightarrow> total_rows b)"

definition pending_rows :: "('dt, 'num) store_loop \<Rightarrow> nat" where
  "pending_rows st = (case sl_pending st of None \<Rightarrow> 0 | Some pr \<Rightarrow> total_rows (pr_bundle pr))"

definition accounted_rows :: "('dt, 'num) store_loop \<Rightarrow> nat" where
  "accounted_rows st = sl_written st + sl_rows_lost st + inflight_rows st + pending_rows st +
     total_buffered (sl_writer st)"

text \<open>The pushes the writers refused: one count per row or capture.\<close>

definition refused_rows :: "('dt, 'num) batch_writer \<Rightarrow> u64" where
  "refused_rows w = rw_backpressure (bw_string w) + aw_backpressure (bw_array w) + rw_backpressure (bw_json w) +
     rw_backpressure (bw_image w)"

text \<open>How many archived rows a row stands for: an array capture for its elements.  A JSON capture is
  counted once where it waits or is lost, and by its tuples where it is written; the counts are
  exact for captures of one tuple: every table and every custom structure, and a destructured
  capture with one element.\<close>

fun row_units :: "('dt, 'num) WriterRow \<Rightarrow> nat" where
  "row_units (WrArray c) = capture_len c" | "row_units _ = 1"

fun row_exact :: "'num json_lib \<Rightarrow> ('dt, 'num) WriterRow \<Rightarrow> bool" where
  "row_exact lib (WrJson r) = (json_width lib r = 1)" | "row_exact lib _ = True"

definition units_of :: "('dt, 'num) WriterRow list \<Rightarrow> nat" where
  "units_of rows = sum_list (map row_units rows)"

definition exact_buffer :: "'num json_lib \<Rightarrow> ('dt, 'num) shared_buffer \<Rightarrow> bool" where
  "exact_buffer lib b \<longleftrightarrow> list_all (row_exact lib) (sb_others b)"

definition held_rows :: "('dt, 'num) shared_buffer list \<Rightarrow> nat" where
  "held_rows bufs = sum_list (map sb_len bufs)"

definition held_others :: "('dt, 'num) shared_buffer list \<Rightarrow> ('dt, 'num) WriterRow list" where
  "held_others bufs = concat (map sb_others bufs)"

definition held_units :: "('dt, 'num) shared_buffer list \<Rightarrow> nat" where
  "held_units bufs = sum_list (map (length \<circ> sb_scalars) bufs) + units_of (held_others bufs)"

definition singles :: "'num json_lib \<Rightarrow> ('dt, 'num) json_row list \<Rightarrow> bool" where
  "singles lib rows \<longleftrightarrow> (\<forall>r \<in> set rows. json_width lib r = 1)"

definition retry_total :: "('dt, 'num) flush_outcome \<Rightarrow> nat" where
  "retry_total o1 = (case fo_retry o1 of None \<Rightarrow> 0 | Some b \<Rightarrow> total_rows b)"

definition loop_ok :: "'num json_lib \<Rightarrow> ('dt, 'num) store_loop \<Rightarrow> bool" where
  "loop_ok lib st \<longleftrightarrow>
    singles lib (rw_buffer (bw_json (sl_writer st))) \<and>
    (\<forall>b. sl_inflight st = Some b \<longrightarrow> singles lib (fb_jsons b) \<and> sl_inflight_rows st = total_rows b \<and>
       sl_inflight_attempts st \<le> 5) \<and>
    (\<forall>pr. sl_pending st = Some pr \<longrightarrow> singles lib (fb_jsons (pr_bundle pr)) \<and> 1 \<le> pr_attempts pr \<and> pr_attempts pr \<le> 5) \<and>
    (sl_inflight st = None \<or> sl_pending st = None)"

text \<open>A task that fails has committed at most its rows.\<close>

fun end_ok :: "'db task_end \<Rightarrow> ('dt, 'num) flush_bundle \<Rightarrow> bool" where
  "end_ok (Completes _) b = True" | "end_ok (Fails c) b = (c \<le> total_rows b)"

text \<open>What becomes of rows that are offered to the writers: they are buffered, or refused and counted.\<close>

definition offered where
  "offered lib units rows w w' \<longleftrightarrow> (\<exists>refused. subseq refused rows \<and>
    total_buffered w' + units_of refused = total_buffered w + units \<and>
    refused_rows w' = refused_rows w + of_nat (length refused) \<and>
    (singles lib (rw_buffer (bw_json w)) \<longrightarrow> singles lib (rw_buffer (bw_json w'))))"

lemma offered_refl: "offered lib 0 [] w w"
  by (auto simp: offered_def units_of_def)

lemma offered_trans:
  assumes "offered lib m rows w w1" "offered lib n rows' w1 w2"
  shows "offered lib (m + n) (rows @ rows') w w2"
proof -
  obtain r1 where 1: "subseq r1 rows" "total_buffered w1 + units_of r1 = total_buffered w + m"
    "refused_rows w1 = refused_rows w + of_nat (length r1)"
    "singles lib (rw_buffer (bw_json w)) \<longrightarrow> singles lib (rw_buffer (bw_json w1))"
    using assms(1) by (auto simp: offered_def)
  obtain r2 where 2: "subseq r2 rows'" "total_buffered w2 + units_of r2 = total_buffered w1 + n"
    "refused_rows w2 = refused_rows w1 + of_nat (length r2)"
    "singles lib (rw_buffer (bw_json w1)) \<longrightarrow> singles lib (rw_buffer (bw_json w2))"
    using assms(2) by (auto simp: offered_def)
  have "subseq (r1 @ r2) (rows @ rows')"
    by (rule list_emb_append_mono[OF 1(1) 2(1)])
  then show ?thesis
    unfolding offered_def using 1 2 by (intro exI[of _ "r1 @ r2"]) (simp add: units_of_def)
qed

lemma ingest_other_one:
  assumes "row_exact lib r"
  shows "offered lib (row_units r) [r] w (ingest_other_row cal r w)"
proof (cases r)
  case (WrString s)
  then show ?thesis
    unfolding offered_def
    by (intro exI[of _ "if is_accepted (fst (string_push s (bw_string w))) then [] else [r]"])
      (auto simp: total_buffered_def refused_rows_def string_push_def row_push_def units_of_def Let_def)
next
  case (WrImage s)
  then show ?thesis
    unfolding offered_def
    by (intro exI[of _ "if is_accepted (fst (image_push s (bw_image w))) then [] else [r]"])
      (auto simp: total_buffered_def refused_rows_def image_push_def row_push_def units_of_def Let_def)
next
  case (WrJson s)
  then show ?thesis
    unfolding offered_def using assms
    by (intro exI[of _ "if is_accepted (fst (json_push s (bw_json w))) then [] else [r]"])
      (auto simp: total_buffered_def refused_rows_def json_push_def row_push_def units_of_def singles_def Let_def)
next
  case (WrArray c)
  then show ?thesis
    unfolding offered_def
    by (intro exI[of _ "if is_accepted (fst (array_push cal c (bw_array w) (bw_next_array_id w))) then [] else [r]"])
      (auto simp: total_buffered_def refused_rows_def array_push_def capture_len_def array_len_def num_rows_def
        str_rows_def units_of_def Let_def split: ArrayData.split)
qed

lemma ingest_others_fold:
  assumes "list_all (row_exact lib) rows"
  shows "offered lib (units_of rows) rows w (fold (ingest_other_row cal) rows w)"
  using assms
proof (induction rows arbitrary: w)
  case (Cons r rows)
  then show ?case
    using offered_trans[OF ingest_other_one[of lib r w cal] Cons.IH[of "ingest_other_row cal r w"]]
    by (simp add: units_of_def)
qed (simp add: offered_refl units_of_def)

lemma offered_same:
  "offered lib n rows w w' \<Longrightarrow> total_buffered v = total_buffered w + k \<Longrightarrow> refused_rows v = refused_rows w \<Longrightarrow>
    bw_json v = bw_json w \<Longrightarrow> offered lib m rows v w' \<Longrightarrow> offered lib (k + m) rows w w'"
  by (auto simp: offered_def)

lemma ingest_rows_accounts:
  assumes "exact_buffer lib b" "ingest_rows cal b w = (n, w')"
  shows "n = sb_len b \<and> offered lib (held_units [b]) (sb_others b) w w'"
proof -
  let ?w1 = "if sb_scalars b = [] then w else snd (ingest_scalars (sb_scalars b) w)"
  let ?w2 = "fold (ingest_other_row cal) (sb_others b) ?w1"
  have "total_buffered ?w1 = total_buffered w + length (sb_scalars b)" "refused_rows ?w1 = refused_rows w"
    "bw_json ?w1 = bw_json w"
    by (auto simp: ingest_scalars_def Let_def total_buffered_def refused_rows_def)
  moreover have "offered lib (units_of (sb_others b)) (sb_others b) ?w1 ?w2"
    using assms(1) by (intro ingest_others_fold) (simp add: exact_buffer_def)
  moreover have "total_buffered w' = total_buffered ?w2" "refused_rows w' = refused_rows ?w2" "bw_json w' = bw_json ?w2"
    using assms(2)
    by (auto simp: ingest_rows_def take_scalars_def take_others_def ingest_other_rows_def Let_def
        total_buffered_def refused_rows_def split: if_splits)
  ultimately show ?thesis
    using assms(2)
    by (auto simp: offered_def held_units_def held_others_def ingest_rows_def take_scalars_def take_others_def
        sb_len_def Let_def)
qed

text \<open>\<open>taken\<close> are the buffers the loop has emptied so far.\<close>

definition loop_inv :: "'num json_lib \<Rightarrow> ('dt, 'num) shared_buffer list \<Rightarrow> ('dt, 'num) store_loop \<Rightarrow> bool" where
  "loop_inv lib taken st \<longleftrightarrow> loop_ok lib st \<and> sl_received st = held_rows taken \<and>
    (\<exists>refused. subseq refused (held_others taken) \<and> refused_rows (sl_writer st) = of_nat (length refused) \<and>
       held_units taken = accounted_rows st + units_of refused)"

lemma held_append [simp]:
  "held_rows (xs @ ys) = held_rows xs + held_rows ys" "held_others (xs @ ys) = held_others xs @ held_others ys"
  "held_units (xs @ ys) = held_units xs + held_units ys"
  by (simp_all add: held_rows_def held_others_def held_units_def units_of_def)

lemma held_one: "held_rows [b] = sb_len b" "held_others [b] = sb_others b"
  by (simp_all add: held_rows_def held_others_def)

lemma ingest_buffer_inv:
  assumes "loop_inv lib taken st" "exact_buffer lib b"
  shows "loop_inv lib (taken @ [b]) (ingest_buffer cal b st)"
proof -
  obtain n w where i: "ingest_rows cal b (sl_writer st) = (n, w)"
    by fastforce
  note o = ingest_rows_accounts[OF assms(2) i]
  obtain r where r: "subseq r (sb_others b)" "total_buffered w + units_of r = total_buffered (sl_writer st) + held_units [b]"
    "refused_rows w = refused_rows (sl_writer st) + of_nat (length r)"
    "singles lib (rw_buffer (bw_json (sl_writer st))) \<longrightarrow> singles lib (rw_buffer (bw_json w))"
    using o by (auto simp: offered_def)
  obtain r0 where r0: "subseq r0 (held_others taken)" "refused_rows (sl_writer st) = of_nat (length r0)"
    "held_units taken = accounted_rows st + units_of r0"
    using assms(1) by (auto simp: loop_inv_def)
  have "subseq (r0 @ r) (held_others (taken @ [b]))"
    using list_emb_append_mono[OF r0(1) r(1)] by (simp add: held_one)
  moreover have "held_units (taken @ [b]) = accounted_rows (ingest_buffer cal b st) + units_of (r0 @ r)"
    using r(2) r0(3) i
    by (simp add: ingest_buffer_def accounted_rows_def inflight_rows_def pending_rows_def units_of_def)
  moreover have "loop_ok lib (ingest_buffer cal b st)" "sl_received (ingest_buffer cal b st) = held_rows (taken @ [b])"
    using assms(1) r(4) i o by (auto simp: loop_inv_def loop_ok_def ingest_buffer_def held_one)
  ultimately show ?thesis
    unfolding loop_inv_def using r(3) r0(2) i by (intro conjI exI[of _ "r0 @ r"]) (simp_all add: ingest_buffer_def)
qed

lemma ingest_phase_inv:
  assumes "loop_inv lib taken st" "list_all (exact_buffer lib) bufs"
  shows "loop_inv lib (taken @ (if sl_pending st = None then bufs else [])) (fst (ingest_phase cal bufs st))"
proof -
  have "loop_inv lib (taken @ bufs) (fold (ingest_buffer cal) bufs st)"
    using assms
  proof (induction bufs arbitrary: st taken)
    case (Cons b bufs)
    then show ?case
      using Cons.IH[OF ingest_buffer_inv[OF Cons.prems(1)]] by simp
  qed simp
  then show ?thesis
    using assms(1) by (simp add: ingest_phase_def)
qed

lemma retry_total_bundle: "total_rows (retry_bundle o1) = retry_total o1"
  by (simp add: retry_total_def retry_bundle_def total_rows_def split: option.split)

lemma run_task_counts:
  assumes "singles lib (fb_jsons b)" "run_task cal lib f b = TaskDone o1"
  shows "report_total (fo_report o1) + retry_total o1 + fo_lost o1 = total_rows b \<and>
    (\<forall>r. fo_retry o1 = Some r \<longrightarrow> singles lib (fb_jsons r))"
proof -
  obtain e where "f = Completes e"
    using assms(2) by (cases f) auto
  then obtain st where "flush_with_progress cal lib (fe_n e) (fe_send e) b (fe_db e) (fe_cid e) = (o1, st)"
    using assms(2) by (metis run_task.simps(1) task_result.inject(1) prod.collapse)
  from flush_counts[OF this assms(1)[unfolded singles_def]] show ?thesis
    using assms(1) by (auto simp: retry_total_bundle[symmetric] retry_bundle_def singles_def)
qed

lemma run_task_failed: "run_task cal lib f b = TaskFailed c \<Longrightarrow> f = Fails c"
  by (cases f) auto

text \<open>A step that moves rows from one place to another.\<close>

lemma loop_inv_moved:
  assumes "loop_inv lib taken st" "loop_ok lib st'"
    and "refused_rows (sl_writer st') = refused_rows (sl_writer st)" "sl_received st' = sl_received st"
    and "accounted_rows st' = accounted_rows st"
  shows "loop_inv lib taken st'"
  using assms by (auto simp: loop_inv_def)

lemma reap_task_inv:
  assumes inv: "loop_inv lib taken st" and b: "sl_inflight st = Some b" and f: "end_ok f b"
  shows "loop_inv lib taken (reap_task now (run_task cal lib f b) st)"
proof -
  have ok: "loop_ok lib st" "singles lib (fb_jsons b)" "sl_inflight_rows st = total_rows b" "sl_inflight_attempts st \<le> 5"
    "sl_pending st = None"
    using inv b by (auto simp: loop_inv_def loop_ok_def)
  show ?thesis
  proof (cases "run_task cal lib f b")
    case (TaskFailed c)
    then have "c \<le> total_rows b"
      using f run_task_failed[OF TaskFailed] by simp
    then show ?thesis
      using ok b TaskFailed
      by (intro loop_inv_moved[OF inv])
        (auto simp: reap_task_def loop_ok_def accounted_rows_def inflight_rows_def pending_rows_def Let_def)
  next
    case (TaskDone out)
    note c = run_task_counts[OF ok(2) TaskDone]
    show ?thesis
    proof (cases "fo_retry out")
      case None
      then show ?thesis
        using ok b c TaskDone
        by (intro loop_inv_moved[OF inv])
          (auto simp: reap_task_def count_lost_def loop_ok_def accounted_rows_def inflight_rows_def pending_rows_def
            retry_total_def Let_def)
    next
      case (Some r)
      then have "total_rows r = retry_total out" "singles lib (fb_jsons r)"
        using c by (simp_all add: retry_total_def)
      then show ?thesis
        using ok b c TaskDone Some
        by (intro loop_inv_moved[OF inv])
          (auto simp: reap_task_def count_lost_def retain_bundle_def FLUSH_BACKOFF_SECS_def loop_ok_def
            accounted_rows_def inflight_rows_def pending_rows_def Let_def)
    qed
  qed
qed

lemma reap_phase_inv:
  assumes "loop_inv lib taken st" "\<And>b f. sl_inflight st = Some b \<Longrightarrow> fin = Some f \<Longrightarrow> end_ok f b"
  shows "loop_inv lib taken (reap_phase cal lib now fin st)"
proof (cases "sl_inflight st")
  case (Some b)
  show ?thesis
  proof (cases fin)
    case fin: (Some f)
    then show ?thesis
      using reap_task_inv[OF assms(1) Some assms(2)[OF Some fin]] Some by (simp add: reap_phase_def)
  qed (use assms Some in \<open>simp add: reap_phase_def\<close>)
qed (use assms in \<open>simp add: reap_phase_def\<close>)

lemma schedule_retry_inv: "loop_inv lib taken st \<Longrightarrow> loop_inv lib taken (schedule_retry now st)"
  by (rule loop_inv_moved)
    (auto simp: loop_inv_def schedule_retry_def start_flush_def loop_ok_def accounted_rows_def inflight_rows_def
      pending_rows_def split: option.split)

lemma take_flush_bundle_inv:
  assumes "take_flush_bundle w = (Some b, w')"
  shows "total_rows b = total_buffered w" "total_buffered w' = 0" "fb_jsons b = rw_buffer (bw_json w)"
    "rw_buffer (bw_json w') = []" "refused_rows w' = refused_rows w"
  using assms take_flush_bundle_rows[of w]
  by (auto simp: take_flush_bundle_def refused_rows_def split: if_splits)

lemma schedule_fresh_inv:
  assumes "loop_inv lib taken st"
  shows "loop_inv lib taken (schedule_fresh interval now st)"
proof (cases "take_flush_bundle (sl_writer st)")
  case (Pair bo w)
  show ?thesis
  proof (cases bo)
    case None
    then show ?thesis
      using Pair assms by (auto simp: schedule_fresh_def take_flush_bundle_def split: if_splits)
  next
    case (Some b)
    note t = take_flush_bundle_inv[OF Pair[unfolded Some]]
    show ?thesis
      by (rule loop_inv_moved[OF assms])
        (use assms Pair Some t in \<open>auto simp: schedule_fresh_def start_flush_def loop_inv_def loop_ok_def singles_def
          accounted_rows_def inflight_rows_def pending_rows_def\<close>)
  qed
qed

definition input_ok :: "'num json_lib \<Rightarrow> ('dt, 'num) store_loop \<Rightarrow> ('dt, 'num, 'db) loop_input \<Rightarrow> bool" where
  "input_ok lib st i \<longleftrightarrow> list_all (exact_buffer lib) (in_bufs i) \<and>
     (\<forall>b f. sl_inflight st = Some b \<longrightarrow> in_finished i = Some f \<longrightarrow> end_ok f b)"

text \<open>The buffers an iteration empties: all of them, unless a retry is pending.\<close>

definition taken_in where
  "taken_in cal lib interval i st =
    (if sl_pending (schedule_fresh interval (in_now i) (schedule_retry (in_now i)
        (reap_phase cal lib (in_now i) (in_finished i) st))) = None then in_bufs i else [])"

lemma loop_step_inv:
  "loop_inv lib taken st \<Longrightarrow> input_ok lib st i \<Longrightarrow>
    loop_inv lib (taken @ taken_in cal lib interval i st) (loop_step cal lib interval i st)"
  unfolding loop_step_def input_ok_def taken_in_def
  by (intro ingest_phase_inv schedule_fresh_inv schedule_retry_inv reap_phase_inv) auto

primrec inputs_ok where
  "inputs_ok cal lib interval [] st = True"
| "inputs_ok cal lib interval (i # is) st =
    (input_ok lib st i \<and> inputs_ok cal lib interval is (loop_step cal lib interval i st))"

primrec taken_bufs where
  "taken_bufs cal lib interval [] st = []"
| "taken_bufs cal lib interval (i # is) st =
    taken_in cal lib interval i st @ taken_bufs cal lib interval is (loop_step cal lib interval i st)"

lemma loop_run_inv:
  "loop_inv lib taken st \<Longrightarrow> inputs_ok cal lib interval is st \<Longrightarrow>
    loop_inv lib (taken @ taken_bufs cal lib interval is st) (loop_run cal lib interval is st)"
proof (induction "is" arbitrary: st taken)
  case (Cons i "is")
  then show ?case
    using Cons.IH[OF loop_step_inv[OF Cons.prems(1), of i cal interval]] by (simp add: loop_run_def)
qed (simp add: loop_run_def)

lemma loop_inv_new:
  "total_buffered w = 0 \<Longrightarrow> refused_rows w = 0 \<Longrightarrow> loop_inv lib [] (store_loop_new w now)"
  by (auto simp: loop_inv_def loop_ok_def store_loop_new_def accounted_rows_def inflight_rows_def pending_rows_def
      total_buffered_def singles_def held_rows_def held_units_def held_others_def units_of_def)

section \<open>Shutdown accounts for the rest\<close>

lemma final_flush_accounts:
  assumes "singles lib (fb_jsons b)" "end_ok f b"
  shows "sl_written (final_flush (run_task cal lib f b) (total_rows b) st) +
      sl_rows_lost (final_flush (run_task cal lib f b) (total_rows b) st) =
      sl_written st + sl_rows_lost st + total_rows b"
    "sl_writer (final_flush (run_task cal lib f b) (total_rows b) st) = sl_writer st"
    "sl_inflight (final_flush (run_task cal lib f b) (total_rows b) st) = sl_inflight st"
    "sl_pending (final_flush (run_task cal lib f b) (total_rows b) st) = sl_pending st"
    "sl_received (final_flush (run_task cal lib f b) (total_rows b) st) = sl_received st"
  using assms run_task_counts[OF assms(1), of cal f] run_task_failed[of cal lib f b]
  by (auto simp: final_flush_def retry_total_def split: task_result.split)

lemma shutdown_join_accounts:
  fixes cal :: "'dt calendar" and lib :: "'num json_lib"
  assumes "sl_inflight st = Some b" "singles lib (fb_jsons b)" "sl_inflight_rows st = total_rows b"
    and "sl_pending st = None" "end_ok f b"
  defines "st' \<equiv> shutdown_join (run_task cal lib f b) st"
  shows "accounted_rows st' = accounted_rows st \<and> sl_inflight st' = None \<and> sl_writer st' = sl_writer st \<and>
    sl_received st' = sl_received st \<and> (\<forall>pr. sl_pending st' = Some pr \<longrightarrow> singles lib (fb_jsons (pr_bundle pr)))"
proof (cases "run_task cal lib f b")
  case (TaskDone out)
  from run_task_counts[OF assms(2) TaskDone] show ?thesis
    using assms(1-4) TaskDone
    by (cases "fo_retry out")
      (auto simp: st'_def shutdown_join_def accounted_rows_def inflight_rows_def pending_rows_def retry_total_def Let_def)
next
  case (TaskFailed c)
  with run_task_failed[OF TaskFailed] show ?thesis
    using assms by (auto simp: shutdown_join_def accounted_rows_def inflight_rows_def pending_rows_def)
qed

lemma shutdown_inflight_accounts:
  fixes cal :: "'dt calendar" and lib :: "'num json_lib"
  assumes "loop_inv lib taken st" "\<And>b. sl_inflight st = Some b \<Longrightarrow> end_ok f b"
  defines "st' \<equiv> shutdown_inflight cal lib f st"
  shows "accounted_rows st' = accounted_rows st \<and> sl_inflight st' = None \<and> sl_writer st' = sl_writer st \<and>
    sl_received st' = sl_received st \<and> (\<forall>pr. sl_pending st' = Some pr \<longrightarrow> singles lib (fb_jsons (pr_bundle pr)))"
proof (cases "sl_inflight st")
  case (Some b)
  then show ?thesis
    using shutdown_join_accounts[OF Some, of lib f cal] assms by (simp add: loop_inv_def loop_ok_def shutdown_inflight_def)
qed (use assms in \<open>simp add: loop_inv_def loop_ok_def shutdown_inflight_def\<close>)

lemma shutdown_retry_accounts:
  fixes cal :: "'dt calendar" and lib :: "'num json_lib"
  assumes "\<And>pr. sl_pending st = Some pr \<Longrightarrow> singles lib (fb_jsons (pr_bundle pr)) \<and> end_ok f (pr_bundle pr)"
    and "sl_inflight st = None"
  defines "st' \<equiv> shutdown_retry cal lib f st"
  shows "accounted_rows st' = accounted_rows st \<and> sl_inflight st' = None \<and> sl_pending st' = None \<and>
    sl_writer st' = sl_writer st \<and> sl_received st' = sl_received st"
proof (cases "sl_pending st")
  case (Some pr)
  then show ?thesis
    using assms final_flush_accounts[of lib "pr_bundle pr" f cal "st \<lparr> sl_pending := None \<rparr>"]
    by (simp add: shutdown_retry_def accounted_rows_def inflight_rows_def pending_rows_def)
qed (use assms in \<open>simp add: shutdown_retry_def\<close>)

definition drained where
  "drained cal bufs w = fold (\<lambda>b w. snd (ingest_rows cal b w)) bufs w"

lemma drained_accounts:
  assumes "list_all (exact_buffer lib) bufs"
  shows "offered lib (held_units bufs) (held_others bufs) w (drained cal bufs w)"
  using assms
proof (induction bufs arbitrary: w)
  case (Cons b bufs)
  obtain n w1 where i: "ingest_rows cal b w = (n, w1)"
    by fastforce
  have "offered lib (held_units [b] + held_units bufs) (sb_others b @ held_others bufs) w (drained cal bufs w1)"
    using ingest_rows_accounts[OF _ i] Cons by (intro offered_trans) auto
  then show ?case
    by (simp add: drained_def i held_units_def held_others_def units_of_def ac_simps)
qed (simp add: drained_def held_units_def held_others_def units_of_def offered_refl)

text \<open>The ends of the three last flushes fit the bundles they end.\<close>

definition ends_ok where
  "ends_ok cal lib fins bufs st \<longleftrightarrow>
    (\<forall>b. sl_inflight st = Some b \<longrightarrow> end_ok (fins (0 :: nat)) b) \<and>
    (\<forall>pr. sl_pending (shutdown_inflight cal lib (fins 0) st) = Some pr \<longrightarrow> end_ok (fins 1) (pr_bundle pr)) \<and>
    (\<forall>b w. take_flush_bundle (drained cal bufs (sl_writer st)) = (Some b, w) \<longrightarrow> end_ok (fins 2) b)"

lemma shutdown_accounts:
  assumes inv: "loop_inv lib taken st" and ends: "ends_ok cal lib fins bufs st" and bufs: "list_all (exact_buffer lib) bufs"
  defines "st' \<equiv> shutdown cal lib fins bufs st"
  shows "\<exists>refused. subseq refused (held_others (taken @ bufs)) \<and>
    refused_rows (sl_writer st') = of_nat (length refused) \<and>
    held_units (taken @ bufs) = sl_written st' + sl_rows_lost st' + units_of refused"
proof -
  let ?s1 = "shutdown_inflight cal lib (fins 0) st"
  let ?s2 = "shutdown_retry cal lib (fins 1) ?s1"
  have 1: "accounted_rows ?s1 = accounted_rows st" "sl_inflight ?s1 = None" "sl_writer ?s1 = sl_writer st"
    "\<And>pr. sl_pending ?s1 = Some pr \<Longrightarrow> singles lib (fb_jsons (pr_bundle pr))"
    using shutdown_inflight_accounts[OF inv, of "fins 0" cal] ends by (auto simp: ends_ok_def)
  have 2: "accounted_rows ?s2 = accounted_rows st" "sl_inflight ?s2 = None" "sl_pending ?s2 = None"
    "sl_writer ?s2 = sl_writer st"
    using shutdown_retry_accounts[of ?s1 lib "fins 1" cal] 1 ends by (auto simp: ends_ok_def)
  obtain r0 where r0: "subseq r0 (held_others taken)" "refused_rows (sl_writer st) = of_nat (length r0)"
    "held_units taken = accounted_rows st + units_of r0"
    using inv by (auto simp: loop_inv_def)
  let ?w = "drained cal bufs (sl_writer st)"
  have "singles lib (rw_buffer (bw_json (sl_writer st)))"
    using inv by (simp add: loop_inv_def loop_ok_def)
  then obtain r where r: "subseq r (held_others bufs)"
    "total_buffered ?w + units_of r = total_buffered (sl_writer st) + held_units bufs"
    "refused_rows ?w = refused_rows (sl_writer st) + of_nat (length r)" "singles lib (rw_buffer (bw_json ?w))"
    using drained_accounts[OF bufs, of "sl_writer st" cal] by (auto simp: offered_def)
  have a: "accounted_rows st = sl_written ?s2 + sl_rows_lost ?s2 + total_buffered (sl_writer st)"
    using 2 by (simp add: accounted_rows_def inflight_rows_def pending_rows_def)
  have "sl_written st' + sl_rows_lost st' = sl_written ?s2 + sl_rows_lost ?s2 + total_buffered ?w \<and>
      refused_rows (sl_writer st') = refused_rows ?w"
  proof (cases "take_flush_bundle ?w")
    case (Pair bo w)
    show ?thesis
    proof (cases bo)
      case None
      then show ?thesis
        using Pair take_flush_bundle_rows[of ?w] 2(4)
        by (simp add: st'_def shutdown_def shutdown_drain_def drained_def)
    next
      case (Some b)
      note t = take_flush_bundle_inv[OF Pair[unfolded Some]]
      have "singles lib (fb_jsons b)" "end_ok (fins 2) b"
        using t(3) r(4) ends Pair Some by (auto simp: ends_ok_def)
      from final_flush_accounts[OF this, of cal "?s2 \<lparr> sl_writer := w \<rparr>"] show ?thesis
        using Pair Some t 2(4) by (simp add: st'_def shutdown_def shutdown_drain_def drained_def)
    qed
  qed
  then show ?thesis
    using a r r0 list_emb_append_mono[OF r0(1) r(1)] by (intro exI[of _ "r0 @ r"]) (simp add: units_of_def)
qed

section \<open>A bundle is tried six times\<close>

text \<open>Rounds in which the flush fails transiently: the retry is scheduled, then reaped.\<close>

primrec retry_rounds ::
  "(nat \<times> ('dt, 'num) flush_outcome) list \<Rightarrow> ('dt, 'num) store_loop \<Rightarrow> ('dt, 'num) store_loop" where
  "retry_rounds [] st = st"
| "retry_rounds (r # rs) st = retry_rounds rs (reap_task (fst r) (TaskDone (snd r)) (schedule_retry (fst r) st))"

primrec spaced :: "nat \<Rightarrow> (nat \<times> ('dt, 'num) flush_outcome) list \<Rightarrow> bool" where
  "spaced prev [] = True"
| "spaced prev (r # rs) \<longleftrightarrow> prev + 60000 \<le> fst r \<and> fo_retry (snd r) \<noteq> None \<and> spaced (fst r) rs"

definition retry_ready :: "nat \<Rightarrow> nat \<Rightarrow> ('dt, 'num) store_loop \<Rightarrow> bool" where
  "retry_ready k prev st \<longleftrightarrow>
    (sl_inflight st \<noteq> None \<and> sl_inflight_attempts st = k \<and> sl_pending st = None) \<or>
    (sl_inflight st = None \<and>
      (\<exists>pr. sl_pending st = Some pr \<and> pr_attempts pr = k \<and> pr_next_try pr \<le> prev + 60000))"

lemma backoff_delay_bound: "backoff_delay k \<le> 60"
proof -
  have "min (k - 1) 4 \<in> {0, 1, 2, 3, 4}"
    by auto
  then show ?thesis
    by (auto simp: backoff_delay_def FLUSH_BACKOFF_SECS_def)
qed

lemma count_lost_simps [simp]:
  "sl_pending (count_lost n st) = sl_pending st" "sl_inflight (count_lost n st) = sl_inflight st"
  "sl_inflight_attempts (count_lost n st) = sl_inflight_attempts st"
  "sl_rows_lost (count_lost n st) = sl_rows_lost st + n" "sl_written (count_lost n st) = sl_written st"
  by (simp_all add: count_lost_def)

lemma retry_scheduled:
  assumes "retry_ready k prev st" "prev + 60000 \<le> now"
  shows "sl_inflight (schedule_retry now st) \<noteq> None \<and> sl_inflight_attempts (schedule_retry now st) = k \<and>
    sl_pending (schedule_retry now st) = None \<and> sl_rows_lost (schedule_retry now st) = sl_rows_lost st"
  using assms by (auto simp: retry_ready_def schedule_retry_def start_flush_def)

lemma retry_round:
  assumes "retry_ready k prev st" "prev + 60000 \<le> now" "fo_retry out = Some b"
  defines "st' \<equiv> reap_task now (TaskDone out) (schedule_retry now st)"
  shows "k < 5 \<Longrightarrow> retry_ready (Suc k) now st' \<and> (\<exists>pr. sl_pending st' = Some pr \<and> pr_bundle pr = b)"
    and "k = 5 \<Longrightarrow> sl_inflight st' = None \<and> sl_pending st' = None \<and>
      sl_rows_lost st' = sl_rows_lost st + fo_lost out + total_rows b"
  using retry_scheduled[OF assms(1,2)] assms(3) backoff_delay_bound[of "Suc k"]
  by (auto simp: st'_def reap_task_def retain_bundle_def retry_ready_def FLUSH_BACKOFF_SECS_def Let_def)

lemma retry_rounds_ready:
  assumes "retry_ready k prev st" "spaced prev rs" "k + length rs \<le> 5" "rs \<noteq> []"
  shows "retry_ready (k + length rs) (fst (last rs)) (retry_rounds rs st) \<and>
    (\<exists>pr. sl_pending (retry_rounds rs st) = Some pr \<and> fo_retry (snd (last rs)) = Some (pr_bundle pr))"
  using assms
proof (induction rs arbitrary: k prev st)
  case (Cons r rs)
  obtain b where b: "fo_retry (snd r) = Some b"
    using Cons.prems by auto
  let ?st = "reap_task (fst r) (TaskDone (snd r)) (schedule_retry (fst r) st)"
  have 1: "retry_ready (Suc k) (fst r) ?st" "\<exists>pr. sl_pending ?st = Some pr \<and> pr_bundle pr = b"
    using retry_round(1)[OF Cons.prems(1) _ b] Cons.prems by auto
  show ?case
  proof (cases "rs = []")
    case True
    then show ?thesis
      using 1 b by auto
  next
    case False
    then show ?thesis
      using Cons.IH[OF 1(1)] Cons.prems by simp
  qed
qed simp

lemma retry_rounds_append: "retry_rounds (xs @ ys) st = retry_rounds ys (retry_rounds xs st)"
  by (induction xs arbitrary: st) simp_all

lemma spaced_append:
  "spaced prev (xs @ [y]) \<Longrightarrow> xs \<noteq> [] \<Longrightarrow> spaced prev xs \<and> fst (last xs) + 60000 \<le> fst y \<and> fo_retry (snd y) \<noteq> None"
  by (induction xs arbitrary: prev) auto

section \<open>Properties\<close>

text \<open>C2. Run the loop from an empty writer with any clock, any failures of the background
  flushes, and shared buffers that hold scalar, string, image and array rows in any amount, and JSON
  captures of one tuple each.  The loop has counted as received the rows of the buffers it emptied,
  and at every point each scalar, string, image and JSON row and each array element of them is
  in the database, counted as lost, in flight, retained for a retry or still buffered, apart from
  those of the captures and rows that a full writer refused, which were among those taken and are
  counted one by one.  After the shutdown sequence the same holds with the buffers drained
  at the end, and nothing is left waiting: each one is written, lost or refused.  (A JSON capture
  without elements leaves neither a row nor a count: \<open>empty_captures_vanish\<close>.)\<close>

theorem store_loop_accounts_for_every_row:
  assumes "total_buffered w = 0" "refused_rows w = 0"
    and "inputs_ok cal lib interval is (store_loop_new w now)"
    and "st = loop_run cal lib interval is (store_loop_new w now)"
    and "taken = taken_bufs cal lib interval is (store_loop_new w now)"
    and "ends_ok cal lib fins bufs st" "list_all (exact_buffer lib) bufs"
  shows "sl_received st = held_rows taken \<and>
    (\<exists>refused. subseq refused (held_others taken) \<and> refused_rows (sl_writer st) = of_nat (length refused) \<and>
       held_units taken = accounted_rows st + units_of refused) \<and>
    (\<exists>refused. subseq refused (held_others (taken @ bufs)) \<and>
       refused_rows (sl_writer (shutdown cal lib fins bufs st)) = of_nat (length refused) \<and>
       held_units (taken @ bufs) =
         sl_written (shutdown cal lib fins bufs st) + sl_rows_lost (shutdown cal lib fins bufs st) + units_of refused)"
proof -
  have inv: "loop_inv lib taken st"
    using loop_run_inv[OF loop_inv_new[OF assms(1,2), of lib now] assms(3)] by (simp add: assms(4,5))
  then show ?thesis
    using shutdown_accounts[OF inv assms(6,7)] by (auto simp: loop_inv_def)
qed

text \<open>C26. A bundle whose flush keeps failing transiently is tried six times, at most a minute
  after each failure: after each of the first five it is retained, with the rows its last
  flush kept, and after the sixth its rows are counted as lost and nothing is retained, so
  that ingestion, which a retained bundle suspends, goes on.\<close>

theorem retries_are_bounded:
  assumes "sl_inflight st \<noteq> None" "sl_inflight_attempts st = 0" "sl_pending st = None"
    and "spaced prev rounds" "length rounds = 6"
  shows "(\<forall>k \<in> {1..5}. \<exists>pr. sl_pending (retry_rounds (take k rounds) st) = Some pr \<and> pr_attempts pr = k) \<and>
    sl_pending (retry_rounds rounds st) = None \<and> sl_inflight (retry_rounds rounds st) = None \<and>
    (\<exists>b. fo_retry (snd (last rounds)) = Some b \<and>
      sl_rows_lost (retry_rounds rounds st) =
        sl_rows_lost (retry_rounds (butlast rounds) st) + fo_lost (snd (last rounds)) + total_rows b)"
proof -
  have ready: "retry_ready 0 prev st"
    using assms by (simp add: retry_ready_def)
  have spaced_take: "spaced prev (take k rounds)" for k
    using assms(4) by (induction rounds arbitrary: prev k) (auto simp: take_Cons')
  have ne: "rounds \<noteq> []"
    using assms(5) by auto
  have mid: "retry_ready k (fst (last (take k rounds))) (retry_rounds (take k rounds) st) \<and>
      (\<exists>pr. sl_pending (retry_rounds (take k rounds) st) = Some pr)" if "k \<in> {1..5}" for k
    using retry_rounds_ready[OF ready spaced_take, of k] that assms(5) ne by auto
  have 1: "\<exists>pr. sl_pending (retry_rounds (take k rounds) st) = Some pr \<and> pr_attempts pr = k" if "k \<in> {1..5}" for k
    using mid[OF that] by (auto simp: retry_ready_def)
  have bl: "butlast rounds = take 5 rounds"
    using assms(5) by (simp add: butlast_conv_take)
  then have split: "rounds = take 5 rounds @ [last rounds]"
    using append_butlast_last_id[OF ne] by simp
  have last: "fst (last (take 5 rounds)) + 60000 \<le> fst (last rounds)" "fo_retry (snd (last rounds)) \<noteq> None"
    using spaced_append[of prev "take 5 rounds" "last rounds"] split assms(4,5) by auto
  then obtain b where b: "fo_retry (snd (last rounds)) = Some b"
    by auto
  have "retry_rounds rounds st =
      reap_task (fst (last rounds)) (TaskDone (snd (last rounds)))
        (schedule_retry (fst (last rounds)) (retry_rounds (take 5 rounds) st))"
    by (subst split) (simp add: retry_rounds_append)
  then show ?thesis
    using retry_round(2)[OF conjunct1[OF mid[of 5]] last(1) b] 1 b bl by auto
qed

text \<open>One scalar row, a flush that fails once and then succeeds, and shutdown.\<close>

definition one_scalar :: "(64 word, unit) shared_buffer" where
  "one_scalar = snd (push_scalar (scalar_from_parts 5 7 0 0 0 SrHeartbeat) (sb_new 4))"

definition example_env :: "nat \<Rightarrow> (nat \<times> (string \<Rightarrow> bytes list list)) task_end" where
  "example_env failing =
    Completes \<lparr> fe_n = 1, fe_send = list_sender, fe_db = (failing, \<lambda>_. []), fe_cid = 1 \<rparr>"

text \<open>An array of two elements, and one without.\<close>

definition two_arrays :: "(64 word, unit) shared_buffer" where
  "two_arrays = one_scalar \<lparr> sb_others :=
     [WrArray \<lparr> ac_time = 5, ac_pv_id = 7, ac_severity16 = 0, ac_status16 = 0, ac_data = AdNumeric [1, 2] \<rparr>,
      WrArray \<lparr> ac_time = 5, ac_pv_id = 7, ac_severity16 = 0, ac_status16 = 0, ac_data = AdNumeric [] \<rparr>] \<rparr>"

definition example_inputs :: "(64 word, unit, nat \<times> (string \<Rightarrow> bytes list list)) loop_input list" where
  "example_inputs =
    [\<lparr> in_now = 0, in_finished = None, in_bufs = [one_scalar] \<rparr>,
     \<lparr> in_now = 200, in_finished = None, in_bufs = [two_arrays] \<rparr>,
     \<lparr> in_now = 300, in_finished = Some (example_env 1), in_bufs = [one_scalar] \<rparr>]"

lemma example_inputs_ok: "inputs_ok cal lib interval example_inputs st"
  by (simp add: example_inputs_def input_ok_def example_env_def one_scalar_def two_arrays_def exact_buffer_def
      push_scalar_def sb_new_def)

theorem store_loop_accounts_for_every_row_witness:
  "let st0 = store_loop_new (batch_writer_new config_default) 0;
       st = loop_run second_calendar no_numbers 100 example_inputs st0; fins = (\<lambda>_. example_env 0);
       taken = taken_bufs second_calendar no_numbers 100 example_inputs st0
   in \<exists>refused. subseq refused (held_others (taken @ [two_arrays])) \<and>
      refused_rows (sl_writer (shutdown second_calendar no_numbers fins [two_arrays] st)) = of_nat (length refused) \<and>
      held_units (taken @ [two_arrays]) =
        sl_written (shutdown second_calendar no_numbers fins [two_arrays] st) +
        sl_rows_lost (shutdown second_calendar no_numbers fins [two_arrays] st) + units_of refused"
proof -
  let ?w = "batch_writer_new config_default :: (64 word, unit) batch_writer"
  have w: "total_buffered ?w = 0" "refused_rows ?w = 0"
    by (simp_all add: batch_writer_new_def total_buffered_def refused_rows_def scalar_writer_new_def string_writer_new_def
        array_writer_new_def json_writer_new_def image_writer_new_def row_writer_new_def array_len_def)
  have "ends_ok cal lib (\<lambda>_. example_env 0) bufs st" for cal lib bufs st
    by (simp add: ends_ok_def example_env_def)
  moreover have "list_all (exact_buffer no_numbers) [two_arrays]"
    by (simp add: two_arrays_def exact_buffer_def)
  ultimately show ?thesis
    unfolding Let_def
    by (intro conjunct2[OF conjunct2[OF store_loop_accounts_for_every_row[OF w example_inputs_ok refl refl]]])
qed

definition failing_outcome :: "(64 word, unit) flush_outcome" where
  "failing_outcome = fst (flush_with_progress second_calendar no_numbers 1 list_sender two_rows (2, \<lambda>_. []) 1)"

lemma failing_outcome_retries: "fo_retry failing_outcome \<noteq> None"
  by (simp add: failing_outcome_def flush_with_progress_def flush_section_def two_rows_def list_sender_def
      numeral_2_eq_2 flush_json_def)

theorem retries_are_bounded_witness:
  "sl_pending (retry_rounds (map (\<lambda>k. (60000 * k, failing_outcome)) [1, 2, 3, 4, 5, 6])
    (start_flush two_rows 0 (store_loop_new (batch_writer_new config_default) 0))) = None"
  using retries_are_bounded[of "start_flush two_rows 0 (store_loop_new (batch_writer_new config_default) 0)" 0
      "map (\<lambda>k. (60000 * k, failing_outcome)) [1, 2, 3, 4, 5, 6]"] failing_outcome_retries
  by (simp add: start_flush_def store_loop_new_def)

end
