(* ===== verification/Normative.thy ===== *)
theory Normative
  imports PvaVal JsonRows
begin

text \<open>
  The archived data types (\<open>aura-core/src/pva\<close>: \<open>alarm.rs\<close>, \<open>time.rs\<close>, \<open>enums.rs\<close>,
  \<open>arrays.rs\<close>, \<open>display.rs\<close>, \<open>ndarray.rs\<close>, \<open>table.rs\<close>, \<open>union.rs\<close>, \<open>normative.rs\<close>) and their
  routing to tables (\<open>classify.rs\<close>).  JSON values are those of the theory of JSON rows.
  Comparisons of \<open>f64\<close> values are the IEEE ones, on bit patterns.
\<close>

section \<open>Comparing floats\<close>

definition f64_nan :: "f64bits \<Rightarrow> bool" where
  "f64_nan b \<longleftrightarrow> f64_exp b = 2047 \<and> f64_frac b \<noteq> 0"

text \<open>Sign and magnitude as an integer: monotone in the value.\<close>

definition f64_key :: "f64bits \<Rightarrow> int" where
  "f64_key b = (if f64_sign b then - int (unat b mod 2 ^ 63) else int (unat b mod 2 ^ 63))"

definition f64_le :: "f64bits \<Rightarrow> f64bits \<Rightarrow> bool" where
  "f64_le a b \<longleftrightarrow> \<not> f64_nan a \<and> \<not> f64_nan b \<and> f64_key a \<le> f64_key b"

definition f64_lt :: "f64bits \<Rightarrow> f64bits \<Rightarrow> bool" where
  "f64_lt a b \<longleftrightarrow> \<not> f64_nan a \<and> \<not> f64_nan b \<and> f64_key a < f64_key b"

definition f64_eq :: "f64bits \<Rightarrow> f64bits \<Rightarrow> bool" where
  "f64_eq a b \<longleftrightarrow> \<not> f64_nan a \<and> \<not> f64_nan b \<and> f64_key a = f64_key b"

section \<open>Alarms\<close>

datatype AlarmSeverity = SevNone | SevMinor | SevMajor | SevInvalid | SevUndefined

datatype AlarmStatus =
  AsNone | AsDevice | AsDriver | AsRecord | AsDb | AsConf | AsUndefined | AsClient

definition severity_all :: "AlarmSeverity list" where
  "severity_all = [SevNone, SevMinor, SevMajor, SevInvalid, SevUndefined]"

definition severity_from :: "16 word \<Rightarrow> AlarmSeverity" where
  "severity_from v =
    (if v = 0 then SevNone else if v = 1 then SevMinor else if v = 2 then SevMajor
     else if v = 3 then SevInvalid else SevUndefined)"

fun severity_i16 :: "AlarmSeverity \<Rightarrow> 16 word" where
  "severity_i16 SevNone = 0" | "severity_i16 SevMinor = 1" | "severity_i16 SevMajor = 2"
| "severity_i16 SevInvalid = 3" | "severity_i16 SevUndefined = 4"

definition status_all :: "AlarmStatus list" where
  "status_all = [AsNone, AsDevice, AsDriver, AsRecord, AsDb, AsConf, AsUndefined, AsClient]"

definition status_from :: "16 word \<Rightarrow> AlarmStatus" where
  "status_from v =
    (if v = 0 then AsNone else if v = 1 then AsDevice else if v = 2 then AsDriver
     else if v = 3 then AsRecord else if v = 4 then AsDb else if v = 5 then AsConf
     else if v = 7 then AsClient else AsUndefined)"

fun status_i16 :: "AlarmStatus \<Rightarrow> 16 word" where
  "status_i16 AsNone = 0" | "status_i16 AsDevice = 1" | "status_i16 AsDriver = 2"
| "status_i16 AsRecord = 3" | "status_i16 AsDb = 4" | "status_i16 AsConf = 5"
| "status_i16 AsUndefined = 6" | "status_i16 AsClient = 7"

record alarm =
  al_severity :: AlarmSeverity
  al_status :: AlarmStatus
  al_message :: rstring

definition alarm_default :: alarm where
  "alarm_default = \<lparr> al_severity = SevNone, al_status = AsNone, al_message = [] \<rparr>"

definition alarm_is_active :: "alarm \<Rightarrow> bool" where
  "alarm_is_active a \<longleftrightarrow> al_severity a \<noteq> SevNone"

definition alarm_is_invalid :: "alarm \<Rightarrow> bool" where
  "alarm_is_invalid a \<longleftrightarrow> al_severity a = SevInvalid"

section \<open>Time stamps\<close>

record timestamp =
  ts_seconds :: "64 word"
  ts_nanoseconds :: "32 word"
  ts_user_tag :: "32 word"

definition ts_new :: "64 word \<Rightarrow> 32 word \<Rightarrow> timestamp" where
  "ts_new s n = \<lparr> ts_seconds = s, ts_nanoseconds = n, ts_user_tag = 0 \<rparr>"

definition ts_default :: timestamp where "ts_default = ts_new 0 0"

definition ts_to_datetime :: "'dt calendar \<Rightarrow> timestamp \<Rightarrow> 'dt" where
  "ts_to_datetime cal t = cal_at cal (ts_seconds t) (ts_nanoseconds t)"

text \<open>A \<open>SystemTime\<close> is its number of nanoseconds since the epoch.\<close>

definition ts_from_system_time :: "int \<Rightarrow> timestamp" where
  "ts_from_system_time st =
    (if 0 \<le> st then ts_new (word_of_int (st div 1000000000)) (word_of_int (st mod 1000000000))
     else ts_new (- word_of_int ((- st) div 1000000000)) (word_of_int ((- st) mod 1000000000)))"

text \<open>\<open>i128\<close> is wide enough for every \<open>i64\<close> count of seconds.\<close>

definition ts_as_nanos :: "timestamp \<Rightarrow> int" where
  "ts_as_nanos t = sint (ts_seconds t) * 1000000000 + uint (ts_nanoseconds t)"

definition ts_from_nanos :: "int \<Rightarrow> timestamp" where
  "ts_from_nanos n = ts_new (word_of_int (n sdiv 1000000000)) (word_of_int (n smod 1000000000))"

definition ts_as_micros :: "timestamp \<Rightarrow> 64 word" where
  "ts_as_micros t = ts_seconds t * 1000000 + ucast (ts_nanoseconds t div 1000)"

definition ts_duration_since :: "timestamp \<Rightarrow> timestamp \<Rightarrow> u64 option" where
  "ts_duration_since t u =
    (let d = ts_as_nanos t - ts_as_nanos u in if d < 0 then None else Some (word_of_int d))"

definition ts_is_epoch :: "timestamp \<Rightarrow> bool" where
  "ts_is_epoch t \<longleftrightarrow> ts_seconds t = 0 \<and> ts_nanoseconds t = 0"

section \<open>Enumerations and arrays\<close>

record enum_value =
  ev_index :: "32 word"
  ev_choices :: "rstring list"

definition ev_label_for :: "32 word \<Rightarrow> enum_value \<Rightarrow> rstring option" where
  "ev_label_for i e =
    (if i <s 0 then None else if unat i < length (ev_choices e) then Some (ev_choices e ! unat i) else None)"

definition ev_current_label :: "enum_value \<Rightarrow> rstring option" where
  "ev_current_label e = ev_label_for (ev_index e) e"

definition ev_as_f64 :: "enum_value \<Rightarrow> f64bits" where
  "ev_as_f64 e = f64_of_int (sint (ev_index e))"

definition ev_is_valid :: "enum_value \<Rightarrow> bool" where
  "ev_is_valid e \<longleftrightarrow> 0 \<le>s ev_index e \<and> unat (ev_index e) < length (ev_choices e)"

primrec position :: "'a \<Rightarrow> 'a list \<Rightarrow> nat option" where
  "position x [] = None"
| "position x (y # ys) = (if y = x then Some 0 else map_option Suc (position x ys))"

definition ev_index_of :: "rstring \<Rightarrow> enum_value \<Rightarrow> 32 word option" where
  "ev_index_of label e = map_option of_nat (position label (ev_choices e))"

datatype ArrayValue =
    AvBoolean "bool list" | AvByte "8 word list" | AvUByte "8 word list"
  | AvShort "16 word list" | AvUShort "16 word list" | AvInt "32 word list" | AvUInt "32 word list"
  | AvLong "64 word list" | AvULong "64 word list" | AvFloat "f32bits list" | AvDouble "f64bits list"
  | AvString "rstring list"

fun av_as_f64_vec :: "ArrayValue \<Rightarrow> f64bits list option" where
  "av_as_f64_vec (AvBoolean v) = Some (map (\<lambda>b. if b then f64_of_int 1 else 0) v)"
| "av_as_f64_vec (AvByte v) = Some (map (\<lambda>x. f64_of_int (sint x)) v)"
| "av_as_f64_vec (AvUByte v) = Some (map (\<lambda>x. f64_of_int (uint x)) v)"
| "av_as_f64_vec (AvShort v) = Some (map (\<lambda>x. f64_of_int (sint x)) v)"
| "av_as_f64_vec (AvUShort v) = Some (map (\<lambda>x. f64_of_int (uint x)) v)"
| "av_as_f64_vec (AvInt v) = Some (map (\<lambda>x. f64_of_int (sint x)) v)"
| "av_as_f64_vec (AvUInt v) = Some (map (\<lambda>x. f64_of_int (uint x)) v)"
| "av_as_f64_vec (AvLong v) = Some (map (\<lambda>x. f64_of_int (sint x)) v)"
| "av_as_f64_vec (AvULong v) = Some (map (\<lambda>x. f64_of_int (uint x)) v)"
| "av_as_f64_vec (AvFloat v) = Some (map f64_of_f32 v)"
| "av_as_f64_vec (AvDouble v) = Some v"
| "av_as_f64_vec (AvString v) = None"

fun av_len :: "ArrayValue \<Rightarrow> nat" where
  "av_len (AvBoolean v) = length v" | "av_len (AvByte v) = length v" | "av_len (AvUByte v) = length v"
| "av_len (AvShort v) = length v" | "av_len (AvUShort v) = length v" | "av_len (AvInt v) = length v"
| "av_len (AvUInt v) = length v" | "av_len (AvLong v) = length v" | "av_len (AvULong v) = length v"
| "av_len (AvFloat v) = length v" | "av_len (AvDouble v) = length v" | "av_len (AvString v) = length v"

fun av_element_type :: "ArrayValue \<Rightarrow> ScalarType" where
  "av_element_type (AvBoolean _) = StBoolean" | "av_element_type (AvByte _) = StByte"
| "av_element_type (AvUByte _) = StUByte" | "av_element_type (AvShort _) = StShort"
| "av_element_type (AvUShort _) = StUShort" | "av_element_type (AvInt _) = StInt"
| "av_element_type (AvUInt _) = StUInt" | "av_element_type (AvLong _) = StLong"
| "av_element_type (AvULong _) = StULong" | "av_element_type (AvFloat _) = StFloat"
| "av_element_type (AvDouble _) = StDouble" | "av_element_type (AvString _) = StString"

definition av_wire_size :: "ArrayValue \<Rightarrow> nat" where
  "av_wire_size a = scalar_wire_size (av_element_type a) * av_len a"

section \<open>Display, control, alarm limits\<close>

datatype DisplayForm = DfDefault | DfString | DfBinary | DfDecimal | DfHex | DfExponential | DfEngineering

record display =
  dp_limit_low :: f64bits
  dp_limit_high :: f64bits
  dp_description :: rstring
  dp_units :: rstring
  dp_precision :: "32 word"
  dp_form :: DisplayForm

record control =
  ct_limit_low :: f64bits
  ct_limit_high :: f64bits
  ct_min_step :: f64bits

definition ct_has_valid_range :: "control \<Rightarrow> bool" where
  "ct_has_valid_range c \<longleftrightarrow> f64_lt (ct_limit_low c) (ct_limit_high c)"

definition ct_is_in_range :: "f64bits \<Rightarrow> control \<Rightarrow> bool" where
  "ct_is_in_range v c \<longleftrightarrow>
    (if \<not> ct_has_valid_range c then True else f64_le (ct_limit_low c) v \<and> f64_le v (ct_limit_high c))"

record value_alarm =
  va_active :: bool
  va_low_alarm_limit :: f64bits
  va_low_warning_limit :: f64bits
  va_high_warning_limit :: f64bits
  va_high_alarm_limit :: f64bits
  va_low_alarm_severity :: AlarmSeverity
  va_low_warning_severity :: AlarmSeverity
  va_high_warning_severity :: AlarmSeverity
  va_high_alarm_severity :: AlarmSeverity
  va_hysteresis :: f64bits

definition va_evaluate :: "value_alarm \<Rightarrow> f64bits \<Rightarrow> AlarmSeverity" where
  "va_evaluate va v =
    (if \<not> va_active va then SevNone
     else if f64_le v (va_low_alarm_limit va) then va_low_alarm_severity va
     else if f64_le v (va_low_warning_limit va) then va_low_warning_severity va
     else if f64_le (va_high_alarm_limit va) v then va_high_alarm_severity va
     else if f64_le (va_high_warning_limit va) v then va_high_warning_severity va
     else SevNone)"

definition va_is_valid :: "value_alarm \<Rightarrow> bool" where
  "va_is_valid va \<longleftrightarrow> f64_le (va_low_alarm_limit va) (va_low_warning_limit va) \<and>
     f64_le (va_low_warning_limit va) (va_high_warning_limit va) \<and>
     f64_le (va_high_warning_limit va) (va_high_alarm_limit va)"

section \<open>Detector frames, tables, unions\<close>

record 'num codec =
  cd_name :: rstring
  cd_parameters :: "'num json"

definition codec_default :: "'num codec" where
  "codec_default = \<lparr> cd_name = [], cd_parameters = JNull \<rparr>"

record dimension =
  dm_size :: "32 word"
  dm_offset :: "32 word"
  dm_full_size :: "32 word"
  dm_binning :: "32 word"
  dm_reverse :: bool

datatype AttributeSourceType = AstDriver | AstParam | AstEpicsPv

record nd_attribute =
  na_name :: rstring
  na_value :: ScalarValue
  na_source :: rstring
  na_source_type :: AttributeSourceType
  na_description :: rstring

record table_column =
  tc_name :: rstring
  tc_values :: ArrayValue

datatype HistogramValue = HvShort "16 word list" | HvInt "32 word list" | HvLong "64 word list"

fun hv_len :: "HistogramValue \<Rightarrow> nat" where
  "hv_len (HvShort v) = length v" | "hv_len (HvInt v) = length v" | "hv_len (HvLong v) = length v"

datatype 'num UnionValue = UvScalar ScalarValue | UvArray ArrayValue | UvStructure "'num json"

fun uv_as_f64 :: "'num UnionValue \<Rightarrow> f64bits option" where
  "uv_as_f64 (UvScalar s) = sv_as_f64 s"
| "uv_as_f64 _ = None"

section \<open>Normative types\<close>

record nt_scalar =
  nts_value :: ScalarValue
  nts_alarm :: alarm
  nts_timestamp :: timestamp
  nts_display :: "display option"
  nts_control :: "control option"
  nts_value_alarm :: "value_alarm option"

record nt_enum =
  nte_value :: enum_value
  nte_alarm :: alarm
  nte_timestamp :: timestamp

record nt_scalar_array =
  nta_value :: ArrayValue
  nta_alarm :: alarm
  nta_timestamp :: timestamp
  nta_display :: "display option"
  nta_control :: "control option"
  nta_value_alarm :: "value_alarm option"

record nt_matrix =
  ntm_value :: "f64bits list"
  ntm_dim :: "32 word list"
  ntm_descriptor :: rstring
  ntm_alarm :: alarm
  ntm_timestamp :: timestamp
  ntm_display :: "display option"

record nt_histogram =
  nth_ranges :: "f64bits list"
  nth_value :: HistogramValue
  nth_descriptor :: rstring
  nth_alarm :: alarm
  nth_timestamp :: timestamp

record nt_continuum =
  ntc_base :: "f64bits list"
  ntc_value :: "f64bits list"
  ntc_units :: "rstring list"
  ntc_descriptor :: rstring
  ntc_alarm :: alarm
  ntc_timestamp :: timestamp

record nt_name_value =
  ntn_name :: "rstring list"
  ntn_value :: ArrayValue
  ntn_descriptor :: rstring
  ntn_alarm :: alarm
  ntn_timestamp :: timestamp

record nt_table =
  ntt_labels :: "rstring list"
  ntt_columns :: "table_column list"
  ntt_alarm :: alarm
  ntt_timestamp :: timestamp

record 'num nt_ndarray =
  ntd_value :: ArrayValue
  ntd_codec :: "'num codec"
  ntd_compressed_size :: "64 word"
  ntd_uncompressed_size :: "64 word"
  ntd_dimension :: "dimension list"
  ntd_unique_id :: "32 word"
  ntd_data_timestamp :: "timestamp option"
  ntd_alarm :: alarm
  ntd_timestamp :: timestamp
  ntd_attribute :: "nd_attribute list"

record nt_multi_channel =
  ntmc_values :: "ScalarValue list"
  ntmc_channel_name :: "rstring list"
  ntmc_is_connected :: "bool list"
  ntmc_severity :: "AlarmSeverity list"
  ntmc_status :: "AlarmStatus list"
  ntmc_message :: "rstring list"
  ntmc_seconds_past_epoch :: "64 word list"
  ntmc_nanoseconds :: "32 word list"
  ntmc_alarm :: alarm
  ntmc_timestamp :: timestamp

record nt_aggregate =
  ntg_value :: f64bits
  ntg_n :: "64 word"
  ntg_dispersion :: f64bits
  ntg_first :: f64bits
  ntg_last :: f64bits
  ntg_max :: f64bits
  ntg_min :: f64bits
  ntg_alarm :: alarm
  ntg_timestamp :: timestamp

record 'num nt_union =
  ntu_value :: "'num UnionValue"
  ntu_descriptor :: rstring
  ntu_alarm :: alarm
  ntu_timestamp :: timestamp

record 'num custom_structure =
  cs_data :: "'num json"
  cs_alarm :: alarm
  cs_timestamp :: timestamp

datatype 'num NormativeType =
    NTScalar nt_scalar
  | NTEnum nt_enum
  | NTScalarArray nt_scalar_array
  | NTMatrix nt_matrix
  | NTHistogram nt_histogram
  | NTContinuum nt_continuum
  | NTNameValue nt_name_value
  | NTTable nt_table
  | NTNDArray "'num nt_ndarray"
  | NTMultiChannel nt_multi_channel
  | NTAggregate nt_aggregate
  | NTUnion "'num nt_union"
  | NtCustom "'num custom_structure"

fun nt_alarm :: "'num NormativeType \<Rightarrow> alarm" where
  "nt_alarm (NTScalar n) = nts_alarm n" | "nt_alarm (NTEnum n) = nte_alarm n"
| "nt_alarm (NTScalarArray n) = nta_alarm n" | "nt_alarm (NTMatrix n) = ntm_alarm n"
| "nt_alarm (NTHistogram n) = nth_alarm n" | "nt_alarm (NTContinuum n) = ntc_alarm n"
| "nt_alarm (NTNameValue n) = ntn_alarm n" | "nt_alarm (NTTable n) = ntt_alarm n"
| "nt_alarm (NTNDArray n) = ntd_alarm n" | "nt_alarm (NTMultiChannel n) = ntmc_alarm n"
| "nt_alarm (NTAggregate n) = ntg_alarm n" | "nt_alarm (NTUnion n) = ntu_alarm n"
| "nt_alarm (NtCustom n) = cs_alarm n"

fun nt_timestamp :: "'num NormativeType \<Rightarrow> timestamp" where
  "nt_timestamp (NTScalar n) = nts_timestamp n" | "nt_timestamp (NTEnum n) = nte_timestamp n"
| "nt_timestamp (NTScalarArray n) = nta_timestamp n" | "nt_timestamp (NTMatrix n) = ntm_timestamp n"
| "nt_timestamp (NTHistogram n) = nth_timestamp n" | "nt_timestamp (NTContinuum n) = ntc_timestamp n"
| "nt_timestamp (NTNameValue n) = ntn_timestamp n" | "nt_timestamp (NTTable n) = ntt_timestamp n"
| "nt_timestamp (NTNDArray n) = ntd_timestamp n" | "nt_timestamp (NTMultiChannel n) = ntmc_timestamp n"
| "nt_timestamp (NTAggregate n) = ntg_timestamp n" | "nt_timestamp (NTUnion n) = ntu_timestamp n"
| "nt_timestamp (NtCustom n) = cs_timestamp n"

fun nt_as_f64 :: "'num NormativeType \<Rightarrow> f64bits option" where
  "nt_as_f64 (NTScalar n) = sv_as_f64 (nts_value n)"
| "nt_as_f64 (NTEnum n) = Some (ev_as_f64 (nte_value n))"
| "nt_as_f64 (NTAggregate n) = Some (ntg_value n)"
| "nt_as_f64 (NTUnion n) = uv_as_f64 (ntu_value n)"
| "nt_as_f64 _ = None"

fun nt_type_name :: "'num NormativeType \<Rightarrow> string" where
  "nt_type_name (NTScalar _) = ''NTScalar''" | "nt_type_name (NTEnum _) = ''NTEnum''"
| "nt_type_name (NTScalarArray _) = ''NTScalarArray''" | "nt_type_name (NTMatrix _) = ''NTMatrix''"
| "nt_type_name (NTHistogram _) = ''NTHistogram''" | "nt_type_name (NTContinuum _) = ''NTContinuum''"
| "nt_type_name (NTNameValue _) = ''NTNameValue''" | "nt_type_name (NTTable _) = ''NTTable''"
| "nt_type_name (NTNDArray _) = ''NTNDArray''" | "nt_type_name (NTMultiChannel _) = ''NTMultiChannel''"
| "nt_type_name (NTAggregate _) = ''NTAggregate''" | "nt_type_name (NTUnion _) = ''NTUnion''"
| "nt_type_name (NtCustom _) = ''Custom''"

section \<open>Routing\<close>

datatype PvDataType =
    PdScalar | PdString | PdArray | PdMatrix | PdHistogram | PdContinuum | PdNameValue | PdTable
  | PdImage | PdMultiChannel | PdAggregate | PdUnion | PdCustom

fun data_type_from_nt :: "'num NormativeType \<Rightarrow> PvDataType" where
  "data_type_from_nt (NTScalar s) = (case nts_value s of SvString _ \<Rightarrow> PdString | _ \<Rightarrow> PdScalar)"
| "data_type_from_nt (NTEnum _) = PdScalar"
| "data_type_from_nt (NTScalarArray _) = PdArray"
| "data_type_from_nt (NTMatrix _) = PdMatrix"
| "data_type_from_nt (NTHistogram _) = PdHistogram"
| "data_type_from_nt (NTContinuum _) = PdContinuum"
| "data_type_from_nt (NTNameValue _) = PdNameValue"
| "data_type_from_nt (NTTable _) = PdTable"
| "data_type_from_nt (NTNDArray _) = PdImage"
| "data_type_from_nt (NTMultiChannel _) = PdMultiChannel"
| "data_type_from_nt (NTAggregate _) = PdAggregate"
| "data_type_from_nt (NTUnion _) = PdUnion"
| "data_type_from_nt (NtCustom _) = PdCustom"

fun data_type_table :: "PvDataType \<Rightarrow> string" where
  "data_type_table PdScalar = ''samples''" | "data_type_table PdString = ''samples_string''"
| "data_type_table PdArray = ''samples_array_num''" | "data_type_table PdMatrix = ''samples_array_num''"
| "data_type_table PdHistogram = ''samples_hist''" | "data_type_table PdContinuum = ''samples_cont''"
| "data_type_table PdNameValue = ''samples_nv''" | "data_type_table PdTable = ''samples_table''"
| "data_type_table PdImage = ''samples_image''" | "data_type_table PdMultiChannel = ''samples_mch''"
| "data_type_table PdAggregate = ''samples''" | "data_type_table PdUnion = ''samples_custom''"
| "data_type_table PdCustom = ''samples_custom''"

record 'num pv_update =
  pu_pv_name :: rstring
  pu_pv_id :: "32 word option"
  pu_data :: "'num NormativeType"

definition update_new :: "rstring \<Rightarrow> 'num NormativeType \<Rightarrow> 'num pv_update" where
  "update_new name nt = \<lparr> pu_pv_name = name, pu_pv_id = None, pu_data = nt \<rparr>"

definition update_timestamp :: "'dt calendar \<Rightarrow> 'num pv_update \<Rightarrow> 'dt" where
  "update_timestamp cal u = ts_to_datetime cal (nt_timestamp (pu_data u))"

definition update_severity :: "'num pv_update \<Rightarrow> 16 word" where
  "update_severity u = severity_i16 (al_severity (nt_alarm (pu_data u)))"

definition update_status :: "'num pv_update \<Rightarrow> 16 word" where
  "update_status u = status_i16 (al_status (nt_alarm (pu_data u)))"

section \<open>Lemmas\<close>

lemma severity_round_trip: "severity_from (severity_i16 s) = s"
  by (cases s) (simp_all add: severity_from_def)

lemma status_round_trip: "status_from (status_i16 s) = s"
  by (cases s) (simp_all add: status_from_def)

lemma smod_div_bounds:
  fixes n :: int
  shows "0 \<le> n \<Longrightarrow> n sdiv 1000000000 = n div 1000000000" "0 \<le> n \<Longrightarrow> n smod 1000000000 = n mod 1000000000"
  by (simp_all add: signed_divide_int_def signed_modulo_int_def sgn_if)

lemma nanos_round_trip:
  assumes "0 \<le> n" "n < 2 ^ 63 * 1000000000"
  shows "ts_as_nanos (ts_from_nanos n) = n"
proof -
  have d: "n div 1000000000 < 2 ^ 63" "0 \<le> n div 1000000000"
    using assms by auto
  have "sint (word_of_int (n div 1000000000) :: 64 word) = n div 1000000000"
    using d by (simp add: sint_sbintrunc' signed_take_bit_int_eq_self)
  moreover have "uint (word_of_int (n mod 1000000000) :: 32 word) = n mod 1000000000"
    by (simp add: uint_word_of_int)
  ultimately show ?thesis
    using assms by (simp add: ts_as_nanos_def ts_from_nanos_def ts_new_def smod_div_bounds)
qed

text \<open>A time before the epoch comes back 2^32 nanoseconds late: the negative remainder is cast
  to an unsigned number.\<close>

lemma negative_nanos_late:
  assumes "0 < r" "r < 1000000000" "q < 2 ^ 62" "0 \<le> q"
  shows "ts_as_nanos (ts_from_nanos (- (q * 1000000000 + r))) = - (q * 1000000000 + r) + 2 ^ 32"
proof -
  let ?n = "q * 1000000000 + r"
  have n: "?n div 1000000000 = q" "?n mod 1000000000 = r"
    using assms by auto
  have d: "(- ?n) sdiv 1000000000 = - q"
    using assms n by (simp add: signed_divide_int_def sgn_if)
  have m: "(- ?n) smod 1000000000 = - r"
  proof -
    have "(- ?n) smod 1000000000 = - ?n - (- ?n) sdiv 1000000000 * 1000000000"
      by (rule minus_sdiv_mult_eq_smod [symmetric])
    then show ?thesis
      unfolding d by simp
  qed
  have "sint (word_of_int (- q) :: 64 word) = - q"
    by (subst sint_sbintrunc') (use assms in \<open>simp add: signed_take_bit_int_eq_self\<close>)
  moreover have "uint (word_of_int (- r) :: 32 word) = 2 ^ 32 - r"
    by (subst uint_word_of_int) (use assms in \<open>simp add: zmod_zminus1_eq_if\<close>)
  ultimately show ?thesis
    using d m by (simp add: ts_as_nanos_def ts_from_nanos_def ts_new_def del: of_int_minus)
qed

end
