(* ===== verification/ToNormative.thy ===== *)
theory ToNormative
  imports Normative
begin

text \<open>
  From decoded values to normative types (\<open>aura-net/src/types/to_normative.rs\<close>): the
  dispatch on the type id, the dispatch without a description, the converters and their field
  extraction, and the JSON form of a value.  A JSON object is the library's ordered map: keys
  ascend and a later entry replaces an earlier one.
\<close>

section \<open>Lists of scalars\<close>

fun sv_bool :: "ScalarValue \<Rightarrow> bool option" where
  "sv_bool (SvBoolean b) = Some b" | "sv_bool _ = None"
fun sv_byte :: "ScalarValue \<Rightarrow> 8 word option" where
  "sv_byte (SvByte v) = Some v" | "sv_byte _ = None"
fun sv_ubyte :: "ScalarValue \<Rightarrow> 8 word option" where
  "sv_ubyte (SvUByte v) = Some v" | "sv_ubyte _ = None"
fun sv_short :: "ScalarValue \<Rightarrow> 16 word option" where
  "sv_short (SvShort v) = Some v" | "sv_short _ = None"
fun sv_ushort :: "ScalarValue \<Rightarrow> 16 word option" where
  "sv_ushort (SvUShort v) = Some v" | "sv_ushort _ = None"
fun sv_int :: "ScalarValue \<Rightarrow> 32 word option" where
  "sv_int (SvInt v) = Some v" | "sv_int _ = None"
fun sv_uint :: "ScalarValue \<Rightarrow> 32 word option" where
  "sv_uint (SvUInt v) = Some v" | "sv_uint _ = None"
fun sv_long :: "ScalarValue \<Rightarrow> 64 word option" where
  "sv_long (SvLong v) = Some v" | "sv_long _ = None"
fun sv_ulong :: "ScalarValue \<Rightarrow> 64 word option" where
  "sv_ulong (SvULong v) = Some v" | "sv_ulong _ = None"
fun sv_float :: "ScalarValue \<Rightarrow> f32bits option" where
  "sv_float (SvFloat v) = Some v" | "sv_float _ = None"
fun sv_double :: "ScalarValue \<Rightarrow> f64bits option" where
  "sv_double (SvDouble v) = Some v" | "sv_double _ = None"
fun sv_string :: "ScalarValue \<Rightarrow> rstring option" where
  "sv_string (SvString v) = Some v" | "sv_string _ = None"

text \<open>The first element decides the type; elements of another type are dropped (booleans
  excepted, where they count as false).\<close>

definition extract_array_value :: "PvaValue \<Rightarrow> ArrayValue option" where
  "extract_array_value v = Option.bind (pv_as_scalar_array v) (\<lambda>arr.
     Some (case arr of
       [] \<Rightarrow> AvDouble []
     | first # _ \<Rightarrow> (case first of
         SvBoolean _ \<Rightarrow> AvBoolean (map (\<lambda>s. s = SvBoolean True) arr)
       | SvByte _ \<Rightarrow> AvByte (List.map_filter sv_byte arr)
       | SvUByte _ \<Rightarrow> AvUByte (List.map_filter sv_ubyte arr)
       | SvShort _ \<Rightarrow> AvShort (List.map_filter sv_short arr)
       | SvUShort _ \<Rightarrow> AvUShort (List.map_filter sv_ushort arr)
       | SvInt _ \<Rightarrow> AvInt (List.map_filter sv_int arr)
       | SvUInt _ \<Rightarrow> AvUInt (List.map_filter sv_uint arr)
       | SvLong _ \<Rightarrow> AvLong (List.map_filter sv_long arr)
       | SvULong _ \<Rightarrow> AvULong (List.map_filter sv_ulong arr)
       | SvFloat _ \<Rightarrow> AvFloat (List.map_filter sv_float arr)
       | SvDouble _ \<Rightarrow> AvDouble (List.map_filter sv_double arr)
       | SvString _ \<Rightarrow> AvString (List.map_filter sv_string arr))))"

definition extract_string_array :: "PvaValue option \<Rightarrow> rstring list" where
  "extract_string_array v =
    (case v of Some (PvScalarArray arr) \<Rightarrow> List.map_filter sv_string arr | _ \<Rightarrow> [])"

section \<open>Alarm and time stamp by field name\<close>

abbreviation or_else :: "'a option \<Rightarrow> 'a \<Rightarrow> 'a" where
  "or_else x d \<equiv> (case x of Some v \<Rightarrow> v | None \<Rightarrow> d)"

definition extract_alarm :: "PvaValue \<Rightarrow> alarm" where
  "extract_alarm v =
    (case pv_field (ascii ''alarm'') v of
       Some a \<Rightarrow> \<lparr> al_severity = severity_from (ucast (or_else (pv_field_i32 (ascii ''severity'') a) 0)),
                  al_status = status_from (ucast (or_else (pv_field_i32 (ascii ''status'') a) 0)),
                  al_message = or_else (pv_field_string (ascii ''message'') a) [] \<rparr>
     | None \<Rightarrow> alarm_default)"

definition extract_timestamp_from :: "PvaValue \<Rightarrow> timestamp" where
  "extract_timestamp_from ts =
    \<lparr> ts_seconds = or_else (Option.bind (pv_field (ascii ''secondsPastEpoch'') ts) pv_as_i64) 0,
      ts_nanoseconds = or_else (pv_field_i32 (ascii ''nanoseconds'') ts) 0,
      ts_user_tag = or_else (pv_field_i32 (ascii ''userTag'') ts) 0 \<rparr>"

definition extract_timestamp :: "PvaValue \<Rightarrow> timestamp" where
  "extract_timestamp v =
    or_else (map_option extract_timestamp_from (pv_field (ascii ''timeStamp'') v)) ts_default"

section \<open>Converters\<close>

definition nt_scalar_of :: "ScalarValue \<Rightarrow> alarm \<Rightarrow> timestamp \<Rightarrow> 'num NormativeType" where
  "nt_scalar_of v a t = NTScalar \<lparr> nts_value = v, nts_alarm = a, nts_timestamp = t,
     nts_display = None, nts_control = None, nts_value_alarm = None \<rparr>"

definition convert_nt_scalar_fallback :: "PvaValue \<Rightarrow> 'num NormativeType option" where
  "convert_nt_scalar_fallback v =
    Option.bind (Option.bind (pv_field (ascii ''value'') v) pv_as_scalar) (\<lambda>s.
      Some (nt_scalar_of s (extract_alarm v) (extract_timestamp v)))"

text \<open>By position: member 0 is the value, 1 the alarm, 2 the time stamp, whatever their names.\<close>

definition member_i32 :: "nat \<Rightarrow> (rstring \<times> PvaValue) list \<Rightarrow> 32 word" where
  "member_i32 i fs = or_else (if i < length fs then pv_as_i32 (snd (fs ! i)) else None) 0"

definition positional_alarm :: "PvaValue \<Rightarrow> alarm" where
  "positional_alarm v =
    (case v of
       PvStructure fs \<Rightarrow>
         \<lparr> al_severity = severity_from (ucast (member_i32 0 fs)),
           al_status = status_from (ucast (member_i32 1 fs)),
           al_message = or_else (if 2 < length fs then pv_as_string (snd (fs ! 2)) else None) [] \<rparr>
     | _ \<Rightarrow> alarm_default)"

definition positional_timestamp :: "PvaValue \<Rightarrow> timestamp" where
  "positional_timestamp v =
    (case v of
       PvStructure fs \<Rightarrow>
         \<lparr> ts_seconds = or_else (if 0 < length fs then pv_as_i64 (snd (fs ! 0)) else None) 0,
           ts_nanoseconds = member_i32 1 fs,
           ts_user_tag = member_i32 2 fs \<rparr>
     | _ \<Rightarrow> ts_default)"

definition convert_nt_scalar :: "PvaValue \<Rightarrow> 'num NormativeType option" where
  "convert_nt_scalar v =
    (case v of
       PvStructure fs \<Rightarrow>
         if 3 \<le> length fs then
           (case snd (fs ! 0) of
              PvScalar s \<Rightarrow>
                Some (nt_scalar_of s (positional_alarm (snd (fs ! 1))) (positional_timestamp (snd (fs ! 2))))
            | _ \<Rightarrow> convert_nt_scalar_fallback v)
         else convert_nt_scalar_fallback v
     | _ \<Rightarrow> convert_nt_scalar_fallback v)"

definition convert_nt_enum :: "PvaValue \<Rightarrow> 'num NormativeType option" where
  "convert_nt_enum v = Option.bind (pv_field (ascii ''value'') v) (\<lambda>e.
     Some (NTEnum \<lparr> nte_value = \<lparr> ev_index = or_else (pv_field_i32 (ascii ''index'') e) 0,
                                ev_choices = extract_string_array (pv_field (ascii ''choices'') e) \<rparr>,
                   nte_alarm = extract_alarm v, nte_timestamp = extract_timestamp v \<rparr>))"

definition convert_nt_scalar_array :: "PvaValue \<Rightarrow> 'num NormativeType option" where
  "convert_nt_scalar_array v =
    Option.bind (Option.bind (pv_field (ascii ''value'') v) extract_array_value) (\<lambda>arr.
      Some (NTScalarArray \<lparr> nta_value = arr, nta_alarm = extract_alarm v,
        nta_timestamp = extract_timestamp v, nta_display = None, nta_control = None,
        nta_value_alarm = None \<rparr>))"

definition convert_nt_table :: "PvaValue \<Rightarrow> 'num NormativeType option" where
  "convert_nt_table v =
    (let columns =
       (case pv_field (ascii ''value'') v of
          Some (PvStructure fs) \<Rightarrow> List.map_filter (\<lambda>f. map_option
             (\<lambda>arr. \<lparr> tc_name = fst f, tc_values = arr \<rparr>) (extract_array_value (snd f))) fs
        | _ \<Rightarrow> [])
     in Some (NTTable \<lparr> ntt_labels = extract_string_array (pv_field (ascii ''labels'') v),
          ntt_columns = columns, ntt_alarm = extract_alarm v, ntt_timestamp = extract_timestamp v \<rparr>))"

definition extract_dimensions :: "PvaValue option \<Rightarrow> dimension list" where
  "extract_dimensions v =
    (case v of
       Some (PvStructure fs) \<Rightarrow> List.map_filter (\<lambda>f.
         Option.bind (pv_field_i32 (ascii ''size'') (snd f)) (\<lambda>sz.
           Some \<lparr> dm_size = sz,
             dm_offset = or_else (pv_field_i32 (ascii ''offset'') (snd f)) 0,
             dm_full_size = or_else (pv_field_i32 (ascii ''fullSize'') (snd f)) 0,
             dm_binning = or_else (pv_field_i32 (ascii ''binning'') (snd f)) 1,
             dm_reverse = (Option.bind (pv_field (ascii ''reverse'') (snd f)) pv_as_scalar
                            = Some (SvBoolean True)) \<rparr>)) fs
     | _ \<Rightarrow> [])"

definition extract_nd_attributes :: "PvaValue option \<Rightarrow> nd_attribute list" where
  "extract_nd_attributes v =
    (case v of
       Some (PvStructure fs) \<Rightarrow> List.map_filter (\<lambda>f.
         Option.bind (pv_field_string (ascii ''name'') (snd f)) (\<lambda>n.
         Option.bind (Option.bind (pv_field (ascii ''value'') (snd f)) pv_as_scalar) (\<lambda>s.
           Some \<lparr> na_name = n, na_value = s,
             na_source = or_else (pv_field_string (ascii ''source'') (snd f)) [],
             na_source_type = AstDriver,
             na_description = or_else (pv_field_string (ascii ''description'') (snd f)) [] \<rparr>))) fs
     | _ \<Rightarrow> [])"

definition convert_nt_ndarray :: "PvaValue \<Rightarrow> 'num NormativeType option" where
  "convert_nt_ndarray v =
    Option.bind (Option.bind (pv_field (ascii ''value'') v) extract_array_value) (\<lambda>img.
      Some (NTNDArray \<lparr> ntd_value = img,
        ntd_codec = (case pv_field (ascii ''codec'') v of
            Some c \<Rightarrow> \<lparr> cd_name = or_else (pv_field_string (ascii ''name'') c) [], cd_parameters = JNull \<rparr>
          | None \<Rightarrow> codec_default),
        ntd_compressed_size = or_else (pv_field_i64 (ascii ''compressedSize'') v) 0,
        ntd_uncompressed_size = or_else (pv_field_i64 (ascii ''uncompressedSize'') v) 0,
        ntd_dimension = extract_dimensions (pv_field (ascii ''dimension'') v),
        ntd_unique_id = or_else (pv_field_i32 (ascii ''uniqueId'') v) 0,
        ntd_data_timestamp = Some (or_else
          (map_option extract_timestamp_from (pv_field (ascii ''dataTimeStamp'') v)) ts_default),
        ntd_alarm = extract_alarm v, ntd_timestamp = extract_timestamp v,
        ntd_attribute = extract_nd_attributes (pv_field (ascii ''attribute'') v) \<rparr>))"

section \<open>JSON\<close>

text \<open>The number type of the JSON library, with its two constructors; a float that is not
  finite has no number.\<close>

record 'num json_numbers =
  jn_of_i64 :: "64 word \<Rightarrow> 'num"
  jn_of_f64 :: "f64bits \<Rightarrow> 'num option"

definition json_of_f64 :: "'num json_numbers \<Rightarrow> f64bits \<Rightarrow> 'num json" where
  "json_of_f64 ns f = (case jn_of_f64 ns f of Some x \<Rightarrow> JNumber x | None \<Rightarrow> JNull)"

fun bytes_less :: "bytes \<Rightarrow> bytes \<Rightarrow> bool" where
  "bytes_less _ [] = False"
| "bytes_less [] (_ # _) = True"
| "bytes_less (x # xs) (y # ys) = (x < y \<or> x = y \<and> bytes_less xs ys)"

fun json_insert :: "rstring \<Rightarrow> 'v \<Rightarrow> (rstring \<times> 'v) list \<Rightarrow> (rstring \<times> 'v) list" where
  "json_insert k v [] = [(k, v)]"
| "json_insert k v ((k', v') # ms) =
    (if k = k' then (k, v) # ms
     else if bytes_less k k' then (k, v) # (k', v') # ms
     else (k', v') # json_insert k v ms)"

definition json_collect :: "(rstring \<times> 'v) list \<Rightarrow> (rstring \<times> 'v) list" where
  "json_collect ms = fold (\<lambda>(k, v). json_insert k v) ms []"

definition scalar_to_json :: "'num json_numbers \<Rightarrow> ScalarValue \<Rightarrow> 'num json" where
  "scalar_to_json ns s =
    (case s of
       SvBoolean b \<Rightarrow> JBool b
     | SvString t \<Rightarrow> JString t
     | SvFloat _ \<Rightarrow> or_else (map_option (json_of_f64 ns) (sv_as_f64 s)) JNull
     | SvDouble _ \<Rightarrow> or_else (map_option (json_of_f64 ns) (sv_as_f64 s)) JNull
     | _ \<Rightarrow> or_else (map_option (\<lambda>i. JNumber (jn_of_i64 ns i)) (sv_as_i64 s)) JNull)"

definition element_to_json :: "'num json_numbers \<Rightarrow> ScalarValue \<Rightarrow> 'num json" where
  "element_to_json ns s =
    (case s of
       SvString t \<Rightarrow> JString t
     | SvBoolean b \<Rightarrow> JBool b
     | _ \<Rightarrow> (case sv_as_i64 s of
              Some i \<Rightarrow> JNumber (jn_of_i64 ns i)
            | None \<Rightarrow> or_else (map_option (json_of_f64 ns) (sv_as_f64 s)) JNull))"

fun pva_value_to_json :: "'num json_numbers \<Rightarrow> PvaValue \<Rightarrow> 'num json" where
  "pva_value_to_json ns (PvScalar s) = scalar_to_json ns s"
| "pva_value_to_json ns (PvScalarArray xs) = JArray (map (element_to_json ns) xs)"
| "pva_value_to_json ns (PvStructure fs) =
    JObject (json_collect (map (\<lambda>(k, v). (k, pva_value_to_json ns v)) fs))"
| "pva_value_to_json ns (PvUnion k v) = JObject [(k, pva_value_to_json ns v)]"
| "pva_value_to_json ns PvNull = JNull"

definition convert_custom :: "'num json_numbers \<Rightarrow> PvaValue \<Rightarrow> 'num NormativeType option" where
  "convert_custom ns v = Some (NtCustom \<lparr> cs_data = pva_value_to_json ns v,
     cs_alarm = extract_alarm v, cs_timestamp = extract_timestamp v \<rparr>)"

section \<open>Dispatch\<close>

definition to_normative :: "'num json_numbers \<Rightarrow> FieldDesc \<Rightarrow> PvaValue \<Rightarrow> 'num NormativeType option" where
  "to_normative ns desc v =
    (if pv_is_null v then None
     else if fd_type_id desc = ascii ''epics:nt/NTScalar:1.0'' then convert_nt_scalar v
     else if fd_type_id desc = ascii ''epics:nt/NTEnum:1.0'' then convert_nt_enum v
     else if fd_type_id desc = ascii ''epics:nt/NTScalarArray:1.0'' then convert_nt_scalar_array v
     else if fd_type_id desc = ascii ''epics:nt/NTTable:1.0'' then convert_nt_table v
     else if fd_type_id desc = ascii ''epics:nt/NTNDArray:1.0'' then convert_nt_ndarray v
     else convert_custom ns v)"

definition to_normative_from_value :: "PvaValue \<Rightarrow> 'num NormativeType option" where
  "to_normative_from_value v =
    (if pv_is_null v then None
     else Option.bind (pv_field (ascii ''value'') v) (\<lambda>val.
       if pv_as_scalar val \<noteq> None then convert_nt_scalar v
       else if pv_field (ascii ''index'') val \<noteq> None then convert_nt_enum v
       else if pv_is_array val then convert_nt_scalar_array v
       else None))"

end
