(* ===== verification/Dispatch.thy ===== *)
theory Dispatch
  imports ToNormative Writers
begin

text \<open>
  From a normative value to the row that archives it, by the two routes of the sources: the
  batch writer's dispatch (\<open>BatchWriter::dispatch\<close>, \<open>dispatch_sync\<close>, \<open>dispatch_with_id\<close> in
  \<open>aura-store/src/writer/mod.rs\<close>) and the slow path of an ingest thread
  (\<open>aura-ingest/src/thread.rs\<close>).  The derived serialiser of the value types is the argument
  \<open>se\<close>.  Moving data out of the update (\<open>mem::take\<close>) is not modelled: no caller reads the
  update again.
\<close>

record 'num serialiser =
  se_to_vec :: "'num NormativeType \<Rightarrow> bytes option"
  se_to_value :: "'num NormativeType \<Rightarrow> 'num json option"

section \<open>The batch writer's dispatch\<close>

text \<open>\<open>dbg\<close> is the derived debug format of a scalar value.\<close>

definition extract_string :: "(ScalarValue \<Rightarrow> rstring) \<Rightarrow> 'num NormativeType \<Rightarrow> rstring" where
  "extract_string dbg nt =
    (case nt of
       NTScalar s \<Rightarrow> (case nts_value s of SvString v \<Rightarrow> v | other \<Rightarrow> dbg other)
     | _ \<Rightarrow> [])"

definition extract_array_f64 :: "'num NormativeType \<Rightarrow> f64bits list" where
  "extract_array_f64 nt =
    (case nt of NTScalarArray a \<Rightarrow> or_else (av_as_f64_vec (nta_value a)) [] | _ \<Rightarrow> [])"

definition extract_matrix :: "'num NormativeType \<Rightarrow> f64bits list \<times> 32 word list" where
  "extract_matrix nt = (case nt of NTMatrix m \<Rightarrow> (ntm_value m, ntm_dim m) | _ \<Rightarrow> ([], []))"

definition image_from_update ::
  "'dt \<Rightarrow> 32 word \<Rightarrow> 'num NormativeType \<Rightarrow> 16 word \<Rightarrow> 16 word \<Rightarrow> ('dt, 'num) image_row" where
  "image_from_update t pv nt sev st =
    (case nt of
       NTNDArray img \<Rightarrow>
         image_row_new t pv (case ntd_value img of AvUByte v \<Rightarrow> v | _ \<Rightarrow> []) (cd_name (ntd_codec img))
           (ntd_compressed_size img) (ntd_uncompressed_size img) (map dm_size (ntd_dimension img))
           (ntd_unique_id img) sev st
     | _ \<Rightarrow> image_row_new t pv [] [] 0 0 [] 0 sev st)"

definition numeric_capture :: "'dt \<Rightarrow> 32 word \<Rightarrow> 16 word \<Rightarrow> 16 word \<Rightarrow> f64bits list \<Rightarrow> 'dt array_capture" where
  "numeric_capture t pv sev st vs =
    \<lparr> ac_time = t, ac_pv_id = pv, ac_severity16 = sev, ac_status16 = st, ac_data = AdNumeric vs \<rparr>"

abbreviation push_to_scalar where
  "push_to_scalar r w \<equiv> w \<lparr> bw_scalar := snd (scalar_push r (bw_scalar w)) \<rparr>"

abbreviation push_to_string where
  "push_to_string r w \<equiv> w \<lparr> bw_string := snd (string_push r (bw_string w)) \<rparr>"

abbreviation push_to_json where
  "push_to_json r w \<equiv> w \<lparr> bw_json := snd (json_push r (bw_json w)) \<rparr>"

abbreviation push_to_image where
  "push_to_image r w \<equiv> w \<lparr> bw_image := snd (image_push r (bw_image w)) \<rparr>"

definition push_to_array ::
  "'dt calendar \<Rightarrow> 'dt array_capture \<Rightarrow> ('dt, 'num) batch_writer \<Rightarrow> ('dt, 'num) batch_writer" where
  "push_to_array cal c w =
    (case array_push cal c (bw_array w) (bw_next_array_id w) of
       (_, a, i) \<Rightarrow> w \<lparr> bw_array := a, bw_next_array_id := i \<rparr>)"

definition count_error :: "('dt, 'num) batch_writer \<Rightarrow> ('dt, 'num) batch_writer" where
  "count_error w = w \<lparr> bw_errors := bw_errors w + 1 \<rparr>"

definition dispatch_slow ::
  "'dt calendar \<Rightarrow> 'num serialiser \<Rightarrow> (ScalarValue \<Rightarrow> rstring) \<Rightarrow> 'num pv_update \<Rightarrow> 32 word \<Rightarrow> StoreReason \<Rightarrow>
   ('dt, 'num) batch_writer \<Rightarrow> ('dt, 'num) batch_writer" where
  "dispatch_slow cal se dbg u pv reason w =
    (let t = update_timestamp cal u; sev = update_severity u; st = update_status u; nt = pu_data u;
         dt = data_type_from_nt nt;
         parsed = (\<lambda>mk. case se_to_value se nt of Some v \<Rightarrow> push_to_json (mk t pv v sev st) w
                     | None \<Rightarrow> count_error w) in
     if dt = PdScalar \<or> dt = PdAggregate then
       push_to_scalar (scalar_row_new cal t pv (or_else (nt_as_f64 nt) 0) sev st reason) w
     else if dt = PdString then push_to_string (string_row_new t pv (extract_string dbg nt) sev st) w
     else if dt = PdArray then push_to_array cal (numeric_capture t pv sev st (extract_array_f64 nt)) w
     else if dt = PdMatrix then push_to_array cal (numeric_capture t pv sev st (fst (extract_matrix nt))) w
     else if dt = PdImage then push_to_image (image_from_update t pv nt sev st) w
     else if dt = PdTable \<or> dt = PdCustom \<or> dt = PdUnion then
       (case se_to_vec se nt of
          Some bs \<Rightarrow>
            push_to_json
              (if dt = PdTable then json_row_table t pv bs sev st
               else json_row_custom t pv (ascii (nt_type_name nt)) bs sev st) w
        | None \<Rightarrow> count_error w)
     else if dt = PdHistogram then parsed json_row_histogram
     else if dt = PdContinuum then parsed json_row_continuum
     else if dt = PdNameValue then parsed json_row_namevalue
     else parsed json_row_multi)"

definition dispatch_with_id ::
  "'dt calendar \<Rightarrow> 'num serialiser \<Rightarrow> (ScalarValue \<Rightarrow> rstring) \<Rightarrow> 'num pv_update \<Rightarrow> 32 word \<Rightarrow> StoreReason \<Rightarrow>
   ('dt, 'num) batch_writer \<Rightarrow> bool \<times> ('dt, 'num) batch_writer" where
  "dispatch_with_id cal se dbg u pv reason w0 =
    (let w = w0 \<lparr> bw_dispatched := bw_dispatched w0 + 1 \<rparr> in
     case pu_data u of
       NTScalar s \<Rightarrow>
         (let w' = push_to_scalar
             (scalar_row_new cal (ts_to_datetime cal (nts_timestamp s)) pv (or_else (sv_as_f64 (nts_value s)) 0)
               (severity_i16 (al_severity (nts_alarm s))) (status_i16 (al_status (nts_alarm s))) reason) w
          in (scalar_is_full (bw_scalar w'), w'))
     | _ \<Rightarrow> (let w' = dispatch_slow cal se dbg u pv reason w in (any_writer_full w', w')))"

definition dispatch_sync where
  "dispatch_sync cal se dbg u reason w =
    map_option (\<lambda>pv. dispatch_with_id cal se dbg u pv reason w) (pc_resolve_cached (pu_pv_name u) (bw_cache w))"

text \<open>On a cache miss the id is resolved in the data base; its error ends the dispatch.\<close>

definition dispatch ::
  "'dt calendar \<Rightarrow> 'num serialiser \<Rightarrow> (ScalarValue \<Rightarrow> rstring) \<Rightarrow> ('s, 'e) pv_lookup \<Rightarrow> 'num pv_update \<Rightarrow>
   StoreReason \<Rightarrow> ('dt, 'num) batch_writer \<Rightarrow> 's \<Rightarrow> ('e + bool) \<times> ('dt, 'num) batch_writer \<times> 's" where
  "dispatch cal se dbg db u reason w s =
    (case dispatch_sync cal se dbg u reason w of
       Some (full, w') \<Rightarrow> (Ok full, w', s)
     | None \<Rightarrow>
        (case pc_resolve db (pu_pv_name u) (bw_cache w) s of
           (Err e, c, s') \<Rightarrow> (Err e, w \<lparr> bw_cache := c \<rparr>, s')
         | (Ok pv, c, s') \<Rightarrow>
            (case dispatch_with_id cal se dbg u pv reason (w \<lparr> bw_cache := c \<rparr>) of
               (full, w') \<Rightarrow> (Ok full, w', s'))))"

section \<open>The slow path of an ingest thread\<close>

datatype ('dt, 'num) routed =
    RtScalar scalar_row
  | RtOther "('dt, 'num) WriterRow"
  | RtDropped

definition slow_route ::
  "'dt calendar \<Rightarrow> 'num serialiser \<Rightarrow> 'num pv_update \<Rightarrow> 32 word \<Rightarrow> ('dt, 'num) routed" where
  "slow_route cal se u pv =
    (let t = update_timestamp cal u; sev = update_severity u; st = update_status u; nt = pu_data u;
         parsed = (\<lambda>mk. case se_to_value se nt of Some v \<Rightarrow> RtOther (WrJson (mk t pv v sev st))
                     | None \<Rightarrow> RtDropped) in
     case nt of
       NTScalar s \<Rightarrow> RtScalar (scalar_row_new cal (ts_to_datetime cal (nts_timestamp s)) pv
         (or_else (sv_as_f64 (nts_value s)) 0) (severity_i16 (al_severity (nts_alarm s)))
         (status_i16 (al_status (nts_alarm s))) SrValueChanged)
     | NTEnum e \<Rightarrow> RtScalar (scalar_row_new cal (ts_to_datetime cal (nte_timestamp e)) pv
         (ev_as_f64 (nte_value e)) (severity_i16 (al_severity (nte_alarm e)))
         (status_i16 (al_status (nte_alarm e))) SrValueChanged)
     | NTScalarArray a \<Rightarrow>
         RtOther (WrArray (numeric_capture t pv sev st (or_else (av_as_f64_vec (nta_value a)) [])))
     | NTMatrix m \<Rightarrow> RtOther (WrArray (numeric_capture t pv sev st (ntm_value m)))
     | NTNDArray img \<Rightarrow>
         RtOther (WrImage (image_row_new t pv (case ntd_value img of AvUByte v \<Rightarrow> v | _ \<Rightarrow> [])
           (cd_name (ntd_codec img)) (ntd_compressed_size img) (ntd_uncompressed_size img)
           (map dm_size (ntd_dimension img)) (ntd_unique_id img) sev st))
     | _ \<Rightarrow>
        (case data_type_from_nt nt of
           PdTable \<Rightarrow> (case se_to_vec se nt of
               Some bs \<Rightarrow> RtOther (WrJson (json_row_table t pv bs sev st)) | None \<Rightarrow> RtDropped)
         | PdCustom \<Rightarrow> (case se_to_vec se nt of
               Some bs \<Rightarrow> RtOther (WrJson (json_row_custom t pv (ascii (nt_type_name nt)) bs sev st))
             | None \<Rightarrow> RtDropped)
         | PdUnion \<Rightarrow> (case se_to_vec se nt of
               Some bs \<Rightarrow> RtOther (WrJson (json_row_custom t pv (ascii (nt_type_name nt)) bs sev st))
             | None \<Rightarrow> RtDropped)
         | PdHistogram \<Rightarrow> parsed json_row_histogram
         | PdContinuum \<Rightarrow> parsed json_row_continuum
         | PdNameValue \<Rightarrow> parsed json_row_namevalue
         | PdMultiChannel \<Rightarrow> parsed json_row_multi
         | _ \<Rightarrow> RtDropped))"

section \<open>The two routes agree\<close>

text \<open>A routed row entering the batch writer by its \<open>push\<close> operations.\<close>

fun enter_row :: "'dt calendar \<Rightarrow> ('dt, 'num) routed \<Rightarrow> ('dt, 'num) batch_writer \<Rightarrow> ('dt, 'num) batch_writer" where
  "enter_row cal (RtScalar r) w = push_to_scalar r w"
| "enter_row cal (RtOther r) w = ingest_other_row cal r w"
| "enter_row cal RtDropped w = count_error w"

fun is_aggregate :: "'num NormativeType \<Rightarrow> bool" where
  "is_aggregate (NTAggregate _) = True" | "is_aggregate _ = False"

lemma push_to_array_alt: "push_to_array cal c w = ingest_other_row cal (WrArray c) w"
  by (simp add: push_to_array_def)

lemmas route_simps = dispatch_slow_def slow_route_def push_to_array_alt image_from_update_def
  extract_array_f64_def extract_matrix_def update_timestamp_def update_severity_def update_status_def
  nt_alarm.simps nt_timestamp.simps data_type_from_nt.simps nt_as_f64.simps

text \<open>C30. For every value but an aggregate, dispatching an update puts into the writers exactly the
  row that the slow path of an ingest thread builds for it (and a value that cannot be
  serialised is dropped by both): the two translations of the thirteen normative types into
  rows agree.\<close>

theorem routes_agree:
  assumes "\<not> is_aggregate (pu_data u)"
  shows "snd (dispatch_with_id cal se dbg u pv SrValueChanged w) =
    enter_row cal (slow_route cal se u pv) (w \<lparr> bw_dispatched := bw_dispatched w + 1 \<rparr>)"
  using assms
  by (cases "pu_data u")
    (simp_all add: dispatch_with_id_def Let_def route_simps split: option.splits)

text \<open>The slow path drops an aggregate; dispatch stores its value.\<close>

lemma aggregate_dropped: "slow_route cal se \<lparr> pu_pv_name = n, pu_pv_id = i, pu_data = NTAggregate g \<rparr> pv = RtDropped"
  by (simp add: slow_route_def Let_def)

text \<open>A string in an \<open>NTScalar\<close> is archived as the number zero.\<close>

lemma string_scalar_is_zero:
  "slow_route cal se (update_new n (NTScalar s)) pv = RtScalar r \<Longrightarrow> nts_value s = SvString v \<Longrightarrow> sr_value r = 0"
  by (auto simp: slow_route_def Let_def update_new_def scalar_row_new_def)

lemma routes_agree_witness:
  "snd (dispatch_with_id second_calendar \<lparr> se_to_vec = \<lambda>_. Some [123, 125], se_to_value = \<lambda>_. None \<rparr>
      (\<lambda>_. []) (update_new (ascii ''pv'')
        (NtCustom \<lparr> cs_data = (JNull :: unit json), cs_alarm = alarm_default, cs_timestamp = ts_new 5 0 \<rparr>))
      7 SrValueChanged (batch_writer_new config_default)) =
   enter_row second_calendar (RtOther (WrJson (json_row_custom 5 7 (ascii ''Custom'') [123, 125] 0 0)))
     (batch_writer_new config_default \<lparr> bw_dispatched := 1 \<rparr>)"
  by (subst routes_agree)
    (simp_all add: update_new_def slow_route_def Let_def update_timestamp_def ts_to_datetime_def ts_new_def
      update_severity_def update_status_def alarm_default_def batch_writer_new_def second_calendar_def cal_at_def)

end
