(* ===== verification/Metadata.thy ===== *)
theory Metadata
  imports Normative
begin

text \<open>
  PV metadata (\<open>aura-core/src/metadata.rs\<close>): the flat record extracted from the first value of
  a PV, and the update that reports whether a tracked field changed.  The clock is an argument;
  \<open>!=\<close> on floats is the IEEE one.
\<close>

record dimension_info =
  di_size :: "32 word"
  di_full_size :: "32 word"

definition dim_from :: "dimension \<Rightarrow> dimension_info" where
  "dim_from d = \<lparr> di_size = dm_size d, di_full_size = dm_full_size d \<rparr>"

record 'dt pv_metadata =
  pm_pv_name :: rstring
  pm_pv_id :: "32 word option"
  pm_data_type :: PvDataType
  pm_scalar_type :: "ScalarType option"
  pm_array_size :: "nat option"
  pm_description :: rstring
  pm_units :: rstring
  pm_precision :: "32 word"
  pm_display_form :: DisplayForm
  pm_display_low :: f64bits
  pm_display_high :: f64bits
  pm_control_low :: f64bits
  pm_control_high :: f64bits
  pm_min_step :: f64bits
  pm_alarm_lolo :: f64bits
  pm_alarm_low :: f64bits
  pm_alarm_high :: f64bits
  pm_alarm_hihi :: f64bits
  pm_alarm_hysteresis :: f64bits
  pm_enum_choices :: "rstring list"
  pm_dimensions :: "dimension_info list"
  pm_first_seen :: "'dt option"
  pm_updated_at :: "'dt option"

definition meta_empty :: "rstring \<Rightarrow> PvDataType \<Rightarrow> 'dt \<Rightarrow> 'dt pv_metadata" where
  "meta_empty name dt now =
    \<lparr> pm_pv_name = name, pm_pv_id = None, pm_data_type = dt, pm_scalar_type = None,
      pm_array_size = None, pm_description = [], pm_units = [], pm_precision = 0,
      pm_display_form = DfDefault, pm_display_low = 0, pm_display_high = 0, pm_control_low = 0,
      pm_control_high = 0, pm_min_step = 0, pm_alarm_lolo = 0, pm_alarm_low = 0, pm_alarm_high = 0,
      pm_alarm_hihi = 0, pm_alarm_hysteresis = 0, pm_enum_choices = [], pm_dimensions = [],
      pm_first_seen = Some now, pm_updated_at = Some now \<rparr>"

definition apply_display :: "display \<Rightarrow> 'dt pv_metadata \<Rightarrow> 'dt pv_metadata" where
  "apply_display d m = m
    \<lparr> pm_description := (if dp_description d = [] then pm_description m else dp_description d),
      pm_units := dp_units d, pm_precision := dp_precision d, pm_display_form := dp_form d,
      pm_display_low := dp_limit_low d, pm_display_high := dp_limit_high d \<rparr>"

definition apply_control :: "control \<Rightarrow> 'dt pv_metadata \<Rightarrow> 'dt pv_metadata" where
  "apply_control c m = m \<lparr> pm_control_low := ct_limit_low c, pm_control_high := ct_limit_high c,
     pm_min_step := ct_min_step c \<rparr>"

definition apply_value_alarm :: "value_alarm \<Rightarrow> 'dt pv_metadata \<Rightarrow> 'dt pv_metadata" where
  "apply_value_alarm va m = m \<lparr> pm_alarm_lolo := va_low_alarm_limit va,
     pm_alarm_low := va_low_warning_limit va, pm_alarm_high := va_high_warning_limit va,
     pm_alarm_hihi := va_high_alarm_limit va, pm_alarm_hysteresis := va_hysteresis va \<rparr>"

definition when_some :: "('a \<Rightarrow> 'b \<Rightarrow> 'b) \<Rightarrow> 'a option \<Rightarrow> 'b \<Rightarrow> 'b" where
  "when_some f x y = (case x of None \<Rightarrow> y | Some a \<Rightarrow> f a y)"

definition apply_optional_display_control_alarm ::
  "display option \<Rightarrow> control option \<Rightarrow> value_alarm option \<Rightarrow> 'dt pv_metadata \<Rightarrow> 'dt pv_metadata" where
  "apply_optional_display_control_alarm d c va m =
    when_some apply_value_alarm va (when_some apply_control c (when_some apply_display d m))"

definition apply_initial :: "'num NormativeType \<Rightarrow> 'dt pv_metadata \<Rightarrow> 'dt pv_metadata" where
  "apply_initial nt m =
    (case nt of
       NTScalar s \<Rightarrow>
         apply_optional_display_control_alarm (nts_display s) (nts_control s) (nts_value_alarm s)
           (m \<lparr> pm_scalar_type := Some (sv_type_tag (nts_value s)) \<rparr>)
     | NTEnum e \<Rightarrow> m \<lparr> pm_scalar_type := Some StInt, pm_enum_choices := ev_choices (nte_value e) \<rparr>
     | NTScalarArray a \<Rightarrow>
         apply_optional_display_control_alarm (nta_display a) (nta_control a) (nta_value_alarm a)
           (m \<lparr> pm_scalar_type := Some (av_element_type (nta_value a)),
                pm_array_size := Some (av_len (nta_value a)) \<rparr>)
     | NTMatrix x \<Rightarrow>
         (let m1 = when_some apply_display (ntm_display x)
                (m \<lparr> pm_scalar_type := Some StDouble, pm_array_size := Some (length (ntm_value x)),
                     pm_description := ntm_descriptor x \<rparr>)
          in if length (ntm_dim x) \<ge> 2
             then m1 \<lparr> pm_dimensions := map (\<lambda>s. \<lparr> di_size = s, di_full_size = s \<rparr>) (ntm_dim x) \<rparr>
             else m1)
     | NTHistogram h \<Rightarrow>
         m \<lparr> pm_description := nth_descriptor h, pm_array_size := Some (hv_len (nth_value h)) \<rparr>
     | NTContinuum c \<Rightarrow>
         (let m1 = m \<lparr> pm_scalar_type := Some StDouble, pm_description := ntc_descriptor c,
                      pm_array_size := Some (length (ntc_base c)) \<rparr>
          in case ntc_units c of [] \<Rightarrow> m1 | u # _ \<Rightarrow> m1 \<lparr> pm_units := u \<rparr>)
     | NTNameValue nv \<Rightarrow>
         m \<lparr> pm_description := ntn_descriptor nv, pm_array_size := Some (length (ntn_name nv)),
             pm_scalar_type := Some (av_element_type (ntn_value nv)) \<rparr>
     | NTTable t \<Rightarrow>
         m \<lparr> pm_array_size := Some (case ntt_columns t of [] \<Rightarrow> 0 | c # _ \<Rightarrow> av_len (tc_values c)) \<rparr>
     | NTNDArray img \<Rightarrow>
         m \<lparr> pm_scalar_type := Some (av_element_type (ntd_value img)),
             pm_dimensions := map dim_from (ntd_dimension img) \<rparr>
     | NTMultiChannel mc \<Rightarrow> m \<lparr> pm_array_size := Some (length (ntmc_channel_name mc)) \<rparr>
     | NTAggregate _ \<Rightarrow> m \<lparr> pm_scalar_type := Some StDouble \<rparr>
     | NTUnion u \<Rightarrow>
         (let m1 = m \<lparr> pm_description := ntu_descriptor u \<rparr> in
          case ntu_value u of UvScalar s \<Rightarrow> m1 \<lparr> pm_scalar_type := Some (sv_type_tag s) \<rparr> | _ \<Rightarrow> m1)
     | NtCustom _ \<Rightarrow> m)"

definition from_initial_update :: "'dt \<Rightarrow> rstring \<Rightarrow> 'num NormativeType \<Rightarrow> 'dt pv_metadata" where
  "from_initial_update now name nt = apply_initial nt (meta_empty name (data_type_from_nt nt) now)"

section \<open>Updates\<close>

record meta_snapshot =
  sn_description :: rstring
  sn_units :: rstring
  sn_precision :: "32 word"
  sn_floats :: "f64bits list"
  sn_enum_choices :: "rstring list"
  sn_dimensions :: "dimension_info list"
  sn_array_size :: "nat option"

text \<open>The nine floats in the order of the record: display, control, alarm limits, hysteresis.\<close>

definition tracked_floats :: "'dt pv_metadata \<Rightarrow> f64bits list" where
  "tracked_floats m = [pm_display_low m, pm_display_high m, pm_control_low m, pm_control_high m,
     pm_alarm_lolo m, pm_alarm_low m, pm_alarm_high m, pm_alarm_hihi m, pm_alarm_hysteresis m]"

definition meta_snapshot_of :: "'dt pv_metadata \<Rightarrow> meta_snapshot" where
  "meta_snapshot_of m =
    \<lparr> sn_description = pm_description m, sn_units = pm_units m, sn_precision = pm_precision m,
      sn_floats = tracked_floats m, sn_enum_choices = pm_enum_choices m,
      sn_dimensions = pm_dimensions m, sn_array_size = pm_array_size m \<rparr>"

definition differs_from :: "meta_snapshot \<Rightarrow> 'dt pv_metadata \<Rightarrow> bool" where
  "differs_from old m \<longleftrightarrow>
    pm_description m \<noteq> sn_description old \<or> pm_units m \<noteq> sn_units old \<or>
    pm_precision m \<noteq> sn_precision old \<or>
    \<not> list_all2 f64_eq (tracked_floats m) (sn_floats old) \<or>
    pm_enum_choices m \<noteq> sn_enum_choices old \<or> pm_dimensions m \<noteq> sn_dimensions old \<or>
    pm_array_size m \<noteq> sn_array_size old"

definition apply_update_nt :: "'num NormativeType \<Rightarrow> 'dt pv_metadata \<Rightarrow> 'dt pv_metadata" where
  "apply_update_nt nt m =
    (case nt of
       NTScalar s \<Rightarrow>
         apply_optional_display_control_alarm (nts_display s) (nts_control s) (nts_value_alarm s) m
     | NTEnum e \<Rightarrow>
         (if pm_enum_choices m \<noteq> ev_choices (nte_value e)
          then m \<lparr> pm_enum_choices := ev_choices (nte_value e) \<rparr> else m)
     | NTScalarArray a \<Rightarrow>
         apply_optional_display_control_alarm (nta_display a) (nta_control a) (nta_value_alarm a)
           (m \<lparr> pm_array_size := Some (av_len (nta_value a)) \<rparr>)
     | NTMatrix x \<Rightarrow> when_some apply_display (ntm_display x) m
     | NTNDArray img \<Rightarrow> m \<lparr> pm_dimensions := map dim_from (ntd_dimension img) \<rparr>
     | _ \<Rightarrow> m)"

definition meta_update_from :: "'dt \<Rightarrow> 'num NormativeType \<Rightarrow> 'dt pv_metadata \<Rightarrow> bool \<times> 'dt pv_metadata" where
  "meta_update_from now nt m =
    (let old = meta_snapshot_of m; m1 = apply_update_nt nt m; changed = differs_from old m1
     in (changed, if changed then m1 \<lparr> pm_updated_at := Some now \<rparr> else m1))"

definition has_display_range :: "'dt pv_metadata \<Rightarrow> bool" where
  "has_display_range m \<longleftrightarrow> f64_lt (pm_display_low m) (pm_display_high m)"

definition has_control_range :: "'dt pv_metadata \<Rightarrow> bool" where
  "has_control_range m \<longleftrightarrow> f64_lt (pm_control_low m) (pm_control_high m)"

definition has_alarm_limits :: "'dt pv_metadata \<Rightarrow> bool" where
  "has_alarm_limits m \<longleftrightarrow> \<not> f64_eq (pm_alarm_lolo m) 0 \<or> \<not> f64_eq (pm_alarm_low m) 0 \<or>
     \<not> f64_eq (pm_alarm_high m) 0 \<or> \<not> f64_eq (pm_alarm_hihi m) 0"

definition meta_is_enum :: "'dt pv_metadata \<Rightarrow> bool" where
  "meta_is_enum m \<longleftrightarrow> pm_enum_choices m \<noteq> []"

definition meta_is_image :: "'dt pv_metadata \<Rightarrow> bool" where
  "meta_is_image m \<longleftrightarrow> pm_data_type m = PdImage"

section \<open>Lemmas\<close>

lemma f64_eq_refl: "\<not> f64_nan a \<Longrightarrow> f64_eq a a"
  by (simp add: f64_eq_def)

lemma apply_display_twice [simp]: "apply_display d (apply_display d m) = apply_display d m"
  by (simp add: apply_display_def)

lemma apply_optional_twice:
  "apply_optional_display_control_alarm d c va (apply_optional_display_control_alarm d c va m) =
   apply_optional_display_control_alarm d c va m"
  by (cases d; cases c; cases va)
    (simp_all add: apply_optional_display_control_alarm_def when_some_def apply_display_def
      apply_control_def apply_value_alarm_def)

lemma apply_optional_size:
  "apply_optional_display_control_alarm d c va (m \<lparr> pm_array_size := n \<rparr>) =
   (apply_optional_display_control_alarm d c va m) \<lparr> pm_array_size := n \<rparr>"
  by (cases d; cases c; cases va)
    (simp_all add: apply_optional_display_control_alarm_def when_some_def apply_display_def
      apply_control_def apply_value_alarm_def)

lemma apply_update_twice: "apply_update_nt nt (apply_update_nt nt m) = apply_update_nt nt m"
  by (cases nt)
    (simp_all add: apply_update_nt_def apply_optional_size apply_optional_twice when_some_def
      split: option.splits)

lemma apply_optional_stamp:
  "apply_optional_display_control_alarm d c va (m \<lparr> pm_updated_at := t \<rparr>) =
   (apply_optional_display_control_alarm d c va m) \<lparr> pm_updated_at := t \<rparr>"
  by (cases d; cases c; cases va)
    (simp_all add: apply_optional_display_control_alarm_def when_some_def apply_display_def
      apply_control_def apply_value_alarm_def)

lemma apply_update_stamp:
  "apply_update_nt nt (m \<lparr> pm_updated_at := t \<rparr>) = (apply_update_nt nt m) \<lparr> pm_updated_at := t \<rparr>"
proof (cases nt)
  case (NTScalarArray a)
  have "m \<lparr> pm_updated_at := t, pm_array_size := n \<rparr> = m \<lparr> pm_array_size := n, pm_updated_at := t \<rparr>" for n
    by simp
  then show ?thesis
    using NTScalarArray by (simp only: apply_update_nt_def NormativeType.case apply_optional_stamp)
qed (auto simp: apply_update_nt_def apply_optional_stamp when_some_def apply_display_def
      split: option.splits)

lemma not_differs_self: "list_all (\<lambda>f. \<not> f64_nan f) (tracked_floats m) \<Longrightarrow> \<not> differs_from (meta_snapshot_of m) m"
  by (auto simp: differs_from_def meta_snapshot_of_def tracked_floats_def f64_eq_refl)

lemma differs_stamp [simp]: "differs_from old (m \<lparr> pm_updated_at := t \<rparr>) = differs_from old m"
  by (simp add: differs_from_def tracked_floats_def)

lemma snapshot_stamp [simp]: "meta_snapshot_of (m \<lparr> pm_updated_at := t \<rparr>) = meta_snapshot_of m"
  by (simp add: meta_snapshot_of_def tracked_floats_def)

text \<open>The same value a second time changes nothing and reports no change, unless a limit is
  NaN.\<close>

lemma meta_update_settles:
  assumes "list_all (\<lambda>f. \<not> f64_nan f) (tracked_floats (snd (meta_update_from now nt m)))"
  shows "meta_update_from later nt (snd (meta_update_from now nt m)) = (False, snd (meta_update_from now nt m))"
proof -
  let ?m1 = "apply_update_nt nt m"
  have nan: "list_all (\<lambda>f. \<not> f64_nan f) (tracked_floats ?m1)"
    using assms by (auto simp: meta_update_from_def Let_def tracked_floats_def split: if_splits)
  show ?thesis
    using not_differs_self[OF nan]
    by (auto simp: meta_update_from_def Let_def apply_update_stamp apply_update_twice)
qed

text \<open>A change of the form or of the minimal step alone is applied but not reported.\<close>

lemma min_step_change_unreported:
  assumes "list_all (\<lambda>f. \<not> f64_nan f) (tracked_floats m)"
    and "ct_limit_low c = pm_control_low m" "ct_limit_high c = pm_control_high m"
    and "nts_display s = None" "nts_control s = Some c" "nts_value_alarm s = None"
  shows "meta_update_from now (NTScalar s) m = (False, m \<lparr> pm_min_step := ct_min_step c \<rparr>)"
proof -
  have 1: "apply_update_nt (NTScalar s) m = m \<lparr> pm_min_step := ct_min_step c \<rparr>"
    using assms by (simp add: apply_update_nt_def apply_optional_display_control_alarm_def
        when_some_def apply_control_def)
  have "\<not> differs_from (meta_snapshot_of m) (m \<lparr> pm_min_step := ct_min_step c \<rparr>)"
    using not_differs_self[OF assms(1)] by (simp add: differs_from_def tracked_floats_def)
  then show ?thesis
    by (simp add: meta_update_from_def Let_def 1)
qed

end
