(* ===== verification/Heartbeat.thy ===== *)
theory Heartbeat
  imports Normative SharedBuf
begin

text \<open>
  Heartbeats (\<open>aura-ingest/src/heartbeat.rs\<close>): the last archived value of every PV, and the
  scan that archives it again when the PV has been silent for its interval.  An \<open>Instant\<close> is
  a number of nanoseconds; the identity of the configuration snapshot is a number, never 0.
  \<open>f32\<close> arithmetic is that of the standard library, on bit patterns.
\<close>

section \<open>Single precision\<close>

definition round_half_even :: "nat \<Rightarrow> nat \<Rightarrow> nat" where
  "round_half_even p q =
    (let d = p div q; r = p mod q in
     if 2 * r > q \<or> (2 * r = q \<and> odd d) then d + 1 else d)"

text \<open>The magnitude bits of \<open>p / q\<close> rounded to nearest, ties to even; infinity on overflow.\<close>

definition f32_ratio :: "nat \<Rightarrow> nat \<Rightarrow> nat" where
  "f32_ratio p q =
    (if p = 0 then 0
     else
       (let d = int (flog2 p) - int (flog2 q);
            below = (if d \<ge> 0 then p < q * 2 ^ nat d else p * 2 ^ nat (- d) < q);
            e = max (if below then d - 1 else d) (- 126);
            sh = 23 - e;
            m = (if sh \<ge> 0 then round_half_even (p * 2 ^ nat sh) q
                 else round_half_even p (q * 2 ^ nat (- sh)))
        in min (nat (e + 126) * 2 ^ 23 + m) (255 * 2 ^ 23)))"

text \<open>A finite magnitude as a fraction.\<close>

definition f32_fraction :: "f32bits \<Rightarrow> nat \<times> nat" where
  "f32_fraction b =
    (if f32_exp b = 0 then (f32_frac b, 2 ^ 149)
     else if f32_exp b \<ge> 150 then ((2 ^ 23 + f32_frac b) * 2 ^ (f32_exp b - 150), 1)
     else (2 ^ 23 + f32_frac b, 2 ^ (150 - f32_exp b)))"

text \<open>\<open>f64 as f32\<close>.\<close>

definition f32_of_f64 :: "f64bits \<Rightarrow> f32bits" where
  "f32_of_f64 b =
    of_nat ((if f64_sign b then 2 ^ 31 else 0) +
      (if f64_exp b = 2047 then
         (if f64_frac b = 0 then 255 * 2 ^ 23
          else 255 * 2 ^ 23 + 2 ^ 22 + f64_frac b div 2 ^ 29 mod 2 ^ 22)
       else if f64_pow b \<ge> 0 then f32_ratio (f64_mant b * 2 ^ nat (f64_pow b)) 1
       else f32_ratio (f64_mant b) (2 ^ nat (- f64_pow b))))"

definition f32_nan :: "f32bits \<Rightarrow> bool" where
  "f32_nan b \<longleftrightarrow> f32_exp b = 255 \<and> f32_frac b \<noteq> 0"

definition f32_key :: "f32bits \<Rightarrow> int" where
  "f32_key b = (if f32_sign b then - int (unat b mod 2 ^ 31) else int (unat b mod 2 ^ 31))"

definition f32_le :: "f32bits \<Rightarrow> f32bits \<Rightarrow> bool" where
  "f32_le a b \<longleftrightarrow> \<not> f32_nan a \<and> \<not> f32_nan b \<and> f32_key a \<le> f32_key b"

definition f32_lt :: "f32bits \<Rightarrow> f32bits \<Rightarrow> bool" where
  "f32_lt a b \<longleftrightarrow> \<not> f32_nan a \<and> \<not> f32_nan b \<and> f32_key a < f32_key b"

text \<open>\<open>Duration::as_secs_f32\<close>: the seconds plus the nanoseconds over a billion, each step
  rounded; all operands are finite and not negative.\<close>

definition as_secs_f32 :: "nat \<Rightarrow> f32bits" where
  "as_secs_f32 ns =
    (let secs = f32_ratio (ns div 1000000000) 1;
         nanos = f32_ratio (ns mod 1000000000) 1;
         (np, nq) = f32_fraction (of_nat nanos);
         (qp, qq) = f32_fraction (of_nat (f32_ratio np (nq * 1000000000)));
         (sp, sq) = f32_fraction (of_nat secs)
     in of_nat (f32_ratio (sp * qq + qp * sq) (sq * qq)))"

definition f32_minus_one :: f32bits where "f32_minus_one = 0xBF800000"

section \<open>The tracker\<close>

definition MAX_PV_ID :: nat where "MAX_PV_ID = 2000000"

record heartbeat_entry =
  he_value :: f64bits
  he_severity :: "16 word"
  he_status :: "16 word"
  he_interval :: f32bits
  he_stored_at :: nat

definition new_inactive :: "nat \<Rightarrow> heartbeat_entry" where
  "new_inactive now =
    \<lparr> he_value = 0, he_severity = - 1, he_status = 0, he_interval = f32_minus_one, he_stored_at = now \<rparr>"

record heartbeat_tracker =
  ht_entries :: "heartbeat_entry list"
  ht_default :: f32bits
  ht_override :: bool
  ht_config :: nat

definition tracker_new :: "f64bits \<Rightarrow> heartbeat_tracker" where
  "tracker_new default_s =
    \<lparr> ht_entries = [], ht_default = f32_of_f64 default_s, ht_override = False, ht_config = 0 \<rparr>"

definition tracker_is_disabled :: "heartbeat_tracker \<Rightarrow> bool" where
  "tracker_is_disabled t \<longleftrightarrow> f32_le (ht_default t) 0 \<and> \<not> ht_override t"

text \<open>\<open>pv_id as usize\<close> sign-extends: a negative id is beyond every bound.\<close>

definition pv_index :: "32 word \<Rightarrow> nat" where
  "pv_index pv = unat (scast pv :: 64 word)"

definition grown :: "nat \<Rightarrow> 'a \<Rightarrow> 'a list \<Rightarrow> 'a list" where
  "grown i x xs = xs @ replicate (Suc i - length xs) x"

definition set_pv_heartbeat :: "nat \<Rightarrow> 32 word \<Rightarrow> f64bits \<Rightarrow> heartbeat_tracker \<Rightarrow> heartbeat_tracker" where
  "set_pv_heartbeat now pv hs t =
    (let i = pv_index pv in
     if i > MAX_PV_ID then t
     else
       (let es = grown i (new_inactive now) (ht_entries t) in
        t \<lparr> ht_entries := es[i := (es ! i) \<lparr> he_interval := f32_of_f64 hs \<rparr>],
            ht_override := (ht_override t \<or> f64_lt 0 hs) \<rparr>))"

text \<open>\<open>born\<close> is the clock of the entries created by growing, \<open>now\<close> the time of the store.\<close>

definition record_store ::
  "nat \<Rightarrow> 32 word \<Rightarrow> f64bits \<Rightarrow> 16 word \<Rightarrow> 16 word \<Rightarrow> nat \<Rightarrow> heartbeat_tracker \<Rightarrow> heartbeat_tracker" where
  "record_store born pv v sev st now t =
    (let i = pv_index pv in
     if i > MAX_PV_ID then t
     else
       (let es = grown i (new_inactive born) (ht_entries t) in
        t \<lparr> ht_entries := es[i := (es ! i) \<lparr> he_value := v, he_severity := (if sev <s 0 then 0 else sev),
                               he_status := st, he_stored_at := now \<rparr>] \<rparr>))"

definition effective_interval :: "f32bits \<Rightarrow> heartbeat_entry \<Rightarrow> f32bits" where
  "effective_interval default_hs e = (if f32_lt (he_interval e) 0 then default_hs else he_interval e)"

definition scan_entry ::
  "f32bits \<Rightarrow> 32 word set \<Rightarrow> nat \<Rightarrow> 64 word \<Rightarrow> nat \<Rightarrow> heartbeat_entry \<Rightarrow> heartbeat_entry \<times> scalar_row list" where
  "scan_entry default_hs active now pg_us i e =
    (let hs = effective_interval default_hs e in
     if f32_le hs 0 then (e, [])
     else if of_nat i \<notin> active then (e \<lparr> he_severity := - 1 \<rparr>, [])
     else if he_severity e <s 0 then (e, [])
     else if f32_lt (as_secs_f32 (now - he_stored_at e)) hs then (e, [])
     else (e \<lparr> he_stored_at := now \<rparr>,
           [scalar_from_parts pg_us (of_nat i) (he_value e) (he_severity e) (he_status e) SrHeartbeat]))"

primrec scan_entries where
  "scan_entries default_hs active now pg_us i [] = ([], [])"
| "scan_entries default_hs active now pg_us i (e # es) =
    (let (e', r) = scan_entry default_hs active now pg_us i e;
         (es', rs) = scan_entries default_hs active now pg_us (Suc i) es
     in (e' # es', r @ rs))"

type_synonym heartbeat_config = "nat \<times> (32 word \<times> f32bits) list"

definition reload_config :: "nat \<Rightarrow> heartbeat_config \<Rightarrow> heartbeat_tracker \<Rightarrow> heartbeat_tracker" where
  "reload_config now cfg t =
    (if fst cfg \<noteq> ht_config t then
       (fold (\<lambda>(pv, hs). set_pv_heartbeat now pv (f64_of_f32 hs)) (snd cfg) t) \<lparr> ht_config := fst cfg \<rparr>
     else t)"

definition scan_rows ::
  "heartbeat_config \<Rightarrow> 32 word set \<Rightarrow> nat \<Rightarrow> 64 word \<Rightarrow> heartbeat_tracker \<Rightarrow> scalar_row list \<times> heartbeat_tracker" where
  "scan_rows cfg active now pg_us t =
    (let t1 = reload_config now cfg t in
     if tracker_is_disabled t1 then ([], t1)
     else
       (case scan_entries (ht_default t1) active now pg_us 0 (ht_entries t1) of
          (es, rows) \<Rightarrow> (rows, t1 \<lparr> ht_entries := es \<rparr>)))"

text \<open>The rows are pushed one by one; a refused row still counts.\<close>

definition emit_heartbeats ::
  "heartbeat_config \<Rightarrow> 32 word set \<Rightarrow> nat \<Rightarrow> 64 word \<Rightarrow> heartbeat_tracker \<Rightarrow> ('dt, 'num) shared_buffer \<Rightarrow>
   nat \<times> heartbeat_tracker \<times> ('dt, 'num) shared_buffer" where
  "emit_heartbeats cfg active now pg_us t b =
    (case scan_rows cfg active now pg_us t of
       (rows, t') \<Rightarrow> (length rows, t', fold (\<lambda>r b. snd (push_scalar r b)) rows b))"

section \<open>Scans\<close>

lemma length_grown: "i < length (grown i x xs)" "length (grown i x xs) = max (length xs) (Suc i)"
  by (auto simp: grown_def)

lemma nth_grown: "j < length (grown i x xs) \<Longrightarrow> grown i x xs ! j = (if j < length xs then xs ! j else x)"
  by (auto simp: grown_def nth_append)

lemma scan_entries_nth:
  "fst (scan_entries d a now us k es) = map (\<lambda>(i, e). fst (scan_entry d a now us i e)) (zip [k..<k + length es] es)"
  "snd (scan_entries d a now us k es) = concat (map (\<lambda>(i, e). snd (scan_entry d a now us i e)) (zip [k..<k + length es] es))"
  by (induction es arbitrary: k) (simp_all add: split_beta upt_conv_Cons del: upt_Suc)

lemma length_scan_entries: "length (fst (scan_entries d a now us k es)) = length es"
  by (simp add: scan_entries_nth)

lemma scan_entries_row:
  "r \<in> set (snd (scan_entries d a now us k es)) \<longleftrightarrow>
    (\<exists>i < length es. r \<in> set (snd (scan_entry d a now us (k + i) (es ! i))))"
proof (induction es arbitrary: k)
  case (Cons e es)
  then show ?case
    by (simp add: split_beta Ex_less_Suc2)
qed simp

lemma scan_entries_entry:
  "i < length es \<Longrightarrow> fst (scan_entries d a now us k es) ! i = fst (scan_entry d a now us (k + i) (es ! i))"
  by (simp add: scan_entries_nth)

section \<open>Runs\<close>

datatype hb_op =
    HbStore nat "32 word" f64bits "16 word" "16 word" nat
  | HbScan heartbeat_config "32 word set" nat "64 word"

fun hb_step :: "hb_op \<Rightarrow> heartbeat_tracker \<Rightarrow> heartbeat_tracker" where
  "hb_step (HbStore born pv v sev st now) t = record_store born pv v sev st now t"
| "hb_step (HbScan cfg active now us) t = snd (scan_rows cfg active now us t)"

definition hb_run :: "f64bits \<Rightarrow> hb_op list \<Rightarrow> heartbeat_tracker" where
  "hb_run default_s ops = foldl (\<lambda>t x. hb_step x t) (tracker_new default_s) ops"

text \<open>The last value stored for a PV, a negative severity being stored as 0.\<close>

fun hb_note :: "hb_op \<Rightarrow> (32 word \<rightharpoonup> f64bits \<times> 16 word \<times> 16 word) \<Rightarrow> (32 word \<rightharpoonup> f64bits \<times> 16 word \<times> 16 word)" where
  "hb_note (HbStore born pv v sev st now) m = m(pv \<mapsto> (v, (if sev <s 0 then 0 else sev), st))"
| "hb_note (HbScan cfg active now us) m = m"

definition last_stored :: "hb_op list \<Rightarrow> (32 word \<rightharpoonup> f64bits \<times> 16 word \<times> 16 word)" where
  "last_stored ops = foldl (\<lambda>m x. hb_note x m) (\<lambda>_. None) ops"

definition entries_ok :: "(32 word \<rightharpoonup> f64bits \<times> 16 word \<times> 16 word) \<Rightarrow> heartbeat_entry list \<Rightarrow> bool" where
  "entries_ok m es \<longleftrightarrow> length es \<le> Suc MAX_PV_ID \<and>
    (\<forall>i < length es. \<not> he_severity (es ! i) <s 0 \<longrightarrow>
       m (of_nat i) = Some (he_value (es ! i), he_severity (es ! i), he_status (es ! i)))"

lemma of_nat_pv_index: "of_nat (pv_index pv) = pv"
proof -
  have "(ucast (scast pv :: 64 word) :: 32 word) = pv"
    by (rule bit_word_eqI) (auto simp: bit_simps)
  then show ?thesis
    by (simp add: pv_index_def)
qed

lemma pv_index_small: "i \<le> MAX_PV_ID \<Longrightarrow> pv_index (of_nat i) = i"
proof -
  assume i: "i \<le> MAX_PV_ID"
  have "sint (of_nat i :: 32 word) = int i"
    using i by (simp add: MAX_PV_ID_def signed_of_nat signed_take_bit_int_eq_self)
  then have "(scast (of_nat i :: 32 word) :: 64 word) = of_nat i"
    by (simp add: scast_eq)
  then show ?thesis
    using i by (simp add: pv_index_def MAX_PV_ID_def unat_of_nat)
qed

lemma inactive_severity [simp]: "he_severity (new_inactive n) <s 0"
  by (simp add: new_inactive_def word_sless_alt)

lemma entries_ok_grown:
  assumes "entries_ok m es" "i \<le> MAX_PV_ID"
  shows "entries_ok m (grown i (new_inactive n) es)"
  using assms by (auto simp: entries_ok_def nth_grown length_grown)

lemma entries_ok_interval:
  assumes "entries_ok m es"
  shows "entries_ok m (es[i := (es ! i) \<lparr> he_interval := hs \<rparr>])"
  using assms by (cases "i < length es") (auto simp: entries_ok_def nth_list_update)

lemma entries_ok_set:
  "entries_ok m (ht_entries t) \<Longrightarrow> entries_ok m (ht_entries (set_pv_heartbeat n pv hs t))"
  using entries_ok_interval[OF entries_ok_grown, of m "ht_entries t" "pv_index pv" n "pv_index pv"]
  by (simp add: set_pv_heartbeat_def Let_def)

lemma entries_ok_reload:
  "entries_ok m (ht_entries t) \<Longrightarrow> entries_ok m (ht_entries (reload_config n cfg t))"
proof -
  have "entries_ok m (ht_entries t) \<Longrightarrow>
      entries_ok m (ht_entries (fold (\<lambda>(pv, hs). set_pv_heartbeat n pv (f64_of_f32 hs)) ps t))" for ps t
    by (induction ps arbitrary: t) (auto intro: entries_ok_set)
  then show "entries_ok m (ht_entries t) \<Longrightarrow> ?thesis"
    by (simp add: reload_config_def)
qed

lemma entries_ok_store:
  assumes ok: "entries_ok m (ht_entries t)"
  shows "entries_ok (m(pv \<mapsto> (v, (if sev <s 0 then 0 else sev), st)))
    (ht_entries (record_store b pv v sev st n t))"
proof (cases "pv_index pv > MAX_PV_ID")
  case True
  have "of_nat i \<noteq> pv" if "i < length (ht_entries t)" for i
  proof
    assume "of_nat i = pv"
    then have "pv_index pv = i"
      using that ok pv_index_small[of i] by (auto simp: entries_ok_def)
    then show False
      using True that ok by (simp add: entries_ok_def)
  qed
  then show ?thesis
    using ok True by (auto simp: record_store_def entries_ok_def)
next
  case False
  let ?es = "grown (pv_index pv) (new_inactive b) (ht_entries t)"
  have g: "entries_ok m ?es" "pv_index pv < length ?es"
    using entries_ok_grown[OF ok, of "pv_index pv" b] False by (simp_all add: length_grown)
  let ?m = "m(pv \<mapsto> (v, (if sev <s 0 then 0 else sev), st))"
  let ?new = "(?es ! pv_index pv) \<lparr> he_value := v, he_severity := (if sev <s 0 then 0 else sev),
     he_status := st, he_stored_at := n \<rparr>"
  have "?m (of_nat i) = Some (he_value e, he_severity e, he_status e)"
    if "i < length ?es" "e = (?es[pv_index pv := ?new]) ! i" "\<not> he_severity e <s 0" for i e
  proof (cases "i = pv_index pv")
    case True
    then show ?thesis
      using that g by (simp add: of_nat_pv_index)
  next
    case False
    then have "of_nat i \<noteq> pv"
      using that g pv_index_small[of i] by (auto simp: entries_ok_def)
    then show ?thesis
      using that g False by (simp add: entries_ok_def)
  qed
  then show ?thesis
    using g False by (simp add: record_store_def Let_def entries_ok_def)
qed

lemma scan_entry_entry:
  "fst (scan_entry d a n us i e) = e \<or>
   fst (scan_entry d a n us i e) = e \<lparr> he_severity := - 1 \<rparr> \<or>
   fst (scan_entry d a n us i e) = e \<lparr> he_stored_at := n \<rparr>"
  by (simp add: scan_entry_def Let_def)

lemma entries_ok_scan:
  assumes "entries_ok m es"
  shows "entries_ok m (fst (scan_entries d a n us 0 es))"
proof -
  have "\<not> he_severity (fst (scan_entry d a n us i (es ! i))) <s 0 \<longrightarrow>
      m (of_nat i) = Some (he_value (fst (scan_entry d a n us i (es ! i))),
        he_severity (fst (scan_entry d a n us i (es ! i))), he_status (fst (scan_entry d a n us i (es ! i))))"
    if "i < length es" for i
    using scan_entry_entry[of d a n us i "es ! i"] assms that
    by (auto simp: entries_ok_def word_sless_alt)
  then show ?thesis
    using assms by (simp add: entries_ok_def length_scan_entries scan_entries_entry)
qed

lemma entries_ok_run: "entries_ok (last_stored ops) (ht_entries (hb_run d ops))"
proof (induction ops rule: rev_induct)
  case Nil
  then show ?case
    by (simp add: entries_ok_def hb_run_def tracker_new_def)
next
  case (snoc x xs)
  let ?t = "hb_run d xs"
  have ok: "entries_ok (last_stored xs) (ht_entries ?t)"
    by (rule snoc.IH)
  have "entries_ok (hb_note x (last_stored xs)) (ht_entries (hb_step x ?t))"
  proof (cases x)
    case (HbStore b pv v sev st n)
    then show ?thesis
      using entries_ok_store[OF ok] by simp
  next
    case (HbScan cfg a n us)
    have ok': "entries_ok (last_stored xs) (ht_entries (reload_config n cfg ?t))"
      by (rule entries_ok_reload[OF ok])
    show ?thesis
      using HbScan ok' entries_ok_scan[OF ok', of "ht_default (reload_config n cfg ?t)" a n us]
      by (simp add: scan_rows_def Let_def case_prod_unfold)
  qed
  then show ?case
    by (simp add: hb_run_def last_stored_def)
qed

lemma scan_entry_row:
  "r \<in> set (snd (scan_entry d a n us i e)) \<longleftrightarrow>
    \<not> f32_le (effective_interval d e) 0 \<and> of_nat i \<in> a \<and> \<not> he_severity e <s 0 \<and>
    \<not> f32_lt (as_secs_f32 (n - he_stored_at e)) (effective_interval d e) \<and>
    r = scalar_from_parts us (of_nat i) (he_value e) (he_severity e) (he_status e) SrHeartbeat"
  by (auto simp: scan_entry_def Let_def)

text \<open>C31. Whatever was stored and scanned before, every heartbeat of a scan is for a subscribed PV and
  repeats the value, the severity and the status last stored for it: a PV that was never
  stored gets none.\<close>

theorem heartbeats_repeat_the_last_value:
  assumes "r \<in> set (fst (scan_rows cfg active now us (hb_run default_s ops)))"
  shows "sr_pv_id r \<in> active \<and> sr_pg_us r = us \<and> sr_reason r = reason_i16 SrHeartbeat \<and>
    last_stored ops (sr_pv_id r) = Some (sr_value r, sr_severity r, sr_status r)"
proof -
  let ?t = "reload_config now cfg (hb_run default_s ops)"
  have ok: "entries_ok (last_stored ops) (ht_entries ?t)"
    by (rule entries_ok_reload[OF entries_ok_run])
  obtain i where "i < length (ht_entries ?t)"
    "r \<in> set (snd (scan_entry (ht_default ?t) active now us i (ht_entries ?t ! i)))"
    using assms by (auto simp: scan_rows_def Let_def scan_entries_row case_prod_unfold split: if_splits)
  then show ?thesis
    using ok by (auto simp: scan_entry_row scalar_from_parts_def entries_ok_def)
qed

text \<open>One second is one: the arithmetic of the example.\<close>

lemma f32_ratio_self: "0 < p \<Longrightarrow> f32_ratio p p = 0x3F800000"
  by (simp add: f32_ratio_def round_half_even_def Let_def)

lemma f32_ratio_zero: "f32_ratio 0 q = 0"
  by (simp add: f32_ratio_def)

lemma f32_fraction_one: "f32_fraction 0x3F800000 = (2 ^ 23, 2 ^ 23)"
  by (simp add: f32_fraction_def f32_exp_def f32_frac_def)

lemma f32_fraction_zero: "f32_fraction 0 = (0, 2 ^ 149)"
  by (simp add: f32_fraction_def f32_exp_def f32_frac_def)

lemma one_second: "as_secs_f32 1000000000 = 0x3F800000"
proof -
  have "f32_ratio (1000000000 div 1000000000) 1 = 0x3F800000"
    using f32_ratio_self[of 1] by simp
  then show ?thesis
    using f32_ratio_self[of "2 ^ 23 * 2 ^ 149"]
    by (simp add: as_secs_f32_def f32_fraction_one f32_fraction_zero f32_ratio_zero del: One_nat_def)
qed

lemma f64_one_as_f32: "f32_of_f64 0x3FF0000000000000 = 0x3F800000"
  by (simp add: f32_of_f64_def f64_sign_def f64_exp_def f64_pow_def f64_mant_def f64_frac_def f32_ratio_def
      round_half_even_def flog2.simps Let_def)

text \<open>PV 1 stored the value 9 with severity 2; the default interval is one second.\<close>

definition example_stores :: "hb_op list" where
  "example_stores = [HbStore 0 1 9 2 0 0]"

lemma example_tracker:
  "hb_run 0x3FF0000000000000 example_stores =
    \<lparr> ht_entries = [new_inactive 0, \<lparr> he_value = 9, he_severity = 2, he_status = 0, he_interval = f32_minus_one,
        he_stored_at = 0 \<rparr>],
      ht_default = 0x3F800000, ht_override = False, ht_config = 0 \<rparr>"
  by (simp add: hb_run_def example_stores_def tracker_new_def f64_one_as_f32 record_store_def pv_index_def
      MAX_PV_ID_def grown_def numeral_2_eq_2 word_sless_alt new_inactive_def Let_def)

lemma heartbeats_repeat_the_last_value_witness:
  "let r = scalar_from_parts 5 1 9 2 0 SrHeartbeat in
    r \<in> set (fst (scan_rows (0, []) {1} 1000000000 5 (hb_run 0x3FF0000000000000 example_stores))) \<and>
    last_stored example_stores 1 = Some (sr_value r, sr_severity r, sr_status r)"
proof -
  let ?r = "scalar_from_parts 5 1 9 2 0 SrHeartbeat"
  have r: "?r \<in> set (fst (scan_rows (0, []) {1} 1000000000 5 (hb_run 0x3FF0000000000000 example_stores)))"
    by (simp add: example_tracker scan_rows_def reload_config_def tracker_is_disabled_def scan_entry_def
        effective_interval_def new_inactive_def one_second f32_minus_one_def f32_le_def f32_lt_def f32_nan_def
        f32_exp_def f32_frac_def f32_key_def f32_sign_def word_sless_alt Let_def)
  from heartbeats_repeat_the_last_value[OF r] r show ?thesis
    by (simp add: scalar_from_parts_def Let_def)
qed

end
