(* ===== verification/Ingest.thy ===== *)
theory Ingest
  imports Dispatch Metadata Heartbeat Bus
begin

text \<open>
  The ingest threads (\<open>aura-ingest/src/converter.rs\<close>, \<open>engine.rs\<close>, \<open>thread.rs\<close>): every
  iteration drains a batch of tagged events, turns each into a row of the shared buffer (the
  three delta events directly, the others through the converter of the PV), counts, and from
  time to time publishes statistics and scans for heartbeats.  The cache of PV ids is a
  snapshot, a function from names; clocks, the lock of the metadata store and the snapshot are
  inputs.  The locals of a batch are natural numbers: a batch has at most 65536 events.
\<close>

section \<open>Converter and engine\<close>

record pv_converter =
  cv_pv_name :: rstring
  cv_extracted :: bool

definition converter_new :: "rstring \<Rightarrow> pv_converter" where
  "converter_new name = \<lparr> cv_pv_name = name, cv_extracted = False \<rparr>"

definition converter_reset :: "pv_converter \<Rightarrow> pv_converter" where
  "converter_reset c = c \<lparr> cv_extracted := False \<rparr>"

datatype ('dt, 'num) convert_result =
    CrUpdate "'num pv_update"
  | CrWithMetadata "'num pv_update" "'dt pv_metadata"
  | CrSkip

definition maybe_attach_metadata ::
  "'dt \<Rightarrow> 'num NormativeType \<Rightarrow> pv_converter \<Rightarrow> ('dt, 'num) convert_result \<times> pv_converter" where
  "maybe_attach_metadata now nt c =
    (let u = update_new (cv_pv_name c) nt in
     if \<not> cv_extracted c then
       (CrWithMetadata u (from_initial_update now (cv_pv_name c) (pu_data u)), c \<lparr> cv_extracted := True \<rparr>)
     else (CrUpdate u, c))"

definition convert_value ::
  "'dt \<Rightarrow> PvaValue \<Rightarrow> pv_converter \<Rightarrow> ('dt, 'num) convert_result \<times> pv_converter" where
  "convert_value now v c =
    (if pv_field (ascii ''value'') v = None then (CrSkip, c)
     else
       (case to_normative_from_value v of
          Some nt \<Rightarrow> maybe_attach_metadata now nt c
        | None \<Rightarrow> (CrSkip, c)))"

definition convert_event ::
  "'dt \<Rightarrow> MonitorEvent \<Rightarrow> pv_converter \<Rightarrow> ('dt, 'num) convert_result \<times> pv_converter" where
  "convert_event now ev c = (case ev of MeValue v \<Rightarrow> convert_value now v c | _ \<Rightarrow> (CrSkip, c))"

record 'dt ingest_engine =
  en_converters :: "(rstring \<times> pv_converter) list"
  en_pending :: "'dt pv_metadata list"
  en_events :: nat
  en_published :: nat
  en_skipped :: nat

definition engine_new :: "'dt ingest_engine" where
  "engine_new = \<lparr> en_converters = [], en_pending = [], en_events = 0, en_published = 0, en_skipped = 0 \<rparr>"

definition register_pv :: "rstring \<Rightarrow> 'dt ingest_engine \<Rightarrow> 'dt ingest_engine" where
  "register_pv name e =
    (if map_of (en_converters e) name = None
     then e \<lparr> en_converters := (name, converter_new name) # en_converters e \<rparr>
     else e)"

definition unregister_pv :: "rstring \<Rightarrow> 'dt ingest_engine \<Rightarrow> 'dt ingest_engine" where
  "unregister_pv name e = e \<lparr> en_converters := AList.delete name (en_converters e) \<rparr>"

definition process_event ::
  "'dt \<Rightarrow> rstring \<Rightarrow> MonitorEvent \<Rightarrow> 'dt ingest_engine \<Rightarrow> 'num pv_update option \<times> 'dt ingest_engine" where
  "process_event now name ev e0 =
    (let e = e0 \<lparr> en_events := en_events e0 + 1 \<rparr> in
     case map_of (en_converters e) name of
       None \<Rightarrow> (None, e \<lparr> en_skipped := en_skipped e + 1 \<rparr>)
     | Some c \<Rightarrow>
        (case convert_event now ev c of
           (r, c') \<Rightarrow>
             (let e1 = e \<lparr> en_converters := AList.update name c' (en_converters e) \<rparr> in
              case r of
                CrUpdate u \<Rightarrow> (Some u, e1 \<lparr> en_published := en_published e1 + 1 \<rparr>)
              | CrWithMetadata u m \<Rightarrow>
                  (Some u, e1 \<lparr> en_pending := en_pending e1 @ [m], en_published := en_published e1 + 1 \<rparr>)
              | CrSkip \<Rightarrow> (None, e1 \<lparr> en_skipped := en_skipped e1 + 1 \<rparr>))))"

section \<open>A shard\<close>

type_synonym pv_stats = "u64 \<times> f64bits \<times> 16 word"

record ('dt, 'num) ingest_shard =
  is_engine :: "'dt ingest_engine"
  is_buf :: "('dt, 'num) shared_buffer"
  is_stats :: "pv_stats list"
  is_hearts :: heartbeat_tracker
  is_events :: nat
  is_published :: nat
  is_fast :: nat
  is_slow :: nat
  is_unknown :: nat

definition MAX_STATS_ID :: nat where "MAX_STATS_ID = 1000000"

definition record_stats :: "32 word \<Rightarrow> f64bits \<Rightarrow> 16 word \<Rightarrow> pv_stats list \<Rightarrow> pv_stats list" where
  "record_stats pv v sev ss =
    (let i = pv_index pv in
     if i \<le> MAX_STATS_ID
     then (let es = grown i (0, 0, 0) ss in es[i := (fst (es ! i) + 1, v, sev)])
     else ss)"

definition resolve_id :: "(rstring \<Rightarrow> 32 word option) \<Rightarrow> 32 word \<Rightarrow> rstring \<Rightarrow> 32 word option" where
  "resolve_id cache pv name = (if 0 <s pv then Some pv else cache name)"

definition count_fast :: "('dt, 'num) ingest_shard \<Rightarrow> ('dt, 'num) ingest_shard" where
  "count_fast st = st \<lparr> is_events := is_events st + 1, is_published := is_published st + 1, is_fast := is_fast st + 1 \<rparr>"

definition count_unknown :: "('dt, 'num) ingest_shard \<Rightarrow> ('dt, 'num) ingest_shard" where
  "count_unknown st = st \<lparr> is_unknown := is_unknown st + 1 \<rparr>"

fun push_routed :: "('dt, 'num) routed \<Rightarrow> ('dt, 'num) shared_buffer \<Rightarrow> ('dt, 'num) shared_buffer" where
  "push_routed (RtScalar r) b = snd (push_scalar r b)"
| "push_routed (RtOther r) b = snd (push_other r b)"
| "push_routed RtDropped b = b"

text \<open>Clocks of a batch: \<open>bc_now\<close> is the instant at its start, \<open>bc_born\<close> the one at which the
  heartbeat entries grow, \<open>bc_utc\<close> the date of the metadata.\<close>

record 'dt batch_clock =
  bc_now :: nat
  bc_born :: nat
  bc_utc :: 'dt

definition ingest_scalar_delta ::
  "(rstring \<Rightarrow> 32 word option) \<Rightarrow> 'dt batch_clock \<Rightarrow> tagged_event \<Rightarrow> f64bits \<Rightarrow> 64 word \<Rightarrow> 32 word \<Rightarrow> 32 word \<Rightarrow>
   32 word \<Rightarrow> ('dt, 'num) ingest_shard \<Rightarrow> ('dt, 'num) ingest_shard" where
  "ingest_scalar_delta cache ck tg v seconds nanos sev status st =
    (case resolve_id cache (te_pv_id tg) (te_pv_name tg) of
       None \<Rightarrow> count_unknown st
     | Some pv \<Rightarrow>
         count_fast (st \<lparr>
           is_buf := snd (push_scalar (scalar_from_epoch seconds nanos pv v (ucast sev) (ucast status) SrValueChanged) (is_buf st)),
           is_stats := record_stats pv v (ucast sev) (is_stats st),
           is_hearts := record_store (bc_born ck) pv v (ucast sev) (ucast status) (bc_now ck) (is_hearts st) \<rparr>))"

definition ingest_string_delta where
  "ingest_string_delta cal cache tg v seconds nanos sev status st =
    (case resolve_id cache (te_pv_id tg) (te_pv_name tg) of
       None \<Rightarrow> count_unknown st
     | Some pv \<Rightarrow>
         count_fast (st \<lparr> is_buf := snd (push_other
           (WrString (string_from_epoch cal seconds nanos pv v (ucast sev) (ucast status))) (is_buf st)) \<rparr>))"

definition ingest_array_delta where
  "ingest_array_delta cal cache tg vs seconds nanos sev status st =
    (case resolve_id cache (te_pv_id tg) (te_pv_name tg) of
       None \<Rightarrow> count_unknown st
     | Some pv \<Rightarrow>
         count_fast (st \<lparr> is_buf := snd (push_other
           (WrArray (numeric_capture (cal_at cal seconds nanos) pv (ucast sev) (ucast status) vs)) (is_buf st)) \<rparr>))"

text \<open>An aggregate that serialises leaves the body before it is counted.\<close>

definition slow_counted :: "'num serialiser \<Rightarrow> 'num NormativeType \<Rightarrow> nat" where
  "slow_counted se nt = (if is_aggregate nt \<and> se_to_value se nt \<noteq> None then 0 else 1)"

definition ingest_slow ::
  "'dt calendar \<Rightarrow> 'num serialiser \<Rightarrow> (rstring \<Rightarrow> 32 word option) \<Rightarrow> 'dt batch_clock \<Rightarrow> tagged_event \<Rightarrow>
   ('dt, 'num) ingest_shard \<Rightarrow> ('dt, 'num) ingest_shard" where
  "ingest_slow cal se cache ck tg st0 =
    (case process_event (bc_utc ck) (te_pv_name tg) (te_event tg) (is_engine st0) of
       (r, e) \<Rightarrow>
         (let st = st0 \<lparr> is_slow := is_slow st0 + 1, is_engine := e \<rparr> in
          case r of
            None \<Rightarrow> st
          | Some u \<Rightarrow>
             (case resolve_id cache (te_pv_id tg) (pu_pv_name u) of
                None \<Rightarrow> count_unknown st
              | Some pv \<Rightarrow>
                  st \<lparr> is_buf := push_routed (slow_route cal se u pv) (is_buf st),
                       is_published := is_published st + slow_counted se (pu_data u) \<rparr>)))"

definition ingest_event ::
  "'dt calendar \<Rightarrow> 'num serialiser \<Rightarrow> (rstring \<Rightarrow> 32 word option) \<Rightarrow> 'dt batch_clock \<Rightarrow> tagged_event \<Rightarrow>
   ('dt, 'num) ingest_shard \<Rightarrow> ('dt, 'num) ingest_shard" where
  "ingest_event cal se cache ck tg st =
    (case te_event tg of
       MeScalarDelta v s n sev status \<Rightarrow> ingest_scalar_delta cache ck tg v s n sev status st
     | MeStringDelta v s n sev status \<Rightarrow> ingest_string_delta cal cache tg v s n sev status st
     | MeArrayDelta vs s n sev status \<Rightarrow> ingest_array_delta cal cache tg vs s n sev status st
     | _ \<Rightarrow> ingest_slow cal se cache ck tg st)"

definition ingest_batch where
  "ingest_batch cal se cache ck evs st =
    fold (ingest_event cal se cache ck) evs
      (st \<lparr> is_events := 0, is_published := 0, is_fast := 0, is_slow := 0, is_unknown := 0 \<rparr>)"

section \<open>The end of an iteration\<close>

record ingest_metrics =
  im_received :: u64
  im_published :: u64
  im_skipped :: u64
  im_fast :: u64
  im_slow :: u64
  im_unknown :: u64

text \<open>The counters of the batch are added to the shared ones and the engine's are reset.\<close>

definition flush_metrics ::
  "('dt, 'num) ingest_shard \<Rightarrow> ingest_metrics \<Rightarrow> ('dt, 'num) ingest_shard \<times> ingest_metrics" where
  "flush_metrics st m =
    (let e = is_engine st in
     (st \<lparr> is_engine := e \<lparr> en_events := 0, en_published := 0, en_skipped := 0 \<rparr> \<rparr>,
      \<lparr> im_received = im_received m + of_nat (en_events e + is_events st),
        im_published = im_published m + of_nat (en_published e + is_published st),
        im_skipped = im_skipped m + of_nat (en_skipped e),
        im_fast = im_fast m + of_nat (is_fast st),
        im_slow = im_slow m + of_nat (is_slow st),
        im_unknown = im_unknown m + of_nat (is_unknown st) \<rparr>))"

text \<open>The metadata goes to the shared store when its lock can be taken, else it waits.\<close>

definition flush_metadata ::
  "bool \<Rightarrow> ('dt, 'num) ingest_shard \<Rightarrow> 'dt pv_metadata list \<Rightarrow> ('dt, 'num) ingest_shard \<times> 'dt pv_metadata list" where
  "flush_metadata lock_ok st meta =
    (let e = is_engine st in
     if en_pending e \<noteq> [] \<and> lock_ok
     then (st \<lparr> is_engine := e \<lparr> en_pending := [] \<rparr> \<rparr>, meta @ en_pending e)
     else (st, meta))"

definition stats_snapshot :: "pv_stats list \<Rightarrow> (32 word \<times> pv_stats) list" where
  "stats_snapshot ss = map (\<lambda>(i, x). (of_nat i, x)) (filter (\<lambda>(i, x). 0 < fst x) (zip [0..<length ss] ss))"

text \<open>Every 30 seconds: the snapshot goes to the sink when it is not empty and the lock can be
  taken; the counts restart when it is not empty.\<close>

definition flush_stats ::
  "bool \<Rightarrow> pv_stats list \<Rightarrow> (32 word \<times> pv_stats) list list \<Rightarrow> pv_stats list \<times> (32 word \<times> pv_stats) list list" where
  "flush_stats lock_ok ss sink =
    (if stats_snapshot ss = [] then (ss, sink)
     else (map (\<lambda>(c, v, sev). (0, v, sev)) ss, if lock_ok then sink @ [stats_snapshot ss] else sink))"

definition heartbeat_scan ::
  "heartbeat_config \<Rightarrow> 32 word set \<Rightarrow> nat \<Rightarrow> 64 word \<Rightarrow> ('dt, 'num) ingest_shard \<Rightarrow> ingest_metrics \<Rightarrow>
   ('dt, 'num) ingest_shard \<times> ingest_metrics" where
  "heartbeat_scan cfg active now us st m =
    (case emit_heartbeats cfg active now us (is_hearts st) (is_buf st) of
       (n, t, b) \<Rightarrow> (st \<lparr> is_hearts := t, is_buf := b \<rparr>, m \<lparr> im_published := im_published m + of_nat n \<rparr>))"

text \<open>One iteration of the thread: a batch, its counters, and what is due.  The result is false
  when an idle thread finds the shutdown flag; how long an idle thread sleeps is left out.\<close>

record 'dt ingest_shared =
  ig_metrics :: ingest_metrics
  ig_metadata :: "'dt pv_metadata list"
  ig_stats_sink :: "(32 word \<times> pv_stats) list list"

record 'dt ingest_input =
  ii_events :: "tagged_event list"
  ii_cache :: "rstring \<Rightarrow> 32 word option"
  ii_clock :: "'dt batch_clock"
  ii_metadata_lock :: bool
  ii_stats_due :: bool
  ii_stats_lock :: bool
  ii_scan :: "(heartbeat_config \<times> 32 word set \<times> nat \<times> 64 word) option"
  ii_shutdown :: bool

definition ingest_iteration ::
  "'dt calendar \<Rightarrow> 'num serialiser \<Rightarrow> 'dt ingest_input \<Rightarrow> ('dt, 'num) ingest_shard \<Rightarrow> 'dt ingest_shared \<Rightarrow>
   bool \<times> ('dt, 'num) ingest_shard \<times> 'dt ingest_shared" where
  "ingest_iteration cal se i st g =
    (let st1 = ingest_batch cal se (ii_cache i) (ii_clock i) (ii_events i) st;
         (st2, m1) = flush_metrics st1 (ig_metrics g);
         (st3, meta) = flush_metadata (ii_metadata_lock i) st2 (ig_metadata g);
         (stats, sink) = (if ii_stats_due i then flush_stats (ii_stats_lock i) (is_stats st3) (ig_stats_sink g)
                          else (is_stats st3, ig_stats_sink g));
         st4 = st3 \<lparr> is_stats := stats \<rparr>;
         (st5, m2) = (case ii_scan i of
             None \<Rightarrow> (st4, m1)
           | Some (cfg, active, now, us) \<Rightarrow> heartbeat_scan cfg active now us st4 m1)
     in (\<not> (is_events st5 = 0 \<and> is_slow st5 = 0 \<and> ii_shutdown i), st5,
         \<lparr> ig_metrics = m2, ig_metadata = meta, ig_stats_sink = sink \<rparr>))"

section \<open>The rows of a batch\<close>

text \<open>What a tagged event stands for, given the names that have a converter: the row it is
  archived as, if any.\<close>

definition event_rows ::
  "'dt calendar \<Rightarrow> 'num serialiser \<Rightarrow> (rstring \<Rightarrow> 32 word option) \<Rightarrow> rstring set \<Rightarrow> tagged_event \<Rightarrow>
   ('dt, 'num) routed list" where
  "event_rows cal se cache known tg =
    (let route = (\<lambda>f. case resolve_id cache (te_pv_id tg) (te_pv_name tg) of None \<Rightarrow> [] | Some pv \<Rightarrow> [f pv]) in
     case te_event tg of
       MeScalarDelta v s n sev status \<Rightarrow>
         route (\<lambda>pv. RtScalar (scalar_from_epoch s n pv v (ucast sev) (ucast status) SrValueChanged))
     | MeStringDelta v s n sev status \<Rightarrow>
         route (\<lambda>pv. RtOther (WrString (string_from_epoch cal s n pv v (ucast sev) (ucast status))))
     | MeArrayDelta vs s n sev status \<Rightarrow>
         route (\<lambda>pv. RtOther (WrArray (numeric_capture (cal_at cal s n) pv (ucast sev) (ucast status) vs)))
     | MeValue v \<Rightarrow>
         (if te_pv_name tg \<in> known then
            (case to_normative_from_value v of
               Some nt \<Rightarrow> route (slow_route cal se (update_new (te_pv_name tg) nt))
             | None \<Rightarrow> [])
          else [])
     | _ \<Rightarrow> [])"

fun routed_scalar :: "('dt, 'num) routed \<Rightarrow> scalar_row list" where
  "routed_scalar (RtScalar r) = [r]" | "routed_scalar _ = []"

fun routed_other :: "('dt, 'num) routed \<Rightarrow> ('dt, 'num) WriterRow list" where
  "routed_other (RtOther r) = [r]" | "routed_other _ = []"

definition scalars_in where "scalars_in rows = concat (map routed_scalar rows)"
definition others_in where "others_in rows = concat (map routed_other rows)"

definition known_pvs :: "'dt ingest_engine \<Rightarrow> rstring set" where
  "known_pvs e = fst ` set (en_converters e)"

definition engine_ok :: "'dt ingest_engine \<Rightarrow> bool" where
  "engine_ok e \<longleftrightarrow> (\<forall>n c. map_of (en_converters e) n = Some c \<longrightarrow> cv_pv_name c = n)"

section \<open>Lemmas\<close>

lemma engine_ok_new: "engine_ok engine_new"
  by (simp add: engine_ok_def engine_new_def)

lemma engine_ok_register: "engine_ok e \<Longrightarrow> engine_ok (register_pv n e)"
  by (simp add: engine_ok_def register_pv_def converter_new_def)

lemma engine_ok_unregister: "engine_ok e \<Longrightarrow> engine_ok (unregister_pv n e)"
  by (auto simp: engine_ok_def unregister_pv_def delete_conv' split: if_splits)

lemma known_iff: "n \<in> known_pvs e \<longleftrightarrow> map_of (en_converters e) n \<noteq> None"
  by (force simp: known_pvs_def map_of_eq_None_iff)

lemma known_map: "known_pvs e = dom (map_of (en_converters e))"
  by (auto simp: known_iff)

lemma convert_event_name: "cv_pv_name (snd (convert_event now ev c)) = cv_pv_name c"
  by (simp add: convert_event_def convert_value_def maybe_attach_metadata_def Let_def
      split: MonitorEvent.split option.split)

definition event_normative :: "MonitorEvent \<Rightarrow> 'num NormativeType option" where
  "event_normative ev = (case ev of MeValue v \<Rightarrow> to_normative_from_value v | _ \<Rightarrow> None)"

lemma no_value_no_normative: "pv_field (ascii ''value'') v = None \<Longrightarrow> to_normative_from_value v = None"
  by (simp add: to_normative_from_value_def)

lemma convert_event_eq:
  "convert_event now ev c =
    (case event_normative ev of None \<Rightarrow> (CrSkip, c) | Some nt \<Rightarrow> maybe_attach_metadata now nt c)"
  by (cases ev)
    (auto simp: event_normative_def convert_event_def convert_value_def no_value_no_normative split: option.splits)

lemma known_update:
  "map_of (en_converters e) n = Some c \<Longrightarrow>
   known_pvs (e \<lparr> en_converters := AList.update n c' (en_converters e) \<rparr>) = known_pvs e"
  by (auto simp: known_map update_conv')

lemma process_event_unknown:
  assumes "n \<notin> known_pvs e"
  shows "process_event now n ev e =
    (None, e \<lparr> en_events := en_events e + 1, en_skipped := en_skipped e + 1 \<rparr>)"
  using assms by (simp add: known_iff process_event_def Let_def)

text \<open>What an event does to the engine, and the update it yields.\<close>

lemma process_event_result:
  fixes u :: "'num pv_update option" and e :: "'dt ingest_engine"
  assumes ok: "engine_ok e" and u: "process_event now n ev e = (u, e')"
  shows "u = (if n \<in> known_pvs e then map_option (update_new n) (event_normative ev) else None) \<and>
    engine_ok e' \<and> known_pvs e' = known_pvs e \<and> en_events e' = en_events e + 1 \<and>
    en_skipped e' = en_skipped e + (if u = None then 1 else 0) \<and>
    en_published e' = en_published e + (if u = None then 0 else 1)"
proof (cases "n \<in> known_pvs e")
  case False
  then show ?thesis
    using u ok by (auto simp: process_event_unknown engine_ok_def known_pvs_def)
next
  case True
  then obtain c where c: "map_of (en_converters e) n = Some c"
    by (auto simp: known_iff)
  have nm: "cv_pv_name c = n"
    using c ok by (simp add: engine_ok_def)
  obtain r :: "('dt, 'num) convert_result" and c' where conv: "convert_event now ev c = (r, c')"
    by (cases "convert_event now ev c :: ('dt, 'num) convert_result \<times> pv_converter")
  then have nm': "cv_pv_name c' = n"
    using nm convert_event_name[of now ev c] conv by (metis snd_conv)
  let ?cs = "AList.update n c' (en_converters e)"
  have cs: "engine_ok x \<and> known_pvs x = known_pvs e" if "en_converters x = ?cs" for x
    using that ok nm' c by (auto simp: engine_ok_def update_conv' known_map)
  show ?thesis
  proof (cases "event_normative ev :: 'num NormativeType option")
    case None
    then have "u = None \<and> en_converters e' = ?cs \<and> en_events e' = en_events e + 1 \<and>
        en_published e' = en_published e \<and> en_skipped e' = en_skipped e + 1"
      using u c conv by (auto simp: process_event_def Let_def convert_event_eq)
    then show ?thesis
      using None True by (auto simp: cs)
  next
    case (Some nt)
    then have "u = Some (update_new n nt) \<and> en_converters e' = ?cs \<and> en_events e' = en_events e + 1 \<and>
        en_published e' = en_published e + 1 \<and> en_skipped e' = en_skipped e"
      using u c conv nm
      by (cases "cv_extracted c") (auto simp: process_event_def Let_def convert_event_eq maybe_attach_metadata_def)
    then show ?thesis
      using Some True by (auto simp: cs)
  qed
qed

section \<open>Batches\<close>

lemma from_value_kind:
  "to_normative_from_value v = Some nt \<Longrightarrow>
    (\<exists>s. nt = NTScalar s) \<or> (\<exists>e. nt = NTEnum e) \<or> (\<exists>a. nt = NTScalarArray a)"
  by (auto simp: to_normative_from_value_def convert_nt_scalar_def convert_nt_scalar_fallback_def
      convert_nt_enum_def convert_nt_scalar_array_def nt_scalar_of_def bind_eq_Some_conv
      split: if_splits option.splits PvaValue.splits)

lemma event_normative_kind:
  "event_normative ev = Some nt \<Longrightarrow> \<not> is_aggregate nt \<and> slow_route cal se (update_new n nt) pv \<noteq> RtDropped"
  by (auto simp: event_normative_def slow_route_def update_new_def Let_def dest: from_value_kind
      split: MonitorEvent.splits)

fun is_delta :: "MonitorEvent \<Rightarrow> bool" where
  "is_delta (MeScalarDelta _ _ _ _ _) = True" | "is_delta (MeStringDelta _ _ _ _ _) = True"
| "is_delta (MeArrayDelta _ _ _ _ _) = True" | "is_delta _ = False"

lemma event_rows_slow:
  assumes "\<not> is_delta (te_event tg)"
  shows "event_rows cal se cache known tg =
    (if te_pv_name tg \<in> known then
       (case event_normative (te_event tg) of
          None \<Rightarrow> []
        | Some nt \<Rightarrow>
           (case resolve_id cache (te_pv_id tg) (te_pv_name tg) of
              None \<Rightarrow> [] | Some pv \<Rightarrow> [slow_route cal se (update_new (te_pv_name tg) nt) pv]))
     else [])"
  using assms by (cases "te_event tg") (auto simp: event_rows_def event_normative_def Let_def split: option.splits)

text \<open>How one event moves a shard.\<close>

definition event_moves where
  "event_moves rows st st' \<longleftrightarrow>
    is_buf st' = fold push_routed rows (is_buf st) \<and> RtDropped \<notin> set rows \<and>
    engine_ok (is_engine st') \<and> known_pvs (is_engine st') = known_pvs (is_engine st) \<and>
    is_published st' = is_published st + length rows \<and>
    is_published st' + is_unknown st' + en_skipped (is_engine st') =
      is_published st + is_unknown st + en_skipped (is_engine st) + 1"

lemma ingest_slow_moves:
  fixes st :: "('dt, 'num) ingest_shard"
  assumes ok: "engine_ok (is_engine st)"
    and rows: "rows = (if te_pv_name tg \<in> known_pvs (is_engine st) then
       (case event_normative (te_event tg) of
          None \<Rightarrow> []
        | Some nt \<Rightarrow>
           (case resolve_id cache (te_pv_id tg) (te_pv_name tg) of
              None \<Rightarrow> [] | Some pv \<Rightarrow> [slow_route cal se (update_new (te_pv_name tg) nt) pv]))
     else [])"
  shows "event_moves rows st (ingest_slow cal se cache ck tg st)"
proof -
  obtain u :: "'num pv_update option" and e where
    p: "process_event (bc_utc ck) (te_pv_name tg) (te_event tg) (is_engine st) = (u, e)"
    by fastforce
  note r = process_event_result[OF ok p]
  show ?thesis
  proof (cases u)
    case None
    then have "rows = []"
      using r rows by (auto split: if_splits option.splits)
    then show ?thesis
      using None p r by (simp add: event_moves_def ingest_slow_def)
  next
    case (Some v)
    then obtain nt where nt: "te_pv_name tg \<in> known_pvs (is_engine st)"
      "event_normative (te_event tg) = Some nt" "v = update_new (te_pv_name tg) nt"
      using r by (auto split: if_splits)
    have name: "pu_pv_name v = te_pv_name tg" "pu_data v = nt"
      by (simp_all add: nt update_new_def)
    have k: "\<not> is_aggregate nt" "slow_route cal se v pv \<noteq> RtDropped" for pv
      using event_normative_kind[OF nt(2)] nt(3) by auto
    show ?thesis
      using Some p r rows nt k k(2)[symmetric] by (simp add: event_moves_def ingest_slow_def Let_def name update_new_def slow_counted_def count_unknown_def
          split: option.splits)
  qed
qed

lemma ingest_event_moves:
  assumes ok: "engine_ok (is_engine st)"
  shows "event_moves (event_rows cal se cache (known_pvs (is_engine st)) tg) st (ingest_event cal se cache ck tg st)"
proof (cases "te_event tg")
  case (MeScalarDelta v s n sev status)
  then show ?thesis
    using ok by (simp add: event_moves_def ingest_event_def ingest_scalar_delta_def event_rows_def Let_def
        count_fast_def count_unknown_def split: option.split)
next
  case (MeStringDelta v s n sev status)
  then show ?thesis
    using ok by (simp add: event_moves_def ingest_event_def ingest_string_delta_def event_rows_def Let_def
        count_fast_def count_unknown_def split: option.split)
next
  case (MeArrayDelta v s n sev status)
  then show ?thesis
    using ok by (simp add: event_moves_def ingest_event_def ingest_array_delta_def event_rows_def Let_def
        count_fast_def count_unknown_def split: option.split)
qed (use ingest_slow_moves[OF ok event_rows_slow] in \<open>simp_all add: ingest_event_def\<close>)

lemma ingest_fold_moves:
  assumes "engine_ok (is_engine st)" "st' = fold (ingest_event cal se cache ck) evs st"
    "rows = concat (map (event_rows cal se cache (known_pvs (is_engine st))) evs)"
  shows "is_buf st' = fold push_routed rows (is_buf st) \<and> RtDropped \<notin> set rows \<and>
    is_published st' = is_published st + length rows \<and>
    is_published st' + is_unknown st' + en_skipped (is_engine st') =
      is_published st + is_unknown st + en_skipped (is_engine st) + length evs"
  using assms
proof (induction evs arbitrary: st rows)
  case (Cons tg evs)
  let ?st1 = "ingest_event cal se cache ck tg st"
  have m: "event_moves (event_rows cal se cache (known_pvs (is_engine st)) tg) st ?st1"
    by (rule ingest_event_moves[OF Cons.prems(1)])
  then have k: "known_pvs (is_engine ?st1) = known_pvs (is_engine st)" "engine_ok (is_engine ?st1)"
    by (simp_all add: event_moves_def)
  show ?case
    using Cons.IH[OF k(2) _ refl] Cons.prems(2,3) m by (simp add: k(1) event_moves_def)
qed simp

lemma push_routed_fold:
  assumes "length (sb_scalars b) \<le> m" "length (sb_others b) \<le> m" "sb_max_len b = m"
  shows "sb_scalars (fold push_routed rows b) =
      sb_scalars b @ take (m - length (sb_scalars b)) (scalars_in rows)"
    "sb_others (fold push_routed rows b) = sb_others b @ take (m - length (sb_others b)) (others_in rows)"
    "sb_dropped (fold push_routed rows b) = sb_dropped b +
      of_nat ((length (scalars_in rows) - (m - length (sb_scalars b))) +
              (length (others_in rows) - (m - length (sb_others b))))"
proof -
  have "sb_scalars (fold push_routed rows b) =
      sb_scalars b @ take (m - length (sb_scalars b)) (scalars_in rows) \<and>
    sb_others (fold push_routed rows b) = sb_others b @ take (m - length (sb_others b)) (others_in rows) \<and>
    sb_dropped (fold push_routed rows b) = sb_dropped b +
      of_nat ((length (scalars_in rows) - (m - length (sb_scalars b))) +
              (length (others_in rows) - (m - length (sb_others b))))"
    using assms
  proof (induction rows arbitrary: b)
    case Nil
    then show ?case
      by (simp add: scalars_in_def others_in_def)
  next
    case (Cons r rows)
    show ?case
    proof (cases r)
      case (RtScalar x)
      then show ?thesis
        using Cons.prems Cons.IH[of "snd (push_scalar x b)"] scalars.held_push[of x b] scalars.limit_push[of x b]
          push_scalar_rest[of x b]
        by (cases "length (sb_scalars b) < m")
          (auto simp: scalars_in_def others_in_def take_Cons' algebra_simps)
    next
      case (RtOther x)
      then show ?thesis
        using Cons.prems Cons.IH[of "snd (push_other x b)"] others.held_push[of x b] others.limit_push[of x b]
          push_other_rest[of x b]
        by (cases "length (sb_others b) < m")
          (auto simp: scalars_in_def others_in_def take_Cons' algebra_simps)
    next
      case RtDropped
      then show ?thesis
        using Cons.prems Cons.IH[of b] by (simp add: scalars_in_def others_in_def)
    qed
  qed
  then show "sb_scalars (fold push_routed rows b) =
      sb_scalars b @ take (m - length (sb_scalars b)) (scalars_in rows)"
    "sb_others (fold push_routed rows b) = sb_others b @ take (m - length (sb_others b)) (others_in rows)"
    "sb_dropped (fold push_routed rows b) = sb_dropped b +
      of_nat ((length (scalars_in rows) - (m - length (sb_scalars b))) +
              (length (others_in rows) - (m - length (sb_others b))))"
    by simp_all
qed

lemma rows_of_two_kinds: "RtDropped \<notin> set rows \<Longrightarrow> length rows = length (scalars_in rows) + length (others_in rows)"
proof (induction rows)
  case (Cons r rows)
  then show ?case
    by (cases r) (auto simp: scalars_in_def others_in_def)
qed (simp add: scalars_in_def others_in_def)

text \<open>C3. A batch of events appends to the two queues of the shared buffer exactly the rows its events
  stand for, in the order of the events, as far as the bound allows, and counts the others as
  dropped; every event is published, of an unknown PV or skipped by its converter, once, and
  the published ones are the rows.\<close>

theorem ingest_batch_archives_its_events:
  assumes "engine_ok (is_engine st)"
    and "length (sb_scalars (is_buf st)) \<le> sb_max_len (is_buf st)"
    and "length (sb_others (is_buf st)) \<le> sb_max_len (is_buf st)"
  shows "let st' = ingest_batch cal se cache ck evs st; b = is_buf st; b' = is_buf st'; m = sb_max_len b;
      rows = concat (map (event_rows cal se cache (known_pvs (is_engine st))) evs) in
    sb_scalars b' = sb_scalars b @ take (m - length (sb_scalars b)) (scalars_in rows) \<and>
    sb_others b' = sb_others b @ take (m - length (sb_others b)) (others_in rows) \<and>
    sb_dropped b' = sb_dropped b +
      of_nat ((length (scalars_in rows) - (m - length (sb_scalars b))) +
              (length (others_in rows) - (m - length (sb_others b)))) \<and>
    is_published st' = length (scalars_in rows) + length (others_in rows) \<and>
    is_published st' + is_unknown st' + en_skipped (is_engine st') =
      en_skipped (is_engine st) + length evs"
proof -
  let ?st = "st \<lparr> is_events := 0, is_published := 0, is_fast := 0, is_slow := 0, is_unknown := 0 \<rparr>"
  define st' where "st' = ingest_batch cal se cache ck evs st"
  define rows where "rows = concat (map (event_rows cal se cache (known_pvs (is_engine st))) evs)"
  have m: "is_buf st' = fold push_routed rows (is_buf st)" "RtDropped \<notin> set rows"
    "is_published st' = length rows"
    "is_published st' + is_unknown st' + en_skipped (is_engine st') = en_skipped (is_engine st) + length evs"
    using ingest_fold_moves[of ?st st' cal se cache ck evs rows] assms(1)
    by (simp_all add: st'_def rows_def ingest_batch_def)
  show ?thesis
    unfolding st'_def[symmetric] rows_def[symmetric] Let_def m(1)
    using push_routed_fold[OF assms(2,3) refl, of rows] rows_of_two_kinds[OF m(2)] m(3,4) by simp
qed

text \<open>A shard for examples: one converter, a buffer of the given bound, nothing counted.\<close>

definition example_shard :: "nat \<Rightarrow> (64 word, unit) ingest_shard" where
  "example_shard m =
    \<lparr> is_engine = register_pv (ascii ''pv'') engine_new, is_buf = sb_new m, is_stats = [],
      is_hearts = tracker_new 0, is_events = 0, is_published = 0, is_fast = 0, is_slow = 0, is_unknown = 0 \<rparr>"

definition example_serialiser :: "unit serialiser" where
  "example_serialiser = \<lparr> se_to_vec = \<lambda>_. None, se_to_value = \<lambda>_. None \<rparr>"

definition example_events :: "tagged_event list" where
  "example_events =
    [\<lparr> te_pv_name = ascii ''pv'', te_pv_id = 7, te_event = MeScalarDelta 0 1000000000 0 0 0 \<rparr>,
     \<lparr> te_pv_name = ascii ''pv'', te_pv_id = 7, te_event = MeScalarDelta 1 1000000001 0 0 0 \<rparr>,
     \<lparr> te_pv_name = ascii ''other'', te_pv_id = 0, te_event = MeScalarDelta 1 1000000001 0 0 0 \<rparr>,
     \<lparr> te_pv_name = ascii ''pv'', te_pv_id = 7, te_event = MeDisconnect \<rparr>]"

definition example_clock :: "64 word batch_clock" where
  "example_clock = \<lparr> bc_now = 0, bc_born = 0, bc_utc = 0 \<rparr>"

lemma example_shard_ok: "engine_ok (is_engine (example_shard m))"
  by (simp add: example_shard_def engine_ok_register engine_ok_new)

text \<open>A bound of one: the second row is dropped and counted, the third event is of an unknown PV,
  the last is skipped.\<close>

lemma ingest_batch_archives_its_events_witness:
  "let st' = ingest_batch second_calendar example_serialiser (\<lambda>_. None) example_clock example_events (example_shard 1) in
    sb_scalars (is_buf st') = [scalar_from_epoch 1000000000 0 7 0 0 0 SrValueChanged] \<and>
    sb_dropped (is_buf st') = 1 \<and> is_published st' = 2"
  using ingest_batch_archives_its_events[OF example_shard_ok, of 1 second_calendar example_serialiser "\<lambda>_. None"
      example_clock example_events]
  by (simp add: Let_def example_events_def event_rows_def resolve_id_def scalars_in_def others_in_def
      example_shard_def sb_new_def word_sless_alt)

text \<open>An event archived through its converter is counted twice in \<open>events_published\<close>: by the
  engine and by the thread.\<close>

lemma slow_events_published_twice:
  fixes st :: "('dt, 'num) ingest_shard" and nt :: "'num NormativeType"
  assumes "engine_ok (is_engine st)" "te_pv_name tg \<in> known_pvs (is_engine st)" "\<not> is_delta (te_event tg)"
    and "event_normative (te_event tg) = Some nt" "resolve_id cache (te_pv_id tg) (te_pv_name tg) = Some pv"
  shows "im_published (snd (flush_metrics (ingest_event cal se cache ck tg st) m)) =
    im_published (snd (flush_metrics st m)) + 2"
proof -
  obtain u :: "'num pv_update option" and e where
    p: "process_event (bc_utc ck) (te_pv_name tg) (te_event tg) (is_engine st) = (u, e)"
    by fastforce
  have u: "u = Some (update_new (te_pv_name tg) nt)" "en_published e = en_published (is_engine st) + 1"
    using process_event_result[OF assms(1) p] assms by simp_all
  have "\<not> is_aggregate nt"
    using event_normative_kind[OF assms(4)] by blast
  moreover have "ingest_event cal se cache ck tg st = ingest_slow cal se cache ck tg st"
    using assms(3) by (cases "te_event tg") (simp_all add: ingest_event_def)
  ultimately show ?thesis
    using p u assms(5) by (simp add: ingest_slow_def Let_def slow_counted_def update_new_def flush_metrics_def)
qed

end
