(* ===== verification/Pipeline.thy ===== *)
theory Pipeline
  imports Ingest Monitor
begin

text \<open>
  The pipeline end to end: what a monitor session emits is sent to the bus, drained by an
  ingest thread, archived in its shared buffer and encoded for COPY.  The theory composes the
  theories of the monitor, the bus, the ingest threads and the COPY rows; it defines nothing of
  the sources but the hand-over of emitted events to the bus.
\<close>

fun emitted_op :: "emitted \<Rightarrow> bus_op list" where
  "emitted_op (EmBus name pv shard ev) = [BusSend name pv shard ev]"
| "emitted_op (EmChannel _ _) = []"

text \<open>The bus operations of what a session emitted since it had emitted \<open>n\<close> events.\<close>

definition bus_ops_since :: "nat \<Rightarrow> session \<Rightarrow> bus_op list" where
  "bus_ops_since n s = concat (map emitted_op (drop n (se_emitted s)))"

lemma send_then_drain:
  assumes fifo: "fifo_channel api queued cap" and s: "s < n" and room: "0 < m" "0 < k"
  shows "\<exists>bus got. bus_run api [BusSend name pv s ev, BusDrain s k] (create_bus api n m, \<lambda>_. []) = Some (bus, got) \<and>
    got s = [\<lparr> te_pv_name = name, te_pv_id = pv, te_event = ev \<rparr>]"
proof -
  have buf: "bounded_buffer (ca_try_send api) queued cap"
    and new: "queued (ca_bounded api m) = []" "cap (ca_bounded api m) = m"
    using fifo by (simp_all add: fifo_channel_def)
  let ?tg = "\<lparr> te_pv_name = name, te_pv_id = pv, te_event = ev \<rparr>"
  obtain ok ch where send: "ca_try_send api ?tg (ca_bounded api m) = (ok, ch)"
    by fastforce
  have "queued ch = [?tg]"
    using bounded_buffer.held_push[OF buf, of ?tg "ca_bounded api m"] new room(1) send by simp
  moreover obtain out ch' where drain: "drain_into api k ch [] = (out, ch')"
    by fastforce
  ultimately have out: "out = [?tg]"
    using drain_into_prefix[OF fifo, of k ch "[]"] room(2) by (simp add: take_Cons')
  have "send_to_shard api name pv s ev (create_bus api n m) =
      Some (ok, (create_bus api n m) \<lparr> mb_channels := (mb_channels (create_bus api n m))[s := ch],
        mb_dropped := (if ok then 0 else 1) \<rparr>)"
    using s send by (simp add: send_to_shard_def create_bus_def)
  then show ?thesis
    using s drain out by (simp add: create_bus_def)
qed

lemma delta_value_member:
  assumes "nt_scalar_desc d st" "typed_members (fd_fields d) vs" "bs_is_set 1 changed"
  shows "snd (delta_of_members (fd_fields d) vs changed 1 ! 0) = snd (vs ! 0)"
  using assms by (auto simp: nt_scalar_desc_def split: list.splits PvaValue.splits)

text \<open>The scalar row of a numeric value, with what the delta says of alarm and time.\<close>

definition row_of_delta :: "32 word \<Rightarrow> f64bits \<Rightarrow> (f64bits \<times> rstring option) delta_acc \<Rightarrow> scalar_row" where
  "row_of_delta pv x a =
    scalar_from_epoch (ac_seconds a) (ac_nanos a) pv x (ucast (ac_severity a)) (ucast (ac_status a)) SrValueChanged"

lemma ingest_one_scalar:
  assumes "0 <s pv" "length (sb_scalars (is_buf st)) < sb_max_len (is_buf st)"
  shows "sb_scalars (is_buf (ingest_batch cal se cache ck
      [\<lparr> te_pv_name = n, te_pv_id = pv, te_event = MeScalarDelta v secs nanos sev stat \<rparr>] st)) =
    sb_scalars (is_buf st) @ [scalar_from_epoch secs nanos pv v (ucast sev) (ucast stat) SrValueChanged]"
  using assms scalars.push_room[of "is_buf st"]
  by (simp add: ingest_batch_def ingest_event_def ingest_scalar_delta_def resolve_id_def count_fast_def)

lemma finish_on_bus:
  assumes "se_has_bus s" "me_pv_id e \<noteq> 0"
  shows "se_emitted (finish_update rid e ev s) =
    se_emitted s @ [EmBus (ms_pv_name (me_sub e)) (me_pv_id e) (me_bus_shard e) ev]"
  using assms by (simp add: finish_emitted resolve_pv_id_def count_update_def)

text \<open>C1. From the wire to the data base: a delta that changes the value of a subscribed numeric
  scalar passes through the session, the bus and an ingest thread into the shared buffer as one
  row with the PV's id and the new value, and the COPY payload of that row, as PostgreSQL reads
  it, is that row.\<close>

theorem wire_value_reaches_the_copy_payload:
  assumes monitor: "se_monitors s rid = Some e" "ms_type_desc (me_sub e) = Some d"
      "ms_updates_received (me_sub e) > 0" "me_fast e = fast_scalar_detect d" "nt_scalar_desc d st"
    and "plain_members (fd_fields d)" "typed_members (fd_fields d) vs"
    and delta: "bs_ok changed" "length (bs_raw changed) < 2 ^ 31" "bits changed \<subseteq> {1..9}" "1 \<in> bits changed"
    and numeric: "snd (vs ! 0) = PvScalar v" "sv_as_f64 v = Some x"
    and bus: "se_has_bus s" "fifo_channel api queued cap" "me_bus_shard e < n" "0 < m" "0 <s me_pv_id e"
    and shard: "length (sb_scalars (is_buf sh)) < sb_max_len (is_buf sh)"
  shows "\<exists>bus got.
    bus_run api (bus_ops_since (length (se_emitted s))
        (handle_monitor_update (update_bytes (se_order s) rid sub changed d vs @ tail) s)
      @ [BusDrain (me_bus_shard e) 65536]) (create_bus api n m, \<lambda>_. []) = Some (bus, got) \<and>
    (let row = row_of_delta (me_pv_id e) x (acc_of (delta_of_members (fd_fields d) vs changed 1)) in
     sb_scalars (is_buf (ingest_batch cal se cache ck (got (me_bus_shard e)) sh)) =
       sb_scalars (is_buf sh) @ [row] \<and>
     sr_value row = x \<and> sr_pv_id row = me_pv_id e \<and>
     pg_parse (scalar_build_copy [row]) = Some [scalar_columns row])"
proof -
  define acc where "acc = acc_of (delta_of_members (fd_fields d) vs changed 1)"
  have "bs_is_set 1 changed"
    using delta(4) is_set_bits[OF delta(1)] by simp
  then have "ac_value acc = value_pair (PvScalar v)"
    using delta_value_member[OF monitor(5) assms(7)] numeric(1) by (simp add: acc_def acc_of_def)
  then have ev: "scalar_event acc =
      MeScalarDelta x (ac_seconds acc) (ac_nanos acc) (ac_severity acc) (ac_status acc)"
    using numeric(2) by (cases v) (simp_all add: scalar_event_def value_pair_def)
  have pv: "me_pv_id e \<noteq> 0"
    using bus(5) by (auto simp: word_sless_alt)
  have "bus_ops_since (length (se_emitted s))
      (handle_monitor_update (update_bytes (se_order s) rid sub changed d vs @ tail) s) =
    [BusSend (ms_pv_name (me_sub e)) (me_pv_id e) (me_bus_shard e) (scalar_event acc)]"
    unfolding acc_def using scalar_update[OF monitor(1-5) assms(6,7) delta(1-3)] finish_on_bus[OF bus(1) pv]
    by (simp add: bus_ops_since_def)
  then obtain bus got where "bus_run api (bus_ops_since (length (se_emitted s))
        (handle_monitor_update (update_bytes (se_order s) rid sub changed d vs @ tail) s)
      @ [BusDrain (me_bus_shard e) 65536]) (create_bus api n m, \<lambda>_. []) = Some (bus, got)"
    and got: "got (me_bus_shard e) =
      [\<lparr> te_pv_name = ms_pv_name (me_sub e), te_pv_id = me_pv_id e, te_event = scalar_event acc \<rparr>]"
    using send_then_drain[OF bus(2,3,4), of 65536 "ms_pv_name (me_sub e)" "me_pv_id e" "scalar_event acc"]
    by auto
  moreover have "pg_parse (scalar_build_copy [r]) = Some [scalar_columns r]" for r
    unfolding scalar_build_copy_eq list.map by (rule pg_parse_copy) simp
  ultimately show ?thesis
    unfolding acc_def[symmetric] using ingest_one_scalar[OF bus(5) shard]
    by (simp add: got ev row_of_delta_def scalar_from_epoch_def)
qed

lemma set_1: "bs_ok (bs_set 1 bs_new)" "bits (bs_set 1 bs_new) = {1}" "length (bs_raw (bs_set 1 bs_new)) < 2 ^ 31"
proof -
  show ok: "bs_ok (bs_set 1 bs_new)" and "bits (bs_set 1 bs_new) = {1}"
    by (simp_all add: bits_set)
  have "bs_overflow (bs_set 1 bs_new) = []"
    by (simp add: bs_set_def bs_update_def bs_new_def bs_word_mask_def INLINE_BITS_def INLINE_WORDS_def Let_def)
  then show "length (bs_raw (bs_set 1 bs_new)) < 2 ^ 31"
    using small_raw[OF ok] by simp
qed

lemma demo_entry_place: "me_pv_id (demo_entry n) = 5" "me_bus_shard (demo_entry n) = 0"
  by (simp_all add: demo_entry_def entry_initialised_def)

lemma wire_value_reaches_the_copy_payload_witness:
  "\<exists>bus got.
    bus_run list_channel (bus_ops_since 0
        (handle_monitor_update (update_bytes LittleEndian 9 0 (bs_set 1 bs_new) demo_desc demo_values @ []) (demo_session 1))
      @ [BusDrain 0 65536]) (create_bus list_channel 1 8, \<lambda>_. []) = Some (bus, got) \<and>
    (\<exists>row. sb_scalars (is_buf (ingest_batch second_calendar example_serialiser (\<lambda>_. None) example_clock (got 0)
        (example_shard 4))) = [row] \<and> sr_value row = 7 \<and> sr_pv_id row = 5)"
  using wire_value_reaches_the_copy_payload[where s = "demo_session 1" and rid = 9 and e = "demo_entry 1"
      and d = demo_desc and vs = demo_values and changed = "bs_set 1 bs_new" and sub = 0 and tail = "[]"
      and st = StDouble and v = "SvDouble 7" and x = 7 and n = 1 and m = 8 and sh = "example_shard 4"
      and cal = second_calendar and se = example_serialiser and cache = "\<lambda>_. None" and ck = example_clock,
      OF _ _ _ _ _ _ _ _ _ _ _ _ _ _ list_channel_fifo]
    demo_ok set_1
  by (simp add: demo_entry_place word_sless_alt demo_values_def example_shard_def sb_new_def Let_def) blast

end
