(* ===== verification/Discover.thy ===== *)
theory Discover
  imports Prelude Normative Session
begin

text \<open>
  Discovery (\<open>aura-discover\<close>): the table of PV configurations that is polled
  (\<open>config_poller.rs\<close>), the state of the resolution and the actions it asks for
  (\<open>reconciler.rs\<close>), the commands for the ingest process (\<open>command_publisher.rs\<close>), the
  notifications of the database (\<open>pg_notify.rs\<close>) and the cycle that joins them
  (\<open>orchestrator.rs\<close>).

  A hash map is an association list with distinct keys and a hash set a list without
  duplicates; \<open>iter\<close> is the order in which a table is walked.  The rows the database
  answers with are inputs of a cycle; the texts of addresses and the JSON of a command are
  made by the standard library and serde and stay as the values they are made from.
\<close>

section \<open>Configurations\<close>

record pv_config =
  pg_pv_name :: rstring
  pg_description :: "rstring option"
  pg_unit :: "rstring option"
  pg_heartbeat_s :: f64bits
  pg_expected_ioc :: "rstring option"
  pg_enabled :: bool
  pg_created_at :: "int option"
  pg_updated_at :: "int option"

definition pv_config_new :: "rstring \<Rightarrow> pv_config" where
  "pv_config_new name = \<lparr> pg_pv_name = name, pg_description = None, pg_unit = None,
     pg_heartbeat_s = 0, pg_expected_ioc = None, pg_enabled = True, pg_created_at = None,
     pg_updated_at = None \<rparr>"

definition with_heartbeat :: "f64bits \<Rightarrow> pv_config \<Rightarrow> pv_config" where
  "with_heartbeat h c = c \<lparr> pg_heartbeat_s := h \<rparr>"

definition with_unit :: "rstring \<Rightarrow> pv_config \<Rightarrow> pv_config" where
  "with_unit u c = c \<lparr> pg_unit := Some u \<rparr>"

definition with_description :: "rstring \<Rightarrow> pv_config \<Rightarrow> pv_config" where
  "with_description d c = c \<lparr> pg_description := Some d \<rparr>"

definition with_expected_ioc :: "rstring \<Rightarrow> pv_config \<Rightarrow> pv_config" where
  "with_expected_ioc a c = c \<lparr> pg_expected_ioc := Some a \<rparr>"

definition with_enabled :: "bool \<Rightarrow> pv_config \<Rightarrow> pv_config" where
  "with_enabled b c = c \<lparr> pg_enabled := b \<rparr>"

definition pv_config_display :: "pv_config \<Rightarrow> rstring" where
  "pv_config_display c = pg_pv_name c @
     (case pg_unit c of Some u \<Rightarrow> ascii '' ['' @ u @ ascii '']'' | None \<Rightarrow> []) @
     (if pg_enabled c then [] else ascii '' (disabled)'')"

section \<open>Polling\<close>

datatype PvChange = Added pv_config | Removed rstring | Modified pv_config

definition pv_change_display :: "PvChange \<Rightarrow> rstring" where
  "pv_change_display ch = (case ch of
     Added c \<Rightarrow> ascii ''+'' @ pg_pv_name c
   | Removed n \<Rightarrow> ascii ''-'' @ n
   | Modified c \<Rightarrow> ascii ''~'' @ pg_pv_name c)"

text \<open>\<open>ConfigPoller\<close> is its table of known configurations.\<close>

type_synonym config_poller = "(rstring \<times> pv_config) list"

definition poller_new :: config_poller where
  "poller_new = []"

definition by_name :: "pv_config list \<Rightarrow> (rstring \<times> pv_config) list" where
  "by_name cfgs = fold (\<lambda>c m. AList.update (pg_pv_name c) c m) (filter pg_enabled cfgs) []"

definition load_initial :: "pv_config list \<Rightarrow> config_poller \<Rightarrow> nat \<times> config_poller" where
  "load_initial cfgs p = (length cfgs, by_name cfgs)"

definition config_changed :: "pv_config \<Rightarrow> pv_config \<Rightarrow> bool" where
  "config_changed old new \<longleftrightarrow> \<not> f64_eq (pg_heartbeat_s old) (pg_heartbeat_s new) \<or>
     pg_enabled old \<noteq> pg_enabled new \<or> pg_expected_ioc old \<noteq> pg_expected_ioc new"

definition apply_change :: "PvChange \<Rightarrow> config_poller \<Rightarrow> config_poller" where
  "apply_change ch p = (case ch of
     Added c \<Rightarrow> AList.update (pg_pv_name c) c p
   | Modified c \<Rightarrow> AList.update (pg_pv_name c) c p
   | Removed name \<Rightarrow> AList.delete name p)"

definition added_changes ::
  "(rstring list \<Rightarrow> rstring list) \<Rightarrow> config_poller \<Rightarrow> config_poller \<Rightarrow> PvChange list" where
  "added_changes iter fresh known =
    List.map_filter (\<lambda>n. if map_of known n = None then map_option Added (map_of fresh n) else None)
      (iter (map fst fresh))"

definition removed_changes ::
  "(rstring list \<Rightarrow> rstring list) \<Rightarrow> config_poller \<Rightarrow> config_poller \<Rightarrow> PvChange list" where
  "removed_changes iter fresh known =
    map Removed (filter (\<lambda>n. map_of fresh n = None) (iter (map fst known)))"

text \<open>The intersection of two hash sets walks the smaller one.\<close>

definition modified_changes ::
  "(rstring list \<Rightarrow> rstring list) \<Rightarrow> config_poller \<Rightarrow> config_poller \<Rightarrow> PvChange list" where
  "modified_changes iter fresh known =
    List.map_filter (\<lambda>n. case (map_of known n, map_of fresh n) of
        (Some old, Some new) \<Rightarrow> if config_changed old new then Some (Modified new) else None
      | _ \<Rightarrow> None) (iter (map fst (if length known \<le> length fresh then known else fresh)))"

definition config_diff ::
  "(rstring list \<Rightarrow> rstring list) \<Rightarrow> pv_config list \<Rightarrow> config_poller \<Rightarrow> PvChange list \<times> config_poller" where
  "config_diff iter cfgs known =
    (let fresh = by_name cfgs;
         changes = added_changes iter fresh known @ removed_changes iter fresh known @
           modified_changes iter fresh known
     in (changes, fold apply_change changes known))"

definition tracked_count :: "config_poller \<Rightarrow> nat" where
  "tracked_count p = length p"

section \<open>Reconciling\<close>

datatype AlertLevel = AlInfo | AlWarning | AlCritical

record discover_alert =
  da_level :: AlertLevel
  da_message :: rstring
  da_pv_name :: "rstring option"

datatype Action =
    Resolve "rstring list"
  | SubscribeAt "(rstring \<times> socket_addr option) list"
  | UnsubscribeAll "rstring list"
  | UpdateFilter "rstring list"
  | RaiseAlert discover_alert

definition alert_display :: "discover_alert \<Rightarrow> rstring" where
  "alert_display a = ascii ''['' @
     ascii (case da_level a of AlInfo \<Rightarrow> ''INFO'' | AlWarning \<Rightarrow> ''WARN'' | AlCritical \<Rightarrow> ''CRIT'') @
     (case da_pv_name a of
        Some pv \<Rightarrow> ascii ''] '' @ pv @ ascii '': '' @ da_message a
      | None \<Rightarrow> ascii ''] '' @ da_message a)"

record reconciler =
  rc_resolved :: "rstring list"
  rc_pending :: "rstring list"
  rc_not_found :: "rstring list"
  rc_total_reconciliations :: u64
  rc_total_actions :: u64

definition reconciler_new :: reconciler where
  "reconciler_new = \<lparr> rc_resolved = [], rc_pending = [], rc_not_found = [],
     rc_total_reconciliations = 0, rc_total_actions = 0 \<rparr>"

text \<open>The three lists a pass over the changes fills.\<close>

record todo =
  td_resolve :: "rstring list"
  td_unsubscribe :: "rstring list"
  td_update :: "rstring list"

definition ask_resolve :: "rstring \<Rightarrow> reconciler \<times> todo \<Rightarrow> reconciler \<times> todo" where
  "ask_resolve name acc = (case acc of (r, t) \<Rightarrow>
     (r \<lparr> rc_pending := List.insert name (rc_pending r) \<rparr>, t \<lparr> td_resolve := td_resolve t @ [name] \<rparr>))"

definition reconcile_change :: "PvChange \<Rightarrow> reconciler \<times> todo \<Rightarrow> reconciler \<times> todo" where
  "reconcile_change ch acc = (case acc of (r, t) \<Rightarrow>
     (case ch of
        Added c \<Rightarrow> ask_resolve (pg_pv_name c) (r, t)
      | Removed name \<Rightarrow>
          (r \<lparr> rc_resolved := removeAll name (rc_resolved r), rc_pending := removeAll name (rc_pending r),
               rc_not_found := removeAll name (rc_not_found r) \<rparr>,
           t \<lparr> td_unsubscribe := td_unsubscribe t @ [name] \<rparr>)
      | Modified c \<Rightarrow>
          (if pg_pv_name c \<in> set (rc_resolved r)
           then (r, t \<lparr> td_update := td_update t @ [pg_pv_name c] \<rparr>)
           else ask_resolve (pg_pv_name c) (r, t))))"

definition todo_actions :: "todo \<Rightarrow> Action list" where
  "todo_actions t =
    (if td_resolve t = [] then [] else [Resolve (td_resolve t)]) @
    (if td_unsubscribe t = [] then [] else [UnsubscribeAll (td_unsubscribe t)]) @
    (if td_update t = [] then [] else [UpdateFilter (td_update t)])"

definition reconcile :: "PvChange list \<Rightarrow> reconciler \<Rightarrow> Action list \<times> reconciler" where
  "reconcile changes r0 =
    (let r = r0 \<lparr> rc_total_reconciliations := rc_total_reconciliations r0 + 1 \<rparr> in
     if changes = [] then ([], r)
     else
       (case fold reconcile_change changes (r, \<lparr> td_resolve = [], td_unsubscribe = [], td_update = [] \<rparr>) of
          (r1, t) \<Rightarrow> (todo_actions t,
            r1 \<lparr> rc_total_actions := rc_total_actions r1 + of_nat (length (todo_actions t)) \<rparr>)))"

definition mark_one_resolved ::
  "socket_addr \<Rightarrow> rstring \<Rightarrow> (rstring \<times> socket_addr option) list \<times> reconciler \<Rightarrow>
    (rstring \<times> socket_addr option) list \<times> reconciler" where
  "mark_one_resolved addr name acc = (case acc of (out, r) \<Rightarrow>
     (if name \<in> set (rc_resolved r) then out else out @ [(name, Some addr)],
      r \<lparr> rc_pending := removeAll name (rc_pending r), rc_not_found := removeAll name (rc_not_found r),
          rc_resolved := List.insert name (rc_resolved r) \<rparr>))"

definition mark_resolved ::
  "rstring list \<Rightarrow> socket_addr \<Rightarrow> reconciler \<Rightarrow> (rstring \<times> socket_addr option) list \<times> reconciler" where
  "mark_resolved names addr r = fold (mark_one_resolved addr) names ([], r)"

definition warning_about :: "string \<Rightarrow> rstring \<Rightarrow> Action" where
  "warning_about message pv =
    RaiseAlert \<lparr> da_level = AlWarning, da_message = ascii message, da_pv_name = Some pv \<rparr>"

definition mark_one_not_found :: "rstring \<Rightarrow> Action list \<times> reconciler \<Rightarrow> Action list \<times> reconciler" where
  "mark_one_not_found name acc = (case acc of (out, r) \<Rightarrow>
     (if name \<in> set (rc_not_found r) then out
      else out @ [warning_about ''PV not found on EPICS network'' name],
      r \<lparr> rc_pending := removeAll name (rc_pending r),
          rc_not_found := List.insert name (rc_not_found r) \<rparr>))"

definition mark_not_found :: "rstring list \<Rightarrow> reconciler \<Rightarrow> Action list \<times> reconciler" where
  "mark_not_found names r = fold mark_one_not_found names ([], r)"

text \<open>The message of the source has an em dash, three bytes of UTF-8.\<close>

definition mark_disconnected :: "rstring \<Rightarrow> reconciler \<Rightarrow> Action option \<times> reconciler" where
  "mark_disconnected name r =
    (if name \<in> set (rc_resolved r)
     then (Some (RaiseAlert \<lparr> da_level = AlWarning, da_message = ascii ''IOC disconnected '' @
             [226, 128, 148] @ ascii '' PV will be re-resolved'', da_pv_name = Some name \<rparr>),
           r \<lparr> rc_resolved := removeAll name (rc_resolved r),
               rc_pending := List.insert name (rc_pending r) \<rparr>)
     else (None, r))"

definition resolved_count :: "reconciler \<Rightarrow> nat" where
  "resolved_count r = length (rc_resolved r)"

definition pending_count :: "reconciler \<Rightarrow> nat" where
  "pending_count r = length (rc_pending r)"

definition not_found_count :: "reconciler \<Rightarrow> nat" where
  "not_found_count r = length (rc_not_found r)"

definition rc_is_resolved :: "rstring \<Rightarrow> reconciler \<Rightarrow> bool" where
  "rc_is_resolved name r \<longleftrightarrow> name \<in> set (rc_resolved r)"

definition rc_is_pending :: "rstring \<Rightarrow> reconciler \<Rightarrow> bool" where
  "rc_is_pending name r \<longleftrightarrow> name \<in> set (rc_pending r)"

definition rc_is_not_found :: "rstring \<Rightarrow> reconciler \<Rightarrow> bool" where
  "rc_is_not_found name r \<longleftrightarrow> name \<in> set (rc_not_found r)"

definition pending_names :: "(rstring list \<Rightarrow> rstring list) \<Rightarrow> reconciler \<Rightarrow> rstring list" where
  "pending_names iter r = iter (rc_pending r)"

section \<open>Commands\<close>

datatype IngestCommand =
    CmdSubscribe rstring "rstring option"
  | CmdSubscribeBatch "rstring list" "rstring option"
  | CmdUnsubscribe rstring
  | CmdUnsubscribeBatch "rstring list"
  | CmdReload

text \<open>\<open>CommandBatch\<close> is its list of commands.\<close>

type_synonym command_batch = "IngestCommand list"

definition cmd_subscribe :: "(socket_addr \<Rightarrow> rstring) \<Rightarrow> rstring \<Rightarrow> socket_addr option \<Rightarrow> IngestCommand" where
  "cmd_subscribe addr_text pv ioc = CmdSubscribe pv (map_option addr_text ioc)"

definition cmd_unsubscribe_batch :: "rstring list \<Rightarrow> command_batch \<Rightarrow> command_batch" where
  "cmd_unsubscribe_batch pvs b = (if pvs = [] then b else b @ [CmdUnsubscribeBatch pvs])"

text \<open>\<open>to_json\<close> is the serialization of serde.\<close>

definition batch_take :: "(IngestCommand \<Rightarrow> 'j) \<Rightarrow> command_batch \<Rightarrow> 'j list \<times> command_batch" where
  "batch_take to_json b = (if b = [] then ([], b) else (map to_json b, []))"

text \<open>\<open>str::split\<close> at a byte, and the names of a notification.\<close>

fun split_at :: "byte \<Rightarrow> rstring \<Rightarrow> rstring list" where
  "split_at sep [] = [[]]"
| "split_at sep (b # bs) =
    (if b = sep then [] # split_at sep bs
     else (case split_at sep bs of [] \<Rightarrow> [[b]] | w # ws \<Rightarrow> (b # w) # ws))"

definition strip_prefix :: "rstring \<Rightarrow> rstring \<Rightarrow> rstring option" where
  "strip_prefix p s = (if take (length p) s = p then Some (drop (length p) s) else None)"

definition listed_names :: "rstring \<Rightarrow> rstring list" where
  "listed_names text = filter (\<lambda>w. w \<noteq> []) (split_at 44 text)"

definition parse_pv_change :: "rstring \<Rightarrow> IngestCommand option" where
  "parse_pv_change payload =
    (case strip_prefix (ascii ''add:'') payload of
       Some text \<Rightarrow> (let pvs = listed_names text in
         if pvs = [] then None else Some (CmdSubscribeBatch pvs None))
     | None \<Rightarrow>
         (case strip_prefix (ascii ''del:'') payload of
            Some text \<Rightarrow> (let pvs = listed_names text in
              if pvs = [] then None else Some (CmdUnsubscribeBatch pvs))
          | None \<Rightarrow> None))"

section \<open>The orchestrator\<close>

record orchestrator =
  or_poller :: config_poller
  or_reconciler :: reconciler
  or_commands :: command_batch
  or_name_servers :: "socket_addr list"
  or_last_poll :: int
  or_cycles :: u64
  or_total_resolved :: u64
  or_total_alerts :: u64

text \<open>\<open>parse_addr\<close> reads the text of a socket address; \<open>min_utc\<close> is the earliest time of the
  calendar library.\<close>

definition orchestrator_new ::
  "(rstring \<Rightarrow> socket_addr option) \<Rightarrow> int \<Rightarrow> rstring list \<Rightarrow> orchestrator" where
  "orchestrator_new parse_addr min_utc servers =
    \<lparr> or_poller = poller_new, or_reconciler = reconciler_new, or_commands = [],
      or_name_servers = List.map_filter parse_addr servers, or_last_poll = min_utc, or_cycles = 0,
      or_total_resolved = 0, or_total_alerts = 0 \<rparr>"

definition unresolved_addr :: socket_addr where
  "unresolved_addr = \<lparr> sa_ip = IpV4 0, sa_port = 5075 \<rparr>"

text \<open>\<open>resolve_batch\<close>: the state, and the rows whose expected IOC the database is told to
  overwrite.\<close>

definition resolve_batch ::
  "(socket_addr \<Rightarrow> rstring) \<Rightarrow> rstring list \<Rightarrow> orchestrator \<Rightarrow> nat \<times> orchestrator" where
  "resolve_batch addr_text names o0 =
    (if names = [] then (0, o0)
     else
       (let addr = (case or_name_servers o0 of [] \<Rightarrow> unresolved_addr | a # _ \<Rightarrow> a) in
        case mark_resolved names addr (or_reconciler o0) of
          (subs, r) \<Rightarrow>
            (let ioc = (case or_name_servers o0 of [] \<Rightarrow> None | a # _ \<Rightarrow> Some (addr_text a)) in
             (length subs,
              o0 \<lparr> or_reconciler := r,
                   or_commands := (if subs = [] then or_commands o0
                     else or_commands o0 @ [CmdSubscribeBatch (map fst subs) ioc]),
                   or_total_resolved := or_total_resolved o0 + of_nat (length subs) \<rparr>))))"

definition expected_ioc_update ::
  "(socket_addr \<Rightarrow> rstring) \<Rightarrow> rstring list \<Rightarrow> orchestrator \<Rightarrow> (rstring \<times> rstring list) option" where
  "expected_ioc_update addr_text names o0 =
    (if names = [] then None
     else (case or_name_servers o0 of [] \<Rightarrow> None | a # _ \<Rightarrow> Some (addr_text a, names)))"

record cycle_result =
  cy_config_changes :: nat
  cy_resolved :: nat
  cy_subscribed :: nat
  cy_unsubscribed :: nat
  cy_filter_updates :: nat
  cy_alerts :: nat

definition cycle_result_default :: cycle_result where
  "cycle_result_default = \<lparr> cy_config_changes = 0, cy_resolved = 0, cy_subscribed = 0,
     cy_unsubscribed = 0, cy_filter_updates = 0, cy_alerts = 0 \<rparr>"

definition cycle_is_empty :: "cycle_result \<Rightarrow> bool" where
  "cycle_is_empty c \<longleftrightarrow> cy_config_changes c = 0 \<and> cy_resolved c = 0 \<and> cy_subscribed c = 0 \<and>
     cy_unsubscribed c = 0 \<and> cy_alerts c = 0"

definition startup ::
  "pv_config list option \<Rightarrow> int \<Rightarrow> orchestrator \<Rightarrow> Action list option \<times> orchestrator" where
  "startup enabled now o0 =
    (case enabled of
       None \<Rightarrow> (None, o0)
     | Some cfgs \<Rightarrow>
        (let p = snd (load_initial cfgs (or_poller o0)) in
         case reconcile (map Added cfgs) (or_reconciler o0) of
           (actions, r) \<Rightarrow> (Some actions, o0 \<lparr> or_poller := p, or_reconciler := r, or_last_poll := now \<rparr>)))"

definition execute_action ::
  "(socket_addr \<Rightarrow> rstring) \<Rightarrow> Action \<Rightarrow> cycle_result \<times> orchestrator \<Rightarrow> cycle_result \<times> orchestrator" where
  "execute_action addr_text action acc = (case acc of (res, o0) \<Rightarrow>
     (case action of
        Resolve names \<Rightarrow> (case resolve_batch addr_text names o0 of (n, o1) \<Rightarrow>
          (res \<lparr> cy_resolved := cy_resolved res + n \<rparr>, o1))
      | UnsubscribeAll names \<Rightarrow>
          (res \<lparr> cy_unsubscribed := cy_unsubscribed res + length names \<rparr>,
           o0 \<lparr> or_commands := cmd_unsubscribe_batch names (or_commands o0) \<rparr>)
      | SubscribeAt entries \<Rightarrow>
          (res \<lparr> cy_subscribed := cy_subscribed res + length entries \<rparr>,
           o0 \<lparr> or_commands := or_commands o0 @ map (\<lambda>(pv, ioc). cmd_subscribe addr_text pv ioc) entries \<rparr>)
      | UpdateFilter names \<Rightarrow> (res \<lparr> cy_filter_updates := cy_filter_updates res + length names \<rparr>, o0)
      | RaiseAlert _ \<Rightarrow>
          (res \<lparr> cy_alerts := cy_alerts res + 1 \<rparr>, o0 \<lparr> or_total_alerts := or_total_alerts o0 + 1 \<rparr>)))"

text \<open>One cycle.  \<open>changed\<close> and \<open>enabled\<close> are the answers of the two queries, \<open>None\<close> for an
  error; the second is only asked when the first has rows.  The result is \<open>None\<close> when the
  cycle ends with the error.\<close>

definition work_off ::
  "(rstring list \<Rightarrow> rstring list) \<Rightarrow> (socket_addr \<Rightarrow> rstring) \<Rightarrow> PvChange list \<Rightarrow> orchestrator \<Rightarrow>
    cycle_result \<times> orchestrator" where
  "work_off iter addr_text changes o0 =
    (case reconcile changes (or_reconciler o0) of
       (actions, r) \<Rightarrow>
         (case fold (execute_action addr_text) actions
            (cycle_result_default \<lparr> cy_config_changes := length changes \<rparr>, o0 \<lparr> or_reconciler := r \<rparr>) of
            (res, o1) \<Rightarrow>
              (if pending_count (or_reconciler o1) > 0
               then (case resolve_batch addr_text (pending_names iter (or_reconciler o1)) o1 of
                  (n, o2) \<Rightarrow> (res \<lparr> cy_resolved := cy_resolved res + n \<rparr>, o2))
               else (res, o1))))"

definition cycle ::
  "(rstring list \<Rightarrow> rstring list) \<Rightarrow> (socket_addr \<Rightarrow> rstring) \<Rightarrow> pv_config list option \<Rightarrow>
    pv_config list option \<Rightarrow> int \<Rightarrow> orchestrator \<Rightarrow> cycle_result option \<times> orchestrator" where
  "cycle iter addr_text changed enabled now o0 =
    (let o1 = o0 \<lparr> or_cycles := or_cycles o0 + 1 \<rparr> in
     case changed of
       None \<Rightarrow> (None, o1)
     | Some rows \<Rightarrow>
        (let o2 = o1 \<lparr> or_last_poll := now \<rparr> in
         if rows = [] then
           (if pending_count (or_reconciler o2) = 0 then (Some cycle_result_default, o2)
            else map_prod Some id (work_off iter addr_text [] o2))
         else
           (case enabled of
              None \<Rightarrow> (None, o2)
            | Some cfgs \<Rightarrow>
               (case config_diff iter cfgs (or_poller o2) of
                  (changes, p) \<Rightarrow>
                    map_prod Some id (work_off iter addr_text changes (o2 \<lparr> or_poller := p \<rparr>))))))"

text \<open>The commands leave the batch before the publication is attempted.\<close>

definition flush_commands ::
  "(IngestCommand \<Rightarrow> 'j) \<Rightarrow> orchestrator \<Rightarrow> 'j list \<times> orchestrator" where
  "flush_commands to_json o0 =
    (case batch_take to_json (or_commands o0) of (jsons, b) \<Rightarrow> (jsons, o0 \<lparr> or_commands := b \<rparr>))"

text \<open>The loop of \<open>run\<close>: what each tick of the timer finds in the database, and whether the
  broker takes the publication.  A refused publication ends the loop with its commands lost;
  the flag tells whether the loop is still running.\<close>

record discover_tick =
  tk_changed :: "pv_config list option"
  tk_enabled :: "pv_config list option"
  tk_now :: int
  tk_accepted :: bool

definition publish ::
  "(IngestCommand \<Rightarrow> 'j) \<Rightarrow> bool \<Rightarrow> orchestrator \<Rightarrow> 'j list option \<times> orchestrator" where
  "publish to_json taken o0 =
    (case flush_commands to_json o0 of (jsons, o1) \<Rightarrow>
       (if jsons = [] \<or> taken then Some jsons else None, o1))"

fun discover_loop ::
  "(rstring list \<Rightarrow> rstring list) \<Rightarrow> (socket_addr \<Rightarrow> rstring) \<Rightarrow> (IngestCommand \<Rightarrow> 'j) \<Rightarrow>
    discover_tick list \<Rightarrow> orchestrator \<Rightarrow> 'j list \<times> bool \<times> orchestrator" where
  "discover_loop iter addr_text to_json [] o0 = ([], True, o0)"
| "discover_loop iter addr_text to_json (t # ts) o0 =
    (case cycle iter addr_text (tk_changed t) (tk_enabled t) (tk_now t) o0 of
       (None, o1) \<Rightarrow> discover_loop iter addr_text to_json ts o1
     | (Some res, o1) \<Rightarrow>
        (if cycle_is_empty res then discover_loop iter addr_text to_json ts o1
         else
           (case publish to_json (tk_accepted t) o1 of
              (None, o2) \<Rightarrow> ([], False, o2)
            | (Some jsons, o2) \<Rightarrow>
               (case discover_loop iter addr_text to_json ts o2 of
                  (js, running, o3) \<Rightarrow> (jsons @ js, running, o3)))))"

definition resolve_action ::
  "(socket_addr \<Rightarrow> rstring) \<Rightarrow> Action \<Rightarrow> orchestrator \<Rightarrow> orchestrator" where
  "resolve_action addr_text action o0 =
    (case action of Resolve names \<Rightarrow> snd (resolve_batch addr_text names o0) | _ \<Rightarrow> o0)"

definition discover_run ::
  "(rstring list \<Rightarrow> rstring list) \<Rightarrow> (socket_addr \<Rightarrow> rstring) \<Rightarrow> (IngestCommand \<Rightarrow> 'j) \<Rightarrow>
    pv_config list option \<Rightarrow> int \<Rightarrow> bool \<Rightarrow> discover_tick list \<Rightarrow> orchestrator \<Rightarrow>
    'j list \<times> bool \<times> orchestrator" where
  "discover_run iter addr_text to_json enabled now taken ticks o0 =
    (case startup enabled now o0 of
       (None, o1) \<Rightarrow> ([], False, o1)
     | (Some actions, o1) \<Rightarrow>
        (case publish to_json taken (fold (resolve_action addr_text) actions o1) of
           (None, o2) \<Rightarrow> ([], False, o2)
         | (Some jsons, o2) \<Rightarrow>
            (case discover_loop iter addr_text to_json ticks o2 of
               (js, running, o3) \<Rightarrow> (jsons @ js, running, o3))))"

end
