(* ===== verification/DiscoverFacts.thy ===== *)
theory DiscoverFacts
  imports Discover
begin

text \<open>
  What discovery promises: the commands it publishes, replayed by the ingest process, leave
  exactly the PVs the table enabled at the last poll that succeeded.  The proof follows two
  sets of names, those the poller knows and those the reconciler tracks, through the
  changes of a poll; both are moved by \<open>names_after\<close>.
\<close>

section \<open>The names a change moves\<close>

definition names_after :: "PvChange \<Rightarrow> rstring set \<Rightarrow> rstring set" where
  "names_after ch S = (case ch of
     Added c \<Rightarrow> insert (pg_pv_name c) S
   | Modified c \<Rightarrow> insert (pg_pv_name c) S
   | Removed n \<Rightarrow> S - {n})"

definition change_name :: "PvChange \<Rightarrow> rstring" where
  "change_name ch = (case ch of Added c \<Rightarrow> pg_pv_name c | Modified c \<Rightarrow> pg_pv_name c | Removed n \<Rightarrow> n)"

definition is_removal :: "PvChange \<Rightarrow> bool" where
  "is_removal ch = (case ch of Removed _ \<Rightarrow> True | _ \<Rightarrow> False)"

definition known_names :: "config_poller \<Rightarrow> rstring set" where
  "known_names p = {n. map_of p n \<noteq> None}"

definition enabled_names :: "pv_config list \<Rightarrow> rstring set" where
  "enabled_names cfgs = pg_pv_name ` set (filter pg_enabled cfgs)"

lemma known_names_update [simp]: "known_names (AList.update k v p) = insert k (known_names p)"
  by (auto simp: known_names_def update_conv' split: if_splits)

lemma known_names_delete [simp]: "known_names (AList.delete k p) = known_names p - {k}"
  by (auto simp: known_names_def delete_conv' split: if_splits)

lemma known_names_Nil [simp]: "known_names [] = {}"
  by (simp add: known_names_def)

lemma known_names_keys: "fst ` set p = known_names p"
  by (auto simp: known_names_def map_of_eq_None_iff)

lemma known_names_apply: "known_names (apply_change ch p) = names_after ch (known_names p)"
  by (simp add: apply_change_def names_after_def split: PvChange.split)

lemma known_names_apply_all:
  "known_names (fold apply_change chs p) = fold names_after chs (known_names p)"
  by (induction chs arbitrary: p) (simp_all add: known_names_apply)

lemma known_names_by_name: "known_names (by_name cfgs) = enabled_names cfgs"
proof -
  have "known_names (fold (\<lambda>c m. AList.update (pg_pv_name c) c m) cs m) = pg_pv_name ` set cs \<union> known_names m"
    for cs m
    by (induction cs arbitrary: m) auto
  from this[of "filter pg_enabled cfgs" "[]"] show ?thesis
    by (simp add: by_name_def enabled_names_def)
qed

lemma fold_names_removals:
  "\<forall>ch \<in> set chs. is_removal ch \<Longrightarrow> fold names_after chs S = S - change_name ` set chs"
  by (induction chs arbitrary: S)
    (auto simp: names_after_def change_name_def is_removal_def split: PvChange.splits)

lemma fold_names_inserts:
  "\<forall>ch \<in> set chs. \<not> is_removal ch \<Longrightarrow> fold names_after chs S = S \<union> change_name ` set chs"
  by (induction chs arbitrary: S)
    (auto simp: names_after_def change_name_def is_removal_def split: PvChange.splits)

lemma members_map_filter: "set (List.map_filter f xs) = {y. \<exists>x \<in> set xs. f x = Some y}"
  by (auto simp: List.map_filter_def image_iff) force

text \<open>Every configuration stands under its own name.\<close>

definition named_ok :: "config_poller \<Rightarrow> bool" where
  "named_ok p \<longleftrightarrow> (\<forall>(n, c) \<in> set p. pg_pv_name c = n)"

lemma named_ok_update: "named_ok p \<Longrightarrow> named_ok (AList.update (pg_pv_name c) c p)"
  unfolding named_ok_def by (induction p) auto

lemma named_ok_by_name: "named_ok (by_name cfgs)"
proof -
  have "named_ok m \<Longrightarrow> named_ok (fold (\<lambda>c m. AList.update (pg_pv_name c) c m) cs m)" for cs m
    by (induction cs arbitrary: m) (auto intro: named_ok_update)
  from this[of "[]" "filter pg_enabled cfgs"] show ?thesis
    by (simp add: by_name_def named_ok_def)
qed

lemma named_ok_lookup: "named_ok p \<Longrightarrow> map_of p n = Some c \<Longrightarrow> pg_pv_name c = n"
  by (auto simp: named_ok_def dest: map_of_SomeD)

definition walks_all :: "(rstring list \<Rightarrow> rstring list) \<Rightarrow> bool" where
  "walks_all iter \<longleftrightarrow> (\<forall>ks. set (iter ks) = set ks)"

lemma walks_allD: "walks_all iter \<Longrightarrow> set (iter ks) = set ks"
  by (simp add: walks_all_def)

lemma map_of_names: "(map_of p n = None) = (n \<notin> known_names p)"
  by (simp add: known_names_def)

lemma added_names:
  assumes "walks_all iter" "named_ok fresh"
  shows "change_name ` set (added_changes iter fresh known) = known_names fresh - known_names known"
    (is "?l = ?r")
proof
  show "?l \<subseteq> ?r"
  proof (rule image_subsetI)
    fix ch assume "ch \<in> set (added_changes iter fresh known)"
    then obtain n c where "ch = Added c" "map_of fresh n = Some c" "map_of known n = None"
      by (auto simp: added_changes_def members_map_filter split: if_splits)
    then show "change_name ch \<in> ?r"
      using named_ok_lookup[OF assms(2)] by (simp add: change_name_def known_names_def)
  qed
  show "?r \<subseteq> ?l"
  proof
    fix n assume n: "n \<in> ?r"
    then obtain c where "map_of fresh n = Some c"
      by (auto simp: known_names_def)
    moreover have "n \<in> set (iter (map fst fresh))"
      using n by (simp add: walks_allD[OF assms(1)] known_names_keys)
    ultimately have "Added c \<in> set (added_changes iter fresh known)" "pg_pv_name c = n"
      using n named_ok_lookup[OF assms(2)] by (auto simp: added_changes_def members_map_filter map_of_names)
    then show "n \<in> ?l"
      by (force simp: change_name_def)
  qed
qed

lemma removed_names:
  assumes "walks_all iter"
  shows "change_name ` set (removed_changes iter fresh known) = known_names known - known_names fresh"
  by (auto simp: removed_changes_def change_name_def image_image map_of_names walks_allD[OF assms] known_names_keys)

lemma modified_changeE:
  assumes "ch \<in> set (modified_changes iter fresh known)"
  obtains n old new where "ch = Modified new" "map_of known n = Some old" "map_of fresh n = Some new"
    "config_changed old new"
proof -
  from assms obtain n where "(case (map_of known n, map_of fresh n) of
      (Some old, Some new) \<Rightarrow> if config_changed old new then Some (Modified new) else None
    | _ \<Rightarrow> None) = Some ch"
    unfolding modified_changes_def members_map_filter by blast
  then show ?thesis
    using that by (cases "map_of known n"; cases "map_of fresh n") (auto split: if_splits)
qed

lemma modified_names:
  assumes "named_ok fresh"
  shows "change_name ` set (modified_changes iter fresh known) \<subseteq> known_names known \<inter> known_names fresh"
proof (rule image_subsetI)
  fix ch assume "ch \<in> set (modified_changes iter fresh known)"
  then obtain n old new where "ch = Modified new" "map_of known n = Some old" "map_of fresh n = Some new"
    by (rule modified_changeE)
  then show "change_name ch \<in> known_names known \<inter> known_names fresh"
    using named_ok_lookup[OF assms, of n new] map_of_names[of known n] map_of_names[of fresh n]
    by (simp add: change_name_def)
qed

lemma diff_removals:
  "ch \<in> set (added_changes iter fresh known) \<Longrightarrow> \<not> is_removal ch"
  "ch \<in> set (removed_changes iter fresh known) \<Longrightarrow> is_removal ch"
  "ch \<in> set (modified_changes iter fresh known) \<Longrightarrow> \<not> is_removal ch"
  by (auto simp: added_changes_def removed_changes_def members_map_filter is_removal_def
      elim!: modified_changeE split: if_splits)

text \<open>The changes of a poll: those that are removals name PVs the table no longer enables, the
  others PVs it does, and together they lead from the known names to the enabled ones.\<close>

lemma diff_names:
  assumes "walks_all iter" "config_diff iter cfgs known = (changes, known')"
  shows "fold names_after changes (known_names known) = enabled_names cfgs"
    "ch \<in> set changes \<Longrightarrow> is_removal ch \<longleftrightarrow> change_name ch \<notin> enabled_names cfgs"
    "known_names known' = enabled_names cfgs"
proof -
  let ?f = "by_name cfgs"
  have ch: "changes = added_changes iter ?f known @ removed_changes iter ?f known @ modified_changes iter ?f known"
    and k: "known' = fold apply_change changes known"
    using assms(2) by (auto simp: config_diff_def Let_def)
  note names = added_names[OF assms(1) named_ok_by_name, of cfgs known] removed_names[OF assms(1), of ?f known]
    modified_names[OF named_ok_by_name, of iter cfgs known]
  have f: "fold names_after (added_changes iter ?f known) S = S \<union> change_name ` set (added_changes iter ?f known)"
    "fold names_after (removed_changes iter ?f known) S = S - change_name ` set (removed_changes iter ?f known)"
    "fold names_after (modified_changes iter ?f known) S = S \<union> change_name ` set (modified_changes iter ?f known)" for S
    by (rule fold_names_inserts fold_names_removals, use diff_removals in blast)+
  show 1: "fold names_after changes (known_names known) = enabled_names cfgs"
    using names(3) unfolding ch fold_append comp_apply f names(1,2) known_names_by_name[symmetric] by blast
  show "known_names known' = enabled_names cfgs"
    unfolding k known_names_apply_all 1 ..
  assume "ch \<in> set changes"
  then consider "ch \<in> set (added_changes iter ?f known)" | "ch \<in> set (removed_changes iter ?f known)"
    | "ch \<in> set (modified_changes iter ?f known)"
    unfolding ch by auto
  then show "is_removal ch \<longleftrightarrow> change_name ch \<notin> enabled_names cfgs"
    unfolding known_names_by_name[symmetric]
  proof cases
    case 1
    then have "change_name ch \<in> known_names ?f - known_names known"
      using names(1) by blast
    then show "is_removal ch \<longleftrightarrow> change_name ch \<notin> known_names ?f"
      using diff_removals(1)[OF 1] by simp
  next
    case 2
    then have "change_name ch \<in> known_names known - known_names ?f"
      using names(2) by blast
    then show "is_removal ch \<longleftrightarrow> change_name ch \<notin> known_names ?f"
      using diff_removals(2)[OF 2] by simp
  next
    case 3
    then have "change_name ch \<in> known_names ?f"
      using names(3) by blast
    then show "is_removal ch \<longleftrightarrow> change_name ch \<notin> known_names ?f"
      using diff_removals(3)[OF 3] by simp
  qed
qed

section \<open>The reconciler\<close>

definition tracked :: "reconciler \<Rightarrow> rstring set" where
  "tracked r = set (rc_resolved r) \<union> set (rc_pending r)"

definition todo_names :: "PvChange list \<Rightarrow> todo \<Rightarrow> bool" where
  "todo_names changes t \<longleftrightarrow>
    set (td_resolve t) \<subseteq> change_name ` set (filter (\<lambda>ch. \<not> is_removal ch) changes) \<and>
    set (td_unsubscribe t) = change_name ` set (filter is_removal changes)"

text \<open>What holds between the state before a pass, the state reached and the lists filled.\<close>

definition pass_ok :: "rstring set \<Rightarrow> rstring set \<Rightarrow> reconciler \<times> todo \<Rightarrow> bool" where
  "pass_ok R S acc \<longleftrightarrow> (case acc of (r, t) \<Rightarrow>
     tracked r = S \<and> set (rc_pending r) \<subseteq> set (td_resolve t) \<and>
     set (rc_resolved r) = R - set (td_unsubscribe t))"

lemma pass_ok_change:
  assumes "pass_ok R S (r, t)"
  shows "pass_ok R (names_after ch S) (reconcile_change ch (r, t))"
  using assms
  by (cases ch) (auto simp: pass_ok_def reconcile_change_def names_after_def tracked_def ask_resolve_def)

lemma pass_ok_fold: "pass_ok R S acc \<Longrightarrow> pass_ok R (fold names_after chs S) (fold reconcile_change chs acc)"
proof (induction chs arbitrary: S acc)
  case (Cons ch chs)
  then show ?case
    using pass_ok_change[of R S "fst acc" "snd acc" ch] by simp
qed simp

lemma todo_names_fold:
  "todo_names done' t \<Longrightarrow> fold reconcile_change chs (r, t) = (r', t') \<Longrightarrow> todo_names (done' @ chs) t'"
proof (induction chs arbitrary: done' r t)
  case (Cons ch chs)
  obtain r1 t1 where 1: "reconcile_change ch (r, t) = (r1, t1)"
    by fastforce
  have "todo_names (done' @ [ch]) t1"
    using Cons.prems(1) 1
    by (cases ch) (auto simp: todo_names_def reconcile_change_def ask_resolve_def change_name_def is_removal_def
        split: if_splits)
  from Cons.IH[OF this, of r1] Cons.prems(2) 1 show ?case
    by simp
qed simp

lemma mark_one_resolved_sets [simp]:
  "set (rc_resolved (snd (mark_one_resolved addr n acc))) = insert n (set (rc_resolved (snd acc)))"
  "set (rc_pending (snd (mark_one_resolved addr n acc))) = set (rc_pending (snd acc)) - {n}"
  "fst ` set (fst (mark_one_resolved addr n acc)) =
     fst ` set (fst acc) \<union> ({n} - set (rc_resolved (snd acc)))"
  by (auto simp: mark_one_resolved_def split: prod.split)

lemma mark_resolved_sets:
  assumes "mark_resolved names addr r = (subs, r')"
  shows "set (rc_resolved r') = set (rc_resolved r) \<union> set names"
    "set (rc_pending r') = set (rc_pending r) - set names"
    "fst ` set subs = set names - set (rc_resolved r)"
proof -
  have *: "set (rc_resolved (snd (fold (mark_one_resolved addr) names acc))) =
        set (rc_resolved (snd acc)) \<union> set names"
    "set (rc_pending (snd (fold (mark_one_resolved addr) names acc))) = set (rc_pending (snd acc)) - set names"
    "fst ` set (fst (fold (mark_one_resolved addr) names acc)) =
        fst ` set (fst acc) \<union> (set names - set (rc_resolved (snd acc)))" for acc
    by (induction names arbitrary: acc) auto
  from *[of "([], r)"] assms show
    "set (rc_resolved r') = set (rc_resolved r) \<union> set names"
    "set (rc_pending r') = set (rc_pending r) - set names"
    "fst ` set subs = set names - set (rc_resolved r)"
    by (simp_all add: mark_resolved_def)
qed

section \<open>Replaying the commands\<close>

definition replay_one :: "IngestCommand \<Rightarrow> rstring set \<Rightarrow> rstring set" where
  "replay_one cmd S = (case cmd of
     CmdSubscribe pv _ \<Rightarrow> insert pv S
   | CmdSubscribeBatch pvs _ \<Rightarrow> S \<union> set pvs
   | CmdUnsubscribe pv \<Rightarrow> S - {pv}
   | CmdUnsubscribeBatch pvs \<Rightarrow> S - set pvs
   | CmdReload \<Rightarrow> S)"

definition replay :: "IngestCommand list \<Rightarrow> rstring set \<Rightarrow> rstring set" where
  "replay cmds S = fold replay_one cmds S"

lemma replay_simps [simp]:
  "replay [] S = S" "replay (c # cs) S = replay cs (replay_one c S)"
  "replay (cs @ ds) S = replay ds (replay cs S)"
  by (simp_all add: replay_def)

lemma resolve_batch_sets:
  assumes "resolve_batch addr_text names o0 = (n, o1)"
  shows "set (rc_resolved (or_reconciler o1)) = set (rc_resolved (or_reconciler o0)) \<union> set names"
    "set (rc_pending (or_reconciler o1)) = set (rc_pending (or_reconciler o0)) - set names"
    "replay (or_commands o1) S = replay (or_commands o0) S \<union> (set names - set (rc_resolved (or_reconciler o0)))"
    "or_poller o1 = or_poller o0"
    "n = 0 \<Longrightarrow> or_commands o1 = or_commands o0"
proof -
  obtain a where a: "(case or_name_servers o0 of [] \<Rightarrow> unresolved_addr | a # _ \<Rightarrow> a) = a"
    by simp
  obtain subs r where m: "mark_resolved names a (or_reconciler o0) = (subs, r)"
    by fastforce
  note sets = mark_resolved_sets[OF m]
  note R = assms[unfolded resolve_batch_def a m Let_def prod.case]
  show "set (rc_resolved (or_reconciler o1)) = set (rc_resolved (or_reconciler o0)) \<union> set names"
    "set (rc_pending (or_reconciler o1)) = set (rc_pending (or_reconciler o0)) - set names"
    "or_poller o1 = or_poller o0" "n = 0 \<Longrightarrow> or_commands o1 = or_commands o0"
    using R sets by (auto split: if_splits)
  show "replay (or_commands o1) S = replay (or_commands o0) S \<union> (set names - set (rc_resolved (or_reconciler o0)))"
    using R sets(3) by (auto simp: replay_one_def split: if_splits)
qed

section \<open>A cycle\<close>

definition settled :: "orchestrator \<Rightarrow> rstring set \<Rightarrow> bool" where
  "settled o0 S \<longleftrightarrow> known_names (or_poller o0) = S \<and> set (rc_resolved (or_reconciler o0)) = S \<and>
     rc_pending (or_reconciler o0) = []"

text \<open>The three lists of a pass, executed.\<close>

lemma execute_resolve:
  assumes "fold (execute_action addr_text) (if names = [] then [] else [Resolve names]) (res, o0) = (res1, o1)"
    and "or_commands o0 = []"
  shows "set (rc_resolved (or_reconciler o1)) = set (rc_resolved (or_reconciler o0)) \<union> set names"
    "set (rc_pending (or_reconciler o1)) = set (rc_pending (or_reconciler o0)) - set names"
    "replay (or_commands o1) S = S \<union> (set names - set (rc_resolved (or_reconciler o0)))"
    "or_poller o1 = or_poller o0" "cy_resolved res1 = 0 \<Longrightarrow> or_commands o1 = []"
    "cy_unsubscribed res1 = cy_unsubscribed res"
proof -
  have "set (rc_resolved (or_reconciler o1)) = set (rc_resolved (or_reconciler o0)) \<union> set names \<and>
    set (rc_pending (or_reconciler o1)) = set (rc_pending (or_reconciler o0)) - set names \<and>
    replay (or_commands o1) S = S \<union> (set names - set (rc_resolved (or_reconciler o0))) \<and>
    or_poller o1 = or_poller o0 \<and> (cy_resolved res1 = 0 \<longrightarrow> or_commands o1 = []) \<and>
    cy_unsubscribed res1 = cy_unsubscribed res"
  proof (cases "names = []")
    case False
    obtain n o2 where r: "resolve_batch addr_text names o0 = (n, o2)"
      by fastforce
    note * = resolve_batch_sets[OF r]
    show ?thesis
      using assms False r *(1,2,4,5) *(3)[of S] by (auto simp: execute_action_def)
  qed (use assms in auto)
  then show "set (rc_resolved (or_reconciler o1)) = set (rc_resolved (or_reconciler o0)) \<union> set names"
    "set (rc_pending (or_reconciler o1)) = set (rc_pending (or_reconciler o0)) - set names"
    "replay (or_commands o1) S = S \<union> (set names - set (rc_resolved (or_reconciler o0)))"
    "or_poller o1 = or_poller o0" "cy_resolved res1 = 0 \<Longrightarrow> or_commands o1 = []"
    "cy_unsubscribed res1 = cy_unsubscribed res"
    by simp_all
qed

lemma execute_unsubscribe:
  assumes "fold (execute_action addr_text) (if names = [] then [] else [UnsubscribeAll names]) (res, o0) = (res1, o1)"
  shows "or_reconciler o1 = or_reconciler o0" "replay (or_commands o1) S = replay (or_commands o0) S - set names"
    "or_poller o1 = or_poller o0" "cy_unsubscribed res1 = 0 \<Longrightarrow> or_commands o1 = or_commands o0"
    "cy_resolved res1 = cy_resolved res"
  using assms by (auto simp: execute_action_def cmd_unsubscribe_batch_def replay_one_def split: if_splits)

lemma execute_update:
  assumes "fold (execute_action addr_text) (if names = [] then [] else [UpdateFilter names]) (res, o0) = (res1, o1)"
  shows "o1 = o0" "cy_resolved res1 = cy_resolved res" "cy_unsubscribed res1 = cy_unsubscribed res"
  using assms by (auto simp: execute_action_def split: if_splits)

lemma work_off_settles:
  assumes "walks_all iter" "config_diff iter cfgs (or_poller o0) = (changes, p)" "settled o0 S"
    and "or_commands o0 = []" "work_off iter addr_text changes (o0 \<lparr> or_poller := p \<rparr>) = (res, o1)"
  shows "settled o1 (enabled_names cfgs)" "replay (or_commands o1) S = enabled_names cfgs"
    "cycle_is_empty res \<Longrightarrow> or_commands o1 = []"
proof -
  let ?A = "enabled_names cfgs"
  let ?o = "o0 \<lparr> or_poller := p \<rparr>"
  have S: "known_names (or_poller o0) = S" "set (rc_resolved (or_reconciler o0)) = S"
    "rc_pending (or_reconciler o0) = []"
    using assms(3) by (simp_all add: settled_def)
  note diff = diff_names[OF assms(1,2)]
  let ?goal = "settled o1 ?A \<and> replay (or_commands o1) S = ?A \<and> (cycle_is_empty res \<longrightarrow> or_commands o1 = [])"
  have ?goal
  proof (cases "changes = []")
    case True
    then have "S = ?A"
      using diff(1) S(1) by simp
    then show ?thesis
      using assms(4,5) True S diff(3)
      by (auto simp: work_off_def reconcile_def settled_def pending_count_def)
  next
    case False
    let ?r0 = "(or_reconciler o0) \<lparr> rc_total_reconciliations := rc_total_reconciliations (or_reconciler o0) + 1 \<rparr>"
    let ?t0 = "\<lparr> td_resolve = [], td_unsubscribe = [], td_update = [] \<rparr>"
    obtain r1 t where f: "fold reconcile_change changes (?r0, ?t0) = (r1, t)"
      by fastforce
    define r2 where "r2 = r1 \<lparr> rc_total_actions := rc_total_actions r1 + of_nat (length (todo_actions t)) \<rparr>"
    have rec: "reconcile changes (or_reconciler o0) = (todo_actions t, r2)"
      using False f by (simp add: reconcile_def r2_def Let_def)
    have "pass_ok S S (?r0, ?t0)"
      using S by (simp add: pass_ok_def tracked_def)
    from pass_ok_fold[OF this, of changes] have
      pass: "tracked r1 = ?A" "set (rc_pending r1) \<subseteq> set (td_resolve t)"
        "set (rc_resolved r1) = S - set (td_unsubscribe t)"
      unfolding f using diff(1) S(1) by (simp_all add: pass_ok_def)
    have "todo_names [] ?t0"
      by (simp add: todo_names_def)
    from todo_names_fold[OF this f] have
      todo: "set (td_resolve t) \<subseteq> ?A" "set (td_unsubscribe t) \<inter> ?A = {}"
      using diff(2) by (auto simp: todo_names_def)
    let ?res = "cycle_result_default \<lparr> cy_config_changes := length changes \<rparr>"
    let ?f = "execute_action addr_text"
    obtain res1 o2 where 1: "fold ?f (if td_resolve t = [] then [] else [Resolve (td_resolve t)])
        (?res, ?o \<lparr> or_reconciler := r2 \<rparr>) = (res1, o2)"
      by fastforce
    obtain res2 o3 where 2: "fold ?f (if td_unsubscribe t = [] then [] else [UnsubscribeAll (td_unsubscribe t)])
        (res1, o2) = (res2, o3)"
      by fastforce
    obtain res3 o4 where 3: "fold ?f (if td_update t = [] then [] else [UpdateFilter (td_update t)])
        (res2, o3) = (res3, o4)"
      by fastforce
    have all: "fold ?f (todo_actions t) (?res, ?o \<lparr> or_reconciler := r2 \<rparr>) = (res3, o4)"
      unfolding todo_actions_def fold_append comp_apply 1 2 3 ..
    note e1 = execute_resolve[OF 1] and e2 = execute_unsubscribe[OF 2] and e3 = execute_update[OF 3]
    have c0: "or_commands (?o \<lparr> or_reconciler := r2 \<rparr>) = []"
      using assms(4) by simp
    have r2: "set (rc_resolved r2) = set (rc_resolved r1)" "set (rc_pending r2) = set (rc_pending r1)"
      by (simp_all add: r2_def)
    have "set (rc_resolved (or_reconciler o4)) = ?A" "set (rc_pending (or_reconciler o4)) = {}"
      "or_poller o4 = p"
      using e1(1,2,4)[OF c0] e2(1,3) e3(1) r2 pass(1,2) todo(1) by (auto simp: tracked_def)
    then have o4: "set (rc_resolved (or_reconciler o4)) = ?A" "rc_pending (or_reconciler o4) = []"
      "or_poller o4 = p"
      by simp_all
    have rep: "replay (or_commands o4) S = ?A"
      using e1(3)[OF c0, of S] e2(2)[of S] e3(1) r2(1) pass(3) todo o4(1) e1(1)[OF c0] e2(1) by auto
    have none: "or_commands o4 = []" if "cy_resolved res3 = 0" "cy_unsubscribed res3 = 0"
      using that e1(5)[OF c0] e2(4,5) e3 by simp
    have "work_off iter addr_text changes ?o = (res3, o4)"
      using rec all o4(2) by (simp add: work_off_def pending_count_def)
    then have "res = res3" "o1 = o4"
      using assms(5) by simp_all
    then show ?thesis
      using o4 rep none diff(3) by (auto simp: settled_def cycle_is_empty_def)
  qed
  then show "settled o1 ?A" "replay (or_commands o1) S = ?A" "cycle_is_empty res \<Longrightarrow> or_commands o1 = []"
    by simp_all
qed

section \<open>A run\<close>

text \<open>The table a tick leaves: a poll replaces it only when both queries answer and the first
  one has rows.\<close>

definition table_after_tick :: "discover_tick \<Rightarrow> rstring set \<Rightarrow> rstring set" where
  "table_after_tick t S = (case (tk_changed t, tk_enabled t) of
     (Some (_ # _), Some cfgs) \<Rightarrow> enabled_names cfgs | _ \<Rightarrow> S)"

definition table_after :: "discover_tick list \<Rightarrow> rstring set \<Rightarrow> rstring set" where
  "table_after ts S = fold table_after_tick ts S"

lemma settled_cong:
  assumes "settled o0 S" "or_poller o1 = or_poller o0" "or_reconciler o1 = or_reconciler o0"
  shows "settled o1 S"
  using assms by (simp add: settled_def)

lemma cycle_settles:
  assumes "walks_all iter" "settled o0 S" "or_commands o0 = []"
    and "cycle iter addr_text (tk_changed t) (tk_enabled t) (tk_now t) o0 = (res, o1)"
  shows "settled o1 (table_after_tick t S) \<and> replay (or_commands o1) S = table_after_tick t S \<and>
    (case res of None \<Rightarrow> or_commands o1 = [] | Some r \<Rightarrow> cycle_is_empty r \<longrightarrow> or_commands o1 = [])"
proof (cases "\<exists>row rows cfgs. tk_changed t = Some (row # rows) \<and> tk_enabled t = Some cfgs")
  case True
  then obtain row rows cfgs where t: "tk_changed t = Some (row # rows)" "tk_enabled t = Some cfgs"
    by blast
  let ?o = "o0 \<lparr> or_cycles := or_cycles o0 + 1, or_last_poll := tk_now t \<rparr>"
  obtain changes p where d: "config_diff iter cfgs (or_poller ?o) = (changes, p)"
    by fastforce
  obtain r o2 where w: "work_off iter addr_text changes (?o \<lparr> or_poller := p \<rparr>) = (r, o2)"
    by fastforce
  have "res = Some r" "o1 = o2"
    using assms(4) t d w by (simp_all add: cycle_def Let_def)
  moreover have "settled ?o S" "or_commands ?o = []"
    using assms(2,3) by (auto intro: settled_cong)
  ultimately show ?thesis
    using work_off_settles[OF assms(1) d _ _ w] t by (simp add: table_after_tick_def)
next
  case False
  then have S: "table_after_tick t S = S"
    by (auto simp: table_after_tick_def split: option.split list.split)
  have pending: "pending_count (or_reconciler o0) = 0"
    using assms(2) by (simp add: settled_def pending_count_def)
  have "or_poller o1 = or_poller o0 \<and> or_reconciler o1 = or_reconciler o0 \<and> or_commands o1 = []"
    using assms(3,4) False pending
    by (auto simp: cycle_def Let_def neq_Nil_conv split: option.splits if_splits)
  then show ?thesis
    using settled_cong[OF assms(2), of o1] S by (simp split: option.split)
qed

text \<open>Decoding gives back what was encoded.\<close>

definition decodes :: "(IngestCommand \<Rightarrow> 'j) \<Rightarrow> ('j \<Rightarrow> IngestCommand option) \<Rightarrow> bool" where
  "decodes to_json from_json \<longleftrightarrow> (\<forall>c. from_json (to_json c) = Some c)"

lemma map_filter_app: "List.map_filter f (xs @ ys) = List.map_filter f xs @ List.map_filter f ys"
  by (simp add: List.map_filter_def)

lemma decoded: "decodes to_json from_json \<Longrightarrow> List.map_filter from_json (map to_json cs) = cs"
  by (induction cs) (simp_all add: decodes_def)

lemma publish_decoded:
  "decodes to_json from_json \<Longrightarrow> publish to_json ok o0 = (Some js, o1) \<Longrightarrow>
    List.map_filter from_json js = or_commands o0 \<and> o1 = o0 \<lparr> or_commands := [] \<rparr>"
  by (auto simp: publish_def flush_commands_def batch_take_def decoded split: if_splits)

lemma loop_settles:
  assumes "walks_all iter" "decodes to_json from_json"
  shows "settled o0 S \<Longrightarrow> or_commands o0 = [] \<Longrightarrow>
    discover_loop iter addr_text to_json ts o0 = (js, True, o1) \<Longrightarrow>
    settled o1 (table_after ts S) \<and> replay (List.map_filter from_json js) S = table_after ts S"
proof (induction ts arbitrary: o0 S js)
  case Nil
  then show ?case
    by (simp add: table_after_def)
next
  case (Cons t ts)
  obtain res o2 where c: "cycle iter addr_text (tk_changed t) (tk_enabled t) (tk_now t) o0 = (res, o2)"
    by fastforce
  note * = cycle_settles[OF assms(1) Cons.prems(1,2) c]
  have after: "table_after (t # ts) S = table_after ts (table_after_tick t S)"
    by (simp add: table_after_def)
  show ?case
  proof (cases "res = None \<or> (\<exists>r. res = Some r \<and> cycle_is_empty r)")
    case True
    then have "or_commands o2 = []" "discover_loop iter addr_text to_json ts o2 = (js, True, o1)"
      using * c Cons.prems(3) by (auto split: option.splits)
    moreover from this(1) have "table_after_tick t S = S"
      using * by simp
    ultimately show ?thesis
      using Cons.IH[of o2 S js] * unfolding after by simp
  next
    case False
    then obtain r where r: "res = Some r" "\<not> cycle_is_empty r"
      by auto
    obtain out o3 where p: "publish to_json (tk_accepted t) o2 = (out, o3)"
      by fastforce
    with r c Cons.prems(3) obtain jsons where out: "out = Some jsons"
      by (cases out) auto
    obtain js' where l: "discover_loop iter addr_text to_json ts o3 = (js', True, o1)" "js = jsons @ js'"
      using r c Cons.prems(3) p out by (auto split: prod.splits)
    have o3: "List.map_filter from_json jsons = or_commands o2" "o3 = o2 \<lparr> or_commands := [] \<rparr>"
      using publish_decoded[OF assms(2)] p out by blast+
    have "settled o3 (table_after_tick t S)" "or_commands o3 = []"
      using * o3(2) by (auto intro: settled_cong)
    from Cons.IH[OF this l(1)] show ?thesis
      unfolding after l(2) map_filter_app using * o3(1) by simp
  qed
qed

lemma resolve_actions:
  "fold (resolve_action addr_text) (todo_actions t) o0 = snd (resolve_batch addr_text (td_resolve t) o0)"
  by (simp add: todo_actions_def resolve_action_def resolve_batch_def)

lemma startup_settles:
  assumes "startup (Some cfgs) now (orchestrator_new parse_addr min_utc servers) = (Some actions, o1)"
    and "filter pg_enabled cfgs = cfgs" and "o2 = fold (resolve_action addr_text) actions o1"
  shows "settled o2 (enabled_names cfgs)" "replay (or_commands o2) {} = enabled_names cfgs"
proof -
  let ?o = "orchestrator_new parse_addr min_utc servers"
  let ?A = "enabled_names cfgs"
  have o1: "or_poller o1 = by_name cfgs" "or_commands o1 = []"
    using assms(1) by (auto simp: startup_def load_initial_def orchestrator_new_def split: prod.splits)
  have "settled o2 ?A \<and> replay (or_commands o2) {} = ?A"
  proof (cases "cfgs = []")
    case True
    then have "o2 = o1" "or_reconciler o1 = reconciler_new \<lparr> rc_total_reconciliations := 1 \<rparr>"
      using assms by (auto simp: startup_def reconcile_def orchestrator_new_def reconciler_new_def)
    then show ?thesis
      using o1 True by (simp add: settled_def enabled_names_def by_name_def reconciler_new_def)
  next
    case False
    let ?r0 = "reconciler_new \<lparr> rc_total_reconciliations := 1 \<rparr>"
    let ?t0 = "\<lparr> td_resolve = [], td_unsubscribe = [], td_update = [] \<rparr>"
    obtain r1 t where f: "fold reconcile_change (map Added cfgs) (?r0, ?t0) = (r1, t)"
      by fastforce
    have act: "actions = todo_actions t" "set (rc_resolved (or_reconciler o1)) = set (rc_resolved r1)"
      "set (rc_pending (or_reconciler o1)) = set (rc_pending r1)"
      using assms(1) False f
      by (auto simp: startup_def reconcile_def orchestrator_new_def reconciler_new_def Let_def)
    have "pass_ok {} {} (?r0, ?t0)"
      by (simp add: pass_ok_def tracked_def reconciler_new_def)
    from pass_ok_fold[OF this, of "map Added cfgs"]
    have pass: "tracked r1 = ?A" "set (rc_pending r1) \<subseteq> set (td_resolve t)" "set (rc_resolved r1) = {}"
      using fold_names_inserts[of "map Added cfgs" "{}"] f assms(2)
      by (auto simp: pass_ok_def is_removal_def change_name_def enabled_names_def image_image)
    have "todo_names [] ?t0"
      by (simp add: todo_names_def)
    from todo_names_fold[OF this f] have todo: "set (td_resolve t) \<subseteq> ?A"
      using assms(2) by (auto simp: todo_names_def change_name_def enabled_names_def)
    obtain n o3 where b: "resolve_batch addr_text (td_resolve t) o1 = (n, o3)"
      by fastforce
    have o2: "o2 = o3"
      unfolding assms(3) act(1) resolve_actions b by simp
    note sets = resolve_batch_sets[OF b]
    have "set (rc_pending (or_reconciler o3)) = {}" "set (rc_resolved (or_reconciler o3)) = ?A"
      using sets(1,2) act(2,3) pass todo by (auto simp: tracked_def)
    moreover have "replay (or_commands o3) {} = ?A"
      using sets(1) sets(3)[of "{}"] calculation(2) act(2) pass(3) o1(2) by simp
    ultimately show ?thesis
      using sets(4) o1(1) known_names_by_name[of cfgs] unfolding o2 by (simp add: settled_def)
  qed
  then show "settled o2 ?A" "replay (or_commands o2) {} = ?A"
    by simp_all
qed

text \<open>C5. As long as discovery runs, the commands it has published, decoded and replayed by
  the ingest process, leave subscribed exactly the PVs the table enabled at the last poll
  that succeeded, whatever changed in between and whichever polls failed; and every one of
  them is resolved.\<close>

theorem published_commands_match_table:
  assumes "walks_all iter" "filter pg_enabled cfgs = cfgs" "\<And>c. from_json (to_json c) = Some c"
    and "discover_run iter addr_text to_json (Some cfgs) now ok ticks (orchestrator_new parse_addr min_utc servers) =
      (published, True, o')"
  shows "replay (List.map_filter from_json published) {} = table_after ticks (enabled_names cfgs) \<and>
    settled o' (table_after ticks (enabled_names cfgs))"
proof -
  have codec: "decodes to_json from_json"
    using assms(3) by (simp add: decodes_def)
  let ?A = "enabled_names cfgs"
  obtain actions o1 where s: "startup (Some cfgs) now (orchestrator_new parse_addr min_utc servers) = (Some actions, o1)"
    by (cases "startup (Some cfgs) now (orchestrator_new parse_addr min_utc servers)") (auto simp: startup_def split: prod.splits)
  define o2 where "o2 = fold (resolve_action addr_text) actions o1"
  obtain out o3 where p: "publish to_json ok o2 = (out, o3)"
    by fastforce
  with assms(4) s obtain js where out: "out = Some js"
    unfolding discover_run_def o2_def by (cases out) auto
  obtain js' where l: "discover_loop iter addr_text to_json ticks o3 = (js', True, o')" "published = js @ js'"
    using assms(4) s p out unfolding discover_run_def o2_def by (auto split: prod.splits)
  note start = startup_settles[OF s assms(2) o2_def]
  have o3: "List.map_filter from_json js = or_commands o2" "o3 = o2 \<lparr> or_commands := [] \<rparr>"
    using publish_decoded[OF codec] p out by blast+
  have "settled o3 ?A" "or_commands o3 = []"
    using start(1) o3(2) by (auto intro: settled_cong)
  from loop_settles[OF assms(1) codec this l(1)] show ?thesis
    using start(2) o3(1) unfolding l(2) map_filter_app by simp
qed

text \<open>Two PVs at the start; one of them is disabled and another one added, one poll fails.\<close>

theorem published_commands_match_table_witness:
  "let tick = \<lambda>changed enabled. \<lparr> tk_changed = changed, tk_enabled = enabled, tk_now = 0, tk_accepted = True \<rparr>;
       a = pv_config_new [65]; b = pv_config_new [66]; c = pv_config_new [67];
       ticks = [tick (Some [c]) (Some [b, c]), tick None None, tick (Some []) None];
       published = fst (discover_run rev (\<lambda>_. []) id (Some [a, b]) 0 True ticks (orchestrator_new (\<lambda>_. None) 0 []))
   in replay (List.map_filter Some published) {} = {[66], [67]}"
proof -
  let ?tick = "\<lambda>changed enabled. \<lparr> tk_changed = changed, tk_enabled = enabled, tk_now = 0, tk_accepted = True \<rparr>"
  let ?a = "pv_config_new [65]" and ?b = "pv_config_new [66]" and ?c = "pv_config_new [67]"
  let ?ticks = "[?tick (Some [?c]) (Some [?b, ?c]), ?tick None None, ?tick (Some []) None]"
  let ?run = "discover_run rev (\<lambda>_. []) id (Some [?a, ?b]) 0 True ?ticks (orchestrator_new (\<lambda>_. None) 0 [])"
  have same: "\<not> config_changed ?b ?b"
    by (simp add: config_changed_def pv_config_new_def f64_eq_def f64_nan_def f64_exp_def)
  have running: "fst (snd ?run)"
    using same by (simp add: discover_run_def startup_def orchestrator_new_def poller_new_def load_initial_def
        by_name_def reconcile_def reconcile_change_def ask_resolve_def reconciler_new_def Let_def todo_actions_def
        resolve_action_def resolve_batch_def mark_resolved_def mark_one_resolved_def publish_def
        flush_commands_def batch_take_def cycle_def config_diff_def added_changes_def removed_changes_def
        modified_changes_def List.map_filter_def work_off_def execute_action_def cycle_is_empty_def
        cycle_result_default_def pending_count_def pv_config_new_def apply_change_def cmd_unsubscribe_batch_def)
  have table: "table_after ?ticks (enabled_names [?a, ?b]) = {[66], [67]}"
    by (auto simp: table_after_def table_after_tick_def enabled_names_def pv_config_new_def)
  have walks: "walks_all rev" and on: "filter pg_enabled [?a, ?b] = [?a, ?b]"
    by (simp_all add: walks_all_def pv_config_new_def)
  have "?run = (fst ?run, True, snd (snd ?run))"
    using running by (simp add: prod_eq_iff)
  from published_commands_match_table[OF walks on _ this, of Some] table show ?thesis
    by (simp add: Let_def)
qed

section \<open>Notifications\<close>

fun comma_joined :: "rstring list \<Rightarrow> rstring" where
  "comma_joined [] = []"
| "comma_joined [w] = w"
| "comma_joined (w # ws) = w @ 44 # comma_joined ws"

lemma split_at_word: "44 \<notin> set w \<Longrightarrow> split_at 44 w = [w]"
  by (induction w) auto

lemma split_at_app: "44 \<notin> set w \<Longrightarrow> split_at 44 (w @ 44 # rest') = w # split_at 44 rest'"
  by (induction w) auto

lemma listed_names_joined:
  assumes "ws \<noteq> []" "\<forall>w \<in> set ws. w \<noteq> [] \<and> 44 \<notin> set w"
  shows "listed_names (comma_joined ws) = ws"
  using assms
proof (induction ws rule: comma_joined.induct)
  case (3 w v ws)
  then show ?case
    by (simp add: listed_names_def split_at_app)
qed (simp_all add: listed_names_def split_at_word)

text \<open>The notification the database sends for a list of names is turned into one batch
  command for exactly these names, in their order; an empty list or another prefix gives none.\<close>

theorem notification_round_trip:
  assumes "\<forall>w \<in> set ws. w \<noteq> [] \<and> 44 \<notin> set w"
  shows "parse_pv_change (ascii ''add:'' @ comma_joined ws) =
      (if ws = [] then None else Some (CmdSubscribeBatch ws None)) \<and>
    parse_pv_change (ascii ''del:'' @ comma_joined ws) =
      (if ws = [] then None else Some (CmdUnsubscribeBatch ws)) \<and>
    parse_pv_change (comma_joined []) = None"
proof (cases "ws = []")
  case False
  then show ?thesis
    using listed_names_joined[OF False assms]
    by (simp add: parse_pv_change_def strip_prefix_def ascii_def Let_def)
qed (simp add: parse_pv_change_def strip_prefix_def ascii_def listed_names_def Let_def)

theorem notification_round_trip_witness:
  "parse_pv_change (ascii ''add:'' @ comma_joined [[65, 58, 49], [66]]) =
    Some (CmdSubscribeBatch [[65, 58, 49], [66]] None)"
  using notification_round_trip[of "[[65, 58, 49], [66]]"] by simp

section \<open>What a failed or an odd poll does\<close>

text \<open>The time of the last poll moves on although the second query failed: the rows that had
  changed are not asked for again.\<close>

lemma failed_poll_moves_on:
  "cycle iter addr_text (Some (row # rows)) None now o0 = (res, o1) \<Longrightarrow>
    res = None \<and> or_last_poll o1 = now \<and> or_poller o1 = or_poller o0"
  by (auto simp: cycle_def Let_def)

text \<open>A row deleted from the table changes no remaining row: the first query is empty and the
  PV stays subscribed.\<close>

lemma deleted_row_unnoticed:
  "pending_count (or_reconciler o0) = 0 \<Longrightarrow>
    cycle iter addr_text (Some []) enabled now o0 = (Some r, o1) \<Longrightarrow>
    or_commands o1 = or_commands o0 \<and> or_poller o1 = or_poller o0"
  by (auto simp: cycle_def Let_def)

end
