(* ===== verification/MetaStore.thy ===== *)
theory MetaStore
  imports Metadata JsonRows
begin

text \<open>
  The stored form of PV metadata and its table (\<open>aura-store/src/metadata.rs\<close>), with the
  error type of the crates (\<open>aura-core/src/error.rs\<close>).

  The table \<open>pv_metadata\<close> is a list of rows with distinct names; a row is the stored
  metadata and the time it was first seen, a column only the inserting statement sets.
  Whether a statement fails, and with which text, is an input.  The JSON of the dimensions
  is made by serde (\<open>dims_json\<close>); the literal of a text array is read by PostgreSQL
  (\<open>text_array\<close>).
\<close>

section \<open>Errors\<close>

datatype AuraError =
    AeIo rstring
  | AeRedis rstring
  | AeDatabase rstring
  | AePva rstring
  | AeConfig rstring
  | AeSerialization rstring
  | AePv rstring rstring
  | AeServiceUnavailable rstring rstring
  | AeTimeout rstring
  | AeInternal rstring

text \<open>The em dash of one of the texts is three bytes of UTF-8.\<close>

fun aura_error_display :: "AuraError \<Rightarrow> rstring" where
  "aura_error_display (AeIo e) = ascii ''I/O error: '' @ e"
| "aura_error_display (AeRedis e) = ascii ''Redis error: '' @ e"
| "aura_error_display (AeDatabase e) = ascii ''Database error: '' @ e"
| "aura_error_display (AePva e) = ascii ''PVA protocol error: '' @ e"
| "aura_error_display (AeConfig e) = ascii ''Configuration error: '' @ e"
| "aura_error_display (AeSerialization e) = ascii ''Serialization error: '' @ e"
| "aura_error_display (AePv pv detail) = ascii ''PV error: '' @ detail @ ascii '' (pv: '' @ pv @ ascii '')''"
| "aura_error_display (AeServiceUnavailable service reason) =
    ascii ''Service unavailable: '' @ service @ ascii '' '' @ [226, 128, 148] @ ascii '' '' @ reason"
| "aura_error_display (AeTimeout e) = ascii ''Timeout: '' @ e"
| "aura_error_display (AeInternal e) = ascii ''Internal error: '' @ e"

section \<open>Stored metadata\<close>

record ('dt, 'num) stored_metadata =
  sm_pv_name :: rstring
  sm_pv_id :: "32 word option"
  sm_data_type :: rstring
  sm_scalar_type :: "rstring option"
  sm_array_size :: "32 word option"
  sm_description :: rstring
  sm_units :: rstring
  sm_precision :: "32 word"
  sm_display_form :: rstring
  sm_display_low :: f64bits
  sm_display_high :: f64bits
  sm_control_low :: f64bits
  sm_control_high :: f64bits
  sm_min_step :: f64bits
  sm_alarm_lolo :: f64bits
  sm_alarm_low :: f64bits
  sm_alarm_high :: f64bits
  sm_alarm_hihi :: f64bits
  sm_alarm_hysteresis :: f64bits
  sm_enum_choices :: "rstring list"
  sm_dimensions :: "'num json"
  sm_updated_at :: 'dt

text \<open>\<open>{:?}\<close> of the two enumerations, the names of their variants.\<close>

fun data_type_debug :: "PvDataType \<Rightarrow> rstring" where
  "data_type_debug PdScalar = ascii ''Scalar''" | "data_type_debug PdString = ascii ''String''"
| "data_type_debug PdArray = ascii ''Array''" | "data_type_debug PdMatrix = ascii ''Matrix''"
| "data_type_debug PdHistogram = ascii ''Histogram''" | "data_type_debug PdContinuum = ascii ''Continuum''"
| "data_type_debug PdNameValue = ascii ''NameValue''" | "data_type_debug PdTable = ascii ''Table''"
| "data_type_debug PdImage = ascii ''Image''" | "data_type_debug PdMultiChannel = ascii ''MultiChannel''"
| "data_type_debug PdAggregate = ascii ''Aggregate''" | "data_type_debug PdUnion = ascii ''Union''"
| "data_type_debug PdCustom = ascii ''Custom''"

fun display_form_debug :: "DisplayForm \<Rightarrow> rstring" where
  "display_form_debug DfDefault = ascii ''Default''" | "display_form_debug DfString = ascii ''String''"
| "display_form_debug DfBinary = ascii ''Binary''" | "display_form_debug DfDecimal = ascii ''Decimal''"
| "display_form_debug DfHex = ascii ''Hex''" | "display_form_debug DfExponential = ascii ''Exponential''"
| "display_form_debug DfEngineering = ascii ''Engineering''"

text \<open>\<open>max(0.0)\<close>: a NaN gives the other operand.\<close>

definition f64_max0 :: "f64bits \<Rightarrow> f64bits" where
  "f64_max0 x = (if f64_nan x \<or> f64_key x < 0 then 0 else x)"

text \<open>\<open>clamp(0, 15)\<close> on \<open>i32\<close>.\<close>

definition clamp_precision :: "32 word \<Rightarrow> 32 word" where
  "clamp_precision p = (if p <s 0 then 0 else if 15 <s p then 15 else p)"

definition stored_from_core ::
  "(dimension_info list \<Rightarrow> 'num json) \<Rightarrow> 'dt \<Rightarrow> 'dt pv_metadata \<Rightarrow> ('dt, 'num) stored_metadata" where
  "stored_from_core dims_json now m =
    \<lparr> sm_pv_name = pm_pv_name m, sm_pv_id = pm_pv_id m, sm_data_type = data_type_debug (pm_data_type m),
      sm_scalar_type = map_option scalar_name (pm_scalar_type m),
      sm_array_size = map_option of_nat (pm_array_size m), sm_description = pm_description m,
      sm_units = pm_units m, sm_precision = clamp_precision (pm_precision m),
      sm_display_form = display_form_debug (pm_display_form m), sm_display_low = pm_display_low m,
      sm_display_high = pm_display_high m, sm_control_low = pm_control_low m,
      sm_control_high = pm_control_high m, sm_min_step = f64_max0 (pm_min_step m),
      sm_alarm_lolo = pm_alarm_lolo m, sm_alarm_low = pm_alarm_low m, sm_alarm_high = pm_alarm_high m,
      sm_alarm_hihi = pm_alarm_hihi m, sm_alarm_hysteresis = f64_max0 (pm_alarm_hysteresis m),
      sm_enum_choices = pm_enum_choices m, sm_dimensions = dims_json (pm_dimensions m),
      sm_updated_at = (case pm_updated_at m of Some t \<Rightarrow> t | None \<Rightarrow> now) \<rparr>"

definition sm_has_alarms :: "('dt, 'num) stored_metadata \<Rightarrow> bool" where
  "sm_has_alarms m \<longleftrightarrow> \<not> f64_eq (sm_alarm_lolo m) 0 \<or> \<not> f64_eq (sm_alarm_low m) 0 \<or>
     \<not> f64_eq (sm_alarm_high m) 0 \<or> \<not> f64_eq (sm_alarm_hihi m) 0"

definition sm_has_display_range :: "('dt, 'num) stored_metadata \<Rightarrow> bool" where
  "sm_has_display_range m \<longleftrightarrow> \<not> f64_eq (sm_display_low m) (sm_display_high m)"

definition sm_has_control_range :: "('dt, 'num) stored_metadata \<Rightarrow> bool" where
  "sm_has_control_range m \<longleftrightarrow> \<not> f64_eq (sm_control_low m) (sm_control_high m)"

definition sm_is_enum :: "('dt, 'num) stored_metadata \<Rightarrow> bool" where
  "sm_is_enum m \<longleftrightarrow> sm_enum_choices m \<noteq> []"

definition sm_mem_size :: "('dt, 'num) stored_metadata \<Rightarrow> nat" where
  "sm_mem_size m = length (sm_pv_name m) + length (sm_data_type m) +
     (case sm_scalar_type m of Some s \<Rightarrow> length s + 24 | None \<Rightarrow> 0) + length (sm_description m) +
     length (sm_units m) + length (sm_display_form m) +
     sum_list (map (\<lambda>s. length s + 24) (sm_enum_choices m)) + estimate_json_size (sm_dimensions m) + 200"

definition sm_display :: "('dt, 'num) stored_metadata \<Rightarrow> rstring" where
  "sm_display m = sm_pv_name m @ ascii '' ('' @ sm_data_type m @
     (case sm_scalar_type m of Some s \<Rightarrow> ascii ''/'' @ s | None \<Rightarrow> []) @
     (if sm_units m = [] then [] else ascii '', '' @ sm_units m) @ ascii '')''"

section \<open>The table\<close>

type_synonym ('dt, 'num) meta_table = "(rstring \<times> ('dt, 'num) stored_metadata \<times> 'dt) list"

type_synonym statement = "rstring option"

definition db_error :: "string \<Rightarrow> rstring \<Rightarrow> AuraError" where
  "db_error context e = AeDatabase (ascii context @ ascii '': '' @ e)"

definition meta_get ::
  "statement \<Rightarrow> rstring \<Rightarrow> ('dt, 'num) meta_table \<Rightarrow> AuraError + ('dt, 'num) stored_metadata option" where
  "meta_get s name tbl =
    (case s of Some e \<Rightarrow> Err (db_error ''get metadata'' e) | None \<Rightarrow> Ok (map_option fst (map_of tbl name)))"

text \<open>The statement \<open>UPSERT\<close>: the time of the update is the database's, the time first seen is
  kept.\<close>

definition upsert_row ::
  "'dt \<Rightarrow> ('dt, 'num) stored_metadata \<Rightarrow> ('dt, 'num) meta_table \<Rightarrow> ('dt, 'num) meta_table" where
  "upsert_row now m tbl = AList.update (sm_pv_name m)
     (m \<lparr> sm_updated_at := now \<rparr>, (case map_of tbl (sm_pv_name m) of Some (_, seen) \<Rightarrow> seen | None \<Rightarrow> now)) tbl"

definition meta_upsert ::
  "statement \<Rightarrow> 'dt \<Rightarrow> ('dt, 'num) stored_metadata \<Rightarrow> ('dt, 'num) meta_table \<Rightarrow>
    (AuraError + unit) \<times> ('dt, 'num) meta_table" where
  "meta_upsert s now m tbl =
    (case s of Some e \<Rightarrow> (Err (db_error ''upsert metadata'' e), tbl) | None \<Rightarrow> (Ok (), upsert_row now m tbl))"

text \<open>The array literal of the bulk statement.\<close>

definition replace_byte :: "byte \<Rightarrow> rstring \<Rightarrow> rstring \<Rightarrow> rstring" where
  "replace_byte b by s = concat (map (\<lambda>c. if c = b then by else [c]) s)"

definition quoted_element :: "rstring \<Rightarrow> rstring" where
  "quoted_element s = 34 # replace_byte 34 [92, 34] (replace_byte 92 [92, 92] s) @ [34]"

fun join_comma :: "rstring list \<Rightarrow> rstring" where
  "join_comma [] = []"
| "join_comma [w] = w"
| "join_comma (w # ws) = w @ 44 # join_comma ws"

definition array_literal :: "rstring list \<Rightarrow> rstring" where
  "array_literal xs = (if xs = [] then [123, 125] else 123 # join_comma (map quoted_element xs) @ [125])"

text \<open>\<open>bulk_insert\<close>: two statements without a transaction.  The insertion fails on a name that
  is there twice (the primary key), with the text \<open>conflict\<close>.\<close>

definition inserted_row ::
  "(rstring \<Rightarrow> rstring list) \<Rightarrow> 'dt \<Rightarrow> ('dt, 'num) stored_metadata \<Rightarrow> rstring \<times> ('dt, 'num) stored_metadata \<times> 'dt" where
  "inserted_row text_array now m =
    (sm_pv_name m, m \<lparr> sm_enum_choices := text_array (array_literal (sm_enum_choices m)),
       sm_updated_at := now \<rparr>, now)"

definition bulk_insert ::
  "(rstring \<Rightarrow> rstring list) \<Rightarrow> rstring \<Rightarrow> statement \<Rightarrow> statement \<Rightarrow> 'dt \<Rightarrow> ('dt, 'num) stored_metadata list \<Rightarrow>
    ('dt, 'num) meta_table \<Rightarrow> (AuraError + nat) \<times> ('dt, 'num) meta_table" where
  "bulk_insert text_array conflict del ins now entries tbl =
    (case del of
       Some e \<Rightarrow> (Err (db_error ''bulk metadata delete'' e), tbl)
     | None \<Rightarrow>
        (let tbl1 = filter (\<lambda>(n, _). n \<notin> sm_pv_name ` set entries) tbl in
         case ins of
           Some e \<Rightarrow> (Err (db_error ''bulk metadata insert'' e), tbl1)
         | None \<Rightarrow>
            if distinct (map sm_pv_name entries)
            then (Ok (length entries), tbl1 @ map (inserted_row text_array now) entries)
            else (Err (db_error ''bulk metadata insert'' conflict), tbl1)))"

text \<open>The transaction of a small batch: \<open>row i\<close> is the outcome of the \<open>i\<close>-th statement.\<close>

fun first_failure :: "(nat \<Rightarrow> statement) \<Rightarrow> nat \<Rightarrow> ('dt, 'num) stored_metadata list \<Rightarrow> AuraError option" where
  "first_failure row i [] = None"
| "first_failure row i (m # ms) =
    (case row i of
       Some e \<Rightarrow> Some (AeDatabase (ascii ''upsert metadata ('' @ sm_pv_name m @ ascii ''): '' @ e))
     | None \<Rightarrow> first_failure row (i + 1) ms)"

definition upsert_all ::
  "'dt \<Rightarrow> ('dt, 'num) stored_metadata list \<Rightarrow> ('dt, 'num) meta_table \<Rightarrow> ('dt, 'num) meta_table" where
  "upsert_all now entries tbl = fold (upsert_row now) entries tbl"

definition upsert_in_transaction ::
  "statement \<Rightarrow> (nat \<Rightarrow> statement) \<Rightarrow> statement \<Rightarrow> 'dt \<Rightarrow> ('dt, 'num) stored_metadata list \<Rightarrow>
    ('dt, 'num) meta_table \<Rightarrow> (AuraError + nat) \<times> ('dt, 'num) meta_table" where
  "upsert_in_transaction begin_tx row commit now entries tbl =
    (case begin_tx of
       Some e \<Rightarrow> (Err (db_error ''metadata batch begin'' e), tbl)
     | None \<Rightarrow>
        (case first_failure row 0 entries of
           Some e \<Rightarrow> (Err e, tbl)
         | None \<Rightarrow>
            (case commit of
               Some e \<Rightarrow> (Err (db_error ''metadata batch commit'' e), tbl)
             | None \<Rightarrow> (Ok (length entries), upsert_all now entries tbl))))"

record meta_outcomes =
  mo_delete :: statement
  mo_insert :: statement
  mo_begin :: statement
  mo_row :: "nat \<Rightarrow> statement"
  mo_commit :: statement

definition BULK_FROM :: nat where "BULK_FROM = 100"

definition meta_upsert_batch ::
  "(rstring \<Rightarrow> rstring list) \<Rightarrow> rstring \<Rightarrow> meta_outcomes \<Rightarrow> 'dt \<Rightarrow> ('dt, 'num) stored_metadata list \<Rightarrow>
    ('dt, 'num) meta_table \<Rightarrow> (AuraError + nat) \<times> ('dt, 'num) meta_table" where
  "meta_upsert_batch text_array conflict out now entries tbl =
    (if entries = [] then (Ok 0, tbl)
     else if length entries \<ge> BULK_FROM
     then bulk_insert text_array conflict (mo_delete out) (mo_insert out) now entries tbl
     else upsert_in_transaction (mo_begin out) (mo_row out) (mo_commit out) now entries tbl)"

definition meta_delete ::
  "statement \<Rightarrow> rstring \<Rightarrow> ('dt, 'num) meta_table \<Rightarrow> (AuraError + bool) \<times> ('dt, 'num) meta_table" where
  "meta_delete s name tbl =
    (case s of
       Some e \<Rightarrow> (Err (db_error ''delete metadata'' e), tbl)
     | None \<Rightarrow> (Ok (map_of tbl name \<noteq> None), AList.delete name tbl))"

text \<open>\<open>by_name\<close> is the \<open>ORDER BY\<close> of the database.\<close>

definition meta_list_all ::
  "(('dt, 'num) stored_metadata list \<Rightarrow> ('dt, 'num) stored_metadata list) \<Rightarrow> statement \<Rightarrow>
    ('dt, 'num) meta_table \<Rightarrow> AuraError + ('dt, 'num) stored_metadata list" where
  "meta_list_all by_name s tbl =
    (case s of Some e \<Rightarrow> Err (db_error ''list metadata'' e) | None \<Rightarrow> Ok (by_name (map (fst \<circ> snd) tbl)))"

definition meta_count :: "statement \<Rightarrow> ('dt, 'num) meta_table \<Rightarrow> AuraError + int" where
  "meta_count s tbl =
    (case s of Some e \<Rightarrow> Err (db_error ''count metadata'' e) | None \<Rightarrow> Ok (int (length tbl)))"

definition meta_get_by_type ::
  "(('dt, 'num) stored_metadata list \<Rightarrow> ('dt, 'num) stored_metadata list) \<Rightarrow> statement \<Rightarrow> rstring \<Rightarrow>
    ('dt, 'num) meta_table \<Rightarrow> AuraError + ('dt, 'num) stored_metadata list" where
  "meta_get_by_type by_name s data_type tbl =
    (case s of
       Some e \<Rightarrow> Err (db_error ''get_by_type'' e)
     | None \<Rightarrow> Ok (by_name (filter (\<lambda>m. sm_data_type m = data_type) (map (fst \<circ> snd) tbl))))"

section \<open>Bounds\<close>

lemma f64_max0_nonneg: "f64_le 0 (f64_max0 x)"
  by (simp add: f64_max0_def f64_le_def f64_key_def f64_nan_def f64_exp_def f64_frac_def f64_sign_def)

lemma clamp_precision_range: "0 \<le> sint (clamp_precision p) \<and> sint (clamp_precision p) \<le> 15"
  by (auto simp: clamp_precision_def word_sless_alt)

text \<open>Whatever an IOC announces, the stored precision lies between 0 and 15 and the
  smallest step and the hysteresis are numbers that are not negative; a precision in that
  range and the other limits are stored as they are.\<close>

theorem stored_metadata_bounds:
  "let s = stored_from_core dims_json now m in
     0 \<le> sint (sm_precision s) \<and> sint (sm_precision s) \<le> 15 \<and>
     f64_le 0 (sm_min_step s) \<and> f64_le 0 (sm_alarm_hysteresis s) \<and>
     (sint (sm_precision s) = max 0 (min 15 (sint (pm_precision m)))) \<and>
     sm_display_low s = pm_display_low m \<and> sm_alarm_hihi s = pm_alarm_hihi m"
  using clamp_precision_range[of "pm_precision m"]
  by (auto simp: Let_def stored_from_core_def f64_max0_nonneg clamp_precision_def word_sless_alt)

section \<open>Array literals\<close>

text \<open>A reader of such a literal: elements in quotes, a backslash before a byte taken as it
  is.\<close>

fun read_quoted :: "rstring \<Rightarrow> (rstring \<times> rstring) option" where
  "read_quoted [] = None"
| "read_quoted (b # bs) =
    (if b = 34 then Some ([], bs)
     else if b = 92 then
       (case bs of [] \<Rightarrow> None | c # cs \<Rightarrow> map_option (\<lambda>(w, r). (c # w, r)) (read_quoted cs))
     else map_option (\<lambda>(w, r). (b # w, r)) (read_quoted bs))"

lemma read_quoted_shorter: "read_quoted bs = Some (w, r) \<Longrightarrow> length r < length bs"
  by (induction bs arbitrary: w r rule: read_quoted.induct) (force split: if_splits list.splits)+

function read_elements :: "rstring \<Rightarrow> rstring list option" where
  "read_elements bs =
    (case bs of
       [] \<Rightarrow> None
     | b # cs \<Rightarrow>
        if b \<noteq> 34 then None
        else
          (case read_quoted cs of
             None \<Rightarrow> None
           | Some (w, r) \<Rightarrow>
              if r = [125] then Some [w]
              else (case r of
                  [] \<Rightarrow> None
                | c # ds \<Rightarrow> if c = 44 then map_option ((#) w) (read_elements ds) else None)))"
  by pat_completeness auto
termination
  by (relation "measure length") (auto dest: read_quoted_shorter)

declare read_elements.simps [simp del]

definition read_array :: "rstring \<Rightarrow> rstring list option" where
  "read_array bs =
    (case bs of [] \<Rightarrow> None | b # cs \<Rightarrow> if b \<noteq> 123 then None else if cs = [125] then Some [] else read_elements cs)"

lemma read_quoted_element:
  "read_quoted (replace_byte 34 [92, 34] (replace_byte 92 [92, 92] s) @ 34 # rest') = Some (s, rest')"
  by (induction s) (simp_all add: replace_byte_def)

lemma read_elements_joined:
  "ws \<noteq> [] \<Longrightarrow> read_elements (join_comma (map quoted_element ws) @ [125]) = Some ws"
proof (induction ws rule: join_comma.induct)
  case (2 w)
  then show ?case
    by (subst read_elements.simps) (simp add: quoted_element_def read_quoted_element)
next
  case (3 w v ws)
  then have "read_elements (join_comma (map quoted_element (v # ws)) @ [125]) = Some (v # ws)"
    by simp
  then show ?case
    by (subst read_elements.simps) (simp add: quoted_element_def read_quoted_element)
qed simp

lemma read_array_literal: "read_array (array_literal xs) = Some xs"
proof (cases xs)
  case (Cons x ys)
  then have "join_comma (map quoted_element xs) @ [125] \<noteq> [125]"
    by (cases ys) (simp_all add: quoted_element_def)
  then show ?thesis
    using Cons read_elements_joined[of xs] by (simp add: read_array_def array_literal_def)
qed (simp add: read_array_def array_literal_def)

text \<open>C39. The array literal of a list of enumeration choices is read back as that list, with
  any quotes, backslashes, commas, braces and empty strings in them, so no two lists share
  a literal.\<close>

theorem array_literal_round_trip:
  "read_array (array_literal xs) = Some xs \<and> (array_literal xs = array_literal ys \<longleftrightarrow> xs = ys)"
  by (metis read_array_literal option.inject)

section \<open>The two ways of a batch\<close>

lemma upsert_all_other:
  "name \<notin> sm_pv_name ` set entries \<Longrightarrow> map_of (upsert_all now entries tbl) name = map_of tbl name"
  unfolding upsert_all_def
  by (induction entries arbitrary: tbl) (simp_all add: upsert_row_def update_conv')

lemma upsert_all_entry:
  assumes "distinct (map sm_pv_name entries)" "m \<in> set entries"
  shows "map_of (upsert_all now entries tbl) (sm_pv_name m) =
    Some (m \<lparr> sm_updated_at := now \<rparr>, (case map_of tbl (sm_pv_name m) of Some (_, seen) \<Rightarrow> seen | None \<Rightarrow> now))"
  using assms
proof (induction entries arbitrary: tbl)
  case (Cons e es)
  let ?tbl = "upsert_row now e tbl"
  have step: "upsert_all now (e # es) tbl = upsert_all now es ?tbl"
    by (simp add: upsert_all_def)
  show ?case
  proof (cases "m = e")
    case True
    then have "sm_pv_name m \<notin> sm_pv_name ` set es"
      using Cons.prems(1) by simp
    from upsert_all_other[OF this] show ?thesis
      unfolding step using True by (simp add: upsert_row_def update_conv')
  next
    case False
    then have "m \<in> set es"
      using Cons.prems(2) by simp
    moreover from this have "sm_pv_name m \<noteq> sm_pv_name e"
      using Cons.prems(1) by (metis distinct.simps(2) image_eqI list.simps(9) set_map)
    ultimately have "m \<in> set es" "sm_pv_name m \<noteq> sm_pv_name e"
      by simp_all
    then show ?thesis
      unfolding step using Cons.IH[of ?tbl] Cons.prems(1) by (simp add: upsert_row_def update_conv')
  qed
qed simp

lemma bulk_entry:
  assumes "distinct (map sm_pv_name entries)" "m \<in> set entries"
  shows "map_of (map (inserted_row text_array now) entries) (sm_pv_name m) = Some (snd (inserted_row text_array now m))"
proof (rule map_of_is_SomeI)
  have "map fst (map (inserted_row text_array now) entries) = map sm_pv_name entries"
    by (simp add: inserted_row_def comp_def)
  then show "distinct (map fst (map (inserted_row text_array now) entries))"
    using assms(1) by (simp only:)
  have "inserted_row text_array now m \<in> set (map (inserted_row text_array now) entries)"
    using assms(2) by simp
  then show "(sm_pv_name m, snd (inserted_row text_array now m)) \<in> set (map (inserted_row text_array now) entries)"
    by (simp add: inserted_row_def)
qed

lemma map_of_dropped: "map_of (filter (\<lambda>(n, _). n \<notin> A) tbl) name = (if name \<in> A then None else map_of tbl name)"
  by (induction tbl) auto

lemma bulk_other:
  "name \<notin> sm_pv_name ` set entries \<Longrightarrow> map_of (map (inserted_row text_array now) entries) name = None"
  by (induction entries) (auto simp: inserted_row_def)

text \<open>C23. The statement pair a batch of a hundred or more entries is written with leaves the
  same metadata in the table as the transaction of single upserts a smaller batch uses, for
  entries of different PVs: a reader of the table cannot tell them apart, and both report
  the number of entries.\<close>

theorem metadata_batches_agree:
  assumes "distinct (map sm_pv_name entries)" "\<And>xs. text_array (array_literal xs) = xs"
  shows "fst (bulk_insert text_array conflict None None now entries tbl) = Ok (length entries) \<and>
    fst (upsert_in_transaction None (\<lambda>_. None) None now entries tbl) = Ok (length entries) \<and>
    meta_get None name (snd (bulk_insert text_array conflict None None now entries tbl)) =
      meta_get None name (snd (upsert_in_transaction None (\<lambda>_. None) None now entries tbl))"
proof -
  have none: "first_failure (\<lambda>_. None) i entries = None" for i
    by (induction entries arbitrary: i) simp_all
  have bulk: "snd (bulk_insert text_array conflict None None now entries tbl) =
      filter (\<lambda>(n, _). n \<notin> sm_pv_name ` set entries) tbl @ map (inserted_row text_array now) entries"
    using assms(1) by (simp add: bulk_insert_def)
  have "map_option fst (map_of (snd (bulk_insert text_array conflict None None now entries tbl)) name) =
      map_option fst (map_of (upsert_all now entries tbl) name)"
  proof (cases "name \<in> sm_pv_name ` set entries")
    case True
    then obtain m where m: "m \<in> set entries" "name = sm_pv_name m"
      by auto
    then show ?thesis
      unfolding bulk using bulk_entry[OF assms(1) m(1), of text_array now] upsert_all_entry[OF assms(1) m(1), of now tbl]
        assms(2)
      by (simp add: map_add_def map_of_dropped inserted_row_def split: option.split)
  next
    case False
    from bulk_other[OF this, of text_array now] upsert_all_other[OF this, of now tbl] show ?thesis
      unfolding bulk using False by (simp add: map_add_def map_of_dropped split: option.split)
  qed
  then show ?thesis
    using assms(1) none by (simp add: bulk_insert_def upsert_in_transaction_def meta_get_def)
qed

theorem metadata_batches_agree_witness:
  "let m = \<lambda>n. stored_from_core (\<lambda>_. JNull :: unit json) (0 :: nat) (meta_empty [n] PdScalar 0);
       arr = \<lambda>bs. case read_array bs of Some xs \<Rightarrow> xs | None \<Rightarrow> []
   in meta_get None [66] (snd (bulk_insert arr [] None None 5 [m 65, m 66] [])) =
      meta_get None [66] (snd (upsert_in_transaction None (\<lambda>_. None) None 5 [m 65, m 66] []))"
proof -
  let ?m = "\<lambda>n. stored_from_core (\<lambda>_. JNull :: unit json) (0 :: nat) (meta_empty [n] PdScalar 0)"
  let ?arr = "\<lambda>bs. case read_array bs of Some xs \<Rightarrow> xs | None \<Rightarrow> []"
  have "distinct (map sm_pv_name [?m 65, ?m 66])" "\<And>xs. ?arr (array_literal xs) = xs"
    by (simp_all add: stored_from_core_def meta_empty_def read_array_literal)
  from metadata_batches_agree[OF this, of "[]" 5 "[]" "[66]"] show ?thesis
    by (simp add: Let_def)
qed

section \<open>What the bulk statements lose\<close>

text \<open>Without a transaction, a failed insertion leaves the rows of the batch deleted; and a
  batch that holds a name twice always fails.\<close>

lemma failed_bulk_loses_metadata:
  assumes "m \<in> set entries" "ins \<noteq> None \<or> \<not> distinct (map sm_pv_name entries)"
  shows "meta_get None (sm_pv_name m) (snd (bulk_insert text_array conflict None ins now entries tbl)) = Ok None"
proof -
  have "map_of (filter (\<lambda>(n, _). n \<notin> sm_pv_name ` set entries) tbl) (sm_pv_name m) = None"
    using assms(1) by (simp add: map_of_dropped)
  then show ?thesis
    using assms(2) by (auto simp: bulk_insert_def meta_get_def Let_def split: option.split)
qed

text \<open>A bulk batch forgets when a PV was first seen, a small one does not.\<close>

lemma bulk_resets_first_seen:
  assumes "distinct (map sm_pv_name entries)" "m \<in> set entries"
  shows "map_option snd (map_of (snd (bulk_insert text_array conflict None None now entries tbl)) (sm_pv_name m)) = Some now"
    "map_of tbl (sm_pv_name m) = Some (old, seen) \<Longrightarrow>
      map_option snd (map_of (upsert_all now entries tbl) (sm_pv_name m)) = Some seen"
  using bulk_entry[OF assms, of text_array now] upsert_all_entry[OF assms, of now tbl] assms
  by (simp_all add: bulk_insert_def map_add_def inserted_row_def map_of_dropped split: option.split)

end
