(* ===== verification/Alerts.thy ===== *)
theory Alerts
  imports MetaStore Discover
begin

text \<open>
  The alert log (\<open>aura-store/src/alerts.rs\<close>, levels in \<open>aura-core/src/alert.rs\<close>): the
  alerts the program writes, the rows of the table \<open>alert_log\<close> and the queries on it.

  The table is the list of its rows in the order of their insertion; the statements are the
  SQL texts of the file, written as functions on that list.  Whether a statement fails, the
  time of the database and the order of rows with equal times (\<open>newest\<close>, the \<open>ORDER BY
  time DESC\<close>) are inputs.  An id is the number the sequence hands out.
\<close>

section \<open>Levels and categories\<close>

fun level_as_str :: "AlertLevel \<Rightarrow> rstring" where
  "level_as_str AlInfo = ascii ''info''"
| "level_as_str AlWarning = ascii ''warning''"
| "level_as_str AlCritical = ascii ''critical''"

definition level_all :: "AlertLevel list" where
  "level_all = [AlInfo, AlWarning, AlCritical]"

fun level_severity :: "AlertLevel \<Rightarrow> 8 word" where
  "level_severity AlInfo = 0" | "level_severity AlWarning = 1" | "level_severity AlCritical = 2"

text \<open>\<open>from_str\<close>: the error text quotes the string in the debug format of the library, left
  out here.\<close>

definition level_from_str :: "rstring \<Rightarrow> AlertLevel option" where
  "level_from_str s =
    (if s = ascii ''info'' then Some AlInfo else if s = ascii ''warning'' then Some AlWarning
     else if s = ascii ''critical'' then Some AlCritical else None)"

datatype AlertCategory = AcSystem | AcPv | AcIoc | AcShard

fun category_as_str :: "AlertCategory \<Rightarrow> rstring" where
  "category_as_str AcSystem = ascii ''system''" | "category_as_str AcPv = ascii ''pv''"
| "category_as_str AcIoc = ascii ''ioc''" | "category_as_str AcShard = ascii ''shard''"

definition category_all :: "AlertCategory list" where
  "category_all = [AcSystem, AcPv, AcIoc, AcShard]"

definition category_from_str :: "rstring \<Rightarrow> AlertCategory option" where
  "category_from_str s =
    (if s = ascii ''system'' then Some AcSystem else if s = ascii ''pv'' then Some AcPv
     else if s = ascii ''ioc'' then Some AcIoc else if s = ascii ''shard'' then Some AcShard else None)"

section \<open>Alerts\<close>

text \<open>A \<open>Cow<'static, str>\<close>.\<close>

datatype cow = Borrowed rstring | Owned rstring

fun cow_str :: "cow \<Rightarrow> rstring" where
  "cow_str (Borrowed s) = s" | "cow_str (Owned s) = s"

record 'num alert =
  at_level :: AlertLevel
  at_source :: cow
  at_category :: AlertCategory
  at_pv_name :: "cow option"
  at_ioc_addr :: "cow option"
  at_message :: rstring
  at_details :: "'num json"

definition alert_new :: "AlertLevel \<Rightarrow> AlertCategory \<Rightarrow> rstring \<Rightarrow> 'num alert" where
  "alert_new level category message =
    \<lparr> at_level = level, at_source = Borrowed (ascii ''store''), at_category = category, at_pv_name = None,
      at_ioc_addr = None, at_message = message, at_details = JObject [] \<rparr>"

definition with_source_static :: "rstring \<Rightarrow> 'num alert \<Rightarrow> 'num alert" where
  "with_source_static s a = a \<lparr> at_source := Borrowed s \<rparr>"

definition with_source :: "rstring \<Rightarrow> 'num alert \<Rightarrow> 'num alert" where
  "with_source s a = a \<lparr> at_source := Owned s \<rparr>"

definition with_pv :: "rstring \<Rightarrow> 'num alert \<Rightarrow> 'num alert" where
  "with_pv pv a = a \<lparr> at_pv_name := Some (Owned pv) \<rparr>"

definition with_pv_static :: "rstring \<Rightarrow> 'num alert \<Rightarrow> 'num alert" where
  "with_pv_static pv a = a \<lparr> at_pv_name := Some (Borrowed pv) \<rparr>"

definition with_ioc :: "rstring \<Rightarrow> 'num alert \<Rightarrow> 'num alert" where
  "with_ioc addr a = a \<lparr> at_ioc_addr := Some (Owned addr) \<rparr>"

definition with_details :: "'num json \<Rightarrow> 'num alert \<Rightarrow> 'num alert" where
  "with_details v a = a \<lparr> at_details := v \<rparr>"

fun cow_heap :: "nat \<Rightarrow> cow \<Rightarrow> nat" where
  "cow_heap extra (Borrowed _) = 0" | "cow_heap extra (Owned s) = length s + extra"

definition alert_mem_size :: "'num alert \<Rightarrow> nat" where
  "alert_mem_size a = 64 + cow_heap 0 (at_source a) + length (at_message a) +
     (case at_pv_name a of Some c \<Rightarrow> cow_heap 24 c | None \<Rightarrow> 0) +
     (case at_ioc_addr a of Some c \<Rightarrow> cow_heap 24 c | None \<Rightarrow> 0) + estimate_json_size (at_details a)"

definition logged_alert_display :: "'num alert \<Rightarrow> rstring" where
  "logged_alert_display a = ascii ''['' @ level_as_str (at_level a) @ ascii ''] '' @
     category_as_str (at_category a) @ ascii '': '' @ at_message a"

section \<open>Rows\<close>

record 'num alert_row =
  ar_id :: int
  ar_time :: int
  ar_level :: rstring
  ar_source :: rstring
  ar_category :: rstring
  ar_pv_name :: "rstring option"
  ar_ioc_addr :: "rstring option"
  ar_message :: rstring
  ar_details :: "'num json"
  ar_acknowledged :: bool
  ar_acknowledged_by :: "rstring option"

record 'num stored_alert =
  sa_id :: int
  sa_time :: int
  sa_level :: AlertLevel
  sa_source :: rstring
  sa_category :: AlertCategory
  sa_pv_name :: "rstring option"
  sa_ioc_addr :: "rstring option"
  sa_message :: rstring
  sa_details :: "'num json"
  sa_acknowledged :: bool

definition into_stored :: "'num alert_row \<Rightarrow> 'num stored_alert" where
  "into_stored r =
    \<lparr> sa_id = ar_id r, sa_time = ar_time r,
      sa_level = (case level_from_str (ar_level r) of Some l \<Rightarrow> l | None \<Rightarrow> AlWarning),
      sa_source = ar_source r,
      sa_category = (case category_from_str (ar_category r) of Some c \<Rightarrow> c | None \<Rightarrow> AcSystem),
      sa_pv_name = ar_pv_name r, sa_ioc_addr = ar_ioc_addr r, sa_message = ar_message r,
      sa_details = ar_details r, sa_acknowledged = ar_acknowledged r \<rparr>"

definition sa_is_critical :: "'num stored_alert \<Rightarrow> bool" where
  "sa_is_critical a \<longleftrightarrow> sa_level a = AlCritical"

definition sa_age :: "int \<Rightarrow> 'num stored_alert \<Rightarrow> int" where
  "sa_age now a = now - sa_time a"

definition safe_limit :: "int \<Rightarrow> int" where
  "safe_limit limit = (if limit < 1 then 1 else if limit > 10000 then 10000 else limit)"

section \<open>The table\<close>

record 'num alert_log =
  al_rows :: "'num alert_row list"
  al_next :: int

definition log_empty :: "'num alert_log" where
  "log_empty = \<lparr> al_rows = [], al_next = 1 \<rparr>"

definition row_of :: "int \<Rightarrow> int \<Rightarrow> 'num alert \<Rightarrow> 'num alert_row" where
  "row_of i now a =
    \<lparr> ar_id = i, ar_time = now, ar_level = level_as_str (at_level a), ar_source = cow_str (at_source a),
      ar_category = category_as_str (at_category a), ar_pv_name = map_option cow_str (at_pv_name a),
      ar_ioc_addr = map_option cow_str (at_ioc_addr a), ar_message = at_message a,
      ar_details = at_details a, ar_acknowledged = False, ar_acknowledged_by = None \<rparr>"

definition insert_alert :: "int \<Rightarrow> 'num alert \<Rightarrow> 'num alert_log \<Rightarrow> 'num alert_log" where
  "insert_alert now a t = t \<lparr> al_rows := al_rows t @ [row_of (al_next t) now a], al_next := al_next t + 1 \<rparr>"

definition alert_write ::
  "statement \<Rightarrow> int \<Rightarrow> 'num alert \<Rightarrow> 'num alert_log \<Rightarrow> (AuraError + int) \<times> 'num alert_log" where
  "alert_write s now a t =
    (case s of
       Some e \<Rightarrow> (Err (db_error ''write alert'' e), t)
     | None \<Rightarrow> (Ok (al_next t), insert_alert now a t))"

text \<open>The columns of the batch statement; \<open>UNNEST\<close> puts them together again by position.\<close>

definition alert_columns :: "'num alert list \<Rightarrow>
    rstring list \<times> rstring list \<times> rstring list \<times> rstring option list \<times> rstring option list \<times> rstring list \<times> 'num json list" where
  "alert_columns alerts =
    (map (level_as_str \<circ> at_level) alerts, map (cow_str \<circ> at_source) alerts,
     map (category_as_str \<circ> at_category) alerts, map (map_option cow_str \<circ> at_pv_name) alerts,
     map (map_option cow_str \<circ> at_ioc_addr) alerts, map at_message alerts, map at_details alerts)"

fun unnest_rows :: "int \<Rightarrow> int \<Rightarrow>
    rstring list \<times> rstring list \<times> rstring list \<times> rstring option list \<times> rstring option list \<times> rstring list \<times> 'num json list \<Rightarrow>
    'num alert_row list" where
  "unnest_rows i now (l # ls, s # ss, c # cs, p # ps, q # qs, m # ms, d # ds) =
    \<lparr> ar_id = i, ar_time = now, ar_level = l, ar_source = s, ar_category = c, ar_pv_name = p, ar_ioc_addr = q,
      ar_message = m, ar_details = d, ar_acknowledged = False, ar_acknowledged_by = None \<rparr> #
    unnest_rows (i + 1) now (ls, ss, cs, ps, qs, ms, ds)"
| "unnest_rows i now _ = []"

definition alert_write_batch ::
  "statement \<Rightarrow> int \<Rightarrow> 'num alert list \<Rightarrow> 'num alert_log \<Rightarrow> (AuraError + int list) \<times> 'num alert_log" where
  "alert_write_batch s now alerts t =
    (if alerts = [] then (Ok [], t)
     else
       (case s of
          Some e \<Rightarrow> (Err (AeDatabase (ascii ''write_batch UNNEST ('' @ show_nat (length alerts) @
            ascii '' alerts): '' @ e)), t)
        | None \<Rightarrow>
           (let rows = unnest_rows (al_next t) now (alert_columns alerts) in
            (Ok (map ar_id rows),
             t \<lparr> al_rows := al_rows t @ rows, al_next := al_next t + int (length rows) \<rparr>))))"

text \<open>The queries share one shape: a condition, newest first, at most a limited number.\<close>

type_synonym 'num newest_first = "'num alert_row list \<Rightarrow> 'num alert_row list"

definition query_alerts ::
  "string \<Rightarrow> 'num newest_first \<Rightarrow> statement \<Rightarrow> ('num alert_row \<Rightarrow> bool) \<Rightarrow> int \<Rightarrow> 'num alert_log \<Rightarrow>
    AuraError + 'num stored_alert list" where
  "query_alerts name newest s cond limit t =
    (case s of
       Some e \<Rightarrow> Err (db_error name e)
     | None \<Rightarrow> Ok (map into_stored (take (nat (safe_limit limit)) (newest (filter cond (al_rows t))))))"

definition get_recent :: "'num newest_first \<Rightarrow> statement \<Rightarrow> int \<Rightarrow> 'num alert_log \<Rightarrow> AuraError + 'num stored_alert list" where
  "get_recent newest s limit t = query_alerts ''get_recent'' newest s (\<lambda>_. True) limit t"

definition get_unacked :: "'num newest_first \<Rightarrow> statement \<Rightarrow> int \<Rightarrow> 'num alert_log \<Rightarrow> AuraError + 'num stored_alert list" where
  "get_unacked newest s limit t = query_alerts ''get_unacked'' newest s (\<lambda>r. \<not> ar_acknowledged r) limit t"

definition get_by_time_range ::
  "'num newest_first \<Rightarrow> statement \<Rightarrow> int \<Rightarrow> int \<Rightarrow> int \<Rightarrow> 'num alert_log \<Rightarrow> AuraError + 'num stored_alert list" where
  "get_by_time_range newest s start stop limit t =
    query_alerts ''get_by_time_range'' newest s (\<lambda>r. start \<le> ar_time r \<and> ar_time r < stop) limit t"

definition get_by_level ::
  "'num newest_first \<Rightarrow> statement \<Rightarrow> AlertLevel \<Rightarrow> int \<Rightarrow> 'num alert_log \<Rightarrow> AuraError + 'num stored_alert list" where
  "get_by_level newest s level limit t =
    query_alerts ''get_by_level'' newest s (\<lambda>r. ar_level r = level_as_str level) limit t"

definition get_by_category ::
  "'num newest_first \<Rightarrow> statement \<Rightarrow> AlertCategory \<Rightarrow> int \<Rightarrow> 'num alert_log \<Rightarrow> AuraError + 'num stored_alert list" where
  "get_by_category newest s category limit t =
    query_alerts ''get_by_category'' newest s (\<lambda>r. ar_category r = category_as_str category) limit t"

definition get_by_pv ::
  "'num newest_first \<Rightarrow> statement \<Rightarrow> rstring \<Rightarrow> int \<Rightarrow> 'num alert_log \<Rightarrow> AuraError + 'num stored_alert list" where
  "get_by_pv newest s pv limit t = query_alerts ''get_by_pv'' newest s (\<lambda>r. ar_pv_name r = Some pv) limit t"

definition ack_row :: "rstring \<Rightarrow> 'num alert_row \<Rightarrow> 'num alert_row" where
  "ack_row who r = r \<lparr> ar_acknowledged := True, ar_acknowledged_by := Some who \<rparr>"

definition to_ack :: "int list \<Rightarrow> 'num alert_row \<Rightarrow> bool" where
  "to_ack ids r \<longleftrightarrow> ar_id r \<in> set ids \<and> \<not> ar_acknowledged r"

definition update_acks :: "rstring \<Rightarrow> int list \<Rightarrow> 'num alert_log \<Rightarrow> nat \<times> 'num alert_log" where
  "update_acks who ids t =
    (length (filter (to_ack ids) (al_rows t)),
     t \<lparr> al_rows := map (\<lambda>r. if to_ack ids r then ack_row who r else r) (al_rows t) \<rparr>)"

definition acknowledge ::
  "statement \<Rightarrow> int \<Rightarrow> rstring \<Rightarrow> 'num alert_log \<Rightarrow> (AuraError + bool) \<times> 'num alert_log" where
  "acknowledge s i who t =
    (case s of
       Some e \<Rightarrow> (Err (db_error ''acknowledge'' e), t)
     | None \<Rightarrow> (case update_acks who [i] t of (n, t') \<Rightarrow> (Ok (n > 0), t')))"

definition acknowledge_batch ::
  "statement \<Rightarrow> int list \<Rightarrow> rstring \<Rightarrow> 'num alert_log \<Rightarrow> (AuraError + nat) \<times> 'num alert_log" where
  "acknowledge_batch s ids who t =
    (if ids = [] then (Ok 0, t)
     else
       (case s of
          Some e \<Rightarrow> (Err (db_error ''acknowledge_batch'' e), t)
        | None \<Rightarrow> (case update_acks who ids t of (n, t') \<Rightarrow> (Ok n, t'))))"

definition count_unacked :: "statement \<Rightarrow> 'num alert_log \<Rightarrow> AuraError + int" where
  "count_unacked s t =
    (case s of
       Some e \<Rightarrow> Err (db_error ''count_unacked'' e)
     | None \<Rightarrow> Ok (int (length (filter (\<lambda>r. \<not> ar_acknowledged r) (al_rows t)))))"

record alert_summary =
  as_info :: int
  as_warning :: int
  as_critical :: int

definition summary_default :: alert_summary where
  "summary_default = \<lparr> as_info = 0, as_warning = 0, as_critical = 0 \<rparr>"

definition summary_total :: "alert_summary \<Rightarrow> int" where
  "summary_total s = as_info s + as_warning s + as_critical s"

definition has_critical :: "alert_summary \<Rightarrow> bool" where
  "has_critical s \<longleftrightarrow> as_critical s > 0"

definition summary_is_clear :: "alert_summary \<Rightarrow> bool" where
  "summary_is_clear s \<longleftrightarrow> summary_total s = 0"

text \<open>\<open>GROUP BY level\<close>: one pair per level that occurs; \<open>groups\<close> is the order of the database.\<close>

definition unacked_of_level :: "rstring \<Rightarrow> 'num alert_log \<Rightarrow> int" where
  "unacked_of_level level t = int (length (filter (\<lambda>r. \<not> ar_acknowledged r \<and> ar_level r = level) (al_rows t)))"

definition count_by_level :: "(rstring list \<Rightarrow> rstring list) \<Rightarrow> 'num alert_log \<Rightarrow> (rstring \<times> int) list" where
  "count_by_level groups t =
    map (\<lambda>l. (l, unacked_of_level l t))
      (groups (remdups (map ar_level (filter (\<lambda>r. \<not> ar_acknowledged r) (al_rows t)))))"

definition summary_row :: "rstring \<times> int \<Rightarrow> alert_summary \<Rightarrow> alert_summary" where
  "summary_row row s = (case row of (level, count) \<Rightarrow>
     if level = ascii ''info'' then s \<lparr> as_info := count \<rparr>
     else if level = ascii ''warning'' then s \<lparr> as_warning := count \<rparr>
     else if level = ascii ''critical'' then s \<lparr> as_critical := count \<rparr>
     else s)"

definition summarise_unacked ::
  "(rstring list \<Rightarrow> rstring list) \<Rightarrow> statement \<Rightarrow> 'num alert_log \<Rightarrow> AuraError + alert_summary" where
  "summarise_unacked groups s t =
    (case s of
       Some e \<Rightarrow> Err (db_error ''summary'' e)
     | None \<Rightarrow> Ok (fold summary_row (count_by_level groups t) summary_default))"

definition purge_before ::
  "statement \<Rightarrow> int \<Rightarrow> 'num alert_log \<Rightarrow> (AuraError + nat) \<times> 'num alert_log" where
  "purge_before s cutoff t =
    (case s of
       Some e \<Rightarrow> (Err (db_error ''purge_before'' e), t)
     | None \<Rightarrow> (Ok (length (filter (\<lambda>r. ar_time r < cutoff) (al_rows t))),
         t \<lparr> al_rows := filter (\<lambda>r. \<not> ar_time r < cutoff) (al_rows t) \<rparr>))"

end
