(* ===== verification/AlertFacts.thy ===== *)
theory AlertFacts
  imports Alerts "HOL-Library.Multiset"
begin

text \<open>
  What the alert log keeps: the texts of levels and categories are read back, a batch is the
  sequence of its single writes, and over any life of the table the summary by level adds
  up to the number of unacknowledged alerts.
\<close>

lemma level_round_trip [simp]: "level_from_str (level_as_str l) = Some l"
  by (cases l) (simp_all add: level_from_str_def ascii_def)

lemma category_round_trip [simp]: "category_from_str (category_as_str c) = Some c"
  by (cases c) (simp_all add: category_from_str_def ascii_def)

section \<open>Writing\<close>

lemma unnest_columns:
  "unnest_rows i now (alert_columns alerts) =
    map (\<lambda>(k, a). row_of (i + int k) now a) (enumerate 0 alerts)"
proof -
  have "unnest_rows (i + int n) now (alert_columns alerts) =
      map (\<lambda>(k, a). row_of (i + int k) now a) (enumerate n alerts)" for n
  proof (induction alerts arbitrary: n)
    case (Cons a alerts)
    have "unnest_rows (i + int n + 1) now (alert_columns alerts) =
        map (\<lambda>(k, a). row_of (i + int k) now a) (enumerate (Suc n) alerts)"
      using Cons[of "Suc n"] by (simp add: add.commute add.left_commute)
    then show ?case
      by (simp add: alert_columns_def row_of_def)
  qed (simp add: alert_columns_def)
  from this[of 0] show ?thesis
    by simp
qed

lemma insert_alerts:
  "fold (insert_alert now) alerts t =
    t \<lparr> al_rows := al_rows t @ map (\<lambda>(k, a). row_of (al_next t + int k) now a) (enumerate 0 alerts),
        al_next := al_next t + int (length alerts) \<rparr>"
proof -
  have "fold (insert_alert now) alerts (t \<lparr> al_rows := rows, al_next := al_next t + int n \<rparr>) =
      t \<lparr> al_rows := rows @ map (\<lambda>(k, a). row_of (al_next t + int k) now a) (enumerate n alerts),
          al_next := al_next t + int n + int (length alerts) \<rparr>" for rows n
  proof (induction alerts arbitrary: rows n)
    case (Cons a alerts)
    have "fold (insert_alert now) (a # alerts) (t \<lparr> al_rows := rows, al_next := al_next t + int n \<rparr>) =
        fold (insert_alert now) alerts
          (t \<lparr> al_rows := rows @ [row_of (al_next t + int n) now a], al_next := al_next t + int (Suc n) \<rparr>)"
      by (simp add: insert_alert_def add.commute add.left_commute)
    then show ?case
      unfolding Cons by (simp add: add.commute add.left_commute)
  qed simp
  from this[where rows = "al_rows t" and n = 0] show ?thesis
    by simp
qed

text \<open>A batch is written by one statement as if its alerts had been written one by one, and
  what is read back, converted from the text columns, is what was written: level, category,
  source, names, message and details of each alert, unacknowledged, under its new id.\<close>

theorem alert_batch_reads_back:
  "snd (alert_write_batch None now alerts t) = fold (\<lambda>a t. snd (alert_write None now a t)) alerts t \<and>
   map into_stored (al_rows (snd (alert_write_batch None now alerts t))) =
     map into_stored (al_rows t) @
     map (\<lambda>(k, a). \<lparr> sa_id = al_next t + int k, sa_time = now, sa_level = at_level a,
         sa_source = cow_str (at_source a), sa_category = at_category a,
         sa_pv_name = map_option cow_str (at_pv_name a), sa_ioc_addr = map_option cow_str (at_ioc_addr a),
         sa_message = at_message a, sa_details = at_details a, sa_acknowledged = False \<rparr>)
       (enumerate 0 alerts)"
proof -
  have writes: "fold (\<lambda>a t. snd (alert_write None now a t)) alerts t = fold (insert_alert now) alerts t"
    by (simp add: alert_write_def)
  have batch: "snd (alert_write_batch None now alerts t) = fold (insert_alert now) alerts t"
    unfolding insert_alerts by (simp add: alert_write_batch_def unnest_columns Let_def)
  have stored: "into_stored (row_of i now a) = \<lparr> sa_id = i, sa_time = now, sa_level = at_level a,
      sa_source = cow_str (at_source a), sa_category = at_category a,
      sa_pv_name = map_option cow_str (at_pv_name a), sa_ioc_addr = map_option cow_str (at_ioc_addr a),
      sa_message = at_message a, sa_details = at_details a, sa_acknowledged = False \<rparr>" for i a
    by (simp add: into_stored_def row_of_def)
  show ?thesis
    unfolding writes batch insert_alerts
    by (simp add: case_prod_unfold stored comp_def)
qed

section \<open>Queries\<close>

text \<open>Whatever limit a caller asks for, a query answers at least one row when one matches
  and never more than ten thousand, and every row of the answer is a row of the table that
  matches.\<close>

theorem alert_queries_bounded:
  assumes "\<And>rows. mset (newest rows) = mset rows"
  shows "case query_alerts name newest None cond limit t of
      Err _ \<Rightarrow> False
    | Ok alerts \<Rightarrow> length alerts \<le> 10000 \<and> (filter cond (al_rows t) \<noteq> [] \<longrightarrow> alerts \<noteq> []) \<and>
        set alerts \<subseteq> into_stored ` set (filter cond (al_rows t))"
proof -
  let ?rows = "newest (filter cond (al_rows t))"
  have "set ?rows = set (filter cond (al_rows t))"
    using assms by (rule mset_eq_setD)
  moreover have "1 \<le> nat (safe_limit limit) \<and> nat (safe_limit limit) \<le> 10000"
    by (auto simp: safe_limit_def)
  moreover have "set (take n ?rows) \<subseteq> set ?rows" for n
    by (rule set_take_subset)
  moreover have "(?rows = []) = (filter cond (al_rows t) = [])"
    using assms[of "filter cond (al_rows t)"] by (metis mset_zero_iff_right)
  ultimately show ?thesis
    by (auto simp: query_alerts_def)
qed

theorem alert_queries_bounded_witness:
  "case query_alerts ''get_recent'' rev None (\<lambda>_. True) 0
      (snd (alert_write None 7 (alert_new AlCritical AcSystem [65] :: unit alert) log_empty)) of
     Err _ \<Rightarrow> False | Ok alerts \<Rightarrow> alerts \<noteq> []"
  using alert_queries_bounded[of rev "\<lambda>_. True" "snd (alert_write None 7 (alert_new AlCritical AcSystem [65] :: unit alert) log_empty)" "''get_recent''" 0]
  by (auto simp: alert_write_def insert_alert_def log_empty_def split: sum.splits)

section \<open>The life of the table\<close>

datatype 'num log_op =
    LoWrite statement int "'num alert"
  | LoBatch statement int "'num alert list"
  | LoAck statement "int list" rstring
  | LoPurge statement int

fun log_step :: "'num log_op \<Rightarrow> 'num alert_log \<Rightarrow> 'num alert_log" where
  "log_step (LoWrite s now a) t = snd (alert_write s now a t)"
| "log_step (LoBatch s now as) t = snd (alert_write_batch s now as t)"
| "log_step (LoAck s ids who) t = snd (acknowledge_batch s ids who t)"
| "log_step (LoPurge s cutoff) t = snd (purge_before s cutoff t)"

definition rows_ok :: "'num alert_log \<Rightarrow> bool" where
  "rows_ok t \<longleftrightarrow> distinct (map ar_id (al_rows t)) \<and>
    (\<forall>r \<in> set (al_rows t). ar_id r < al_next t \<and> ar_level r \<in> level_as_str ` UNIV)"

lemma rows_ok_insert: "rows_ok t \<Longrightarrow> rows_ok (insert_alert now a t)"
  by (auto simp: rows_ok_def insert_alert_def row_of_def)

lemma rows_ok_inserts: "rows_ok t \<Longrightarrow> rows_ok (fold (insert_alert now) as t)"
  by (induction as arbitrary: t) (simp_all add: rows_ok_insert)

lemma ack_row_fields [simp]: "ar_id (ack_row who r) = ar_id r" "ar_level (ack_row who r) = ar_level r"
  by (simp_all add: ack_row_def)

lemma rows_ok_acks: "rows_ok t \<Longrightarrow> rows_ok (snd (update_acks who ids t))"
  by (auto simp: rows_ok_def update_acks_def comp_def if_distrib[of ar_id] cong: if_cong)

lemma rows_ok_step: "rows_ok t \<Longrightarrow> rows_ok (log_step op t)"
proof (cases op)
  case (LoBatch s now as)
  have "snd (alert_write_batch None now as t) = fold (insert_alert now) as t"
    unfolding insert_alerts by (simp add: alert_write_batch_def unnest_columns Let_def)
  moreover have "snd (alert_write_batch (Some e) now as t) = t" for e
    by (simp add: alert_write_batch_def)
  ultimately have "log_step op t = t \<or> log_step op t = fold (insert_alert now) as t"
    using LoBatch by (cases s) auto
  then show "rows_ok t \<Longrightarrow> ?thesis"
    using rows_ok_inserts by auto
next
  case (LoAck s ids who)
  have "snd (acknowledge_batch s ids who t) = t \<or> snd (acknowledge_batch s ids who t) = snd (update_acks who ids t)"
    by (simp add: acknowledge_batch_def split: option.split prod.split)
  then show "rows_ok t \<Longrightarrow> ?thesis"
    using LoAck rows_ok_acks[of t who ids] by auto
next
  case (LoPurge s cutoff)
  then show "rows_ok t \<Longrightarrow> ?thesis"
    by (auto simp: rows_ok_def purge_before_def distinct_map_filter split: option.split)
qed (auto simp: alert_write_def rows_ok_insert split: option.split)

lemma summary_rows_other:
  "\<forall>(l, n) \<in> set rows. l \<noteq> ascii ''info'' \<Longrightarrow> as_info (fold summary_row rows s) = as_info s"
  "\<forall>(l, n) \<in> set rows. l \<noteq> ascii ''warning'' \<Longrightarrow> as_warning (fold summary_row rows s) = as_warning s"
  "\<forall>(l, n) \<in> set rows. l \<noteq> ascii ''critical'' \<Longrightarrow> as_critical (fold summary_row rows s) = as_critical s"
  by (induction rows arbitrary: s) (auto simp: summary_row_def)

lemma level_texts_differ:
  "ascii ''info'' \<noteq> ascii ''warning''" "ascii ''info'' \<noteq> ascii ''critical''" "ascii ''warning'' \<noteq> ascii ''critical''"
  by (simp_all add: ascii_def)

lemma summary_rows_counts:
  assumes "distinct ls" "\<forall>l. l \<notin> set ls \<longrightarrow> f l = 0"
  shows "as_info (fold summary_row (map (\<lambda>l. (l, f l)) ls) summary_default) = f (ascii ''info'')"
    "as_warning (fold summary_row (map (\<lambda>l. (l, f l)) ls) summary_default) = f (ascii ''warning'')"
    "as_critical (fold summary_row (map (\<lambda>l. (l, f l)) ls) summary_default) = f (ascii ''critical'')"
proof -
  have "as_info (fold summary_row (map (\<lambda>l. (l, f l)) ls) s) = (if ascii ''info'' \<in> set ls then f (ascii ''info'') else as_info s) \<and>
    as_warning (fold summary_row (map (\<lambda>l. (l, f l)) ls) s) = (if ascii ''warning'' \<in> set ls then f (ascii ''warning'') else as_warning s) \<and>
    as_critical (fold summary_row (map (\<lambda>l. (l, f l)) ls) s) = (if ascii ''critical'' \<in> set ls then f (ascii ''critical'') else as_critical s)" for s
    using assms(1) level_texts_differ
    by (induction ls arbitrary: s) (auto simp: summary_row_def)
  from this[of summary_default] assms(2) show
    "as_info (fold summary_row (map (\<lambda>l. (l, f l)) ls) summary_default) = f (ascii ''info'')"
    "as_warning (fold summary_row (map (\<lambda>l. (l, f l)) ls) summary_default) = f (ascii ''warning'')"
    "as_critical (fold summary_row (map (\<lambda>l. (l, f l)) ls) summary_default) = f (ascii ''critical'')"
    by (simp_all add: summary_default_def split: if_splits)
qed

lemma unacked_split:
  assumes "\<forall>r \<in> set rows. ar_level r \<in> level_as_str ` UNIV"
  shows "length (filter (\<lambda>r. \<not> ar_acknowledged r) rows) =
    length (filter (\<lambda>r. \<not> ar_acknowledged r \<and> ar_level r = ascii ''info'') rows) +
    length (filter (\<lambda>r. \<not> ar_acknowledged r \<and> ar_level r = ascii ''warning'') rows) +
    length (filter (\<lambda>r. \<not> ar_acknowledged r \<and> ar_level r = ascii ''critical'') rows)"
  using assms
proof (induction rows)
  case (Cons r rows)
  from Cons.prems obtain l where l: "ar_level r = level_as_str l"
    by auto
  then show ?case
    using Cons level_texts_differ by (cases l) auto
qed simp

text \<open>C40. Over any sequence of writes, batches, acknowledgements and purges, whichever
  statements fail: ids stay unique, and the summary by level counts every unacknowledged
  alert once, so its total is the number of unacknowledged alerts.\<close>

theorem alert_summary_adds_up:
  assumes "t = fold log_step ops log_empty" "\<And>ls. mset (groups ls) = mset ls"
  shows "distinct (map ar_id (al_rows t)) \<and>
    (case summarise_unacked groups None t of
       Err _ \<Rightarrow> False
     | Ok s \<Rightarrow> count_unacked None t = Ok (summary_total s) \<and>
         as_critical s = int (length (filter (\<lambda>r. \<not> ar_acknowledged r \<and> ar_level r = level_as_str AlCritical) (al_rows t))))"
proof -
  have "rows_ok (fold log_step ops t0)" if "rows_ok t0" for t0 :: "'a alert_log"
    using that by (induction ops arbitrary: t0) (simp_all add: rows_ok_step)
  from this[of log_empty] have ok: "rows_ok t"
    unfolding assms(1) by (simp add: rows_ok_def log_empty_def)
  let ?open = "filter (\<lambda>r. \<not> ar_acknowledged r) (al_rows t)"
  let ?ls = "groups (remdups (map ar_level ?open))"
  have set_ls: "set ?ls = ar_level ` set ?open" and dist: "distinct ?ls"
    using assms(2)[of "remdups (map ar_level ?open)"]
    using mset_eq_setD mset_eq_imp_distinct_iff by (fastforce, blast)
  have none: "unacked_of_level l t = 0" if "l \<notin> set ?ls" for l
    using that unfolding set_ls by (auto simp: unacked_of_level_def filter_empty_conv)
  note counts = summary_rows_counts[OF dist, of "\<lambda>l. unacked_of_level l t"]
  show ?thesis
    using ok counts none unacked_split[of "al_rows t"]
    by (auto simp: summarise_unacked_def count_by_level_def count_unacked_def summary_total_def rows_ok_def
        unacked_of_level_def)
qed

theorem alert_summary_adds_up_witness:
  "case summarise_unacked rev None (fold log_step
      [LoWrite None 1 (alert_new AlCritical AcPv [65] :: unit alert), LoBatch None 2 [alert_new AlInfo AcIoc [66]],
       LoAck None [1] [67]] log_empty) of
     Err _ \<Rightarrow> False | Ok s \<Rightarrow> summary_total s = 1"
  using alert_summary_adds_up[OF refl, of rev "[LoWrite None 1 (alert_new AlCritical AcPv [65] :: unit alert),
      LoBatch None 2 [alert_new AlInfo AcIoc [66]], LoAck None [1] [67]]"]
  by (auto simp: alert_write_def insert_alert_def alert_write_batch_def acknowledge_batch_def update_acks_def
      count_unacked_def log_empty_def alert_columns_def alert_new_def row_of_def to_ack_def ack_row_def Let_def
      split: sum.splits)

end
