(* ===== verification/Handlers.thy ===== *)
theory Handlers
  imports Driver Ingest PvCache MetaStore
begin

text \<open>
  The handlers of the main loop (\<open>src/src/handlers.rs\<close>): the subscription of a batch, what
  is recorded when an IOC connects, disconnects or comes back, the drain of the metadata and
  the periodic update of the status table.

  \<open>app\<close> is what the main task owns or shares: the table \<open>pv_lookup\<close> (behind the interface of
  \<open>PvCache\<close>), the tables \<open>pv_status\<close> and \<open>pv_events\<close> as lists of rows, the snapshot of the
  ids that the ingest threads read, the staging buffer of the handlers, the driver, the
  engine, the handles it keeps, and the PVs whose metadata is stored.  \<open>handler_ctx\<close> is what
  the outside gives to one call of a handler: the interface of the table, the calendar, the
  time of the host and of the database, and for each statement in the order of the text
  whether it succeeds.  A statement that fails is logged and changes nothing.  The column
  \<open>health_score\<close>, floating point arithmetic inside the database, is left out; \<open>hz_of\<close> is the
  division of a count by the period.
\<close>

section \<open>State\<close>

record status_row =
  st_pv_id :: "32 word option"
  st_state :: nat
  st_ioc_addr :: "rstring option"
  st_subscribed_at :: "int option"
  st_connected_at :: "int option"
  st_last_event_at :: "int option"
  st_events_total :: int
  st_update_hz :: f32bits
  st_last_value :: "f64bits option"
  st_last_severity :: "16 word"

text \<open>The states of a PV, as the migration numbers them.\<close>

definition ST_INIT :: nat where "ST_INIT = 0"
definition ST_SEARCHING :: nat where "ST_SEARCHING = 1"
definition ST_CONNECTED :: nat where "ST_CONNECTED = 2"
definition ST_ARCHIVING :: nat where "ST_ARCHIVING = 3"
definition ST_DISCONNECTED :: nat where "ST_DISCONNECTED = 4"
definition ST_TIMEOUT :: nat where "ST_TIMEOUT = 5"
definition ST_UNSUBSCRIBED :: nat where "ST_UNSUBSCRIBED = 6"

lemmas st_defs = ST_INIT_def ST_SEARCHING_def ST_CONNECTED_def ST_ARCHIVING_def ST_DISCONNECTED_def
  ST_TIMEOUT_def ST_UNSUBSCRIBED_def

record event_row =
  ev_pv_name :: rstring
  ev_pv_id :: "32 word option"
  ev_type :: nat
  ev_ioc_addr :: "rstring option"
  ev_detail :: "rstring option"

type_synonym status_table = "(rstring \<times> status_row) list"

record ('s, 'dt, 'num) app =
  ap_lookup :: 's
  ap_cache :: "rstring \<rightharpoonup> 32 word"
  ap_status :: status_table
  ap_events :: "event_row list"
  ap_buf :: "('dt, 'num) shared_buffer"
  ap_driver :: driver
  ap_engine :: "'dt ingest_engine"
  ap_monitors :: "rstring list"
  ap_threads :: bool
  ap_meta_stored :: "rstring list"

record ('s, 'err, 'dt) handler_ctx =
  hx_lookup :: "('s, 'err) pv_lookup"
  hx_cal :: "'dt calendar"
  hx_utc :: 'dt
  hx_now :: int
  hx_ok :: "nat \<Rightarrow> bool"

section \<open>Statements\<close>

definition status_default :: status_row where
  "status_default = \<lparr> st_pv_id = None, st_state = ST_INIT, st_ioc_addr = None, st_subscribed_at = None,
     st_connected_at = None, st_last_event_at = None, st_events_total = 0, st_update_hz = 0,
     st_last_value = None, st_last_severity = 0 \<rparr>"

text \<open>\<open>UPDATE pv_status SET .. WHERE ..\<close>\<close>

definition update_where ::
  "(rstring \<Rightarrow> status_row \<Rightarrow> bool) \<Rightarrow> (status_row \<Rightarrow> status_row) \<Rightarrow> status_table \<Rightarrow> status_table" where
  "update_where cond f tbl = map (\<lambda>(n, r). (n, if cond n r then f r else r)) tbl"

text \<open>\<open>INSERT INTO pv_status .. ON CONFLICT (pv_name) DO UPDATE SET ..\<close>\<close>

definition upsert_status ::
  "rstring \<Rightarrow> status_row \<Rightarrow> (status_row \<Rightarrow> status_row) \<Rightarrow> status_table \<Rightarrow> status_table" where
  "upsert_status name new f tbl =
    (case map_of tbl name of Some r \<Rightarrow> AList.update name (f r) tbl | None \<Rightarrow> tbl @ [(name, new)])"

definition on_success :: "('s, 'err, 'dt) handler_ctx \<Rightarrow> nat \<Rightarrow> ('a \<Rightarrow> 'a) \<Rightarrow> 'a \<Rightarrow> 'a" where
  "on_success hx i f a = (if hx_ok hx i then f a else a)"

definition map_status ::
  "(status_table \<Rightarrow> status_table) \<Rightarrow> ('s, 'dt, 'num) app \<Rightarrow> ('s, 'dt, 'num) app" where
  "map_status f a = a \<lparr> ap_status := f (ap_status a) \<rparr>"

definition log_events :: "event_row list \<Rightarrow> ('s, 'dt, 'num) app \<Rightarrow> ('s, 'dt, 'num) app" where
  "log_events evs a = a \<lparr> ap_events := ap_events a @ evs \<rparr>"

section \<open>Subscribing\<close>

text \<open>The rows of a select enter the snapshot.\<close>

definition cache_rows :: "pv_row list \<Rightarrow> (rstring \<rightharpoonup> 32 word) \<Rightarrow> (rstring \<rightharpoonup> 32 word)" where
  "cache_rows rows c = fold (\<lambda>(i, n) c. c(n \<mapsto> i)) rows c"

definition select_ids ::
  "('s, 'err, 'dt) handler_ctx \<Rightarrow> rstring list \<Rightarrow> ('s, 'dt, 'num) app \<Rightarrow> pv_row list" where
  "select_ids hx names a = (case pl_select_any (hx_lookup hx) names (ap_lookup a) of Ok rows \<Rightarrow> rows | Err _ \<Rightarrow> [])"

definition refresh_cache ::
  "('s, 'err, 'dt) handler_ctx \<Rightarrow> rstring list \<Rightarrow> ('s, 'dt, 'num) app \<Rightarrow> ('s, 'dt, 'num) app" where
  "refresh_cache hx names a = a \<lparr> ap_cache := cache_rows (select_ids hx names a) (ap_cache a) \<rparr>"

definition pre_register ::
  "('s, 'err, 'dt) handler_ctx \<Rightarrow> rstring list \<Rightarrow> ('s, 'dt, 'num) app \<Rightarrow> ('s, 'dt, 'num) app" where
  "pre_register hx names a = a \<lparr> ap_lookup := snd (pl_insert_all (hx_lookup hx) names (ap_lookup a)) \<rparr>"

record subscribe_result =
  sr_ok_pvs :: "rstring list"
  sr_failed :: nat

text \<open>One result of the driver.\<close>

definition take_result ::
  "rstring \<times> ('e + monitor_handle) \<Rightarrow> subscribe_result \<times> 'dt ingest_engine \<Rightarrow> subscribe_result \<times> 'dt ingest_engine" where
  "take_result res acc = (case (res, acc) of ((pv, r), (sr, e)) \<Rightarrow>
     (case r of
        Ok _ \<Rightarrow> (sr \<lparr> sr_ok_pvs := sr_ok_pvs sr @ [pv] \<rparr>, register_pv pv e)
      | Err _ \<Rightarrow> (sr \<lparr> sr_failed := sr_failed sr + 1 \<rparr>, e)))"

definition searching_row :: "int \<Rightarrow> 32 word \<Rightarrow> status_row \<Rightarrow> status_row" where
  "searching_row now i r = r \<lparr> st_state := ST_SEARCHING, st_pv_id := Some i, st_subscribed_at := Some now \<rparr>"

definition record_subscribed ::
  "('s, 'err, 'dt) handler_ctx \<Rightarrow> rstring \<Rightarrow> pv_row list \<Rightarrow> ('s, 'dt, 'num) app \<Rightarrow> ('s, 'dt, 'num) app" where
  "record_subscribed hx detail rows a =
    on_success hx 1 (log_events (map (\<lambda>(i, n). \<lparr> ev_pv_name = n, ev_pv_id = Some i, ev_type = 0,
        ev_ioc_addr = None, ev_detail = Some detail \<rparr>) rows))
    (on_success hx 0 (map_status (fold (\<lambda>(i, n). upsert_status n
        (searching_row (hx_now hx) i status_default) (searching_row (hx_now hx) i)) rows)) a)"

text \<open>The subscription of a batch; \<open>w\<close> answers for the IOCs.\<close>

definition subscribe_pvs ::
  "('s, 'err, 'dt) handler_ctx \<Rightarrow> hash_order \<Rightarrow> 'e ioc_world \<Rightarrow> rstring \<Rightarrow> rstring list \<Rightarrow>
    ('s, 'dt, 'num) app \<Rightarrow> subscribe_result \<times> ('s, 'dt, 'num) app" where
  "subscribe_pvs hx iters w detail pvs a =
    (if pvs = [] then (\<lparr> sr_ok_pvs = [], sr_failed = 0 \<rparr>, a)
     else
       (let a1 = refresh_cache hx pvs (pre_register hx pvs a) in
        case monitor_batch iters w pvs (ap_driver a1) of
          (results, d) \<Rightarrow>
            (case fold take_result results (\<lparr> sr_ok_pvs = [], sr_failed = 0 \<rparr>, ap_engine a1) of
               (sr, e) \<Rightarrow>
                 (let a2 = a1 \<lparr> ap_driver := d, ap_engine := e \<rparr> in
                  if sr_ok_pvs sr = [] then (sr, a2)
                  else
                    (let rows = select_ids hx (sr_ok_pvs sr) a2 in
                     (sr, if rows = [] then a2
                          else record_subscribed hx detail rows (refresh_cache hx (sr_ok_pvs sr) a2)))))))"

section \<open>Connections\<close>

definition handle_connect ::
  "('s, 'err, 'dt) handler_ctx \<Rightarrow> rstring \<Rightarrow> rstring list \<Rightarrow> ('s, 'dt, 'num) app \<Rightarrow> ('s, 'dt, 'num) app" where
  "handle_connect hx addr pvs a =
    (if pvs = [] then a
     else
       on_success hx 2 (\<lambda>a. log_events (map (\<lambda>(i, n). \<lparr> ev_pv_name = n, ev_pv_id = Some i, ev_type = 1,
           ev_ioc_addr = Some addr, ev_detail = None \<rparr>) (select_ids hx pvs a)) a)
       (on_success hx 1 (map_status (update_where (\<lambda>n r. n \<in> set pvs \<and> st_ioc_addr r \<noteq> Some addr)
           (\<lambda>r. r \<lparr> st_ioc_addr := Some addr \<rparr>)))
       (on_success hx 0 (map_status (update_where
           (\<lambda>n r. n \<in> set pvs \<and> st_state r \<in> {ST_INIT, ST_SEARCHING, ST_DISCONNECTED, ST_TIMEOUT})
           (\<lambda>r. r \<lparr> st_state := ST_CONNECTED, st_ioc_addr := Some addr, st_connected_at := Some (hx_now hx) \<rparr>))) a)))"

definition F64_NAN :: f64bits where "F64_NAN = 0x7FF8000000000000"

text \<open>A row that marks a gap: not a number, severity 3 and a status of its own.\<close>

definition mark_row ::
  "('s, 'err, 'dt) handler_ctx \<Rightarrow> 16 word \<Rightarrow> StoreReason \<Rightarrow> 32 word \<Rightarrow> scalar_row" where
  "mark_row hx status reason i = scalar_row_new (hx_cal hx) (hx_utc hx) i F64_NAN 3 status reason"

definition push_marks ::
  "('s, 'err, 'dt) handler_ctx \<Rightarrow> 16 word \<Rightarrow> StoreReason \<Rightarrow> rstring list \<Rightarrow> ('s, 'dt, 'num) app \<Rightarrow>
    ('s, 'dt, 'num) app" where
  "push_marks hx status reason pvs a =
    a \<lparr> ap_buf := fold (\<lambda>pv b. case ap_cache a pv of
          Some i \<Rightarrow> snd (push_scalar (mark_row hx status reason i) b) | None \<Rightarrow> b) pvs (ap_buf a) \<rparr>"

text \<open>\<open>LEFT JOIN pv_lookup\<close>: the id of a name, when the table has one.\<close>

definition joined_id ::
  "('s, 'err, 'dt) handler_ctx \<Rightarrow> ('s, 'dt, 'num) app \<Rightarrow> rstring \<Rightarrow> 32 word option" where
  "joined_id hx a n = map_of (map prod.swap (select_ids hx [n] a)) n"

definition connection_event ::
  "('s, 'err, 'dt) handler_ctx \<Rightarrow> nat \<Rightarrow> rstring \<Rightarrow> rstring option \<Rightarrow> ('s, 'dt, 'num) app \<Rightarrow> rstring \<Rightarrow> event_row" where
  "connection_event hx kind addr detail a n =
    \<lparr> ev_pv_name = n, ev_pv_id = joined_id hx a n, ev_type = kind, ev_ioc_addr = Some addr, ev_detail = detail \<rparr>"

definition handle_disconnect ::
  "('s, 'err, 'dt) handler_ctx \<Rightarrow> rstring \<Rightarrow> rstring list \<Rightarrow> rstring \<Rightarrow> ('s, 'dt, 'num) app \<Rightarrow> ('s, 'dt, 'num) app" where
  "handle_disconnect hx addr pvs reason a =
    on_success hx 1 (map_status (update_where (\<lambda>n _. n \<in> set pvs) (\<lambda>r. r \<lparr> st_state := ST_DISCONNECTED \<rparr>)))
    (push_marks hx 103 SrDisconnected pvs
    (on_success hx 0 (\<lambda>a. log_events (map (connection_event hx 3 addr (Some reason) a) pvs) a) a))"

definition handle_reconnect ::
  "('s, 'err, 'dt) handler_ctx \<Rightarrow> rstring \<Rightarrow> rstring list \<Rightarrow> ('s, 'dt, 'num) app \<Rightarrow> ('s, 'dt, 'num) app" where
  "handle_reconnect hx addr pvs a =
    on_success hx 1 (map_status (update_where (\<lambda>n _. n \<in> set pvs)
        (\<lambda>r. r \<lparr> st_state := ST_ARCHIVING, st_connected_at := Some (hx_now hx) \<rparr>)))
    (push_marks hx 104 SrReconnected pvs
    (on_success hx 0 (\<lambda>a. log_events (map (connection_event hx 4 addr None a) pvs) a) a))"

section \<open>Metadata\<close>

text \<open>What a fresh converter makes of a first value.\<close>

definition first_metadata :: "'dt \<Rightarrow> rstring \<times> PvaValue \<Rightarrow> 'dt pv_metadata option" where
  "first_metadata now entry = (case entry of (name, v) \<Rightarrow>
     (case fst (convert_event now (MeValue v) (converter_new name)) of
        CrWithMetadata (_ :: unit pv_update) m \<Rightarrow> Some m
      | _ \<Rightarrow> None))"

definition archiving_row :: "int \<Rightarrow> 32 word option \<Rightarrow> status_row" where
  "archiving_row now i =
    status_default \<lparr> st_pv_id := i, st_state := ST_ARCHIVING, st_subscribed_at := Some now \<rparr>"

text \<open>A statement that would touch a row twice fails.\<close>

definition upsert_first_values ::
  "int \<Rightarrow> 'dt pv_metadata list \<Rightarrow> ('s, 'dt, 'num) app \<Rightarrow> ('s, 'dt, 'num) app" where
  "upsert_first_values now metas a =
    (if distinct (map pm_pv_name metas)
     then map_status (fold (\<lambda>m. upsert_status (pm_pv_name m) (archiving_row now (pm_pv_id m))
            (\<lambda>r. r \<lparr> st_state := ST_ARCHIVING \<rparr>)) metas) a
     else a)"

definition note_stored :: "'dt pv_metadata list \<Rightarrow> ('s, 'dt, 'num) app \<Rightarrow> ('s, 'dt, 'num) app" where
  "note_stored metas a = a \<lparr> ap_meta_stored := fold List.insert (map pm_pv_name metas) (ap_meta_stored a) \<rparr>"

text \<open>The first metadata after a subscription: the engine converts what the sessions hand over, one
  list per wake-up, until it has as many as expected; the list of lists ends at the deadline.\<close>

fun collect_loop ::
  "'dt \<Rightarrow> nat \<Rightarrow> (rstring \<times> PvaValue) list list \<Rightarrow> 'dt ingest_engine \<Rightarrow> 'dt ingest_engine" where
  "collect_loop now expected [] e = e"
| "collect_loop now expected (raw # raws) e =
    (if length (en_pending e) \<ge> expected then e
     else collect_loop now expected raws
       (fold (\<lambda>(n, v) e. snd (process_event now n (MeValue v) e :: unit pv_update option \<times> _)) raw e))"

definition collect_initial_metadata ::
  "('s, 'err, 'dt) handler_ctx \<Rightarrow> nat \<Rightarrow> (rstring \<times> PvaValue) list list \<Rightarrow> ('s, 'dt, 'num) app \<Rightarrow>
    nat \<times> ('s, 'dt, 'num) app" where
  "collect_initial_metadata hx expected raws a =
    (let e = collect_loop (hx_utc hx) expected raws (ap_engine a); metas = en_pending e in
     if metas = [] then (0, a \<lparr> ap_engine := e \<rparr>)
     else
       (let a1 = a \<lparr> ap_engine := e \<lparr> en_pending := [] \<rparr> \<rparr> in
        if hx_ok hx 2 then (length metas, note_stored metas a1) else (0, a1)))"

definition drain_sessions ::
  "('s, 'err, 'dt) handler_ctx \<Rightarrow> (rstring \<times> PvaValue) list \<Rightarrow> ('s, 'dt, 'num) app \<Rightarrow> ('s, 'dt, 'num) app" where
  "drain_sessions hx raw a =
    (let metas = filter (\<lambda>m. pm_pv_name m \<notin> set (ap_meta_stored a))
           (List.map_filter (first_metadata (hx_utc hx)) raw) in
     if metas = [] then a
     else
       on_success hx 2 (note_stored metas)
       (on_success hx 1 (log_events (map (\<lambda>m. \<lparr> ev_pv_name = pm_pv_name m, ev_pv_id = None, ev_type = 2,
           ev_ioc_addr = None, ev_detail = Some (ascii ''first value received'') \<rparr>) metas))
       (on_success hx 0 (upsert_first_values (hx_now hx) metas) a)))"

definition drain_metadata ::
  "('s, 'err, 'dt) handler_ctx \<Rightarrow> (rstring \<times> PvaValue) list \<Rightarrow> 'dt pv_metadata list \<Rightarrow>
    ('s, 'dt, 'num) app \<Rightarrow> ('s, 'dt, 'num) app" where
  "drain_metadata hx raw inline a =
    (let a1 = drain_sessions hx raw a;
         metas = filter (\<lambda>m. pm_pv_name m \<notin> set (ap_meta_stored a1)) inline in
     if metas = [] then a1 else on_success hx 3 (note_stored metas) a1)"

section \<open>The periodic update\<close>

type_synonym shard_stats = "(32 word \<times> pv_stats) list"

definition merge_stat :: "32 word \<times> pv_stats \<Rightarrow> shard_stats \<Rightarrow> shard_stats" where
  "merge_stat entry m = (case entry of (i, (cnt, v, sev)) \<Rightarrow>
     AList.update i (case map_of m i of Some (old, _, _) \<Rightarrow> (old + cnt, v, sev) | None \<Rightarrow> (cnt, v, sev)) m)"

definition merge_shards :: "shard_stats list \<Rightarrow> shard_stats" where
  "merge_shards shards = fold merge_stat (concat shards) []"

definition stats_row :: "(u64 \<Rightarrow> f32bits) \<Rightarrow> int \<Rightarrow> pv_stats \<Rightarrow> status_row \<Rightarrow> status_row" where
  "stats_row hz_of now s r = (case s of (cnt, v, sev) \<Rightarrow>
     r \<lparr> st_last_event_at := Some now, st_events_total := st_events_total r + sint cnt,
         st_update_hz := hz_of cnt, st_last_value := Some v, st_last_severity := sev,
         st_state := (if st_state r = ST_CONNECTED then ST_ARCHIVING else st_state r) \<rparr>)"

definition stats_update ::
  "(u64 \<Rightarrow> f32bits) \<Rightarrow> int \<Rightarrow> shard_stats \<Rightarrow> status_table \<Rightarrow> status_table" where
  "stats_update hz_of now merged tbl =
    map (\<lambda>(n, r). (n, case Option.bind (st_pv_id r) (map_of merged) of
        Some s \<Rightarrow> stats_row hz_of now s r | None \<Rightarrow> r)) tbl"

definition PV_TIMEOUT_US :: int where "PV_TIMEOUT_US = 60000000"

definition timed_out :: "int \<Rightarrow> status_row \<Rightarrow> bool" where
  "timed_out now r \<longleftrightarrow> st_state r = ST_ARCHIVING \<and>
     (case st_last_event_at r of Some t \<Rightarrow> t < now - PV_TIMEOUT_US | None \<Rightarrow> False)"

definition detect_timeouts ::
  "('s, 'err, 'dt) handler_ctx \<Rightarrow> ('s, 'dt, 'num) app \<Rightarrow> ('s, 'dt, 'num) app" where
  "detect_timeouts hx a =
    (if hx_ok hx 1 then
       (let names = map fst (filter (\<lambda>(_, r). timed_out (hx_now hx) r) (ap_status a));
            a1 = map_status (update_where (\<lambda>_ r. timed_out (hx_now hx) r) (\<lambda>r. r \<lparr> st_state := ST_TIMEOUT \<rparr>)) a in
        if names = [] then a1
        else push_marks hx 105 SrTimeout names
          (on_success hx 2 (log_events (map (\<lambda>n. \<lparr> ev_pv_name = n, ev_pv_id = None, ev_type = 5,
              ev_ioc_addr = None, ev_detail = Some (ascii ''no data for 60s'') \<rparr>) names)) a1))
     else a)"

definition update_pv_status ::
  "(u64 \<Rightarrow> f32bits) \<Rightarrow> ('s, 'err, 'dt) handler_ctx \<Rightarrow> shard_stats list \<Rightarrow>
    ('s, 'dt, 'num) app \<Rightarrow> ('s, 'dt, 'num) app" where
  "update_pv_status hz_of hx shards a =
    detect_timeouts hx
      (if shards = [] then a
       else on_success hx 0 (map_status (stats_update hz_of (hx_now hx) (merge_shards shards))) a)"

end
