(* ===== verification/MainLoop.thy ===== *)
theory MainLoop
  imports Handlers Discover
begin

text \<open>
  The main task (\<open>src/src/main.rs\<close>): the subscription of the configured PVs at the start, and
  the loop that takes up, one at a time, reconnections and lifecycle events of the driver,
  the ticks of the statistics timer, the commands of discovery and the notifications of the
  database.

  One turn of the loop gets a \<open>handler_ctx\<close> and the answers of the IOCs; the outcome of a
  statement is numbered as in \<open>Handlers\<close> for the handlers and from 10 on for the statements
  of the turn itself.  Messages are decoded commands (serde is \<open>IngestCommand::from_json\<close>).
  What is printed is left out.
\<close>

section \<open>Tuning\<close>

text \<open>\<open>format_chunk_interval\<close>.\<close>

definition format_chunk_interval :: "nat \<Rightarrow> rstring" where
  "format_chunk_interval secs =
    (if secs \<ge> 7200 then show_nat (secs div 3600) @ ascii '' hours''
     else if secs \<ge> 3600 then ascii ''1 hour''
     else if secs \<ge> 120 then show_nat (secs div 60) @ ascii '' minutes''
     else ascii ''1 minute'')"

definition clamp_nat :: "nat \<Rightarrow> nat \<Rightarrow> nat \<Rightarrow> nat" where
  "clamp_nat lo hi x = (if x < lo then lo else if x > hi then hi else x)"

definition ingest_thread_count :: "nat \<Rightarrow> nat" where
  "ingest_thread_count cores = clamp_nat 2 16 (cores div 4)"

definition copy_connection_count :: "nat \<Rightarrow> nat" where
  "copy_connection_count cores = clamp_nat 4 16 (cores div 2)"

definition buffer_rows :: "nat \<Rightarrow> nat" where
  "buffer_rows ram_mb = clamp_nat 2000000 20000000 (ram_mb * 1024 * 1024 div 50 div 32)"

definition chunk_seconds :: "nat \<Rightarrow> nat \<Rightarrow> nat option" where
  "chunk_seconds max_rows rate = (if rate = 0 then None else Some (clamp_nat 60 86400 (max_rows div rate)))"

section \<open>Unsubscribing\<close>

text \<open>\<open>Vec::swap_remove\<close> at the first handle of the PV.\<close>

fun swap_remove :: "rstring \<Rightarrow> rstring list \<Rightarrow> rstring list" where
  "swap_remove pv [] = []"
| "swap_remove pv (h # hs) =
    (if h = pv then (if hs = [] then [] else last hs # butlast hs) else h # swap_remove pv hs)"

definition forget_ids :: "rstring list \<Rightarrow> (rstring \<rightharpoonup> 32 word) \<Rightarrow> (rstring \<rightharpoonup> 32 word)" where
  "forget_ids pvs c = (\<lambda>n. if n \<in> set pvs then None else c n)"

definition record_unsubscribed ::
  "('s, 'err, 'dt) handler_ctx \<Rightarrow> nat \<Rightarrow> string \<Rightarrow> rstring list \<Rightarrow> ('s, 'dt, 'num) app \<Rightarrow> ('s, 'dt, 'num) app" where
  "record_unsubscribed hx k detail pvs a =
    on_success hx (11 + 2 * k) (log_events (map (\<lambda>n. \<lparr> ev_pv_name = n, ev_pv_id = None, ev_type = 6,
        ev_ioc_addr = None, ev_detail = Some (ascii detail) \<rparr>) pvs))
    (on_success hx (10 + 2 * k) (map_status (update_where (\<lambda>n _. n \<in> set pvs)
        (\<lambda>r. r \<lparr> st_state := ST_UNSUBSCRIBED \<rparr>))) a)"

text \<open>The handles and converters of the PVs, let go of by the commands of discovery only.\<close>

definition release ::
  "rstring list \<Rightarrow> ('s, 'dt, 'num) app \<Rightarrow> ('s, 'dt, 'num) app" where
  "release pvs a = a \<lparr> ap_monitors := fold swap_remove pvs (ap_monitors a),
     ap_engine := fold unregister_pv pvs (ap_engine a) \<rparr>"

definition drop_pvs ::
  "('s, 'err, 'dt) handler_ctx \<Rightarrow> nat \<Rightarrow> string \<Rightarrow> rstring list \<Rightarrow> ('s, 'dt, 'num) app \<Rightarrow> ('s, 'dt, 'num) app" where
  "drop_pvs hx k detail pvs a =
    record_unsubscribed hx k detail pvs (a \<lparr> ap_cache := forget_ids pvs (ap_cache a) \<rparr>)"

definition driver_unsubscribe :: "rstring list \<Rightarrow> ('s, 'dt, 'num) app \<Rightarrow> ('s, 'dt, 'num) app" where
  "driver_unsubscribe pvs a = a \<lparr> ap_driver := unsubscribe pvs (ap_driver a) \<rparr>"

definition other_command ::
  "('s, 'err, 'dt) handler_ctx \<Rightarrow> nat \<times> IngestCommand \<Rightarrow> ('s, 'dt, 'num) app \<Rightarrow> ('s, 'dt, 'num) app" where
  "other_command hx entry a = (case entry of (k, cmd) \<Rightarrow>
     (case cmd of
        CmdUnsubscribe pv \<Rightarrow> drop_pvs hx k ''unsubscribed'' [pv] (release [pv] (driver_unsubscribe [pv] a))
      | CmdUnsubscribeBatch pvs \<Rightarrow> drop_pvs hx k ''batch unsubscribed'' pvs (release pvs (driver_unsubscribe pvs a))
      | _ \<Rightarrow> a))"

section \<open>Commands of discovery\<close>

definition new_pvs :: "rstring list \<Rightarrow> ('s, 'dt, 'num) app \<Rightarrow> rstring list" where
  "new_pvs pvs a = filter (\<lambda>pv. dr_cache (ap_driver a) pv = None) pvs"

text \<open>The first message filters a batch, the messages drained after it do not; an undecodable
  one is \<open>None\<close>.\<close>

definition take_first ::
  "('s, 'dt, 'num) app \<Rightarrow> IngestCommand option \<Rightarrow> rstring list \<times> IngestCommand list" where
  "take_first a msg =
    (case msg of
       None \<Rightarrow> ([], [])
     | Some (CmdSubscribe pv _) \<Rightarrow> ([pv], [])
     | Some (CmdSubscribeBatch pvs _) \<Rightarrow> (new_pvs pvs a, [])
     | Some cmd \<Rightarrow> ([], [cmd]))"

definition take_next ::
  "IngestCommand option \<Rightarrow> rstring list \<times> IngestCommand list \<Rightarrow> rstring list \<times> IngestCommand list" where
  "take_next msg acc = (case acc of (pvs, others) \<Rightarrow>
     (case msg of
        None \<Rightarrow> acc
      | Some (CmdSubscribe pv _) \<Rightarrow> (pvs @ [pv], others)
      | Some (CmdSubscribeBatch ps _) \<Rightarrow> (pvs @ ps, others)
      | Some cmd \<Rightarrow> (pvs, others @ [cmd])))"

definition reset_counters :: "'dt ingest_engine \<Rightarrow> 'dt ingest_engine" where
  "reset_counters e = e \<lparr> en_published := 0, en_events := 0, en_skipped := 0 \<rparr>"

text \<open>The ingest threads start once and take over the handles.\<close>

definition start_threads :: "('s, 'dt, 'num) app \<Rightarrow> ('s, 'dt, 'num) app" where
  "start_threads a =
    (if ap_monitors a \<noteq> [] \<and> \<not> ap_threads a then a \<lparr> ap_monitors := [], ap_threads := True \<rparr> else a)"

definition keep_handles :: "rstring list \<Rightarrow> ('s, 'dt, 'num) app \<Rightarrow> ('s, 'dt, 'num) app" where
  "keep_handles pvs a = a \<lparr> ap_monitors := ap_monitors a @ pvs \<rparr>"

definition subscribe_and_collect ::
  "('s, 'err, 'dt) handler_ctx \<Rightarrow> hash_order \<Rightarrow> 'e ioc_world \<Rightarrow> string \<Rightarrow> bool \<Rightarrow> (rstring \<times> PvaValue) list list \<Rightarrow>
    rstring list \<Rightarrow> ('s, 'dt, 'num) app \<Rightarrow> ('s, 'dt, 'num) app" where
  "subscribe_and_collect hx iters w detail reset raws pvs a =
    (case subscribe_pvs hx iters w (ascii detail) pvs a of
       (sr, a1) \<Rightarrow>
         (let a2 = keep_handles (sr_ok_pvs sr) a1 in
          if sr_ok_pvs sr = [] then a2
          else
            (let a3 = snd (collect_initial_metadata hx (length (sr_ok_pvs sr)) raws a2)
             in if reset then a3 \<lparr> ap_engine := reset_counters (ap_engine a3) \<rparr> else a3)))"

definition on_commands ::
  "('s, 'err, 'dt) handler_ctx \<Rightarrow> hash_order \<Rightarrow> 'e ioc_world \<Rightarrow> (rstring \<times> PvaValue) list list \<Rightarrow>
    IngestCommand option \<Rightarrow> IngestCommand option list \<Rightarrow> ('s, 'dt, 'num) app \<Rightarrow> ('s, 'dt, 'num) app" where
  "on_commands hx iters w raws first rest' a =
    (case fold take_next rest' (take_first a first) of
       (pvs, others) \<Rightarrow>
         (let a1 = (if pvs = [] then a
                else start_threads (subscribe_and_collect hx iters w ''subscribed (orchestrator)'' True raws pvs a))
          in fold (other_command hx) (enumerate 0 others) a1))"

section \<open>Notifications of the database\<close>

datatype notification = IocChange | Notified "IngestCommand option"

text \<open>Subscriptions that follow within the window are joined; the first message that is none ends
  the drain and is gone.\<close>

fun drain_notified :: "notification list \<Rightarrow> rstring list \<times> notification list" where
  "drain_notified [] = ([], [])"
| "drain_notified (msg # msgs) =
    (case msg of
       Notified (Some (CmdSubscribe pv _)) \<Rightarrow> (case drain_notified msgs of (pvs, left) \<Rightarrow> (pv # pvs, left))
     | Notified (Some (CmdSubscribeBatch ps _)) \<Rightarrow> (case drain_notified msgs of (pvs, left) \<Rightarrow> (ps @ pvs, left))
     | _ \<Rightarrow> ([], msgs))"

definition notify_subscribe ::
  "('s, 'err, 'dt) handler_ctx \<Rightarrow> hash_order \<Rightarrow> 'e ioc_world \<Rightarrow> rstring list \<Rightarrow>
    ('s, 'dt, 'num) app \<Rightarrow> ('s, 'dt, 'num) app" where
  "notify_subscribe hx iters w pvs a =
    (if new_pvs pvs a = [] then a
     else snd (subscribe_pvs hx iters w (ascii ''dynamic subscribe via NOTIFY'') (new_pvs pvs a) a))"

text \<open>The change of the table of IOCs: \<open>rows\<close> are its addresses, \<open>configured\<close> the enabled PVs.\<close>

definition remove_ioc ::
  "('s, 'err, 'dt) handler_ctx \<Rightarrow> (socket_addr \<Rightarrow> rstring) \<Rightarrow> socket_addr \<Rightarrow> ('s, 'dt, 'num) app \<Rightarrow> ('s, 'dt, 'num) app" where
  "remove_ioc hx addr_text addr a =
    (let a1 = (case dr_ioc_pvs (ap_driver a) addr of
           None \<Rightarrow> a
         | Some pvs \<Rightarrow> on_success hx 10 (log_events (map (\<lambda>n. \<lparr> ev_pv_name = n, ev_pv_id = None, ev_type = 7,
             ev_ioc_addr = Some (addr_text addr), ev_detail = Some (ascii ''IOC removed via NOTIFY'') \<rparr>) pvs)) a)
     in a1 \<lparr> ap_driver := remove_session addr (ap_driver a1) \<rparr>)"

definition add_ioc ::
  "('s, 'err, 'dt) handler_ctx \<Rightarrow> hash_order \<Rightarrow> 'e ioc_world \<Rightarrow> rstring list \<Rightarrow> socket_addr \<Rightarrow>
    ('s, 'dt, 'num) app \<Rightarrow> ('s, 'dt, 'num) app" where
  "add_ioc hx iters w configured addr a =
    (case hot_add_ioc (fst iters) w addr configured (ap_driver a) of
       (recovered, d) \<Rightarrow>
         (let a1 = a \<lparr> ap_driver := d \<rparr> in
          if recovered = [] then a1 else refresh_cache hx recovered (pre_register hx recovered a1)))"

definition ioc_change ::
  "('s, 'err, 'dt) handler_ctx \<Rightarrow> hash_order \<Rightarrow> 'e ioc_world \<Rightarrow> (socket_addr \<Rightarrow> rstring) \<Rightarrow> socket_addr list \<Rightarrow>
    rstring list \<Rightarrow> ('s, 'dt, 'num) app \<Rightarrow> ('s, 'dt, 'num) app" where
  "ioc_change hx iters w addr_text rows configured a =
    (let old = dr_name_servers (ap_driver a);
         a1 = a \<lparr> ap_driver := set_name_servers rows (ap_driver a) \<rparr>;
         a2 = fold (remove_ioc hx addr_text) (filter (\<lambda>x. x \<notin> set rows) old) a1
     in fold (add_ioc hx iters w configured) (filter (\<lambda>x. x \<notin> set old) rows) a2)"

definition on_notification ::
  "('s, 'err, 'dt) handler_ctx \<Rightarrow> hash_order \<Rightarrow> 'e ioc_world \<Rightarrow> (socket_addr \<Rightarrow> rstring) \<Rightarrow> socket_addr list \<Rightarrow>
    rstring list \<Rightarrow> notification \<Rightarrow> notification list \<Rightarrow> ('s, 'dt, 'num) app \<Rightarrow>
    ('s, 'dt, 'num) app \<times> notification list" where
  "on_notification hx iters w addr_text rows configured msg window a =
    (case msg of
       IocChange \<Rightarrow> (ioc_change hx iters w addr_text rows configured a, window)
     | Notified (Some (CmdSubscribe pv _)) \<Rightarrow>
         (case drain_notified window of (pvs, left) \<Rightarrow> (notify_subscribe hx iters w (pv # pvs) a, left))
     | Notified (Some (CmdSubscribeBatch ps _)) \<Rightarrow>
         (case drain_notified window of (pvs, left) \<Rightarrow> (notify_subscribe hx iters w (ps @ pvs) a, left))
     | Notified (Some (CmdUnsubscribe pv)) \<Rightarrow>
         (drop_pvs hx 0 ''unsubscribed'' [pv] (driver_unsubscribe [pv] a), window)
     | Notified (Some (CmdUnsubscribeBatch pvs)) \<Rightarrow>
         (drop_pvs hx 0 ''batch unsubscribed'' pvs (driver_unsubscribe pvs a), window)
     | _ \<Rightarrow> (a, window))"

section \<open>The loop\<close>

definition on_lifecycle ::
  "('s, 'err, 'dt) handler_ctx \<Rightarrow> (socket_addr \<Rightarrow> rstring) \<Rightarrow> LifecycleEvent \<Rightarrow>
    ('s, 'dt, 'num) app \<Rightarrow> ('s, 'dt, 'num) app" where
  "on_lifecycle hx addr_text ev a =
    (case ev of
       LeConnected addr pvs \<Rightarrow> handle_connect hx (addr_text addr) pvs a
     | LeDisconnected addr pvs reason \<Rightarrow> handle_disconnect hx (addr_text addr) pvs reason a
     | LeReconnected addr pvs \<Rightarrow> handle_reconnect hx (addr_text addr) pvs a)"

definition on_stats_tick ::
  "('s, 'err, 'dt) handler_ctx \<Rightarrow> ('s, 'err, 'dt) handler_ctx \<Rightarrow> (u64 \<Rightarrow> f32bits) \<Rightarrow> (rstring \<times> PvaValue) list \<Rightarrow>
    'dt pv_metadata list \<Rightarrow> shard_stats list \<Rightarrow> ('s, 'dt, 'num) app \<Rightarrow> ('s, 'dt, 'num) app" where
  "on_stats_tick hx hx' hz_of raw inline shards a =
    update_pv_status hz_of hx' shards (drain_metadata hx raw inline a)"

datatype ('e, 'dt) main_event =
    MeReconnected socket_addr nat
  | MeLifecycle LifecycleEvent
  | MeTick "(rstring \<times> PvaValue) list" "'dt pv_metadata list" "shard_stats list"
  | MeCommands "'e ioc_world" "(rstring \<times> PvaValue) list list" "IngestCommand option" "IngestCommand option list"
  | MeNotification "'e ioc_world" "socket_addr list" "rstring list" notification "notification list"

text \<open>A turn of the loop.  The rest of a notification window stays in the channel and comes up in a
  later turn.\<close>

definition main_turn ::
  "hash_order \<Rightarrow> (socket_addr \<Rightarrow> rstring) \<Rightarrow> (u64 \<Rightarrow> f32bits) \<Rightarrow>
    ('s, 'err, 'dt) handler_ctx \<times> ('s, 'err, 'dt) handler_ctx \<times> ('e, 'dt) main_event \<Rightarrow>
    ('s, 'dt, 'num) app \<Rightarrow> ('s, 'dt, 'num) app" where
  "main_turn iters addr_text hz_of turn a = (case turn of (hx, hx', ev) \<Rightarrow>
     (case ev of
        MeReconnected addr t \<Rightarrow> a \<lparr> ap_driver := install_commands addr t (ap_driver a) \<rparr>
      | MeLifecycle l \<Rightarrow> on_lifecycle hx addr_text l a
      | MeTick raw inline shards \<Rightarrow> on_stats_tick hx hx' hz_of raw inline shards a
      | MeCommands w raws first rest' \<Rightarrow> on_commands hx iters w raws first rest' a
      | MeNotification w rows configured msg window \<Rightarrow>
          fst (on_notification hx iters w addr_text rows configured msg window a)))"

text \<open>The start: the snapshot holds what the table had, the enabled PVs are subscribed, and every
  PV of the snapshot is entered as archiving.\<close>

definition main_startup ::
  "('s, 'err, 'dt) handler_ctx \<Rightarrow> hash_order \<Rightarrow> 'e ioc_world \<Rightarrow> (rstring \<times> PvaValue) list list \<Rightarrow>
    pv_row list \<Rightarrow> rstring list \<Rightarrow> ('s, 'dt, 'num) app \<Rightarrow> ('s, 'dt, 'num) app" where
  "main_startup hx iters w raws rows enabled a =
    (let a1 = a \<lparr> ap_cache := cache_rows rows Map.empty \<rparr>;
         a2 = (if enabled = [] then a1 else subscribe_and_collect hx iters w ''startup subscribe'' False raws enabled a1)
     in start_threads a2)"

definition enter_archiving ::
  "('s, 'err, 'dt) handler_ctx \<Rightarrow> pv_row list \<Rightarrow> ('s, 'dt, 'num) app \<Rightarrow> ('s, 'dt, 'num) app" where
  "enter_archiving hx snapshot a =
    (if snapshot = [] then a
     else
       on_success hx 11 (log_events (map (\<lambda>(i, n). \<lparr> ev_pv_name = n, ev_pv_id = Some i, ev_type = 0,
           ev_ioc_addr = None, ev_detail = Some (ascii ''startup subscribe'') \<rparr>) snapshot))
       (on_success hx 10 (map_status (fold (\<lambda>(i, n). upsert_status n
           (status_default \<lparr> st_pv_id := Some i, st_state := ST_ARCHIVING, st_subscribed_at := Some (hx_now hx),
              st_last_event_at := Some (hx_now hx) \<rparr>)
           (\<lambda>r. r \<lparr> st_state := ST_ARCHIVING, st_pv_id := Some i, st_subscribed_at := Some (hx_now hx),
              st_last_event_at := Some (hx_now hx) \<rparr>)) snapshot)) a))"

section \<open>The alert on lost data\<close>

text \<open>At every tick of the statistics the total of lost events is compared with the one before; an
  alert is raised when it has grown, at most once in thirty counted ticks.\<close>

record drop_watch =
  dw_total :: u64
  dw_alert_tick :: u64
  dw_tick :: u64

definition drop_watch_new :: drop_watch where
  "drop_watch_new = \<lparr> dw_total = 0, dw_alert_tick = 0, dw_tick = 0 \<rparr>"

definition saturating_minus :: "u64 \<Rightarrow> u64 \<Rightarrow> u64" where
  "saturating_minus x y = (if x < y then 0 else x - y)"

text \<open>The result is the total and the growth that the alert reports.\<close>

definition watch_drops :: "u64 \<Rightarrow> drop_watch \<Rightarrow> (u64 \<times> u64) option \<times> drop_watch" where
  "watch_drops lost s =
    (let tick = dw_tick s; prev = dw_total s; last_alert = dw_alert_tick s;
         s1 = s \<lparr> dw_tick := tick + 1, dw_total := lost \<rparr>
     in if lost > prev \<and> (last_alert = 0 \<or> saturating_minus tick last_alert \<ge> 30)
        then (Some (lost, lost - prev), s1 \<lparr> dw_alert_tick := max tick 1 \<rparr>)
        else (None, s1))"

end
