(* ===== verification/MainClaims.thy ===== *)
theory MainClaims
  imports MainFacts
begin

text \<open>
  The properties of the main task, over the facts of \<open>MainFacts\<close>: its tables stay well typed, a
  subscription leaves its PVs known and recorded, a lost IOC leaves a mark per known PV, and a
  status changes only by the event that stands for it.  The lemmas at the end show what the
  loop does not do: a PV that timed out is not taken up again by its data, a subscription by
  notification starts no thread, and the message that ends a drain is lost.
\<close>

section \<open>Marks\<close>

definition known_ids :: "('s, 'dt, 'num) app \<Rightarrow> rstring list \<Rightarrow> 32 word list" where
  "known_ids a pvs = List.map_filter (ap_cache a) pvs"

lemma push_marks_rows:
  "ap_buf (push_marks hx s r pvs a) = fold (\<lambda>i b. snd (push_scalar (mark_row hx s r i) b)) (known_ids a pvs) (ap_buf a)"
proof -
  have "fold (\<lambda>pv b. case c pv of Some i \<Rightarrow> snd (push_scalar (mark_row hx s r i) b) | None \<Rightarrow> b) pvs buf =
      fold (\<lambda>i b. snd (push_scalar (mark_row hx s r i) b)) (List.map_filter c pvs) buf" for c buf
    by (induction pvs arbitrary: buf) (simp_all add: List.map_filter_simps split: option.split)
  then show ?thesis
    by (simp add: push_marks_def known_ids_def)
qed

lemma pushed_rows:
  fixes b :: "('dt, 'num) shared_buffer"
  defines "room \<equiv> sb_max_len b - length (sb_scalars b)"
  shows "sb_scalars (fold (\<lambda>i b. snd (push_scalar (f i) b)) is b) = sb_scalars b @ map f (take room is)"
    and "sb_dropped (fold (\<lambda>i b. snd (push_scalar (f i) b)) is b) = sb_dropped b + of_nat (length is - room)"
    and "sb_others (fold (\<lambda>i b. snd (push_scalar (f i) b)) is b) = sb_others b"
proof -
  let ?push = "fold (\<lambda>i b. snd (push_scalar (f i) b))"
  have "sb_scalars (?push is b) = sb_scalars b @ map f (take (sb_max_len b - length (sb_scalars b)) is) \<and>
      sb_dropped (?push is b) = sb_dropped b + of_nat (length is - (sb_max_len b - length (sb_scalars b))) \<and>
      sb_others (?push is b) = sb_others b" for b :: "('dt, 'num) shared_buffer"
  proof (induction "is" arbitrary: b)
    case (Cons i "is")
    show ?case
    proof (cases "length (sb_scalars b) < sb_max_len b")
      case True
      then obtain n where n: "sb_max_len b - length (sb_scalars b) = Suc n"
        by (metis Suc_diff_Suc)
      then have "sb_max_len b - Suc (length (sb_scalars b)) = n"
        by simp
      then show ?thesis
        using Cons.IH True n by (simp add: push_scalar_def)
    next
      case False
      then show ?thesis
        using Cons.IH by (simp add: push_scalar_def)
    qed
  qed simp
  then show "sb_scalars (?push is b) = sb_scalars b @ map f (take room is)"
    "sb_dropped (?push is b) = sb_dropped b + of_nat (length is - room)"
    "sb_others (?push is b) = sb_others b"
    by (simp_all add: room_def)
qed

section \<open>Tables\<close>

lemma map_of_update_where: "map_of (update_where cond f tbl) n =
    (case map_of tbl n of Some r \<Rightarrow> Some (if cond n r then f r else r) | None \<Rightarrow> None)"
  by (induction tbl) (auto simp: update_where_def)

lemma map_of_upsert: "map_of (upsert_status name new f tbl) n =
    (if n = name then Some (case map_of tbl name of Some r \<Rightarrow> f r | None \<Rightarrow> new) else map_of tbl n)"
  by (auto simp: upsert_status_def update_conv' map_add_def split: option.split)

text \<open>C21. A lost IOC leaves a gap that the archive shows.  For every PV of the IOC whose id the
  task knows, in the order of the list, one row with no number in it, severity 3, status 103
  and the reason of a disconnection is put behind the rows that wait in the staging buffer, as
  far as there is room; the rest is counted as dropped.  The status of the listed PVs becomes
  DISCONNECTED when the statement succeeds, every other status is untouched, and one
  DISCONNECT event per listed PV is logged when that statement succeeds.\<close>

theorem lost_ioc_leaves_marks:
  "let b = handle_disconnect hx addr pvs reason a;
       ids = known_ids a pvs;
       room = sb_max_len (ap_buf a) - length (sb_scalars (ap_buf a))
   in sb_scalars (ap_buf b) = sb_scalars (ap_buf a) @
        map (\<lambda>i. scalar_row_new (hx_cal hx) (hx_utc hx) i F64_NAN 3 103 SrDisconnected) (take room ids) \<and>
      sb_dropped (ap_buf b) = sb_dropped (ap_buf a) + of_nat (length ids - room) \<and>
      sb_others (ap_buf b) = sb_others (ap_buf a) \<and>
      map_of (ap_status b) n =
        (case map_of (ap_status a) n of
           None \<Rightarrow> None
         | Some r \<Rightarrow> Some (if hx_ok hx 1 \<and> n \<in> set pvs then r \<lparr> st_state := ST_DISCONNECTED \<rparr> else r)) \<and>
      map ev_pv_name (drop (length (ap_events a)) (ap_events b)) = (if hx_ok hx 0 then pvs else []) \<and>
      list_all (\<lambda>ev. ev_type ev = 3 \<and> ev_ioc_addr ev = Some addr \<and> ev_detail ev = Some reason)
        (drop (length (ap_events a)) (ap_events b))"
proof -
  have buf: "ap_buf (handle_disconnect hx addr pvs reason a) = ap_buf (push_marks hx 103 SrDisconnected pvs a)"
    by (simp add: handle_disconnect_def on_success_def push_marks_def)
  have status: "ap_status (handle_disconnect hx addr pvs reason a) =
      (if hx_ok hx 1 then update_where (\<lambda>n _. n \<in> set pvs) (\<lambda>r. r \<lparr> st_state := ST_DISCONNECTED \<rparr>) (ap_status a)
       else ap_status a)"
    by (simp add: handle_disconnect_def on_success_def)
  have events: "ap_events (handle_disconnect hx addr pvs reason a) =
      ap_events a @ (if hx_ok hx 0 then map (connection_event hx 3 addr (Some reason) a) pvs else [])"
    by (simp add: handle_disconnect_def on_success_def)
  show ?thesis
    by (simp add: Let_def buf push_marks_rows pushed_rows mark_row_def status events map_of_update_where
        connection_event_def comp_def list.pred_map list.pred_True split: option.split)
qed

section \<open>The tables stay well typed\<close>

text \<open>C19. Whatever the turns of the main task - lost and recovered IOCs, ticks, commands,
  notifications, with any statement failing and any answer of the IOCs - its state stays well
  typed: an id of the snapshot is the id of the table, a PV the driver has recorded has a
  session with a task, each PV has one status row, with one of the seven codes of the
  migration, and an event row has one of the eight codes.\<close>

theorem main_task_well_typed:
  assumes "main_run ids iters addr_text hz_of a turns b" "app_ok ids a"
  shows "ap_cache b \<subseteq>\<^sub>m ids (ap_lookup b) \<and>
    (\<forall>pv addr. dr_cache (ap_driver b) pv = Some addr \<longrightarrow>
       (\<exists>t. dr_commands (ap_driver b) addr = Some t \<and> et_addr (dr_tasks (ap_driver b) ! t) = addr)) \<and>
    distinct (map fst (ap_status b)) \<and> (\<forall>r \<in> snd ` set (ap_status b). st_state r \<le> 6) \<and>
    (\<forall>ev \<in> set (ap_events b). ev_type ev \<le> 7)"
proof -
  have "app_ok ids b"
    using assms by (induction) (auto intro: app_ok_turn)
  then show ?thesis
    unfolding app_ok_def status_typed_def events_typed_def driver_ok_def by fastforce
qed

definition example_app :: "((rstring \<times> 32 word) list, 64 word, nat) app" where
  "example_app = \<lparr> ap_lookup = [(ascii ''a'', 1)], ap_cache = [ascii ''a'' \<mapsto> 1], ap_status = [], ap_events = [],
     ap_buf = sb_new 4, ap_driver = driver_new [\<lparr> sa_ip = IpV4 7, sa_port = 5075 \<rparr>], ap_engine = engine_new,
     ap_monitors = [], ap_threads = False, ap_meta_stored = [] \<rparr>"

definition example_ctx :: "int \<Rightarrow> ((rstring \<times> 32 word) list, unit, 64 word) handler_ctx" where
  "example_ctx now = \<lparr> hx_lookup = list_pv_lookup, hx_cal = second_calendar, hx_utc = 9, hx_now = now,
     hx_ok = (\<lambda>_. True) \<rparr>"

definition example_world :: "unit SessionError ioc_world" where
  "example_world = \<lparr> iw_search1 = \<lambda>_ pvs. pvs, iw_search2 = \<lambda>_ _. [], iw_batch = \<lambda>_ _. None,
     iw_subscribe = \<lambda>_ pvs. Some (map (\<lambda>pv. (pv, Ok (BusHandle pv))) pvs) \<rparr>"

lemma example_app_ok: "app_ok map_of example_app"
  by (simp add: app_ok_def example_app_def driver_ok_def driver_new_def status_typed_def events_typed_def
      map_le_def)

theorem main_task_well_typed_witness:
  "\<exists>b. main_run map_of (id, id) (\<lambda>_. []) (\<lambda>_. 0) example_app
      [(example_ctx 5, example_ctx 5, MeCommands example_world [] (Some (CmdSubscribe (ascii ''a'') None)) [])] b \<and>
    distinct (map fst (ap_status b))"
proof -
  have "turn_ok map_of (example_ctx 5, example_ctx 5, MeCommands example_world [] (Some (CmdSubscribe (ascii ''a'') None)) [])
      example_app"
    by (simp add: turn_ok_def example_ctx_def list_pv_lookup_laws)
  from main_run.run_turn[OF main_run.run_start this, of "(id, id)" "\<lambda>_. []" "\<lambda>_. 0"]
  show ?thesis
    using main_task_well_typed[OF _ example_app_ok] by fastforce
qed

section \<open>The life cycle of a status\<close>

text \<open>The state of a PV in the table, and how one step may change it: \<open>e\<close> relates the state
  before to the state after.\<close>

definition state_of :: "('s, 'dt, 'num) app \<Rightarrow> rstring \<Rightarrow> nat option" where
  "state_of a n = map_option st_state (map_of (ap_status a) n)"

definition moves :: "(nat option \<Rightarrow> nat option \<Rightarrow> bool) \<Rightarrow> ('s, 'dt, 'num) app \<Rightarrow> ('s, 'dt, 'num) app \<Rightarrow> bool" where
  "moves e a b \<longleftrightarrow> (\<forall>n. state_of b n = state_of a n \<or> e (state_of a n) (state_of b n))"

definition transitive :: "(nat option \<Rightarrow> nat option \<Rightarrow> bool) \<Rightarrow> bool" where
  "transitive e \<longleftrightarrow> (\<forall>x y z. e x y \<longrightarrow> e y z \<longrightarrow> e x z)"

lemma moves_same: "ap_status b = ap_status a \<Longrightarrow> moves e a b"
  by (simp add: moves_def state_of_def)

lemma moves_trans:
  assumes "transitive e" "moves e a b" "moves e b c"
  shows "moves e a c"
  unfolding moves_def
proof
  fix n
  have "state_of b n = state_of a n \<or> e (state_of a n) (state_of b n)"
    "state_of c n = state_of b n \<or> e (state_of b n) (state_of c n)"
    using assms(2,3) unfolding moves_def by blast+
  then show "state_of c n = state_of a n \<or> e (state_of a n) (state_of c n)"
    using assms(1) unfolding transitive_def by (elim disjE) (simp, simp, simp, blast)
qed

lemma moves_refl [simp]: "moves e a a"
  by (simp add: moves_same)

lemma moves_success:
  assumes "transitive e" "moves e a b" "\<And>c. moves e c (f c)"
  shows "moves e a (on_success hx i f b)"
  using assms(2) moves_trans[OF assms(1,2) assms(3)] by (simp add: on_success_def)

lemma moves_fields [simp]:
  "moves e a (push_marks hx s r pvs b) = moves e a b" "moves e a (note_stored ms b) = moves e a b"
  "moves e a (log_events evs b) = moves e a b"
  by (simp_all add: moves_def state_of_def)

lemma moves_if: "moves e a b \<Longrightarrow> moves e a c \<Longrightarrow> moves e a (if d then b else c)"
  by simp

lemma moves_update:
  assumes "\<And>n r. cond n r \<Longrightarrow> st_state (f r) = st_state r \<or> e (Some (st_state r)) (Some (st_state (f r)))"
  shows "moves e a (map_status (update_where cond f) a)"
  unfolding moves_def
proof
  fix n
  show "state_of (map_status (update_where cond f) a) n = state_of a n \<or>
      e (state_of a n) (state_of (map_status (update_where cond f) a) n)"
    using assms[of n] by (cases "map_of (ap_status a) n") (auto simp: state_of_def map_of_update_where)
qed

lemma moves_upsert:
  assumes "e None (Some (st_state new))" "\<And>r. e (Some (st_state r)) (Some (st_state (f r)))"
  shows "moves e a (map_status (upsert_status name new f) a)"
  using assms unfolding moves_def
  by (auto simp: state_of_def map_of_upsert split: option.split)

lemma moves_upserts:
  assumes "transitive e" "\<And>x. e None (Some (st_state (new x)))" "\<And>x r. e (Some (st_state r)) (Some (st_state (f x r)))"
  shows "moves e a (map_status (fold (\<lambda>x. upsert_status (name x) (new x) (f x)) xs) a)"
proof (induction xs arbitrary: a)
  case (Cons x xs)
  have one: "moves e a (map_status (upsert_status (name x) (new x) (f x)) a)"
    by (rule moves_upsert) (simp_all add: assms)
  have "map_status (fold (\<lambda>x. upsert_status (name x) (new x) (f x)) (x # xs)) a =
      map_status (fold (\<lambda>x. upsert_status (name x) (new x) (f x)) xs) (map_status (upsert_status (name x) (new x) (f x)) a)"
    by (simp add: map_status_def)
  from ssubst[OF this] moves_trans[OF assms(1) one Cons.IH] show ?case
    by blast
qed (simp add: moves_same)

lemma moves_fold:
  assumes "transitive e" "\<And>x b. moves e b (f x b)"
  shows "moves e a (fold f xs a)"
proof (induction xs arbitrary: a)
  case (Cons x xs)
  show ?case
    using moves_trans[OF assms(1) assms(2) Cons.IH] by simp
qed (simp add: moves_same)

text \<open>The edges of each kind of turn.\<close>

fun edge :: "('e, 'dt) main_event \<Rightarrow> nat option \<Rightarrow> nat option \<Rightarrow> bool" where
  "edge (MeReconnected addr t) x y = False"
| "edge (MeLifecycle (LeConnected addr pvs)) x y =
    (x \<in> Some ` {ST_INIT, ST_SEARCHING, ST_DISCONNECTED, ST_TIMEOUT} \<and> y = Some ST_CONNECTED)"
| "edge (MeLifecycle (LeDisconnected addr pvs reason)) x y = (x \<noteq> None \<and> y = Some ST_DISCONNECTED)"
| "edge (MeLifecycle (LeReconnected addr pvs)) x y = (x \<noteq> None \<and> y = Some ST_ARCHIVING)"
| "edge (MeTick raw inline shards) x y = (y = Some ST_ARCHIVING \<or> y = Some ST_TIMEOUT)"
| "edge (MeCommands w raws first rest') x y = (y = Some ST_SEARCHING \<or> y = Some ST_UNSUBSCRIBED)"
| "edge (MeNotification w rows configured msg window) x y = (y = Some ST_SEARCHING \<or> y = Some ST_UNSUBSCRIBED)"

lemma transitive_edge: "transitive (edge ev)"
proof (cases ev)
  case (MeLifecycle l)
  then show ?thesis
    by (cases l) (auto simp: transitive_def st_defs)
qed (auto simp: transitive_def)

lemmas moves_intros = moves_success[OF transitive_edge] moves_if moves_refl

lemma moves_connect: "moves (edge (MeLifecycle (LeConnected ad ps))) a (handle_connect hx addr pvs a)"
  unfolding handle_connect_def
  by (intro moves_intros moves_update) (auto simp: image_iff)

lemma moves_disconnect: "moves (edge (MeLifecycle (LeDisconnected ad ps re))) a (handle_disconnect hx addr pvs reason a)"
  unfolding handle_disconnect_def
  by (intro moves_intros moves_update) (simp_all add: moves_success[OF transitive_edge])

lemma moves_reconnect: "moves (edge (MeLifecycle (LeReconnected ad ps))) a (handle_reconnect hx addr pvs a)"
  unfolding handle_reconnect_def
  by (intro moves_intros moves_update) (simp_all add: moves_success[OF transitive_edge])

lemma moves_first_values: "moves (edge (MeTick rw il sh :: ('e, 'dt) main_event)) a (upsert_first_values now ms a)"
  unfolding upsert_first_values_def
  by (intro moves_intros moves_upserts transitive_edge) (simp_all add: archiving_row_def)

lemma moves_drain: "moves (edge (MeTick rw il sh :: ('e, 'dt) main_event)) a (drain_metadata hx raw inline a)"
proof -
  have "moves (edge (MeTick rw il sh :: ('e, 'dt) main_event)) a (drain_sessions hx raw a)"
    unfolding drain_sessions_def Let_def
    by (intro moves_intros moves_first_values) simp_all
  then show ?thesis
    unfolding drain_metadata_def Let_def by (intro moves_intros) simp_all
qed

lemma stats_row_state: "st_state (stats_row hz_of now s r) = (if st_state r = ST_CONNECTED then ST_ARCHIVING else st_state r)"
  by (simp add: stats_row_def split: prod.split)

lemma moves_stats: "moves (edge (MeTick rw il sh :: ('e, 'dt) main_event)) a (map_status (stats_update hz_of now m) a)"
  unfolding moves_def
proof
  fix n
  have "map_of (stats_update hz_of now m tbl) n = (case map_of tbl n of None \<Rightarrow> None
      | Some r \<Rightarrow> Some (case Option.bind (st_pv_id r) (map_of m) of Some s \<Rightarrow> stats_row hz_of now s r | None \<Rightarrow> r))" for tbl
    by (induction tbl) (auto simp: stats_update_def split: option.split)
  then show "state_of (map_status (stats_update hz_of now m) a) n = state_of a n \<or>
      edge (MeTick rw il sh :: ('e, 'dt) main_event) (state_of a n) (state_of (map_status (stats_update hz_of now m) a) n)"
    by (auto simp: state_of_def stats_row_state split: option.split)
qed

lemma moves_timeouts: "moves (edge (MeTick rw il sh :: ('e, 'dt) main_event)) a (detect_timeouts hx a)"
proof -
  have "moves (edge (MeTick rw il sh :: ('e, 'dt) main_event)) a
      (map_status (update_where (\<lambda>_ r. timed_out now r) (\<lambda>r. r \<lparr> st_state := ST_TIMEOUT \<rparr>)) a)" for now
    by (rule moves_update) simp
  then show ?thesis
    unfolding detect_timeouts_def Let_def by (intro moves_intros) (simp_all add: moves_success[OF transitive_edge])
qed

lemma moves_tick: "moves (edge (MeTick rw il sh :: ('e, 'dt) main_event)) a (on_stats_tick hx hx' hz_of raw inline shards a)"
proof -
  have "moves (edge (MeTick rw il sh :: ('e, 'dt) main_event)) b (update_pv_status hz_of hx' shards b)" for b
    unfolding update_pv_status_def
    by (rule moves_trans[OF transitive_edge _ moves_timeouts]) (intro moves_intros moves_stats)
  from moves_trans[OF transitive_edge moves_drain this] show ?thesis
    by (simp add: on_stats_tick_def)
qed

text \<open>Subscribing and unsubscribing, by a command of discovery or by a notification.\<close>

definition sub_edge :: "nat option \<Rightarrow> nat option \<Rightarrow> bool" where
  "sub_edge x y \<longleftrightarrow> y = Some ST_SEARCHING \<or> y = Some ST_UNSUBSCRIBED"

lemma transitive_sub: "transitive sub_edge"
  by (simp add: transitive_def sub_edge_def)

lemmas sub_trans = moves_trans[OF transitive_sub]

lemma sub_recorded: "moves sub_edge a (record_subscribed hx detail rows a)"
proof -
  have "moves sub_edge b (map_status (fold (\<lambda>p. upsert_status (snd p) (searching_row now (fst p) status_default)
      (searching_row now (fst p))) rows) b)" for b :: "('a, 'b, 'c) app" and now
    by (rule moves_upserts[OF transitive_sub]) (simp_all add: sub_edge_def searching_row_def)
  then show ?thesis
    unfolding record_subscribed_def
    by (intro moves_success[OF transitive_sub] moves_refl) (simp_all add: case_prod_unfold)
qed

lemma sub_subscribe: "moves sub_edge a (snd (subscribe_pvs hx iters w detail pvs a))"
proof -
  have "moves sub_edge a (record_subscribed hx detail rows b)" if "ap_status b = ap_status a" for b rows
    by (rule sub_trans[OF moves_same[OF that] sub_recorded])
  then show ?thesis
    by (simp add: subscribe_pvs_def Let_def refresh_cache_def pre_register_def moves_same split: prod.split)
qed

lemma sub_drop: "moves sub_edge a (drop_pvs hx k detail pvs a)"
proof -
  have "moves sub_edge b (record_unsubscribed hx k detail pvs b)" for b :: "('a, 'b, 'c) app"
    unfolding record_unsubscribed_def
    by (intro moves_success[OF transitive_sub] moves_update moves_refl) (simp_all add: sub_edge_def)
  from sub_trans[OF moves_same this] show ?thesis
    by (simp add: drop_pvs_def)
qed

lemma collect_status [simp]: "ap_status (snd (collect_initial_metadata hx n raws b)) = ap_status b"
  by (simp add: collect_initial_metadata_def Let_def)

lemma sub_subscribe_collect: "moves sub_edge a (subscribe_and_collect hx iters w detail reset raws pvs a)"
proof -
  obtain sr a1 where s: "subscribe_pvs hx iters w (ascii detail) pvs a = (sr, a1)"
    by fastforce
  have "ap_status (subscribe_and_collect hx iters w detail reset raws pvs a) = ap_status a1"
    using s by (simp add: subscribe_and_collect_def Let_def keep_handles_def)
  then show ?thesis
    using sub_trans[OF sub_subscribe[of a hx iters w "ascii detail" pvs] moves_same] s by simp
qed

lemma sub_other: "moves sub_edge a (other_command hx entry a)"
proof -
  have "moves sub_edge a (drop_pvs hx k detail pvs b)" if "ap_status b = ap_status a" for b k detail pvs
    by (rule sub_trans[OF moves_same[OF that] sub_drop])
  then show ?thesis
    by (simp add: other_command_def release_def driver_unsubscribe_def split: prod.split IngestCommand.split)
qed

lemma sub_commands: "moves sub_edge a (on_commands hx iters w raws first rest' a)"
proof -
  obtain pvs others where t: "fold take_next rest' (take_first a first) = (pvs, others)"
    by fastforce
  have threads: "moves sub_edge b (start_threads b)" for b :: "('a, 'b, 'c) app"
    by (simp add: start_threads_def moves_same)
  have others: "moves sub_edge b (fold (other_command hx) (enumerate 0 others) b)" for b
    by (rule moves_fold[OF transitive_sub sub_other])
  show ?thesis
    unfolding on_commands_def t prod.case Let_def
    by (rule sub_trans[OF moves_if[OF moves_refl sub_trans[OF sub_subscribe_collect threads]] others])
qed

lemma sub_notification: "moves sub_edge a (fst (on_notification hx iters w addr_text rows configured msg window a))"
proof -
  have remove: "moves sub_edge b (remove_ioc hx addr_text addr b)" for b addr
    by (auto simp: remove_ioc_def Let_def on_success_def intro!: moves_same split: option.split)
  have add: "moves sub_edge b (add_ioc hx iters w configured addr b)" for b addr
    by (auto simp: add_ioc_def Let_def refresh_cache_def pre_register_def intro!: moves_same split: prod.split)
  have change: "moves sub_edge a (ioc_change hx iters w addr_text rows configured a)"
    unfolding ioc_change_def Let_def
    by (rule sub_trans[OF sub_trans[OF moves_same moves_fold[OF transitive_sub remove]] moves_fold[OF transitive_sub add]]) simp
  have subscribe: "moves sub_edge a (notify_subscribe hx iters w pvs a)" for pvs
    by (simp add: notify_subscribe_def sub_subscribe)
  have drop: "moves sub_edge a (drop_pvs hx 0 detail pvs (driver_unsubscribe pvs' a))" for detail pvs pvs'
    by (rule sub_trans[OF moves_same sub_drop]) (simp add: driver_unsubscribe_def)
  show ?thesis
    by (simp add: on_notification_def change subscribe drop
        split: notification.split option.split IngestCommand.split prod.split)
qed

text \<open>C20. A status changes only by the event that stands for it.  In one turn of the main task
  the state of a PV stays as it is, or: it becomes CONNECTED from INIT, SEARCHING, DISCONNECTED
  or TIMEOUT when its IOC connects, DISCONNECTED when the IOC is lost, ARCHIVING when the IOC is
  back, ARCHIVING or TIMEOUT at a tick of the statistics, SEARCHING or UNSUBSCRIBED at a command
  or a notification.  A row is never deleted, and a lost or recovered IOC enters none.\<close>

theorem status_changes_by_its_event:
  "case turn of (hx, hx', ev) \<Rightarrow>
     state_of (main_turn iters addr_text hz_of (hx, hx', ev) a) n = state_of a n \<or>
     edge ev (state_of a n) (state_of (main_turn iters addr_text hz_of (hx, hx', ev) a) n)"
proof -
  obtain hx hx' ev where t: "turn = (hx, hx', ev)"
    by (cases turn)
  have "moves (edge ev) a (main_turn iters addr_text hz_of (hx, hx', ev) a)"
  proof (cases ev)
    case (MeLifecycle l)
    then show ?thesis
      by (cases l) (simp_all add: main_turn_def on_lifecycle_def moves_connect moves_disconnect moves_reconnect
          del: edge.simps)
  next
    case (MeCommands w raws first rest')
    moreover have "edge ev = sub_edge"
      by (auto simp: MeCommands sub_edge_def fun_eq_iff)
    ultimately show ?thesis
      by (simp add: main_turn_def sub_commands)
  next
    case (MeNotification w rows configured msg window)
    moreover have "edge ev = sub_edge"
      by (auto simp: MeNotification sub_edge_def fun_eq_iff)
    ultimately show ?thesis
      by (simp add: main_turn_def sub_notification)
  qed (simp_all add: main_turn_def moves_tick moves_same del: edge.simps)
  then show ?thesis
    by (simp add: t moves_def)
qed

section \<open>Subscribing\<close>

lemma cache_rows_hit:
  assumes "\<And>i n. (i, n) \<in> set rows \<Longrightarrow> t n = Some i" "pv \<in> snd ` set rows"
  shows "cache_rows rows c pv = t pv"
proof -
  have "fold (\<lambda>(i, n) c. c(n \<mapsto> i)) rows c pv = t pv"
    using assms
  proof (induction rows rule: rev_induct)
    case (snoc row rows)
    obtain i n where row: "row = (i, n)"
      by fastforce
    show ?case
    proof (cases "pv = n")
      case True
      have "t n = Some i"
        by (rule snoc.prems(1)) (simp add: row)
      then show ?thesis
        using True row by simp
    next
      case False
      then show ?thesis
        using snoc row by auto
    qed
  qed simp
  then show ?thesis
    by (simp add: cache_rows_def)
qed

lemma subscribed_rows:
  assumes "\<And>i n. (i, n) \<in> set rows \<Longrightarrow> t n = Some i" "pv \<in> snd ` set rows"
  shows "\<exists>r. map_of (fold (\<lambda>(i, n). upsert_status n (searching_row now i status_default) (searching_row now i)) rows tbl) pv =
    Some (searching_row now (the (t pv)) r)"
  using assms
proof (induction rows rule: rev_induct)
  case (snoc row rows)
  obtain i n where row: "row = (i, n)"
    by fastforce
  show ?case
  proof (cases "pv = n")
    case True
    have "t n = Some i"
      by (rule snoc.prems(1)) (simp add: row)
    then show ?thesis
      using True row by (auto simp: map_of_upsert split: option.split)
  next
    case False
    then have "pv \<in> snd ` set rows" "\<And>i n. (i, n) \<in> set rows \<Longrightarrow> t n = Some i"
      using snoc.prems row by auto
    from snoc.IH[OF this(2,1)] show ?thesis
      using False row by (simp add: map_of_upsert)
  qed
qed simp

lemma register_keeps: "map_of (en_converters e) n \<noteq> None \<Longrightarrow> map_of (en_converters (register_pv m e)) n \<noteq> None"
  by (simp add: register_pv_def)

lemma registered: "map_of (en_converters (register_pv n e)) n \<noteq> None"
  by (simp add: register_pv_def)

lemma take_result_simps:
  "take_result (pv, Inl err) (sr, e) = (sr \<lparr> sr_failed := sr_failed sr + 1 \<rparr>, e)"
  "take_result (pv, Inr h) (sr, e) = (sr \<lparr> sr_ok_pvs := sr_ok_pvs sr @ [pv] \<rparr>, register_pv pv e)"
  by (simp_all add: take_result_def)

lemma taken_results:
  assumes "fold take_result results (sr0, e0) = (sr, e)"
    "\<forall>pv \<in> set (sr_ok_pvs sr0). map_of (en_converters e0) pv \<noteq> None"
  shows "(\<forall>pv \<in> set (sr_ok_pvs sr). map_of (en_converters e) pv \<noteq> None) \<and>
    length (sr_ok_pvs sr) + sr_failed sr = length (sr_ok_pvs sr0) + sr_failed sr0 + length results"
  using assms
proof (induction results arbitrary: sr0 e0)
  case (Cons res results)
  obtain pv r where res: "res = (pv, r)"
    by fastforce
  show ?case
  proof (cases r)
    case (Inl err)
    then have "fold take_result results (sr0 \<lparr> sr_failed := sr_failed sr0 + 1 \<rparr>, e0) = (sr, e)"
      using Cons.prems(1) res by (simp add: take_result_simps)
    from Cons.IH[OF this] show ?thesis
      using Cons.prems(2) by simp
  next
    case (Inr h)
    then have "fold take_result results (sr0 \<lparr> sr_ok_pvs := sr_ok_pvs sr0 @ [pv] \<rparr>, register_pv pv e0) = (sr, e)"
      using Cons.prems(1) res by (simp add: take_result_simps)
    moreover have "\<forall>n \<in> set (sr_ok_pvs (sr0 \<lparr> sr_ok_pvs := sr_ok_pvs sr0 @ [pv] \<rparr>)).
        map_of (en_converters (register_pv pv e0)) n \<noteq> None"
      using Cons.prems(2) register_keeps[of e0 _ pv] registered[of pv e0] by auto
    ultimately show ?thesis
      using Cons.IH by fastforce
  qed
qed simp

text \<open>C18. A subscription leaves its PVs known and recorded.  When the statements succeed and the
  table lists a PV that the driver subscribed, then the PV is one the driver answered \<open>Ok\<close> for
  with a converter registered, its id in the snapshot is the id of the table, its status row
  says SEARCHING with this id and the time of the call, and a SUBSCRIBE event with id and detail
  is logged.\<close>

theorem subscription_is_recorded:
  assumes laws: "pv_lookup_laws (hx_lookup hx) ids" and call: "subscribe_pvs hx iters w detail pvs a = (sr, b)"
    and ok: "hx_ok hx 0" "hx_ok hx 1" and pv: "pv \<in> set (sr_ok_pvs sr)"
    and rows: "pl_select_any (hx_lookup hx) (sr_ok_pvs sr) (ap_lookup b) = Ok rows" "pv \<in> snd ` set rows"
  shows "\<exists>i r. ids (ap_lookup b) pv = Some i \<and> ap_cache b pv = Some i \<and>
    map_of (ap_status b) pv = Some r \<and> st_state r = ST_SEARCHING \<and> st_pv_id r = Some i \<and>
    st_subscribed_at r = Some (hx_now hx) \<and>
    \<lparr> ev_pv_name = pv, ev_pv_id = Some i, ev_type = 0, ev_ioc_addr = None, ev_detail = Some detail \<rparr> \<in> set (ap_events b) \<and>
    map_of (en_converters (ap_engine b)) pv \<noteq> None"
proof -
  let ?a1 = "refresh_cache hx pvs (pre_register hx pvs a)"
  have ne: "pvs \<noteq> []"
    using call pv by (auto simp: subscribe_pvs_def)
  obtain results d where m: "monitor_batch iters w pvs (ap_driver ?a1) = (results, d)"
    by fastforce
  obtain sr' e where f: "fold take_result results (\<lparr> sr_ok_pvs = [], sr_failed = 0 \<rparr>, ap_engine ?a1) = (sr', e)"
    by fastforce
  let ?a2 = "?a1 \<lparr> ap_driver := d, ap_engine := e \<rparr>"
  have sr: "sr' = sr"
    using call ne m f by (auto simp: subscribe_pvs_def Let_def split: if_splits)
  have b: "b = (if select_ids hx (sr_ok_pvs sr) ?a2 = [] then ?a2
      else record_subscribed hx detail (select_ids hx (sr_ok_pvs sr) ?a2) (refresh_cache hx (sr_ok_pvs sr) ?a2))"
    using call ne m f pv by (auto simp: subscribe_pvs_def Let_def split: if_splits)
  have lookup: "ap_lookup b = ap_lookup ?a2"
    by (simp add: b record_subscribed_def on_success_def refresh_cache_def)
  then have sel: "select_ids hx (sr_ok_pvs sr) ?a2 = rows"
    using rows(1) by (simp add: select_ids_def)
  have b': "b = record_subscribed hx detail rows (refresh_cache hx (sr_ok_pvs sr) ?a2)"
    using b rows(2) unfolding sel by auto
  have ids: "ids (ap_lookup b) n = Some i" if "(i, n) \<in> set rows" for i n
    using selected_rows[OF laws, of i n "sr_ok_pvs sr" ?a2] that sel lookup by simp
  obtain i where i: "(i, pv) \<in> set rows"
    using rows(2) by auto
  note known = ids[OF i]
  have "refresh_cache hx (sr_ok_pvs sr) ?a2 = ?a2 \<lparr> ap_cache := cache_rows rows (ap_cache ?a2) \<rparr>"
    by (simp only: refresh_cache_def[of hx "sr_ok_pvs sr"] sel)
  then have "ap_cache b = cache_rows rows (ap_cache ?a2)"
    by (simp add: b' record_subscribed_def on_success_def)
  then have cache: "ap_cache b pv = Some i"
    using cache_rows_hit[of rows, OF ids rows(2)] known by simp
  have "ap_status b = fold (\<lambda>(i, n). upsert_status n (searching_row (hx_now hx) i status_default)
      (searching_row (hx_now hx) i)) rows (ap_status (refresh_cache hx (sr_ok_pvs sr) ?a2))"
    by (simp add: b' record_subscribed_def on_success_def ok)
  with subscribed_rows[of rows "ids (ap_lookup b)" pv, OF ids rows(2)]
  obtain r where status: "map_of (ap_status b) pv = Some (searching_row (hx_now hx) i r)"
    using known by fastforce
  have events: "\<lparr> ev_pv_name = pv, ev_pv_id = Some i, ev_type = 0, ev_ioc_addr = None, ev_detail = Some detail \<rparr> \<in> set (ap_events b)"
    using i by (auto simp: b' record_subscribed_def on_success_def ok[simplified] image_iff split: prod.split)
  have "ap_engine b = e"
    by (simp add: b' record_subscribed_def on_success_def refresh_cache_def log_events_def map_status_def)
  then show ?thesis
    using known cache status events taken_results[OF f] pv sr by (auto simp: searching_row_def)
qed

theorem subscription_is_recorded_witness:
  "let b = snd (subscribe_pvs (example_ctx 5) (id, id) example_world (ascii ''startup subscribe'') [ascii ''b''] example_app)
   in \<exists>i r. map_of (ap_lookup b) (ascii ''b'') = Some i \<and> ap_cache b (ascii ''b'') = Some i \<and>
        map_of (ap_status b) (ascii ''b'') = Some r \<and> st_state r = ST_SEARCHING"
proof -
  let ?call = "subscribe_pvs (example_ctx 5) (id, id) example_world (ascii ''startup subscribe'') [ascii ''b''] example_app"
  obtain sr b where c: "?call = (sr, b)"
    by fastforce
  have ok: "sr_ok_pvs (fst ?call) = [ascii ''b'']"
    by code_simp
  have rows: "pl_select_any (hx_lookup (example_ctx 5)) [ascii ''b''] (ap_lookup (snd ?call)) = Ok [(2, ascii ''b'')]"
    by code_simp
  have "pv_lookup_laws (hx_lookup (example_ctx 5)) map_of"
    by (simp add: example_ctx_def list_pv_lookup_laws)
  from subscription_is_recorded[OF this c, of "ascii ''b''" "[(2, ascii ''b'')]"] show ?thesis
    using ok rows c by (auto simp: example_ctx_def)
qed

section \<open>What the loop does not do\<close>

text \<open>A PV that timed out stays so, whatever data the shards report for it.\<close>

lemma timeout_outlives_data:
  assumes "state_of a n = Some ST_TIMEOUT"
  shows "state_of (update_pv_status hz_of hx shards a) n = Some ST_TIMEOUT"
proof -
  have stats: "state_of (map_status (stats_update hz_of now m) b) n = Some ST_TIMEOUT"
    if "state_of b n = Some ST_TIMEOUT" for now m and b :: "('a, 'b, 'c) app"
  proof -
    have "map_of (stats_update hz_of now m tbl) n = (case map_of tbl n of None \<Rightarrow> None
        | Some r \<Rightarrow> Some (case Option.bind (st_pv_id r) (map_of m) of Some s \<Rightarrow> stats_row hz_of now s r | None \<Rightarrow> r))" for tbl
      by (induction tbl) (auto simp: stats_update_def split: option.split)
    then show ?thesis
      using that by (auto simp: state_of_def stats_row_state st_defs split: option.split)
  qed
  have timeouts: "state_of (detect_timeouts hx b) n = Some ST_TIMEOUT"
    if "state_of b n = Some ST_TIMEOUT" for b :: "('a, 'b, 'c) app"
    using that by (auto simp: detect_timeouts_def Let_def state_of_def map_of_update_where on_success_def
        split: option.split)
  show ?thesis
    using assms stats timeouts by (simp add: update_pv_status_def on_success_def)
qed

text \<open>A subscription by notification starts no ingest thread and keeps no handle.\<close>

lemma notification_starts_no_thread:
  "ap_threads (notify_subscribe hx iters w pvs a) = ap_threads a \<and>
   ap_monitors (notify_subscribe hx iters w pvs a) = ap_monitors a"
  by (simp add: notify_subscribe_def subscribe_pvs_def Let_def record_subscribed_def on_success_def
      refresh_cache_def pre_register_def split: prod.split)

text \<open>The message that ends a drain is taken from the channel and never acted on.\<close>

lemma drain_loses_a_message:
  "on_notification hx iters w addr_text rows configured (Notified (Some (CmdSubscribe pv t)))
     (Notified (Some (CmdUnsubscribe q)) # msgs) a =
   (notify_subscribe hx iters w [pv] a, msgs)"
  by (simp add: on_notification_def)

text \<open>An IOC that comes back marks every PV of its list as archiving, also one that was
  unsubscribed meanwhile.\<close>

lemma reconnect_revives_unsubscribed:
  assumes "hx_ok hx 1" "n \<in> set pvs" "state_of a n = Some ST_UNSUBSCRIBED"
  shows "state_of (handle_reconnect hx addr pvs a) n = Some ST_ARCHIVING"
  using assms by (auto simp: handle_reconnect_def on_success_def state_of_def map_of_update_where)

section \<open>The alert on lost data\<close>

text \<open>The ticks, from 0, at which a run of totals raises an alert.\<close>

fun alert_ticks :: "nat \<Rightarrow> u64 list \<Rightarrow> drop_watch \<Rightarrow> nat list" where
  "alert_ticks k [] s = []"
| "alert_ticks k (t # ts) s =
    (case watch_drops t s of (r, s') \<Rightarrow> (if r = None then [] else [k]) @ alert_ticks (Suc k) ts s')"

lemma watch_drops_tick: "watch_drops t s = (r, s') \<Longrightarrow> dw_tick s' = dw_tick s + 1"
  by (auto simp: watch_drops_def Let_def split: if_splits)

lemma watch_drops_alert: "watch_drops t s = (r, s') \<Longrightarrow>
    dw_alert_tick s' = (if r = None then dw_alert_tick s else max (dw_tick s) 1)"
  by (auto simp: watch_drops_def Let_def split: if_splits)

lemma watch_drops_waits: "watch_drops t s = (Some d, s') \<Longrightarrow>
    dw_alert_tick s = 0 \<or> saturating_minus (dw_tick s) (dw_alert_tick s) \<ge> 30"
  by (auto simp: watch_drops_def Let_def split: if_splits)

lemma waited:
  assumes "dw_tick s = of_nat k" "dw_alert_tick s = of_nat p" "0 < p" "p \<le> k" "k < 2 ^ 64"
    "watch_drops t s = (Some d, s')"
  shows "p + 30 \<le> k"
proof -
  have u: "unat (dw_tick s) = k" "unat (dw_alert_tick s) = p"
    using assms(1-5) by (simp_all add: unat_of_nat_64)
  then have "dw_alert_tick s \<noteq> 0"
    using assms(3) by (metis unat_0 less_irrefl)
  then have "30 \<le> saturating_minus (dw_tick s) (dw_alert_tick s)"
    using watch_drops_waits[OF assms(6)] by simp
  moreover have "\<not> dw_tick s < dw_alert_tick s"
    using u assms(4) by (simp add: word_less_nat_alt)
  ultimately have "30 \<le> dw_tick s - dw_alert_tick s"
    by (simp add: saturating_minus_def)
  moreover have "unat (dw_tick s - dw_alert_tick s) = k - p"
    using u assms(4) by (simp add: unat_sub word_le_nat_alt)
  ultimately have "30 \<le> k - p"
    by (simp add: word_le_nat_alt)
  then show ?thesis
    by simp
qed

lemma alerts_after:
  assumes "dw_tick s = of_nat k" "dw_alert_tick s = of_nat p" "0 < p" "p \<le> k" "k + length ts < 2 ^ 64"
  shows "sorted_wrt (\<lambda>x y. x + 30 \<le> y) (alert_ticks k ts s) \<and> (\<forall>x \<in> set (alert_ticks k ts s). p + 30 \<le> x)"
  using assms
proof (induction ts arbitrary: k s p)
  case (Cons t ts)
  obtain r s' where w: "watch_drops t s = (r, s')"
    by fastforce
  have tick: "dw_tick s' = of_nat (Suc k)"
    using watch_drops_tick[OF w] Cons.prems(1) by simp
  show ?case
  proof (cases r)
    case None
    then have "dw_alert_tick s' = of_nat p"
      using watch_drops_alert[OF w] Cons.prems(2) by simp
    from Cons.IH[OF tick this Cons.prems(3)] show ?thesis
      using None w Cons.prems(4,5) by simp
  next
    case (Some d)
    have k: "p + 30 \<le> k"
      using waited[OF Cons.prems(1-4)] Cons.prems(5) w Some by simp
    then have "unat (of_nat k :: u64) = k"
      using Cons.prems(5) by (simp add: unat_of_nat_64)
    then have "max (of_nat k) 1 = (of_nat k :: u64)"
      using k by (simp add: max_def word_le_nat_alt)
    then have "dw_alert_tick s' = of_nat k"
      using watch_drops_alert[OF w] Some Cons.prems(1) by simp
    from Cons.IH[OF tick this] have "sorted_wrt (\<lambda>x y. x + 30 \<le> y) (alert_ticks (Suc k) ts s') \<and>
        (\<forall>x \<in> set (alert_ticks (Suc k) ts s'). k + 30 \<le> x)"
      using k Cons.prems(5) by simp
    then show ?thesis
      using Some w k by auto
  qed
qed simp

lemma alerts_from:
  assumes "dw_tick s = of_nat k" "dw_alert_tick s = 0" "k + length ts < 2 ^ 64"
  shows "sorted_wrt (\<lambda>x y. x + 30 \<le> y) (alert_ticks k ts s)"
  using assms
proof (induction ts arbitrary: k s)
  case (Cons t ts)
  obtain r s' where w: "watch_drops t s = (r, s')"
    by fastforce
  have tick: "dw_tick s' = of_nat (Suc k)"
    using watch_drops_tick[OF w] Cons.prems(1) by simp
  show ?case
  proof (cases r)
    case None
    then have "dw_alert_tick s' = 0"
      using watch_drops_alert[OF w] Cons.prems(2) by simp
    from Cons.IH[OF tick this] show ?thesis
      using None w Cons.prems(3) by simp
  next
    case (Some d)
    have "unat (of_nat k :: u64) = k"
      using Cons.prems(3) by (simp add: unat_of_nat_64)
    then have "max (of_nat k) 1 = (of_nat (max k 1) :: u64)"
      by (cases k) (simp_all add: max_def word_le_nat_alt)
    then have "dw_alert_tick s' = of_nat (max k 1)"
      using watch_drops_alert[OF w] Some Cons.prems(1) by simp
    from alerts_after[OF tick this] show ?thesis
      using Some w Cons.prems(3) by fastforce
  qed
qed simp

text \<open>Lost data is reported, and not more than once in thirty ticks.  In a run of fewer than
  \<open>2 ^ 64\<close> ticks from the start any two alerts are at least thirty ticks apart.\<close>

theorem loss_alerts_thirty_ticks_apart:
  assumes "length totals < 2 ^ 64"
  shows "sorted_wrt (\<lambda>x y. x + 30 \<le> y) (alert_ticks 0 totals drop_watch_new)"
  by (rule alerts_from) (use assms in \<open>simp_all add: drop_watch_new_def\<close>)

theorem loss_alerts_thirty_ticks_apart_witness:
  "alert_ticks 0 [5, 9, 9, 12] drop_watch_new = [0] \<and>
    sorted_wrt (\<lambda>x y. x + 30 \<le> y) (alert_ticks 0 [5, 9, 9, 12] drop_watch_new)"
proof
  show "alert_ticks 0 [5, 9, 9, 12] drop_watch_new = [0]"
    by (simp add: watch_drops_def Let_def drop_watch_new_def saturating_minus_def)
  show "sorted_wrt (\<lambda>x y. x + 30 \<le> y) (alert_ticks 0 [5, 9, 9, 12] drop_watch_new)"
    by (rule loss_alerts_thirty_ticks_apart) simp
qed

end
