(* ===== verification/Migrations.thy ===== *)
theory Migrations
  imports PvData
begin

text \<open>
  The migrations of the schema (\<open>aura-store/src/migrations.rs\<close>): the list of the steps, their run
  against a table of applied versions, and its report.

  \<open>mig_db\<close> is what the runs leave in the database: whether the tracking table exists, its rows, and
  the versions whose script was executed to its end, in order.  What a script does is outside the
  program; so is the outcome of each statement, given by a function of the statement.
\<close>

section \<open>The steps\<close>

record migration_step =
  mg_version :: int
  mg_name :: rstring

definition all_migrations :: "migration_step list" where
  "all_migrations = map (\<lambda>(v, n). \<lparr> mg_version = v, mg_name = ascii n \<rparr>)
     [(1, ''extensions''), (2, ''pv_lookup''), (3, ''pv_config''), (4, ''pv_metadata''), (5, ''samples''),
      (6, ''samples_typed''), (7, ''compression''), (8, ''retention''), (9, ''continuous_aggs''), (10, ''alert_log''),
      (11, ''array_destructured''), (12, ''destructure_json_tables''), (13, ''ioc_config''),
      (14, ''pv_events_status''), (15, ''batch_notify'')]"

definition migration_get :: "int \<Rightarrow> migration_step option" where
  "migration_get v = find (\<lambda>m. mg_version m = v) all_migrations"

definition migration_by_name :: "rstring \<Rightarrow> migration_step option" where
  "migration_by_name n = find (\<lambda>m. mg_name m = n) all_migrations"

definition migration_count :: nat where
  "migration_count = length all_migrations"

definition migration_step_display :: "migration_step \<Rightarrow> rstring" where
  "migration_step_display m =
    (let ds = show_int (mg_version m) in replicate (3 - length ds) 48 @ ds @ ascii ''_'' @ mg_name m)"

section \<open>The report\<close>

record migration_report =
  mr_applied :: "int list"
  mr_skipped :: "int list"
  mr_total :: nat

definition applied_count :: "migration_report \<Rightarrow> nat" where "applied_count r = length (mr_applied r)"
definition skipped_count :: "migration_report \<Rightarrow> nat" where "skipped_count r = length (mr_skipped r)"
definition is_up_to_date :: "migration_report \<Rightarrow> bool" where "is_up_to_date r \<longleftrightarrow> mr_applied r = []"
definition is_fresh_install :: "migration_report \<Rightarrow> bool" where
  "is_fresh_install r \<longleftrightarrow> length (mr_applied r) = mr_total r"

definition migration_report_display :: "migration_report \<Rightarrow> rstring" where
  "migration_report_display r =
    (if is_up_to_date r then ascii ''database up to date ('' @ show_nat (mr_total r) @ ascii '' migrations)''
     else ascii ''applied '' @ show_nat (applied_count r) @ ascii '' migration(s), '' @ show_nat (skipped_count r) @
       ascii '' skipped, '' @ show_nat (mr_total r) @ ascii '' total'')"

section \<open>The run\<close>

datatype migration_stmt = MsTracking | MsCheck int | MsScript int | MsRecord int

datatype migration_error = TrackingFailed | CheckFailed | ScriptFailed migration_step | RecordFailed

record mig_db =
  md_tracking :: bool
  md_rows :: "(int \<times> rstring) list"
  md_executed :: "int list"

definition mig_db_new :: mig_db where
  "mig_db_new = \<lparr> md_tracking = False, md_rows = [], md_executed = [] \<rparr>"

definition already_applied :: "int \<Rightarrow> mig_db \<Rightarrow> bool" where
  "already_applied v db \<longleftrightarrow> v \<in> set (map fst (md_rows db))"

fun run_steps ::
  "(migration_stmt \<Rightarrow> bool) \<Rightarrow> migration_step list \<Rightarrow> migration_report \<Rightarrow> mig_db \<Rightarrow>
    (migration_error + migration_report) \<times> mig_db" where
  "run_steps ok [] report db = (Inr report, db)"
| "run_steps ok (step # steps) report db =
    (let v = mg_version step in
     if \<not> ok (MsCheck v) then (Inl CheckFailed, db)
     else if already_applied v db then run_steps ok steps (report \<lparr> mr_skipped := mr_skipped report @ [v] \<rparr>) db
     else if \<not> ok (MsScript v) then (Inl (ScriptFailed step), db)
     else
       (let db1 = db \<lparr> md_executed := md_executed db @ [v] \<rparr> in
        if \<not> ok (MsRecord v) then (Inl RecordFailed, db1)
        else run_steps ok steps (report \<lparr> mr_applied := mr_applied report @ [v] \<rparr>)
          (db1 \<lparr> md_rows := md_rows db1 @ [(v, mg_name step)] \<rparr>)))"

definition migrations_run ::
  "(migration_stmt \<Rightarrow> bool) \<Rightarrow> mig_db \<Rightarrow> (migration_error + migration_report) \<times> mig_db" where
  "migrations_run ok db =
    (if \<not> ok MsTracking then (Inl TrackingFailed, db)
     else run_steps ok all_migrations \<lparr> mr_applied = [], mr_skipped = [], mr_total = length all_migrations \<rparr>
       (db \<lparr> md_tracking := True \<rparr>))"

section \<open>What any number of runs leaves behind\<close>

definition versions :: "int list" where
  "versions = map mg_version all_migrations"

lemma versions_eq: "versions = [1, 2, 3, 4, 5, 6, 7, 8, 9, 10, 11, 12, 13, 14, 15]"
  by (simp add: versions_def all_migrations_def)

lemma distinct_versions: "distinct versions"
  by (simp add: versions_eq)

definition mig_at :: "nat \<Rightarrow> mig_db \<Rightarrow> bool" where
  "mig_at k db \<longleftrightarrow> k \<le> length versions \<and> map fst (md_rows db) = take k versions \<and>
     (remdups_adj (md_executed db) = take k versions \<or> remdups_adj (md_executed db) = take (Suc k) versions)"

lemma remdups_adj_snoc: "remdups_adj (xs @ [x]) = (if xs \<noteq> [] \<and> last xs = x then remdups_adj xs else remdups_adj xs @ [x])"
  by (induction xs rule: remdups_adj.induct) auto

lemma last_remdups: "xs \<noteq> [] \<Longrightarrow> last (remdups_adj xs) = last xs"
  by (induction xs rule: remdups_adj.induct) auto

text \<open>The script of the next step is executed once more; the log grows by it when it is the first time.\<close>

lemma executed_next:
  assumes "remdups_adj xs = take k vs \<or> remdups_adj xs = take (Suc k) vs" "k < length vs" "distinct vs"
  shows "remdups_adj (xs @ [vs ! k]) = take (Suc k) vs"
proof -
  have snoc: "take (Suc k) vs = take k vs @ [vs ! k]"
    using assms(2) by (rule take_Suc_conv_app_nth)
  consider "remdups_adj xs = take k vs" | "remdups_adj xs = take (Suc k) vs"
    using assms(1) by blast
  then show ?thesis
  proof cases
    case 1
    have "last xs \<noteq> vs ! k" if "xs \<noteq> []"
    proof -
      have "last xs \<in> set (take k vs)"
        using that 1 last_remdups[OF that] by (metis last_in_set remdups_adj_Nil_iff)
      then show ?thesis
        using assms(2,3) snoc by (metis distinct.simps(2) distinct_take distinct1_rotate not_distinct_conv_prefix rotate1.simps(2))
    qed
    then show ?thesis
      using 1 snoc by (auto simp: remdups_adj_snoc)
  next
    case 2
    then have "xs \<noteq> []"
      using snoc by auto
    then have "last xs = vs ! k"
      using 2 last_remdups[of xs] snoc by simp
    then show ?thesis
      using 2 \<open>xs \<noteq> []\<close> by (simp add: remdups_adj_snoc)
  qed
qed

lemma run_from:
  assumes "mig_at k db" "i \<le> k" "run_steps ok (drop i all_migrations) rep db = (res, db')"
  shows "\<exists>k'. mig_at k' db' \<and> (case res of Inl _ \<Rightarrow> True
    | Inr rep' \<Rightarrow> k' = length versions \<and> mr_skipped rep' = mr_skipped rep @ drop i (take k versions) \<and>
        mr_applied rep' = mr_applied rep @ drop k versions)"
  using assms
proof (induction "length versions - i" arbitrary: i k rep db)
  case 0
  then have "i = length versions" "k = length versions"
    by (auto simp: mig_at_def)
  moreover from this have "drop i all_migrations = []"
    by (simp add: versions_def)
  ultimately show ?case
    using 0 by auto
next
  case (Suc n)
  then have i: "i < length all_migrations" "i < length versions"
    by (simp_all add: versions_def)
  let ?step = "all_migrations ! i"
  have v: "mg_version ?step = versions ! i"
    using i by (simp add: versions_def)
  have step: "drop i all_migrations = ?step # drop (Suc i) all_migrations"
    using i(1) by (rule Cons_nth_drop_Suc[symmetric])
  have n: "n = length versions - Suc i"
    using Suc.hyps(2) by simp
  note run = Suc.prems(3)[unfolded step run_steps.simps Let_def v]
  show ?case
  proof (cases "ok (MsCheck (versions ! i))")
    case False
    then show ?thesis
      using run Suc.prems(1) by auto
  next
    case check: True
    show ?thesis
    proof (cases "i < k")
      case True
      then have "versions ! i \<in> set (take k versions)"
        using i(2) by (metis in_set_conv_nth length_take min_less_iff_conj nth_take)
      then have "already_applied (versions ! i) db"
        using Suc.prems(1) by (simp add: already_applied_def mig_at_def)
      then have "run_steps ok (drop (Suc i) all_migrations) (rep \<lparr> mr_skipped := mr_skipped rep @ [versions ! i] \<rparr>) db = (res, db')"
        using run check by simp
      from Suc.hyps(1)[OF n Suc.prems(1) _ this] True
      obtain k' where "mig_at k' db'" "case res of Inl _ \<Rightarrow> True
          | Inr rep' \<Rightarrow> k' = length versions \<and> mr_skipped rep' = mr_skipped rep @ [versions ! i] @ drop (Suc i) (take k versions) \<and>
            mr_applied rep' = mr_applied rep @ drop k versions"
        by (cases res) auto
      moreover have "drop i (take k versions) = versions ! i # drop (Suc i) (take k versions)"
        using Cons_nth_drop_Suc[of i "take k versions"] True i by simp
      ultimately show ?thesis
        by (cases res) auto
    next
      case False
      then have k: "k = i"
        using Suc.prems(2) by simp
      have "versions ! i \<notin> set (take i versions)"
        using distinct_versions i(2) by (simp add: in_set_conv_nth nth_eq_iff_index_eq)
      then have new: "\<not> already_applied (versions ! i) db"
        using Suc.prems(1) k by (simp add: already_applied_def mig_at_def)
      let ?db1 = "db \<lparr> md_executed := md_executed db @ [versions ! i] \<rparr>"
      have "remdups_adj (md_executed ?db1) = take (Suc i) versions"
        using Suc.prems(1) k executed_next[of "md_executed db" i versions] i(2) distinct_versions
        by (simp add: mig_at_def)
      then have ran: "mig_at i ?db1"
          "mig_at (Suc i) (?db1 \<lparr> md_rows := md_rows ?db1 @ [(versions ! i, mg_name ?step)] \<rparr>)"
        using Suc.prems(1) k i(2) by (simp_all add: mig_at_def take_Suc_conv_app_nth)
      consider "\<not> ok (MsScript (versions ! i))" | "ok (MsScript (versions ! i))" "\<not> ok (MsRecord (versions ! i))"
        | "ok (MsScript (versions ! i))" "ok (MsRecord (versions ! i))"
        by blast
      then show ?thesis
      proof cases
        case 3
        then have "run_steps ok (drop (Suc i) all_migrations) (rep \<lparr> mr_applied := mr_applied rep @ [versions ! i] \<rparr>)
            (?db1 \<lparr> md_rows := md_rows ?db1 @ [(versions ! i, mg_name ?step)] \<rparr>) = (res, db')"
          using run check new by simp
        from Suc.hyps(1)[OF n ran(2) order_refl this]
        obtain k' where "mig_at k' db'" "case res of Inl _ \<Rightarrow> True
            | Inr rep' \<Rightarrow> k' = length versions \<and> mr_skipped rep' = mr_skipped rep @ drop (Suc i) (take (Suc i) versions) \<and>
              mr_applied rep' = mr_applied rep @ [versions ! i] @ drop (Suc i) versions"
          by (cases res) auto
        moreover have "drop i versions = versions ! i # drop (Suc i) versions"
          using i(2) by (rule Cons_nth_drop_Suc[symmetric])
        ultimately show ?thesis
          using k by (auto split: sum.splits)
      qed (use run check new Suc.prems(1) ran(1) in auto)
    qed
  qed
qed

lemma run_steps_total:
  "\<exists>rep' db'. run_steps (\<lambda>_. True) steps rep db = (Inr rep', db') \<and> mr_total rep' = mr_total rep"
proof (induction steps arbitrary: rep db)
  case (Cons step steps)
  show ?case
    using Cons.IH by (cases "already_applied (mg_version step) db") (fastforce simp: Let_def)+
qed simp

lemma mig_at_run:
  assumes "mig_at k db" "migrations_run ok db = (res, db')"
  shows "\<exists>k'. mig_at k' db' \<and> (case res of Inl _ \<Rightarrow> True
    | Inr rep \<Rightarrow> k' = length versions \<and> mr_skipped rep = take k versions \<and> mr_applied rep = drop k versions)"
proof (cases "ok MsTracking")
  case True
  then have run: "run_steps ok (drop 0 all_migrations) \<lparr> mr_applied = [], mr_skipped = [], mr_total = length all_migrations \<rparr>
      (db \<lparr> md_tracking := True \<rparr>) = (res, db')"
    using assms(2) by (simp add: migrations_run_def)
  have "mig_at k (db \<lparr> md_tracking := True \<rparr>)"
    using assms(1) by (simp add: mig_at_def)
  from run_from[OF this le0 run] show ?thesis
    by (simp only: migration_report.simps append.left_neutral drop_0)
next
  case False
  then have "res = Inl TrackingFailed" "db' = db"
    using assms(2) by (simp_all add: migrations_run_def)
  then show ?thesis
    using assms(1) by (intro exI[of _ k]) simp
qed

lemma mig_at_runs: "\<exists>k. mig_at k (fold (\<lambda>ok db. snd (migrations_run ok db)) oks mig_db_new)"
proof (induction oks rule: rev_induct)
  case Nil
  show ?case
    by (intro exI[of _ 0]) (simp add: mig_at_def mig_db_new_def)
next
  case (snoc ok oks)
  then obtain k where k: "mig_at k (fold (\<lambda>ok db. snd (migrations_run ok db)) oks mig_db_new)"
    by blast
  obtain res db' where r: "migrations_run ok (fold (\<lambda>ok db. snd (migrations_run ok db)) oks mig_db_new) = (res, db')"
    by fastforce
  from mig_at_run[OF k r] show ?case
    using r by auto
qed

text \<open>C25. The schema is brought up to date whatever stops the runs before.  After any number of runs
  from an empty database, each with any of its statements failing, the recorded versions are
  the first \<open>k\<close> in order and the scripts were executed in order, without a gap, the last
  executed one perhaps not recorded yet.  A run that then meets no failure succeeds: it skips those
  \<open>k\<close>, applies the others in order, and leaves every version recorded and executed, so that a
  further run is up to date.\<close>

theorem migrations_resume_where_they_stopped:
  "let db = fold (\<lambda>ok db. snd (migrations_run ok db)) oks mig_db_new in
   \<exists>k rep. map fst (md_rows db) = take k versions \<and>
     remdups_adj (md_executed db) \<in> {take k versions, take (Suc k) versions} \<and>
     fst (migrations_run (\<lambda>_. True) db) = Inr rep \<and>
     mr_skipped rep = take k versions \<and> mr_applied rep = drop k versions \<and> mr_total rep = 15 \<and>
     map fst (md_rows (snd (migrations_run (\<lambda>_. True) db))) = versions \<and>
     remdups_adj (md_executed (snd (migrations_run (\<lambda>_. True) db))) = versions \<and>
     (case fst (migrations_run (\<lambda>_. True) (snd (migrations_run (\<lambda>_. True) db))) of
        Inr again \<Rightarrow> is_up_to_date again | Inl _ \<Rightarrow> False)"
proof -
  let ?db = "fold (\<lambda>ok db. snd (migrations_run ok db)) oks mig_db_new"
  obtain k where k: "mig_at k ?db"
    using mig_at_runs by blast
  have number: "length all_migrations = 15"
    by (simp add: all_migrations_def)
  have total: "\<exists>rep db'. migrations_run (\<lambda>_. True) d = (Inr rep, db') \<and> mr_total rep = 15" for d
    using run_steps_total[of all_migrations "\<lparr> mr_applied = [], mr_skipped = [], mr_total = length all_migrations \<rparr>"
        "d \<lparr> md_tracking := True \<rparr>"]
    by (simp add: migrations_run_def number)
  obtain rep db' where r: "migrations_run (\<lambda>_. True) ?db = (Inr rep, db')" "mr_total rep = 15"
    using total by blast
  have k': "mig_at (length versions) db'" "mr_skipped rep = take k versions" "mr_applied rep = drop k versions"
    using mig_at_run[OF k r(1)] by auto
  obtain again db'' where a: "migrations_run (\<lambda>_. True) db' = (Inr again, db'')"
    using total by blast
  have "is_up_to_date again"
    using mig_at_run[OF k'(1) a] by (auto simp: is_up_to_date_def)
  moreover have "remdups_adj (md_executed db') = versions" "map fst (md_rows db') = versions"
    using k'(1) by (auto simp: mig_at_def)
  moreover have "map fst (md_rows ?db) = take k versions"
      "remdups_adj (md_executed ?db) \<in> {take k versions, take (Suc k) versions}"
    using k unfolding mig_at_def by blast+
  ultimately show ?thesis
    unfolding Let_def
    by (intro exI[of _ k] exI[of _ rep]) (simp only: r a k' fst_conv snd_conv sum.case simp_thms)
qed

end
