(* ===== verification/ConfigStore.thy ===== *)
theory ConfigStore
  imports Discover MetaStore "HOL-Library.Multiset"
begin

text \<open>
  The table of PV configurations (\<open>aura-store/src/pv_config.rs\<close>, \<open>migrations/003\<close>) and what its
  poller sees of it.

  The table is a list of rows by name.  A statement that fails (its error text is given) changes
  nothing; \<open>now\<close> is the time of the database.  The trigger of the table sets \<open>updated_at\<close> at every
  UPDATE.  The order of a query is a function of the rows, the pattern match \<open>ILIKE\<close> a predicate.
\<close>

section \<open>Rows\<close>

record config_row =
  cr_description :: "rstring option"
  cr_unit :: "rstring option"
  cr_heartbeat_s :: "f64bits option"
  cr_expected_ioc :: "rstring option"
  cr_enabled :: bool
  cr_created_at :: int
  cr_updated_at :: int

type_synonym config_table = "(rstring \<times> config_row) list"

definition F64_ONE :: f64bits where "F64_ONE = 0x3FF0000000000000"

text \<open>NULL stands for the global default; a NaN is neither below zero nor above one.\<close>

definition validate_heartbeat :: "f64bits \<Rightarrow> f64bits option" where
  "validate_heartbeat h =
    (if \<not> f64_nan h \<and> f64_key h \<le> 0 then None
     else Some (if f64_nan h \<or> f64_key h < f64_key F64_ONE then F64_ONE else h))"

definition into_pv_config :: "rstring \<times> config_row \<Rightarrow> pv_config" where
  "into_pv_config nr = (case nr of (n, r) \<Rightarrow>
     (pv_config_new n) \<lparr> pg_description := cr_description r, pg_unit := cr_unit r,
       pg_heartbeat_s := (case cr_heartbeat_s r of Some h \<Rightarrow> h | None \<Rightarrow> 0), pg_enabled := cr_enabled r \<rparr>)"

definition new_config_row :: "int \<Rightarrow> pv_config \<Rightarrow> config_row" where
  "new_config_row now c = \<lparr> cr_description = pg_description c, cr_unit = pg_unit c,
     cr_heartbeat_s = validate_heartbeat (pg_heartbeat_s c), cr_expected_ioc = None, cr_enabled = pg_enabled c,
     cr_created_at = now, cr_updated_at = now \<rparr>"

section \<open>Queries\<close>

definition config_get :: "statement \<Rightarrow> rstring \<Rightarrow> config_table \<Rightarrow> AuraError + pv_config option" where
  "config_get s name t = (case s of Some e \<Rightarrow> Err (db_error ''get pv_config'' e)
     | None \<Rightarrow> Ok (map_option (\<lambda>r. into_pv_config (name, r)) (map_of t name)))"

type_synonym row_order = "(rstring \<times> config_row) list \<Rightarrow> (rstring \<times> config_row) list"

definition config_query ::
  "string \<Rightarrow> row_order \<Rightarrow> statement \<Rightarrow> (rstring \<times> config_row \<Rightarrow> bool) \<Rightarrow> config_table \<Rightarrow> AuraError + pv_config list" where
  "config_query name order s cond t = (case s of Some e \<Rightarrow> Err (db_error name e)
     | None \<Rightarrow> Ok (map into_pv_config (order (filter cond t))))"

definition get_all_enabled :: "row_order \<Rightarrow> statement \<Rightarrow> config_table \<Rightarrow> AuraError + pv_config list" where
  "get_all_enabled by_pv s t = config_query ''get_all_enabled'' by_pv s (\<lambda>(n, r). cr_enabled r) t"

definition get_changed_since :: "row_order \<Rightarrow> statement \<Rightarrow> int \<Rightarrow> config_table \<Rightarrow> AuraError + pv_config list" where
  "get_changed_since by_update s since t =
    config_query ''get_changed_since'' by_update s (\<lambda>(n, r). since < cr_updated_at r) t"

definition get_by_ioc :: "row_order \<Rightarrow> statement \<Rightarrow> rstring \<Rightarrow> config_table \<Rightarrow> AuraError + pv_config list" where
  "get_by_ioc by_pv s addr t = config_query ''get_by_ioc'' by_pv s (\<lambda>(n, r). cr_expected_ioc r = Some addr) t"

definition config_search ::
  "(rstring \<Rightarrow> rstring \<Rightarrow> bool) \<Rightarrow> row_order \<Rightarrow> statement \<Rightarrow> rstring \<Rightarrow> int \<Rightarrow> config_table \<Rightarrow> AuraError + pv_config list" where
  "config_search ilike by_pv s pattern limit t =
    (let k = (if limit < 1 then 1 else if limit > 1000 then 1000 else limit) in
     config_query ''search'' (take (nat k) \<circ> by_pv) s
       (\<lambda>(n, r). ilike n (ascii ''%'' @ pattern @ ascii ''%'')) t)"

definition config_count_all :: "statement \<Rightarrow> config_table \<Rightarrow> AuraError + nat" where
  "config_count_all s t = (case s of Some e \<Rightarrow> Err (db_error ''count_all'' e) | None \<Rightarrow> Ok (length t))"

definition config_count_enabled :: "statement \<Rightarrow> config_table \<Rightarrow> AuraError + nat" where
  "config_count_enabled s t = (case s of Some e \<Rightarrow> Err (db_error ''count_enabled'' e)
     | None \<Rightarrow> Ok (length (filter (\<lambda>(n, r). cr_enabled r) t)))"

section \<open>Changes\<close>

text \<open>A second row of the same name violates the primary key; \<open>conflict\<close> is the text of that error.\<close>

definition config_insert ::
  "rstring \<Rightarrow> statement \<Rightarrow> int \<Rightarrow> pv_config \<Rightarrow> config_table \<Rightarrow> (AuraError + unit) \<times> config_table" where
  "config_insert conflict s now c t =
    (case s of
       Some e \<Rightarrow> (Err (db_error ''insert pv_config'' e), t)
     | None \<Rightarrow> (if map_of t (pg_pv_name c) \<noteq> None then (Err (db_error ''insert pv_config'' conflict), t)
               else (Ok (), t @ [(pg_pv_name c, new_config_row now c)])))"

definition upsert_config_row :: "int \<Rightarrow> pv_config \<Rightarrow> config_table \<Rightarrow> config_table" where
  "upsert_config_row now c t =
    (case map_of t (pg_pv_name c) of
       None \<Rightarrow> t @ [(pg_pv_name c, new_config_row now c)]
     | Some r \<Rightarrow> AList.update (pg_pv_name c)
         (r \<lparr> cr_description := pg_description c, cr_unit := pg_unit c,
              cr_heartbeat_s := validate_heartbeat (pg_heartbeat_s c), cr_enabled := pg_enabled c,
              cr_updated_at := now \<rparr>) t)"

definition config_upsert ::
  "statement \<Rightarrow> int \<Rightarrow> pv_config \<Rightarrow> config_table \<Rightarrow> (AuraError + unit) \<times> config_table" where
  "config_upsert s now c t = (case s of Some e \<Rightarrow> (Err (db_error ''upsert pv_config'' e), t)
     | None \<Rightarrow> (Ok (), upsert_config_row now c t))"

text \<open>The statements of a batch, until one fails.\<close>

fun upsert_rows ::
  "(nat \<Rightarrow> statement) \<Rightarrow> int \<Rightarrow> nat \<Rightarrow> pv_config list \<Rightarrow> config_table \<Rightarrow> AuraError + config_table" where
  "upsert_rows row now k [] t = Ok t"
| "upsert_rows row now k (c # cs) t =
    (case row k of
       Some e \<Rightarrow> Err (AeDatabase (ascii ''batch upsert ('' @ pg_pv_name c @ ascii ''): '' @ e))
     | None \<Rightarrow> upsert_rows row now (Suc k) cs (upsert_config_row now c t))"

definition config_upsert_batch ::
  "statement \<Rightarrow> (nat \<Rightarrow> statement) \<Rightarrow> statement \<Rightarrow> int \<Rightarrow> pv_config list \<Rightarrow> config_table \<Rightarrow>
    (AuraError + nat) \<times> config_table" where
  "config_upsert_batch begin_tx row commit now cs t =
    (if cs = [] then (Ok 0, t)
     else
       (case begin_tx of
          Some e \<Rightarrow> (Err (db_error ''batch begin'' e), t)
        | None \<Rightarrow>
           (case upsert_rows row now 0 cs t of
              Err e \<Rightarrow> (Err e, t)
            | Ok t' \<Rightarrow>
               (case commit of Some e \<Rightarrow> (Err (db_error ''batch commit'' e), t) | None \<Rightarrow> (Ok (length cs), t')))))"

definition update_config ::
  "string \<Rightarrow> statement \<Rightarrow> rstring \<Rightarrow> (config_row \<Rightarrow> config_row) \<Rightarrow> config_table \<Rightarrow> (AuraError + bool) \<times> config_table" where
  "update_config context s name f t =
    (case s of
       Some e \<Rightarrow> (Err (db_error context e), t)
     | None \<Rightarrow> (Ok (map_of t name \<noteq> None), map (\<lambda>(n, r). (n, if n = name then f r else r)) t))"

definition update_heartbeat ::
  "statement \<Rightarrow> int \<Rightarrow> rstring \<Rightarrow> f64bits \<Rightarrow> config_table \<Rightarrow> (AuraError + bool) \<times> config_table" where
  "update_heartbeat s now name h t = update_config ''update_heartbeat'' s name
     (\<lambda>r. r \<lparr> cr_heartbeat_s := validate_heartbeat h, cr_updated_at := now \<rparr>) t"

definition set_enabled ::
  "statement \<Rightarrow> int \<Rightarrow> rstring \<Rightarrow> bool \<Rightarrow> config_table \<Rightarrow> (AuraError + bool) \<times> config_table" where
  "set_enabled s now name b t = update_config ''set_enabled'' s name
     (\<lambda>r. r \<lparr> cr_enabled := b, cr_updated_at := now \<rparr>) t"

definition config_delete :: "statement \<Rightarrow> rstring \<Rightarrow> config_table \<Rightarrow> (AuraError + bool) \<times> config_table" where
  "config_delete s name t =
    (case s of
       Some e \<Rightarrow> (Err (db_error ''delete'' e), t)
     | None \<Rightarrow> (Ok (map_of t name \<noteq> None), AList.delete name t))"

section \<open>Batches\<close>

text \<open>What is read back of a configuration.\<close>

definition as_read :: "pv_config \<Rightarrow> pv_config" where
  "as_read c = (pv_config_new (pg_pv_name c)) \<lparr> pg_description := pg_description c, pg_unit := pg_unit c,
     pg_heartbeat_s := (case validate_heartbeat (pg_heartbeat_s c) of Some h \<Rightarrow> h | None \<Rightarrow> 0),
     pg_enabled := pg_enabled c \<rparr>"

lemma map_of_upsert_config: "map_of (upsert_config_row now c t) n =
    (if n = pg_pv_name c then Some (case map_of t n of None \<Rightarrow> new_config_row now c
       | Some r \<Rightarrow> r \<lparr> cr_description := pg_description c, cr_unit := pg_unit c,
           cr_heartbeat_s := validate_heartbeat (pg_heartbeat_s c), cr_enabled := pg_enabled c, cr_updated_at := now \<rparr>)
     else map_of t n)"
  by (auto simp: upsert_config_row_def update_conv' map_add_def split: option.split)

definition read_row :: "config_table \<Rightarrow> rstring \<Rightarrow> pv_config option" where
  "read_row t n = map_option (\<lambda>r. into_pv_config (n, r)) (map_of t n)"

lemma read_upsert: "read_row (upsert_config_row now c t) n = (if n = pg_pv_name c then Some (as_read c) else read_row t n)"
  by (simp add: read_row_def map_of_upsert_config into_pv_config_def as_read_def new_config_row_def split: option.split)

lemma upsert_rows_read:
  "upsert_rows row now k cs t = Ok t' \<Longrightarrow> read_row t' n =
    (case map_of (rev (map (\<lambda>c. (pg_pv_name c, c)) cs)) n of Some c \<Rightarrow> Some (as_read c) | None \<Rightarrow> read_row t n)"
proof (induction cs arbitrary: k t)
  case (Cons c cs)
  then have "upsert_rows row now (Suc k) cs (upsert_config_row now c t) = Ok t'"
    by (auto split: option.splits)
  from Cons.IH[OF this] show ?case
    by (auto simp: read_upsert map_add_def split: option.split)
qed simp

text \<open>A batch of configurations is written whole or not at all.  When it fails, in any of its
  statements, the table is as it was; when it succeeds it reports the number of its
  configurations, and reading a name gives the last configuration of the batch with this name -
  with the heartbeat the table stores, at least one second or the default, and without the
  expected IOC - or what it gave before.\<close>

theorem config_batch_whole_or_nothing:
  "case config_upsert_batch begin_tx row commit now cs t of
     (Err _, t') \<Rightarrow> t' = t
   | (Ok k, t') \<Rightarrow> k = length cs \<and>
       config_get None n t' =
         (case map_of (rev (map (\<lambda>c. (pg_pv_name c, c)) cs)) n of
            Some c \<Rightarrow> Ok (Some (as_read c))
          | None \<Rightarrow> config_get None n t)"
proof -
  have get: "config_get None n u = Ok (read_row u n)" for u
    by (simp add: config_get_def read_row_def)
  show ?thesis
    by (cases "upsert_rows row now 0 cs t")
      (auto simp: config_upsert_batch_def get upsert_rows_read split: option.split)
qed

section \<open>Polling\<close>

text \<open>An operation on the table, with the outcome of its statements.\<close>

datatype config_op =
    OpInsert statement pv_config
  | OpUpsert statement pv_config
  | OpBatch statement "nat \<Rightarrow> statement" statement "pv_config list"
  | OpHeartbeat statement rstring f64bits
  | OpEnabled statement rstring bool
  | OpDelete statement rstring

fun config_step :: "rstring \<Rightarrow> int \<times> config_op \<Rightarrow> config_table \<Rightarrow> config_table" where
  "config_step conflict (now, OpInsert s c) t = snd (config_insert conflict s now c t)"
| "config_step conflict (now, OpUpsert s c) t = snd (config_upsert s now c t)"
| "config_step conflict (now, OpBatch b row e cs) t = snd (config_upsert_batch b row e now cs t)"
| "config_step conflict (now, OpHeartbeat s n h) t = snd (update_heartbeat s now n h t)"
| "config_step conflict (now, OpEnabled s n b) t = snd (set_enabled s now n b t)"
| "config_step conflict (now, OpDelete s n) t = snd (config_delete s n t)"

text \<open>The names an operation is about.\<close>

fun op_names :: "config_op \<Rightarrow> rstring list" where
  "op_names (OpInsert s c) = [pg_pv_name c]" | "op_names (OpUpsert s c) = [pg_pv_name c]"
| "op_names (OpBatch b row e cs) = map pg_pv_name cs" | "op_names (OpHeartbeat s n h) = [n]"
| "op_names (OpEnabled s n b) = [n]" | "op_names (OpDelete s n) = [n]"

text \<open>Each row is an old one or was touched at \<open>now\<close>.\<close>

definition touched :: "int \<Rightarrow> config_table \<Rightarrow> config_table \<Rightarrow> bool" where
  "touched now t t' \<longleftrightarrow> (distinct (map fst t) \<longrightarrow> distinct (map fst t')) \<and>
     (\<forall>n r. map_of t' n = Some r \<longrightarrow> map_of t n = Some r \<or> cr_updated_at r = now)"

lemma touched_same: "touched now t t"
  by (simp add: touched_def)

lemma touched_trans: "touched now t u \<Longrightarrow> touched now u v \<Longrightarrow> touched now t v"
  unfolding touched_def by blast

lemma distinct_upsert_config: "distinct (map fst t) \<Longrightarrow> distinct (map fst (upsert_config_row now c t))"
  by (auto simp: upsert_config_row_def distinct_update split: option.split)

lemma touched_upsert: "touched now t (upsert_config_row now c t)"
  by (auto simp: touched_def map_of_upsert_config distinct_upsert_config new_config_row_def split: if_splits option.splits)

lemma touched_upserts: "upsert_rows row now k cs t = Ok t' \<Longrightarrow> touched now t t'"
proof (induction cs arbitrary: k t)
  case (Cons c cs)
  then have "upsert_rows row now (Suc k) cs (upsert_config_row now c t) = Ok t'"
    by (auto split: option.splits)
  from touched_trans[OF touched_upsert Cons.IH[OF this]] show ?case .
qed (simp add: touched_same)

lemma touched_update:
  assumes "\<And>r. cr_updated_at (f r) = now"
  shows "touched now t (map (\<lambda>(n, r). (n, if n = name then f r else r)) t)"
proof -
  have "map_of (map (\<lambda>(n, r). (n, if n = name then f r else r)) t) n =
      map_option (\<lambda>r. if n = name then f r else r) (map_of t n)" for n
    by (induction t) auto
  then show ?thesis
    using assms by (auto simp: touched_def comp_def case_prod_unfold split: if_splits)
qed

lemma touched_step: "touched now t (config_step conflict (now, op) t)"
proof (cases op)
  case (OpInsert s c)
  then show ?thesis
    by (auto simp: config_insert_def touched_def new_config_row_def map_of_eq_None_iff map_add_def
        split: option.split if_splits)
next
  case (OpBatch b row e cs)
  then show ?thesis
    by (cases "upsert_rows row now 0 cs t")
      (auto simp: config_upsert_batch_def touched_same touched_upserts split: option.split)
next
  case (OpDelete s n)
  have "map_of (AList.delete n t) m = Some r \<Longrightarrow> map_of t m = Some r" for m r
    by (simp add: delete_conv' split: if_splits)
  then show ?thesis
    using OpDelete by (auto simp: config_delete_def touched_def distinct_delete split: option.split)
qed (simp_all add: config_upsert_def update_heartbeat_def set_enabled_def update_config_def touched_same
      touched_upsert touched_update split: option.split)

lemma touched_steps:
  assumes "\<forall>(now, op) \<in> set ops. since < now"
  shows "(distinct (map fst t) \<longrightarrow> distinct (map fst (fold (config_step conflict) ops t))) \<and>
    (\<forall>n r. map_of (fold (config_step conflict) ops t) n = Some r \<longrightarrow> map_of t n = Some r \<or> since < cr_updated_at r)"
  using assms
proof (induction ops arbitrary: t)
  case (Cons x ops)
  obtain now op where x: "x = (now, op)"
    by fastforce
  then have "since < now"
    using Cons.prems by simp
  then show ?case
    using touched_step[of now t conflict op] Cons.IH[of "config_step conflict (now, op) t"] Cons.prems x
    unfolding touched_def by fastforce
qed simp

text \<open>An operation leaves the rows of other names alone.\<close>

lemma untouched_upserts:
  "upsert_rows row now k cs t = Ok t' \<Longrightarrow> n \<notin> set (map pg_pv_name cs) \<Longrightarrow> map_of t' n = map_of t n"
proof (induction cs arbitrary: k t)
  case (Cons c cs)
  then have "upsert_rows row now (Suc k) cs (upsert_config_row now c t) = Ok t'"
    by (auto split: option.splits)
  from Cons.IH[OF this] Cons.prems(2) show ?case
    by (simp add: map_of_upsert_config)
qed simp

lemma map_of_update_other:
  "n \<noteq> name \<Longrightarrow> map_of (map (\<lambda>(m, r). (m, if m = name then f r else r)) t) n = map_of t n"
  by (induction t) auto

lemma untouched_step:
  assumes "n \<notin> set (op_names op)"
  shows "map_of (config_step conflict (now, op) t) n = map_of t n"
proof (cases op)
  case (OpBatch b row e cs)
  then show ?thesis
    using assms by (cases "upsert_rows row now 0 cs t")
      (auto simp: config_upsert_batch_def untouched_upserts split: option.split)
qed (use assms in \<open>auto simp: config_insert_def config_upsert_def config_delete_def update_heartbeat_def set_enabled_def
      update_config_def map_of_upsert_config map_of_update_other delete_conv' map_add_def split: option.split\<close>)

lemma untouched_steps:
  "\<forall>(now, op) \<in> set ops. n \<notin> set (op_names op) \<Longrightarrow> map_of (fold (config_step conflict) ops t) n = map_of t n"
  by (induction ops arbitrary: t) (auto simp: untouched_step)

text \<open>C24. Incremental polling misses nothing but deletions, and returns nothing else.  From a table whose
  rows are not newer than \<open>since\<close>, after any operations at later times, with any of them failing,
  the configurations returned are exactly those of the rows that are not as they were, each name
  once and with its current content; every name returned was touched by one of the operations.\<close>

theorem polling_misses_only_deletions:
  fixes conflict :: rstring
  assumes "distinct (map fst t)" "\<forall>(n, r) \<in> set t. cr_updated_at r \<le> since"
    and "\<forall>(now, op) \<in> set ops. since < now" "\<And>rows. mset (order rows) = mset rows"
  defines "t' \<equiv> fold (config_step conflict) ops t"
  shows "\<exists>cfgs. get_changed_since order None since t' = Ok cfgs \<and> distinct (map pg_pv_name cfgs) \<and>
    set cfgs = {into_pv_config (n, r) |n r. map_of t' n = Some r \<and> map_of t n \<noteq> Some r} \<and>
    (\<forall>c \<in> set cfgs. config_get None (pg_pv_name c) t' = Ok (Some c) \<and>
       (\<exists>(now, op) \<in> set ops. pg_pv_name c \<in> set (op_names op)))"
proof -
  let ?rows = "order (filter (\<lambda>(n, r). since < cr_updated_at r) t')"
  have steps: "distinct (map fst t')" "\<And>n r. map_of t' n = Some r \<Longrightarrow> map_of t n = Some r \<or> since < cr_updated_at r"
    using touched_steps[OF assms(3), of t conflict] assms(1) unfolding t'_def by blast+
  have rows: "set ?rows = {(n, r) \<in> set t'. since < cr_updated_at r}"
    using mset_eq_setD[OF assms(4)] by fastforce
  have name: "pg_pv_name (into_pv_config x) = fst x" for x
    by (simp add: into_pv_config_def pv_config_new_def split: prod.split)
  have "mset (map fst ?rows) = mset (map fst (filter (\<lambda>(n, r). since < cr_updated_at r) t'))"
    using assms(4) by (metis mset_map)
  then have "distinct (map fst ?rows)"
    using steps(1) mset_eq_imp_distinct_iff distinct_map_filter by blast
  then have "distinct (map pg_pv_name (map into_pv_config ?rows))"
    by (simp add: comp_def name)
  moreover have "config_get None (fst x) t' = Ok (Some (into_pv_config x))" if "x \<in> set ?rows" for x
  proof -
    have "x \<in> set t'"
      using that unfolding rows by auto
    then have "map_of t' (fst x) = Some (snd x)"
      using steps(1) by (simp add: map_of_eq_Some_iff)
    then show ?thesis
      by (simp add: config_get_def)
  qed
  note current = this
  have newer: "since < cr_updated_at r \<longleftrightarrow> map_of t n \<noteq> Some r" if "map_of t' n = Some r" for n r
    using steps(2)[OF that] assms(2) by (fastforce dest: map_of_SomeD)
  have changed: "set ?rows = {(n, r). map_of t' n = Some r \<and> map_of t n \<noteq> Some r}"
    unfolding rows using steps(1) newer by (auto simp: map_of_eq_Some_iff)
  then have "set (map into_pv_config ?rows) =
      {into_pv_config (n, r) |n r. map_of t' n = Some r \<and> map_of t n \<noteq> Some r}"
    by auto
  moreover have named: "\<exists>(now, op) \<in> set ops. fst x \<in> set (op_names op)" if x: "x \<in> set ?rows" for x
  proof (rule ccontr)
    assume "\<not> (\<exists>(now, op) \<in> set ops. fst x \<in> set (op_names op))"
    then have "map_of t' (fst x) = map_of t (fst x)"
      unfolding t'_def by (intro untouched_steps) auto
    moreover have "map_of t' (fst x) = Some (snd x)" "map_of t (fst x) \<noteq> Some (snd x)"
      using x changed by auto
    ultimately show False
      by simp
  qed
  moreover have "\<forall>c \<in> set (map into_pv_config ?rows). config_get None (pg_pv_name c) t' = Ok (Some c) \<and>
      (\<exists>(now, op) \<in> set ops. pg_pv_name c \<in> set (op_names op))"
    using current named by (auto simp: name)
  moreover have "get_changed_since order None since t' = Ok (map into_pv_config ?rows)"
    by (simp add: get_changed_since_def config_query_def)
  ultimately show ?thesis
    by blast
qed

theorem polling_misses_only_deletions_witness:
  "let t = [([65], new_config_row 3 (pv_config_new [65])), ([67], new_config_row 4 (pv_config_new [67]))];
       t' = fold (config_step []) [(8, OpUpsert None (pv_config_new [66])), (9, OpDelete None [65])] t
   in \<exists>cfgs. get_changed_since (\<lambda>rows. rows) None 5 t' = Ok cfgs \<and>
     set cfgs = {into_pv_config (n, r) |n r. map_of t' n = Some r \<and> map_of t n \<noteq> Some r}"
proof -
  let ?t = "[([65], new_config_row 3 (pv_config_new [65])), ([67], new_config_row 4 (pv_config_new [67]))] :: config_table"
  let ?ops = "[(8, OpUpsert None (pv_config_new [66])), (9, OpDelete None [65])] :: (int \<times> config_op) list"
  have "distinct (map fst ?t)" "\<forall>(n, r) \<in> set ?t. cr_updated_at r \<le> 5" "\<forall>(now, op) \<in> set ?ops. 5 < now"
    by (simp_all add: new_config_row_def)
  from polling_misses_only_deletions[OF this, of "\<lambda>rows. rows" "[]"] show ?thesis
    unfolding Let_def by blast
qed

text \<open>What is read never has an expected IOC, and a heartbeat that is switched off (0) comes back as the
  default (NULL) when its configuration is written again.\<close>

lemma expected_ioc_is_not_read: "pg_expected_ioc (into_pv_config nr) = None"
  by (simp add: into_pv_config_def pv_config_new_def split: prod.split)

lemma disabled_heartbeat_is_lost:
  assumes "map_of t n = Some r" "cr_heartbeat_s r = Some 0"
  shows "map_option cr_heartbeat_s (map_of (upsert_config_row now (into_pv_config (n, r)) t) n) = Some None"
  using assms by (simp add: map_of_upsert_config into_pv_config_def pv_config_new_def validate_heartbeat_def
      f64_key_def f64_nan_def f64_sign_def f64_exp_def)

end
