(* ===== verification/Reader.thy ===== *)
theory Reader
  imports MetaStore "HOL-Library.Multiset"
begin

text \<open>
  The reads of the archive (\<open>aura-store/src/reader.rs\<close>): the choice of the table by the length of the
  range, and the queries.

  Times are microseconds.  \<open>archive\<close> is what the database holds: the samples, and the rows of the two
  aggregates, which the database computes itself.  \<open>order\<close> is the order a query asks for.
\<close>

section \<open>Tiers\<close>

datatype QueryTier = TierRaw | TierHourly | TierDaily

definition HOUR_US :: int where "HOUR_US = 3600000000"

definition auto_select :: "int \<Rightarrow> int \<Rightarrow> QueryTier" where
  "auto_select start stop =
    (let span = stop - start in
     if span \<le> 6 * HOUR_US then TierRaw else if span \<le> 7 * (24 * HOUR_US) then TierHourly else TierDaily)"

fun table_name :: "QueryTier \<Rightarrow> rstring" where
  "table_name TierRaw = ascii ''samples''" | "table_name TierHourly = ascii ''samples_hourly''"
| "table_name TierDaily = ascii ''samples_daily''"

fun tier_display :: "QueryTier \<Rightarrow> rstring" where
  "tier_display TierRaw = ascii ''raw''" | "tier_display TierHourly = ascii ''hourly''"
| "tier_display TierDaily = ascii ''daily''"

section \<open>Data\<close>

record raw_sample =
  rs_time :: int
  rs_pv_id :: "32 word"
  rs_value :: f64bits
  rs_severity :: "16 word"
  rs_status :: "16 word"

record agg_sample =
  ag_bucket :: int
  ag_pv_id :: "32 word"
  ag_avg :: f64bits
  ag_min :: f64bits
  ag_max :: f64bits
  ag_stddev :: "f64bits option"
  ag_count :: int
  ag_first :: "f64bits option"
  ag_last :: "f64bits option"
  ag_max_severity :: "16 word"

record archive =
  ar_samples :: "raw_sample list"
  ar_hourly :: "agg_sample list"
  ar_daily :: "agg_sample list"

record query_params =
  qp_pv_name :: rstring
  qp_start :: int
  qp_end :: int
  qp_limit :: nat
  qp_tier :: "QueryTier option"

definition query_params_new :: "rstring \<Rightarrow> int \<Rightarrow> int \<Rightarrow> query_params" where
  "query_params_new pv start stop =
    \<lparr> qp_pv_name = pv, qp_start = start, qp_end = stop, qp_limit = 0, qp_tier = None \<rparr>"

definition with_limit :: "nat \<Rightarrow> query_params \<Rightarrow> query_params" where "with_limit k p = p \<lparr> qp_limit := k \<rparr>"
definition with_tier :: "QueryTier \<Rightarrow> query_params \<Rightarrow> query_params" where "with_tier t p = p \<lparr> qp_tier := Some t \<rparr>"

definition effective_tier :: "query_params \<Rightarrow> QueryTier" where
  "effective_tier p = (case qp_tier p of Some t \<Rightarrow> t | None \<Rightarrow> auto_select (qp_start p) (qp_end p))"

section \<open>Queries\<close>

type_synonym sample_order = "raw_sample list \<Rightarrow> raw_sample list"
type_synonym bucket_order = "agg_sample list \<Rightarrow> agg_sample list"

definition sample_in :: "32 word \<Rightarrow> int \<Rightarrow> int \<Rightarrow> raw_sample \<Rightarrow> bool" where
  "sample_in pv start stop s \<longleftrightarrow> rs_pv_id s = pv \<and> start \<le> rs_time s \<and> rs_time s < stop"

definition query_raw ::
  "sample_order \<Rightarrow> statement \<Rightarrow> 32 word \<Rightarrow> int \<Rightarrow> int \<Rightarrow> nat \<Rightarrow> archive \<Rightarrow> AuraError + raw_sample list" where
  "query_raw by_time st pv start stop limit ar =
    (case st of
       Some e \<Rightarrow> Err (db_error ''raw query failed'' e)
     | None \<Rightarrow> (let rows = by_time (filter (sample_in pv start stop) (ar_samples ar)) in
               Ok (if limit > 0 then take limit rows else rows)))"

definition tier_rows :: "QueryTier \<Rightarrow> archive \<Rightarrow> agg_sample list" where
  "tier_rows tier ar = (case tier of TierHourly \<Rightarrow> ar_hourly ar | TierDaily \<Rightarrow> ar_daily ar | TierRaw \<Rightarrow> [])"

text \<open>The caller passes an aggregated tier only.\<close>

definition query_agg ::
  "bucket_order \<Rightarrow> statement \<Rightarrow> 32 word \<Rightarrow> int \<Rightarrow> int \<Rightarrow> QueryTier \<Rightarrow> archive \<Rightarrow> AuraError + agg_sample list" where
  "query_agg by_bucket st pv start stop tier ar =
    (case st of
       Some e \<Rightarrow> Err (AeDatabase (table_name tier @ ascii '' query failed: '' @ e))
     | None \<Rightarrow> Ok (by_bucket (filter (\<lambda>b. ag_pv_id b = pv \<and> start \<le> ag_bucket b \<and> ag_bucket b < stop) (tier_rows tier ar))))"

datatype QueryResult = QrRaw "raw_sample list" | QrAggregated "agg_sample list"

fun result_len :: "QueryResult \<Rightarrow> nat" where
  "result_len (QrRaw v) = length v" | "result_len (QrAggregated v) = length v"

definition result_is_empty :: "QueryResult \<Rightarrow> bool" where "result_is_empty r \<longleftrightarrow> result_len r = 0"

fun is_raw :: "QueryResult \<Rightarrow> bool" where "is_raw (QrRaw _) = True" | "is_raw (QrAggregated _) = False"

definition is_aggregated :: "QueryResult \<Rightarrow> bool" where "is_aggregated r \<longleftrightarrow> \<not> is_raw r"

fun query_result_display :: "QueryResult \<Rightarrow> rstring" where
  "query_result_display (QrRaw v) = ascii ''Raw('' @ show_nat (length v) @ ascii '' samples)''"
| "query_result_display (QrAggregated v) = ascii ''Aggregated('' @ show_nat (length v) @ ascii '' buckets)''"

definition query_auto ::
  "sample_order \<Rightarrow> bucket_order \<Rightarrow> statement \<Rightarrow> 32 word \<Rightarrow> query_params \<Rightarrow> archive \<Rightarrow> AuraError + QueryResult" where
  "query_auto by_time by_bucket st pv p ar =
    (let tier = effective_tier p in
     if tier = TierRaw
     then (case query_raw by_time st pv (qp_start p) (qp_end p) (qp_limit p) ar of Err e \<Rightarrow> Err e | Ok v \<Rightarrow> Ok (QrRaw v))
     else (case query_agg by_bucket st pv (qp_start p) (qp_end p) tier ar of Err e \<Rightarrow> Err e | Ok v \<Rightarrow> Ok (QrAggregated v)))"

text \<open>\<open>newest\<close> is the descending order.\<close>

definition query_latest ::
  "sample_order \<Rightarrow> statement \<Rightarrow> 32 word \<Rightarrow> archive \<Rightarrow> AuraError + raw_sample option" where
  "query_latest newest st pv ar =
    (case st of
       Some e \<Rightarrow> Err (db_error ''latest query failed'' e)
     | None \<Rightarrow> Ok (case newest (filter (\<lambda>s. rs_pv_id s = pv) (ar_samples ar)) of [] \<Rightarrow> None | s # _ \<Rightarrow> Some s))"

definition count_samples ::
  "statement \<Rightarrow> 32 word \<Rightarrow> int \<Rightarrow> int \<Rightarrow> archive \<Rightarrow> AuraError + nat" where
  "count_samples st pv start stop ar =
    (case st of
       Some e \<Rightarrow> Err (db_error ''count query failed'' e)
     | None \<Rightarrow> Ok (length (filter (sample_in pv start stop) (ar_samples ar))))"

section \<open>Adjacent ranges\<close>

definition orders_by_time :: "sample_order \<Rightarrow> bool" where
  "orders_by_time by_time \<longleftrightarrow> (\<forall>rows. mset (by_time rows) = mset rows \<and> sorted (map rs_time (by_time rows)))"

text \<open>Reading an archive in adjacent ranges neither loses nor repeats a sample.  For two ranges that
  meet, the answers of the two raw queries are together the answer for the whole range, every
  sample of the first before every sample of the second; the answer is in the order of time, its
  length is the count the archive reports, and a limit cuts it to its first samples.\<close>

theorem adjacent_ranges_partition:
  assumes "orders_by_time by_time" "a \<le> b" "b \<le> c"
  shows "\<exists>xs ys zs. query_raw by_time None pv a b 0 ar = Ok xs \<and> query_raw by_time None pv b c 0 ar = Ok ys \<and>
    query_raw by_time None pv a c 0 ar = Ok zs \<and> mset zs = mset xs + mset ys \<and> sorted (map rs_time zs) \<and>
    (\<forall>x \<in> set xs. \<forall>y \<in> set ys. rs_time x < rs_time y) \<and>
    count_samples None pv a c ar = Ok (length zs) \<and>
    query_raw by_time None pv a c (Suc k) ar = Ok (take (Suc k) zs)"
proof -
  let ?rows = "\<lambda>x y. by_time (filter (sample_in pv x y) (ar_samples ar))"
  have rows: "mset (?rows x y) = mset (filter (sample_in pv x y) (ar_samples ar))" "sorted (map rs_time (?rows x y))" for x y
    using assms(1) by (simp_all add: orders_by_time_def)
  then have elems: "set (?rows x y) = {s \<in> set (ar_samples ar). sample_in pv x y s}" for x y
    by (metis mset_eq_setD set_filter)
  have "mset (filter (sample_in pv a c) l) = mset (filter (sample_in pv a b) l) + mset (filter (sample_in pv b c) l)" for l
    using assms(2,3) by (induction l) (auto simp: sample_in_def)
  then have "mset (?rows a c) = mset (?rows a b) + mset (?rows b c)"
    by (simp add: rows(1))
  moreover have "\<forall>x \<in> set (?rows a b). \<forall>y \<in> set (?rows b c). rs_time x < rs_time y"
    unfolding elems by (auto simp: sample_in_def)
  moreover have "length (?rows a c) = length (filter (sample_in pv a c) (ar_samples ar))"
    using rows(1) by (metis size_mset)
  ultimately show ?thesis
    using rows(2) by (intro exI[of _ "?rows a b"] exI[of _ "?rows b c"] exI[of _ "?rows a c"])
      (simp add: query_raw_def count_samples_def Let_def)
qed

theorem adjacent_ranges_partition_witness:
  "let s = (\<lambda>t. \<lparr> rs_time = t, rs_pv_id = 1, rs_value = 0, rs_severity = 0, rs_status = 0 \<rparr>);
       ar = \<lparr> ar_samples = [s 4, s 2, s 3], ar_hourly = [], ar_daily = [] \<rparr>
   in \<exists>xs ys zs. query_raw (sort_key rs_time) None 1 0 3 0 ar = Ok xs \<and> query_raw (sort_key rs_time) None 1 3 9 0 ar = Ok ys \<and>
     query_raw (sort_key rs_time) None 1 0 9 0 ar = Ok zs \<and> mset zs = mset xs + mset ys \<and> sorted (map rs_time zs)"
proof -
  have "orders_by_time (sort_key rs_time)"
    by (simp add: orders_by_time_def)
  moreover have "(0 :: int) \<le> 3" "(3 :: int) \<le> 9"
    by simp_all
  ultimately show ?thesis
    unfolding Let_def using adjacent_ranges_partition by blast
qed

section \<open>Tiers and ranges\<close>

text \<open>A range chosen for the raw table holds at most six hours; an aggregate is never asked for a
  shorter one unless the caller forces it.\<close>

lemma raw_tier_is_short:
  "(auto_select start stop = TierRaw) = (stop - start \<le> 6 * HOUR_US)"
  by (simp add: auto_select_def Let_def)

lemma query_auto_follows_tier:
  "case query_auto by_time by_bucket st pv p ar of Err _ \<Rightarrow> st \<noteq> None
   | Ok r \<Rightarrow> is_raw r = (effective_tier p = TierRaw)"
  by (cases "effective_tier p")
    (auto simp: query_auto_def query_raw_def query_agg_def Let_def split: option.split)

end
