(* ===== verification/IocApi.thy ===== *)
theory IocApi
  imports MainClaims
begin

text \<open>
  The HTTP interface over the IOCs (\<open>aura-api/src/iocs.rs\<close>, \<open>error.rs\<close>): the state of an IOC derived
  from the states of its PVs, the list of IOCs, and the declaration of a new one.

  The status table is the one the main task writes (\<open>Handlers\<close>).  \<open>SocketAddr\<close> comes with its parser
  and printer, the pattern match of the database and the order of the list are parameters.  The
  columns of the list that come from the event log of the last day and the floating point sums
  are left out.
\<close>

section \<open>Errors\<close>

datatype ApiError = ApDb rstring | ApBadRequest rstring | ApConflict rstring | ApNotFound rstring

fun into_response :: "ApiError \<Rightarrow> nat \<times> rstring" where
  "into_response (ApDb e) = (500, ascii ''internal error'')" | "into_response (ApBadRequest m) = (400, m)"
| "into_response (ApConflict m) = (409, m)" | "into_response (ApNotFound m) = (404, m)"

section \<open>The derived state\<close>

definition IOC_DISABLED :: "16 word" where "IOC_DISABLED = 0"
definition IOC_CONNECTING :: "16 word" where "IOC_CONNECTING = 1"
definition IOC_UP :: "16 word" where "IOC_UP = 2"
definition IOC_DEGRADED :: "16 word" where "IOC_DEGRADED = 3"
definition IOC_DOWN :: "16 word" where "IOC_DOWN = 4"
definition IOC_IDLE :: "16 word" where "IOC_IDLE = 5"

record counts =
  ct_total :: nat
  ct_archiving :: nat
  ct_connected :: nat
  ct_searching :: nat
  ct_disconnected :: nat
  ct_timeout :: nat
  ct_unsubscribed :: nat

definition derive_state :: "bool \<Rightarrow> bool \<Rightarrow> counts \<Rightarrow> 16 word" where
  "derive_state declared enabled c =
    (if declared \<and> \<not> enabled then IOC_DISABLED
     else if ct_total c = 0 \<or> ct_total c = ct_unsubscribed c then IOC_IDLE
     else
       (let live = ct_connected c + ct_archiving c; lost = ct_disconnected c + ct_timeout c in
        if live = 0 \<and> lost > 0 then IOC_DOWN else if live = 0 then IOC_CONNECTING
        else if lost > 0 then IOC_DEGRADED else IOC_UP))"

section \<open>The list\<close>

record ioc_config_row =
  ic_address :: rstring
  ic_label :: rstring
  ic_enabled :: bool
  ic_created_at :: int

record ioc_view =
  iv_address :: rstring
  iv_name :: "rstring option"
  iv_enabled :: bool
  iv_created_at :: "int option"
  iv_declared :: bool
  iv_state :: "16 word"
  iv_started_at :: "int option"
  iv_last_event_at :: "int option"
  iv_counts :: counts

text \<open>\<open>count(*) FILTER (WHERE state = k)\<close> over the rows of one address.\<close>

definition rows_of :: "rstring \<Rightarrow> status_table \<Rightarrow> status_row list" where
  "rows_of addr tbl = filter (\<lambda>r. st_ioc_addr r = Some addr) (map snd tbl)"

definition in_state :: "nat \<Rightarrow> status_row list \<Rightarrow> nat" where
  "in_state k rows = length (filter (\<lambda>r. st_state r = k) rows)"

definition ioc_counts :: "status_row list \<Rightarrow> counts" where
  "ioc_counts rows = \<lparr> ct_total = length rows, ct_archiving = in_state 3 rows, ct_connected = in_state 2 rows,
     ct_searching = in_state 1 rows, ct_disconnected = in_state 4 rows, ct_timeout = in_state 5 rows,
     ct_unsubscribed = in_state 6 rows \<rparr>"

text \<open>\<open>min\<close> and \<open>max\<close> over the values that are not NULL.\<close>

definition sql_min :: "int option list \<Rightarrow> int option" where
  "sql_min xs = (case List.map_filter id xs of [] \<Rightarrow> None | y # ys \<Rightarrow> Some (fold min ys y))"

definition sql_max :: "int option list \<Rightarrow> int option" where
  "sql_max xs = (case List.map_filter id xs of [] \<Rightarrow> None | y # ys \<Rightarrow> Some (fold max ys y))"

definition ioc_view_of :: "ioc_config_row list \<Rightarrow> status_table \<Rightarrow> rstring \<Rightarrow> ioc_view" where
  "ioc_view_of cfgs tbl addr =
    (let cfg = find (\<lambda>c. ic_address c = addr) cfgs; rows = rows_of addr tbl; c = ioc_counts rows;
         enabled = (case cfg of Some x \<Rightarrow> ic_enabled x | None \<Rightarrow> True) in
     \<lparr> iv_address = addr,
       iv_name = (case cfg of Some x \<Rightarrow> (if ic_label x = [] then None else Some (ic_label x)) | None \<Rightarrow> None),
       iv_enabled = enabled, iv_created_at = map_option ic_created_at cfg, iv_declared = (cfg \<noteq> None),
       iv_state = derive_state (cfg \<noteq> None) enabled c,
       iv_started_at = sql_min (map st_connected_at rows), iv_last_event_at = sql_max (map st_last_event_at rows),
       iv_counts = c \<rparr>)"

text \<open>\<open>FULL OUTER JOIN\<close>: the declared addresses and those that PVs name.\<close>

definition ioc_addresses :: "ioc_config_row list \<Rightarrow> status_table \<Rightarrow> rstring list" where
  "ioc_addresses cfgs tbl = remdups (map ic_address cfgs @ List.map_filter (st_ioc_addr \<circ> snd) tbl)"

text \<open>The bytes of the characters that Rust takes for white space.\<close>

definition ws_chars :: "bytes list" where
  "ws_chars = [[0x09], [0x0A], [0x0B], [0x0C], [0x0D], [0x20], [0xC2, 0x85], [0xC2, 0xA0], [0xE1, 0x9A, 0x80],
     [0xE2, 0x80, 0x80], [0xE2, 0x80, 0x81], [0xE2, 0x80, 0x82], [0xE2, 0x80, 0x83], [0xE2, 0x80, 0x84],
     [0xE2, 0x80, 0x85], [0xE2, 0x80, 0x86], [0xE2, 0x80, 0x87], [0xE2, 0x80, 0x88], [0xE2, 0x80, 0x89],
     [0xE2, 0x80, 0x8A], [0xE2, 0x80, 0xA8], [0xE2, 0x80, 0xA9], [0xE2, 0x80, 0xAF], [0xE2, 0x81, 0x9F],
     [0xE3, 0x80, 0x80]]"

function trim_with :: "bytes list \<Rightarrow> bytes \<Rightarrow> bytes" where
  "trim_with ws s =
    (case find (\<lambda>w. w \<noteq> [] \<and> take (length w) s = w) ws of
       Some w \<Rightarrow> trim_with ws (drop (length w) s)
     | None \<Rightarrow> s)"
  by auto
termination
proof (relation "measure (\<lambda>(ws, s). length s)")
  fix ws s w
  assume "find (\<lambda>w. w \<noteq> [] \<and> take (length w) s = w) ws = Some w"
  then have "w \<noteq> []" "take (length w) s = w"
    by (auto simp: find_Some_iff)
  then have "s \<noteq> []" "0 < length w"
    by auto
  then show "((ws, drop (length w) s), ws, s) \<in> measure (\<lambda>(ws, s). length s)"
    by simp
qed simp

declare trim_with.simps [simp del]

definition str_trim :: "rstring \<Rightarrow> rstring" where
  "str_trim s = rev (trim_with (map rev ws_chars) (rev (trim_with ws_chars s)))"

definition has_whitespace :: "rstring \<Rightarrow> bool" where
  "has_whitespace s \<longleftrightarrow> list_ex (\<lambda>w. list_ex (\<lambda>i. take (length w) (drop i s) = w) [0..<length s]) ws_chars"

text \<open>The characters \<open>\\\<close>, \<open>%\<close> and \<open>_\<close> stand for themselves.\<close>

definition like_escape :: "rstring \<Rightarrow> rstring" where
  "like_escape s = concat (map (\<lambda>b. if b \<in> {92, 37, 95} then [92, b] else [b]) s)"

definition list_pattern :: "rstring option \<Rightarrow> rstring option" where
  "list_pattern q = (case q of None \<Rightarrow> None
     | Some s \<Rightarrow> (if str_trim s = [] then None else Some ([37] @ like_escape (str_trim s) @ [37])))"

type_synonym api_statement = "rstring option"

definition ioc_list ::
  "(rstring \<Rightarrow> rstring \<Rightarrow> bool) \<Rightarrow> (ioc_view list \<Rightarrow> ioc_view list) \<Rightarrow> api_statement \<Rightarrow> rstring option \<Rightarrow> 16 word option \<Rightarrow>
    ioc_config_row list \<Rightarrow> status_table \<Rightarrow> ApiError + ioc_view list" where
  "ioc_list ilike by_label st q want cfgs tbl =
    (case st of
       Some e \<Rightarrow> Err (ApDb e)
     | None \<Rightarrow>
        (let label = (\<lambda>addr. map_option ic_label (find (\<lambda>c. ic_address c = addr) cfgs));
             keep = (\<lambda>addr. case list_pattern q of None \<Rightarrow> True
               | Some p \<Rightarrow> ilike addr p \<or> (case label addr of Some l \<Rightarrow> ilike l p | None \<Rightarrow> False));
             views = by_label (map (ioc_view_of cfgs tbl) (filter keep (ioc_addresses cfgs tbl)))
         in Ok (case want of Some k \<Rightarrow> filter (\<lambda>v. iv_state v = k) views | None \<Rightarrow> views)))"

section \<open>Declaring an IOC\<close>

definition DEFAULT_PVA_PORT :: nat where "DEFAULT_PVA_PORT = 5075"

text \<open>\<open>parse\<close> and \<open>text\<close> are the parser and the printer of \<open>SocketAddr\<close>, \<open>dbg\<close> the quoted form of a
  string.\<close>

definition normalize_address ::
  "(rstring \<Rightarrow> 'addr option) \<Rightarrow> ('addr \<Rightarrow> rstring) \<Rightarrow> (rstring \<Rightarrow> rstring) \<Rightarrow> rstring \<Rightarrow> rstring + rstring" where
  "normalize_address parse print dbg raw =
    (let s = str_trim raw in
     if s = [] then Err (ascii ''address is required'')
     else if has_whitespace s then Err (ascii ''address cannot contain whitespace'')
     else if last s = 58 then Err (ascii ''missing port after '' @ [39, 58, 39])
     else
       (let candidate = (if 58 \<in> set s then s else s @ [58] @ show_nat DEFAULT_PVA_PORT) in
        case parse candidate of
          Some a \<Rightarrow> Ok (print a)
        | None \<Rightarrow> Err (ascii ''address must be IP:PORT, e.g. 192.168.12.53:5075 (hostnames are not supported: the pipeline resolves declared IOCs with SocketAddr and would ignore this entry), got '' @ dbg s)))"

text \<open>\<open>chars().count()\<close>: the bytes that do not continue a character.\<close>

definition char_count :: "rstring \<Rightarrow> nat" where
  "char_count s = length (filter (\<lambda>b. b AND 0xC0 \<noteq> 0x80) s)"

definition ioc_create ::
  "(rstring \<Rightarrow> 'addr option) \<Rightarrow> ('addr \<Rightarrow> rstring) \<Rightarrow> (rstring \<Rightarrow> rstring) \<Rightarrow> api_statement \<Rightarrow> int \<Rightarrow> rstring \<Rightarrow> rstring \<Rightarrow>
    ioc_config_row list \<Rightarrow> (ApiError + ioc_config_row) \<times> ioc_config_row list" where
  "ioc_create parse print dbg st now address name cfgs =
    (case normalize_address parse print dbg address of
       Err m \<Rightarrow> (Err (ApBadRequest m), cfgs)
     | Ok addr \<Rightarrow>
        (if char_count (str_trim name) > 64 then (Err (ApBadRequest (ascii ''name is limited to 64 characters'')), cfgs)
         else
           (case st of
              Some e \<Rightarrow> (Err (ApDb e), cfgs)
            | None \<Rightarrow>
               (if addr \<in> set (map ic_address cfgs) then (Err (ApConflict (ascii ''IOC already declared: '' @ addr)), cfgs)
                else
                  (let row = \<lparr> ic_address = addr, ic_label = str_trim name, ic_enabled = True, ic_created_at = now \<rparr>
                   in (Ok row, cfgs @ [row]))))))"

section \<open>What the list shows of the main task\<close>

text \<open>All the rows of an address, at least one, are in one state.\<close>

definition all_in_state :: "nat \<Rightarrow> rstring \<Rightarrow> status_table \<Rightarrow> bool" where
  "all_in_state k addr tbl \<longleftrightarrow> rows_of addr tbl \<noteq> [] \<and> (\<forall>r \<in> set (rows_of addr tbl). st_state r = k)"

lemma in_state_all:
  "\<forall>r \<in> set rows. st_state r = k \<Longrightarrow> in_state j rows = (if j = k then length rows else 0)"
  by (induction rows) (auto simp: in_state_def)

lemma derive_enabled:
  "(d \<longrightarrow> e) \<Longrightarrow> derive_state d e c =
    (if ct_total c = 0 \<or> ct_total c = ct_unsubscribed c then IOC_IDLE
     else if ct_connected c + ct_archiving c = 0 \<and> ct_disconnected c + ct_timeout c > 0 then IOC_DOWN
     else if ct_connected c + ct_archiving c = 0 then IOC_CONNECTING
     else if ct_disconnected c + ct_timeout c > 0 then IOC_DEGRADED else IOC_UP)"
  by (auto simp: derive_state_def Let_def)

lemma derived_when_all:
  assumes "all_in_state k addr tbl" "d \<longrightarrow> e"
  shows "derive_state d e (ioc_counts (rows_of addr tbl)) =
    (if k = 6 then IOC_IDLE else if k = 2 \<or> k = 3 then IOC_UP else if k = 4 \<or> k = 5 then IOC_DOWN else IOC_CONNECTING)"
proof -
  have n: "length (rows_of addr tbl) \<noteq> 0" "\<forall>r \<in> set (rows_of addr tbl). st_state r = k"
    using assms(1) by (simp_all add: all_in_state_def)
  have "in_state j (rows_of addr tbl) = (if j = k then length (rows_of addr tbl) else 0)" for j
    using n(2) by (rule in_state_all)
  then show ?thesis
    using n(1) by (simp add: derive_enabled[OF assms(2)] ioc_counts_def)
qed

lemma view_state: "iv_state (ioc_view_of cfgs tbl addr) =
    derive_state (find (\<lambda>c. ic_address c = addr) cfgs \<noteq> None)
      (case find (\<lambda>c. ic_address c = addr) cfgs of Some x \<Rightarrow> ic_enabled x | None \<Rightarrow> True) (ioc_counts (rows_of addr tbl))"
  by (simp add: ioc_view_of_def Let_def)

lemma rows_of_eq: "set (rows_of addr tbl) = {r. \<exists>n. (n, r) \<in> set tbl \<and> st_ioc_addr r = Some addr}"
  by (force simp: rows_of_def)

text \<open>An update that sets the state of every PV of the address and leaves the addresses.\<close>

lemma all_in_state_update:
  assumes "rows_of addr tbl \<noteq> []" "\<And>n r. (n, r) \<in> set tbl \<Longrightarrow> st_ioc_addr r = Some addr \<Longrightarrow> cond n r"
    and "\<And>r. st_state (f r) = k \<and> st_ioc_addr (f r) = st_ioc_addr r"
  shows "all_in_state k addr (update_where cond f tbl)"
proof -
  have "rows_of addr (update_where cond f tbl) = map f (rows_of addr tbl)"
    using assms(2)
  proof (induction tbl)
    case (Cons x tbl)
    obtain n r where x: "x = (n, r)"
      by fastforce
    have "rows_of addr (update_where cond f tbl) = map f (rows_of addr tbl)"
      by (rule Cons.IH) (rule Cons.prems, simp)
    moreover have "st_ioc_addr r = Some addr \<Longrightarrow> cond n r"
      by (rule Cons.prems) (simp add: x)
    ultimately show ?case
      using x assms(3) by (auto simp: rows_of_def update_where_def)
  qed (simp add: rows_of_def update_where_def)
  then show ?thesis
    using assms(1,3) by (simp add: all_in_state_def)
qed

lemma rows_kept:
  assumes "rows_of addr tbl \<noteq> []" "\<And>r. st_ioc_addr r = Some addr \<Longrightarrow> st_ioc_addr (f r) = Some addr"
  shows "rows_of addr (update_where cond f tbl) \<noteq> []"
  using assms by (induction tbl) (auto simp: rows_of_def update_where_def split: if_splits)

lemma names_of_update: "(n, r) \<in> set (update_where cond f tbl) \<Longrightarrow> \<exists>r0. (n, r0) \<in> set tbl \<and> r = (if cond n r0 then f r0 else r0)"
  by (auto simp: update_where_def)

text \<open>The state of an IOC after its loss, and after its session is back or a new one is open.\<close>

lemma views_lost_and_recovered:
  fixes reason :: rstring
  assumes "hx_ok hx 0" "hx_ok hx 1" "rows_of addr (ap_status a) \<noteq> []"
    and "\<And>n r. (n, r) \<in> set (ap_status a) \<Longrightarrow> st_ioc_addr r = Some addr \<Longrightarrow> n \<in> set pvs"
    and "\<And>c. find (\<lambda>c. ic_address c = addr) cfgs = Some c \<Longrightarrow> ic_enabled c"
  defines "lost \<equiv> handle_disconnect hx addr pvs reason a"
  shows "iv_state (ioc_view_of cfgs (ap_status lost) addr) = IOC_DOWN \<and>
    iv_state (ioc_view_of cfgs (ap_status (handle_reconnect hx addr pvs lost)) addr) = IOC_UP \<and>
    iv_state (ioc_view_of cfgs (ap_status (handle_connect hx addr pvs lost)) addr) = IOC_UP"
proof -
  let ?down = "update_where (\<lambda>n _. n \<in> set pvs) (\<lambda>r. r \<lparr> st_state := ST_DISCONNECTED \<rparr>) (ap_status a)"
  have lost: "ap_status lost = ?down"
    using assms(2) by (simp add: lost_def handle_disconnect_def on_success_def)
  have down: "all_in_state 4 addr ?down"
    by (rule all_in_state_update) (use assms(3,4) in \<open>auto simp: st_defs\<close>)
  have member: "n \<in> set pvs" if "(n, r) \<in> set ?down" "st_ioc_addr r = Some addr" for n r
    using names_of_update[OF that(1)] that(2) assms(4) by (auto split: if_splits)
  have returned: "ap_status (handle_reconnect hx addr pvs lost) = update_where (\<lambda>n _. n \<in> set pvs)
      (\<lambda>r. r \<lparr> st_state := ST_ARCHIVING, st_connected_at := Some (hx_now hx) \<rparr>) ?down"
    using assms(2) by (simp add: handle_reconnect_def on_success_def lost)
  have up: "all_in_state 3 addr (ap_status (handle_reconnect hx addr pvs lost))"
    unfolding returned
    by (rule all_in_state_update) (use down member in \<open>auto simp: all_in_state_def st_defs\<close>)
  have "pvs \<noteq> []"
    using assms(3,4) by (auto simp: rows_of_def filter_empty_conv)
  let ?open = "update_where (\<lambda>n r. n \<in> set pvs \<and> st_state r \<in> {ST_INIT, ST_SEARCHING, ST_DISCONNECTED, ST_TIMEOUT})
      (\<lambda>r. r \<lparr> st_state := ST_CONNECTED, st_ioc_addr := Some addr, st_connected_at := Some (hx_now hx) \<rparr>) ?down"
  have opened: "ap_status (handle_connect hx addr pvs lost) =
      update_where (\<lambda>n r. n \<in> set pvs \<and> st_ioc_addr r \<noteq> Some addr) (\<lambda>r. r \<lparr> st_ioc_addr := Some addr \<rparr>) ?open"
    using assms(1,2) \<open>pvs \<noteq> []\<close> by (simp add: handle_connect_def on_success_def lost)
  have connected: "st_state r = 2" if "(n, r) \<in> set (ap_status (handle_connect hx addr pvs lost))" "st_ioc_addr r = Some addr" for n r
  proof -
    note here = that
    obtain r1 where r1: "(n, r1) \<in> set ?open"
        "r = (if n \<in> set pvs \<and> st_ioc_addr r1 \<noteq> Some addr then r1 \<lparr> st_ioc_addr := Some addr \<rparr> else r1)"
      using names_of_update[OF here(1)[unfolded opened]] by auto
    obtain r2 where r2: "(n, r2) \<in> set ?down" "r1 = (if n \<in> set pvs \<and> st_state r2 \<in> {ST_INIT, ST_SEARCHING, ST_DISCONNECTED, ST_TIMEOUT}
        then r2 \<lparr> st_state := ST_CONNECTED, st_ioc_addr := Some addr, st_connected_at := Some (hx_now hx) \<rparr> else r2)"
      using names_of_update[OF r1(1)] by blast
    have "n \<in> set pvs"
      using r1(2) r2(2) here(2) member[OF r2(1)] by (auto split: if_splits)
    moreover from this have "st_state r2 = ST_DISCONNECTED"
      using names_of_update[OF r2(1)] by auto
    ultimately show ?thesis
      using r1(2) r2(2) by (simp add: st_defs)
  qed
  have "rows_of addr (ap_status (handle_connect hx addr pvs lost)) \<noteq> []"
    unfolding opened by (intro rows_kept assms(3)) simp_all
  then have "all_in_state 2 addr (ap_status (handle_connect hx addr pvs lost))"
    using connected by (auto simp: all_in_state_def rows_of_eq)
  then show ?thesis
    using down up assms(5) by (auto simp: view_state lost derived_when_all split: option.split)
qed

text \<open>An address that a PV names is in the list once, declared or not.\<close>

lemma listed_once:
  assumes "rows_of addr tbl \<noteq> []" "\<And>vs. mset (by_label vs) = mset vs"
  shows "\<exists>vs. ioc_list ilike by_label None None None cfgs tbl = Ok vs \<and>
    filter (\<lambda>v. iv_address v = addr) vs = [ioc_view_of cfgs tbl addr]"
proof -
  let ?vs = "map (ioc_view_of cfgs tbl) (ioc_addresses cfgs tbl)"
  have "addr \<in> set (List.map_filter (st_ioc_addr \<circ> snd) tbl)"
    using assms(1) by (induction tbl) (auto simp: rows_of_def map_filter_simps split: option.split if_splits)
  then have one: "addr \<in> set (ioc_addresses cfgs tbl)" "distinct (ioc_addresses cfgs tbl)"
    by (simp_all add: ioc_addresses_def)
  have "filter (\<lambda>a. a = addr) as = (if addr \<in> set as then [addr] else [])" if "distinct as" for as :: "rstring list"
    using that by (induction as) auto
  moreover have "iv_address (ioc_view_of cfgs tbl a) = a" for a
    by (simp add: ioc_view_of_def Let_def)
  ultimately have "filter (\<lambda>v. iv_address v = addr) ?vs = [ioc_view_of cfgs tbl addr]"
    using one by (simp add: filter_map o_def)
  then have "mset (filter (\<lambda>v. iv_address v = addr) (by_label ?vs)) = {#ioc_view_of cfgs tbl addr#}"
    using assms(2)[of ?vs] by (metis mset.simps mset_filter)
  then have "filter (\<lambda>v. iv_address v = addr) (by_label ?vs) = [ioc_view_of cfgs tbl addr]"
    by (simp only: mset_single_iff)
  moreover have "ioc_list ilike by_label None None None cfgs tbl = Ok (by_label ?vs)"
    by (simp add: ioc_list_def list_pattern_def)
  ultimately show ?thesis
    by blast
qed

text \<open>The states the unfiltered list shows for an address.\<close>

definition listed where
  "listed ilike by_label cfgs addr a =
    (case ioc_list ilike by_label None None None cfgs (ap_status a) of
       Ok vs \<Rightarrow> map iv_state (filter (\<lambda>v. iv_address v = addr) vs) | Err _ \<Rightarrow> [])"

lemma listed_view:
  assumes "rows_of addr (ap_status a) \<noteq> []" "\<And>vs. mset (by_label vs) = mset vs"
  shows "listed ilike by_label cfgs addr a = [iv_state (ioc_view_of cfgs (ap_status a) addr)]"
  using listed_once[OF assms, of ilike cfgs] by (auto simp: listed_def)

lemma rows_of_disconnect: "rows_of addr (ap_status a) \<noteq> [] \<Longrightarrow> rows_of addr (ap_status (handle_disconnect hx x pvs reason a)) \<noteq> []"
  by (simp add: handle_disconnect_def on_success_def rows_kept)

lemma rows_of_reconnect: "rows_of addr (ap_status a) \<noteq> [] \<Longrightarrow> rows_of addr (ap_status (handle_reconnect hx x pvs a)) \<noteq> []"
  by (simp add: handle_reconnect_def on_success_def rows_kept)

lemma rows_of_connect: "rows_of addr (ap_status a) \<noteq> [] \<Longrightarrow> rows_of addr (ap_status (handle_connect hx addr pvs a)) \<noteq> []"
  by (simp add: handle_connect_def on_success_def rows_kept)

text \<open>C22. The list of IOCs shows what the main task recorded.  Take an IOC, declared or not but not disabled,
  that some PV names and all of whose PVs are among those of its session, and let the statements that
  update the status table succeed (a failed one leaves the states as they are).  The list has
  one entry for it: after its loss with the state DOWN, and when the session is back, or a new one has
  opened its channels, with the state UP again.\<close>

theorem list_shows_lost_and_recovered:
  fixes reason :: rstring
  assumes "hx_ok hx 0" "hx_ok hx 1" "rows_of addr (ap_status a) \<noteq> []"
    and "\<And>n r. (n, r) \<in> set (ap_status a) \<Longrightarrow> st_ioc_addr r = Some addr \<Longrightarrow> n \<in> set pvs"
    and "\<And>c. find (\<lambda>c. ic_address c = addr) cfgs = Some c \<Longrightarrow> ic_enabled c"
    and "\<And>vs. mset (by_label vs) = mset vs"
  defines "lost \<equiv> handle_disconnect hx addr pvs reason a"
  shows "listed ilike by_label cfgs addr lost = [IOC_DOWN] \<and>
    listed ilike by_label cfgs addr (handle_reconnect hx addr pvs lost) = [IOC_UP] \<and>
    listed ilike by_label cfgs addr (handle_connect hx addr pvs lost) = [IOC_UP]"
proof -
  have rows: "rows_of addr (ap_status lost) \<noteq> []"
    unfolding lost_def by (rule rows_of_disconnect[OF assms(3)])
  note shown = listed_view[OF _ assms(6)]
  show ?thesis
    using views_lost_and_recovered[OF assms(1-5), where reason = reason]
    by (simp add: lost_def[symmetric] shown[OF rows] shown[OF rows_of_reconnect[OF rows]] shown[OF rows_of_connect[OF rows]])
qed

text \<open>An IOC that is not declared, listed in the reverse order.\<close>

theorem list_shows_lost_and_recovered_witness:
  "let row = \<lparr> st_pv_id = Some 1, st_state = ST_ARCHIVING, st_ioc_addr = Some (ascii ''x:1''), st_subscribed_at = None,
         st_connected_at = None, st_last_event_at = None, st_events_total = 0, st_update_hz = 0,
         st_last_value = None, st_last_severity = 0 \<rparr>;
       b = example_app \<lparr> ap_status := [(ascii ''a'', row)] \<rparr>;
       c = \<lparr> ic_address = ascii ''y:1'', ic_label = [], ic_enabled = False, ic_created_at = 0 \<rparr>;
       lost = handle_disconnect (example_ctx 5) (ascii ''x:1'') [ascii ''a''] [] b
   in listed (\<lambda>_ _. True) rev [c] (ascii ''x:1'') lost = [IOC_DOWN] \<and>
      listed (\<lambda>_ _. True) rev [c] (ascii ''x:1'') (handle_reconnect (example_ctx 5) (ascii ''x:1'') [ascii ''a''] lost) = [IOC_UP]"
proof -
  let ?row = "\<lparr> st_pv_id = Some 1, st_state = ST_ARCHIVING, st_ioc_addr = Some (ascii ''x:1''), st_subscribed_at = None,
         st_connected_at = None, st_last_event_at = None, st_events_total = 0, st_update_hz = 0,
         st_last_value = None, st_last_severity = 0 \<rparr>"
  let ?b = "example_app \<lparr> ap_status := [(ascii ''a'', ?row)] \<rparr>"
  let ?c = "\<lparr> ic_address = ascii ''y:1'', ic_label = [], ic_enabled = False, ic_created_at = 0 \<rparr>"
  have "hx_ok (example_ctx 5) 0" "hx_ok (example_ctx 5) 1"
    by (simp_all add: example_ctx_def)
  moreover have "rows_of (ascii ''x:1'') (ap_status ?b) \<noteq> []"
    by (simp add: rows_of_def)
  ultimately show ?thesis
    using list_shows_lost_and_recovered[of "example_ctx 5" "ascii ''x:1''" ?b "[ascii ''a'']" "[?c]" rev "\<lambda>_ _. True" "[]"]
    by (simp add: Let_def ascii_def)
qed

text \<open>What can be declared, the main task can connect to: it parses the addresses of the table with
  the same parser, and a printed address is parsed back.\<close>

lemma create_keeps_parsable:
  assumes "\<And>a. parse (print a) = Some a" "\<forall>c \<in> set cfgs. parse (ic_address c) \<noteq> None"
    and "ioc_create parse print dbg st now address name cfgs = (r, cfgs')"
  shows "(\<forall>c \<in> set cfgs'. parse (ic_address c) \<noteq> None) \<and>
    (distinct (map ic_address cfgs) \<longrightarrow> distinct (map ic_address cfgs')) \<and> (isl r \<longrightarrow> cfgs' = cfgs)"
  using assms
  by (auto simp: ioc_create_def normalize_address_def Let_def split: sum.splits option.splits if_splits)

end
