(* ===== verification/Spec2Isabelle.thy ===== *)
theory Spec2Isabelle
  imports DriverAnswers StoreLoop Pipeline DiscoverFacts AlertFacts MainClaims Migrations ConfigStore Reader IocApi
begin

text \<open>
  Verification of aura-epics, an archiver in Rust that subscribes process variables (PVs) of EPICS IOCs
  over the PVAccess protocol and writes their values to TimescaleDB.

  \<^bold>\<open>The program.\<close>  A monitor session (\<open>aura-net\<close>) speaks PVAccess with one IOC over TCP: bytes are
  cut into frames, frames carry messages, a subscription starts with a description of the type of
  the PV, and each update is a change set with the changed fields.  The driver spreads the PVs over the
  sessions and reconnects them.  Sessions publish events on a bus with one bounded channel per ingest
  thread.  An ingest thread (\<open>aura-ingest\<close>) converts events to normative types, detects changes of
  metadata, repeats last values as heartbeats, and puts rows into a shared bounded buffer.  The store
  loop (\<open>aura-store\<close>) drains the buffers, and writers with retries send the rows as binary COPY.
  Discovery (\<open>aura-discover\<close>) polls the table of PV configurations and publishes commands.  The main
  task (\<open>src/main.rs\<close>, \<open>src/handlers.rs\<close>) connects them: it takes up commands, notifications and the
  lifecycle of the IOCs, and keeps the tables of status and events.

  \<^bold>\<open>The model.\<close>  Strings are byte lists, integers words of their width, floating point values their bit
  patterns (the conversions and comparisons that the code uses are written out on the bits), maps are
  association lists or partial maps, \<open>Result\<close> is a sum with \<open>Err\<close> and \<open>Ok\<close> for \<open>Inl\<close> and \<open>Inr\<close>.  Every
  operation is a function from state to result and state.  What the program cannot decide is an
  argument: the bytes of a socket, the answers of a server, the order in which a hash map is
  iterated, the clock, the outcome of a database statement, the calendar, and the number formatting
  of serde.  Concurrency is a sequence of atomic steps, as the mutexes and channels of the code give it.
\<close>

text \<open>
  \<^bold>\<open>Protocol\<close> (\<open>aura-net/src/codec\<close>, \<open>messages\<close>, \<open>types\<close>, \<open>runtime\<close>).
  \<^item> \<open>Prelude\<close>: byte layout, generic lemmas, the collections of hints.
  \<^item> \<open>Header\<close> (\<open>codec/header.rs\<close>): flags, decode, encode, validation; header and bytes determine each other.
  \<^item> \<open>Framing\<close> (\<open>codec/framing.rs\<close>): the decoder with its two states and the assembly of segments; what a
    chunked stream gives, that buffers stay bounded, that an assembled message is its segments.
  \<^item> \<open>Transport\<close> (\<open>runtime/tcp.rs\<close>) and \<open>Handshake\<close> (\<open>runtime/handshake.rs\<close>): reads and buffered writes,
    the validation dialogue.
  \<^item> \<open>PvData\<close> (\<open>codec/pvdata.rs\<close>): the reader, the writer, and the interface \<open>wire_codec\<close> - an encoder whose
    bytes the decoder reads back, leaving the rest - interpreted for every message and scalar below.
  \<^item> \<open>BitSet\<close> (\<open>codec/bitset.rs\<close>): change sets refine sets of numbers (interface \<open>index_set\<close>).
  \<^item> \<open>Scalars\<close> (\<open>aura-core/src/pva/scalars.rs\<close>), \<open>FieldDesc\<close> (\<open>codec/field_desc.rs\<close>), \<open>Commands\<close>
    (\<open>codec/commands.rs\<close>), \<open>Messages\<close> and \<open>Search\<close> (\<open>messages/*.rs\<close>), \<open>PvaVal\<close> (\<open>types/pva_value.rs\<close>): values,
    descriptions and messages, with their round trips and that decoding never reads outside its input.
  \<^item> \<open>Delta\<close> and \<open>Monitor\<close> (\<open>runtime/session.rs\<close>, \<open>monitor/subscription.rs\<close>): an update of a subscription.  The
    fast paths for scalars and waveforms agree with the generic decoder on the members that changed, an update
    taken by the generic decoder delivers exactly the changed members, and none touches another subscription.
  \<^item> \<open>Session\<close>, \<open>SessionFacts\<close>, \<open>Bulk\<close> (\<open>runtime/session.rs\<close>, \<open>client/connection.rs\<close>): channels and monitors of one
    session, the three rounds of a bulk subscription, against a server that grants everything, and the removal
    of a monitor at any point of the event loop.
  \<^item> \<open>Driver\<close>, \<open>DriverFacts\<close>, \<open>DriverAnswers\<close> (\<open>runtime/driver.rs\<close>): the search of PVs over the IOCs and
    who gets a PV, batches, unsubscription at any point of a driver's life, IOCs that join and leave, the waits of
    a reconnection.  Interfaces
    \<open>session_service\<close> and \<open>ioc_network\<close> state what the driver uses of the sessions; both are interpreted on
    the modelled sessions.

  \<^bold>\<open>From events to rows\<close>.
  \<^item> \<open>Buffers\<close>: the interface \<open>bounded_buffer\<close>; \<open>Bus\<close> (\<open>monitor/bus.rs\<close>) and \<open>SharedBuf\<close>
    (\<open>writer/shared_buf.rs\<close>) conserve what is pushed: it is read in order or counted as dropped.
  \<^item> \<open>Normative\<close>, \<open>ToNormative\<close>, \<open>Metadata\<close> (\<open>aura-core/src/pva\<close>, \<open>types/to_normative.rs\<close>, \<open>metadata.rs\<close>):
    normative types, their extraction from values, metadata and when it has changed.
  \<^item> \<open>Ingest\<close>, \<open>Heartbeat\<close>, \<open>Dispatch\<close> (\<open>aura-ingest/src\<close>, \<open>writer/mod.rs\<close>): what a batch of events archives, the
    heartbeats due, and that the two routes from a value to its row agree.
  \<^item> \<open>CopyRows\<close>, \<open>JsonRows\<close>, \<open>JsonFacts\<close>, \<open>CopyPool\<close>, \<open>Writers\<close>, \<open>BundleFlush\<close>, \<open>PvCache\<close>, \<open>StoreLoop\<close>
    (\<open>aura-store/src\<close>): the binary COPY payload and its parser, the writers (interface \<open>batch_writer_buffer\<close>), the
    parallel flush with retries of the six sections of a bundle, the cache of PV ids, and the loop that accounts for
    what it takes as written, waiting, refused or lost.  \<open>JsonFacts\<close> gives the tuples of JSON captures and images; a
    capture without elements has none and leaves no trace (\<open>empty_captures_vanish\<close>).
  \<^item> \<open>Pipeline\<close>: a value that arrives on the wire is in the payload that is sent to the database.

  \<^bold>\<open>Tables and control\<close>.
  \<^item> \<open>Discover\<close>, \<open>DiscoverFacts\<close> (\<open>aura-discover/src\<close>): the commands published, replayed, subscribe exactly the
    PVs that the table enabled at the last poll that succeeded.
  \<^item> \<open>ConfigStore\<close> (\<open>pv_config.rs\<close>), \<open>MetaStore\<close> (\<open>aura-store/src/metadata.rs\<close>), \<open>Alerts\<close>, \<open>AlertFacts\<close>
    (\<open>alerts.rs\<close>), \<open>Reader\<close> (\<open>reader.rs\<close>), \<open>Migrations\<close> (\<open>migrations.rs\<close>): the data access objects over lists of
    rows: batches, incremental polling, summaries, ranges, and runs that resume after a failure.
  \<^item> \<open>Handlers\<close>, \<open>MainLoop\<close>, \<open>MainFacts\<close>, \<open>MainClaims\<close> (\<open>src/handlers.rs\<close>, \<open>src/main.rs\<close>): the main task as a function of
    the turn it takes.  \<open>MainFacts\<close> holds the invariant, handler by handler; \<open>MainClaims\<close> the properties.
  \<^item> \<open>IocApi\<close> (\<open>aura-api/src/iocs.rs\<close>, \<open>error.rs\<close>): the state of an IOC derived from its PVs, the list and the
    declaration of IOCs; the list shows what the main task recorded.
\<close>

text \<open>
  \<^bold>\<open>Bounds and fuel.\<close>  \<open>decode_full\<close> of a description recurses with the number of bytes left plus one as fuel;
  \<open>decode_full_fuel\<close> shows that more changes nothing.  Values are decoded along their description and
  need no fuel.  The other loops recurse on what they consume: frames and dialogue loops on the
  input that is left, chunks and batches on the list, the reading loops of a session on the frames
  that arrive, the loop of the store on its list of events.  Loops that wait for the outside
  (a reconnection, a retry) are functions of the list of its answers; liveness is stated for lists that
  contain the answer waited for.

  \<^bold>\<open>Hypotheses.\<close>  Interfaces of code outside the repository are assumed as documented: a hash map is
  iterated in some order of its entries, a failing transaction changes nothing, ORDER BY sorts, the
  tables answer with their rows (\<open>pv_lookup_laws\<close>, with \<open>list_pv_lookup\<close> as an instance), the calendar and the
  number formatting are functions.  The flush assumes that each COPY is a transaction, so that a refused one
  stored nothing (\<open>transactional\<close>); an error that comes while a COPY is closed over a lost connection, when the
  commit may have happened, is outside it.  Each property with a hypothesis has a witness on concrete data.

  \<^bold>\<open>Simplifications.\<close>  The time of the host is read once per call of a handler.  The column \<open>health_score\<close> and the
  rate of updates are computed by floating point arithmetic that is a parameter or left out.  A
  statement fails as a whole.  Memory is unlimited.

  \<^bold>\<open>Not modelled.\<close>  The configuration file (serde structures), telemetry, the terminal, the
  routing and serving of HTTP, the atomic counters of metrics and health beyond their sequential effect, the client
  pool (used by nothing in the program) and the client's environment variables, the text renderings of
  metadata, the spawning of tasks and threads, signals, the tuning of chunk intervals and the reload of
  heartbeats: they are glue over libraries, or print.
\<close>

end
